(* ===== verification/SDK_Prelude.thy ===== *)
theory SDK_Prelude
  imports Main "HOL-Library.Word"
begin

text \<open>
  Shared vocabulary of the development.

  \<^item> machine integers: \<open>u8\<close>, \<open>u16\<close> and \<open>u32\<close> are the C types of the same width;
  \<^item> buffers: a C buffer with its length is a list of bytes, \<open>blit\<close> is \<open>memcpy\<close> into one,
    \<open>bytes_sum\<close> is the 32-bit additive checksum the sources compute over one;
  \<^item> address spaces: \<open>mem_write\<close> and \<open>content\<close> write and read a run of bytes of a
    32-bit address space, addresses wrapping as \<open>u32\<close> does;
  \<^item> \<open>step_machine\<close>: the contract of every event handler of the program, a step that keeps
    an invariant, and what follows for every sequence of events;
  \<^item> \<open>refined_machine\<close>: a machine that follows a specification step by step.
\<close>

unbundle bit_operations_syntax

type_synonym u8 = "8 word"
type_synonym u16 = "16 word"
type_synonym u32 = "32 word"

named_theorems c_arith \<open>facts that move word arithmetic to the naturals\<close>

text \<open>
  What a C call that may not come back does: it returns, stops in a failed \<open>ASSERT\<close> (an endless
  loop, \<open>beken378/common/generic.h\<close>), or leaves the bounds of an array or a NULL pointer.
\<close>

datatype 'a c_run = Ret 'a | Assert_Stop | Fault

definition c_then :: "'a c_run \<Rightarrow> ('a \<Rightarrow> 'b c_run) \<Rightarrow> 'b c_run" where
  "c_then r f = (case r of Ret x \<Rightarrow> f x | Assert_Stop \<Rightarrow> Assert_Stop | Fault \<Rightarrow> Fault)"

lemma c_then_simps [simp]:
  "c_then (Ret x) f = f x" "c_then Assert_Stop f = Assert_Stop" "c_then Fault f = Fault"
  by (simp_all add: c_then_def)

text \<open>A series of steps, up to the first that stops or faults.\<close>

fun c_steps :: "('i \<Rightarrow> 's \<Rightarrow> 's c_run) \<Rightarrow> 'i list \<Rightarrow> 's \<Rightarrow> 's c_run" where
  "c_steps step [] s = Ret s"
| "c_steps step (i # is) s = c_then (step i s) (c_steps step is)"

lemma c_steps_Ret: "c_steps (\<lambda>i s. Ret (f i s)) is s = Ret (fold f is s)"
  by (induction "is" arbitrary: s) simp_all

text \<open>The codes the Tuya SDK returns.\<close>

definition OPRT_OK :: int where "OPRT_OK = 0"
definition OPRT_COM_ERROR :: int where "OPRT_COM_ERROR = -1"
definition OPRT_INVALID_PARM :: int where "OPRT_INVALID_PARM = -2"
definition OPRT_MALLOC_FAILED :: int where "OPRT_MALLOC_FAILED = -3"

section \<open>Words as naturals\<close>

lemma word_less_unat [c_arith]: "(a :: 'a::len word) < b \<longleftrightarrow> unat a < unat b"
  by (rule word_less_nat_alt)

lemma word_le_unat [c_arith]: "(a :: 'a::len word) \<le> b \<longleftrightarrow> unat a \<le> unat b"
  by (rule word_le_nat_alt)

lemma unat_lt32: "unat (w :: u32) < 4294967296"
  using unsigned_less [of w] by simp

lemma unat_plus32:
  "unat a + unat b < 4294967296 \<Longrightarrow> unat ((a :: u32) + b) = unat a + unat b"
  by (simp add: unat_word_ariths)

lemma unat_minus32:
  "unat b \<le> unat a \<Longrightarrow> unat ((a :: u32) - b) = unat a - unat b"
  by (simp add: unat_sub word_le_nat_alt)

lemma unat_of_nat32: "n < 4294967296 \<Longrightarrow> unat (of_nat n :: u32) = n"
  by (simp add: unat_of_nat take_bit_nat_eq_self)

lemma unat_mult32:
  "unat a * unat b < 4294967296 \<Longrightarrow> unat ((a :: u32) * b) = unat a * unat b"
  by (simp add: unat_word_ariths)

lemma unat_ucast_16_32 [simp]: "unat (ucast (w :: u16) :: u32) = unat w"
proof -
  have "unat w < 2 ^ 32" by (rule less_trans [OF unsigned_less [of w]]) simp
  then show ?thesis by (simp add: unsigned_ucast_eq take_bit_nat_eq_self)
qed

section \<open>Buffers\<close>

definition blit :: "'a list \<Rightarrow> nat \<Rightarrow> 'a list \<Rightarrow> 'a list" where
  "blit dst off src = take off dst @ src @ drop (off + length src) dst"

lemma length_blit [simp]: "off + length src \<le> length dst \<Longrightarrow> length (blit dst off src) = length dst"
  by (simp add: blit_def)

lemma blit_Nil [simp]: "blit dst off [] = dst"
  by (simp add: blit_def)

lemma nth_blit:
  assumes "off + length src \<le> length dst" "i < length dst"
  shows "blit dst off src ! i =
     (if off \<le> i \<and> i < off + length src then src ! (i - off) else dst ! i)"
proof (cases "i < off")
  case True
  with assms show ?thesis by (simp add: blit_def nth_append)
next
  case False
  with assms show ?thesis by (auto simp: blit_def nth_append min_def)
qed

definition bytes_sum :: "u8 list \<Rightarrow> u32" where
  "bytes_sum bs = sum_list (map ucast bs)"

lemma bytes_sum_simps [simp]:
  "bytes_sum [] = 0"
  "bytes_sum (b # bs) = ucast b + bytes_sum bs"
  "bytes_sum (as @ bs) = bytes_sum as + bytes_sum bs"
  by (simp_all add: bytes_sum_def)

section \<open>A 32-bit address space of bytes\<close>

type_synonym mem = "u32 \<Rightarrow> u8"

definition mem_write :: "mem \<Rightarrow> u32 \<Rightarrow> u8 list \<Rightarrow> mem" where
  "mem_write m a bs = (\<lambda>x. if unat (x - a) < length bs then bs ! unat (x - a) else m x)"

definition content :: "mem \<Rightarrow> u32 \<Rightarrow> nat \<Rightarrow> u8 list" where
  "content m a n = map (\<lambda>i. m (a + of_nat i)) [0..<n]"

lemma length_content [simp]: "length (content m a n) = n"
  by (simp add: content_def)

lemma content_0 [simp]: "content m a 0 = []"
  by (simp add: content_def)

lemma content_Suc: "content m a (Suc n) = content m a n @ [m (a + of_nat n)]"
  by (simp add: content_def)

lemma content_add: "content m a (n + k) = content m a n @ content m (a + of_nat n) k"
  by (induction k) (simp_all add: content_Suc add.assoc)

lemma mem_write_Nil [simp]: "mem_write m a [] = m"
  by (simp add: mem_write_def)

lemma content_written:
  assumes "length bs \<le> 4294967296"
  shows "content (mem_write m a bs) a (length bs) = bs"
proof (rule nth_equalityI)
  show "length (content (mem_write m a bs) a (length bs)) = length bs" by simp
next
  fix i assume "i < length (content (mem_write m a bs) a (length bs))"
  then have "i < length bs" by simp
  moreover from this assms have "unat (of_nat i :: u32) = i"
    by (intro unat_of_nat32) simp
  ultimately show "content (mem_write m a bs) a (length bs) ! i = bs ! i"
    by (simp add: content_def mem_write_def)
qed

lemma content_below:
  assumes "n + length bs \<le> 4294967296"
  shows "content (mem_write m (a + of_nat n) bs) a n = content m a n"
proof (rule nth_equalityI)
  fix i assume i: "i < length (content (mem_write m (a + of_nat n) bs) a n)"
  show "content (mem_write m (a + of_nat n) bs) a n ! i = content m a n ! i"
  proof (cases "bs = []")
    case True
    then show ?thesis by simp
  next
    case False
    with i assms have n: "i < n" "n < 4294967296" by (auto simp: Suc_le_eq neq_Nil_conv)
    have "(a + of_nat i) - (a + of_nat n) = (of_nat (4294967296 + i - n) :: u32)"
      using n by (simp add: of_nat_diff)
    moreover have "unat (of_nat (4294967296 + i - n) :: u32) = 4294967296 + i - n"
      using n by (intro unat_of_nat32) simp
    ultimately have "unat ((a + of_nat i) - (a + of_nat n)) = 4294967296 + i - n"
      by (simp only:)
    with n assms have "\<not> unat ((a + of_nat i) - (a + of_nat n)) < length bs"
      by (simp only:)
    then show ?thesis
      using n by (simp add: content_def mem_write_def)
  qed
qed simp

lemma content_extend:
  assumes "n + length bs \<le> 4294967296"
  shows "content (mem_write m (a + of_nat n) bs) a (n + length bs) = content m a n @ bs"
  using assms by (simp add: content_add content_below content_written)

text \<open>Programming a NOR flash only clears bits: a byte becomes its conjunction with the byte written.\<close>

definition nor_write :: "mem \<Rightarrow> u32 \<Rightarrow> u8 list \<Rightarrow> mem" where
  "nor_write m a bs = (\<lambda>x. if unat (x - a) < length bs then m x AND bs ! unat (x - a) else m x)"

lemma nor_write_Nil [simp]: "nor_write m a [] = m"
  by (simp add: nor_write_def)

lemma and_0xFF [simp]: "(x :: u8) AND 0xFF = x"
proof -
  have "(0xFF :: u8) = -1" by simp
  then show ?thesis by (simp only: and.right_neutral)
qed

lemma nor_write_at:
  assumes "i < 4294967296" "n + length bs \<le> 4294967296"
  shows "nor_write m (a + of_nat n) bs (a + of_nat i) =
    (if n \<le> i \<and> i < n + length bs then m (a + of_nat i) AND bs ! (i - n) else m (a + of_nat i))"
proof (cases "n < 4294967296")
  case False
  with assms(2) have "bs = []" by (cases bs) simp_all
  then show ?thesis by auto
next
  case True
  have "(a + of_nat i) - (a + of_nat n) = (of_nat i :: u32) - of_nat n" by simp
  moreover have "unat ((of_nat i :: u32) - of_nat n) = (if n \<le> i then i - n else 4294967296 + i - n)"
  proof (cases "n \<le> i")
    case le: True
    with assms(1) have "unat ((of_nat i :: u32) - of_nat n) = unat (of_nat i :: u32) - unat (of_nat n :: u32)"
      by (intro unat_minus32) (simp add: unat_of_nat32)
    with le assms(1) show ?thesis by (simp add: unat_of_nat32)
  next
    case gt: False
    then have "(of_nat i :: u32) - of_nat n = of_nat (4294967296 + i - n)"
      using True by (simp add: of_nat_diff)
    then show ?thesis using gt by (simp only: if_False) (simp add: unat_of_nat32)
  qed
  ultimately show ?thesis using assms by (auto simp: nor_write_def)
qed

section \<open>Words in memory\<close>

text \<open>A 32-bit word as the four bytes that the processor stores, least significant first.\<close>

definition word_bytes :: "u32 \<Rightarrow> u8 list" where
  "word_bytes w = [ucast w, ucast (drop_bit 8 w), ucast (drop_bit 16 w), ucast (drop_bit 24 w)]"

fun bytes_word :: "u8 list \<Rightarrow> u32" where
  "bytes_word [a, b, c, d] = ucast a OR push_bit 8 (ucast b) OR push_bit 16 (ucast c) OR push_bit 24 (ucast d)"
| "bytes_word _ = 0"

lemma bit_u8_high [simp]: "\<not> bit (x :: u8) (8 + n)" "\<not> bit (x :: u8) (16 + n)" "\<not> bit (x :: u8) (24 + n)"
  using bit_imp_le_length [of x] by fastforce+

lemma word_bytes_bytes_word: "word_bytes (bytes_word [a, b, c, d]) = [a, b, c, d]"
  unfolding word_bytes_def
  by (auto intro!: bit_word_eqI simp: bit_simps)

lemma bytes_word_word_bytes [simp]: "bytes_word (word_bytes w) = w"
proof (rule bit_word_eqI)
  fix n :: nat assume "n < LENGTH(32)"
  then consider "n < 8" | "8 \<le> n" "n < 16" | "16 \<le> n" "n < 24" | "24 \<le> n" "n < 32" by fastforce
  then show "bit (bytes_word (word_bytes w)) n = bit w n"
    by cases (auto simp: word_bytes_def bit_simps)
qed

lemma length_word_bytes [simp]: "length (word_bytes w) = 4"
  by (simp add: word_bytes_def)

section \<open>Event handlers that keep an invariant\<close>

locale step_machine =
  fixes step :: "'e \<Rightarrow> 's \<Rightarrow> 's"
    and inv :: "'s \<Rightarrow> bool"
  assumes step_keeps: "inv s \<Longrightarrow> inv (step e s)"
begin

lemma run_keeps: "inv s \<Longrightarrow> inv (fold step es s)"
  by (induction es arbitrary: s) (simp_all add: step_keeps)

lemma every_state_keeps: "inv s \<Longrightarrow> n \<le> length es \<Longrightarrow> inv (fold step (take n es) s)"
  by (rule run_keeps)

end

text \<open>
  A machine whose steps return and follow those of a specification, for every input that is typed: then so do its runs.
\<close>

locale refined_machine =
  fixes step :: "'e \<Rightarrow> 's \<Rightarrow> 's c_run"
    and spec :: "'e \<Rightarrow> 'a \<Rightarrow> 'a"
    and rel :: "'s \<Rightarrow> 'a \<Rightarrow> bool"
    and typed :: "'e \<Rightarrow> bool"
  assumes step_refines: "rel s a \<Longrightarrow> typed e \<Longrightarrow> \<exists>s1. step e s = Ret s1 \<and> rel s1 (spec e a)"
begin

lemma run_refines: "rel s a \<Longrightarrow> list_all typed es \<Longrightarrow> \<exists>s1. c_steps step es s = Ret s1 \<and> rel s1 (fold spec es a)"
proof (induction es arbitrary: s a)
  case (Cons e es)
  then obtain s1 where "step e s = Ret s1" "rel s1 (spec e a)" using step_refines [of s a e] by auto
  then show ?case using Cons.IH [of s1 "spec e a"] Cons.prems by auto
qed simp

end

section \<open>Calls that may not return\<close>

text \<open>A call and then what follows it; \<open>None\<close> is a call that does not return.\<close>

definition and_then :: "'a c_run option \<Rightarrow> ('a \<Rightarrow> 'b c_run option) \<Rightarrow> 'b c_run option" where
  "and_then r f = (case r of
     None \<Rightarrow> None | Some (Ret x) \<Rightarrow> f x | Some Assert_Stop \<Rightarrow> Some Assert_Stop | Some Fault \<Rightarrow> Some Fault)"

lemma and_then_simps [simp]:
  "and_then None f = None" "and_then (Some (Ret x)) f = f x"
  "and_then (Some Assert_Stop) f = Some Assert_Stop" "and_then (Some Fault) f = Some Fault"
  by (simp_all add: and_then_def)

lemma and_then_returns: "and_then r f = Some (Ret y) \<longleftrightarrow> (\<exists>x. r = Some (Ret x) \<and> f x = Some (Ret y))"
  by (auto simp: and_then_def split: option.splits c_run.splits)

text \<open>A series of calls, each with its input.\<close>

fun run_calls :: "('i \<Rightarrow> 's \<Rightarrow> 's c_run option) \<Rightarrow> 'i list \<Rightarrow> 's \<Rightarrow> 's c_run option" where
  "run_calls call [] s = Some (Ret s)"
| "run_calls call (i # is) s = and_then (call i s) (run_calls call is)"

locale call_machine =
  fixes call :: "'i \<Rightarrow> 's \<Rightarrow> 's c_run option"
    and inv :: "'s \<Rightarrow> bool"
  assumes call_keeps: "inv s \<Longrightarrow> call i s = Some (Ret s1) \<Longrightarrow> inv s1"
begin

lemma calls_keep: "inv s \<Longrightarrow> run_calls call is s = Some (Ret s1) \<Longrightarrow> inv s1"
proof (induction "is" arbitrary: s)
  case (Cons i "is")
  then show ?case by (auto simp: and_then_returns dest: call_keeps)
qed simp

end

end
