(* ===== verification/Tuya_Ota.thy ===== *)
theory Tuya_Ota
  imports SDK_Prelude
begin

text \<open>
  Firmware upgrade of the gateway, \<open>project/tuya_common/src/tuya_main.c\<close>.

  The IoT library downloads an upgrade file and calls \<open>__gw_upgrage_process_cb\<close> with each
  piece of it; the callback answers how many bytes at the end of the piece it leaves
  unprocessed (\<open>remain_len\<close>), which the library presents again in front of the next piece
  (\<open>GET_FILE_DATA_CB\<close> in \<open>tuya_cloud_com_defs.h\<close>). The file starts with a 32-byte header;
  the image behind it is written to flash in units of 512 bytes from \<open>UG_START_ADDR\<close> on.
  When the download is over, \<open>__gw_upgrade_notify_cb\<close> reads the image back, compares its
  byte sum with the header's and resets the device.

  The flash driver \<open>uni_flash_*\<close> is part of the prebuilt Tuya library, so its four
  operations are a parameter. \<open>uni_storge.h\<close> gives their arguments and results; what they do to
  the chip is what flash memory does (\<open>flash_laws\<close>, the behaviour that \<open>Flash\<close> and \<open>Bk_Flash\<close>
  prove of this repository's own driver): an erase sets the bytes of its range to \<open>0xFF\<close> and a
  write only clears bits. A write stores its bytes only where the flash was erased before.
\<close>

section \<open>State\<close>

datatype ug_stat = UGS_RECV_HEADER | UGS_RECV_IMG_DATA | UGS_FINISH

record update_file_hdr =
  header_flag :: u32
  sw_version :: "u8 list"
  bin_len :: u32
  bin_sum :: u32
  head_sum :: u32
  tail_flag :: u32

record ug_proc =
  file_header :: update_file_hdr
  flash_addr :: u32
  start_addr :: u32
  recv_data_cnt :: u32
  ug_state :: ug_stat

definition UG_PKG_HEAD :: u32 where "UG_PKG_HEAD = 0x55aa55aa"
definition UG_PKG_TAIL :: u32 where "UG_PKG_TAIL = 0xaa55aa55"
definition UG_START_ADDR :: u32 where "UG_START_ADDR = 0x132000"
definition RT_IMG_WR_UNIT :: nat where "RT_IMG_WR_UNIT = 512"
definition UG_HDR_SIZE :: nat where "UG_HDR_SIZE = 32"
definition BUF_SIZE :: u32 where "BUF_SIZE = 4096"

definition OPRT_WR_FLASH_ERROR :: int where "OPRT_WR_FLASH_ERROR = -1005"

lemmas oprt_defs = OPRT_OK_def OPRT_COM_ERROR_def OPRT_INVALID_PARM_def
  OPRT_MALLOC_FAILED_def OPRT_WR_FLASH_ERROR_def

text \<open>
  The flash driver: protection, erase and write (with an \<open>OPERATE_RET\<close>, not 0 on failure) and the
  bytes a read leaves in the buffer.
\<close>

record 'f flash_ops =
  fl_protect :: "bool \<Rightarrow> 'f \<Rightarrow> 'f"
  fl_erase :: "u32 \<Rightarrow> u32 \<Rightarrow> 'f \<Rightarrow> int \<times> 'f"
  fl_write :: "u32 \<Rightarrow> u8 list \<Rightarrow> 'f \<Rightarrow> int \<times> 'f"
  fl_read :: "u32 \<Rightarrow> u32 \<Rightarrow> 'f \<Rightarrow> u8 list"

section \<open>Starting an upgrade\<close>

definition hdr_zero :: update_file_hdr where
  "hdr_zero = \<lparr>header_flag = 0, sw_version = replicate 12 0, bin_len = 0, bin_sum = 0,
     head_sum = 0, tail_flag = 0\<rparr>"

definition ug_zero :: ug_proc where
  "ug_zero = \<lparr>file_header = hdr_zero, flash_addr = 0, start_addr = 0, recv_data_cnt = 0,
     ug_state = UGS_RECV_HEADER\<rparr>"

text \<open>\<open>ug_proc\<close> is a pointer; \<open>None\<close> is NULL, what a failed \<open>Malloc\<close> leaves in it.\<close>

definition mf_gw_ug_inform_cb :: "bool \<Rightarrow> ug_proc option" where
  "mf_gw_ug_inform_cb malloc_ok = (if malloc_ok then Some ug_zero else None)"

text \<open>
  \<open>__gw_ug_inform_cb\<close> answers whether it handled the request (\<open>handled\<close>), the pointer, and
  whether it got as far as to hand the callbacks to \<open>tuya_iot_upgrade_gw\<close>.
\<close>

definition gw_ug_inform_cb ::
    "bool \<Rightarrow> bool \<Rightarrow> ug_proc option \<Rightarrow> bool \<times> ug_proc option \<times> bool" where
  "gw_ug_inform_cb is_wifi_module malloc_ok ug =
     (if \<not> is_wifi_module then (False, ug, False)
      else if malloc_ok then (True, Some ug_zero, True)
      else (True, None, False))"

section \<open>Receiving the file\<close>

definition be32 :: "u8 list \<Rightarrow> nat \<Rightarrow> u32" where
  "be32 d i = push_bit 24 (ucast (d ! i)) OR push_bit 16 (ucast (d ! (i + 1)))
     OR push_bit 8 (ucast (d ! (i + 2))) OR ucast (d ! (i + 3))"

definition parse_hdr :: "u8 list \<Rightarrow> update_file_hdr" where
  "parse_hdr d = \<lparr>header_flag = be32 d 0, sw_version = take 12 (drop 4 d), bin_len = be32 d 16,
     bin_sum = be32 d 20, head_sum = be32 d 24, tail_flag = be32 d 28\<rparr>"

definition hdr_sum :: "u8 list \<Rightarrow> u32" where
  "hdr_sum d = bytes_sum (take (UG_HDR_SIZE - 8) d)"

text \<open>
  A call of the callback yields its return value, \<open>*remain_len\<close> (the old value where the
  code does not assign it), the new \<open>*ug_proc\<close> and the flash.
\<close>

type_synonym 'f ug_result = "int \<times> u32 \<times> ug_proc \<times> 'f"

definition ug_recv_header :: "'f flash_ops \<Rightarrow> ug_proc \<Rightarrow> u8 list \<Rightarrow> u32 \<Rightarrow> 'f \<Rightarrow> 'f ug_result" where
  "ug_recv_header F p data remain fl =
     (let len = of_nat (length data) :: u32 in
      if len < of_nat UG_HDR_SIZE then (OPRT_OK, len, p, fl)
      else
        (let h = parse_hdr data in
         if header_flag h \<noteq> UG_PKG_HEAD \<or> tail_flag h \<noteq> UG_PKG_TAIL \<or> head_sum h \<noteq> hdr_sum data
         then (OPRT_COM_ERROR, remain, p\<lparr>file_header := hdr_zero\<rparr>, fl)
         else
           (let p' = p\<lparr>file_header := h, start_addr := UG_START_ADDR, flash_addr := UG_START_ADDR,
                       ug_state := UGS_RECV_IMG_DATA, recv_data_cnt := 0\<rparr>
            in (OPRT_OK, len - of_nat UG_HDR_SIZE, p',
                snd (fl_erase F (start_addr p') (bin_len h) (fl_protect F False fl))))))"

text \<open>
  The loop over whole units: \<open>rest\<close> is \<open>&data[len - write_len]\<close>, so \<open>write_len\<close> is its
  length. The first component says whether a write failed, which returns from the callback.
\<close>

function write_units ::
    "'f flash_ops \<Rightarrow> ug_proc \<Rightarrow> u8 list \<Rightarrow> u32 \<Rightarrow> 'f
       \<Rightarrow> bool \<times> ug_proc \<times> u8 list \<times> u32 \<times> 'f" where
  "write_units F p rest remain fl =
     (if RT_IMG_WR_UNIT \<le> length rest then
        (case fl_write F (flash_addr p) (take RT_IMG_WR_UNIT rest) fl of (err, fl') \<Rightarrow>
           if err \<noteq> 0 then (True, p, rest, remain, fl')
           else write_units F
                  (p\<lparr>flash_addr := flash_addr p + of_nat RT_IMG_WR_UNIT,
                     recv_data_cnt := recv_data_cnt p + of_nat RT_IMG_WR_UNIT\<rparr>)
                  (drop RT_IMG_WR_UNIT rest)
                  (of_nat (length (drop RT_IMG_WR_UNIT rest))) fl')
      else (False, p, rest, remain, fl))"
  by pat_completeness auto
termination
  by (relation "measure (\<lambda>(F, p, rest, r, fl). length rest)") (auto simp: RT_IMG_WR_UNIT_def)

declare write_units.simps [simp del]

definition ug_recv_img :: "'f flash_ops \<Rightarrow> ug_proc \<Rightarrow> u8 list \<Rightarrow> u32 \<Rightarrow> 'f \<Rightarrow> 'f ug_result" where
  "ug_recv_img F p data remain fl =
     (let len = of_nat (length data) :: u32;
          blen = bin_len (file_header p);
          unit = of_nat RT_IMG_WR_UNIT
      in if len < unit \<and> recv_data_cnt p \<le> blen - unit then (OPRT_OK, len, p, fl)
      else
        (case write_units F p data len fl of (failed, p1, rest, rem1, fl1) \<Rightarrow>
         if failed then (OPRT_WR_FLASH_ERROR, rem1, p1, fl1)
         else
           (let write_len = of_nat (length rest) :: u32;
                finish = (\<lambda>q r g. (OPRT_OK, r,
                  (if blen \<le> recv_data_cnt q then q\<lparr>ug_state := UGS_FINISH\<rparr> else q), g))
            in if blen - unit < recv_data_cnt p1 \<and> blen - recv_data_cnt p1 \<le> write_len then
                 (case fl_write F (flash_addr p1) rest fl1 of (err, fl2) \<Rightarrow>
                    if err \<noteq> 0 then (OPRT_WR_FLASH_ERROR, rem1, p1, fl2)
                    else finish (p1\<lparr>flash_addr := flash_addr p1 + write_len,
                                    recv_data_cnt := recv_data_cnt p1 + write_len\<rparr>) 0 fl2)
               else finish p1 rem1 fl1)))"

definition gw_upgrade_process_cb ::
    "'f flash_ops \<Rightarrow> ug_proc \<Rightarrow> u8 list \<Rightarrow> u32 \<Rightarrow> 'f \<Rightarrow> 'f ug_result" where
  "gw_upgrade_process_cb F p data remain fl =
     (case ug_state p of
        UGS_RECV_HEADER \<Rightarrow> ug_recv_header F p data remain fl
      | UGS_RECV_IMG_DATA \<Rightarrow> ug_recv_img F p data remain fl
      | UGS_FINISH \<Rightarrow> (OPRT_OK, 0, p, fl))"

section \<open>The end of the download\<close>

text \<open>
  The checksum loop runs over a \<open>u32\<close> index in steps of \<open>BUF_SIZE\<close>. \<open>None\<close> is a loop that
  does not end: the index wraps when \<open>bin_len\<close> is within \<open>BUF_SIZE\<close> of \<open>2^32\<close>.
\<close>

partial_function (option) checksum_loop ::
    "'f flash_ops \<Rightarrow> ug_proc \<Rightarrow> 'f \<Rightarrow> u32 \<Rightarrow> u32 \<Rightarrow> u32 option" where
  "checksum_loop F p fl i acc =
     (if i < bin_len (file_header p) then
        (let left = bin_len (file_header p) - i;
             rlen = (if BUF_SIZE \<le> left then BUF_SIZE else left)
         in checksum_loop F p fl (i + BUF_SIZE)
              (acc + bytes_sum (take (unat rlen) (fl_read F (start_addr p + i) rlen fl))))
      else Some acc)"

datatype ug_verdict = UG_Reset | UG_ChecksumError | UG_DownloadFailed

definition gw_upgrade_notify_cb ::
    "'f flash_ops \<Rightarrow> ug_proc \<Rightarrow> int \<Rightarrow> 'f \<Rightarrow> (ug_verdict \<times> 'f) option" where
  "gw_upgrade_notify_cb F p download_result fl =
     (let fl' = fl_protect F True fl in
      if download_result = OPRT_OK then
        map_option (\<lambda>s. (if s \<noteq> bin_sum (file_header p) then UG_ChecksumError else UG_Reset, fl'))
          (checksum_loop F p fl' 0 0)
      else Some (UG_DownloadFailed, fl'))"

text \<open>
  The production-test variant verifies the same way. It answers \<open>OPRT_OK\<close>, or returns without a
  value after a checksum error (\<open>None\<close> inside), and frees \<open>ug_proc\<close> on both paths.
\<close>

definition mf_gw_upgrade_notify_cb :: "'f flash_ops \<Rightarrow> ug_proc \<Rightarrow> 'f \<Rightarrow> (int option \<times> 'f) option" where
  "mf_gw_upgrade_notify_cb F p fl =
     (let fl' = fl_protect F True fl in
      map_option (\<lambda>s. (if s \<noteq> bin_sum (file_header p) then None else Some OPRT_OK, fl'))
        (checksum_loop F p fl' 0 0))"

section \<open>Flash memory\<close>

definition flash_laws :: "'f flash_ops \<Rightarrow> ('f \<Rightarrow> mem) \<Rightarrow> bool" where
  "flash_laws F mem \<longleftrightarrow>
     (\<forall>a bs fl. fst (fl_write F a bs fl) = 0 \<longrightarrow>
        mem (snd (fl_write F a bs fl)) = nor_write (mem fl) a bs) \<and>
     (\<forall>a n fl. fst (fl_erase F a n fl) = 0 \<longrightarrow>
        content (mem (snd (fl_erase F a n fl))) a (unat n) = replicate (unat n) 0xFF) \<and>
     (\<forall>b fl. mem (fl_protect F b fl) = mem fl) \<and>
     (\<forall>a n fl. fl_read F a n fl = content (mem fl) a (unat n))"

text \<open>
  The callback does not look at the result of \<open>uni_flash_erase\<close>; that the erase of a flash whose
  protection is off succeeds is a hypothesis of its own.
\<close>

definition flash_erases :: "'f flash_ops \<Rightarrow> bool" where
  "flash_erases F \<longleftrightarrow> (\<forall>a n fl. fst (fl_erase F a n (fl_protect F False fl)) = 0)"

lemma flash_writeD:
  "flash_laws F mem \<Longrightarrow> fl_write F a bs fl = (0, fl') \<Longrightarrow> mem fl' = nor_write (mem fl) a bs"
  unfolding flash_laws_def by (metis fst_conv snd_conv)

lemma flash_erasedD:
  assumes "flash_laws F mem" "flash_erases F" "i < unat n"
  shows "mem (snd (fl_erase F a n (fl_protect F False fl))) (a + of_nat i) = 0xFF"
proof -
  have "content (mem (snd (fl_erase F a n (fl_protect F False fl)))) a (unat n) = replicate (unat n) 0xFF"
    using assms(1,2) by (simp add: flash_laws_def flash_erases_def)
  from arg_cong [OF this, of "\<lambda>xs. xs ! i"] assms(3) show ?thesis by (simp add: content_def)
qed

lemma flash_protectD [simp]: "flash_laws F mem \<Longrightarrow> mem (fl_protect F b fl) = mem fl"
  by (simp add: flash_laws_def)

lemma flash_readD: "flash_laws F mem \<Longrightarrow> fl_read F a n fl = content (mem fl) a (unat n)"
  by (simp add: flash_laws_def)

text \<open>
  A concrete chip, protection being a bit in front of its bytes: writes and erases fail while it is set, an
  erase takes whole sectors of 4096 bytes. The witnesses run the model on it.
\<close>

definition nor_erase :: "u32 \<Rightarrow> u32 \<Rightarrow> mem \<Rightarrow> mem" where
  "nor_erase a n m =
     (let into = unat a mod 4096
      in (\<lambda>x. if unat (x - (a - of_nat into)) < (into + unat n + 4095) div 4096 * 4096 then 0xFF else m x))"

definition nor_flash :: "(bool \<times> mem) flash_ops" where
  "nor_flash = \<lparr>fl_protect = (\<lambda>b (_, m). (b, m)),
     fl_erase = (\<lambda>a n (b, m). if b then (-1, (b, m)) else (0, (b, nor_erase a n m))),
     fl_write = (\<lambda>a bs (b, m). if b then (-1, (b, m)) else (0, (b, nor_write m a bs))),
     fl_read = (\<lambda>a n (_, m). content m a (unat n))\<rparr>"

lemma nor_erase_at: "i < unat n \<Longrightarrow> nor_erase a n m (a + of_nat i) = 0xFF"
proof -
  assume i: "i < unat n"
  let ?k = "unat a mod 4096 + i"
  have "a + of_nat i - (a - of_nat (unat a mod 4096)) = (of_nat ?k :: u32)" by simp
  then have "unat (a + of_nat i - (a - of_nat (unat a mod 4096))) = ?k mod 4294967296"
    by (simp only: unat_of_nat) (simp add: take_bit_eq_mod)
  moreover have "?k mod 4294967296 \<le> ?k" by (rule mod_less_eq_dividend)
  moreover have "?k < (unat a mod 4096 + unat n + 4095) div 4096 * 4096"
  proof -
    have "t < t div 4096 * 4096 + 4096" for t :: nat
      using minus_mod_eq_div_mult [of t 4096] mod_less_divisor [of 4096 t] by linarith
    from this [of "unat a mod 4096 + unat n + 4095"] i show ?thesis by linarith
  qed
  ultimately have "unat (a + of_nat i - (a - of_nat (unat a mod 4096))) <
      (unat a mod 4096 + unat n + 4095) div 4096 * 4096"
    by linarith
  then show ?thesis by (simp only: nor_erase_def Let_def if_True)
qed

lemma nor_flash_laws: "flash_laws nor_flash snd" "flash_erases nor_flash"
  by (auto simp: flash_laws_def flash_erases_def nor_flash_def content_def nor_erase_at
      intro!: nth_equalityI)

section \<open>Image writing\<close>

text \<open>
  \<open>ota_at mem p fl done\<close>: the counters stand behind \<open>done\<close>, and of the bytes of the image, whose
  number is in the header, the flash holds those in \<open>done\<close>; the others are still erased.
\<close>

definition ota_at :: "('f \<Rightarrow> mem) \<Rightarrow> ug_proc \<Rightarrow> 'f \<Rightarrow> u8 list \<Rightarrow> bool" where
  "ota_at mem p fl img \<longleftrightarrow>
     recv_data_cnt p = of_nat (length img) \<and>
     flash_addr p = start_addr p + of_nat (length img) \<and>
     (\<forall>i<unat (bin_len (file_header p)).
        mem fl (start_addr p + of_nat i) = (if i < length img then img ! i else 0xFF))"

definition ota_advance :: "nat \<Rightarrow> ug_proc \<Rightarrow> ug_proc" where
  "ota_advance n p = p\<lparr>flash_addr := flash_addr p + of_nat n,
                       recv_data_cnt := recv_data_cnt p + of_nat n\<rparr>"

lemma ota_advance_simps [simp]:
  "file_header (ota_advance n p) = file_header p"
  "start_addr (ota_advance n p) = start_addr p"
  "ug_state (ota_advance n p) = ug_state p"
  "recv_data_cnt (ota_advance n p) = recv_data_cnt p + of_nat n"
  "flash_addr (ota_advance n p) = flash_addr p + of_nat n"
  by (simp_all add: ota_advance_def)

lemma ota_advance_0 [simp]: "ota_advance 0 p = p"
  by (simp add: ota_advance_def)

lemma ota_advance_add: "ota_advance m (ota_advance n p) = ota_advance (n + m) p"
  by (simp add: ota_advance_def add.assoc)

lemma ota_write:
  assumes "flash_laws F mem" "ota_at mem p fl img" "fl_write F (flash_addr p) bs fl = (0, fl')"
    "length img + length bs \<le> 4294967296"
  shows "ota_at mem (ota_advance (length bs) p) fl' (img @ bs)"
proof -
  have "mem fl' (start_addr p + of_nat i) = (if i < length (img @ bs) then (img @ bs) ! i else 0xFF)"
    if i: "i < unat (bin_len (file_header p))" for i
    using nor_write_at [of i "length img" bs "mem fl" "start_addr p"] assms(2,4) i
      unat_lt32 [of "bin_len (file_header p)"] flash_writeD [OF assms(1,3)]
    by (auto simp: ota_at_def nth_append and.commute [of "0xFF"])
  with assms(2) show ?thesis by (simp add: ota_at_def)
qed

lemma ota_at_content:
  "ota_at mem p fl img \<Longrightarrow> length img = unat (bin_len (file_header p)) \<Longrightarrow>
     content (mem fl) (start_addr p) (length img) = img"
  by (rule nth_equalityI) (simp_all add: content_def ota_at_def)

lemma write_units_done:
  "flash_laws F mem \<Longrightarrow> write_units F p rest orem fl = (False, p', rest', rem', fl') \<Longrightarrow>
     ota_at mem p fl img \<Longrightarrow> length img + length rest \<le> 4294967296 \<Longrightarrow>
     orem = of_nat (length rest) \<Longrightarrow>
     \<exists>m. m \<le> length rest \<and> rest' = drop m rest \<and> length rest' < 512 \<and>
        p' = ota_advance m p \<and> rem' = of_nat (length rest') \<and>
        ota_at mem p' fl' (img @ take m rest)"
proof (induction F p rest orem fl arbitrary: img rule: write_units.induct)
  case (1 F p rest orem fl)
  show ?case
  proof (cases "512 \<le> length rest")
    case False
    with 1 show ?thesis
      by (intro exI [of _ 0]) (auto simp: write_units.simps [of F p] RT_IMG_WR_UNIT_def)
  next
    case True
    obtain err fl1 where w: "fl_write F (flash_addr p) (take 512 rest) fl = (err, fl1)"
      by fastforce
    from "1.prems"(2) True w have err: "err = 0"
      and rec: "write_units F (ota_advance 512 p) (drop 512 rest)
                  (of_nat (length (drop 512 rest))) fl1 = (False, p', rest', rem', fl')"
      by (auto simp: write_units.simps [of F p] RT_IMG_WR_UNIT_def ota_advance_def
          split: if_splits)
    have "ota_at mem (ota_advance (length (take 512 rest)) p) fl1 (img @ take 512 rest)"
      using "1.prems" w err True by (intro ota_write) auto
    with True have at: "ota_at mem (ota_advance 512 p) fl1 (img @ take 512 rest)" by simp
    have "\<exists>m. m \<le> length (drop 512 rest) \<and> rest' = drop m (drop 512 rest) \<and> length rest' < 512 \<and>
        p' = ota_advance m (ota_advance 512 p) \<and> rem' = of_nat (length rest') \<and>
        ota_at mem p' fl' ((img @ take 512 rest) @ take m (drop 512 rest))"
      using "1.IH" [of err fl1 "img @ take 512 rest"] w err True rec at "1.prems"(1,4)
      by (simp add: RT_IMG_WR_UNIT_def ota_advance_def)
    then obtain m where "m \<le> length (drop 512 rest)" "rest' = drop m (drop 512 rest)"
      "length rest' < 512" "p' = ota_advance m (ota_advance 512 p)" "rem' = of_nat (length rest')"
      "ota_at mem p' fl' ((img @ take 512 rest) @ take m (drop 512 rest))"
      by blast
    with True show ?thesis
      by (intro exI [of _ "512 + m"]) (auto simp: ota_advance_add take_add add.commute [of m 512])
  qed
qed

lemma ota_at_state [simp]: "ota_at mem (p\<lparr>ug_state := x\<rparr>) fl img = ota_at mem p fl img"
  by (simp add: ota_at_def)

text \<open>
  One call in the image state, seen from outside: it takes a prefix of what it is given,
  writes exactly that prefix behind what the flash already holds, and leaves the rest.
\<close>

lemma ug_recv_img_consumes:
  assumes F: "flash_laws F mem" and at: "ota_at mem p fl img"
    and len: "length img + length data < 4294967296"
    and ok: "ug_recv_img F p data orem fl = (0, r, p', fl')"
  shows "\<exists>n. n \<le> length data \<and> r = of_nat (length data - n) \<and>
     ota_at mem p' fl' (img @ take n data) \<and> file_header p' = file_header p \<and>
     start_addr p' = start_addr p"
proof -
  let ?blen = "bin_len (file_header p)"
  show ?thesis
  proof (cases "(of_nat (length data) :: u32) < 512 \<and> recv_data_cnt p \<le> ?blen - 512")
    case True
    with ok at show ?thesis
      by (intro exI [of _ 0]) (auto simp: ug_recv_img_def RT_IMG_WR_UNIT_def oprt_defs)
  next
    case False
    obtain failed p1 rest rem1 fl1
      where wu: "write_units F p data (of_nat (length data)) fl = (failed, p1, rest, rem1, fl1)"
      using prod_cases5 by blast
    from ok wu False have "failed = False"
      by (auto simp: ug_recv_img_def RT_IMG_WR_UNIT_def oprt_defs Let_def split: if_splits)
    with wu at len write_units_done [OF F, of p data "of_nat (length data)" fl p1 rest rem1 fl1 img]
    obtain m where m: "m \<le> length data" "rest = drop m data" "length rest < 512"
      "p1 = ota_advance m p" "rem1 = of_nat (length rest)" "ota_at mem p1 fl1 (img @ take m data)"
      by auto
    show ?thesis
    proof (cases "?blen - 512 < recv_data_cnt p1 \<and> ?blen - recv_data_cnt p1 \<le> of_nat (length rest)")
      case True
      obtain err fl2 where w: "fl_write F (flash_addr p1) rest fl1 = (err, fl2)" by fastforce
      from ok wu False True w \<open>failed = False\<close>
      have e: "err = 0" and r: "r = 0" and fl': "fl' = fl2"
        and p': "p' = ota_advance (length rest) p1 \<or>
          p' = (ota_advance (length rest) p1)\<lparr>ug_state := UGS_FINISH\<rparr>"
        by (auto simp: ug_recv_img_def RT_IMG_WR_UNIT_def oprt_defs Let_def ota_advance_def
            split: if_splits)
      have "ota_at mem (ota_advance (length rest) p1) fl2 ((img @ take m data) @ rest)"
        using F m w e len by (intro ota_write) auto
      with m r fl' p' show ?thesis
        by (intro exI [of _ "length data"]) auto
    next
      case nofin: False
      from ok wu False nofin \<open>failed = False\<close>
      have "r = rem1" "fl' = fl1" "p' = p1 \<or> p' = p1\<lparr>ug_state := UGS_FINISH\<rparr>"
        by (auto simp: ug_recv_img_def RT_IMG_WR_UNIT_def oprt_defs Let_def split: if_splits)
      with m show ?thesis by (intro exI [of _ m]) auto
    qed
  qed
qed

lemma ug_recv_img_completes:
  assumes F: "flash_laws F mem" and at: "ota_at mem p fl img"
    and blen: "length img + length data = unat (bin_len (file_header p))"
    and big: "512 \<le> unat (bin_len (file_header p))"
    and ok: "ug_recv_img F p data orem fl = (0, r, p', fl')"
  shows "ug_state p' = UGS_FINISH \<and> r = 0 \<and> ota_at mem p' fl' (img @ data)"
proof -
  let ?blen = "bin_len (file_header p)"
  have lt: "length img + length data < 4294967296" using blen unat_lt32 [of ?blen] by simp
  have ul: "unat (?blen - 512) = unat ?blen - 512" using unat_minus32 [of 512 "?blen"] big by simp
  have rc: "unat (recv_data_cnt p) = length img"
    using at lt by (simp add: ota_at_def unat_of_nat32)
  have enter: "\<not> ((of_nat (length data) :: u32) < 512 \<and> recv_data_cnt p \<le> ?blen - 512)"
    using blen big lt rc ul by (auto simp: c_arith unat_of_nat32)
  obtain failed p1 rest rem1 fl1
    where wu: "write_units F p data (of_nat (length data)) fl = (failed, p1, rest, rem1, fl1)"
    using prod_cases5 by blast
  from ok wu enter have "failed = False"
    by (auto simp: ug_recv_img_def RT_IMG_WR_UNIT_def oprt_defs Let_def split: if_splits)
  with wu at lt write_units_done [OF F, of p data "of_nat (length data)" fl p1 rest rem1 fl1 img]
  obtain m where m: "m \<le> length data" "rest = drop m data" "length rest < 512"
    "p1 = ota_advance m p" "rem1 = of_nat (length rest)" "ota_at mem p1 fl1 (img @ take m data)"
    by auto
  have rc1: "unat (recv_data_cnt p1) = length img + m"
    using m lt by (simp add: ota_at_def unat_of_nat32 flip: of_nat_add)
  have ul1: "unat (?blen - recv_data_cnt p1) = length rest"
    using m blen rc1 by (subst unat_minus32) auto
  have "unat (of_nat (length rest) :: u32) = length rest" using m(3) by (intro unat_of_nat32) simp
  with m(2) have lr: "unat (of_nat (length rest) :: u32) = length data - m" by simp
  have "unat ?blen - 512 < length img + m"
    using blen big m(1,2,3) by auto
  then
  have last: "?blen - 512 < recv_data_cnt p1 \<and> ?blen - recv_data_cnt p1 \<le> of_nat (length rest)"
    using m(2) unfolding word_less_unat word_le_unat lr ul ul1 rc1 by simp
  obtain err fl2 where w: "fl_write F (flash_addr p1) rest fl1 = (err, fl2)" by fastforce
  let ?p2 = "ota_advance (length rest) p1"
  from ok wu enter last w \<open>failed = False\<close>
  have e: "err = 0" and r: "r = 0" and fl': "fl' = fl2"
    and p': "p' = (if ?blen \<le> recv_data_cnt ?p2 then ?p2\<lparr>ug_state := UGS_FINISH\<rparr> else ?p2)"
    by (auto simp: ug_recv_img_def RT_IMG_WR_UNIT_def oprt_defs Let_def ota_advance_def
        split: if_splits)
  have at2: "ota_at mem ?p2 fl2 ((img @ take m data) @ rest)"
    using F m w e lt by (intro ota_write) auto
  then have "recv_data_cnt ?p2 = of_nat (length img + length data)"
    using m by (simp add: ota_at_def)
  then have "recv_data_cnt ?p2 = ?blen" using blen by simp
  with p' r fl' at2 m show ?thesis by simp
qed

text \<open>
  An image of fewer than 512 bytes never gets anywhere: \<open>bin_len - RT_IMG_WR_UNIT\<close> wraps, so
  every piece shorter than a unit is left for the next call.
\<close>

lemma ug_recv_img_short_stuck:
  assumes "0 < unat (bin_len (file_header p))" "unat (bin_len (file_header p)) < 512"
    "length data < 512" "unat (recv_data_cnt p) < 512"
  shows "ug_recv_img F p data orem fl = (0, of_nat (length data), p, fl)"
proof -
  let ?blen = "bin_len (file_header p)"
  have "unat (?blen - 512) = (unat ?blen + (4294967296 - 512)) mod 4294967296"
    using assms(2) by (simp add: unat_sub_if_size word_size)
  with assms have "recv_data_cnt p \<le> ?blen - 512"
    by (simp add: c_arith)
  moreover have "(of_nat (length data) :: u32) < 512"
    using assms by (simp add: c_arith unat_of_nat32)
  ultimately show ?thesis
    by (simp add: ug_recv_img_def RT_IMG_WR_UNIT_def oprt_defs)
qed

section \<open>A download\<close>

text \<open>
  The library's side of the contract: each call presents the bytes the last call left,
  followed by the next bytes of the got. \<open>ota_session F got p pend fl\<close>: the got's bytes
  presented so far are \<open>got\<close>, of which \<open>pend\<close> are still with the library, and every call
  answered \<open>OPRT_OK\<close>.
\<close>

inductive ota_session :: "'f flash_ops \<Rightarrow> u8 list \<Rightarrow> ug_proc \<Rightarrow> u8 list \<Rightarrow> 'f \<Rightarrow> bool"
  for F where
  ota_start: "ota_session F [] ug_zero [] fl"
| ota_deliver: "ota_session F got p pend fl \<Longrightarrow> length (got @ chunk) < 4294967296 \<Longrightarrow>
     gw_upgrade_process_cb F p (pend @ chunk) orem fl = (OPRT_OK, r, p', fl') \<Longrightarrow>
     ota_session F (got @ chunk) p' (drop (length (pend @ chunk) - unat r) (pend @ chunk)) fl'"

definition valid_hdr :: "u8 list \<Rightarrow> bool" where
  "valid_hdr d \<longleftrightarrow> header_flag (parse_hdr d) = UG_PKG_HEAD \<and> tail_flag (parse_hdr d) = UG_PKG_TAIL \<and>
     head_sum (parse_hdr d) = hdr_sum d"

lemma be32_append: "i + 3 < length d \<Longrightarrow> be32 (d @ e) i = be32 d i"
  by (simp add: be32_def nth_append)

lemma parse_hdr_append: "32 \<le> length d \<Longrightarrow> parse_hdr (d @ e) = parse_hdr d"
  by (simp add: parse_hdr_def be32_append)

lemma valid_hdr_append: "32 \<le> length d \<Longrightarrow> valid_hdr (d @ e) = valid_hdr d"
  by (simp add: valid_hdr_def parse_hdr_append hdr_sum_def UG_HDR_SIZE_def)

text \<open>What holds between two calls of a download that has had no error.\<close>

definition ota_inv :: "('f \<Rightarrow> mem) \<Rightarrow> u8 list \<Rightarrow> ug_proc \<Rightarrow> u8 list \<Rightarrow> 'f \<Rightarrow> bool" where
  "ota_inv mem got p pend fl \<longleftrightarrow>
     (case ug_state p of
        UGS_RECV_HEADER \<Rightarrow> pend = got \<and> length got < 32
      | _ \<Rightarrow> 32 \<le> length got \<and> valid_hdr got \<and> file_header p = parse_hdr got \<and>
           start_addr p = UG_START_ADDR \<and>
           (\<exists>img junk. drop 32 got = img @ junk \<and> ota_at mem p fl img \<and>
              (ug_state p = UGS_RECV_IMG_DATA \<longrightarrow> junk = pend) \<and>
              (ug_state p = UGS_FINISH \<longrightarrow> bin_len (file_header p) \<le> recv_data_cnt p)))"

lemma write_units_frame:
  "write_units F p rest orem fl = (failed, p', rest', rem', fl') \<Longrightarrow>
     ug_state p' = ug_state p \<and> file_header p' = file_header p"
proof (induction F p rest orem fl rule: write_units.induct)
  case (1 F p rest orem fl)
  then show ?case
    by (auto simp: write_units.simps [of F p rest] split: if_splits prod.splits)
qed

lemma ug_recv_img_stays:
  "ug_recv_img F p data orem fl = (0, r, p', fl') \<Longrightarrow>
     ug_state p' = ug_state p \<or>
     ug_state p' = UGS_FINISH \<and> bin_len (file_header p') \<le> recv_data_cnt p'"
  by (auto simp: ug_recv_img_def Let_def oprt_defs dest!: write_units_frame
      split: if_splits prod.splits)

lemma ota_session_length: "ota_session F got p pend fl \<Longrightarrow> length got < 4294967296"
  by (induction rule: ota_session.induct) auto

lemma ug_recv_header_session:
  assumes "length (d :: u8 list) < 4294967296" "ug_recv_header F p d orem fl = (0, r, p', fl')"
    "flash_laws F mem" "flash_erases F"
  shows "length d < 32 \<and> r = of_nat (length d) \<and> p' = p \<and> fl' = fl \<or>
     32 \<le> length d \<and> valid_hdr d \<and> r = of_nat (length d - 32) \<and>
     file_header p' = parse_hdr d \<and> start_addr p' = UG_START_ADDR \<and>
     ota_at mem p' fl' [] \<and> ug_state p' = UGS_RECV_IMG_DATA"
proof -
  have "(of_nat (length d) :: u32) < 32 \<longleftrightarrow> length d < 32"
    using assms(1) by (simp add: c_arith unat_of_nat32)
  with assms(2) show ?thesis
    by (auto simp: ug_recv_header_def UG_HDR_SIZE_def oprt_defs Let_def valid_hdr_def of_nat_diff
        ota_at_def flash_erasedD [OF assms(3,4)] split: if_splits)
qed

lemma ota_inv_imgI:
  "32 \<le> length got \<Longrightarrow> valid_hdr got \<Longrightarrow> file_header p = parse_hdr got \<Longrightarrow>
     start_addr p = UG_START_ADDR \<Longrightarrow> drop 32 got = img @ pend \<Longrightarrow> ota_at mem p fl img \<Longrightarrow>
     ug_state p = UGS_RECV_IMG_DATA \<or>
       ug_state p = UGS_FINISH \<and> bin_len (file_header p) \<le> recv_data_cnt p \<Longrightarrow>
     ota_inv mem got p pend fl"
  by (cases "ug_state p") (simp_all add: ota_inv_def, blast)

lemma ota_session_inv:
  assumes F: "flash_laws F mem" and E: "flash_erases F"
  shows "ota_session F got p pend fl \<Longrightarrow> ota_inv mem got p pend fl"
proof (induction rule: ota_session.induct)
  case (ota_start fl)
  show ?case by (simp add: ota_inv_def ug_zero_def)
next
  case (ota_deliver got p pend fl chunk orem r p' fl')
  show ?case
  proof (cases "ug_state p")
    case UGS_RECV_HEADER
    with ota_deliver.IH have pend: "pend = got" by (simp add: ota_inv_def)
    from ota_deliver UGS_RECV_HEADER pend
    have "ug_recv_header F p (got @ chunk) orem fl = (0, r, p', fl')"
      by (simp add: gw_upgrade_process_cb_def oprt_defs)
    from ug_recv_header_session [OF ota_deliver.hyps(2) this F E]
    show ?thesis
    proof (elim disjE conjE)
      assume "length (got @ chunk) < 32" "r = of_nat (length (got @ chunk))" "p' = p"
      with UGS_RECV_HEADER pend show ?thesis
        by (simp add: ota_inv_def unat_of_nat32 flip: of_nat_add)
    next
      assume h: "32 \<le> length (got @ chunk)" "valid_hdr (got @ chunk)"
        "r = of_nat (length (got @ chunk) - 32)" "file_header p' = parse_hdr (got @ chunk)"
        "start_addr p' = UG_START_ADDR" "ota_at mem p' fl' []"
        "ug_state p' = UGS_RECV_IMG_DATA"
      have "unat r = length (got @ chunk) - 32"
        using h(3) ota_deliver.hyps(2) by (simp only:) (rule unat_of_nat32, simp)
      with h pend show ?thesis
        by (auto simp: ota_inv_def)
    qed
  next
    case UGS_RECV_IMG_DATA
    with ota_deliver.IH obtain img where st: "32 \<le> length got" "valid_hdr got"
      "file_header p = parse_hdr got" "start_addr p = UG_START_ADDR" "drop 32 got = img @ pend"
      and at: "ota_at mem p fl img"
      by (auto simp: ota_inv_def)
    have all: "drop 32 (got @ chunk) = img @ pend @ chunk" using st by simp
    then have "length img + length (pend @ chunk) < 4294967296"
      using ota_deliver.hyps(2) by (metis length_append length_drop less_imp_diff_less)
    moreover from ota_deliver UGS_RECV_IMG_DATA
    have call: "ug_recv_img F p (pend @ chunk) orem fl = (0, r, p', fl')"
      by (simp add: gw_upgrade_process_cb_def oprt_defs)
    ultimately obtain n where n: "n \<le> length (pend @ chunk)"
      "r = of_nat (length (pend @ chunk) - n)"
      "ota_at mem p' fl' (img @ take n (pend @ chunk))"
      "file_header p' = file_header p" "start_addr p' = start_addr p"
      using ug_recv_img_consumes [OF F at] by blast
    have "unat r = length (pend @ chunk) - n"
      using n(2) \<open>length img + length (pend @ chunk) < 4294967296\<close>
      by (simp only:) (rule unat_of_nat32, simp)
    with n(1) have left: "drop (length (pend @ chunk) - unat r) (pend @ chunk) = drop n (pend @ chunk)"
      by simp
    have "ug_state p' = UGS_RECV_IMG_DATA \<or>
        ug_state p' = UGS_FINISH \<and> bin_len (file_header p') \<le> recv_data_cnt p'"
      using ug_recv_img_stays [OF call] UGS_RECV_IMG_DATA by simp
    moreover have "drop 32 (got @ chunk) = (img @ take n (pend @ chunk)) @ drop n (pend @ chunk)"
      by (simp only: all append_assoc append_take_drop_id)
    moreover have "32 \<le> length (got @ chunk)" using st(1) by simp
    moreover have "valid_hdr (got @ chunk)" "file_header p' = parse_hdr (got @ chunk)"
      using st n(4) by (simp_all add: parse_hdr_append valid_hdr_append)
    ultimately show ?thesis
      unfolding left using st(4) n(3,5) by (intro ota_inv_imgI) simp_all
  next
    case UGS_FINISH
    with ota_deliver.IH obtain img junk where "drop 32 got = img @ junk" "ota_at mem p fl img"
      by (auto simp: ota_inv_def)
    with UGS_FINISH ota_deliver show ?thesis
      by (auto simp: gw_upgrade_process_cb_def ota_inv_def parse_hdr_append valid_hdr_append)
  qed
qed

lemma checksum_loop_from:
  assumes F: "flash_laws F mem" and small: "unat (bin_len (file_header p)) \<le> 4294963200"
  shows "checksum_loop F p fl i acc =
     Some (acc + bytes_sum (content (mem fl) (start_addr p + i) (unat (bin_len (file_header p)) - unat i)))"
proof (induction "unat (bin_len (file_header p)) - unat i" arbitrary: i acc rule: less_induct)
  case less
  let ?blen = "bin_len (file_header p)"
  show ?case
  proof (cases "i < ?blen")
    case False
    then have "unat ?blen - unat i = 0" by (simp add: c_arith)
    with False show ?thesis by (subst checksum_loop.simps) simp
  next
    case True
    have i: "unat i < unat ?blen" using True by (simp add: c_arith)
    have next_i: "unat (i + BUF_SIZE) = unat i + 4096"
      using i small by (subst unat_plus32) (simp_all add: BUF_SIZE_def)
    have left: "unat (?blen - i) = unat ?blen - unat i"
      using i by (intro unat_minus32) simp
    define n where "n = min 4096 (unat ?blen - unat i)"
    have rlen: "unat (if BUF_SIZE \<le> ?blen - i then BUF_SIZE else ?blen - i) = n"
      using left by (auto simp: n_def c_arith BUF_SIZE_def)
    have rest: "unat ?blen - unat i = n + (unat ?blen - unat (i + BUF_SIZE))"
      using i by (auto simp: n_def next_i)
    have "checksum_loop F p fl i acc = checksum_loop F p fl (i + BUF_SIZE)
        (acc + bytes_sum (content (mem fl) (start_addr p + i) n))"
      using True rlen by (subst checksum_loop.simps) (simp add: flash_readD [OF F] Let_def)
    also have "\<dots> = Some (acc + bytes_sum (content (mem fl) (start_addr p + i) n) +
        bytes_sum (content (mem fl) (start_addr p + (i + BUF_SIZE)) (unat ?blen - unat (i + BUF_SIZE))))"
      using i next_i by (intro less.hyps) auto
    also have "content (mem fl) (start_addr p + (i + BUF_SIZE)) (unat ?blen - unat (i + BUF_SIZE))
        = content (mem fl) (start_addr p + i + of_nat n) (unat ?blen - unat (i + BUF_SIZE))"
    proof (cases "n = 4096")
      case True
      then show ?thesis by (simp add: BUF_SIZE_def add.assoc)
    next
      case False
      with i have "unat ?blen - unat (i + BUF_SIZE) = 0" by (auto simp: n_def next_i)
      then show ?thesis by simp
    qed
    finally show ?thesis
      by (simp only: rest content_add bytes_sum_simps add.assoc)
  qed
qed

lemma checksum_loop_diverges:
  "checksum_loop F p fl i acc = Some y \<Longrightarrow>
     4096 dvd unat i \<longrightarrow> unat (bin_len (file_header p)) \<le> 4294963200"
proof (induct rule: checksum_loop.raw_induct [rotated, consumes 1, case_names step])
  case (step loop F p fl i acc y)
  show ?case
  proof (intro impI, rule ccontr)
    assume dvd: "4096 dvd unat i" and big: "\<not> unat (bin_len (file_header p)) \<le> 4294963200"
    have wrap: "4096 dvd unat (i + BUF_SIZE)"
      using dvd by (auto simp: unat_word_ariths BUF_SIZE_def intro!: dvd_mod)
    show False
    proof (cases "i < bin_len (file_header p)")
      case True
      with step wrap big show False by (fastforce simp: Let_def split: if_splits)
    next
      case False
      with big have "4294963200 < unat i" by (simp add: c_arith)
      moreover from dvd obtain k where "unat i = 4096 * k" by blast
      ultimately show False using unat_lt32 [of i] by simp
    qed
  qed
qed

section \<open>A concrete download\<close>

text \<open>An image of 512 bytes 1 behind its header, offered in one piece and then again.\<close>

definition demo_hdr :: "u8 list" where
  "demo_hdr = [0x55, 0xaa, 0x55, 0xaa] @ replicate 12 0 @ [0, 0, 2, 0] @ [0, 0, 2, 0]
     @ [0, 0, 2, 2] @ [0xaa, 0x55, 0xaa, 0x55]"

definition demo_file :: "u8 list" where
  "demo_file = demo_hdr @ replicate 512 1"

definition demo_p1 :: ug_proc where
  "demo_p1 = \<lparr>file_header = parse_hdr demo_hdr, flash_addr = UG_START_ADDR,
     start_addr = UG_START_ADDR, recv_data_cnt = 0, ug_state = UGS_RECV_IMG_DATA\<rparr>"

lemma demo_parse: "parse_hdr demo_hdr = \<lparr>header_flag = UG_PKG_HEAD, sw_version = replicate 12 0,
    bin_len = 512, bin_sum = 512, head_sum = 0x202, tail_flag = UG_PKG_TAIL\<rparr>"
  by code_simp

lemma demo_hdr_length [simp]: "length demo_hdr = 32"
  by (simp add: demo_hdr_def)

lemma demo_hdr_sum: "hdr_sum demo_hdr = 0x202"
  by code_simp

lemma demo_file_hdr: "parse_hdr demo_file = parse_hdr demo_hdr" "hdr_sum demo_file = 0x202"
  unfolding demo_file_def by (simp_all add: parse_hdr_append hdr_sum_def UG_HDR_SIZE_def
      flip: demo_hdr_sum)

definition demo_chip :: "bool \<times> mem" where
  "demo_chip = (False, nor_erase UG_START_ADDR 512 (\<lambda>_. 0))"

lemma demo_call1:
  "gw_upgrade_process_cb nor_flash ug_zero demo_file 0 (True, \<lambda>_. 0) = (0, 512, demo_p1, demo_chip)"
  by (simp add: gw_upgrade_process_cb_def ug_zero_def ug_recv_header_def Let_def demo_file_hdr
      demo_parse demo_p1_def demo_chip_def UG_HDR_SIZE_def oprt_defs nor_flash_def)
    (simp add: demo_file_def)

lemma demo_session:
  "ota_session nor_flash demo_file demo_p1 (replicate 512 1) demo_chip"
  using ota_deliver [OF ota_start, of demo_file nor_flash 0 "(True, \<lambda>_. 0)" 512 demo_p1 demo_chip]
  by (simp add: demo_call1 oprt_defs) (simp add: demo_file_def)

lemma demo_call2:
  "gw_upgrade_process_cb nor_flash demo_p1 (replicate 512 1) 0 demo_chip =
     (0, 0, (ota_advance 512 demo_p1)\<lparr>ug_state := UGS_FINISH\<rparr>,
      (False, nor_write (snd demo_chip) UG_START_ADDR (replicate 512 1)))"
  by (simp add: gw_upgrade_process_cb_def demo_p1_def demo_chip_def ug_recv_img_def Let_def demo_parse
      RT_IMG_WR_UNIT_def write_units.simps oprt_defs nor_flash_def ota_advance_def)

section \<open>Every sequence of calls\<close>

definition ota_step :: "'f flash_ops \<Rightarrow> u8 list \<times> u32 \<Rightarrow> ug_proc \<times> 'f \<Rightarrow> ug_proc \<times> 'f" where
  "ota_step F call st =
     (case call of (data, rem) \<Rightarrow> case st of (p, fl) \<Rightarrow> snd (snd (gw_upgrade_process_cb F p data rem fl)))"

definition ota_counters :: "ug_proc \<times> 'f \<Rightarrow> bool" where
  "ota_counters st \<longleftrightarrow> (let p = fst st in
     flash_addr p = start_addr p + recv_data_cnt p \<and>
     (ug_state p = UGS_RECV_HEADER \<or>
      start_addr p = UG_START_ADDR \<and> header_flag (file_header p) = UG_PKG_HEAD \<and>
      tail_flag (file_header p) = UG_PKG_TAIL))"

lemma write_units_counters:
  "write_units F p rest orem fl = (failed, p', rest', rem', fl') \<Longrightarrow>
     ota_counters (p, fl) \<Longrightarrow> ota_counters (p', fl')"
proof (induction F p rest orem fl rule: write_units.induct)
  case (1 F p rest orem fl)
  then show ?case
    by (auto simp: write_units.simps [of F p rest] ota_counters_def add.assoc
        split: if_splits prod.splits)
qed

lemma ug_recv_img_counters:
  assumes "ota_counters (p, fl)" "ug_state p \<noteq> UGS_RECV_HEADER"
  shows "ota_counters (snd (snd (ug_recv_img F p data orem fl)))"
proof -
  obtain failed p1 rest rem1 fl1
    where wu: "write_units F p data (of_nat (length data)) fl = (failed, p1, rest, rem1, fl1)"
    using prod_cases5 by blast
  with assms have "ota_counters (p1, fl1)" by (blast intro: write_units_counters)
  moreover have "ug_state p1 \<noteq> UGS_RECV_HEADER" using write_units_frame [OF wu] assms by simp
  ultimately show ?thesis
    using assms wu by (auto simp: ug_recv_img_def Let_def ota_counters_def add.assoc split: prod.splits)
qed

lemma ota_step_counters: "ota_counters st \<Longrightarrow> ota_counters (ota_step F call st)"
proof (cases st, cases call)
  fix p fl data rem
  assume inv: "ota_counters st" and [simp]: "st = (p, fl)" "call = (data, rem)"
  show ?thesis
  proof (cases "ug_state p")
    case UGS_RECV_HEADER
    with inv show ?thesis
      by (auto simp: ota_step_def gw_upgrade_process_cb_def ug_recv_header_def Let_def
          ota_counters_def)
  next
    case UGS_RECV_IMG_DATA
    with inv ug_recv_img_counters [of p fl F data rem] show ?thesis
      by (simp add: ota_step_def gw_upgrade_process_cb_def)
  next
    case UGS_FINISH
    with inv show ?thesis by (simp add: ota_step_def gw_upgrade_process_cb_def)
  qed
qed

interpretation ota: step_machine "ota_step F" ota_counters
  by unfold_locales (rule ota_step_counters)

section \<open>Properties\<close>

text \<open>
  C3: when the library has delivered a whole upgrade file without an error, and its image has from
  512 (one write unit) to \<open>0xFFFFF000\<close> bytes, the next call of the callback leaves it in the final
  state, the flash from \<open>UG_START_ADDR\<close> on holds exactly the image bytes of the file, and the
  notification callback resets the device if and only if the byte sum of those bytes is the header's
  \<open>bin_sum\<close>. The flash only clears bits in a write, so this rests on the protection being taken off and
  the image area erased when the header is accepted; that this erase succeeds is assumed, as in the code.
\<close>

theorem ota_complete_image:
  assumes F: "flash_laws F mem" and E: "flash_erases F" and sess: "ota_session F got p pend fl"
    and len: "length got = 32 + unat (bin_len (parse_hdr got))"
    and big: "512 \<le> unat (bin_len (parse_hdr got))"
    and small: "unat (bin_len (parse_hdr got)) \<le> 4294963200"
    and call: "gw_upgrade_process_cb F p pend orem fl = (OPRT_OK, r, p', fl')"
  shows "ug_state p' = UGS_FINISH \<and> r = 0 \<and>
     content (mem fl') UG_START_ADDR (unat (bin_len (parse_hdr got))) = drop 32 got \<and>
     gw_upgrade_notify_cb F p' OPRT_OK fl' =
       Some (if bytes_sum (drop 32 got) = bin_sum (parse_hdr got) then UG_Reset
             else UG_ChecksumError, fl_protect F True fl')"
proof -
  let ?n = "unat (bin_len (parse_hdr got))"
  have inv: "ota_inv mem got p pend fl" by (rule ota_session_inv [OF F E sess])
  with len have st: "ug_state p \<noteq> UGS_RECV_HEADER" by (auto simp: ota_inv_def)
  with inv obtain img junk where hdr: "file_header p = parse_hdr got" "start_addr p = UG_START_ADDR"
    and split: "drop 32 got = img @ junk" and at: "ota_at mem p fl img"
    and pend: "ug_state p = UGS_RECV_IMG_DATA \<Longrightarrow> junk = pend"
    and fin: "ug_state p = UGS_FINISH \<Longrightarrow> bin_len (parse_hdr got) \<le> recv_data_cnt p"
    by (cases "ug_state p") (auto simp: ota_inv_def)
  have sum: "length img + length junk = ?n"
    using len arg_cong [OF split, of length] by simp
  have "ug_state p' = UGS_FINISH \<and> r = 0 \<and> ota_at mem p' fl' (drop 32 got) \<and>
      file_header p' = parse_hdr got \<and> start_addr p' = UG_START_ADDR"
  proof (cases "ug_state p = UGS_FINISH")
    case True
    have "unat (recv_data_cnt p) = length img"
      using at sum unat_lt32 [of "bin_len (parse_hdr got)"] by (simp add: ota_at_def unat_of_nat32)
    with fin [OF True] sum have "length junk = 0" unfolding word_le_unat by linarith
    with True call at split hdr show ?thesis
      by (simp add: gw_upgrade_process_cb_def)
  next
    case False
    with st have img: "ug_state p = UGS_RECV_IMG_DATA" by (cases "ug_state p") auto
    with call have c: "ug_recv_img F p pend orem fl = (0, r, p', fl')"
      by (simp add: gw_upgrade_process_cb_def oprt_defs)
    from pend [OF img] sum hdr big ug_recv_img_completes [OF F at _ _ c]
    have "ug_state p' = UGS_FINISH \<and> r = 0 \<and> ota_at mem p' fl' (img @ pend)" by simp
    moreover have "file_header p' = file_header p \<and> start_addr p' = start_addr p"
      using ug_recv_img_consumes [OF F at _ c] pend [OF img] sum
        unat_lt32 [of "bin_len (parse_hdr got)"] by auto
    ultimately show ?thesis using hdr split pend [OF img] by simp
  qed
  moreover from this have "content (mem fl') UG_START_ADDR ?n = drop 32 got"
    using ota_at_content [of mem p' fl' "drop 32 got"] len by simp
  ultimately show ?thesis
    using checksum_loop_from [OF F, of p' "fl_protect F True fl'" 0 0] small
    by (auto simp: gw_upgrade_notify_cb_def Let_def flash_protectD [OF F])
qed

theorem ota_complete_image_witness:
  "content (nor_write (nor_erase UG_START_ADDR 512 (\<lambda>_. 0)) UG_START_ADDR (replicate 512 1)) UG_START_ADDR 512 = replicate 512 1 \<and>
   gw_upgrade_notify_cb nor_flash ((ota_advance 512 demo_p1)\<lparr>ug_state := UGS_FINISH\<rparr>) OPRT_OK
     (False, nor_write (nor_erase UG_START_ADDR 512 (\<lambda>_. 0)) UG_START_ADDR (replicate 512 1)) =
   Some (UG_Reset, (True, nor_write (nor_erase UG_START_ADDR 512 (\<lambda>_. 0)) UG_START_ADDR (replicate 512 1)))"
proof -
  have "bytes_sum (replicate n 1) = of_nat n" for n by (induction n) simp_all
  then show ?thesis
    using ota_complete_image [OF nor_flash_laws demo_session, where orem = 0]
    by (simp add: demo_call2 demo_file_hdr demo_parse oprt_defs) 
      (simp add: demo_file_def demo_chip_def nor_flash_def)
qed

text \<open>
  C13: between any two calls of a download without an error, the flash holds, as far as the length in
  the header, exactly the bytes of the image that the callback has taken so far, behind a header that was
  checked, and the rest of the image area is still erased; what it has not taken is what the library still
  has to present. A missing erase or a flash left protected would break it.
\<close>

theorem ota_download_invariant:
  "flash_laws F mem \<Longrightarrow> flash_erases F \<Longrightarrow> ota_session F got p pend fl \<Longrightarrow> ota_inv mem got p pend fl"
  by (rule ota_session_inv)

theorem ota_download_invariant_witness:
  "ota_inv snd demo_file demo_p1 (replicate 512 1) demo_chip"
  by (rule ota_download_invariant [OF nor_flash_laws demo_session])

text \<open>
  The header state, on every branch: fewer than 32 bytes are handed back whole; a header is
  accepted exactly when both magic words and the byte sum of its first 24 bytes are right, and
  then the flash is unprotected and the image area erased; any other header is an error that
  leaves the flash alone and clears the header.
\<close>

theorem ota_header_gate:
  assumes "ug_state p = UGS_RECV_HEADER" "length data < 4294967296"
  shows "gw_upgrade_process_cb F p data orem fl =
     (if length data < 32 then (OPRT_OK, of_nat (length data), p, fl)
      else if valid_hdr data then
        (OPRT_OK, of_nat (length data - 32),
         p\<lparr>file_header := parse_hdr data, flash_addr := UG_START_ADDR, start_addr := UG_START_ADDR,
           recv_data_cnt := 0, ug_state := UGS_RECV_IMG_DATA\<rparr>,
         snd (fl_erase F UG_START_ADDR (bin_len (parse_hdr data)) (fl_protect F False fl)))
      else (OPRT_COM_ERROR, orem, p\<lparr>file_header := hdr_zero\<rparr>, fl))"
proof -
  have "(of_nat (length data) :: u32) < 32 \<longleftrightarrow> length data < 32"
    using assms(2) by (simp add: c_arith unat_of_nat32)
  with assms(1) show ?thesis
    by (simp add: gw_upgrade_process_cb_def ug_recv_header_def UG_HDR_SIZE_def Let_def
        valid_hdr_def of_nat_diff)
qed

theorem ota_header_gate_witness:
  "gw_upgrade_process_cb nor_flash ug_zero (replicate 32 0) 7 (True, (\<lambda>_. 0)) =
     (OPRT_COM_ERROR, 7, ug_zero, (True, (\<lambda>_. 0)))"
  using ota_header_gate [of ug_zero "replicate 32 0" nor_flash 7 "(True, (\<lambda>_. 0))"]
  by (simp add: ug_zero_def valid_hdr_def parse_hdr_def be32_def UG_PKG_HEAD_def)

text \<open>
  The checksum loop of the notification callback ends if and only if \<open>bin_len\<close> is at most
  \<open>0xFFFFF000\<close>, and where it ends its result is the byte sum of the \<open>bin_len\<close> bytes of flash from
  \<open>start_addr\<close> on; above that bound its 32-bit index wraps and the loop never returns.
\<close>

theorem ota_checksum_terminates:
  assumes F: "flash_laws F mem"
  shows "checksum_loop F p fl 0 0 =
     (if bin_len (file_header p) \<le> 0xFFFFF000
      then Some (bytes_sum (content (mem fl) (start_addr p) (unat (bin_len (file_header p)))))
      else None)"
proof (cases "bin_len (file_header p) \<le> 0xFFFFF000")
  case True
  then show ?thesis
    using checksum_loop_from [OF F, of p fl 0 0] by (simp add: c_arith)
next
  case False
  then show ?thesis
    using checksum_loop_diverges [of F p fl 0 0]
    by (cases "checksum_loop F p fl 0 0") (auto simp: c_arith)
qed

theorem ota_checksum_terminates_witness:
  "checksum_loop nor_flash demo_p1 (False, \<lambda>_. 0) 0 0
     = Some (bytes_sum (content (\<lambda>_. 0) UG_START_ADDR 512))"
  using ota_checksum_terminates [OF nor_flash_laws(1), of demo_p1 "(False, \<lambda>_. 0)"]
  by (simp add: demo_p1_def demo_parse)

text \<open>
  An image of 1 to 511 bytes cannot be upgraded: whatever piece of it the library presents,
  the callback hands all of it back and writes nothing, so the download never finishes.
\<close>

theorem ota_short_image_stuck:
  assumes "ug_state p = UGS_RECV_IMG_DATA" "recv_data_cnt p = 0"
    "0 < bin_len (file_header p)" "bin_len (file_header p) < 512"
    "length data \<le> unat (bin_len (file_header p))"
  shows "gw_upgrade_process_cb F p data orem fl = (OPRT_OK, of_nat (length data), p, fl)"
  using assms ug_recv_img_short_stuck [of p data F orem fl]
  by (simp add: gw_upgrade_process_cb_def oprt_defs c_arith)

theorem ota_short_image_stuck_witness:
  "gw_upgrade_process_cb nor_flash
     (demo_p1\<lparr>file_header := (parse_hdr demo_hdr)\<lparr>bin_len := 100\<rparr>\<rparr>) (replicate 100 7) 0 (False, (\<lambda>_. 0)) =
   (OPRT_OK, 100, demo_p1\<lparr>file_header := (parse_hdr demo_hdr)\<lparr>bin_len := 100\<rparr>\<rparr>, (False, (\<lambda>_. 0)))"
  using ota_short_image_stuck
    [of "demo_p1\<lparr>file_header := (parse_hdr demo_hdr)\<lparr>bin_len := 100\<rparr>\<rparr>" "replicate 100 7"]
  by (simp add: demo_p1_def)

text \<open>
  After every sequence of calls with any data, failed flash writes included, the write address
  is the start address plus the byte count, and past the header state the image goes to
  \<open>UG_START_ADDR\<close> under a header with both magic words.
\<close>

theorem ota_counters_always:
  "case fold (ota_step F) calls (ug_zero, fl) of (p, fl') \<Rightarrow>
     flash_addr p = start_addr p + recv_data_cnt p \<and>
     (ug_state p = UGS_RECV_HEADER \<or>
      start_addr p = UG_START_ADDR \<and> header_flag (file_header p) = UG_PKG_HEAD \<and>
      tail_flag (file_header p) = UG_PKG_TAIL)"
proof -
  have "ota_counters (ug_zero, fl)" by (simp add: ota_counters_def ug_zero_def)
  from ota.run_keeps [OF this, of F calls] show ?thesis
    by (auto simp: ota_counters_def Let_def split: prod.split)
qed

end
