(* ===== verification/Byte_Fifo.thy ===== *)
theory Byte_Fifo
  imports SDK_Prelude
begin

text \<open>
  What the circular buffers of the SDK share: \<open>ring xs s n\<close> is the \<open>n\<close> elements of the array
  \<open>xs\<close> from index \<open>s\<close> on, indices taken modulo its size; \<open>ring_store\<close> writes a run the same
  way. The locale \<open>byte_fifo\<close> is the contract of a first-in first-out buffer as its callers see
  it, with what follows for every sequence of writes and reads.
\<close>

section \<open>Circular arrays\<close>

definition ring :: "'a list \<Rightarrow> nat \<Rightarrow> nat \<Rightarrow> 'a list" where
  "ring xs s n = map (\<lambda>i. xs ! ((s + i) mod length xs)) [0..<n]"

fun ring_store :: "'a list \<Rightarrow> nat \<Rightarrow> 'a list \<Rightarrow> 'a list" where
  "ring_store xs p [] = xs"
| "ring_store xs p (b # bs) = ring_store (xs[p mod length xs := b]) (Suc p) bs"

lemma length_ring [simp]: "length (ring xs s n) = n"
  by (simp add: ring_def)

lemma ring_0 [simp]: "ring xs s 0 = []"
  by (simp add: ring_def)

lemma ring_Suc: "ring xs s (Suc n) = ring xs s n @ [xs ! ((s + n) mod length xs)]"
  by (simp add: ring_def)

lemma ring_add: "ring xs s (n + m) = ring xs s n @ ring xs (s + n) m"
  by (induction m) (simp_all add: ring_Suc add.assoc)

lemma ring_mod [simp]: "ring xs (s mod length xs) n = ring xs s n"
  by (simp add: ring_def mod_add_left_eq)

lemma ring_shift [simp]: "ring xs (s + length xs) n = ring xs s n"
  by (metis mod_add_self2 ring_mod)

lemma take_ring: "take k (ring xs s n) = ring xs s (min k n)"
  by (cases "k \<le> n") (auto simp: ring_def take_map min_def)

lemma drop_ring: "drop k (ring xs s n) = ring xs (s + k) (n - k)"
proof (cases "k \<le> n")
  case True
  then have "ring xs s n = ring xs s k @ ring xs (s + k) (n - k)"
    by (metis le_add_diff_inverse ring_add)
  then show ?thesis by simp
qed simp

lemma ring_slice:
  assumes "s + n \<le> length xs"
  shows "ring xs s n = take n (drop s xs)"
  using assms by (intro nth_equalityI) (auto simp: ring_def)

lemma length_ring_store [simp]: "length (ring_store xs p bs) = length xs"
  by (induction xs p bs rule: ring_store.induct) simp_all

lemma ring_store_append:
  "ring_store xs p (as @ bs) = ring_store (ring_store xs p as) (p + length as) bs"
  by (induction xs p as rule: ring_store.induct) simp_all

lemma ring_store_mod: "ring_store xs (p mod length xs) bs = ring_store xs p bs"
proof (induction bs arbitrary: xs p)
  case (Cons b bs)
  have "ring_store ys (Suc (p mod length xs)) bs = ring_store ys (Suc p) bs"
    if "length ys = length xs" for ys :: "'a list"
    using Cons.IH [of ys "Suc (p mod length xs)"] Cons.IH [of ys "Suc p"] that
    by (simp add: mod_Suc_eq)
  then show ?case by simp
qed simp

lemma ring_store_blit:
  "p + length bs \<le> length xs \<Longrightarrow> ring_store xs p bs = blit xs p bs"
proof (induction bs arbitrary: xs p)
  case (Cons b bs)
  then have "ring_store xs p (b # bs) = blit (xs[p := b]) (Suc p) bs" by simp
  also have "\<dots> = blit xs p (b # bs)"
    using Cons.prems by (auto simp: blit_def upd_conv_take_nth_drop take_Suc_conv_app_nth
        add.commute)
  finally show ?case .
qed simp

lemma ring_update_out:
  assumes "n < length xs"
  shows "ring (xs[(s + n) mod length xs := b]) s n = ring xs s n"
proof (rule nth_equalityI)
  fix i assume "i < length (ring (xs[(s + n) mod length xs := b]) s n)"
  then have i: "i < n" by simp
  have "(s + i) mod length xs \<noteq> (s + n) mod length xs"
  proof
    assume "(s + i) mod length xs = (s + n) mod length xs"
    then have "(n - i) mod length xs = 0"
      using i by (metis add_diff_cancel_left diff_diff_left le_add_diff_inverse less_imp_le_nat
          mod_eq_dvd_iff_nat mod_0_imp_dvd dvd_imp_mod_0 add_le_cancel_left)
    with i assms show False by simp
  qed
  with i show "ring (xs[(s + n) mod length xs := b]) s n ! i = ring xs s n ! i"
    by (simp add: ring_def)
qed simp

lemma ring_put:
  assumes "n < length xs"
  shows "ring (xs[(s + n) mod length xs := b]) s (Suc n) = ring xs s n @ [b]"
proof -
  have "(s + n) mod length xs < length xs" using assms by (intro mod_less_divisor) auto
  then show ?thesis using ring_update_out [OF assms] by (simp add: ring_Suc)
qed

lemma ring_ring_store:
  "n + length bs \<le> length xs \<Longrightarrow> ring (ring_store xs (s + n) bs) s (n + length bs) = ring xs s n @ bs"
proof (induction bs arbitrary: xs n)
  case (Cons b bs)
  let ?ys = "xs[(s + n) mod length xs := b]"
  have "ring (ring_store ?ys (s + Suc n) bs) s (Suc n + length bs) = ring ?ys s (Suc n) @ bs"
    using Cons.prems by (intro Cons.IH) simp
  also have "ring ?ys s (Suc n) = ring xs s n @ [b]"
    using Cons.prems by (intro ring_put) simp
  finally show ?case by simp
qed simp

section \<open>The contract of a byte buffer\<close>

datatype 'b fifo_op = Put "'b list" | Get u32

fun fifo_run :: "('b list \<Rightarrow> 's \<Rightarrow> 's) \<Rightarrow> (u32 \<Rightarrow> 's \<Rightarrow> 'b list \<times> 's) \<Rightarrow> 'b fifo_op list \<Rightarrow> 's \<Rightarrow> 'b list \<times> 's"
  where
  "fifo_run put get [] s = ([], s)"
| "fifo_run put get (Put bs # ops) s = fifo_run put get ops (put bs s)"
| "fifo_run put get (Get n # ops) s =
     (case get n s of (out, s1) \<Rightarrow> case fifo_run put get ops s1 of (outs, s2) \<Rightarrow> (out @ outs, s2))"

fun fifo_accepted :: "('b list \<Rightarrow> 's \<Rightarrow> 's) \<Rightarrow> (u32 \<Rightarrow> 's \<Rightarrow> 'b list \<times> 's) \<Rightarrow> ('s \<Rightarrow> nat \<Rightarrow> nat) \<Rightarrow>
    'b fifo_op list \<Rightarrow> 's \<Rightarrow> 'b list" where
  "fifo_accepted put get room [] s = []"
| "fifo_accepted put get room (Put bs # ops) s =
     take (room s (length bs)) bs @ fifo_accepted put get room ops (put bs s)"
| "fifo_accepted put get room (Get n # ops) s = fifo_accepted put get room ops (snd (get n s))"

definition short_puts :: "'b fifo_op list \<Rightarrow> bool" where
  "short_puts ops = list_all (\<lambda>q. case q of Put bs \<Rightarrow> length bs < 4294967292 | Get _ \<Rightarrow> True) ops"

lemma short_puts_simps [simp]:
  "short_puts []"
  "short_puts (Put bs # ops) = (length bs < 4294967292 \<and> short_puts ops)"
  "short_puts (Get n # ops) = short_puts ops"
  by (simp_all add: short_puts_def)

locale byte_fifo =
  fixes put :: "'b list \<Rightarrow> 's \<Rightarrow> 's"
    and get :: "u32 \<Rightarrow> 's \<Rightarrow> 'b list \<times> 's"
    and contents :: "'s \<Rightarrow> 'b list"
    and room :: "'s \<Rightarrow> nat \<Rightarrow> nat"
    and ok :: "'s \<Rightarrow> bool"
  assumes put_ok: "ok s \<Longrightarrow> length bs < 4294967292 \<Longrightarrow> ok (put bs s)"
    and put_contents: "ok s \<Longrightarrow> length bs < 4294967292 \<Longrightarrow>
          contents (put bs s) = contents s @ take (room s (length bs)) bs"
    and get_ok: "ok s \<Longrightarrow> ok (snd (get n s))"
    and get_data: "ok s \<Longrightarrow> fst (get n s) = take (unat n) (contents s)"
    and get_contents: "ok s \<Longrightarrow> contents (snd (get n s)) = drop (unat n) (contents s)"
begin

lemma get_split: "ok s \<Longrightarrow> fst (get n s) @ contents (snd (get n s)) = contents s"
  by (simp add: get_data get_contents)

lemma run_ok: "ok s \<Longrightarrow> short_puts ops \<Longrightarrow> ok (snd (fifo_run put get ops s))"
proof (induction ops arbitrary: s)
  case (Cons q ops)
  show ?case
  proof (cases q)
    case (Put bs)
    with Cons show ?thesis by (simp add: put_ok)
  next
    case (Get n)
    with Cons.prems Cons.IH [of "snd (get n s)"] get_ok [of s n] show ?thesis by (auto split: prod.splits)
  qed
qed simp

lemma nothing_lost:
  "ok s \<Longrightarrow> short_puts ops \<Longrightarrow>
     fst (fifo_run put get ops s) @ contents (snd (fifo_run put get ops s)) =
     contents s @ fifo_accepted put get room ops s"
proof (induction ops arbitrary: s)
  case (Cons q ops)
  show ?case
  proof (cases q)
    case (Put bs)
    with Cons show ?thesis by (simp add: put_ok put_contents)
  next
    case (Get n)
    obtain out s1 where g: "get n s = (out, s1)" by fastforce
    have "ok s1" "out @ contents s1 = contents s"
      using get_ok [of s n] get_split [of s n] Cons.prems(1) g by auto
    with Cons.IH [of s1] Cons.prems Get g show ?thesis
      by (auto split: prod.splits)
  qed
qed simp

end

end
