(* ===== verification/Tuya_Uart.thy ===== *)
theory Tuya_Uart
  imports Byte_Fifo
begin

text \<open>
  The serial port of the Tuya application, \<open>project/tuya_common/src/driver/tuya_uart.c\<close>: for each
  port a ring buffer that the receive callback of the UART driver fills and the application
  reads, with a semaphore between them in blocking mode. The semaphores (\<open>uni_semaphore.h\<close>) are
  part of the prebuilt Tuya library and a parameter; the bytes the driver has ready
  (\<open>uart_read_byte\<close> until it answers -1) are the list argument of the callback.
\<close>

section \<open>State\<close>

definition TY_UART_NUM :: nat where "TY_UART_NUM = 2"

definition UART_OK :: int where "UART_OK = 0"
definition UART_COM_ERROR :: int where "UART_COM_ERROR = -1"
definition UART_INVALID_PARM :: int where "UART_INVALID_PARM = -2"
definition UART_MALLOC_FAILED :: int where "UART_MALLOC_FAILED = -3"

lemmas uart_ret_defs = UART_OK_def UART_COM_ERROR_def UART_INVALID_PARM_def UART_MALLOC_FAILED_def

text \<open>\<open>in\<close> and \<open>out\<close> are 16-bit indices, \<open>buf_len\<close> is 32 bits wide; \<open>None\<close> in \<open>buf\<close> is NULL.\<close>

record tuya_uart =
  buf_len :: u32
  buf :: "u8 list option"
  in_ix :: u16
  out_ix :: u16
  unblock :: bool
  uart_sem :: nat
  has_sem_get :: bool

record 's sem_ops =
  sem_create :: "'s \<Rightarrow> int \<times> nat \<times> 's"
  sem_post :: "nat \<Rightarrow> 's \<Rightarrow> 's"
  sem_wait :: "nat \<Rightarrow> 's \<Rightarrow> (int \<times> 's) option"
  sem_release :: "nat \<Rightarrow> 's \<Rightarrow> 's"

type_synonym 's ty_state = "tuya_uart list \<times> 's"

text \<open>The line parameters handed to \<open>bk_uart_initialize\<close>.\<close>

record uart_config =
  baud_rate :: u32
  data_width :: u32
  parity :: u32
  stop_bits :: u32
  flow_control :: u32
  uart_flags :: u32

text \<open>A call that may block on the semaphore, or go through the NULL buffer of a freed port.\<close>

datatype 'a uart_call = Returns 'a | Blocks | Faults

definition uart_zero :: tuya_uart where
  "uart_zero = \<lparr>buf_len = 0, buf = None, in_ix = 0, out_ix = 0, unblock = False, uart_sem = 0,
     has_sem_get = False\<rparr>"

section \<open>Operations\<close>

text \<open>
  \<open>ty_uart_init\<close> takes the result of \<open>Malloc\<close> as an argument. It ends without a \<open>return\<close> when
  it succeeds: the first component is \<open>None\<close> then. The last component is what the driver was
  initialised with, if it was.
\<close>

definition ty_uart_init ::
    "'s sem_ops \<Rightarrow> nat \<Rightarrow> u32 \<Rightarrow> u32 \<Rightarrow> u32 \<Rightarrow> u32 \<Rightarrow> u32 \<Rightarrow> bool \<Rightarrow> u8 list option \<Rightarrow> 's ty_state
       \<Rightarrow> int option \<times> 's ty_state \<times> uart_config option" where
  "ty_uart_init S port badu bits par stop bufsz unblk malloc st =
     (case st of (us, sem) \<Rightarrow>
      if TY_UART_NUM \<le> port \<or> bufsz = 0 then (Some UART_INVALID_PARM, st, None)
      else if buf (us ! port) \<noteq> None then (Some UART_COM_ERROR, st, None)
      else
        (case malloc of
           None \<Rightarrow> (Some UART_MALLOC_FAILED, (us[port := uart_zero], sem), None)
         | Some fresh \<Rightarrow>
             (let u = \<lparr>buf_len = bufsz, buf = Some fresh, in_ix = 0, out_ix = 0,
                       unblock = unblk, uart_sem = 0, has_sem_get = True\<rparr>;
                  config = \<lparr>baud_rate = badu, data_width = bits, parity = par, stop_bits = stop,
                       flow_control = 0, uart_flags = 0\<rparr>
              in if unblk then (None, (us[port := u], sem), Some config)
                 else
                   (case sem_create S sem of (op_ret, h, sem') \<Rightarrow>
                      if op_ret \<noteq> UART_OK
                      then (Some op_ret, (us[port := u\<lparr>uart_sem := h\<rparr>], sem'), None)
                      else (None, (us[port := u\<lparr>uart_sem := h\<rparr>], sem'), Some config)))))"

definition ty_uart_free :: "'s sem_ops \<Rightarrow> nat \<Rightarrow> 's ty_state \<Rightarrow> int \<times> 's ty_state" where
  "ty_uart_free S port st =
     (case st of (us, sem) \<Rightarrow>
      if TY_UART_NUM \<le> port then (UART_INVALID_PARM, st)
      else
        (let u = us ! port;
             sem' = (if \<not> unblock u then sem_release S (uart_sem u) sem else sem)
         in (UART_OK, (us[port := u\<lparr>buf := None, buf_len := 0, unblock := False\<rparr>], sem'))))"

definition ty_uart_read_data_size :: "tuya_uart \<Rightarrow> u32" where
  "ty_uart_read_data_size u =
     (if out_ix u \<le> in_ix u then ucast (in_ix u) - ucast (out_ix u)
      else ucast (in_ix u) + buf_len u - ucast (out_ix u))"

text \<open>One round of the callback's loop: \<open>None\<close> is a write through a NULL buffer.\<close>

definition uart_push :: "'s sem_ops \<Rightarrow> u8 \<Rightarrow> tuya_uart \<times> 's \<Rightarrow> (tuya_uart \<times> 's) option" where
  "uart_push S rc us =
     (case us of (u, sem) \<Rightarrow>
      if ty_uart_read_data_size u < buf_len u - 1 then
        (case buf u of
           None \<Rightarrow> None
         | Some b \<Rightarrow>
             (let u1 = u\<lparr>buf := Some (b[unat (in_ix u) := rc]), in_ix := in_ix u + 1\<rparr>;
                  u2 = (if buf_len u1 \<le> ucast (in_ix u1) then u1\<lparr>in_ix := 0\<rparr> else u1)
              in if \<not> unblock u2 \<and> has_sem_get u2
                 then Some (u2\<lparr>has_sem_get := False\<rparr>, sem_post S (uart_sem u2) sem)
                 else Some (u2, sem)))
      else Some us)"

fun uart_push_all :: "'s sem_ops \<Rightarrow> u8 list \<Rightarrow> tuya_uart \<times> 's \<Rightarrow> (tuya_uart \<times> 's) option" where
  "uart_push_all S [] us = Some us"
| "uart_push_all S (rc # rcs) us = Option.bind (uart_push S rc us) (uart_push_all S rcs)"

definition ty_read_uart_data_to_buffer ::
    "'s sem_ops \<Rightarrow> nat \<Rightarrow> u8 list \<Rightarrow> 's ty_state \<Rightarrow> 's ty_state option" where
  "ty_read_uart_data_to_buffer S port rcs st =
     (case st of (us, sem) \<Rightarrow>
      map_option (\<lambda>(u, sem'). (us[port := u], sem')) (uart_push_all S rcs (us ! port, sem)))"

text \<open>\<open>ty_uart_send_data\<close>: the bytes given to \<open>bk_send_byte\<close>, in order.\<close>

definition ty_uart_send_data :: "nat \<Rightarrow> u8 list \<Rightarrow> u8 list" where
  "ty_uart_send_data port data = (if TY_UART_NUM \<le> port then [] else data)"

text \<open>The copy loop of \<open>ty_uart_read_data\<close>: \<open>n\<close> bytes from \<open>out\<close> on.\<close>

fun uart_pop :: "nat \<Rightarrow> u8 list \<Rightarrow> tuya_uart \<Rightarrow> u8 list \<times> tuya_uart" where
  "uart_pop 0 b u = ([], u)"
| "uart_pop (Suc n) b u =
     (let c = b ! unat (out_ix u);
          u1 = u\<lparr>out_ix := out_ix u + 1\<rparr>;
          u2 = (if buf_len u1 \<le> ucast (out_ix u1) then u1\<lparr>out_ix := 0\<rparr> else u1)
      in case uart_pop n b u2 of (cs, u') \<Rightarrow> (c # cs, u'))"

text \<open>
  \<open>ty_uart_read_data\<close>: the return value (the error code of \<open>WaitSemaphore\<close> comes back as a
  length) and the bytes stored in the caller's buffer.
\<close>

definition ty_uart_read_data ::
    "'s sem_ops \<Rightarrow> nat \<Rightarrow> bool \<Rightarrow> u32 \<Rightarrow> 's ty_state \<Rightarrow> (u32 \<times> u8 list \<times> 's ty_state) uart_call" where
  "ty_uart_read_data S port buf_null len st =
     (case st of (us, sem) \<Rightarrow>
      if buf_null \<or> len = 0 then Returns (0, [], st)
      else
        (let u = us ! port in
         case (if unblock u then Some (UART_OK, sem) else sem_wait S (uart_sem u) sem) of
           None \<Rightarrow> Blocks
         | Some (op_ret, sem') \<Rightarrow>
             if op_ret \<noteq> UART_OK then Returns (of_int op_ret, [], (us, sem'))
             else
               (let u1 = (if unblock u then u else u\<lparr>has_sem_get := True\<rparr>);
                    cur_num = ty_uart_read_data_size u1;
                    actual = (if cur_num < len then cur_num else len)
                in case buf u1 of
                     None \<Rightarrow> if actual = 0 then Returns (0, [], (us[port := u1], sem')) else Faults
                   | Some b \<Rightarrow>
                       (case uart_pop (unat actual) b u1 of
                          (cs, u2) \<Rightarrow> Returns (actual, cs, (us[port := u2], sem'))))))"

section \<open>The ring\<close>

definition uart_ok :: "tuya_uart \<Rightarrow> bool" where
  "uart_ok u \<longleftrightarrow> (\<exists>b. buf u = Some b \<and> length b = unat (buf_len u)) \<and>
     0 < unat (buf_len u) \<and> unat (buf_len u) \<le> 65536 \<and>
     unat (in_ix u) < unat (buf_len u) \<and> unat (out_ix u) < unat (buf_len u)"

definition uart_fill :: "tuya_uart \<Rightarrow> nat" where
  "uart_fill u = (if out_ix u \<le> in_ix u then unat (in_ix u) - unat (out_ix u)
     else unat (in_ix u) + unat (buf_len u) - unat (out_ix u))"

definition uart_fifo :: "tuya_uart \<Rightarrow> u8 list" where
  "uart_fifo u = ring (the (buf u)) (unat (out_ix u)) (uart_fill u)"

lemma length_uart_fifo [simp]: "length (uart_fifo u) = uart_fill u"
  by (simp add: uart_fifo_def)

lemma uart_okD:
  assumes "uart_ok u"
  obtains b where "buf u = Some b" "length b = unat (buf_len u)" "0 < unat (buf_len u)"
    "unat (buf_len u) \<le> 65536" "unat (in_ix u) < unat (buf_len u)" "unat (out_ix u) < unat (buf_len u)"
  using assms by (auto simp: uart_ok_def)

lemma uart_fill_less: "uart_ok u \<Longrightarrow> uart_fill u < unat (buf_len u)"
  by (auto simp: uart_ok_def uart_fill_def c_arith)

lemma uart_size: "uart_ok u \<Longrightarrow> unat (ty_uart_read_data_size u) = uart_fill u"
  by (auto simp: uart_ok_def ty_uart_read_data_size_def uart_fill_def c_arith unat_minus32 unat_plus32)

text \<open>An index that is incremented and set back at the end of the buffer.\<close>

lemma bump_ix:
  assumes "unat (w :: u16) < unat (n :: u32)" "unat n \<le> 65536"
  shows "unat (if n \<le> ucast (w + 1) then 0 else w + 1) = Suc (unat w) mod unat n"
proof (cases "Suc (unat w) = 65536")
  case True
  then have "unat (w + 1) = 0" by (simp add: unat_word_ariths)
  moreover from True assms have "unat n = 65536" by simp
  ultimately show ?thesis using True by (simp add: c_arith)
next
  case False
  have "unat w < 65536" using unsigned_less [of w] by simp
  with False have "unat (w + 1) = Suc (unat w)" by (simp add: unat_word_ariths)
  moreover have "n \<le> ucast (w + 1) \<longleftrightarrow> unat n = Suc (unat w)"
    using assms calculation by (auto simp: c_arith)
  ultimately show ?thesis using assms by auto
qed

lemma fill_push:
  assumes "unat (out_ix u) < N" "unat (in_ix u) < N" "N = unat (buf_len u)" "Suc (uart_fill u) < N"
    "buf_len v = buf_len u" "out_ix v = out_ix u" "unat (in_ix v) = Suc (unat (in_ix u)) mod N"
  shows "uart_fill v = Suc (uart_fill u)"
  using assms by (cases "Suc (unat (in_ix u)) = N") (auto simp: uart_fill_def c_arith split: if_splits)

lemma in_is_end:
  "unat (out_ix u) < N \<Longrightarrow> unat (in_ix u) < N \<Longrightarrow> N = unat (buf_len u) \<Longrightarrow>
     unat (in_ix u) = (unat (out_ix u) + uart_fill u) mod N"
  by (auto simp: uart_fill_def c_arith)

lemma uart_push_ok:
  assumes "uart_ok u"
  shows "\<exists>u' sem'. uart_push S rc (u, sem) = Some (u', sem') \<and> uart_ok u' \<and>
     buf_len u' = buf_len u \<and> unblock u' = unblock u \<and>
     uart_fifo u' = (if uart_fill u < unat (buf_len u) - 1 then uart_fifo u @ [rc] else uart_fifo u)"
proof (cases "uart_fill u < unat (buf_len u) - 1")
  case False
  have "unat (buf_len u - 1) = unat (buf_len u) - 1"
    using assms by (subst unat_minus32) (auto simp: uart_ok_def)
  with False assms show ?thesis
    by (auto simp: uart_push_def c_arith uart_size)
next
  case True
  obtain b where b: "buf u = Some b" "length b = unat (buf_len u)"
    and n: "0 < unat (buf_len u)" "unat (buf_len u) \<le> 65536"
    and ix: "unat (in_ix u) < unat (buf_len u)" "unat (out_ix u) < unat (buf_len u)"
    using assms by (rule uart_okD)
  have "unat (buf_len u - 1) = unat (buf_len u) - 1" using n by (subst unat_minus32) auto
  with True have room: "ty_uart_read_data_size u < buf_len u - 1"
    by (simp add: c_arith uart_size [OF assms])
  define ix' where "ix' = (if buf_len u \<le> ucast (in_ix u + 1) then 0 else in_ix u + 1)"
  have ix': "unat ix' = Suc (unat (in_ix u)) mod unat (buf_len u)"
    unfolding ix'_def by (rule bump_ix [OF ix(1) n(2)])
  define v where "v = u\<lparr>buf := Some (b[unat (in_ix u) := rc]), in_ix := ix'\<rparr>"
  have "uart_push S rc (u, sem) =
     (if \<not> unblock u \<and> has_sem_get u
      then Some (v\<lparr>has_sem_get := False\<rparr>, sem_post S (uart_sem u) sem) else Some (v, sem))"
    using room b by (auto simp: uart_push_def Let_def v_def ix'_def)
  moreover have "uart_ok v" using b n ix ix' by (auto simp: uart_ok_def v_def)
  moreover have "uart_fifo v = uart_fifo u @ [rc]"
  proof -
    have fill: "uart_fill v = Suc (uart_fill u)"
      using ix ix' True by (intro fill_push [of u "unat (buf_len u)"]) (auto simp: v_def)
    have "uart_fifo v =
        ring (b[(unat (out_ix u) + uart_fill u) mod length b := rc]) (unat (out_ix u)) (Suc (uart_fill u))"
      using fill in_is_end [OF ix(2,1) refl] b by (simp add: uart_fifo_def v_def)
    also have "\<dots> = ring b (unat (out_ix u)) (uart_fill u) @ [rc]"
      using True b by (intro ring_put) simp
    finally show ?thesis using b by (simp add: uart_fifo_def)
  qed
  ultimately show ?thesis
    using True by (auto simp: uart_ok_def uart_fifo_def uart_fill_def v_def)
qed

lemma uart_push_all_ok:
  "uart_ok u \<Longrightarrow>
     \<exists>u' sem'. uart_push_all S rcs (u, sem) = Some (u', sem') \<and> uart_ok u' \<and>
       buf_len u' = buf_len u \<and> unblock u' = unblock u \<and>
       uart_fifo u' = uart_fifo u @ take (unat (buf_len u) - 1 - uart_fill u) rcs"
proof (induction rcs arbitrary: u sem)
  case (Cons rc rcs)
  obtain u1 sem1 where p: "uart_push S rc (u, sem) = Some (u1, sem1)" "uart_ok u1"
    "buf_len u1 = buf_len u" "unblock u1 = unblock u"
    "uart_fifo u1 = (if uart_fill u < unat (buf_len u) - 1 then uart_fifo u @ [rc] else uart_fifo u)"
    using uart_push_ok [OF Cons.prems, of S rc sem] by blast
  from arg_cong [OF p(5), of length]
  have "uart_fill u1 = (if uart_fill u < unat (buf_len u) - 1 then Suc (uart_fill u) else uart_fill u)"
    by simp
  with p Cons.IH [of u1 sem1] show ?case
    by (auto simp: take_Cons' split: if_splits)
qed simp

lemma uart_pop_ok:
  "uart_ok u \<Longrightarrow> n \<le> uart_fill u \<Longrightarrow> buf u = Some b \<Longrightarrow>
     fst (uart_pop n b u) = take n (uart_fifo u) \<and>
     uart_ok (snd (uart_pop n b u)) \<and> buf_len (snd (uart_pop n b u)) = buf_len u \<and>
     unblock (snd (uart_pop n b u)) = unblock u \<and> has_sem_get (snd (uart_pop n b u)) = has_sem_get u \<and>
     uart_sem (snd (uart_pop n b u)) = uart_sem u \<and>
     uart_fifo (snd (uart_pop n b u)) = drop n (uart_fifo u)"
proof (induction n arbitrary: u)
  case (Suc n)
  obtain b' where b: "buf u = Some b'" "length b' = unat (buf_len u)"
    and n: "0 < unat (buf_len u)" "unat (buf_len u) \<le> 65536"
    and ix: "unat (in_ix u) < unat (buf_len u)" "unat (out_ix u) < unat (buf_len u)"
    using Suc.prems(1) by (rule uart_okD)
  with Suc.prems have [simp]: "b' = b" by simp
  define ix' where "ix' = (if buf_len u \<le> ucast (out_ix u + 1) then 0 else out_ix u + 1)"
  have ix': "unat ix' = Suc (unat (out_ix u)) mod unat (buf_len u)"
    unfolding ix'_def by (rule bump_ix [OF ix(2) n(2)])
  define v where "v = u\<lparr>out_ix := ix'\<rparr>"
  have ok: "uart_ok v" using b n ix ix' by (auto simp: uart_ok_def v_def)
  have fill: "uart_fill v = uart_fill u - 1"
    using Suc.prems(2) ix ix'
    by (cases "Suc (unat (out_ix u)) = unat (buf_len u)")
      (auto simp: uart_fill_def v_def c_arith split: if_splits)
  have "uart_fifo u = ring b (unat (out_ix u)) (Suc (uart_fill v))"
    using Suc.prems fill b by (simp add: uart_fifo_def)
  also have "\<dots> = b ! unat (out_ix u) # uart_fifo v"
  proof -
    have "ring b (unat (out_ix u)) 1 = [b ! unat (out_ix u)]"
      using ix b by (simp add: ring_def)
    moreover have "uart_fifo v = ring b (Suc (unat (out_ix u))) (uart_fill v)"
      using ix' b ring_mod [of b "Suc (unat (out_ix u))"] by (simp add: uart_fifo_def v_def)
    ultimately show ?thesis
      using ring_add [of b "unat (out_ix u)" 1 "uart_fill v"] by simp
  qed
  finally have cons: "uart_fifo u = b ! unat (out_ix u) # uart_fifo v" .
  have "uart_pop (Suc n) b u =
      (b ! unat (out_ix u) # fst (uart_pop n b v), snd (uart_pop n b v))"
    by (simp add: Let_def v_def ix'_def split: prod.split)
  moreover have "unblock v = unblock u" "has_sem_get v = has_sem_get u" "uart_sem v = uart_sem u"
    by (simp_all add: v_def)
  moreover have "buf_len v = buf_len u" "buf v = Some b" "n \<le> uart_fill v"
    using Suc.prems b fill by (auto simp: v_def)
  ultimately show ?case using Suc.IH [of v] ok cons by simp
qed simp

section \<open>The port as a byte buffer\<close>

definition port_ok :: "nat \<Rightarrow> 's ty_state \<Rightarrow> bool" where
  "port_ok port st \<longleftrightarrow> port < TY_UART_NUM \<and> length (fst st) = TY_UART_NUM \<and>
     uart_ok (fst st ! port) \<and> unblock (fst st ! port)"

definition port_put :: "'s sem_ops \<Rightarrow> nat \<Rightarrow> u8 list \<Rightarrow> 's ty_state \<Rightarrow> 's ty_state" where
  "port_put S port rcs st =
     (case ty_read_uart_data_to_buffer S port rcs st of Some st' \<Rightarrow> st' | None \<Rightarrow> st)"

definition port_get :: "'s sem_ops \<Rightarrow> nat \<Rightarrow> u32 \<Rightarrow> 's ty_state \<Rightarrow> u8 list \<times> 's ty_state" where
  "port_get S port len st =
     (case ty_uart_read_data S port False len st of
        Returns (_, cs, st') \<Rightarrow> (cs, st') | Blocks \<Rightarrow> ([], st) | Faults \<Rightarrow> ([], st))"

definition port_fifo :: "nat \<Rightarrow> 's ty_state \<Rightarrow> u8 list" where
  "port_fifo port st = uart_fifo (fst st ! port)"

definition port_room :: "nat \<Rightarrow> 's ty_state \<Rightarrow> nat \<Rightarrow> nat" where
  "port_room port st n = unat (buf_len (fst st ! port)) - 1 - uart_fill (fst st ! port)"

lemma port_put_ok:
  assumes "port_ok port st"
  shows "\<exists>st'. ty_read_uart_data_to_buffer S port rcs st = Some st' \<and> port_ok port st' \<and>
     port_fifo port st' = port_fifo port st @ take (port_room port st (length rcs)) rcs"
proof -
  obtain us sem where [simp]: "st = (us, sem)" by (cases st)
  obtain u' sem' where "uart_push_all S rcs (us ! port, sem) = Some (u', sem')" "uart_ok u'"
    "unblock u' = unblock (us ! port)"
    "uart_fifo u' = uart_fifo (us ! port) @
       take (unat (buf_len (us ! port)) - 1 - uart_fill (us ! port)) rcs"
    using uart_push_all_ok [of "us ! port" S rcs sem] assms by (auto simp: port_ok_def)
  with assms show ?thesis
    by (simp add: ty_read_uart_data_to_buffer_def port_ok_def port_fifo_def port_room_def)
qed

lemma port_get_ok:
  assumes "port_ok port st"
  shows "\<exists>st'. ty_uart_read_data S port False len st =
       Returns (of_nat (min (unat len) (length (port_fifo port st))), take (unat len) (port_fifo port st), st') \<and>
     port_ok port st' \<and> port_fifo port st' = drop (unat len) (port_fifo port st)"
proof (cases "len = 0")
  case True
  with assms show ?thesis by (cases st) (simp add: ty_uart_read_data_def)
next
  case False
  obtain us sem where [simp]: "st = (us, sem)" by (cases st)
  let ?u = "us ! port"
  from assms have u: "uart_ok ?u" "unblock ?u" by (auto simp: port_ok_def)
  then obtain b where b: "buf ?u = Some b" by (auto elim: uart_okD)
  define actual where "actual = (if ty_uart_read_data_size ?u < len then ty_uart_read_data_size ?u else len)"
  have a: "unat actual = min (unat len) (uart_fill ?u)"
    using uart_size [OF u(1)] by (auto simp: actual_def c_arith)
  obtain cs u' where pop: "uart_pop (unat actual) b ?u = (cs, u')" by fastforce
  have "ty_uart_read_data S port False len st = Returns (actual, cs, (us[port := u'], sem))"
    using u b pop False by (simp add: ty_uart_read_data_def Let_def actual_def)
  moreover have "cs = take (unat actual) (uart_fifo ?u)" "uart_ok u'" "unblock u' = unblock ?u"
    "uart_fifo u' = drop (unat actual) (uart_fifo ?u)"
    using uart_pop_ok [OF u(1) _ b, of "unat actual"] pop a by auto
  moreover have "take (unat actual) (uart_fifo ?u) = take (unat len) (uart_fifo ?u)"
    "drop (unat actual) (uart_fifo ?u) = drop (unat len) (uart_fifo ?u)"
    by (auto simp: a min_def)
  moreover have "actual = of_nat (min (unat len) (uart_fill ?u))"
    using arg_cong [OF a, of "of_nat :: nat \<Rightarrow> u32"] by simp
  ultimately show ?thesis
    using assms by (simp add: port_ok_def port_fifo_def)
qed

interpretation uart: byte_fifo "port_put S port" "port_get S port" "port_fifo port" "port_room port" "port_ok port"
proof
  fix st :: "'a ty_state" and rcs
  assume "port_ok port st"
  from port_put_ok [OF this, of S rcs] show "port_ok port (port_put S port rcs st)"
    "port_fifo port (port_put S port rcs st) =
       port_fifo port st @ take (port_room port st (length rcs)) rcs"
    by (auto simp: port_put_def)
next
  fix st :: "'a ty_state" and len
  assume "port_ok port st"
  from port_get_ok [OF this, of S len] show "port_ok port (snd (port_get S port len st))"
    "fst (port_get S port len st) = take (unat len) (port_fifo port st)"
    "port_fifo port (snd (port_get S port len st)) = drop (unat len) (port_fifo port st)"
    by (auto simp: port_get_def)
qed

section \<open>Blocking mode\<close>

text \<open>
  A semaphore as its interface describes it: \<open>count h s\<close> tokens, created with room for 10; a
  wait takes a token or blocks, a post adds one.
\<close>

definition sem_laws :: "'s sem_ops \<Rightarrow> (nat \<Rightarrow> 's \<Rightarrow> nat) \<Rightarrow> bool" where
  "sem_laws S count \<longleftrightarrow>
     (\<forall>h s. count h s = 0 \<longrightarrow> sem_wait S h s = None) \<and>
     (\<forall>h s. 0 < count h s \<longrightarrow>
        (\<exists>s'. sem_wait S h s = Some (UART_OK, s') \<and> count h s' = count h s - 1)) \<and>
     (\<forall>h s. count h s < 10 \<longrightarrow> count h (sem_post S h s) = Suc (count h s))"

lemma sem_laws_wait:
  "sem_laws S count \<Longrightarrow> 0 < count h s \<Longrightarrow>
     \<exists>s'. sem_wait S h s = Some (UART_OK, s') \<and> count h s' = count h s - 1"
  by (simp add: sem_laws_def)

definition one_sem :: "nat sem_ops" where
  "one_sem = \<lparr>sem_create = (\<lambda>s. (0, 1, 0)), sem_post = (\<lambda>h s. if s < 10 then s + 1 else s),
     sem_wait = (\<lambda>h s. if s = 0 then None else Some (0, s - 1)), sem_release = (\<lambda>h s. s)\<rparr>"

lemma one_sem_laws: "sem_laws one_sem (\<lambda>h s. s)"
  by (simp add: sem_laws_def one_sem_def UART_OK_def)

lemma uart_push_quiet:
  "uart_push S rc (u, sem) = Some (u', sem') \<Longrightarrow> \<not> has_sem_get u \<Longrightarrow>
     sem' = sem \<and> \<not> has_sem_get u' \<and> uart_sem u' = uart_sem u"
  by (auto simp: uart_push_def Let_def split: if_splits option.splits)

lemma uart_push_all_quiet:
  "uart_push_all S rcs (u, sem) = Some (u', sem') \<Longrightarrow> \<not> has_sem_get u \<Longrightarrow>
     sem' = sem \<and> \<not> has_sem_get u' \<and> uart_sem u' = uart_sem u"
proof (induction rcs arbitrary: u sem)
  case (Cons rc rcs)
  from Cons.prems(1) obtain u1 sem1 where "uart_push S rc (u, sem) = Some (u1, sem1)"
    "uart_push_all S rcs (u1, sem1) = Some (u', sem')"
    by (auto simp: bind_eq_Some_conv)
  with Cons uart_push_quiet [of S rc u sem u1 sem1] show ?case by auto
qed simp

lemma uart_push_posts:
  assumes "uart_ok u" "uart_fill u < unat (buf_len u) - 1" "\<not> unblock u" "has_sem_get u"
    "uart_push S rc (u, sem) = Some (u', sem')"
  shows "sem' = sem_post S (uart_sem u) sem \<and> \<not> has_sem_get u' \<and> uart_sem u' = uart_sem u"
proof -
  have "unat (buf_len u - 1) = unat (buf_len u) - 1"
    using assms(1) by (subst unat_minus32) (auto simp: uart_ok_def)
  with assms show ?thesis
    by (auto simp: uart_push_def Let_def c_arith uart_size split: if_splits option.splits)
qed

lemma blocking_rx:
  assumes "uart_ok u" "\<not> unblock u" "has_sem_get u" "uart_fifo u = []"
    "rcs \<noteq> []" "length rcs < unat (buf_len u)"
  shows "\<exists>u'. uart_push_all S rcs (u, sem) = Some (u', sem_post S (uart_sem u) sem) \<and> uart_ok u' \<and>
     \<not> unblock u' \<and> \<not> has_sem_get u' \<and> uart_sem u' = uart_sem u \<and> uart_fifo u' = rcs"
proof -
  obtain rc rest where r: "rcs = rc # rest" using assms(5) by (cases rcs) auto
  have fill: "uart_fill u = 0" using assms(4) by (metis length_uart_fifo list.size(3))
  obtain u1 sem1 where p: "uart_push S rc (u, sem) = Some (u1, sem1)"
    using uart_push_ok [OF assms(1), of S rc sem] by blast
  have "0 < unat (buf_len u) - 1" using assms(6) r by simp
  with uart_push_posts [OF assms(1) _ assms(2,3) p] fill
  have q: "sem1 = sem_post S (uart_sem u) sem" "\<not> has_sem_get u1" "uart_sem u1 = uart_sem u" by auto
  obtain u' sem' where all: "uart_push_all S rcs (u, sem) = Some (u', sem')" "uart_ok u'"
    "unblock u' = unblock u" "uart_fifo u' = uart_fifo u @ take (unat (buf_len u) - 1 - uart_fill u) rcs"
    using uart_push_all_ok [OF assms(1), of S rcs sem] by blast
  then have "uart_push_all S rest (u1, sem1) = Some (u', sem')" using p r by simp
  from uart_push_all_quiet [OF this q(2)] q all assms fill show ?thesis by auto
qed

section \<open>Properties\<close>

text \<open>
  After a successful \<open>ty_uart_init\<close> in non-blocking mode with a buffer of at most 65536 bytes,
  whatever bursts of bytes arrive and whatever reads the application makes, the bytes it has read
  followed by those still buffered are exactly the bytes that were accepted, in order.
\<close>

theorem uart_no_byte_lost:
  assumes "ty_uart_init S port badu bits par stop bufsz True (Some fresh) st = (None, st1, Some config)"
    and "length (fst st) = TY_UART_NUM" "length fresh = unat bufsz" "unat bufsz \<le> 65536"
    and "short_puts ops"
  shows "fst (fifo_run (port_put S port) (port_get S port) ops st1) @
       port_fifo port (snd (fifo_run (port_put S port) (port_get S port) ops st1)) =
     fifo_accepted (port_put S port) (port_get S port) (port_room port) ops st1"
proof -
  obtain us sem where st: "st = (us, sem)" by (cases st)
  from assms(1) have p: "port < TY_UART_NUM" "bufsz \<noteq> 0"
    "st1 = (us[port := \<lparr>buf_len = bufsz, buf = Some fresh, in_ix = 0, out_ix = 0,
       unblock = True, uart_sem = 0, has_sem_get = True\<rparr>], sem)"
    by (auto simp: ty_uart_init_def st split: if_splits)
  have "0 < unat bufsz" using p(2) by (simp add: unat_gt_0)
  then have "port_ok port st1" "port_fifo port st1 = []"
    using p assms by (auto simp: port_ok_def st uart_ok_def port_fifo_def uart_fifo_def uart_fill_def)
  then show ?thesis using uart.nothing_lost [of port st1 ops S] assms(5) by simp
qed

theorem uart_no_byte_lost_witness:
  "fst (fifo_run (port_put one_sem 0) (port_get one_sem 0) [Put [1, 2, 3, 4, 5], Get 2, Put [6], Get 9]
      ([\<lparr>buf_len = 4, buf = Some [0, 0, 0, 0], in_ix = 0, out_ix = 0, unblock = True, uart_sem = 0,
         has_sem_get = True\<rparr>, uart_zero], 0)) = [1, 2, 3, 6]"
proof -
  let ?u = "\<lparr>buf_len = 4, buf = Some [0, 0, 0, 0], in_ix = 0, out_ix = 0, unblock = True,
    uart_sem = 0, has_sem_get = True\<rparr>"
  have i: "ty_uart_init one_sem 0 9600 3 0 1 4 True (Some [0, 0, 0, 0]) ([uart_zero, uart_zero], 0) =
     (None, ([?u, uart_zero], 0), Some \<lparr>baud_rate = 9600, data_width = 3, parity = 0, stop_bits = 1,
       flow_control = 0, uart_flags = 0\<rparr>)"
    by (simp add: ty_uart_init_def TY_UART_NUM_def uart_zero_def)
  have "port_fifo 0 (snd (fifo_run (port_put one_sem 0) (port_get one_sem 0)
      [Put [1, 2, 3, 4, 5], Get 2, Put [6], Get 9] ([?u, uart_zero], 0))) = []"
    by code_simp
  moreover have "fifo_accepted (port_put one_sem 0) (port_get one_sem 0) (port_room 0)
      [Put [1, 2, 3, 4, 5], Get 2, Put [6], Get 9] ([?u, uart_zero], 0) = [1, 2, 3, 6]"
    by code_simp
  ultimately show ?thesis
    using uart_no_byte_lost [OF i, of "[Put [1, 2, 3, 4, 5], Get 2, Put [6], Get 9]"]
    by (simp add: TY_UART_NUM_def)
qed

text \<open>
  One burst of received bytes on a working port: the callback never writes outside the buffer,
  keeps what is buffered, and appends the longest prefix of the burst that leaves one slot free.
\<close>

theorem uart_rx_keeps_oldest:
  assumes "port < TY_UART_NUM" "length (fst st) = TY_UART_NUM" "uart_ok (fst st ! port)"
  shows "\<exists>st'. ty_read_uart_data_to_buffer S port rcs st = Some st' \<and> uart_ok (fst st' ! port) \<and>
     port_fifo port st' = port_fifo port st @
       take (unat (buf_len (fst st ! port)) - 1 - length (port_fifo port st)) rcs"
proof -
  obtain us sem where [simp]: "st = (us, sem)" by (cases st)
  show ?thesis
    using uart_push_all_ok [of "us ! port" S rcs sem] assms
    by (auto simp: ty_read_uart_data_to_buffer_def port_fifo_def)
qed

definition demo_ports :: "tuya_uart list" where
  "demo_ports = [uart_zero, \<lparr>buf_len = 3, buf = Some [0, 0, 0], in_ix = 0, out_ix = 0,
     unblock = False, uart_sem = 1, has_sem_get = True\<rparr>]"

theorem uart_rx_keeps_oldest_witness:
  "\<exists>st'. ty_read_uart_data_to_buffer one_sem 1 [9, 8, 7] (demo_ports, 0) = Some st' \<and>
     uart_ok (fst st' ! 1) \<and> port_fifo 1 st' = [9, 8]"
proof -
  have "uart_ok (demo_ports ! 1)" by (simp add: demo_ports_def uart_ok_def)
  moreover have "port_fifo 1 (demo_ports, 0 :: nat) = []" "unat (buf_len (demo_ports ! 1)) = 3"
    "length demo_ports = TY_UART_NUM" "1 < TY_UART_NUM"
    by (simp_all add: demo_ports_def port_fifo_def uart_fifo_def uart_fill_def TY_UART_NUM_def)
  ultimately show ?thesis
    using uart_rx_keeps_oldest [of 1 "(demo_ports, 0)" one_sem "[9, 8, 7]"] by simp
qed

text \<open>
  In blocking mode a read that does not empty the buffer loses the wake-up: two or more bytes
  arrive in an empty buffer and post the semaphore once; after the application has read one of
  them, every further read blocks although the rest is there.
\<close>

theorem uart_partial_read_blocks:
  assumes laws: "sem_laws S count"
    and p: "port < TY_UART_NUM" "length us = TY_UART_NUM"
    and u: "uart_ok (us ! port)" "\<not> unblock (us ! port)" "has_sem_get (us ! port)"
      "uart_fifo (us ! port) = []" "count (uart_sem (us ! port)) sem = 0"
    and rcs: "2 \<le> length rcs" "length rcs < unat (buf_len (us ! port))"
  shows "\<exists>st1 st2. ty_read_uart_data_to_buffer S port rcs (us, sem) = Some st1 \<and>
     ty_uart_read_data S port False 1 st1 = Returns (1, [hd rcs], st2) \<and>
     port_fifo port st2 = tl rcs \<and>
     (\<forall>len. len = 0 \<or> ty_uart_read_data S port False len st2 = Blocks)"
proof -
  let ?h = "uart_sem (us ! port)"
  have "rcs \<noteq> []" using rcs by auto
  obtain u1 where rx: "uart_push_all S rcs (us ! port, sem) = Some (u1, sem_post S ?h sem)"
    and u1: "uart_ok u1" "\<not> unblock u1" "\<not> has_sem_get u1" "uart_sem u1 = ?h" "uart_fifo u1 = rcs"
    using blocking_rx [OF u(1-4) \<open>rcs \<noteq> []\<close> rcs(2), of S sem] by blast
  have "count ?h (sem_post S ?h sem) = 1" using laws u(5) by (simp add: sem_laws_def)
  then obtain sem2 where w: "sem_wait S ?h (sem_post S ?h sem) = Some (UART_OK, sem2)"
    "count ?h sem2 = 0"
    using sem_laws_wait [OF laws, of ?h "sem_post S ?h sem"] by auto
  let ?v = "u1\<lparr>has_sem_get := True\<rparr>"
  have v: "uart_ok ?v" "uart_fifo ?v = rcs" "uart_fill ?v = length rcs"
    using u1 length_uart_fifo [of u1] by (auto simp: uart_ok_def uart_fifo_def uart_fill_def)
  obtain b where b: "buf ?v = Some b" using v(1) by (auto elim: uart_okD)
  have sz: "unat (ty_uart_read_data_size ?v) = length rcs" using uart_size [OF v(1)] v(3) by simp
  then have act: "\<not> ty_uart_read_data_size ?v < 1" using \<open>rcs \<noteq> []\<close> by (auto simp: c_arith)
  obtain cs u2 where pop: "uart_pop 1 b ?v = (cs, u2)" by fastforce
  have r: "cs = [hd rcs]" "uart_fifo u2 = tl rcs" "\<not> unblock u2" "uart_sem u2 = ?h"
    using uart_pop_ok [OF v(1) _ b, of 1] v pop u1 rcs(1) \<open>rcs \<noteq> []\<close>
    by (auto simp: take_Suc drop_Suc)
  have "ty_uart_read_data S port False 1 (us[port := u1], sem_post S ?h sem) =
      Returns (1, [hd rcs], (us[port := u2], sem2))"
    using p u1 w b act pop r by (simp add: ty_uart_read_data_def Let_def)
  moreover have "ty_uart_read_data S port False len (us[port := u2], sem2) = Blocks" if "len \<noteq> 0" for len
    using that p r w(2) laws by (simp add: ty_uart_read_data_def sem_laws_def)
  ultimately show ?thesis
    using rx r p by (auto simp: ty_read_uart_data_to_buffer_def port_fifo_def)
qed

theorem uart_partial_read_blocks_witness:
  "\<exists>st1 st2. ty_read_uart_data_to_buffer one_sem 0 [7, 8]
       ([\<lparr>buf_len = 8, buf = Some (replicate 8 0), in_ix = 0, out_ix = 0, unblock = False,
          uart_sem = 1, has_sem_get = True\<rparr>, uart_zero], 0) = Some st1 \<and>
     ty_uart_read_data one_sem 0 False 1 st1 = Returns (1, [7], st2) \<and> port_fifo 0 st2 = [8] \<and>
     (\<forall>len. len = 0 \<or> ty_uart_read_data one_sem 0 False len st2 = Blocks)"
  using uart_partial_read_blocks [OF one_sem_laws, of 0 "[\<lparr>buf_len = 8, buf = Some (replicate 8 0),
      in_ix = 0, out_ix = 0, unblock = False, uart_sem = 1, has_sem_get = True\<rparr>, uart_zero]" 0 "[7, 8]"]
  by (simp add: TY_UART_NUM_def uart_ok_def uart_fifo_def uart_fill_def)

text \<open>
  A buffer larger than 65536 bytes does not work: the 16-bit write index comes back to 0 and
  65536 unread bytes are forgotten.
\<close>

theorem uart_big_buffer_forgets:
  assumes "buf u = Some b" "65536 < unat (buf_len u)" "in_ix u = 65535" "out_ix u = 0"
  shows "\<exists>u' sem'. uart_push S rc (u, sem) = Some (u', sem') \<and>
     ty_uart_read_data_size u = 65535 \<and> ty_uart_read_data_size u' = 0"
proof -
  have "unat (buf_len u - 1) = unat (buf_len u) - 1"
    using assms(2) by (subst unat_minus32) auto
  moreover have "ty_uart_read_data_size u = 65535"
    using assms by (simp add: ty_uart_read_data_size_def)
  ultimately show ?thesis
    using assms by (auto simp: uart_push_def c_arith Let_def ty_uart_read_data_size_def)
qed

definition demo_big :: tuya_uart where
  "demo_big = \<lparr>buf_len = 70000, buf = Some (replicate 70000 0), in_ix = 65535, out_ix = 0,
     unblock = True, uart_sem = 0, has_sem_get = True\<rparr>"

theorem uart_big_buffer_forgets_witness:
  "\<exists>u' sem'. uart_push one_sem 1 (demo_big, 0) = Some (u', sem') \<and>
     ty_uart_read_data_size demo_big = 65535 \<and> ty_uart_read_data_size u' = 0"
  by (rule uart_big_buffer_forgets [of _ "replicate 70000 0"]) (simp_all add: demo_big_def)

end
