(* ===== verification/Audio_Ring.thy ===== *)
theory Audio_Ring
  imports Byte_Fifo
begin

text \<open>
  The ring buffers of the audio driver: \<open>beken378/driver/audio/ring_buffer.c\<close>, which the CPU
  fills and drains in blocks, and the two variants whose other side is the DMA controller
  (\<open>ring_buffer_dma_read.c\<close>, \<open>ring_buffer_dma_write.c\<close>). \<open>address\<close> is the memory the buffer
  was given, \<open>RWP_SAFE_INTERVAL\<close> bytes of it stay free. The DMA position that
  \<open>sddev_control\<close> answers is an argument, the pause address handed back to it a result.
\<close>

section \<open>Operations\<close>

definition RWP_SAFE_INTERVAL :: u32 where "RWP_SAFE_INTERVAL = 4"

record rb_st =
  address :: "u8 list"
  capacity :: u32
  wp :: u32
  rp :: u32

definition rb_init :: "u8 list \<Rightarrow> u32 \<Rightarrow> rb_st" where
  "rb_init addr cap = \<lparr>address = addr, capacity = cap, wp = 0, rp = 0\<rparr>"

definition rb_clear :: "rb_st \<Rightarrow> rb_st" where
  "rb_clear rb = rb\<lparr>wp := 0, rp := 0\<rparr>"

text \<open>\<open>memcpy\<close> of \<open>n\<close> bytes out of the buffer, from index \<open>i\<close>.\<close>

definition rb_bytes :: "rb_st \<Rightarrow> u32 \<Rightarrow> u32 \<Rightarrow> u8 list" where
  "rb_bytes rb i n = take (unat n) (drop (unat i) (address rb))"

definition rb_read :: "rb_st \<Rightarrow> u32 \<Rightarrow> u32 \<Rightarrow> u32 \<times> u8 list \<times> rb_st" where
  "rb_read rb sz count =
     (let required = sz * count; w = wp rb in
      if required = 0 then (0, [], rb)
      else if rp rb \<le> w then
        (let remain = w - rp rb in
         if remain < required then (remain, rb_bytes rb (rp rb) remain, rb\<lparr>rp := rp rb + remain\<rparr>)
         else (required, rb_bytes rb (rp rb) required, rb\<lparr>rp := rp rb + required\<rparr>))
      else
        (let remain = capacity rb - rp rb in
         if remain < required then
           (let head = rb_bytes rb (rp rb) remain in
            if w < required - remain
            then (remain + w, head @ rb_bytes rb 0 w, rb\<lparr>rp := w\<rparr>)
            else (required, head @ rb_bytes rb 0 (required - remain), rb\<lparr>rp := required - remain\<rparr>))
         else (required, rb_bytes rb (rp rb) required, rb\<lparr>rp := rp rb + required\<rparr>)))"

definition rb_wrap :: "rb_st \<Rightarrow> rb_st" where
  "rb_wrap rb = (if capacity rb \<le> wp rb \<and> rp rb \<noteq> 0 then rb\<lparr>wp := 0\<rparr> else rb)"

definition rb_write :: "rb_st \<Rightarrow> u8 list \<Rightarrow> u32 \<Rightarrow> u32 \<Rightarrow> u32 \<times> rb_st" where
  "rb_write rb buffer sz count =
     (let write_bytes = sz * count; r = rp rb; src = take (unat write_bytes) buffer in
      if write_bytes = 0 then (0, rb)
      else if r \<le> wp rb then
        (if write_bytes + RWP_SAFE_INTERVAL \<le> capacity rb - wp rb + r then
           (let remain = capacity rb - wp rb in
            if write_bytes \<le> remain then
              (write_bytes, rb_wrap (rb\<lparr>address := blit (address rb) (unat (wp rb)) src,
                                        wp := wp rb + write_bytes\<rparr>))
            else
              (let a1 = blit (address rb) (unat (wp rb)) (take (unat remain) src);
                   w = write_bytes - remain
               in (write_bytes, rb_wrap (rb\<lparr>address := blit a1 0 (take (unat w) (drop (unat remain) src)),
                                            wp := w\<rparr>))))
         else (0, rb))
      else
        (if write_bytes + RWP_SAFE_INTERVAL \<le> r - wp rb then
           (write_bytes, rb_wrap (rb\<lparr>address := blit (address rb) (unat (wp rb)) src,
                                     wp := wp rb + write_bytes\<rparr>))
         else (0, rb)))"

definition rb_get_fill_size :: "rb_st \<Rightarrow> u32" where
  "rb_get_fill_size rb = (if rp rb \<le> wp rb then wp rb - rp rb else capacity rb - rp rb + wp rb)"

definition rb_get_free_size :: "rb_st \<Rightarrow> u32" where
  "rb_get_free_size rb =
     (let free = (if rp rb \<le> wp rb then capacity rb - wp rb + rp rb else rp rb - wp rb)
      in if RWP_SAFE_INTERVAL < free then free - RWP_SAFE_INTERVAL else 0)"

section \<open>Variants fed or drained by DMA\<close>

text \<open>
  \<open>base\<close> is the bus address of the memory, \<open>dma\<close> what the controller answers for the channel.
  The last component is the pause address it is given.
\<close>

definition rb_init_dma_read :: "u8 list \<Rightarrow> u32 \<Rightarrow> u32 \<Rightarrow> rb_st \<times> u32" where
  "rb_init_dma_read addr cap base = (\<lparr>address = addr, capacity = cap, wp = 0, rp = 0\<rparr>, base + 0)"

definition rb_clear_dma_read :: "rb_st \<Rightarrow> u32 \<Rightarrow> rb_st \<times> u32" where
  "rb_clear_dma_read rb base = (let rb' = rb\<lparr>wp := 0, rp := 0\<rparr> in (rb', base + wp rb'))"


definition rb_get_fill_size_dma_read :: "rb_st \<Rightarrow> u32 \<Rightarrow> u32 \<Rightarrow> u32 \<times> rb_st" where
  "rb_get_fill_size_dma_read rb0 base dma =
     (let rb = rb0\<lparr>rp := dma - base\<rparr>
      in (if rp rb \<le> wp rb then wp rb - rp rb else capacity rb - rp rb + wp rb, rb))"

definition rb_get_free_size_dma_read :: "rb_st \<Rightarrow> u32 \<Rightarrow> u32 \<Rightarrow> u32 \<times> rb_st" where
  "rb_get_free_size_dma_read rb0 base dma =
     (let rb = rb0\<lparr>rp := dma - base\<rparr>;
          free = (if rp rb \<le> wp rb then capacity rb - wp rb + rp rb else rp rb - wp rb)
      in (if RWP_SAFE_INTERVAL < free then free - RWP_SAFE_INTERVAL else 0, rb))"

definition rb_init_dma_write :: "u8 list \<Rightarrow> u32 \<Rightarrow> u32 \<Rightarrow> rb_st \<times> u32" where
  "rb_init_dma_write addr cap base =
     (\<lparr>address = addr, capacity = cap, wp = 0, rp = 0\<rparr>, base + cap - RWP_SAFE_INTERVAL)"

definition rb_clear_dma_write :: "rb_st \<Rightarrow> u32 \<Rightarrow> rb_st \<times> u32" where
  "rb_clear_dma_write rb base =
     (rb\<lparr>wp := 0, rp := 0\<rparr>, base + capacity rb - RWP_SAFE_INTERVAL)"


definition rb_get_fill_size_dma_write :: "rb_st \<Rightarrow> u32 \<Rightarrow> u32 \<Rightarrow> u32 \<times> rb_st" where
  "rb_get_fill_size_dma_write rb0 base dma =
     (let rb = rb0\<lparr>wp := dma - base\<rparr>
      in (if rp rb \<le> wp rb then wp rb - rp rb else capacity rb - rp rb + wp rb, rb))"

definition rb_get_free_size_dma_write :: "rb_st \<Rightarrow> u32 \<Rightarrow> u32 \<Rightarrow> u32 \<times> rb_st" where
  "rb_get_free_size_dma_write rb0 base dma =
     (let rb = rb0\<lparr>wp := dma - base\<rparr>;
          free = (if rp rb \<le> wp rb then capacity rb - wp rb + rp rb else rp rb - wp rb)
      in (if RWP_SAFE_INTERVAL < free then free - RWP_SAFE_INTERVAL else 0, rb))"

section \<open>The buffer as a queue of bytes\<close>

definition rb_ok :: "rb_st \<Rightarrow> bool" where
  "rb_ok rb \<longleftrightarrow> length (address rb) = unat (capacity rb) \<and> unat (wp rb) < unat (capacity rb) \<and>
     unat (rp rb) \<le> unat (capacity rb)"

definition rb_fill :: "rb_st \<Rightarrow> nat" where
  "rb_fill rb = (if rp rb \<le> wp rb then unat (wp rb) - unat (rp rb)
     else unat (capacity rb) - unat (rp rb) + unat (wp rb))"

definition rb_contents :: "rb_st \<Rightarrow> u8 list" where
  "rb_contents rb = ring (address rb) (unat (rp rb)) (rb_fill rb)"

definition rb_room :: "rb_st \<Rightarrow> nat \<Rightarrow> nat" where
  "rb_room rb n = (if n + 4 \<le> unat (capacity rb) - rb_fill rb then n else 0)"

definition rb_put :: "u8 list \<Rightarrow> rb_st \<Rightarrow> rb_st" where
  "rb_put bs rb = snd (rb_write rb bs 1 (of_nat (length bs)))"

definition rb_get :: "u32 \<Rightarrow> rb_st \<Rightarrow> u8 list \<times> rb_st" where
  "rb_get n rb = snd (rb_read rb 1 n)"

lemma rb_fill_less: "rb_ok rb \<Longrightarrow> rb_fill rb < unat (capacity rb)"
  by (auto simp: rb_ok_def rb_fill_def c_arith)

lemma rb_fill_size: "rb_ok rb \<Longrightarrow> unat (rb_get_fill_size rb) = rb_fill rb"
  using unat_lt32 [of "capacity rb"]
  by (auto simp: rb_ok_def rb_fill_def rb_get_fill_size_def c_arith unat_minus32 unat_plus32)

lemma rb_free_size: "rb_ok rb \<Longrightarrow> unat (rb_get_free_size rb) = unat (capacity rb) - rb_fill rb - 4"
proof -
  assume ok: "rb_ok rb"
  have "unat (if rp rb \<le> wp rb then capacity rb - wp rb + rp rb else rp rb - wp rb) =
      unat (capacity rb) - rb_fill rb"
    using ok unat_lt32 [of "capacity rb"]
    by (auto simp: rb_ok_def rb_fill_def c_arith unat_minus32 unat_plus32)
  then show ?thesis
    by (auto simp: rb_get_free_size_def Let_def RWP_SAFE_INTERVAL_def c_arith unat_minus32)
qed

text \<open>Where the write index is, counted from the read index.\<close>

lemma wp_is_end:
  assumes "rb_ok rb"
  shows "unat (wp rb) = (unat (rp rb) + rb_fill rb) mod length (address rb)"
  using assms by (auto simp: rb_ok_def rb_fill_def c_arith)

lemma rb_advance:
  assumes "rb_ok rb" "k \<le> rb_fill rb" "unat r \<le> unat (capacity rb)"
    and "unat r = unat (rp rb) + k \<or> unat r + unat (capacity rb) = unat (rp rb) + k"
  shows "rb_ok (rb\<lparr>rp := r\<rparr>) \<and> rb_contents (rb\<lparr>rp := r\<rparr>) = drop k (rb_contents rb)"
proof -
  have len: "length (address rb) = unat (capacity rb)" using assms(1) by (simp add: rb_ok_def)
  have fill: "rb_fill (rb\<lparr>rp := r\<rparr>) = rb_fill rb - k"
    using assms by (auto simp: rb_ok_def rb_fill_def c_arith split: if_splits)
  have "ring (address rb) (unat r) (rb_fill rb - k) = ring (address rb) (unat (rp rb) + k) (rb_fill rb - k)"
    using assms(4) len by (metis ring_shift)
  then show ?thesis
    using assms(1,3) fill by (auto simp: rb_ok_def rb_contents_def drop_ring)
qed

lemma rb_slice:
  "rb_ok rb \<Longrightarrow> unat i + unat n \<le> unat (capacity rb) \<Longrightarrow>
     rb_bytes rb i n = ring (address rb) (unat i) (unat n)"
  by (simp add: rb_bytes_def rb_ok_def ring_slice)

lemma rb_get_ok:
  assumes ok: "rb_ok rb"
  shows "rb_ok (snd (rb_get n rb)) \<and> fst (rb_get n rb) = take (unat n) (rb_contents rb) \<and>
     rb_contents (snd (rb_get n rb)) = drop (unat n) (rb_contents rb) \<and>
     unat (fst (rb_read rb 1 n)) = min (unat n) (rb_fill rb)"
proof (cases "n = 0")
  case True
  with ok show ?thesis by (simp add: rb_get_def rb_read_def)
next
  case n: False
  have len: "length (address rb) = unat (capacity rb)" and r: "unat (rp rb) \<le> unat (capacity rb)"
    and w: "unat (wp rb) < unat (capacity rb)" using ok by (auto simp: rb_ok_def)
  have cap: "unat (capacity rb) < 4294967296" by (rule unat_lt32)
  show ?thesis
  proof (cases "rp rb \<le> wp rb")
    case True
    define k where "k = (if wp rb - rp rb < n then wp rb - rp rb else n)"
    have fill: "unat (wp rb - rp rb) = rb_fill rb"
      using True by (simp add: rb_fill_def c_arith unat_minus32)
    then have k: "unat k = min (unat n) (rb_fill rb)" by (auto simp: k_def c_arith)
    have kr: "unat (rp rb + k) = unat (rp rb) + unat k"
      using k True r w cap by (intro unat_plus32) (auto simp: rb_fill_def c_arith)
    have sum: "unat (rp rb) + unat k \<le> unat (capacity rb)"
      using k True r w by (auto simp: rb_fill_def c_arith)
    have "rb_read rb 1 n = (k, rb_bytes rb (rp rb) k, rb\<lparr>rp := rp rb + k\<rparr>)"
      using n True by (simp add: rb_read_def Let_def k_def)
    moreover have "rb_bytes rb (rp rb) k = take (unat n) (rb_contents rb)"
      using rb_slice [OF ok sum] k by (simp add: rb_contents_def take_ring)
    moreover have "drop (unat k) (rb_contents rb) = drop (unat n) (rb_contents rb)"
      using k by (auto simp: rb_contents_def min_def)
    ultimately show ?thesis
      using rb_advance [OF ok, of "unat k" "rp rb + k"] k kr sum by (simp add: rb_get_def)
  next
    case False
    let ?rest = "capacity rb - rp rb"
    have rest: "unat ?rest = unat (capacity rb) - unat (rp rb)" using r by (rule unat_minus32)
    have fill: "rb_fill rb = unat ?rest + unat (wp rb)"
      using False rest by (simp add: rb_fill_def)
    have head: "rb_bytes rb (rp rb) ?rest = ring (address rb) (unat (rp rb)) (unat ?rest)"
      using r rest by (intro rb_slice [OF ok]) simp
    have tail: "rb_bytes rb 0 m = ring (address rb) (unat (rp rb) + unat ?rest) (unat m)"
      if "unat m \<le> unat (capacity rb)" for m
      using rb_slice [OF ok, of 0 m] that r rest len ring_shift [of "address rb" 0 "unat m"] by simp
    show ?thesis
    proof (cases "?rest < n")
      case small: False
      have kr: "unat (rp rb + n) = unat (rp rb) + unat n"
        using small rest r cap by (intro unat_plus32) (auto simp: c_arith)
      have "rb_read rb 1 n = (n, rb_bytes rb (rp rb) n, rb\<lparr>rp := rp rb + n\<rparr>)"
        using n False small by (simp add: rb_read_def Let_def)
      moreover have le: "unat (rp rb) + unat n \<le> unat (capacity rb)" "unat n \<le> rb_fill rb"
        using small rest r fill by (auto simp: c_arith)
      then have "rb_bytes rb (rp rb) n = take (unat n) (rb_contents rb)"
        using rb_slice [OF ok le(1)] by (simp add: rb_contents_def take_ring min_absorb1)
      ultimately show ?thesis
        using rb_advance [OF ok, of "unat n" "rp rb + n"] kr le
        by (simp add: rb_get_def)
    next
      case big: True
      define m where "m = (if wp rb < n - ?rest then wp rb else n - ?rest)"
      have nr: "unat (n - ?rest) = unat n - unat ?rest" using big by (simp add: unat_minus32 c_arith)
      have m: "unat m = min (unat n - unat ?rest) (unat (wp rb))" by (auto simp: m_def c_arith nr)
      have total: "unat (?rest + m) = unat ?rest + unat m"
        using m rest False w cap by (intro unat_plus32) (auto simp: c_arith)
      have "rb_read rb 1 n = (?rest + m, rb_bytes rb (rp rb) ?rest @ rb_bytes rb 0 m, rb\<lparr>rp := m\<rparr>)"
        using n False big by (simp add: rb_read_def Let_def m_def)
      moreover have "rb_bytes rb (rp rb) ?rest @ rb_bytes rb 0 m = take (unat n) (rb_contents rb)"
      proof -
        have "min (unat n) (rb_fill rb) = unat ?rest + unat m"
          using m fill big by (auto simp: c_arith)
        moreover have "unat m \<le> unat (capacity rb)" using m w by simp
        ultimately show ?thesis
          unfolding rb_contents_def take_ring by (simp only: head tail ring_add)
      qed
      moreover have "drop (unat ?rest + unat m) (rb_contents rb) = drop (unat n) (rb_contents rb)"
        using m fill big by (auto simp: rb_contents_def min_def c_arith)
      moreover have mn: "unat ?rest + unat m = min (unat n) (rb_fill rb)"
        using m fill big by (auto simp: c_arith)
      moreover have "rb_ok (rb\<lparr>rp := m\<rparr>) \<and>
          rb_contents (rb\<lparr>rp := m\<rparr>) = drop (unat ?rest + unat m) (rb_contents rb)"
        using m rest r w fill by (intro rb_advance [OF ok]) auto
      ultimately show ?thesis
        using total by (simp add: rb_get_def)
    qed
  qed
qed

text \<open>A block written behind the contents.\<close>

lemma rb_stored:
  assumes ok: "rb_ok rb" and room: "length bs + 4 \<le> unat (capacity rb) - rb_fill rb"
    and rb': "address rb' = ring_store (address rb) (unat (wp rb)) bs" "capacity rb' = capacity rb"
      "rp rb' = rp rb" "unat (wp rb') = (unat (wp rb) + length bs) mod unat (capacity rb)"
  shows "rb_ok rb' \<and> rb_contents rb' = rb_contents rb @ bs"
proof -
  have len: "length (address rb) = unat (capacity rb)" and r: "unat (rp rb) \<le> unat (capacity rb)"
    and w: "unat (wp rb) < unat (capacity rb)" using ok by (auto simp: rb_ok_def)
  have fill: "rb_fill rb' = rb_fill rb + length bs"
  proof (cases "unat (wp rb) + length bs < unat (capacity rb)")
    case True
    with rb' have "unat (wp rb') = unat (wp rb) + length bs" by simp
    with True rb' room r w show ?thesis by (auto simp: rb_fill_def c_arith split: if_splits)
  next
    case False
    have "length bs < unat (capacity rb)" using room by auto
    with False w have "(unat (wp rb) + length bs) mod unat (capacity rb) =
        unat (wp rb) + length bs - unat (capacity rb)"
      by (simp add: mod_if)
    with False rb' room r w show ?thesis by (auto simp: rb_fill_def c_arith split: if_splits)
  qed
  have "ring_store (address rb) (unat (wp rb)) bs = ring_store (address rb) (unat (rp rb) + rb_fill rb) bs"
    using wp_is_end [OF ok] by (simp add: ring_store_mod)
  then have "rb_contents rb' = rb_contents rb @ bs"
    using room len rb' fill by (simp add: rb_contents_def ring_ring_store)
  moreover have "unat (wp rb') < unat (capacity rb)" unfolding rb'(4) using w by (intro mod_less_divisor) simp
  ultimately show ?thesis using ok rb' by (simp add: rb_ok_def)
qed

lemma rb_wrap_wp:
  "unat (wp rb) \<le> unat (capacity rb) \<Longrightarrow> (unat (wp rb) = unat (capacity rb) \<longrightarrow> rp rb \<noteq> 0) \<Longrightarrow>
     unat (wp (rb_wrap rb)) = unat (wp rb) mod unat (capacity rb) \<and> address (rb_wrap rb) = address rb \<and>
     capacity (rb_wrap rb) = capacity rb \<and> rp (rb_wrap rb) = rp rb"
  by (auto simp: rb_wrap_def c_arith)

lemma rb_put_ok:
  assumes ok: "rb_ok rb" and bs: "length bs < 4294967292"
  shows "rb_ok (rb_put bs rb) \<and> rb_contents (rb_put bs rb) = rb_contents rb @ take (rb_room rb (length bs)) bs"
proof (cases "bs = []")
  case True
  with ok show ?thesis by (simp add: rb_put_def rb_write_def)
next
  case False
  have len: "length (address rb) = unat (capacity rb)" and r: "unat (rp rb) \<le> unat (capacity rb)"
    and w: "unat (wp rb) < unat (capacity rb)" using ok by (auto simp: rb_ok_def)
  have cap: "unat (capacity rb) < 4294967296" by (rule unat_lt32)
  define n where "n = (of_nat (length bs) :: u32)"
  have n: "unat n = length bs" "n \<noteq> 0" "unat (n + RWP_SAFE_INTERVAL) = length bs + 4"
    using bs False by (auto simp: n_def unat_of_nat32 RWP_SAFE_INTERVAL_def unat_plus32
        simp flip: unat_gt_0)
  have rest: "unat (capacity rb - wp rb) = unat (capacity rb) - unat (wp rb)"
    using w by (intro unat_minus32) simp
  define avail where "avail = (if rp rb \<le> wp rb then capacity rb - wp rb + rp rb else rp rb - wp rb)"
  have avail: "unat avail = unat (capacity rb) - rb_fill rb"
    using ok cap by (auto simp: avail_def rb_ok_def rb_fill_def c_arith unat_minus32 unat_plus32)
  show ?thesis
  proof (cases "length bs + 4 \<le> unat (capacity rb) - rb_fill rb")
    case False
    then have "\<not> n + RWP_SAFE_INTERVAL \<le> avail" using n avail by (simp add: c_arith)
    then have "rb_put bs rb = rb" using n
      by (cases "rp rb \<le> wp rb") (auto simp: rb_put_def rb_write_def Let_def avail_def n_def)
    with ok False show ?thesis by (simp add: rb_room_def)
  next
    case room: True
    then have fits: "n + RWP_SAFE_INTERVAL \<le> avail" using n avail by (simp add: c_arith)
    have flat: "unat (wp rb) + length bs \<le> unat (capacity rb)" if "\<not> (rp rb \<le> wp rb \<and> \<not> n \<le> capacity rb - wp rb)"
      using that room r w rest n by (auto simp: c_arith rb_fill_def split: if_splits)
    define rb1 where "rb1 = rb\<lparr>address := ring_store (address rb) (unat (wp rb)) bs,
      wp := (if rp rb \<le> wp rb \<and> \<not> n \<le> capacity rb - wp rb then n - (capacity rb - wp rb) else wp rb + n)\<rparr>"
    have put: "rb_put bs rb = rb_wrap rb1"
    proof (cases "rp rb \<le> wp rb \<and> \<not> n \<le> capacity rb - wp rb")
      case True
      let ?k = "unat (capacity rb - wp rb)"
      have k: "?k < length bs" using True n by (simp add: c_arith)
      have nk: "unat (n - (capacity rb - wp rb)) = length bs - ?k" using k n by (simp add: unat_minus32)
      have "ring_store (address rb) (unat (wp rb)) bs =
          ring_store (ring_store (address rb) (unat (wp rb)) (take ?k bs)) (unat (wp rb) + ?k) (drop ?k bs)"
        using k ring_store_append [of "address rb" "unat (wp rb)" "take ?k bs" "drop ?k bs"] by simp
      also have "unat (wp rb) + ?k = length (ring_store (address rb) (unat (wp rb)) (take ?k bs))"
        using rest w len by simp
      also have "ring_store (ring_store (address rb) (unat (wp rb)) (take ?k bs)) \<dots> (drop ?k bs) =
          ring_store (ring_store (address rb) (unat (wp rb)) (take ?k bs)) 0 (drop ?k bs)"
        by (metis mod_self ring_store_mod)
      also have "\<dots> = blit (blit (address rb) (unat (wp rb)) (take ?k bs)) 0 (drop ?k bs)"
        using k len rest w room by (simp add: ring_store_blit)
      finally show ?thesis
        using True fits n nk by (simp add: rb_put_def rb_write_def Let_def rb1_def avail_def n_def)
    next
      case False
      then have "ring_store (address rb) (unat (wp rb)) bs = blit (address rb) (unat (wp rb)) bs"
        using len flat by (simp add: ring_store_blit)
      with False fits n show ?thesis
        by (cases "rp rb \<le> wp rb") (simp_all add: rb_put_def rb_write_def Let_def rb1_def avail_def n_def)
    qed
    have wp1: "unat (wp rb1) = (if rp rb \<le> wp rb \<and> \<not> n \<le> capacity rb - wp rb
        then unat (wp rb) + length bs - unat (capacity rb) else unat (wp rb) + length bs)"
    proof (cases "rp rb \<le> wp rb \<and> \<not> n \<le> capacity rb - wp rb")
      case True
      then have "unat (capacity rb) - unat (wp rb) < length bs" using n rest by (simp add: c_arith)
      with True n rest w show ?thesis by (simp add: rb1_def unat_minus32)
    next
      case False
      with flat cap n show ?thesis by (auto simp: rb1_def unat_plus32)
    qed
    have small: "length bs < unat (capacity rb)" using room by auto
    have "unat (wp (rb_wrap rb1)) = (unat (wp rb) + length bs) mod unat (capacity rb) \<and>
        address (rb_wrap rb1) = ring_store (address rb) (unat (wp rb)) bs \<and>
        capacity (rb_wrap rb1) = capacity rb \<and> rp (rb_wrap rb1) = rp rb"
    proof -
      have "unat (wp rb1) \<le> unat (capacity rb1)"
        using wp1 flat small w by (auto simp: rb1_def)
      moreover have "unat (wp rb1) = unat (capacity rb1) \<longrightarrow> rp rb1 \<noteq> 0"
        using wp1 small w room r by (auto simp: rb1_def rb_fill_def c_arith split: if_splits)
      moreover have "unat (wp rb1) mod unat (capacity rb) = (unat (wp rb) + length bs) mod unat (capacity rb)"
        using wp1 small w n rest by (auto simp: c_arith mod_if)
      ultimately show ?thesis using rb_wrap_wp [of rb1] by (simp add: rb1_def)
    qed
    then show ?thesis
      unfolding put using rb_stored [OF ok room, of "rb_wrap rb1"] room by (simp add: rb_room_def)
  qed
qed

text \<open>A buffer of capacity \<open>cap\<close> that keeps the safety interval free.\<close>

definition rb_safe :: "u32 \<Rightarrow> rb_st \<Rightarrow> bool" where
  "rb_safe cap rb \<longleftrightarrow> rb_ok rb \<and> capacity rb = cap \<and> length (rb_contents rb) \<le> unat cap - 4"

lemma rb_put_capacity: "capacity (rb_put bs rb) = capacity rb"
  by (simp add: rb_put_def rb_write_def rb_wrap_def Let_def)

lemma rb_get_capacity: "capacity (snd (rb_get n rb)) = capacity rb"
  by (simp add: rb_get_def rb_read_def Let_def)

lemma rb_put_safe:
  assumes "rb_safe cap rb" "length bs < 4294967292"
  shows "rb_safe cap (rb_put bs rb)"
proof -
  have put: "rb_ok (rb_put bs rb)" "rb_contents (rb_put bs rb) = rb_contents rb @ take (rb_room rb (length bs)) bs"
    using assms rb_put_ok by (simp_all add: rb_safe_def)
  have "length (rb_contents rb @ take (rb_room rb (length bs)) bs) \<le> unat cap - 4"
    using assms(1) by (auto simp: rb_room_def rb_safe_def rb_contents_def)
  with put assms(1) show ?thesis by (simp add: rb_safe_def rb_put_capacity)
qed

interpretation audio: byte_fifo rb_put rb_get rb_contents rb_room "rb_safe cap" for cap
  by unfold_locales (simp_all add: rb_put_safe, auto simp: rb_safe_def rb_put_ok rb_get_ok rb_get_capacity)

section \<open>Properties\<close>

text \<open>
  C15: from its initialisation on, whatever blocks are offered and whatever reads are made, the
  bytes read followed by those still in the buffer are the accepted blocks, in order: nothing is
  lost, repeated or reordered. At most \<open>cap - 4\<close> bytes are in the buffer. Blocks have fewer than
  \<open>2^32 - 4\<close> bytes: from there on the check of the free space wraps (\<open>rb_write_huge_count_accepted\<close>).
\<close>

theorem rb_no_byte_lost:
  assumes "length addr = unat cap" "0 < unat cap" "short_puts ops"
  shows "fst (fifo_run rb_put rb_get ops (rb_init addr cap)) @
       rb_contents (snd (fifo_run rb_put rb_get ops (rb_init addr cap))) =
     fifo_accepted rb_put rb_get rb_room ops (rb_init addr cap) \<and>
     length (rb_contents (snd (fifo_run rb_put rb_get ops (rb_init addr cap)))) \<le> unat cap - 4"
proof -
  have "rb_safe cap (rb_init addr cap)" "rb_contents (rb_init addr cap) = []"
    using assms by (simp_all add: rb_safe_def rb_ok_def rb_init_def rb_contents_def rb_fill_def)
  with audio.nothing_lost [OF this(1) assms(3)] audio.run_ok [OF this(1) assms(3)]
  show ?thesis by (simp add: rb_safe_def)
qed

theorem rb_no_byte_lost_witness:
  "fst (fifo_run rb_put rb_get [Put [1, 2, 3, 4], Get 3, Put [5, 6, 7], Put [8, 9], Get 9]
      (rb_init (replicate 8 0) 8)) = [1, 2, 3, 4, 5, 6, 7]"
proof -
  let ?ops = "[Put [1, 2, 3, 4], Get 3, Put [5, 6, 7], Put [8, 9], Get 9] :: u8 fifo_op list"
  have "rb_contents (snd (fifo_run rb_put rb_get ?ops (rb_init (replicate 8 0) 8))) = []"
    by code_simp
  moreover have "fifo_accepted rb_put rb_get rb_room ?ops (rb_init (replicate 8 0) 8) = [1, 2, 3, 4, 5, 6, 7]"
    by code_simp
  ultimately show ?thesis
    using rb_no_byte_lost [of "replicate 8 0" 8 ?ops] by simp
qed

text \<open>
  A block is accepted whole when it fits into \<open>rb_get_free_size\<close> and refused whole
  otherwise, and what \<open>rb_get_fill_size\<close> and \<open>rb_get_free_size\<close> report are the bytes buffered
  and the bytes left, less the safety interval.
\<close>

theorem rb_write_all_or_nothing:
  assumes "rb_ok rb" "0 < length bs" "length bs < 4294967292"
  shows "(if of_nat (length bs) \<le> rb_get_free_size rb
      then fst (rb_write rb bs 1 (of_nat (length bs))) = of_nat (length bs) \<and>
           rb_contents (snd (rb_write rb bs 1 (of_nat (length bs)))) = rb_contents rb @ bs
      else rb_write rb bs 1 (of_nat (length bs)) = (0, rb)) \<and>
    unat (rb_get_fill_size rb) = length (rb_contents rb) \<and>
    unat (rb_get_free_size rb) = unat (capacity rb) - length (rb_contents rb) - 4"
proof -
  have n: "unat (of_nat (length bs) :: u32) = length bs" "(of_nat (length bs) :: u32) \<noteq> 0"
    "unat (of_nat (length bs) + RWP_SAFE_INTERVAL) = length bs + 4"
    using assms(2,3) by (auto simp: unat_of_nat32 RWP_SAFE_INTERVAL_def unat_plus32 simp flip: unat_gt_0)
  define avail where "avail = (if rp rb \<le> wp rb then capacity rb - wp rb + rp rb else rp rb - wp rb)"
  have avail: "unat avail = unat (capacity rb) - rb_fill rb"
    using assms(1) unat_lt32 [of "capacity rb"]
    by (auto simp: avail_def rb_ok_def rb_fill_def c_arith unat_minus32 unat_plus32)
  have fits: "of_nat (length bs) \<le> rb_get_free_size rb \<longleftrightarrow> length bs + 4 \<le> unat (capacity rb) - rb_fill rb"
    unfolding word_le_unat rb_free_size [OF assms(1)] n(1) using assms(2) by arith
  have chk: "of_nat (length bs) + RWP_SAFE_INTERVAL \<le> avail \<longleftrightarrow> length bs + 4 \<le> unat (capacity rb) - rb_fill rb"
    using n avail by (simp add: c_arith)
  have "fst (rb_write rb bs 1 (of_nat (length bs))) =
      (if length bs + 4 \<le> unat (capacity rb) - rb_fill rb then of_nat (length bs) else 0)"
    using n(2) chk by (cases "rp rb \<le> wp rb") (simp_all add: rb_write_def Let_def avail_def)
  moreover have "\<not> length bs + 4 \<le> unat (capacity rb) - rb_fill rb \<Longrightarrow>
      rb_write rb bs 1 (of_nat (length bs)) = (0, rb)"
    using n(2) chk by (cases "rp rb \<le> wp rb") (simp_all add: rb_write_def Let_def avail_def)
  ultimately show ?thesis
    using rb_put_ok [OF assms(1,3)] fits assms(1)
    by (simp add: rb_put_def rb_room_def rb_fill_size rb_free_size rb_contents_def)
qed

definition demo_rb :: rb_st where
  "demo_rb = \<lparr>address = [0, 1, 2, 3, 4, 5, 6, 7, 8, 9], capacity = 10, wp = 1, rp = 8\<rparr>"

lemma demo_rb_ok: "rb_ok demo_rb"
  by (simp add: rb_ok_def demo_rb_def)

theorem rb_write_all_or_nothing_witness:
  "rb_contents (snd (rb_write demo_rb [11, 12, 13] 1 3)) = [8, 9, 0, 11, 12, 13] \<and>
   rb_get_free_size demo_rb = 3"
proof -
  have "rb_get_free_size demo_rb = 3" "rb_contents demo_rb = [8, 9, 0]"
    by code_simp+
  then show ?thesis using rb_write_all_or_nothing [OF demo_rb_ok, of "[11, 12, 13]"] by simp
qed


text \<open>
  A byte count within \<open>RWP_SAFE_INTERVAL\<close> of \<open>2^32\<close> passes the room check, whose sum wraps:
  the block is reported as written although it is larger than the buffer.
\<close>

theorem rb_write_huge_count_accepted:
  assumes "rb_ok rb" "0 < unat (rb_get_free_size rb)"
  shows "fst (rb_write rb buffer 1 0xFFFFFFFD) = 0xFFFFFFFD"
proof -
  define avail where "avail = (if rp rb \<le> wp rb then capacity rb - wp rb + rp rb else rp rb - wp rb)"
  have "unat avail = unat (capacity rb) - rb_fill rb"
    using assms(1) unat_lt32 [of "capacity rb"]
    by (auto simp: avail_def rb_ok_def rb_fill_def c_arith unat_minus32 unat_plus32)
  then have one: "1 \<le> avail" using assms rb_free_size [of rb] by (simp add: c_arith)
  have wrap: "0xFFFFFFFD + RWP_SAFE_INTERVAL = 1" by code_simp
  have "0xFFFFFFFD + RWP_SAFE_INTERVAL \<le> avail" unfolding wrap by (rule one)
  then show ?thesis
    by (cases "rp rb \<le> wp rb") (simp_all add: rb_write_def Let_def avail_def)
qed

theorem rb_write_huge_count_accepted_witness:
  "fst (rb_write demo_rb [] 1 0xFFFFFFFD) = 0xFFFFFFFD"
proof -
  have "0 < unat (rb_get_free_size demo_rb)" by code_simp
  then show ?thesis by (rule rb_write_huge_count_accepted [OF demo_rb_ok])
qed

end
