(* ===== verification/Drv_Model.thy ===== *)
theory Drv_Model
  imports SDK_Prelude "HOL-Library.Sublist"
begin

text \<open>
  The device table of the SDK: \<open>beken378/driver/common/drv_model.c\<close> with its headers, and the
  start-up list of \<open>beken378/driver/common/dd.c\<close>. Drivers register their operations under a
  name; \<open>ddev_*\<close> devices are opened and used through handles, \<open>sddev_*\<close> ones are controlled by
  name. A driver's operations are functions on a state \<open>'w\<close> of the hardware and the drivers, and
  a parameter; \<open>None\<close> is a NULL function or table pointer.

  Names are compared with \<open>os_strncmp\<close> over the length of the name asked for, so a name finds
  every name that it is a prefix of. A free slot has a NULL name, and the comparison reads the
  string at address 0, the parameter \<open>nul\<close>.
\<close>

section \<open>Tables\<close>

datatype dd_state = DD_STATE_NODEVICE | DD_STATE_CLOSED | DD_STATE_OPENED | DD_STATE_BREAK | DD_STATE_SUCCESS

record 'w dd_operations =
  op_open :: "(u32 \<Rightarrow> 'w \<Rightarrow> u32 \<times> 'w) option"
  op_close :: "('w \<Rightarrow> u32 \<times> 'w) option"
  op_read :: "(u32 \<Rightarrow> u32 \<Rightarrow> 'w \<Rightarrow> u32 \<times> u8 list \<times> 'w) option"
  op_write :: "(u8 list \<Rightarrow> u32 \<Rightarrow> u32 \<Rightarrow> 'w \<Rightarrow> u32 \<times> 'w) option"
  op_control :: "(u32 \<Rightarrow> u32 \<Rightarrow> 'w \<Rightarrow> u32 \<times> 'w) option"

record 'w sdd_operations =
  sop_control :: "(u32 \<Rightarrow> u32 \<Rightarrow> 'w \<Rightarrow> u32 \<times> 'w) option"

record 'op drv_dev =
  dev_name :: "string option"
  use_cnt :: u32
  dev_state :: dd_state
  dev_op :: "'op option"

definition DD_MAX_DEV :: nat where "DD_MAX_DEV = 8"
definition DD_MAX_SDEV :: nat where "DD_MAX_SDEV = 16"
definition DD_MAX_NAME_LEN :: nat where "DD_MAX_NAME_LEN = 16"
definition DRV_FAILURE :: u32 where "DRV_FAILURE = - 5"
definition DRV_SUCCESS :: u32 where "DRV_SUCCESS = 0"
definition DD_HANDLE_MAGIC_WORD :: u32 where "DD_HANDLE_MAGIC_WORD = 0xA5A50000"
definition DD_HANDLE_MAGIC_MASK :: u32 where "DD_HANDLE_MAGIC_MASK = 0xFFFF0000"
definition DD_HANDLE_ID_MASK :: u32 where "DD_HANDLE_ID_MASK = 0x0000FFFF"
definition DD_HANDLE_UNVALID :: u32 where "DD_HANDLE_UNVALID = - 1"
definition DD_ID_UNVALID :: u32 where "DD_ID_UNVALID = - 1"

definition dev_zero :: "'op drv_dev" where
  "dev_zero = \<lparr>dev_name = None, use_cnt = 0, dev_state = DD_STATE_NODEVICE, dev_op = None\<rparr>"


section \<open>Handles\<close>

definition ddev_check_handle :: "u32 \<Rightarrow> u32" where
  "ddev_check_handle handle =
     (let magic = handle AND DD_HANDLE_MAGIC_MASK; i = handle AND DD_HANDLE_ID_MASK
      in if DD_HANDLE_MAGIC_WORD = magic \<and> i < of_nat DD_MAX_DEV then DRV_SUCCESS else DRV_FAILURE)"

definition ddev_make_handle :: "u32 \<Rightarrow> u32" where
  "ddev_make_handle i = (if of_nat DD_MAX_DEV \<le> i then DD_HANDLE_UNVALID else i + DD_HANDLE_MAGIC_WORD)"

definition ddev_get_id_from_handle :: "u32 \<Rightarrow> u32" where
  "ddev_get_id_from_handle handle =
     (let magic = handle AND DD_HANDLE_MAGIC_MASK; i = handle AND DD_HANDLE_ID_MASK
      in if magic \<noteq> DD_HANDLE_MAGIC_WORD then DD_ID_UNVALID else i)"

section \<open>Looking names up\<close>

text \<open>\<open>0 == os_strncmp(dev_ptr->name, dev_name, strlen(dev_name))\<close>\<close>

definition name_match :: "string \<Rightarrow> string option \<Rightarrow> string \<Rightarrow> bool" where
  "name_match nul slot name =
     (take (length name) (case slot of Some s \<Rightarrow> s | None \<Rightarrow> nul) = name)"

text \<open>The first slot among the first \<open>n\<close> whose name matches; the loops' index.\<close>

fun dd_find :: "string \<Rightarrow> 'op drv_dev list \<Rightarrow> string \<Rightarrow> nat option" where
  "dd_find nul [] name = None"
| "dd_find nul (d # ds) name =
     (if name_match nul (dev_name d) name then Some 0 else map_option Suc (dd_find nul ds name))"

fun dd_free :: "'op drv_dev list \<Rightarrow> nat option" where
  "dd_free [] = None"
| "dd_free (d # ds) =
     (if dev_name d = None \<and> dev_state d = DD_STATE_NODEVICE then Some 0 else map_option Suc (dd_free ds))"

section \<open>Devices with handles\<close>

type_synonym 'w ddev_tbl = "'w dd_operations drv_dev list"

text \<open>
  \<open>ddev_open\<close> yields the handle, \<open>*status\<close> (\<open>None\<close> where it is not assigned), the table and the
  state of the drivers.
\<close>

definition ddev_open ::
    "string \<Rightarrow> string \<Rightarrow> bool \<Rightarrow> u32 \<Rightarrow> 'w ddev_tbl \<times> 'w \<Rightarrow> (u32 \<times> u32 option \<times> 'w ddev_tbl \<times> 'w) c_run" where
  "ddev_open nul name status_ok op_flag tw =
     (case tw of (tbl, w) \<Rightarrow>
      if \<not> status_ok \<or> DD_MAX_NAME_LEN < length name then Ret (DD_HANDLE_UNVALID, None, tbl, w)
      else
        (case dd_find nul tbl name of
           None \<Rightarrow> Assert_Stop
         | Some i \<Rightarrow>
             (let d = tbl ! i in
              case dev_state d of
                DD_STATE_OPENED \<Rightarrow>
                  Ret (ddev_make_handle (of_nat i), Some DRV_FAILURE, tbl[i := d\<lparr>use_cnt := use_cnt d + 1\<rparr>], w)
              | DD_STATE_CLOSED \<Rightarrow>
                  (case (case dev_op d of
                           None \<Rightarrow> (DRV_FAILURE, w)
                         | Some ops \<Rightarrow> (case op_open ops of None \<Rightarrow> (DRV_FAILURE, w) | Some f \<Rightarrow> f op_flag w)) of
                     (status, w') \<Rightarrow>
                       Ret (ddev_make_handle (of_nat i), Some status,
                            tbl[i := d\<lparr>dev_state := DD_STATE_OPENED, use_cnt := 0 + 1\<rparr>], w'))
              | _ \<Rightarrow> Assert_Stop)))"

text \<open>
  The calls that take a handle check its magic half only; an index past the table is a \<open>Fault\<close>.
\<close>

definition ddev_close :: "u32 \<Rightarrow> 'w ddev_tbl \<times> 'w \<Rightarrow> (u32 \<times> 'w ddev_tbl \<times> 'w) c_run" where
  "ddev_close handle tw =
     (case tw of (tbl, w) \<Rightarrow>
      let i = ddev_get_id_from_handle handle in
      if DD_ID_UNVALID = i then Ret (DRV_FAILURE, tbl, w)
      else if length tbl \<le> unat i then Fault
      else
        (let d = (tbl ! unat i)\<lparr>use_cnt := use_cnt (tbl ! unat i) - 1\<rparr> in
         if use_cnt d = 0 then
           (let w' = (case dev_op d of
                        None \<Rightarrow> w
                      | Some ops \<Rightarrow> (case op_close ops of None \<Rightarrow> w | Some f \<Rightarrow> snd (f w)))
            in Ret (DRV_SUCCESS, tbl[unat i := d\<lparr>dev_state := DD_STATE_CLOSED\<rparr>], w'))
         else Ret (DRV_SUCCESS, tbl[unat i := d], w)))"

definition ddev_read :: "u32 \<Rightarrow> u32 \<Rightarrow> u32 \<Rightarrow> 'w ddev_tbl \<times> 'w \<Rightarrow> (u32 \<times> u8 list \<times> 'w) c_run" where
  "ddev_read handle count op_flag tw =
     (case tw of (tbl, w) \<Rightarrow>
      let i = ddev_get_id_from_handle handle in
      if DD_ID_UNVALID = i then Ret (DRV_FAILURE, [], w)
      else if length tbl \<le> unat i then Fault
      else
        (case dev_op (tbl ! unat i) of
           None \<Rightarrow> Ret (DRV_FAILURE, [], w)
         | Some ops \<Rightarrow> (case op_read ops of
               None \<Rightarrow> Ret (DRV_FAILURE, [], w) | Some f \<Rightarrow> Ret (f count op_flag w))))"

definition ddev_write :: "u32 \<Rightarrow> u8 list \<Rightarrow> u32 \<Rightarrow> u32 \<Rightarrow> 'w ddev_tbl \<times> 'w \<Rightarrow> (u32 \<times> 'w) c_run" where
  "ddev_write handle user_buf count op_flag tw =
     (case tw of (tbl, w) \<Rightarrow>
      let i = ddev_get_id_from_handle handle in
      if DD_ID_UNVALID = i then Ret (DRV_FAILURE, w)
      else if length tbl \<le> unat i then Fault
      else
        (case dev_op (tbl ! unat i) of
           None \<Rightarrow> Ret (DRV_FAILURE, w)
         | Some ops \<Rightarrow> (case op_write ops of
               None \<Rightarrow> Ret (DRV_FAILURE, w) | Some f \<Rightarrow> Ret (f user_buf count op_flag w))))"

definition ddev_control :: "u32 \<Rightarrow> u32 \<Rightarrow> u32 \<Rightarrow> 'w ddev_tbl \<times> 'w \<Rightarrow> (u32 \<times> 'w) c_run" where
  "ddev_control handle cmd param tw =
     (case tw of (tbl, w) \<Rightarrow>
      let i = ddev_get_id_from_handle handle in
      if DD_ID_UNVALID = i then Ret (DRV_FAILURE, w)
      else if length tbl \<le> unat i then Fault
      else
        (case dev_op (tbl ! unat i) of
           None \<Rightarrow> Ret (DRV_FAILURE, w)
         | Some ops \<Rightarrow> (case op_control ops of
               None \<Rightarrow> Ret (DRV_FAILURE, w) | Some f \<Rightarrow> Ret (f cmd param w))))"

section \<open>Devices controlled by name\<close>

type_synonym 'w sddev_tbl = "'w sdd_operations drv_dev list"


section \<open>Registration\<close>

text \<open>
  \<open>ddev_register_dev\<close> and \<open>sddev_register_dev\<close> are the same code over the two tables;
  \<open>None\<close> stands for a NULL argument.
\<close>

definition dd_take_slot :: "string \<Rightarrow> 'op \<Rightarrow> 'op drv_dev list \<Rightarrow> (u32 \<times> 'op drv_dev list) c_run" where
  "dd_take_slot name op tbl =
     (case dd_free tbl of
        None \<Rightarrow> Assert_Stop
      | Some i \<Rightarrow>
          Ret (DRV_SUCCESS,
               tbl[i := (tbl ! i)\<lparr>dev_name := Some name, dev_op := Some op, dev_state := DD_STATE_CLOSED\<rparr>]))"

definition ddev_register_dev ::
    "string option \<Rightarrow> 'w dd_operations option \<Rightarrow> 'w ddev_tbl \<Rightarrow> (u32 \<times> 'w ddev_tbl) c_run" where
  "ddev_register_dev name optr tbl =
     (case (name, optr) of
        (Some nm, Some op) \<Rightarrow> dd_take_slot nm op tbl
      | _ \<Rightarrow> Ret (DRV_FAILURE, tbl))"

definition sddev_register_dev ::
    "string option \<Rightarrow> 'w sdd_operations option \<Rightarrow> 'w sddev_tbl \<Rightarrow> (u32 \<times> 'w sddev_tbl) c_run" where
  "sddev_register_dev name optr tbl =
     (case (name, optr) of
        (Some nm, Some op) \<Rightarrow> dd_take_slot nm op tbl
      | _ \<Rightarrow> Ret (DRV_FAILURE, tbl))"

definition dd_clear_slot :: "nat \<Rightarrow> 'op drv_dev list \<Rightarrow> 'op drv_dev list" where
  "dd_clear_slot i tbl =
     tbl[i := (tbl ! i)\<lparr>dev_name := None, dev_op := None, dev_state := DD_STATE_NODEVICE\<rparr>]"

text \<open>
  The two loops have each other's bound: \<open>ddev_unregister_dev\<close> runs to \<open>DD_MAX_SDEV\<close>, past the
  end of its table of \<open>DD_MAX_DEV\<close>, and \<open>sddev_unregister_dev\<close> looks at the first
  \<open>DD_MAX_DEV\<close> slots only.
\<close>

definition ddev_unregister_dev :: "string \<Rightarrow> string option \<Rightarrow> 'w ddev_tbl \<Rightarrow> (u32 \<times> 'w ddev_tbl) c_run" where
  "ddev_unregister_dev nul name tbl =
     (case name of
        None \<Rightarrow> Ret (DRV_FAILURE, tbl)
      | Some nm \<Rightarrow>
          if DD_MAX_NAME_LEN < length nm then Ret (DRV_FAILURE, tbl)
          else
            (case dd_find nul (take DD_MAX_SDEV tbl) nm of
               Some i \<Rightarrow> Ret (DRV_SUCCESS, dd_clear_slot i tbl)
             | None \<Rightarrow> if length tbl < DD_MAX_SDEV then Fault else Assert_Stop))"

definition sddev_unregister_dev :: "string \<Rightarrow> string option \<Rightarrow> 'w sddev_tbl \<Rightarrow> (u32 \<times> 'w sddev_tbl) c_run" where
  "sddev_unregister_dev nul name tbl =
     (case name of
        None \<Rightarrow> Ret (DRV_FAILURE, tbl)
      | Some nm \<Rightarrow>
          if DD_MAX_NAME_LEN < length nm then Ret (DRV_FAILURE, tbl)
          else
            (case dd_find nul (take DD_MAX_DEV tbl) nm of
               Some i \<Rightarrow> Ret (DRV_SUCCESS, dd_clear_slot i tbl)
             | None \<Rightarrow> if length tbl < DD_MAX_DEV then Fault else Assert_Stop))"

section \<open>Start-up\<close>

record 'w dd_init_s =
  dd_name :: "string option"
  dd_init :: "('w \<Rightarrow> 'w) option"
  dd_exit :: "('w \<Rightarrow> 'w) option"

fun g_dd_init :: "'w dd_init_s list \<Rightarrow> 'w \<Rightarrow> 'w" where
  "g_dd_init [] w = w"
| "g_dd_init (e # es) w =
     (case (dd_name e, dd_init e) of
        (Some _, Some f) \<Rightarrow> g_dd_init es (f w)
      | _ \<Rightarrow> w)"

fun g_dd_exit :: "'w dd_init_s list \<Rightarrow> 'w \<Rightarrow> 'w" where
  "g_dd_exit [] w = w"
| "g_dd_exit (e # es) w =
     (case (dd_name e, dd_exit e) of
        (Some _, Some f) \<Rightarrow> g_dd_exit es (f w)
      | _ \<Rightarrow> w)"

section \<open>Tables of names\<close>

text \<open>
  What a client expects of a table that operations are registered in under names: an insertion
  into a table that is not full is found again under its name and disturbs no other.
\<close>

fun reg_all :: "(string \<Rightarrow> 'op \<Rightarrow> 't \<Rightarrow> 't option) \<Rightarrow> (string \<times> 'op) list \<Rightarrow> 't \<Rightarrow> 't option" where
  "reg_all reg [] t = Some t"
| "reg_all reg ((n, op) # xs) t = Option.bind (reg n op t) (reg_all reg xs)"

locale named_table =
  fixes reg :: "string \<Rightarrow> 'op \<Rightarrow> 't \<Rightarrow> 't option"
    and lookup :: "'t \<Rightarrow> string \<Rightarrow> 'op option"
    and used :: "'t \<Rightarrow> nat"
    and cap :: nat
    and names :: "string set"
    and ok :: "'t \<Rightarrow> bool"
  assumes reg_new: "ok t \<Longrightarrow> n \<in> names \<Longrightarrow> lookup t n = None \<Longrightarrow> used t < cap \<Longrightarrow>
      \<exists>t'. reg n op t = Some t' \<and> ok t' \<and> used t' = Suc (used t) \<and>
        (\<forall>m \<in> names. lookup t' m = (if m = n then Some op else lookup t m))"
begin

lemma reg_all_finds:
  "ok t \<Longrightarrow> distinct (map fst xs) \<Longrightarrow> fst ` set xs \<subseteq> names \<Longrightarrow>
     \<forall>n \<in> fst ` set xs. lookup t n = None \<Longrightarrow> used t + length xs \<le> cap \<Longrightarrow>
     \<exists>t'. reg_all reg xs t = Some t' \<and> ok t' \<and> used t' = used t + length xs \<and>
       (\<forall>m \<in> names. lookup t' m = (case map_of xs m of Some op \<Rightarrow> Some op | None \<Rightarrow> lookup t m))"
proof (induction xs arbitrary: t)
  case (Cons x xs)
  obtain n op where x: "x = (n, op)" by (cases x)
  obtain t1 where t1: "reg n op t = Some t1" "ok t1" "used t1 = Suc (used t)"
    "\<forall>m \<in> names. lookup t1 m = (if m = n then Some op else lookup t m)"
    using reg_new [of t n op] Cons.prems x by auto
  have "n \<notin> fst ` set xs" using Cons.prems(2) x by auto
  then have "\<forall>m \<in> fst ` set xs. m \<in> names \<and> m \<noteq> n \<and> lookup t m = None" using Cons.prems by auto
  then have "\<forall>m \<in> fst ` set xs. lookup t1 m = None" using t1(4) by auto
  with Cons.IH [of t1] t1 Cons.prems x obtain t' where t': "reg_all reg xs t1 = Some t'" "ok t'"
    "used t' = used t1 + length xs"
    "\<forall>m \<in> names. lookup t' m = (case map_of xs m of Some op \<Rightarrow> Some op | None \<Rightarrow> lookup t1 m)"
    by auto
  have "map_of xs n = None" using \<open>n \<notin> fst ` set xs\<close> by (simp add: map_of_eq_None_iff)
  with t' t1 x show ?case by (auto split: option.split)
qed simp

end

locale named_table_del = named_table +
  fixes unreg :: "string \<Rightarrow> 't \<Rightarrow> 't option"
  assumes unreg_found: "ok t \<Longrightarrow> n \<in> names \<Longrightarrow> lookup t n \<noteq> None \<Longrightarrow>
      \<exists>t'. unreg n t = Some t' \<and> ok t' \<and> Suc (used t') = used t \<and>
        (\<forall>m \<in> names. lookup t' m = (if m = n then None else lookup t m))"
begin

lemma reg_unreg:
  assumes "ok t" "n \<in> names" "lookup t n = None" "used t < cap"
  shows "\<exists>t1 t2. reg n op t = Some t1 \<and> unreg n t1 = Some t2 \<and> ok t2 \<and> used t2 = used t \<and>
    (\<forall>m \<in> names. lookup t2 m = lookup t m)"
proof -
  obtain t1 where t1: "reg n op t = Some t1" "ok t1" "used t1 = Suc (used t)"
    "\<forall>m \<in> names. lookup t1 m = (if m = n then Some op else lookup t m)"
    using reg_new [OF assms, of op] by auto
  then obtain t2 where "unreg n t1 = Some t2" "ok t2" "Suc (used t2) = used t1"
    "\<forall>m \<in> names. lookup t2 m = (if m = n then None else lookup t1 m)"
    using unreg_found [of t1 n] assms by auto
  with t1 assms show ?thesis by auto
qed

end

section \<open>The tables as maps\<close>

text \<open>
  \<open>good_names nul U\<close>: no name of \<open>U\<close> is a prefix of another, of the string at address 0, or
  longer than \<open>DD_MAX_NAME_LEN\<close>.
\<close>

definition good_names :: "string \<Rightarrow> string set \<Rightarrow> bool" where
  "good_names nul U \<longleftrightarrow> (\<forall>a \<in> U. \<not> prefix a nul \<and> length a \<le> DD_MAX_NAME_LEN \<and>
     (\<forall>b \<in> U. prefix a b \<longrightarrow> a = b))"

definition entries :: "'op drv_dev list \<Rightarrow> (string \<times> 'op option) list" where
  "entries t = concat (map (\<lambda>d. case dev_name d of None \<Rightarrow> [] | Some n \<Rightarrow> [(n, dev_op d)]) t)"

lemma entries_simps [simp]:
  "entries [] = []"
  "entries (d # ds) = (case dev_name d of None \<Rightarrow> [] | Some n \<Rightarrow> [(n, dev_op d)]) @ entries ds"
  "entries (as @ bs) = entries as @ entries bs"
  by (simp_all add: entries_def)

definition dd_lookup :: "string \<Rightarrow> 'op drv_dev list \<Rightarrow> string \<Rightarrow> 'op option" where
  "dd_lookup nul t n = (case dd_find nul t n of None \<Rightarrow> None | Some i \<Rightarrow> dev_op (t ! i))"

definition tbl_ok :: "nat \<Rightarrow> string set \<Rightarrow> 'op drv_dev list \<Rightarrow> bool" where
  "tbl_ok cap U t \<longleftrightarrow> length t = cap \<and> distinct (map fst (entries t)) \<and> fst ` set (entries t) \<subseteq> U \<and>
     (\<forall>d \<in> set t. (dev_name d = None \<longrightarrow> dev_state d = DD_STATE_NODEVICE) \<and>
        (dev_name d \<noteq> None \<longrightarrow> dev_op d \<noteq> None))"

lemma name_match_good:
  "good_names nul U \<Longrightarrow> n \<in> U \<Longrightarrow> slot = None \<or> (\<exists>s \<in> U. slot = Some s) \<Longrightarrow>
     name_match nul slot n \<longleftrightarrow> slot = Some n"
proof -
  have take: "take (length n) s = n \<longleftrightarrow> prefix n s" for s :: string
    by (metis append_eq_conv_conj prefix_def take_is_prefix)
  assume U: "good_names nul U" "n \<in> U" "slot = None \<or> (\<exists>s \<in> U. slot = Some s)"
  show ?thesis
  proof (cases slot)
    case None
    with U show ?thesis by (simp add: name_match_def take good_names_def)
  next
    case (Some s)
    with U have "prefix n s \<longrightarrow> n = s" by (auto simp: good_names_def)
    with Some show ?thesis by (auto simp: name_match_def take)
  qed
qed

lemma dd_find_entries:
  assumes "good_names nul U" "n \<in> U"
  shows "fst ` set (entries t) \<subseteq> U \<Longrightarrow> map_of (entries t) n = map_option (\<lambda>i. dev_op (t ! i)) (dd_find nul t n)"
proof (induction t)
  case (Cons d t)
  then have "dev_name d = None \<or> (\<exists>s \<in> U. dev_name d = Some s)"
    by (cases "dev_name d") auto
  with name_match_good [OF assms this] Cons show ?case
    by (cases "dev_name d") (auto simp: option.map_comp comp_def)
qed simp

lemma dd_find_less: "dd_find nul t n = Some i \<Longrightarrow> i < length t"
  by (induction t arbitrary: i) (auto split: if_splits)

lemma dd_find_named:
  assumes "good_names nul U" "n \<in> U"
  shows "fst ` set (entries t) \<subseteq> U \<Longrightarrow> dd_find nul t n = Some i \<Longrightarrow> dev_name (t ! i) = Some n"
proof (induction t arbitrary: i)
  case (Cons d t)
  then have "dev_name d = None \<or> (\<exists>s \<in> U. dev_name d = Some s)"
    by (cases "dev_name d") auto
  with name_match_good [OF assms this] Cons show ?case
    by (auto split: if_splits)
qed simp

lemma dd_lookup_entries:
  "good_names nul U \<Longrightarrow> n \<in> U \<Longrightarrow> tbl_ok cap U t \<Longrightarrow>
     dd_lookup nul t n = (case map_of (entries t) n of None \<Rightarrow> None | Some op \<Rightarrow> op)"
  using dd_find_entries [of nul U n t] by (auto simp: dd_lookup_def tbl_ok_def split: option.split)

lemma entries_upd:
  "i < length t \<Longrightarrow> entries (t[i := d]) = entries (take i t) @
      (case dev_name d of None \<Rightarrow> [] | Some n \<Rightarrow> [(n, dev_op d)]) @ entries (drop (Suc i) t)"
  by (simp add: upd_conv_take_nth_drop)

lemma entries_at:
  "i < length t \<Longrightarrow> entries t = entries (take i t) @
      (case dev_name (t ! i) of None \<Rightarrow> [] | Some n \<Rightarrow> [(n, dev_op (t ! i))]) @ entries (drop (Suc i) t)"
  using entries_upd [of i t "t ! i"] by simp

lemma dd_free_slot:
  "length (entries t) < length t \<Longrightarrow> \<forall>d \<in> set t. dev_name d = None \<longrightarrow> dev_state d = DD_STATE_NODEVICE \<Longrightarrow>
     \<exists>i. dd_free t = Some i \<and> i < length t \<and> dev_name (t ! i) = None"
proof (induction t)
  case (Cons d t)
  show ?case
  proof (cases "dev_name d")
    case (Some n)
    with Cons obtain i where "dd_free t = Some i" "i < length t" "dev_name (t ! i) = None" by auto
    with Some show ?thesis by (intro exI [of _ "Suc i"]) simp
  qed (use Cons.prems in simp)
qed simp

lemma map_of_middle:
  "n \<notin> fst ` set as \<Longrightarrow> map_of (as @ (n, x) # bs) = (map_of (as @ bs))(n \<mapsto> x)"
  by (induction as) (auto simp: fun_eq_iff)

lemma dd_take_slot_new:
  assumes U: "good_names nul U" "n \<in> U" and t: "tbl_ok cap U t"
    and new: "dd_lookup nul t n = None" and room: "length (entries t) < cap"
  shows "\<exists>t'. dd_take_slot n op t = Ret (DRV_SUCCESS, t') \<and> tbl_ok cap U t' \<and>
     length (entries t') = Suc (length (entries t)) \<and>
     (\<forall>m \<in> U. dd_lookup nul t' m = (if m = n then Some op else dd_lookup nul t m))"
proof -
  obtain i where i: "dd_free t = Some i" "i < length t" "dev_name (t ! i) = None"
    using dd_free_slot [of t] t room by (auto simp: tbl_ok_def)
  let ?d = "(t ! i)\<lparr>dev_name := Some n, dev_op := Some op, dev_state := DD_STATE_CLOSED\<rparr>"
  let ?t = "t[i := ?d]" and ?a = "entries (take i t)" and ?b = "entries (drop (Suc i) t)"
  have e: "entries ?t = ?a @ (n, Some op) # ?b" "entries t = ?a @ ?b"
    using entries_upd [OF i(2), of ?d] entries_at [OF i(2)] i(3) by simp_all
  have some: "x \<noteq> None" if "(k, x) \<in> set (entries t)" for k x
    using that t by (fastforce simp: tbl_ok_def entries_def split: option.splits)
  have "map_of (entries t) n = None"
    using new dd_lookup_entries [OF U t] some by (auto dest: map_of_SomeD split: option.splits)
  then have "n \<notin> fst ` set (entries t)" by (simp add: map_of_eq_None_iff)
  then have ok: "tbl_ok cap U ?t"
    using t e U(2) by (auto simp: tbl_ok_def dest!: set_update_subset_insert [THEN subsetD])
  have "dd_lookup nul ?t m = (if m = n then Some op else dd_lookup nul t m)" if "m \<in> U" for m
  proof -
    have "n \<notin> fst ` set ?a" using \<open>n \<notin> fst ` set (entries t)\<close> e by auto
    then show ?thesis
      unfolding dd_lookup_entries [OF U(1) that ok] dd_lookup_entries [OF U(1) that t] e
      by (simp del: map_of_append add: map_of_middle)
  qed
  with ok e i(1) show ?thesis
    by (intro exI [of _ ?t]) (simp add: dd_take_slot_def)
qed

lemma dd_clear_slot_found:
  assumes U: "good_names nul U" "n \<in> U" and t: "tbl_ok cap U t"
    and i: "dd_find nul t n = Some i"
  shows "tbl_ok cap U (dd_clear_slot i t) \<and> Suc (length (entries (dd_clear_slot i t))) = length (entries t) \<and>
     (\<forall>m \<in> U. dd_lookup nul (dd_clear_slot i t) m = (if m = n then None else dd_lookup nul t m))"
proof -
  let ?t = "dd_clear_slot i t" and ?a = "entries (take i t)" and ?b = "entries (drop (Suc i) t)"
  have il: "i < length t" "dev_name (t ! i) = Some n"
    using dd_find_less [OF i] dd_find_named [OF U _ i] t by (auto simp: tbl_ok_def)
  have e: "entries ?t = ?a @ ?b" "entries t = ?a @ (n, dev_op (t ! i)) # ?b"
    using entries_upd [OF il(1)] entries_at [OF il(1)] il(2) by (simp_all add: dd_clear_slot_def)
  have ok: "tbl_ok cap U ?t"
    using t e by (auto simp: tbl_ok_def dd_clear_slot_def dest!: set_update_subset_insert [THEN subsetD])
  have "n \<notin> fst ` set (entries ?t)" using t e by (auto simp: tbl_ok_def)
  then have "map_of (entries ?t) n = None" by (simp add: map_of_eq_None_iff)
  then have "dd_lookup nul ?t m = (if m = n then None else dd_lookup nul t m)" if "m \<in> U" for m
  proof -
    have "n \<notin> fst ` set ?a" using \<open>n \<notin> fst ` set (entries ?t)\<close> e by auto
    then show ?thesis
      using \<open>map_of (entries ?t) n = None\<close>
      unfolding dd_lookup_entries [OF U(1) that ok] dd_lookup_entries [OF U(1) that t] e
      by (simp del: map_of_append add: map_of_middle)
  qed
  with ok e show ?thesis by simp
qed

section \<open>The contract of the two tables\<close>

definition ddev_reg :: "string \<Rightarrow> 'w dd_operations \<Rightarrow> 'w ddev_tbl \<Rightarrow> 'w ddev_tbl option" where
  "ddev_reg n op t = (case ddev_register_dev (Some n) (Some op) t of Ret (_, t') \<Rightarrow> Some t' | _ \<Rightarrow> None)"

definition sddev_reg :: "string \<Rightarrow> 'w sdd_operations \<Rightarrow> 'w sddev_tbl \<Rightarrow> 'w sddev_tbl option" where
  "sddev_reg n op t = (case sddev_register_dev (Some n) (Some op) t of Ret (_, t') \<Rightarrow> Some t' | _ \<Rightarrow> None)"

definition ddev_unreg :: "string \<Rightarrow> string \<Rightarrow> 'w ddev_tbl \<Rightarrow> 'w ddev_tbl option" where
  "ddev_unreg nul n t = (case ddev_unregister_dev nul (Some n) t of Ret (_, t') \<Rightarrow> Some t' | _ \<Rightarrow> None)"

interpretation ddev: named_table_del ddev_reg "dd_lookup nul" "\<lambda>t. length (entries t)" DD_MAX_DEV U
    "\<lambda>t. good_names nul U \<and> tbl_ok DD_MAX_DEV U t" "ddev_unreg nul"
proof
  fix t :: "'a ddev_tbl" and n op
  assume a: "good_names nul U \<and> tbl_ok DD_MAX_DEV U t" "n \<in> U" "dd_lookup nul t n = None"
    "length (entries t) < DD_MAX_DEV"
  show "\<exists>t'. ddev_reg n op t = Some t' \<and> (good_names nul U \<and> tbl_ok DD_MAX_DEV U t') \<and>
      length (entries t') = Suc (length (entries t)) \<and>
      (\<forall>m\<in>U. dd_lookup nul t' m = (if m = n then Some op else dd_lookup nul t m))"
    using dd_take_slot_new [of nul U n DD_MAX_DEV t op] a
    by (auto simp: ddev_reg_def ddev_register_dev_def)
next
  fix t :: "'a ddev_tbl" and n
  assume a: "good_names nul U \<and> tbl_ok DD_MAX_DEV U t" "n \<in> U" "dd_lookup nul t n \<noteq> None"
  then obtain i where i: "dd_find nul t n = Some i" by (auto simp: dd_lookup_def split: option.splits)
  have "length n \<le> DD_MAX_NAME_LEN" "length t = 8" using a by (auto simp: good_names_def tbl_ok_def DD_MAX_DEV_def)
  with i have "ddev_unreg nul n t = Some (dd_clear_slot i t)"
    by (simp add: ddev_unreg_def ddev_unregister_dev_def DD_MAX_SDEV_def)
  then show "\<exists>t'. ddev_unreg nul n t = Some t' \<and> (good_names nul U \<and> tbl_ok DD_MAX_DEV U t') \<and>
      Suc (length (entries t')) = length (entries t) \<and>
      (\<forall>m\<in>U. dd_lookup nul t' m = (if m = n then None else dd_lookup nul t m))"
    using dd_clear_slot_found [OF _ a(2) _ i] a by auto
qed


lemma entries_zero [simp]: "entries (replicate n dev_zero) = []"
  by (induction n) (simp_all add: dev_zero_def)

lemma dev_zero_simps [simp]:
  "dev_name dev_zero = None" "dev_state dev_zero = DD_STATE_NODEVICE"
  by (simp_all add: dev_zero_def)

lemma zero_tbl_ok: "tbl_ok n U (replicate n dev_zero)"
  by (auto simp: tbl_ok_def)

lemma zero_lookup [simp]: "good_names nul U \<Longrightarrow> m \<in> U \<Longrightarrow> dd_lookup nul (replicate n dev_zero) m = None"
  using dd_lookup_entries [of nul U m n "replicate n dev_zero", OF _ _ zero_tbl_ok] by simp

section \<open>Opening and closing\<close>

datatype dev_use = Dev_Open | Dev_Close

text \<open>What a client expects: the driver is opened by the first user and closed by the last.\<close>

fun use_spec :: "('w \<Rightarrow> 'w) \<Rightarrow> ('w \<Rightarrow> 'w) \<Rightarrow> dev_use list \<Rightarrow> nat \<times> 'w \<Rightarrow> (nat \<times> 'w) option" where
  "use_spec f g [] cw = Some cw"
| "use_spec f g (Dev_Open # us) (c, w) = use_spec f g us (Suc c, if c = 0 then f w else w)"
| "use_spec f g (Dev_Close # us) (c, w) =
     (if c = 0 then None else use_spec f g us (c - 1, if c = 1 then g w else w))"

fun dev_uses :: "string \<Rightarrow> string \<Rightarrow> u32 \<Rightarrow> u32 \<Rightarrow> dev_use list \<Rightarrow> 'w ddev_tbl \<times> 'w \<Rightarrow> ('w ddev_tbl \<times> 'w) c_run" where
  "dev_uses nul name flag handle [] tw = Ret tw"
| "dev_uses nul name flag handle (Dev_Open # us) tw =
     (case ddev_open nul name True flag tw of
        Ret (h, st, tw') \<Rightarrow> dev_uses nul name flag handle us tw'
      | Assert_Stop \<Rightarrow> Assert_Stop | Fault \<Rightarrow> Fault)"
| "dev_uses nul name flag handle (Dev_Close # us) tw =
     (case ddev_close handle tw of
        Ret (st, tw') \<Rightarrow> dev_uses nul name flag handle us tw'
      | Assert_Stop \<Rightarrow> Assert_Stop | Fault \<Rightarrow> Fault)"

definition run_open :: "u32 \<Rightarrow> 'w dd_operations \<Rightarrow> 'w \<Rightarrow> 'w" where
  "run_open flag ops w = (case op_open ops of None \<Rightarrow> w | Some f \<Rightarrow> snd (f flag w))"

definition run_close :: "'w dd_operations \<Rightarrow> 'w \<Rightarrow> 'w" where
  "run_close ops w = (case op_close ops of None \<Rightarrow> w | Some f \<Rightarrow> snd (f w))"

text \<open>Slot \<open>i\<close> belongs to \<open>name\<close> and has \<open>c\<close> users.\<close>

definition dev_has :: "string \<Rightarrow> string \<Rightarrow> nat \<Rightarrow> 'w dd_operations \<Rightarrow> nat \<Rightarrow> 'w ddev_tbl \<Rightarrow> bool" where
  "dev_has nul name i ops c t \<longleftrightarrow> length t = DD_MAX_DEV \<and> dd_find nul t name = Some i \<and>
     dev_op (t ! i) = Some ops \<and>
     (if c = 0 then dev_state (t ! i) = DD_STATE_CLOSED
      else dev_state (t ! i) = DD_STATE_OPENED \<and> use_cnt (t ! i) = of_nat c)"

lemma dd_find_upd:
  "i < length t \<Longrightarrow> dev_name d = dev_name (t ! i) \<Longrightarrow> dd_find nul (t[i := d]) n = dd_find nul t n"
proof (induction t arbitrary: i)
  case (Cons e t)
  then show ?case by (cases i) auto
qed simp

lemma less8_cases: "(i :: u32) < 8 \<Longrightarrow> i \<in> {0, 1, 2, 3, 4, 5, 6, 7}"
proof -
  assume "i < 8"
  then have "unat i < 8" by (simp add: c_arith)
  then have "unat i \<in> {0, 1, 2, 3, 4, 5, 6, 7}" by auto
  then show ?thesis by (simp add: word_unat_eq_iff)
qed

lemmas dd_handle_defs = ddev_get_id_from_handle_def ddev_make_handle_def ddev_check_handle_def
  DD_HANDLE_MAGIC_MASK_def DD_HANDLE_ID_MASK_def DD_HANDLE_MAGIC_WORD_def DD_ID_UNVALID_def
  DD_HANDLE_UNVALID_def DD_MAX_DEV_def DRV_SUCCESS_def DRV_FAILURE_def

lemma handle_id: "(i :: u32) < 8 \<Longrightarrow> ddev_get_id_from_handle (ddev_make_handle i) = i"
  using less8_cases [of i] by (auto simp: dd_handle_defs c_arith)

lemma open_step:
  assumes "dev_has nul name i ops c t" "length name \<le> DD_MAX_NAME_LEN" "c < 4294967295"
  shows "\<exists>h st t'. ddev_open nul name True flag (t, w) =
      Ret (h, st, t', if c = 0 then run_open flag ops w else w) \<and> h = ddev_make_handle (of_nat i) \<and>
      dev_has nul name i ops (Suc c) t'"
proof -
  have i: "i < length t" using assms(1) dd_find_less [of nul t name i] by (auto simp: dev_has_def)
  with assms show ?thesis
    by (cases "c = 0")
      (auto simp: dev_has_def ddev_open_def dd_find_upd run_open_def split: option.split prod.split)
qed

lemma close_step:
  assumes "dev_has nul name i ops (Suc c) t" "Suc c < 4294967296"
  shows "\<exists>t'. ddev_close (ddev_make_handle (of_nat i)) (t, w) =
      Ret (DRV_SUCCESS, t', if c = 0 then run_close ops w else w) \<and> dev_has nul name i ops c t'"
proof -
  have i: "i < 8" "length t = 8" using assms(1) dd_find_less [of nul t name i]
    by (auto simp: dev_has_def DD_MAX_DEV_def)
  then have ui: "unat (of_nat i :: u32) = i" by (simp add: unat_of_nat32)
  then have id: "ddev_get_id_from_handle (ddev_make_handle (of_nat i)) = of_nat i"
    using i by (intro handle_id) (simp add: c_arith)
  have ok: "DD_ID_UNVALID \<noteq> (of_nat i :: u32)"
  proof
    assume "DD_ID_UNVALID = (of_nat i :: u32)"
    then have "unat DD_ID_UNVALID = i" using ui by simp
    with i show False by (simp add: DD_ID_UNVALID_def unsigned_minus_1_eq_mask mask_eq_exp_minus_1)
  qed
  have cnt: "use_cnt (t ! i) - 1 = of_nat c" using assms(1) by (simp add: dev_has_def)
  have uc: "unat (of_nat c :: u32) = c" using assms(2) by (intro unat_of_nat32) simp
  have "(of_nat c :: u32) = 0 \<longleftrightarrow> unat (of_nat c :: u32) = 0" by (rule unsigned_eq_0_iff [symmetric])
  then have zero: "(of_nat c :: u32) = 0 \<longleftrightarrow> c = 0" unfolding uc .
  with assms i ui id ok cnt show ?thesis
    by (cases "c = 0") (auto simp: ddev_close_def Let_def dev_has_def run_close_def dd_find_upd split: option.split)
qed

lemma dev_uses_refine:
  "dev_has nul name i ops c t \<Longrightarrow> length name \<le> DD_MAX_NAME_LEN \<Longrightarrow> c + length us < 4294967296 \<Longrightarrow>
     use_spec (run_open flag ops) (run_close ops) us (c, w) = Some (c', w') \<Longrightarrow>
     \<exists>t'. dev_uses nul name flag (ddev_make_handle (of_nat i)) us (t, w) = Ret (t', w') \<and>
       dev_has nul name i ops c' t'"
proof (induction us arbitrary: c t w)
  case (Cons u us)
  show ?case
  proof (cases u)
    case Dev_Open
    have "c < 4294967295" using Cons.prems(3) by simp
    then obtain h st t1 where "ddev_open nul name True flag (t, w) =
        Ret (h, st, t1, if c = 0 then run_open flag ops w else w)" "dev_has nul name i ops (Suc c) t1"
      using open_step [OF Cons.prems(1,2), of flag w] by auto
    moreover from this Cons.IH [of "Suc c" t1] Cons.prems Dev_Open
    obtain t' where "dev_uses nul name flag (ddev_make_handle (of_nat i)) us
        (t1, if c = 0 then run_open flag ops w else w) = Ret (t', w')" "dev_has nul name i ops c' t'"
      by auto
    ultimately show ?thesis using Dev_Open by auto
  next
    case Dev_Close
    with Cons.prems obtain d where c: "c = Suc d" by (cases c) auto
    then obtain t1 where "ddev_close (ddev_make_handle (of_nat i)) (t, w) =
        Ret (DRV_SUCCESS, t1, if d = 0 then run_close ops w else w)" "dev_has nul name i ops d t1"
      using close_step [of nul name i ops d t w] Cons.prems by auto
    moreover from this Cons.IH [of d t1] Cons.prems Dev_Close c
    obtain t' where "dev_uses nul name flag (ddev_make_handle (of_nat i)) us
        (t1, if d = 0 then run_close ops w else w) = Ret (t', w')" "dev_has nul name i ops c' t'"
      by (auto split: if_splits)
    ultimately show ?thesis using Dev_Close by auto
  qed
qed simp

section \<open>The tables of the BK7231\<close>

text \<open>
  The names registered with \<open>sddev_register_dev\<close> and \<open>ddev_register_dev\<close> by the drivers of
  \<open>dd_init_tbl\<close> in the default configuration, in its order.
\<close>

definition bk_sdevs :: "string list" where
  "bk_sdevs = [''sys_ctrl'', ''icu'', ''wdt'', ''gpio'', ''pwm'', ''spi'', ''fft'', ''i2s'', ''irda'',
     ''mac_phy_bypass'']"


definition count_op :: "nat \<Rightarrow> nat sdd_operations" where
  "count_op k = \<lparr>sop_control = Some (\<lambda>cmd param w. (cmd, w + k))\<rparr>"

definition demo_dev_op :: "nat dd_operations" where
  "demo_dev_op = \<lparr>op_open = Some (\<lambda>flag w. (0, w + 1)), op_close = Some (\<lambda>w. (0, w + 100)),
     op_read = None, op_write = None, op_control = None\<rparr>"


section \<open>Properties\<close>



text \<open>
  C17: opening and closing counts users: for every sequence of opens and closes of a registered
  device with no more closes than opens so far, the driver's open function runs exactly for the
  opens that find no user, its close function exactly for the closes of the last user, and the
  slot is open with the right use count exactly while there are users.
\<close>

theorem ddev_open_close_refines:
  assumes "dev_has nul name i ops 0 t" "length name \<le> DD_MAX_NAME_LEN" "length us < 4294967296"
    and "use_spec (run_open flag ops) (run_close ops) us (0, w) = Some (c, w')"
  shows "\<exists>t'. dev_uses nul name flag (ddev_make_handle (of_nat i)) us (t, w) = Ret (t', w') \<and>
     dev_has nul name i ops c t'"
  using dev_uses_refine [OF assms(1,2) _ assms(4)] assms(3) by simp

theorem ddev_open_close_refines_witness:
  "\<exists>t'. dev_uses ''ea'' ''uart1'' 0 (ddev_make_handle 0) [Dev_Open, Dev_Open, Dev_Close, Dev_Close, Dev_Open]
      (the (ddev_reg ''uart1'' demo_dev_op (replicate 8 dev_zero)), 0) = Ret (t', 102) \<and>
    dev_has ''ea'' ''uart1'' 0 demo_dev_op 1 t'"
proof -
  let ?t = "the (ddev_reg ''uart1'' demo_dev_op (replicate 8 dev_zero))"
  have t: "dev_has ''ea'' ''uart1'' 0 demo_dev_op 0 ?t"
    by (simp add: ddev_reg_def ddev_register_dev_def dd_take_slot_def dev_has_def eval_nat_numeral
        name_match_def DD_MAX_DEV_def)
  show ?thesis
    using ddev_open_close_refines [OF t, of "[Dev_Open, Dev_Open, Dev_Close, Dev_Close, Dev_Open]" 0 0]
    by (simp add: DD_MAX_NAME_LEN_def run_open_def run_close_def demo_dev_op_def)
qed

text \<open>
  Handles: \<open>ddev_check_handle\<close> accepts exactly the handles that \<open>ddev_make_handle\<close> makes of the
  eight indices, and \<open>ddev_get_id_from_handle\<close> gives the index back.
\<close>

theorem ddev_handles:
  "(ddev_check_handle h = DRV_SUCCESS) = (\<exists>i. i < 8 \<and> h = ddev_make_handle i \<and> ddev_get_id_from_handle h = i)"
proof
  assume ok: "ddev_check_handle h = DRV_SUCCESS"
  let ?i = "h AND 0x0000FFFF"
  from ok have magic: "h AND 0xFFFF0000 = 0xA5A50000" and i: "?i < 8"
    by (auto simp: dd_handle_defs split: if_splits)
  have all: "(0xFFFF0000 OR 0x0000FFFF :: u32) = - 1" by code_simp
  have "h = h AND (0xFFFF0000 OR 0x0000FFFF)" unfolding all by simp
  then have "h = (h AND 0xFFFF0000) OR ?i" by (simp only: bit.conj_disj_distrib)
  then have "h = 0xA5A50000 OR ?i" by (simp add: magic)
  moreover have "0xA5A50000 OR ?i = ?i + 0xA5A50000"
    using less8_cases [OF i] by auto
  ultimately have "h = ddev_make_handle ?i" using i by (auto simp: dd_handle_defs dest: leD)
  with i show "\<exists>i. i < 8 \<and> h = ddev_make_handle i \<and> ddev_get_id_from_handle h = i"
    using handle_id [OF i] by auto
next
  assume "\<exists>i. i < 8 \<and> h = ddev_make_handle i \<and> ddev_get_id_from_handle h = i"
  then obtain i where "i < 8" "h = ddev_make_handle i" by auto
  then show "ddev_check_handle h = DRV_SUCCESS"
    using less8_cases [of i] by (auto simp: dd_handle_defs c_arith)
qed

text \<open>
  The two unregister loops have each other's bound: a device controlled by name cannot be
  unregistered from a slot behind the eighth, and unregistering a name that no handle device has
  runs past the end of the table.
\<close>

theorem unregister_bounds_swapped:
  assumes "length n \<le> DD_MAX_NAME_LEN" "dd_find nul t n = Some i" "DD_MAX_DEV \<le> i"
    and "length t' = DD_MAX_DEV" "dd_find nul t' n = None"
  shows "sddev_unregister_dev nul (Some n) t = Assert_Stop \<and> ddev_unregister_dev nul (Some n) t' = Fault"
proof -
  have "dd_find nul (take k t) n = None" if "dd_find nul t n = Some i" "k \<le> i" for t :: "'a sddev_tbl" and k i
    using that
  proof (induction t arbitrary: k i)
    case (Cons d t)
    then show ?case by (cases k) (auto split: if_splits)
  qed simp
  with assms dd_find_less [OF assms(2)] have "sddev_unregister_dev nul (Some n) t = Assert_Stop"
    by (simp add: sddev_unregister_dev_def)
  with assms show ?thesis
    by (simp add: ddev_unregister_dev_def DD_MAX_DEV_def DD_MAX_SDEV_def)
qed

definition bk_sdev_tbl :: "nat sddev_tbl" where
  "bk_sdev_tbl = the (reg_all sddev_reg (zip bk_sdevs (map count_op [0..<10])) (replicate 16 dev_zero))"

theorem unregister_bounds_swapped_witness:
  "sddev_unregister_dev ''ea'' (Some ''irda'') bk_sdev_tbl = Assert_Stop \<and>
   ddev_unregister_dev ''ea'' (Some ''irda'') (replicate 8 dev_zero :: nat ddev_tbl) = Fault"
proof -
  have "dd_find ''ea'' bk_sdev_tbl ''irda'' = Some 8" by code_simp
  moreover have "dd_find ''ea'' (replicate 8 dev_zero :: nat ddev_tbl) ''irda'' = None"
    by (simp add: eval_nat_numeral name_match_def)
  ultimately show ?thesis
    using unregister_bounds_swapped [of "''irda''" "''ea''" bk_sdev_tbl 8 "replicate 8 dev_zero"]
    by (simp add: DD_MAX_NAME_LEN_def DD_MAX_DEV_def)
qed

end
