(* ===== verification/Flash.thy ===== *)
theory Flash
  imports SDK_Prelude
begin

unbundle bit_operations_syntax

text \<open>
  The driver of the serial flash, \<open>beken378/driver/flash/flash.c\<close>: reading and programming
  in bursts of 32 bytes, sector erase, the status register with its protection bits, and the
  control commands.

  The flash controller and the chip behind it are a parameter. The code waits for \<open>BUSY_SW\<close> to
  clear after (and before) each write of the operation register; \<open>fc_operate\<close> is such a write
  together with the wait. The peripheral busy counter is left out.
\<close>

section \<open>Registers\<close>

definition ADDR_SW_REG_MASK :: u32 where "ADDR_SW_REG_MASK = 0x00FFFFFF"
definition OP_TYPE_SW_POSI :: nat where "OP_TYPE_SW_POSI = 24"
definition OP_TYPE_SW_MASK :: u32 where "OP_TYPE_SW_MASK = 0x1F"
definition OP_SW :: u32 where "OP_SW = push_bit 29 1"
definition WP_VALUE :: u32 where "WP_VALUE = push_bit 30 1"
definition FLASH_CLK_CONF_MASK :: u32 where "FLASH_CLK_CONF_MASK = 0x0F"
definition MODEL_SEL_POSI :: nat where "MODEL_SEL_POSI = 4"
definition MODEL_SEL_MASK :: u32 where "MODEL_SEL_MASK = 0x1F"
definition WRSR_DATA_POSI :: nat where "WRSR_DATA_POSI = 10"
definition WRSR_DATA_MASK :: u32 where "WRSR_DATA_MASK = 0xFFFF"
definition M_VALUE_POST :: nat where "M_VALUE_POST = 22"
definition M_VALUE_MASK :: u32 where "M_VALUE_MASK = 0xFF"

datatype flash_opcode = FLASH_OPCODE_WREN | FLASH_OPCODE_WRDI | FLASH_OPCODE_RDSR | FLASH_OPCODE_WRSR
  | FLASH_OPCODE_READ | FLASH_OPCODE_RDSR2 | FLASH_OPCODE_WRSR2 | FLASH_OPCODE_PP | FLASH_OPCODE_SE
  | FLASH_OPCODE_BE1 | FLASH_OPCODE_BE2 | FLASH_OPCODE_CE | FLASH_OPCODE_DP | FLASH_OPCODE_RFDP
  | FLASH_OPCODE_RDID | FLASH_OPCODE_HPM | FLASH_OPCODE_CRMR | FLASH_OPCODE_CRMR2

fun opcode :: "flash_opcode \<Rightarrow> u32" where
  "opcode FLASH_OPCODE_WREN = 1" | "opcode FLASH_OPCODE_WRDI = 2" | "opcode FLASH_OPCODE_RDSR = 3"
| "opcode FLASH_OPCODE_WRSR = 4" | "opcode FLASH_OPCODE_READ = 5" | "opcode FLASH_OPCODE_RDSR2 = 6"
| "opcode FLASH_OPCODE_WRSR2 = 7" | "opcode FLASH_OPCODE_PP = 12" | "opcode FLASH_OPCODE_SE = 13"
| "opcode FLASH_OPCODE_BE1 = 14" | "opcode FLASH_OPCODE_BE2 = 15" | "opcode FLASH_OPCODE_CE = 16"
| "opcode FLASH_OPCODE_DP = 17" | "opcode FLASH_OPCODE_RFDP = 18" | "opcode FLASH_OPCODE_RDID = 20"
| "opcode FLASH_OPCODE_HPM = 21" | "opcode FLASH_OPCODE_CRMR = 22" | "opcode FLASH_OPCODE_CRMR2 = 23"

text \<open>
  The controller: an operation, what the operation register answers when idle, one word into and
  out of the data registers, the configuration register, the status data register (written for
  its \<open>m_value\<close> field), the chip id, and a write of the data-out register.
\<close>

record 'c flash_ctl =
  fc_operate :: "u32 \<Rightarrow> 'c \<Rightarrow> 'c"
  fc_op_reg :: "'c \<Rightarrow> u32"
  fc_put :: "u32 \<Rightarrow> 'c \<Rightarrow> 'c"
  fc_get :: "'c \<Rightarrow> u32 \<times> 'c"
  fc_conf :: "'c \<Rightarrow> u32"
  fc_set_conf :: "u32 \<Rightarrow> 'c \<Rightarrow> 'c"
  fc_sr_data :: "'c \<Rightarrow> u32"
  fc_set_sr_data :: "u32 \<Rightarrow> 'c \<Rightarrow> 'c"
  fc_rdid :: "'c \<Rightarrow> u32"
  fc_set_out :: "u32 \<Rightarrow> 'c \<Rightarrow> 'c"

text \<open>The two forms of the operation word.\<close>

definition op_word :: "flash_opcode \<Rightarrow> u32" where
  "op_word op = push_bit OP_TYPE_SW_POSI (opcode op) OR OP_SW OR WP_VALUE"

definition op_at :: "'c flash_ctl \<Rightarrow> u32 \<Rightarrow> flash_opcode \<Rightarrow> 'c \<Rightarrow> u32" where
  "op_at F addr op c = addr OR push_bit OP_TYPE_SW_POSI (opcode op) OR OP_SW OR (fc_op_reg F c AND WP_VALUE)"

definition op_keep :: "'c flash_ctl \<Rightarrow> flash_opcode \<Rightarrow> 'c \<Rightarrow> u32" where
  "op_keep F op c = (fc_op_reg F c AND ADDR_SW_REG_MASK) OR push_bit OP_TYPE_SW_POSI (opcode op) OR OP_SW OR WP_VALUE"

section \<open>Chips\<close>

record flash_config_t =
  cfg_flash_id :: u32
  sr_size :: nat
  line_mode :: nat
  cmp_post :: nat
  protect_post :: nat
  protect_mask :: u32
  protect_all :: u16
  protect_none :: u16
  protect_half :: u16
  unprotect_last_block :: u16
  qe_bit_post :: nat
  qe_bit :: u32
  m_value :: u32
  mode_sel :: u32

definition flash_chip :: "u32 \<Rightarrow> nat \<Rightarrow> nat \<Rightarrow> nat \<Rightarrow> nat \<Rightarrow> u32 \<Rightarrow> u16 \<Rightarrow> u16 \<Rightarrow> u16 \<Rightarrow> u16 \<Rightarrow> nat \<Rightarrow> u32 \<Rightarrow> u32 \<Rightarrow> u32
    \<Rightarrow> flash_config_t" where
  "flash_chip i s l cp pp pm pa pn ph pu qp q mv ms = \<lparr>cfg_flash_id = i, sr_size = s, line_mode = l,
     cmp_post = cp, protect_post = pp, protect_mask = pm, protect_all = pa, protect_none = pn,
     protect_half = ph, unprotect_last_block = pu, qe_bit_post = qp, qe_bit = q, m_value = mv, mode_sel = ms\<rparr>"

definition flash_config :: "flash_config_t list" where
  "flash_config =
    [flash_chip 0x1C7016 1 2  0 2 0x1F 0x1F 0x00 0x16 0x01B 0 0 0xA5 0x01,
     flash_chip 0x0B4014 2 2 14 2 0x1F 0x1F 0x00 0x0C 0x101 9 1 0xA0 0x01,
     flash_chip 0x0B4015 2 2 14 2 0x1F 0x1F 0x00 0x0D 0x101 9 1 0xA0 0x01,
     flash_chip 0x0B4016 2 2 14 2 0x1F 0x1F 0x00 0x0E 0x101 9 1 0xA0 0x01,
     flash_chip 0x0E4016 2 2 14 2 0x1F 0x1F 0x00 0x0E 0x101 9 1 0xA0 0x01,
     flash_chip 0xC84015 2 2 14 2 0x1F 0x1F 0x00 0x0D 0x101 9 1 0xA0 0x01,
     flash_chip 0xC84016 2 2 14 2 0x1F 0x1F 0x00 0x0E 0x101 9 1 0xA0 0x01,
     flash_chip 0xEF4016 2 2 14 2 0x1F 0x1F 0x00 0x00 0x101 9 1 0xA0 0x01,
     flash_chip 0x204016 2 2 14 2 0x1F 0x1F 0x00 0x0E 0x101 9 1 0xA0 0x01,
     flash_chip 0xC22315 1 2  0 2 0x0F 0x0F 0x00 0x0A 0x00E 6 1 0xA5 0x01,
     flash_chip 0x000000 2 2  0 2 0x1F 0x00 0x00 0x00 0x000 0 0 0x00 0x01]"

text \<open>The last entry is the default: \<open>flash_get_current_flash_config\<close> falls back to it.\<close>

fun flash_get_current_flash_config :: "flash_config_t list \<Rightarrow> u32 \<Rightarrow> flash_config_t" where
  "flash_get_current_flash_config [] flash_id = last flash_config"
| "flash_get_current_flash_config [d] flash_id = d"
| "flash_get_current_flash_config (k # k' # ks) flash_id =
     (if flash_id = cfg_flash_id k then k else flash_get_current_flash_config (k' # ks) flash_id)"

section \<open>Configuration and status register\<close>

definition flash_set_clk :: "'c flash_ctl \<Rightarrow> u32 \<Rightarrow> 'c \<Rightarrow> 'c" where
  "flash_set_clk F clk_conf c =
     fc_set_conf F ((fc_conf F c AND NOT FLASH_CLK_CONF_MASK) OR (clk_conf AND 0xFF)) c"

definition flash_write_enable :: "'c flash_ctl \<Rightarrow> 'c \<Rightarrow> 'c" where
  "flash_write_enable F c = fc_operate F (op_word FLASH_OPCODE_WREN) c"

definition flash_write_disable :: "'c flash_ctl \<Rightarrow> 'c \<Rightarrow> 'c" where
  "flash_write_disable F c = fc_operate F (op_word FLASH_OPCODE_WRDI) c"

definition flash_read_sr :: "'c flash_ctl \<Rightarrow> nat \<Rightarrow> 'c \<Rightarrow> u16 \<times> 'c" where
  "flash_read_sr F sr_width c =
     (let c1 = fc_operate F (op_word FLASH_OPCODE_RDSR) c;
          sr = ucast (fc_sr_data F c1 AND 0xFF) :: u16
      in if sr_width = 2 then
           (let c2 = fc_operate F (op_word FLASH_OPCODE_RDSR2) c1
            in (sr OR ucast (push_bit 8 (fc_sr_data F c2 AND 0xFF)), c2))
         else (sr, c1))"

text \<open>The data field of the configuration register.\<close>

definition wrsr_conf :: "u32 \<Rightarrow> u32 \<Rightarrow> u32" where
  "wrsr_conf conf v = (conf AND NOT (push_bit WRSR_DATA_POSI WRSR_DATA_MASK)) OR push_bit WRSR_DATA_POSI v"

definition flash_write_sr :: "'c flash_ctl \<Rightarrow> nat \<Rightarrow> u16 \<Rightarrow> 'c \<Rightarrow> 'c" where
  "flash_write_sr F sr_width v c =
     (let c1 = fc_set_conf F (wrsr_conf (fc_conf F c) (ucast v)) c
      in if sr_width = 1 then fc_operate F (op_word FLASH_OPCODE_WRSR) c1
         else if sr_width = 2 then fc_operate F (op_word FLASH_OPCODE_WRSR2) c1
         else c1)"

definition flash_read_qe :: "'c flash_ctl \<Rightarrow> flash_config_t \<Rightarrow> 'c \<Rightarrow> u32 \<times> 'c" where
  "flash_read_qe F cfg c =
     (let c1 = fc_operate F (op_word (if sr_size cfg = 1 then FLASH_OPCODE_RDSR else FLASH_OPCODE_RDSR2)) c
      in (fc_sr_data F c1 AND 0xFF, c1))"

definition flash_set_qe :: "'c flash_ctl \<Rightarrow> flash_config_t \<Rightarrow> 'c \<Rightarrow> 'c" where
  "flash_set_qe F cfg c =
     (case flash_read_sr F (sr_size cfg) c of (sr, c1) \<Rightarrow>
      let param = ucast sr :: u32; qe = push_bit (qe_bit_post cfg) (qe_bit cfg) in
      if param AND qe \<noteq> 0 then c1
      else
        (let c2 = fc_set_conf F (wrsr_conf (fc_conf F c1) (qe OR param)) c1
         in fc_operate F (op_keep F (if sr_size cfg = 1 then FLASH_OPCODE_WRSR else FLASH_OPCODE_WRSR2) c2) c2))"

definition flash_set_model :: "'c flash_ctl \<Rightarrow> u32 \<Rightarrow> 'c \<Rightarrow> 'c" where
  "flash_set_model F v c =
     fc_set_conf F ((fc_conf F c AND NOT (push_bit MODEL_SEL_POSI MODEL_SEL_MASK)) OR push_bit MODEL_SEL_POSI v) c"

definition flash_set_qwfr :: "'c flash_ctl \<Rightarrow> flash_config_t \<Rightarrow> 'c \<Rightarrow> 'c" where
  "flash_set_qwfr F cfg c = flash_set_model F (mode_sel cfg) c"

definition flash_clr_qwfr :: "'c flash_ctl \<Rightarrow> 'c \<Rightarrow> 'c" where
  "flash_clr_qwfr F c =
     (let c1 = flash_set_model F 0 c in fc_operate F (op_at F 0 FLASH_OPCODE_CRMR c1) c1)"

definition flash_set_wsr :: "'c flash_ctl \<Rightarrow> u16 \<Rightarrow> 'c \<Rightarrow> 'c" where
  "flash_set_wsr F v c =
     (let c1 = fc_set_conf F (wrsr_conf (fc_conf F c) (ucast v)) c
      in fc_operate F (op_keep F FLASH_OPCODE_WRSR2 c1) c1)"

definition MODE_DUAL :: u32 where "MODE_DUAL = 1"

definition flash_set_line_mode :: "'c flash_ctl \<Rightarrow> flash_config_t \<Rightarrow> nat \<Rightarrow> 'c \<Rightarrow> 'c" where
  "flash_set_line_mode F cfg mode c =
     (let c0 = (if mode = 1 then flash_clr_qwfr F c else c)
      in if mode = 2 then flash_set_model F (MODE_DUAL AND MODEL_SEL_MASK) (flash_clr_qwfr F c0)
         else if mode = 4 then
           (let c1 = flash_clr_qwfr F c0;
                c2 = fc_set_sr_data F ((fc_sr_data F c1 AND NOT (push_bit M_VALUE_POST M_VALUE_MASK))
                       OR push_bit M_VALUE_POST (m_value cfg)) c1;
                c3 = (if qe_bit cfg = 1 then flash_set_qe F cfg c2 else c2)
            in flash_set_qwfr F cfg c3)
         else c0)"

definition flash_get_id :: "'c flash_ctl \<Rightarrow> 'c \<Rightarrow> u32 \<times> 'c" where
  "flash_get_id F c = (let c1 = fc_operate F (op_word FLASH_OPCODE_RDID) c in (fc_rdid F c1, c1))"

definition flash_read_mid :: "'c flash_ctl \<Rightarrow> 'c \<Rightarrow> u32 \<times> 'c" where
  "flash_read_mid F c =
     (let v = (fc_op_reg F c AND ADDR_SW_REG_MASK) OR push_bit OP_TYPE_SW_POSI (opcode FLASH_OPCODE_RDID)
              OR OP_SW OR (fc_op_reg F c AND WP_VALUE);
          c1 = fc_operate F v c
      in (fc_rdid F c1, c1))"

section \<open>Protection\<close>

definition FLASH_PROTECT_NONE :: u32 where "FLASH_PROTECT_NONE = 0"
definition FLASH_PROTECT_ALL :: u32 where "FLASH_PROTECT_ALL = 1"
definition FLASH_PROTECT_HALF :: u32 where "FLASH_PROTECT_HALF = 2"
definition FLASH_UNPROTECT_LAST_BLOCK :: u32 where "FLASH_UNPROTECT_LAST_BLOCK = 3"

definition get_flash_protect :: "'c flash_ctl \<Rightarrow> flash_config_t \<Rightarrow> 'c \<Rightarrow> u32 \<times> 'c" where
  "get_flash_protect F cfg c =
     (case flash_read_sr F (sr_size cfg) c of (sr_value, c1) \<Rightarrow>
      let param = drop_bit (protect_post cfg) sr_value AND ucast (protect_mask cfg);
          cmp = drop_bit (cmp_post cfg) sr_value AND 0x01;
          v = push_bit 8 cmp OR param
      in (if v = protect_all cfg then FLASH_PROTECT_ALL
          else if v = protect_none cfg then FLASH_PROTECT_NONE
          else if v = protect_half cfg then FLASH_PROTECT_HALF
          else if v = unprotect_last_block cfg then FLASH_UNPROTECT_LAST_BLOCK
          else 0xFFFF, c1))"

definition protect_field :: "flash_config_t \<Rightarrow> u32 \<Rightarrow> u16" where
  "protect_field cfg tp =
     (if tp = FLASH_PROTECT_NONE then protect_none cfg
      else if tp = FLASH_PROTECT_ALL then protect_all cfg
      else if tp = FLASH_PROTECT_HALF then protect_half cfg
      else if tp = FLASH_UNPROTECT_LAST_BLOCK then unprotect_last_block cfg
      else protect_all cfg)"

definition set_flash_protect :: "'c flash_ctl \<Rightarrow> flash_config_t \<Rightarrow> u32 \<Rightarrow> 'c \<Rightarrow> 'c" where
  "set_flash_protect F cfg tp c =
     (let w = ucast (protect_field cfg tp) :: u32;
          param = w AND 0xFF;
          cmp = drop_bit 8 w AND 0xFF
      in case flash_read_sr F (sr_size cfg) c of (sr, c1) \<Rightarrow>
           let v = ucast sr :: u32 in
           if push_bit (protect_post cfg) param \<noteq> v AND push_bit (protect_post cfg) (protect_mask cfg) \<or>
              push_bit (cmp_post cfg) cmp \<noteq> v AND push_bit (cmp_post cfg) 0x01
           then
             (let v1 = (v AND NOT (push_bit (protect_post cfg) (protect_mask cfg))) OR push_bit (protect_post cfg) param;
                  v2 = v1 AND NOT (push_bit (cmp_post cfg) 1);
                  v3 = v2 OR push_bit (cmp_post cfg) (cmp AND 0x01)
              in flash_write_sr F (sr_size cfg) (ucast v3) c1)
           else c1)"

section \<open>Reading, programming and erasing\<close>

text \<open>The buffer \<open>UINT32 buf[8]\<close> seen as bytes, least significant first.\<close>

definition bytes_of :: "u32 list \<Rightarrow> u8 list" where
  "bytes_of ws = concat (map word_bytes ws)"

fun words_of :: "u8 list \<Rightarrow> u32 list" where
  "words_of (a # b # c # d # bs) = bytes_word [a, b, c, d] # words_of bs"
| "words_of _ = []"

fun flash_fetch :: "'c flash_ctl \<Rightarrow> nat \<Rightarrow> 'c \<Rightarrow> u32 list \<times> 'c" where
  "flash_fetch F 0 c = ([], c)"
| "flash_fetch F (Suc n) c =
     (case fc_get F c of (w, c1) \<Rightarrow> case flash_fetch F n c1 of (ws, c2) \<Rightarrow> (w # ws, c2))"

fun flash_fill :: "'c flash_ctl \<Rightarrow> u32 list \<Rightarrow> 'c \<Rightarrow> 'c" where
  "flash_fill F [] c = c"
| "flash_fill F (w # ws) c = flash_fill F ws (fc_put F w c)"

text \<open>How many bytes of a burst the inner loops move: up to the end of the burst or of the data.\<close>

definition burst :: "u32 \<Rightarrow> nat \<Rightarrow> nat" where
  "burst address len = min (32 - unat (address mod 32)) len"

lemma burst_pos: "0 < len \<Longrightarrow> 0 < burst address len"
proof -
  have "unat (address mod 32) < 32" by (simp add: unat_mod)
  then show "0 < len \<Longrightarrow> 0 < burst address len" by (simp add: burst_def)
qed

function flash_read_loop :: "'c flash_ctl \<Rightarrow> u32 \<Rightarrow> u32 \<Rightarrow> nat \<Rightarrow> 'c \<Rightarrow> u8 list \<times> 'c" where
  "flash_read_loop F addr address len c =
     (if len = 0 then ([], c)
      else
        (case flash_fetch F 8 (fc_operate F (op_at F addr FLASH_OPCODE_READ c) c) of (ws, c1) \<Rightarrow>
         let n = burst address len;
             out = take n (drop (unat (address mod 32)) (bytes_of ws))
         in case flash_read_loop F (addr + 32) (address + of_nat n) (len - n) c1 of (rest, c2) \<Rightarrow>
              (out @ rest, c2)))"
  by pat_completeness auto
termination
  by (relation "measure (\<lambda>(F, addr, address, len, c). len)") (auto simp: burst_pos)

definition flash_read_data :: "'c flash_ctl \<Rightarrow> u32 \<Rightarrow> u32 \<Rightarrow> 'c \<Rightarrow> u8 list \<times> 'c" where
  "flash_read_data F address len c =
     (if len = 0 then ([], c)
      else flash_read_loop F (address AND NOT 0x1F) address (unat len) c)"

text \<open>\<open>pb\<close> is the burst buffer, \<open>data\<close> what is left to program.\<close>

function flash_write_loop :: "'c flash_ctl \<Rightarrow> u32 \<Rightarrow> u32 \<Rightarrow> u8 list \<Rightarrow> u8 list \<Rightarrow> 'c \<Rightarrow> 'c" where
  "flash_write_loop F addr address pb data c =
     (if data = [] then c
      else
        (case (if length data < 32 then flash_read_data F addr 32 c else (pb, c)) of (pb1, c1) \<Rightarrow>
         let n = burst address (length data);
             pb2 = blit pb1 (unat (address mod 32)) (take n data);
             c2 = flash_fill F (words_of pb2) c1;
             c3 = fc_operate F (op_at F addr FLASH_OPCODE_PP c2) c2
         in flash_write_loop F (addr + 32) (address + of_nat n) (replicate 32 0xFF) (drop n data) c3))"
  by pat_completeness auto
termination
  by (relation "measure (\<lambda>(F, addr, address, pb, data, c). length data)") (auto simp: burst_pos)

definition flash_write_data :: "'c flash_ctl \<Rightarrow> u8 list \<Rightarrow> u32 \<Rightarrow> 'c \<Rightarrow> 'c" where
  "flash_write_data F buffer address c =
     (let addr = address AND NOT 0x1F
      in case (if address mod 32 \<noteq> 0 then flash_read_data F addr 32 c else (replicate 32 0xFF, c)) of
           (pb, c1) \<Rightarrow> flash_write_loop F addr address pb buffer c1)"

declare flash_read_loop.simps [simp del] flash_write_loop.simps [simp del]

definition flash_erase_sector :: "'c flash_ctl \<Rightarrow> u32 \<Rightarrow> 'c \<Rightarrow> 'c" where
  "flash_erase_sector F address c = fc_operate F (op_at F address FLASH_OPCODE_SE c) c"

definition flash_set_hpm :: "'c flash_ctl \<Rightarrow> 'c \<Rightarrow> 'c" where
  "flash_set_hpm F c = fc_operate F (op_at F 0 FLASH_OPCODE_HPM c) c"

section \<open>The device\<close>

definition FLASH_SUCCESS :: u32 where "FLASH_SUCCESS = 0"
definition FLASH_FAILURE :: u32 where "FLASH_FAILURE = 1"
definition LINE_MODE_TWO :: nat where "LINE_MODE_TWO = 2"
definition LINE_MODE_FOUR :: nat where "LINE_MODE_FOUR = 4"

definition flash_init :: "'c flash_ctl \<Rightarrow> 'c \<Rightarrow> flash_config_t \<times> 'c" where
  "flash_init F c =
     (case flash_get_id F c of (flash_id, c1) \<Rightarrow>
      let cfg = flash_get_current_flash_config flash_config flash_id in
      (cfg, flash_set_clk F 5 (flash_set_line_mode F cfg (line_mode cfg)
              (set_flash_protect F cfg FLASH_PROTECT_ALL c1))))"

definition flash_read :: "'c flash_ctl \<Rightarrow> u32 \<Rightarrow> u32 \<Rightarrow> 'c \<Rightarrow> u32 \<times> u8 list \<times> 'c" where
  "flash_read F count address c =
     (case flash_read_data F address count c of (out, c1) \<Rightarrow> (FLASH_SUCCESS, out, c1))"

definition line_two :: "'c flash_ctl \<Rightarrow> flash_config_t \<Rightarrow> 'c \<Rightarrow> 'c" where
  "line_two F cfg c = (if line_mode cfg = 4 then flash_set_line_mode F cfg LINE_MODE_TWO c else c)"

definition line_back :: "'c flash_ctl \<Rightarrow> flash_config_t \<Rightarrow> 'c \<Rightarrow> 'c" where
  "line_back F cfg c = (if line_mode cfg = 4 then flash_set_line_mode F cfg LINE_MODE_FOUR c else c)"

definition flash_write :: "'c flash_ctl \<Rightarrow> flash_config_t \<Rightarrow> u8 list \<Rightarrow> u32 \<Rightarrow> 'c \<Rightarrow> u32 \<times> 'c" where
  "flash_write F cfg user_buf address c =
     (FLASH_SUCCESS, line_back F cfg (flash_write_data F user_buf address (line_two F cfg c)))"

datatype flash_cmd = CMD_FLASH_SET_CLK | CMD_FLASH_SET_DCO | CMD_FLASH_SET_DPLL
  | CMD_FLASH_WRITE_ENABLE | CMD_FLASH_WRITE_DISABLE | CMD_FLASH_READ_SR | CMD_FLASH_WRITE_SR
  | CMD_FLASH_READ_QE | CMD_FLASH_SET_QE | CMD_FLASH_SET_QWFR | CMD_FLASH_CLR_QWFR | CMD_FLASH_SET_WSR
  | CMD_FLASH_GET_ID | CMD_FLASH_READ_MID | CMD_FLASH_ERASE_SECTOR | CMD_FLASH_SET_HPM
  | CMD_FLASH_SET_PROTECT | CMD_FLASH_GET_PROTECT | CMD_FLASH_OTHER

text \<open>
  \<open>sctrl\<close> answers \<open>sddev_control\<close> of the system controller for the two clock sources (whose
  assertion is that it does not fail), \<open>first_word\<close> is the word at the mapped address 0x20000.
  \<open>parm\<close> is the parameter read, the third component the value stored through it.
\<close>

definition flash_cmd_do :: "'c flash_ctl \<Rightarrow> flash_config_t \<Rightarrow> (flash_cmd \<Rightarrow> u32) \<Rightarrow> u32 \<Rightarrow> flash_cmd \<Rightarrow> u32 \<Rightarrow> 'c
    \<Rightarrow> (u32 \<times> 'c \<times> u32 option) c_run" where
  "flash_cmd_do F cfg sctrl first_word cmd parm c =
     (let ok = (\<lambda>c'. Ret (FLASH_SUCCESS, c', None));
          answer = (\<lambda>(v, c'). Ret (FLASH_SUCCESS, c', Some v));
          clock = (\<lambda>n. fc_set_conf F ((fc_conf F c AND NOT FLASH_CLK_CONF_MASK) OR n) c)
      in case cmd of
        CMD_FLASH_SET_CLK \<Rightarrow> ok (flash_set_clk F parm c)
      | CMD_FLASH_SET_DPLL \<Rightarrow>
          (if sctrl cmd = -5 then Assert_Stop else Ret (sctrl cmd, clock 5, None))
      | CMD_FLASH_SET_DCO \<Rightarrow>
          (if sctrl cmd = -5 then Assert_Stop else Ret (sctrl cmd, fc_set_out F first_word (clock 9), None))
      | CMD_FLASH_WRITE_ENABLE \<Rightarrow> ok (flash_write_enable F c)
      | CMD_FLASH_WRITE_DISABLE \<Rightarrow> ok (flash_write_disable F c)
      | CMD_FLASH_READ_SR \<Rightarrow> (case flash_read_sr F 2 c of (sr, c') \<Rightarrow> answer (ucast sr, c'))
      | CMD_FLASH_WRITE_SR \<Rightarrow>
          ok (flash_write_sr F (unat (parm AND 0x00FF)) (ucast (drop_bit 8 parm AND 0x00FFFF)) c)
      | CMD_FLASH_READ_QE \<Rightarrow> answer (flash_read_qe F cfg c)
      | CMD_FLASH_SET_QE \<Rightarrow> ok (if qe_bit cfg \<noteq> 0 then flash_set_qe F cfg c else c)
      | CMD_FLASH_SET_QWFR \<Rightarrow> ok (flash_set_qwfr F cfg c)
      | CMD_FLASH_CLR_QWFR \<Rightarrow> ok (flash_clr_qwfr F c)
      | CMD_FLASH_SET_WSR \<Rightarrow> ok (flash_set_wsr F (ucast parm) c)
      | CMD_FLASH_GET_ID \<Rightarrow> answer (flash_get_id F c)
      | CMD_FLASH_READ_MID \<Rightarrow> answer (flash_read_mid F c)
      | CMD_FLASH_ERASE_SECTOR \<Rightarrow> ok (flash_erase_sector F parm c)
      | CMD_FLASH_SET_HPM \<Rightarrow> ok (flash_set_hpm F c)
      | CMD_FLASH_GET_PROTECT \<Rightarrow> answer (get_flash_protect F cfg c)
      | CMD_FLASH_SET_PROTECT \<Rightarrow> ok (set_flash_protect F cfg parm c)
      | CMD_FLASH_OTHER \<Rightarrow> Ret (FLASH_FAILURE, c, None))"

definition flash_ctrl :: "'c flash_ctl \<Rightarrow> flash_config_t \<Rightarrow> (flash_cmd \<Rightarrow> u32) \<Rightarrow> u32 \<Rightarrow> flash_cmd \<Rightarrow> u32 \<Rightarrow> 'c
    \<Rightarrow> (u32 \<times> 'c \<times> u32 option) c_run" where
  "flash_ctrl F cfg sctrl first_word cmd parm c =
     (case flash_cmd_do F cfg sctrl first_word cmd parm (line_two F cfg c) of
        Ret (ret, c', out) \<Rightarrow> Ret (ret, line_back F cfg c', out)
      | Assert_Stop \<Rightarrow> Assert_Stop
      | Fault \<Rightarrow> Fault)"

section \<open>Reading and programming are exact\<close>
lemma unat_sub_nat:
  assumes "n < 4294967296"
  shows "unat ((y :: u32) - of_nat n) = (if n \<le> unat y then unat y - n else unat y + 4294967296 - n)"
proof -
  have "unat (of_nat n :: u32) = n" using assms by (rule unat_of_nat32)
  then show ?thesis using unat_sub_if_size [of y "of_nat n"] by (simp add: word_size)
qed

definition op_type :: "u32 \<Rightarrow> u32" where
  "op_type v = drop_bit OP_TYPE_SW_POSI v AND OP_TYPE_SW_MASK"

definition op_addr :: "u32 \<Rightarrow> u32" where
  "op_addr v = v AND ADDR_SW_REG_MASK"

lemma OP_TYPE_SW_MASK_mask: "(OP_TYPE_SW_MASK :: u32) = mask 5" by (simp add: OP_TYPE_SW_MASK_def mask_eq_exp_minus_1)
lemma ADDR_SW_REG_MASK_mask: "(ADDR_SW_REG_MASK :: u32) = mask 24" by (simp add: ADDR_SW_REG_MASK_def mask_eq_exp_minus_1)

lemma bit_OP_SW: "bit OP_SW n \<longleftrightarrow> n = 29"
  unfolding OP_SW_def bit_push_bit_iff bit_1_iff by auto

lemma bit_WP: "bit WP_VALUE n \<longleftrightarrow> n = 30"
  unfolding WP_VALUE_def bit_push_bit_iff bit_1_iff by auto

lemma take_bit_low24: "(a :: u32) < 16777216 \<Longrightarrow> take_bit 24 a = a"
  by (simp add: take_bit_eq_mod word_unat_eq_iff unat_mod word_less_nat_alt)

lemma low24_bit: "(a :: u32) < 16777216 \<Longrightarrow> bit a n \<Longrightarrow> n < 24"
  by (metis take_bit_low24 bit_take_bit_iff)

lemma opcode_low: "opcode op = take_bit 5 (opcode op)" by (cases op) simp_all

lemma op_addr_at: "a < 16777216 \<Longrightarrow> op_addr (op_at F a op c) = a"
  unfolding op_addr_def ADDR_SW_REG_MASK_mask op_at_def
  by (subst opcode_low) (auto intro!: bit_word_eqI simp: bit_simps bit_OP_SW bit_WP OP_TYPE_SW_POSI_def dest: low24_bit)

lemma op_type_at: "a < 16777216 \<Longrightarrow> op_type (op_at F a op c) = opcode op"
  unfolding op_type_def OP_TYPE_SW_MASK_mask OP_TYPE_SW_POSI_def op_at_def
  by (subst (1 2) opcode_low) (auto intro!: bit_word_eqI simp: bit_simps bit_OP_SW bit_WP dest: low24_bit)

lemma op_type_word: "op_type (op_word op) = opcode op"
  unfolding op_type_def OP_TYPE_SW_MASK_mask OP_TYPE_SW_POSI_def op_word_def
  by (subst (1 2) opcode_low) (auto intro!: bit_word_eqI simp: bit_simps bit_OP_SW bit_WP dest: low24_bit)

lemma op_type_keep: "op_type (op_keep F op c) = opcode op"
  unfolding op_type_def OP_TYPE_SW_MASK_mask ADDR_SW_REG_MASK_mask OP_TYPE_SW_POSI_def op_keep_def
  by (subst (1 2) opcode_low) (auto intro!: bit_word_eqI simp: bit_simps bit_OP_SW bit_WP)

lemma nor_write_append:
  assumes "length as + length bs < 4294967296"
  shows "nor_write (nor_write m a as) (a + of_nat (length as)) bs = nor_write m a (as @ bs)"
proof
  fix x
  have "x - (a + of_nat (length as)) = (x - a) - of_nat (length as)" by simp
  then have "unat (x - (a + of_nat (length as))) =
      (if length as \<le> unat (x - a) then unat (x - a) - length as
       else unat (x - a) + 4294967296 - length as)"
    using assms by (simp only: unat_sub_nat)
  then show "nor_write (nor_write m a as) (a + of_nat (length as)) bs x = nor_write m a (as @ bs) x"
    using assms by (auto simp: nor_write_def nth_append)
qed

lemma nor_write_blit:
  assumes "length pb = 32" "k + length d \<le> 32" "\<forall>i<32. m (a + of_nat i) AND pb ! i = m (a + of_nat i)"
  shows "nor_write m a (blit pb k d) = nor_write m (a + of_nat k) d"
proof
  fix x
  have "x - (a + of_nat k) = (x - a) - of_nat k" by simp
  then have u: "unat (x - (a + of_nat k)) =
      (if k \<le> unat (x - a) then unat (x - a) - k else unat (x - a) + 4294967296 - k)"
    using assms by (simp only: unat_sub_nat)
  have "x = a + of_nat (unat (x - a))" by simp
  then have "m x AND pb ! unat (x - a) = m x" if "unat (x - a) < 32"
    using assms(3) that by metis
  then show "nor_write m a (blit pb k d) x = nor_write m (a + of_nat k) d x"
    using assms(1,2) u by (auto simp: nor_write_def nth_blit)
qed

lemma content_slice:
  assumes "k + n \<le> N"
  shows "take n (drop k (content m a N)) = content m (a + of_nat k) n"
  using assms by (intro nth_equalityI) (simp_all add: content_def add.assoc)

definition burst_base :: "u32 \<Rightarrow> u32" where
  "burst_base address = address AND NOT 0x1F"

lemma burst_base_sub: "burst_base x = x - x mod 32"
proof -
  have m: "x AND 0x1F = x mod 32" using take_bit_eq_mask [of 5 x] by (simp add: take_bit_eq_mod mask_eq_exp_minus_1)
  have "(x AND NOT 0x1F) + (x AND 0x1F) = x"
    by (subst disjunctive_add) (auto simp: bit_simps bit_eq_iff)
  then show ?thesis using m unfolding burst_base_def by (metis add_diff_cancel_right')
qed

lemma unat_mod32: "unat ((x :: u32) mod 32) = unat x mod 32"
  by (simp add: unat_mod)

lemma burst_base_add: "burst_base x + of_nat (unat x mod 32) = x"
  by (simp add: burst_base_sub flip: unat_mod32)

lemma unat_burst_base: "unat (burst_base x) = unat x - unat x mod 32"
proof -
  have "x mod 32 \<le> x" by (simp add: word_le_nat_alt unat_mod)
  then show ?thesis unfolding burst_base_sub by (simp add: unat_sub unat_mod32)
qed

lemma burst_eq: "burst x n = min (32 - unat x mod 32) n"
  by (simp add: burst_def unat_mod32)

lemma burst_next:
  assumes "unat x + n \<le> 16777216" "burst x n < n"
  shows "burst_base (x + of_nat (burst x n)) = burst_base x + 32 \<and> unat (x + of_nat (burst x n)) mod 32 = 0 \<and>
    unat (x + of_nat (burst x n)) = unat x + burst x n"
proof -
  have b: "burst x n = 32 - unat x mod 32" using assms(2) by (simp add: burst_eq min_def split: if_splits)
  have u: "unat (x + of_nat (burst x n)) = unat x + burst x n"
    using assms by (simp add: unat_word_ariths unat_of_nat32)
  have z: "(unat x + burst x n) mod 32 = 0" unfolding b by presburger
  have "x + of_nat (burst x n) = burst_base x + (of_nat (unat x mod 32) + of_nat (burst x n))"
    by (metis burst_base_add add.assoc)
  also have "of_nat (unat x mod 32) + of_nat (burst x n) = (of_nat 32 :: u32)"
    unfolding b of_nat_add [symmetric] by simp
  finally have "x + of_nat (burst x n) = burst_base x + 32" by simp
  moreover have "burst_base (x + of_nat (burst x n)) = x + of_nat (burst x n)"
    using burst_base_add [of "x + of_nat (burst x n)"] u z by simp
  ultimately show ?thesis using u z by simp
qed

text \<open>
  What a chip with its controller does. \<open>sr\<close> is its status register; erase and programming
  have the documented effect when the protection field (as \<open>get_flash_protect\<close> computes it)
  is the one of no protection. What they do to a protected range is left open.
\<close>

definition sr_seen :: "nat \<Rightarrow> u16 \<Rightarrow> u16" where
  "sr_seen w s = (if w = 2 then s else s AND 0xFF)"

definition prot_field :: "flash_config_t \<Rightarrow> u16 \<Rightarrow> u16" where
  "prot_field cfg s = push_bit 8 (drop_bit (cmp_post cfg) (sr_seen (sr_size cfg) s) AND 0x01) OR
     (drop_bit (protect_post cfg) (sr_seen (sr_size cfg) s) AND ucast (protect_mask cfg))"

definition unlocked :: "flash_config_t \<Rightarrow> u16 \<Rightarrow> bool" where
  "unlocked cfg s \<longleftrightarrow> prot_field cfg s = protect_none cfg"

definition nor_laws :: "'c flash_ctl \<Rightarrow> flash_config_t \<Rightarrow> ('c \<Rightarrow> mem) \<Rightarrow> ('c \<Rightarrow> u16) \<Rightarrow> bool" where
  "nor_laws F cfg mem sr \<longleftrightarrow>
     (\<forall>v c. op_type v = opcode FLASH_OPCODE_READ \<longrightarrow>
        bytes_of (fst (flash_fetch F 8 (fc_operate F v c))) = content (mem c) (op_addr v) 32 \<and>
        mem (snd (flash_fetch F 8 (fc_operate F v c))) = mem c \<and>
        sr (snd (flash_fetch F 8 (fc_operate F v c))) = sr c) \<and>
     (\<forall>v ws c. op_type v = opcode FLASH_OPCODE_PP \<and> length ws = 8 \<and> unlocked cfg (sr c) \<longrightarrow>
        mem (fc_operate F v (flash_fill F ws c)) = nor_write (mem c) (op_addr v) (bytes_of ws) \<and>
        sr (fc_operate F v (flash_fill F ws c)) = sr c) \<and>
     (\<forall>v c. op_type v = opcode FLASH_OPCODE_SE \<and> unlocked cfg (sr c) \<longrightarrow>
        mem (fc_operate F v c) = mem_write (mem c) (op_addr v AND NOT 0xFFF) (replicate 4096 0xFF) \<and>
        sr (fc_operate F v c) = sr c) \<and>
     (\<forall>v c. op_type v \<notin> opcode ` {FLASH_OPCODE_PP, FLASH_OPCODE_SE} \<longrightarrow> mem (fc_operate F v c) = mem c) \<and>
     (\<forall>v c. mem (fc_set_conf F v c) = mem c \<and> mem (fc_set_sr_data F v c) = mem c)"

lemma nor_readD:
  "nor_laws F cfg mem sr \<Longrightarrow> a < 16777216 \<Longrightarrow>
     bytes_of (fst (flash_fetch F 8 (fc_operate F (op_at F a FLASH_OPCODE_READ c) c))) = content (mem c) a 32 \<and>
     mem (snd (flash_fetch F 8 (fc_operate F (op_at F a FLASH_OPCODE_READ c) c))) = mem c \<and>
     sr (snd (flash_fetch F 8 (fc_operate F (op_at F a FLASH_OPCODE_READ c) c))) = sr c"
  unfolding nor_laws_def using op_type_at op_addr_at by (metis (no_types, lifting))

lemma burst_base_low: "unat x \<le> 16777216 \<Longrightarrow> 0 < n \<Longrightarrow> unat x + n \<le> 16777216 \<Longrightarrow> burst_base x < 16777216"
  by (simp add: word_less_nat_alt unat_burst_base)

lemma unat_add_nat_le: "unat ((x :: u32) + of_nat n) \<le> unat x + n"
  by (simp add: unat_word_ariths unat_of_nat mod_simps)

lemma read_loop_exact:
  "nor_laws F cfg mem sr \<Longrightarrow> unat address + len \<le> 16777216 \<Longrightarrow> len \<noteq> 0 \<longrightarrow> addr = burst_base address \<Longrightarrow>
    fst (flash_read_loop F addr address len c) = content (mem c) address len \<and>
    mem (snd (flash_read_loop F addr address len c)) = mem c \<and>
    sr (snd (flash_read_loop F addr address len c)) = sr c"
proof (induction F addr address len c rule: flash_read_loop.induct)
  case (1 F addr address len c)
  show ?case
  proof (cases "len = 0")
    case True
    then show ?thesis by (simp add: flash_read_loop.simps)
  next
    case False
    let ?n = "burst address len"
    obtain ws c1 where f: "flash_fetch F 8 (fc_operate F (op_at F addr FLASH_OPCODE_READ c) c) = (ws, c1)"
      by fastforce
    have n: "0 < ?n" "?n \<le> len" "unat address mod 32 + ?n \<le> 32"
      using False by (auto simp: burst_pos burst_eq)
    have ws: "bytes_of ws = content (mem c) (burst_base address) 32" "mem c1 = mem c" "sr c1 = sr c"
      using nor_readD [OF "1.prems"(1) burst_base_low, of address len c] f "1.prems" False by auto
    have out: "take ?n (drop (unat address mod 32) (bytes_of ws)) = content (mem c) address ?n"
      using n(3) ws(1) by (simp add: content_slice burst_base_add)
    have "fst (flash_read_loop F (addr + 32) (address + of_nat ?n) (len - ?n) c1) =
        content (mem c1) (address + of_nat ?n) (len - ?n) \<and>
        mem (snd (flash_read_loop F (addr + 32) (address + of_nat ?n) (len - ?n) c1)) = mem c1 \<and>
        sr (snd (flash_read_loop F (addr + 32) (address + of_nat ?n) (len - ?n) c1)) = sr c1"
    proof (rule "1.IH" [OF False f [symmetric] refl refl "1.prems"(1)])
      show "unat (address + of_nat ?n) + (len - ?n) \<le> 16777216"
        using "1.prems"(2) n unat_add_nat_le [of address ?n] by simp
      show "len - ?n \<noteq> 0 \<longrightarrow> addr + 32 = burst_base (address + of_nat ?n)"
        using burst_next [of address len] "1.prems"(2,3) n by auto
    qed
    moreover have "content (mem c) address len =
        content (mem c) address ?n @ content (mem c) (address + of_nat ?n) (len - ?n)"
      using content_add [of "mem c" address ?n "len - ?n"] n by simp
    ultimately show ?thesis
      using False ws(2,3) out
      by (subst (1 2 3) flash_read_loop.simps) (simp add: f unat_mod32 split_beta Let_def)
  qed
qed

lemma flash_read_data_exact:
  "nor_laws F cfg mem sr \<Longrightarrow> unat address + unat len \<le> 16777216 \<Longrightarrow>
    fst (flash_read_data F address len c) = content (mem c) address (unat len) \<and>
    mem (snd (flash_read_data F address len c)) = mem c \<and> sr (snd (flash_read_data F address len c)) = sr c"
  unfolding flash_read_data_def using read_loop_exact [of F cfg mem sr address "unat len" "burst_base address" c]
  by (auto simp: burst_base_def)

lemma words_of_inverse: "length bs mod 4 = 0 \<Longrightarrow> bytes_of (words_of bs) = bs \<and> length (words_of bs) = length bs div 4"
proof (induction bs rule: words_of.induct)
  case (1 a b c d bs)
  then have "length bs mod 4 = 0" by simp
  with 1 show ?case by (simp add: bytes_of_def word_bytes_bytes_word del: bytes_word.simps)
qed (auto simp: bytes_of_def)

lemma nor_ppD:
  "nor_laws F cfg mem sr \<Longrightarrow> a < 16777216 \<Longrightarrow> length pb = 32 \<Longrightarrow> unlocked cfg (sr c') \<Longrightarrow>
     mem (fc_operate F (op_at F a FLASH_OPCODE_PP c) (flash_fill F (words_of pb) c')) = nor_write (mem c') a pb \<and>
     sr (fc_operate F (op_at F a FLASH_OPCODE_PP c) (flash_fill F (words_of pb) c')) = sr c'"
  unfolding nor_laws_def using words_of_inverse [of pb] by (simp add: op_type_at op_addr_at)

lemma burst_base_room: "burst_base x < 16777216 \<Longrightarrow> unat (burst_base x) + 32 \<le> 16777216"
  unfolding word_less_nat_alt unat_burst_base minus_mod_eq_mult_div by simp

lemma write_loop_exact:
  "nor_laws F cfg mem sr \<Longrightarrow> unat address + length data \<le> 16777216 \<Longrightarrow> data \<noteq> [] \<longrightarrow> addr = burst_base address \<Longrightarrow>
    length pb = 32 \<Longrightarrow> data \<noteq> [] \<longrightarrow> (\<forall>i<32. mem c (addr + of_nat i) AND pb ! i = mem c (addr + of_nat i)) \<Longrightarrow>
    unlocked cfg (sr c) \<Longrightarrow>
    mem (flash_write_loop F addr address pb data c) = nor_write (mem c) address data \<and>
    sr (flash_write_loop F addr address pb data c) = sr c"
proof (induction F addr address pb data c rule: flash_write_loop.induct)
  case (1 F addr address pb data c)
  show ?case
  proof (cases "data = []")
    case True
    then show ?thesis by (simp add: flash_write_loop.simps)
  next
    case False
    let ?n = "burst address (length data)"
    obtain pb1 c1 where f: "(if length data < 32 then flash_read_data F addr 32 c else (pb, c)) = (pb1, c1)"
      by fastforce
    have n: "0 < ?n" "?n \<le> length data" "unat address mod 32 + ?n \<le> 32"
      using False by (auto simp: burst_pos burst_eq)
    have addr: "addr = burst_base address" and low: "addr < 16777216"
      using "1.prems" False burst_base_low [of address "length data"] by auto
    have rd: "fst (flash_read_data F addr 32 c) = content (mem c) addr 32 \<and>
        mem (snd (flash_read_data F addr 32 c)) = mem c \<and> sr (snd (flash_read_data F addr 32 c)) = sr c"
      using flash_read_data_exact [OF "1.prems"(1), of addr 32 c] burst_base_room low unfolding addr by simp
    have "length pb1 = 32 \<and> (\<forall>i<32. mem c1 (addr + of_nat i) AND pb1 ! i = mem c1 (addr + of_nat i)) \<and>
        mem c1 = mem c \<and> sr c1 = sr c"
    proof (cases "length data < 32")
      case True
      with f rd have "pb1 = content (mem c) addr 32" "mem c1 = mem c" "sr c1 = sr c" by auto
      then show ?thesis by (simp add: content_def)
    next
      case F': False
      with f "1.prems"(4,5) False show ?thesis by simp
    qed
    then have pb1: "length pb1 = 32" "\<forall>i<32. mem c1 (addr + of_nat i) AND pb1 ! i = mem c1 (addr + of_nat i)"
      "mem c1 = mem c" "sr c1 = sr c" by blast+
    let ?pb2 = "blit pb1 (unat address mod 32) (take ?n data)"
    let ?c2 = "flash_fill F (words_of ?pb2) c1"
    let ?c3 = "fc_operate F (op_at F addr FLASH_OPCODE_PP ?c2) ?c2"
    have pp: "mem ?c3 = nor_write (mem c1) addr ?pb2 \<and> sr ?c3 = sr c1"
      using pb1 n "1.prems"(6) by (intro nor_ppD [OF "1.prems"(1) low]) simp_all
    then have "mem ?c3 = nor_write (mem c1) addr ?pb2" ..
    also have "\<dots> = nor_write (mem c1) address (take ?n data)"
      using nor_write_blit [of pb1 "unat address mod 32" "take ?n data" "mem c1" addr] pb1 n
      unfolding addr burst_base_add by simp
    finally have c3: "mem ?c3 = nor_write (mem c) address (take ?n data)" using pb1 by simp
    have rest: "mem (flash_write_loop F (addr + 32) (address + of_nat ?n) (replicate 32 0xFF) (drop ?n data) ?c3) =
        nor_write (mem ?c3) (address + of_nat ?n) (drop ?n data) \<and>
        sr (flash_write_loop F (addr + 32) (address + of_nat ?n) (replicate 32 0xFF) (drop ?n data) ?c3) = sr ?c3"
    proof (rule "1.IH" [OF False f [symmetric] refl refl refl, unfolded unat_mod32, OF refl "1.prems"(1)])
      show "unat (address + of_nat ?n) + length (drop ?n data) \<le> 16777216"
        using "1.prems"(2) n unat_add_nat_le [of address ?n] by simp
      show "drop ?n data \<noteq> [] \<longrightarrow> addr + 32 = burst_base (address + of_nat ?n)"
        using burst_next [of address "length data"] "1.prems"(2) addr n by auto
      show "unlocked cfg (sr ?c3)" using pp pb1(4) "1.prems"(6) by simp
    qed simp_all
    moreover have "nor_write (mem ?c3) (address + of_nat ?n) (drop ?n data) = nor_write (mem c) address data"
      using nor_write_append [of "take ?n data" "drop ?n data" "mem c" address] c3 n "1.prems"(2) by simp
    ultimately show ?thesis
      using False pp pb1(4) by (subst (1 2) flash_write_loop.simps) (simp add: f unat_mod32 split_beta Let_def)
  qed
qed

lemma flash_write_data_exact:
  assumes F: "nor_laws F cfg mem sr" and a: "unat address + length data \<le> 16777216" and u: "unlocked cfg (sr c)"
  shows "mem (flash_write_data F data address c) = nor_write (mem c) address data \<and>
    sr (flash_write_data F data address c) = sr c"
proof -
  obtain pb c1 where f: "(if address mod 32 \<noteq> 0 then flash_read_data F (burst_base address) 32 c
      else (replicate 32 0xFF, c)) = (pb, c1)" by fastforce
  have "length pb = 32 \<and> (\<forall>i<32. mem c1 (burst_base address + of_nat i) AND pb ! i = mem c1 (burst_base address + of_nat i)) \<and>
      mem c1 = mem c \<and> sr c1 = sr c"
  proof (cases "address mod 32 = 0")
    case True
    with f show ?thesis by auto
  next
    case False
    then have "unat address mod 32 \<noteq> 0" by (metis unat_mod32 unat_eq_zero)
    with a have "burst_base address < 16777216"
      unfolding word_less_nat_alt unat_burst_base by auto
    from flash_read_data_exact [OF F, of "burst_base address" 32 c] burst_base_room [OF this] f False
    have "pb = content (mem c) (burst_base address) 32" "mem c1 = mem c" "sr c1 = sr c" by auto
    then show ?thesis by (simp add: content_def)
  qed
  then have pb: "length pb = 32" "\<forall>i<32. mem c1 (burst_base address + of_nat i) AND pb ! i = mem c1 (burst_base address + of_nat i)"
    "mem c1 = mem c" "sr c1 = sr c" by blast+
  have "mem (flash_write_loop F (burst_base address) address pb data c1) = nor_write (mem c1) address data \<and>
      sr (flash_write_loop F (burst_base address) address pb data c1) = sr c1"
    by (rule write_loop_exact [OF F a _ pb(1)]) (use pb u in simp_all)

  then show ?thesis
    unfolding flash_write_data_def burst_base_def [symmetric] Let_def f by (simp add: pb(3,4))
qed

section \<open>Operations that leave the memory alone\<close>
lemma nor_otherD:
  "nor_laws F cfg mem sr \<Longrightarrow> op_type v = opcode op \<Longrightarrow> op \<noteq> FLASH_OPCODE_PP \<Longrightarrow> op \<noteq> FLASH_OPCODE_SE \<Longrightarrow>
     mem (fc_operate F v c) = mem c"
  unfolding nor_laws_def by (cases op) auto

lemma nor_setD [simp]:
  "nor_laws F cfg mem sr \<Longrightarrow> mem (fc_set_conf F v c) = mem c"
  "nor_laws F cfg mem sr \<Longrightarrow> mem (fc_set_sr_data F v c) = mem c"
  by (simp_all add: nor_laws_def)

lemma nor_keeps [simp]:
  assumes F: "nor_laws F cfg mem sr" and op: "op \<noteq> FLASH_OPCODE_PP" "op \<noteq> FLASH_OPCODE_SE"
  shows "mem (fc_operate F (op_word op) c) = mem c"
    and "mem (fc_operate F (op_keep F op c') c) = mem c"
    and "mem (fc_operate F (op_at F 0 op c') c) = mem c"
  using nor_otherD [OF F _ op] by (simp_all add: op_type_word op_type_keep op_type_at)

lemma mem_flash_read_sr [simp]: "nor_laws F cfg mem sr \<Longrightarrow> mem (snd (flash_read_sr F w c)) = mem c"
  by (simp add: flash_read_sr_def Let_def)

lemma mem_flash_set_model [simp]: "nor_laws F cfg mem sr \<Longrightarrow> mem (flash_set_model F v c) = mem c"
  by (simp add: flash_set_model_def)

lemma mem_flash_clr_qwfr [simp]: "nor_laws F cfg mem sr \<Longrightarrow> mem (flash_clr_qwfr F c) = mem c"
  by (simp add: flash_clr_qwfr_def Let_def)

lemma mem_flash_set_qe [simp]: "nor_laws F cfg mem sr \<Longrightarrow> mem (flash_set_qe F cfg' c) = mem c"
  using mem_flash_read_sr [of F cfg mem sr "sr_size cfg'" c]
  by (simp add: flash_set_qe_def Let_def split_beta)

lemma mem_flash_set_line_mode [simp]: "nor_laws F cfg mem sr \<Longrightarrow> mem (flash_set_line_mode F cfg' m c) = mem c"
  by (simp add: flash_set_line_mode_def Let_def flash_set_qwfr_def)

lemma mem_line [simp]:
  "nor_laws F cfg mem sr \<Longrightarrow> mem (line_two F cfg' c) = mem c"
  "nor_laws F cfg mem sr \<Longrightarrow> mem (line_back F cfg' c) = mem c"
  by (simp_all add: line_two_def line_back_def)

section \<open>The status register\<close>

definition sr_laws :: "'c flash_ctl \<Rightarrow> ('c \<Rightarrow> u16) \<Rightarrow> bool" where
  "sr_laws F sr \<longleftrightarrow>
     (\<forall>v c. op_type v = opcode FLASH_OPCODE_RDSR \<longrightarrow>
        fc_sr_data F (fc_operate F v c) AND 0xFF = ucast (sr c) AND 0xFF \<and> sr (fc_operate F v c) = sr c) \<and>
     (\<forall>v c. op_type v = opcode FLASH_OPCODE_RDSR2 \<longrightarrow>
        fc_sr_data F (fc_operate F v c) AND 0xFF = drop_bit 8 (ucast (sr c)) \<and> sr (fc_operate F v c) = sr c) \<and>
     (\<forall>v c. op_type v = opcode FLASH_OPCODE_WRSR \<longrightarrow>
        sr (fc_operate F v c) = (sr c AND 0xFF00) OR (ucast (drop_bit WRSR_DATA_POSI (fc_conf F c)) AND 0xFF)) \<and>
     (\<forall>v c. op_type v = opcode FLASH_OPCODE_WRSR2 \<longrightarrow>
        sr (fc_operate F v c) = ucast (drop_bit WRSR_DATA_POSI (fc_conf F c))) \<and>
     (\<forall>v c. sr (fc_set_conf F v c) = sr c \<and> fc_conf F (fc_set_conf F v c) = v)"

lemma WRSR_DATA_MASK_mask: "WRSR_DATA_MASK = mask 16"
  by (simp add: WRSR_DATA_MASK_def mask_eq_exp_minus_1)

lemma wrsr_conf_data: "ucast (drop_bit WRSR_DATA_POSI (wrsr_conf k (ucast (v :: u16)))) = v"
  unfolding wrsr_conf_def WRSR_DATA_POSI_def WRSR_DATA_MASK_mask
  by (auto intro!: bit_word_eqI simp: bit_simps)

lemma low_byte: "(0xFF :: u32) = mask 8" "(0xFF :: u16) = mask 8"
  by (simp_all add: mask_eq_exp_minus_1)

lemma high_byte: "(0xFF00 :: u16) = NOT (mask 8)"
  by (simp add: mask_eq_exp_minus_1)

lemma sr_low: "ucast ((ucast (s :: u16) :: u32) AND 0xFF) = s AND 0xFF"
  unfolding low_byte by (auto intro!: bit_word_eqI simp: bit_simps)

lemma sr_join: "(s AND 0xFF) OR ucast (push_bit 8 (drop_bit 8 (ucast (s :: u16) :: u32))) = s"
  unfolding low_byte by (auto intro!: bit_word_eqI simp: bit_simps)

lemma flash_read_sr_laws:
  assumes sr: "sr_laws F sr"
  shows "fst (flash_read_sr F w c) = (if w = 2 then sr c else sr c AND 0xFF)"
    and "sr (snd (flash_read_sr F w c)) = sr c"
proof -
  let ?c1 = "fc_operate F (op_word FLASH_OPCODE_RDSR) c"
  let ?c2 = "fc_operate F (op_word FLASH_OPCODE_RDSR2) ?c1"
  have 1: "fc_sr_data F ?c1 AND 0xFF = ucast (sr c) AND 0xFF" "sr ?c1 = sr c"
    using sr unfolding sr_laws_def by (simp_all add: op_type_word)
  have 2: "fc_sr_data F ?c2 AND 0xFF = drop_bit 8 (ucast (sr c))" "sr ?c2 = sr c"
    using sr 1(2) unfolding sr_laws_def by (simp_all add: op_type_word)
  show "fst (flash_read_sr F w c) = (if w = 2 then sr c else sr c AND 0xFF)"
    unfolding flash_read_sr_def Let_def 1 2 sr_low sr_join by simp
  show "sr (snd (flash_read_sr F w c)) = sr c"
    unfolding flash_read_sr_def Let_def using 1 2 by simp
qed

lemma flash_write_sr_laws:
  assumes "sr_laws F sr"
  shows "sr (flash_write_sr F w v c) = (if w = 1 then (sr c AND 0xFF00) OR (v AND 0xFF) else if w = 2 then v else sr c)"
  using assms unfolding sr_laws_def flash_write_sr_def
  by (simp add: Let_def op_type_word wrsr_conf_data)

text \<open>The protection field: \<open>k\<close> bits at 2, and the complement bit (\<open>j\<close> is 1) at \<open>cp\<close>.\<close>

definition put_field :: "nat \<Rightarrow> nat \<Rightarrow> nat \<Rightarrow> u32 \<Rightarrow> u32 \<Rightarrow> u32 \<Rightarrow> u32" where
  "put_field j k cp v param cmp =
     (((v AND NOT (push_bit 2 (mask k))) OR push_bit 2 param) AND NOT (push_bit cp (mask j))) OR push_bit cp cmp"

lemma put_field_get:
  assumes "k \<le> 5" "j \<le> 1" "cp = 0 \<or> cp = 14"
  shows "take_bit k (drop_bit 2 (put_field j k cp v (take_bit k p) (take_bit j q))) = take_bit k p"
    and "take_bit j (drop_bit cp (put_field j k cp v (take_bit k p) (take_bit j q))) = take_bit j q"
    and "n < 2 \<or> k + 2 \<le> n \<Longrightarrow> n < cp \<or> cp + j \<le> n \<Longrightarrow> n < 32 \<Longrightarrow>
      bit (put_field j k cp v (take_bit k p) (take_bit j q)) n = bit v n"
  using assms unfolding put_field_def
  by (auto intro!: bit_word_eqI simp: bit_simps)

lemma field_same:
  assumes "push_bit b (take_bit k p) = v AND push_bit b (mask k)" "k + b \<le> 32"
  shows "take_bit k (drop_bit b (v :: u32)) = take_bit k p"
proof (rule bit_word_eqI)
  fix n assume "n < LENGTH(32)"
  have "bit (push_bit b (take_bit k p)) (b + n) = bit (v AND push_bit b (mask k)) (b + n)" using assms(1) by simp
  then show "bit (take_bit k (drop_bit b v)) n = bit (take_bit k p) n"
    using assms(2) by (auto simp: bit_simps)
qed

definition chip_ok :: "nat \<Rightarrow> flash_config_t \<Rightarrow> bool" where
  "chip_ok k cfg \<longleftrightarrow> k \<le> 5 \<and> protect_post cfg = 2 \<and> protect_mask cfg = mask k \<and>
     (sr_size cfg = 2 \<and> cmp_post cfg \<in> {0, 14} \<or> sr_size cfg = 1 \<and> cmp_post cfg = 0)"

definition field_ok :: "nat \<Rightarrow> u16 \<Rightarrow> bool" where
  "field_ok k f \<longleftrightarrow> push_bit 8 (take_bit 1 (drop_bit 8 f)) OR take_bit k f = f \<and>
     (ucast f :: u32) AND 0xFF = take_bit k (ucast f) \<and>
     drop_bit 8 (ucast f :: u32) AND 0xFF = take_bit 1 (drop_bit 8 (ucast f))"

lemma seen_fields:
  assumes k: "k \<le> 5" and w: "w = 2 \<and> cp \<in> {0, 14} \<or> w = 1 \<and> cp = 0" and j: "j \<le> 1"
  shows "take_bit k (drop_bit 2 (sr_seen w (if w = 1 then (s AND 0xFF00) OR (ucast (x :: u32) AND 0xFF) else ucast x))) =
      ucast (take_bit k (drop_bit 2 x))"
    and "take_bit j (drop_bit cp (sr_seen w (if w = 1 then (s AND 0xFF00) OR (ucast x AND 0xFF) else ucast x))) =
      ucast (take_bit j (drop_bit cp x))"
  using assms unfolding sr_seen_def low_byte high_byte
  by (auto intro!: bit_word_eqI simp: bit_simps)

lemma one_u32: "(1 :: u32) = mask 1"
  by simp

lemma bit_u16: "bit (y :: u16) n \<Longrightarrow> n < 16"
  using bit_imp_le_length by fastforce

lemma set_flash_protect_field:
  assumes F: "sr_laws F sr" and cfg: "chip_ok k cfg" and f: "field_ok k (protect_field cfg tp)"
  shows "take_bit k (drop_bit 2 (sr_seen (sr_size cfg) (sr (set_flash_protect F cfg tp c)))) =
      take_bit k (protect_field cfg tp) \<and>
    take_bit 1 (drop_bit (cmp_post cfg) (sr_seen (sr_size cfg) (sr (set_flash_protect F cfg tp c)))) =
      take_bit 1 (drop_bit 8 (protect_field cfg tp))"
proof -
  let ?w = "ucast (protect_field cfg tp) :: u32"
  let ?v = "ucast (sr_seen (sr_size cfg) (sr c)) :: u32"
  let ?v3 = "put_field 1 k (cmp_post cfg) ?v (take_bit k ?w) (take_bit 1 (drop_bit 8 ?w))"

  have k: "k \<le> 5" "sr_size cfg = 2 \<and> cmp_post cfg \<in> {0, 14} \<or> sr_size cfg = 1 \<and> cmp_post cfg = 0"
    "cmp_post cfg = 0 \<or> cmp_post cfg = 14"
    using cfg by (auto simp: chip_ok_def)
  have w: "?w AND 0xFF = take_bit k ?w" "drop_bit 8 ?w AND 0xFF = take_bit 1 (drop_bit 8 ?w)"
    using f by (auto simp: field_ok_def)
  obtain x c1 where r: "flash_read_sr F (sr_size cfg) c = (x, c1)" by fastforce
  have x: "x = sr_seen (sr_size cfg) (sr c)" "sr c1 = sr c"
    using flash_read_sr_laws [OF F, of "sr_size cfg" c] r by (auto simp: sr_seen_def)
  have one: "take_bit 1 (drop_bit 8 ?w) AND 0x01 = take_bit 1 (drop_bit 8 ?w)"
    using one_u32 by (simp only: take_bit_eq_mask and.assoc and.idem)
  have eq: "set_flash_protect F cfg tp c =
      (if push_bit 2 (take_bit k ?w) \<noteq> ?v AND push_bit 2 (mask k) \<or>
          push_bit (cmp_post cfg) (take_bit 1 (drop_bit 8 ?w)) \<noteq> ?v AND push_bit (cmp_post cfg) (mask 1)
       then flash_write_sr F (sr_size cfg) (ucast ?v3) c1 else c1)"
    using cfg unfolding set_flash_protect_def r Let_def prod.case w one put_field_def
    by (simp add: chip_ok_def x(1))
  have up: "ucast (take_bit n (drop_bit m (ucast (y :: u16) :: u32))) = take_bit n (drop_bit m y)" for n m y
  proof (rule bit_word_eqI)
    fix i
    show "bit (ucast (take_bit n (drop_bit m (ucast y :: u32))) :: u16) i = bit (take_bit n (drop_bit m y)) i"
      using bit_u16 [of y i] bit_u16 [of y "m + i"] by (auto simp: bit_simps)
  qed
  show ?thesis
  proof (cases "push_bit 2 (take_bit k ?w) \<noteq> ?v AND push_bit 2 (mask k) \<or>
      push_bit (cmp_post cfg) (take_bit 1 (drop_bit 8 ?w)) \<noteq> ?v AND push_bit (cmp_post cfg) (mask 1)")
    case True
    have "sr (set_flash_protect F cfg tp c) =
        (if sr_size cfg = 1 then (sr c AND 0xFF00) OR (ucast ?v3 AND 0xFF) else ucast ?v3)"
      using True k(2) unfolding eq by (auto simp: flash_write_sr_laws [OF F] x(2))
    moreover have "take_bit k (drop_bit 2 ?v3) = take_bit k ?w"
      "take_bit 1 (drop_bit (cmp_post cfg) ?v3) = take_bit 1 (drop_bit 8 ?w)"
      using k put_field_get(1,2) [of k 1 "cmp_post cfg"] by blast+
    ultimately show ?thesis
      using seen_fields [OF k(1,2), of 1 "sr c" ?v3] up [of k 0 "protect_field cfg tp"]
        up [of 1 8 "protect_field cfg tp"] by simp
  next
    case False
    then have "take_bit k (drop_bit 2 ?v) = take_bit k ?w"
      "take_bit 1 (drop_bit (cmp_post cfg) ?v) = take_bit 1 (drop_bit 8 ?w)"
      using k field_same [of 2 k ?w ?v] field_same [of "cmp_post cfg" 1 "drop_bit 8 ?w" ?v] by auto
    moreover have "set_flash_protect F cfg tp c = c1" using False unfolding eq by simp
    ultimately show ?thesis
      using up [of k 0 "protect_field cfg tp"] up [of 1 8 "protect_field cfg tp"]
        up [of k 2 "sr_seen (sr_size cfg) (sr c)"] up [of 1 "cmp_post cfg" "sr_seen (sr_size cfg) (sr c)"] x(2)
      by simp
  qed
qed

definition protects :: "u32 list" where
  "protects = [FLASH_PROTECT_NONE, FLASH_PROTECT_ALL, FLASH_PROTECT_HALF, FLASH_UNPROTECT_LAST_BLOCK]"

text \<open>What \<open>get_flash_protect\<close> makes of the field of a protection type.\<close>

definition protect_of :: "flash_config_t \<Rightarrow> u16 \<Rightarrow> u32" where
  "protect_of cfg f =
    (if f = protect_all cfg then FLASH_PROTECT_ALL
     else if f = protect_none cfg then FLASH_PROTECT_NONE
     else if f = protect_half cfg then FLASH_PROTECT_HALF
     else if f = unprotect_last_block cfg then FLASH_UNPROTECT_LAST_BLOCK else 0xFFFF)"

lemma chip_table:
  "list_all (\<lambda>cfg. let k = (if cfg_flash_id cfg = 0xC22315 then 4 else 5) in chip_ok k cfg \<and>
     list_all (\<lambda>tp. field_ok k (protect_field cfg tp) \<and>
       protect_of cfg (protect_field cfg tp) =
         (if cfg_flash_id cfg = 0 then FLASH_PROTECT_ALL
          else if cfg_flash_id cfg = 0xEF4016 \<and> tp = FLASH_PROTECT_HALF then FLASH_PROTECT_NONE
          else tp)) protects) flash_config"
  by code_simp

lemma get_flash_protect_of:
  "sr_laws F sr \<Longrightarrow> fst (get_flash_protect F cfg c) = protect_of cfg (prot_field cfg (sr c))"
  using flash_read_sr_laws(1) [of F sr "sr_size cfg" c]
  by (simp add: get_flash_protect_def split_beta Let_def sr_seen_def prot_field_def protect_of_def)

lemma prot_fieldI:
  assumes cfg: "chip_ok k cfg" and f: "field_ok k f"
    and r: "take_bit k (drop_bit 2 (sr_seen (sr_size cfg) s)) = take_bit k f"
      "take_bit 1 (drop_bit (cmp_post cfg) (sr_seen (sr_size cfg) s)) = take_bit 1 (drop_bit 8 f)"
  shows "prot_field cfg s = f"
proof -
  have m: "ucast (mask k :: u32) = (mask k :: u16)"
    by (auto intro!: bit_word_eqI simp: bit_simps)
  have o: "(1 :: u16) = mask 1" by simp
  show ?thesis
    using cfg f unfolding chip_ok_def field_ok_def prot_field_def
    by (simp only: m o take_bit_eq_mask [symmetric] r)
qed

text \<open>Setting a protection puts its field into the status register.\<close>
lemma set_flash_protect_sets:
  assumes "sr_laws F sr" "cfg \<in> set flash_config" "tp \<in> set protects"
  shows "prot_field cfg (sr (set_flash_protect F cfg tp c)) = protect_field cfg tp"
proof -
  let ?k = "if cfg_flash_id cfg = 0xC22315 then 4 else 5"
  have "chip_ok ?k cfg" "field_ok ?k (protect_field cfg tp)"
    using chip_table assms(2,3) unfolding list_all_iff Let_def by blast+
  then show ?thesis using set_flash_protect_field [OF assms(1)] by (intro prot_fieldI) blast+
qed

lemma protect_of_table:
  "cfg \<in> set flash_config \<Longrightarrow> tp \<in> set protects \<Longrightarrow>
    protect_of cfg (protect_field cfg tp) =
      (if cfg_flash_id cfg = 0 then FLASH_PROTECT_ALL
       else if cfg_flash_id cfg = 0xEF4016 \<and> tp = FLASH_PROTECT_HALF then FLASH_PROTECT_NONE
       else tp)"
  using chip_table unfolding list_all_iff Let_def by blast

lemma set_flash_protect_none_unlocks:
  "sr_laws F sr \<Longrightarrow> cfg \<in> set flash_config \<Longrightarrow> unlocked cfg (sr (set_flash_protect F cfg FLASH_PROTECT_NONE c))"
  unfolding unlocked_def
  by (subst set_flash_protect_sets) (simp_all add: protects_def protect_field_def)

lemma mem_set_flash_protect [simp]:
  "nor_laws F cfg mem sr \<Longrightarrow> mem (set_flash_protect F cfg' tp c) = mem c"
  using mem_flash_read_sr [of F cfg mem sr "sr_size cfg'" c]
  by (simp add: set_flash_protect_def split_beta Let_def flash_write_sr_def)

section \<open>A NOR chip\<close>

text \<open>
  A controller with a chip that satisfies the laws: \<open>nc_in\<close> and \<open>nc_out\<close> are its two data
  queues, the one to the chip with the latest word first.
\<close>

record nor_chip =
  nc_mem :: mem
  nc_in :: "u32 list"
  nc_out :: "u32 list"
  nc_conf :: u32
  nc_sr :: u16
  nc_sr_data :: u32
  nc_id :: u32

definition nor_operate :: "flash_config_t \<Rightarrow> u32 \<Rightarrow> nor_chip \<Rightarrow> nor_chip" where
  "nor_operate cfg v c =
     (let t = op_type v; a = op_addr v; field = drop_bit WRSR_DATA_POSI (nc_conf c) in
      if t = opcode FLASH_OPCODE_READ then c\<lparr>nc_out := words_of (content (nc_mem c) a 32)\<rparr>
      else if t = opcode FLASH_OPCODE_PP then
        (if \<not> unlocked cfg (nc_sr c) then c else c\<lparr>nc_mem := nor_write (nc_mem c) a (bytes_of (rev (take 8 (nc_in c))))\<rparr>)
      else if t = opcode FLASH_OPCODE_SE then
        (if \<not> unlocked cfg (nc_sr c) then c else c\<lparr>nc_mem := mem_write (nc_mem c) (a AND NOT 0xFFF) (replicate 4096 0xFF)\<rparr>)
      else if t = opcode FLASH_OPCODE_RDSR then c\<lparr>nc_sr_data := ucast (nc_sr c) AND 0xFF\<rparr>
      else if t = opcode FLASH_OPCODE_RDSR2 then c\<lparr>nc_sr_data := drop_bit 8 (ucast (nc_sr c))\<rparr>
      else if t = opcode FLASH_OPCODE_WRSR then c\<lparr>nc_sr := (nc_sr c AND 0xFF00) OR (ucast field AND 0xFF)\<rparr>
      else if t = opcode FLASH_OPCODE_WRSR2 then c\<lparr>nc_sr := ucast field\<rparr>
      else c)"

definition nor_ctl :: "flash_config_t \<Rightarrow> nor_chip flash_ctl" where
  "nor_ctl cfg = \<lparr>fc_operate = nor_operate cfg, fc_op_reg = (\<lambda>c. 0),
     fc_put = (\<lambda>w c. c\<lparr>nc_in := w # nc_in c\<rparr>),
     fc_get = (\<lambda>c. (hd (nc_out c @ [0]), c\<lparr>nc_out := tl (nc_out c)\<rparr>)),
     fc_conf = nc_conf, fc_set_conf = (\<lambda>v c. c\<lparr>nc_conf := v\<rparr>),
     fc_sr_data = nc_sr_data, fc_set_sr_data = (\<lambda>v c. c\<lparr>nc_sr_data := v\<rparr>),
     fc_rdid = nc_id, fc_set_out = (\<lambda>w c. c)\<rparr>"

lemma nor_fetch:
  "fst (flash_fetch (nor_ctl cfg) n c) = take n (nc_out c) @ replicate (n - length (nc_out c)) 0 \<and>
   nc_mem (snd (flash_fetch (nor_ctl cfg) n c)) = nc_mem c \<and> nc_sr (snd (flash_fetch (nor_ctl cfg) n c)) = nc_sr c"
proof (induction n arbitrary: c)
  case (Suc n)
  show ?case
    using Suc [of "c\<lparr>nc_out := tl (nc_out c)\<rparr>"]
    by (cases "nc_out c") (simp_all add: nor_ctl_def split_beta)
qed simp

lemma nor_fill:
  "nc_in (flash_fill (nor_ctl cfg) ws c) = rev ws @ nc_in c \<and> nc_mem (flash_fill (nor_ctl cfg) ws c) = nc_mem c \<and>
   nc_sr (flash_fill (nor_ctl cfg) ws c) = nc_sr c"
  by (induction ws arbitrary: c) (simp_all add: nor_ctl_def)

lemma nor_ctl_operate [simp]: "fc_operate (nor_ctl cfg) = nor_operate cfg"
  by (simp add: nor_ctl_def)

lemma drop_sr: "(drop_bit 8 (ucast (x :: u16) :: u32)) AND 0xFF = drop_bit 8 (ucast x)"
proof (rule bit_word_eqI)
  fix n
  show "bit (drop_bit 8 (ucast x :: u32) AND 0xFF) n = bit (drop_bit 8 (ucast x :: u32)) n"
    unfolding low_byte using bit_u16 [of x "8 + n"] by (auto simp: bit_simps)
qed

lemma nor_ctl_laws: "nor_laws (nor_ctl cfg) cfg nc_mem nc_sr" "sr_laws (nor_ctl cfg) nc_sr"
proof -
  have "length (words_of (content m a 32)) = 8" "bytes_of (words_of (content m a 32)) = content m a 32" for m a
    using words_of_inverse [of "content m a 32"] by simp_all
  then show "nor_laws (nor_ctl cfg) cfg nc_mem nc_sr"
    unfolding nor_laws_def
    by (auto simp: nor_fetch nor_fill nor_operate_def Let_def) (simp_all add: nor_ctl_def)
  show "sr_laws (nor_ctl cfg) nc_sr"
    unfolding sr_laws_def by (auto simp: nor_operate_def Let_def drop_sr and.assoc) (simp_all add: nor_ctl_def drop_sr)
qed

definition blank_chip :: nor_chip where
  "blank_chip = \<lparr>nc_mem = (\<lambda>_. 0xFF), nc_in = [], nc_out = [], nc_conf = 0, nc_sr = 0, nc_sr_data = 0, nc_id = 0xC84015\<rparr>"

section \<open>Writing through the device\<close>
lemma flash_config_line: "cfg \<in> set flash_config \<Longrightarrow> line_mode cfg = 2"
  by (auto simp: flash_config_def flash_chip_def)

lemma flash_write_effect:
  assumes "nor_laws F cfg mem sr" "unat address + length data \<le> 16777216"
    "cfg \<in> set flash_config" "unlocked cfg (sr c)"
  shows "mem (snd (flash_write F cfg data address c)) = nor_write (mem c) address data \<and>
    sr (snd (flash_write F cfg data address c)) = sr c"
  using flash_write_data_exact [OF assms(1,2,4)] flash_config_line [OF assms(3)]
  by (simp add: flash_write_def line_two_def line_back_def)

lemma nor_write_blank:
  assumes blank: "content m a (length data) = replicate (length data) 0xFF" and l: "length data < 4294967296"
  shows "content (nor_write m a data) a (length data) = data"
proof (rule nth_equalityI)
  fix i assume "i < length (content (nor_write m a data) a (length data))"
  then have i: "i < length data" by simp
  then have "unat (of_nat i :: u32) = i" using l by (intro unat_of_nat32) simp
  moreover have "m (a + of_nat i) = 0xFF"
    using arg_cong [OF blank, of "\<lambda>xs. xs ! i"] i by (simp add: content_def)
  ultimately show "content (nor_write m a data) a (length data) ! i = data ! i"
    using i and_0xFF [of "data ! i"] by (simp add: content_def nor_write_def and.commute)
qed simp

section \<open>Properties\<close>

text \<open>
  C20: reading any range of the 16 MB address space, however it lies across the 32-byte bursts,
  answers exactly its bytes and changes nothing.
\<close>
theorem flash_read_exact:
  assumes "nor_laws F cfg mem sr" "unat address + unat count \<le> 16777216"
  shows "\<exists>c'. flash_read F count address c = (FLASH_SUCCESS, content (mem c) address (unat count), c') \<and> mem c' = mem c"
  using flash_read_data_exact [OF assms, of c] by (cases "flash_read_data F address count c") (simp add: flash_read_def)

lemma flash_read_exact_witness:
  "\<exists>c'. flash_read (nor_ctl (hd flash_config)) 70 0x1E1003 blank_chip =
     (FLASH_SUCCESS, content (nc_mem blank_chip) 0x1E1003 (unat (70 :: u32)), c') \<and> nc_mem c' = nc_mem blank_chip"
  by (rule flash_read_exact [OF nor_ctl_laws(1)]) simp

text \<open>
  C7: with the protection off, programming any range clears in the chip exactly the bits that are 0 in the data, at exactly
  its addresses: the read-modify-write of the first and the last burst leaves the bytes around
  it as they are. Over an erased range, a read then answers the data.
\<close>
theorem flash_write_exact:
  assumes F: "nor_laws F cfg mem sr" and a: "unat address + length data \<le> 16777216"
    and cfg: "cfg \<in> set flash_config" and lock: "unlocked cfg (sr c)"
  shows "fst (flash_write F cfg data address c) = FLASH_SUCCESS \<and>
    mem (snd (flash_write F cfg data address c)) = nor_write (mem c) address data \<and>
    (content (mem c) address (length data) = replicate (length data) 0xFF \<longrightarrow>
      fst (snd (flash_read F (of_nat (length data)) address (snd (flash_write F cfg data address c)))) = data)"
proof -
  note w = conjunct1 [OF flash_write_effect [OF F a cfg lock]]
  have u: "unat (of_nat (length data) :: u32) = length data" using a by (intro unat_of_nat32) simp
  show ?thesis
    using w nor_write_blank [of "mem c" address data]
      flash_read_data_exact [OF F, of address "of_nat (length data)" "snd (flash_write F cfg data address c)"] a u
    by (simp add: flash_read_def split_beta flash_write_def)
qed

lemma flash_write_exact_witness:
  "fst (snd (flash_read (nor_ctl (hd flash_config)) (of_nat (length (replicate 50 7))) 0x1E101D
     (snd (flash_write (nor_ctl (hd flash_config)) (hd flash_config) (replicate 50 7) 0x1E101D blank_chip)))) = replicate 50 7"
proof -
  have "content (nc_mem blank_chip) 0x1E101D (length (replicate 50 (7 :: u8))) = replicate (length (replicate 50 (7 :: u8))) 0xFF"
    by (simp add: content_def blank_chip_def list_eq_iff_nth_eq)
  then show ?thesis
    using flash_write_exact [OF nor_ctl_laws(1), where address = "0x1E101D" and data = "replicate 50 7"
        and cfg = "hd flash_config" and c = blank_chip]
    by (simp add: unlocked_def prot_field_def sr_seen_def blank_chip_def flash_config_def flash_chip_def)
qed

text \<open>
  For every chip of the table, setting a protection and reading it back gives the type that was
  set, whatever the status register held; except that on the Winbond chip half protection reads
  back as none (its two fields are equal), and that the default entry has one field for all types.
\<close>
theorem flash_protect_roundtrip:
  assumes "sr_laws F sr" "cfg \<in> set flash_config" "tp \<in> set protects"
  shows "fst (get_flash_protect F cfg (set_flash_protect F cfg tp c)) =
    (if cfg_flash_id cfg = 0 then FLASH_PROTECT_ALL
     else if cfg_flash_id cfg = 0xEF4016 \<and> tp = FLASH_PROTECT_HALF then FLASH_PROTECT_NONE
     else tp)"
  using set_flash_protect_sets [OF assms] assms by (simp add: get_flash_protect_of protect_of_table)

lemma flash_protect_roundtrip_witness:
  "fst (get_flash_protect (nor_ctl (flash_config ! 5)) (flash_config ! 5) (set_flash_protect (nor_ctl (flash_config ! 5)) (flash_config ! 5)
     FLASH_UNPROTECT_LAST_BLOCK blank_chip)) = FLASH_UNPROTECT_LAST_BLOCK"
proof -
  have "flash_config ! 5 \<in> set flash_config" "FLASH_UNPROTECT_LAST_BLOCK \<in> set protects"
    by (simp_all add: flash_config_def protects_def)
  from flash_protect_roundtrip [OF nor_ctl_laws(2) this] show ?thesis
    by (simp add: flash_config_def flash_chip_def)
qed

end
