(* ===== verification/Bk_Flash.thy ===== *)
theory Bk_Flash
  imports Flash
begin

text \<open>
  The partitions of the flash, \<open>beken378/func/user_driver/BkDriverFlash.c\<close>. The calls
  reach the flash driver through the device table (\<open>ddev_open("flash")\<close>, see the driver model);
  they are resolved here to \<open>flash_read\<close>, \<open>flash_write\<close> and \<open>flash_ctrl\<close>, which \<open>dd.c\<close>
  registers before any caller runs.

  The locale \<open>param_sector\<close> is what the users of a one-sector partition rely on: reads answer
  consistent bytes, and a rewrite makes the sector hold what was written.
\<close>

section \<open>Partitions\<close>

datatype bk_partition = BK_PARTITION_BOOTLOADER | BK_PARTITION_APPLICATION | BK_PARTITION_OTA
  | BK_PARTITION_RF_FIRMWARE | BK_PARTITION_NET_PARAM | BK_PARTITION_MAX

record bk_logic_partition =
  partition_description :: string
  partition_start_addr :: u32
  partition_length :: u32

definition bk7231_partitions :: "bk_logic_partition list" where
  "bk7231_partitions =
    [\<lparr>partition_description = ''Bootloader'', partition_start_addr = 0x00000000, partition_length = 0x11000\<rparr>,
     \<lparr>partition_description = ''Application'', partition_start_addr = 0x11000, partition_length = 0x121000\<rparr>,
     \<lparr>partition_description = ''ota'', partition_start_addr = 0x132000, partition_length = 0x96000\<rparr>,
     \<lparr>partition_description = ''RF Firmware'', partition_start_addr = 0x1e0000, partition_length = 0x1000\<rparr>,
     \<lparr>partition_description = ''NET info'', partition_start_addr = 0x1e1000, partition_length = 0x1000\<rparr>]"

fun bk_flash_get_info :: "bk_partition \<Rightarrow> bk_logic_partition option" where
  "bk_flash_get_info BK_PARTITION_BOOTLOADER = Some (bk7231_partitions ! 0)"
| "bk_flash_get_info BK_PARTITION_APPLICATION = Some (bk7231_partitions ! 1)"
| "bk_flash_get_info BK_PARTITION_OTA = Some (bk7231_partitions ! 2)"
| "bk_flash_get_info BK_PARTITION_RF_FIRMWARE = Some (bk7231_partitions ! 3)"
| "bk_flash_get_info BK_PARTITION_NET_PARAM = Some (bk7231_partitions ! 4)"
| "bk_flash_get_info BK_PARTITION_MAX = None"

section \<open>Operations\<close>

text \<open>A command given a variable of the caller: the flash afterwards.\<close>

definition flash_do :: "'c flash_ctl \<Rightarrow> flash_config_t \<Rightarrow> flash_cmd \<Rightarrow> u32 \<Rightarrow> 'c \<Rightarrow> 'c" where
  "flash_do F cfg cmd parm c =
     (case flash_ctrl F cfg (\<lambda>_. 0) 0 cmd parm c of Ret (_, c', _) \<Rightarrow> c' | _ \<Rightarrow> c)"

text \<open>The sector numbers of the erase loop, from \<open>off_set >> 12\<close> to \<open>(off_set + size - 1) >> 12\<close>.\<close>

definition erase_sectors :: "u32 \<Rightarrow> u32 \<Rightarrow> nat list" where
  "erase_sectors off n = [unat (drop_bit 12 off)..<Suc (unat (drop_bit 12 (off + n - 1)))]"

definition bk_flash_erase :: "'c flash_ctl \<Rightarrow> flash_config_t \<Rightarrow> bk_partition \<Rightarrow> u32 \<Rightarrow> u32 \<Rightarrow> 'c \<Rightarrow> 'c c_run" where
  "bk_flash_erase F cfg part off n c =
     (case bk_flash_get_info part of
        None \<Rightarrow> if erase_sectors off n = [] then Ret c else Fault
      | Some info \<Rightarrow>
          Ret (fold (\<lambda>i. flash_do F cfg CMD_FLASH_ERASE_SECTOR (partition_start_addr info + push_bit 12 (of_nat i)))
                 (erase_sectors off n) c))"

definition bk_flash_write :: "'c flash_ctl \<Rightarrow> flash_config_t \<Rightarrow> bk_partition \<Rightarrow> u32 \<Rightarrow> u8 list option \<Rightarrow> 'c \<Rightarrow> 'c c_run" where
  "bk_flash_write F cfg part off in_buffer c =
     (case in_buffer of
        None \<Rightarrow> Assert_Stop
      | Some bs \<Rightarrow>
          (case bk_flash_get_info part of
             None \<Rightarrow> Fault
           | Some info \<Rightarrow> Ret (snd (flash_write F cfg bs (partition_start_addr info + off) c))))"

definition bk_flash_read :: "'c flash_ctl \<Rightarrow> bk_partition \<Rightarrow> u32 \<Rightarrow> bool \<Rightarrow> u32 \<Rightarrow> 'c \<Rightarrow> (u8 list \<times> 'c) c_run" where
  "bk_flash_read F part off buffer_ok n c =
     (if \<not> buffer_ok then Assert_Stop
      else (case bk_flash_get_info part of
              None \<Rightarrow> Fault
            | Some info \<Rightarrow> Ret (snd (flash_read F n (partition_start_addr info + off) c))))"

definition bk_flash_enable_security :: "'c flash_ctl \<Rightarrow> flash_config_t \<Rightarrow> u32 \<Rightarrow> 'c \<Rightarrow> 'c" where
  "bk_flash_enable_security F cfg tp c = flash_do F cfg CMD_FLASH_SET_PROTECT tp c"

section \<open>Rewriting a sector\<close>

text \<open>The sequence that stores a table of one sector: unprotect, erase, write, protect.\<close>

definition net_param_rewrite :: "'c flash_ctl \<Rightarrow> flash_config_t \<Rightarrow> u8 list \<Rightarrow> 'c \<Rightarrow> 'c c_run" where
  "net_param_rewrite F cfg bs c =
     (let c1 = bk_flash_enable_security F cfg FLASH_PROTECT_NONE c in
      case bk_flash_erase F cfg BK_PARTITION_NET_PARAM 0 (of_nat (length bs)) c1 of
        Ret c2 \<Rightarrow>
          (case bk_flash_write F cfg BK_PARTITION_NET_PARAM 0 (Some bs) c2 of
             Ret c3 \<Rightarrow> Ret (bk_flash_enable_security F cfg FLASH_PROTECT_ALL c3)
           | Assert_Stop \<Rightarrow> Assert_Stop | Fault \<Rightarrow> Fault)
      | Assert_Stop \<Rightarrow> Assert_Stop | Fault \<Rightarrow> Fault)"

definition NET_PARAM_BASE :: u32 where "NET_PARAM_BASE = 0x1e1000"

lemma net_param_info:
  "bk_flash_get_info BK_PARTITION_NET_PARAM =
     Some \<lparr>partition_description = ''NET info'', partition_start_addr = NET_PARAM_BASE, partition_length = 0x1000\<rparr>"
  by (simp add: bk7231_partitions_def NET_PARAM_BASE_def)

lemma flash_do_simps:
  assumes "cfg \<in> set flash_config"
  shows "flash_do F cfg CMD_FLASH_SET_PROTECT tp c = set_flash_protect F cfg tp c"
    and "flash_do F cfg CMD_FLASH_ERASE_SECTOR a c = flash_erase_sector F a c"
  using flash_config_line [OF assms]
  by (simp_all add: flash_do_def flash_ctrl_def flash_cmd_do_def line_two_def line_back_def)

lemma one_sector:
  assumes "0 < n" "n \<le> 4096"
  shows "erase_sectors 0 (of_nat n) = [0]"
proof -
  have "unat (of_nat n - 1 :: u32) = n - 1"
    using assms unat_of_nat32 [of "n - 1"] by (cases n) simp_all
  then have "unat (drop_bit 12 (of_nat n - 1 :: u32)) = 0"
    using assms by (simp add: drop_bit_eq_div unat_div)
  then show ?thesis by (simp add: erase_sectors_def)
qed

lemma erase_effect:
  assumes F: "nor_laws F cfg mem sr" and u: "unlocked cfg (sr c)" and a: "a < 16777216"
  shows "mem (flash_erase_sector F a c) = mem_write (mem c) (a AND NOT 0xFFF) (replicate 4096 0xFF) \<and>
    sr (flash_erase_sector F a c) = sr c"
  using F u a unfolding nor_laws_def flash_erase_sector_def by (simp add: op_type_at op_addr_at)

text \<open>Outside the sector nothing changes, inside it holds the bytes written.\<close>

lemma net_param_rewrite_effect:
  assumes F: "nor_laws F cfg mem sr" "sr_laws F sr" "cfg \<in> set flash_config"
    and l: "0 < length bs" "length bs \<le> 4096"
  shows "\<exists>c'. net_param_rewrite F cfg bs c = Ret c' \<and>
    content (mem c') NET_PARAM_BASE (length bs) = bs \<and>
    (\<forall>x. 4096 \<le> unat (x - NET_PARAM_BASE) \<longrightarrow> mem c' x = mem c x)"
proof -
  let ?c1 = "set_flash_protect F cfg FLASH_PROTECT_NONE c"
  let ?c2 = "flash_erase_sector F NET_PARAM_BASE ?c1"
  let ?c3 = "snd (flash_write F cfg bs NET_PARAM_BASE ?c2)"
  let ?c4 = "set_flash_protect F cfg FLASH_PROTECT_ALL ?c3"
  have base: "NET_PARAM_BASE < 16777216" "NET_PARAM_BASE AND NOT 0xFFF = NET_PARAM_BASE"
    "unat NET_PARAM_BASE = 1970176"
    by (simp_all add: NET_PARAM_BASE_def)
  have u: "unlocked cfg (sr ?c1)" by (rule set_flash_protect_none_unlocks [OF F(2,3)])
  have m1: "mem ?c1 = mem c" using F(1) by simp
  have m2: "mem ?c2 = mem_write (mem c) NET_PARAM_BASE (replicate 4096 0xFF)" "sr ?c2 = sr ?c1"
    using erase_effect [OF F(1) u base(1)] base(2) m1 by simp_all
  have m3: "mem ?c3 = nor_write (mem ?c2) NET_PARAM_BASE bs"
    using flash_write_effect [OF F(1) _ F(3), of NET_PARAM_BASE bs ?c2] base l u m2(2) by simp
  have blank: "content (mem ?c2) NET_PARAM_BASE (length bs) = replicate (length bs) 0xFF"
    using content_written [of "replicate 4096 (0xFF :: u8)" "mem c" NET_PARAM_BASE] l(2)
      content_slice [of 0 "length bs" 4096 "mem ?c2" NET_PARAM_BASE] m2(1) by simp
  have m4: "mem ?c4 = mem ?c3" using F(1) by simp
  have "net_param_rewrite F cfg bs c = Ret ?c4"
    using l by (simp add: net_param_rewrite_def bk_flash_enable_security_def flash_do_simps [OF F(3)]
      bk_flash_erase_def bk_flash_write_def one_sector net_param_info del: bk_flash_get_info.simps)
  moreover have "content (mem ?c4) NET_PARAM_BASE (length bs) = bs"
    unfolding m4 m3 using blank l by (intro nor_write_blank) simp_all
  moreover have "mem ?c4 x = mem c x" if "4096 \<le> unat (x - NET_PARAM_BASE)" for x
    unfolding m4 m3 m2(1) using that l by (simp add: nor_write_def mem_write_def)
  ultimately show ?thesis by blast
qed

section \<open>The contract\<close>

text \<open>
  \<open>bytes_at s a n\<close>: the \<open>n\<close> bytes a read at \<open>a\<close> answers, for ranges below \<open>top\<close>. The sector is the
  \<open>room\<close> bytes at \<open>base\<close>.
\<close>

locale param_sector =
  fixes bytes_at :: "'s \<Rightarrow> u32 \<Rightarrow> nat \<Rightarrow> u8 list"
    and rewrite :: "u8 list \<Rightarrow> 's \<Rightarrow> 's option"
    and base :: u32
    and room :: nat
    and top :: nat
    and inv :: "'s \<Rightarrow> bool"
  assumes bytes_split: "inv s \<Longrightarrow> unat a + (n + m) \<le> top \<Longrightarrow>
      bytes_at s a (n + m) = bytes_at s a n @ bytes_at s (a + of_nat n) m"
    and bytes_length: "inv s \<Longrightarrow> unat a + n \<le> top \<Longrightarrow> length (bytes_at s a n) = n"
    and rewrite_holds: "inv s \<Longrightarrow> 0 < length bs \<Longrightarrow> length bs \<le> room \<Longrightarrow>
      \<exists>s'. rewrite bs s = Some s' \<and> inv s' \<and> bytes_at s' base (length bs) = bs"
    and sector_below: "unat base + room \<le> top" "top < 4294967296" "base \<noteq> 0"
begin

lemma bytes_of_parts:
  assumes "inv s" "unat a + (length xs + length ys) \<le> top" "bytes_at s a (length xs + length ys) = xs @ ys"
  shows "bytes_at s a (length xs) = xs" "bytes_at s (a + of_nat (length xs)) (length ys) = ys"
  using assms bytes_split [of s a "length xs" "length ys"] bytes_length [of s a "length xs"] by simp_all

end

definition flash_reader :: "'c flash_ctl \<Rightarrow> 'c \<Rightarrow> u32 \<Rightarrow> u32 \<Rightarrow> u8 list" where
  "flash_reader F c a n = fst (snd (flash_read F n a c))"

definition sector_rewrite :: "'c flash_ctl \<Rightarrow> flash_config_t \<Rightarrow> u8 list \<Rightarrow> 'c \<Rightarrow> 'c option" where
  "sector_rewrite F cfg bs c = (case net_param_rewrite F cfg bs c of Ret c' \<Rightarrow> Some c' | _ \<Rightarrow> None)"

definition flash_ok :: "'c flash_ctl \<Rightarrow> flash_config_t \<Rightarrow> ('c \<Rightarrow> mem) \<Rightarrow> ('c \<Rightarrow> u16) \<Rightarrow> bool" where
  "flash_ok F cfg mem sr \<longleftrightarrow> nor_laws F cfg mem sr \<and> sr_laws F sr \<and> cfg \<in> set flash_config"

lemma flash_reader_content:
  assumes "flash_ok F cfg mem sr" "unat a + n \<le> 16777216"
  shows "flash_reader F c a (of_nat n) = content (mem c) a n"
  using assms flash_read_data_exact [of F cfg mem sr a "of_nat n" c] unat_of_nat32 [of n]
  by (simp add: flash_reader_def flash_read_def flash_ok_def split_beta)

interpretation net_sector: param_sector "\<lambda>c a n. flash_reader F c a (of_nat n)" "sector_rewrite F cfg"
    NET_PARAM_BASE 4096 16777216 "\<lambda>c. flash_ok F cfg mem sr"
proof
  fix c a and n m :: nat
  assume ok: "flash_ok F cfg mem sr"
  show "length (flash_reader F c a (of_nat n)) = n" if "unat a + n \<le> 16777216"
    using flash_reader_content [OF ok that] by simp
  show "flash_reader F c a (of_nat (n + m)) = flash_reader F c a (of_nat n) @ flash_reader F c (a + of_nat n) (of_nat m)"
    if l: "unat a + (n + m) \<le> 16777216"
  proof -
    have "unat (a + of_nat n) + m \<le> 16777216" using unat_add_nat_le [of a n] l by simp
    then show ?thesis
      using flash_reader_content [OF ok l] flash_reader_content [OF ok, of a n] l
        flash_reader_content [OF ok, of "a + of_nat n" m] by (simp add: content_add)
  qed
next
  fix c and bs :: "u8 list"
  assume ok: "flash_ok F cfg mem sr" and l: "0 < length bs" "length bs \<le> 4096"
  then obtain c' where r: "net_param_rewrite F cfg bs c = Ret c'" "content (mem c') NET_PARAM_BASE (length bs) = bs"
    using net_param_rewrite_effect [of F cfg mem sr bs c] by (auto simp: flash_ok_def)
  have "unat NET_PARAM_BASE + length bs \<le> 16777216" using l(2) by (simp add: NET_PARAM_BASE_def)
  with ok r flash_reader_content [OF ok this, of c']
  show "\<exists>c'. sector_rewrite F cfg bs c = Some c' \<and> flash_ok F cfg mem sr \<and>
      flash_reader F c' NET_PARAM_BASE (of_nat (length bs)) = bs"
    by (simp add: sector_rewrite_def)
qed (simp_all add: NET_PARAM_BASE_def)

end
