(* ===== verification/Net_Param.thy ===== *)
theory Net_Param
  imports Bk_Flash "HOL-Library.AList"
begin

text \<open>
  The stored network parameters, \<open>beken378/func/net_param_intf/net_param.c\<close>: a table of typed
  items in one sector of the flash. \<open>rd a n\<close> is what \<open>ddev_read\<close> of the flash answers for
  \<open>n\<close> bytes at \<open>a\<close>; the reads of a call are all taken from the same flash, which they leave as it
  is (\<open>flash_read_exact\<close>).
\<close>

section \<open>Items\<close>

definition INFO_TLV_HEADER :: u32 where "INFO_TLV_HEADER = 0x00564c54"
definition AUTO_CONNECT_ITEM :: u32 where "AUTO_CONNECT_ITEM = 0x11111111"
definition WIFI_MODE_ITEM :: u32 where "WIFI_MODE_ITEM = 0x22222222"
definition DHCP_MODE_ITEM :: u32 where "DHCP_MODE_ITEM = 0x33333333"
definition WIFI_MAC_ITEM :: u32 where "WIFI_MAC_ITEM = 0x44444444"
definition SSID_KEY_ITEM :: u32 where "SSID_KEY_ITEM = 0x55555555"
definition IP_CONFIG_ITEM :: u32 where "IP_CONFIG_ITEM = 0x66666666"

text \<open>\<open>sizeof\<close> of the structures: the header of type and length, and the items with it.\<close>

definition HEAD_SIZE :: nat where "HEAD_SIZE = 8"

definition info_item_len :: "u32 \<Rightarrow> nat" where
  "info_item_len item =
     (if item = AUTO_CONNECT_ITEM \<or> item = WIFI_MODE_ITEM \<or> item = DHCP_MODE_ITEM then 12
      else if item = WIFI_MAC_ITEM then 16
      else if item = SSID_KEY_ITEM then 104
      else if item = IP_CONFIG_ITEM then 56
      else 12)"

type_synonym reader = "u32 \<Rightarrow> u32 \<Rightarrow> u8 list"

definition head_type :: "u8 list \<Rightarrow> u32" where "head_type h = bytes_word (take 4 h)"
definition head_len :: "u8 list \<Rightarrow> u32" where "head_len h = bytes_word (take 4 (drop 4 h))"

section \<open>Searching\<close>

text \<open>\<open>search_info_tbl\<close>: whether there is a table, and its length with the header.\<close>

definition search_info_tbl :: "reader \<Rightarrow> u32 \<Rightarrow> (u32 \<times> u32)" where
  "search_info_tbl rd base =
     (let h = rd base 8 in
      if head_type h = INFO_TLV_HEADER then (1, head_len h + of_nat HEAD_SIZE) else (0, 0))"

text \<open>The loop of \<open>search_info_item\<close>; \<open>None\<close> is a table whose lengths never lead past the end.\<close>

partial_function (option) search_info_loop :: "reader \<Rightarrow> u32 \<Rightarrow> u32 \<Rightarrow> u32 \<Rightarrow> u32 option" where
  "search_info_loop rd item addr end_addr =
     (if addr < end_addr then
        (let h = rd addr 8 in
         if item \<noteq> head_type h then search_info_loop rd item (addr + of_nat HEAD_SIZE + head_len h) end_addr
         else Some addr)
      else Some addr)"

definition search_info_item :: "reader \<Rightarrow> u32 \<Rightarrow> u32 \<Rightarrow> u32 option" where
  "search_info_item rd item start_addr =
     (let addr = start_addr + of_nat HEAD_SIZE;
          end_addr = addr + head_len (rd start_addr 8)
      in map_option (\<lambda>a. if end_addr \<le> a then 0 else a) (search_info_loop rd item addr end_addr))"

section \<open>Reading an item\<close>

text \<open>
  \<open>p0\<close> to \<open>p2\<close> say which pointers are not NULL; the bytes stored through each are the list of
  the answer.
\<close>

definition get_info_item ::
    "reader \<Rightarrow> u32 \<Rightarrow> u32 \<Rightarrow> bool \<Rightarrow> bool \<Rightarrow> bool \<Rightarrow> (u32 \<times> u8 list list) option" where
  "get_info_item rd base item p0 p1 p2 =
     (if fst (search_info_tbl rd base) = 0 then Some (0, [])
      else
        (case search_info_item rd item base of
           None \<Rightarrow> None
         | Some addr_start \<Rightarrow>
             if addr_start = 0 then Some (0, [])
             else
               (let len = head_len (rd addr_start 8);
                    a = addr_start + of_nat HEAD_SIZE
                in if item = AUTO_CONNECT_ITEM \<or> item = WIFI_MODE_ITEM \<or> item = DHCP_MODE_ITEM \<or> item = WIFI_MAC_ITEM
                   then Some (if p0 then (1, [rd a len]) else (0, []))
                   else if item = SSID_KEY_ITEM
                   then Some (if p0 \<and> p1 then (1, [rd a 32, rd (a + 32) 64]) else (0, []))
                   else if item = IP_CONFIG_ITEM
                   then Some (if p0 \<and> p1 \<and> p2 then (1, [rd a 16, rd (a + 16) 16, rd (a + 32) 16]) else (0, []))
                   else Some (0, []))))"

section \<open>Storing an item\<close>

text \<open>
  The bytes copied from the caller's buffers into the item. The lengths are fixed; a buffer that is shorter
  is read beyond its end (\<open>\<not> item_given\<close>, a \<open>Fault\<close> of the copy), so each part stands at its fixed offset.
\<close>

definition item_given :: "u32 \<Rightarrow> u8 list \<Rightarrow> u8 list \<Rightarrow> u8 list \<Rightarrow> bool" where
  "item_given item p0 p1 p2 \<longleftrightarrow>
     (if item = WIFI_MAC_ITEM then 6 \<le> length p0
      else if item = SSID_KEY_ITEM then 32 \<le> length p0 \<and> 64 \<le> length p1
      else if item = IP_CONFIG_ITEM then 16 \<le> length p0 \<and> 16 \<le> length p1 \<and> 16 \<le> length p2
      else 4 \<le> length p0)"

definition item_data :: "u32 \<Rightarrow> u8 list \<Rightarrow> u8 list \<Rightarrow> u8 list \<Rightarrow> u8 list" where
  "item_data item p0 p1 p2 =
     (if item = WIFI_MAC_ITEM then take 6 p0
      else if item = SSID_KEY_ITEM then take 32 p0 @ take 64 p1
      else if item = IP_CONFIG_ITEM then take 16 p0 @ take 16 p1 @ take 16 p2
      else take 4 p0)"

definition head_bytes :: "u32 \<Rightarrow> u32 \<Rightarrow> u8 list" where
  "head_bytes t n = word_bytes t @ word_bytes n"

text \<open>
  The table image that \<open>save_info_item\<close> builds: where the item goes, the buffer before the copies and
  the length for the table header. \<open>malloc\<close> says whether an allocation succeeds. The copies go one
  after the other; one that does not fit into the buffer is a \<open>Fault\<close>.
\<close>

definition save_buffer :: "reader \<Rightarrow> u32 \<Rightarrow> u32 \<Rightarrow> (u32 \<times> u32 \<times> u8 list \<times> u32) option" where
  "save_buffer rd base item =
     (let item_len = of_nat (info_item_len item) :: u32 in
      case search_info_tbl rd base of (found, tbl_len) \<Rightarrow>
      if found = 0 then
        Some (of_nat HEAD_SIZE, of_nat HEAD_SIZE + item_len,
              replicate (unat (of_nat HEAD_SIZE + item_len :: u32)) 0, item_len)
      else
        (case search_info_item rd item base of
           None \<Rightarrow> None
         | Some a \<Rightarrow>
             (let off = (if a = 0 then tbl_len else a - base);
                  len = (if a = 0 then tbl_len + item_len else tbl_len)
              in Some (off, len, blit (replicate (unat len) 0) 0 (rd base tbl_len), len - of_nat HEAD_SIZE))))"

definition put_at :: "u8 list \<Rightarrow> nat \<Rightarrow> u8 list \<Rightarrow> u8 list option" where
  "put_at buf off bs = (if off + length bs \<le> length buf then Some (blit buf off bs) else None)"

definition save_image ::
    "reader \<Rightarrow> u32 \<Rightarrow> (u32 \<Rightarrow> bool) \<Rightarrow> u32 \<Rightarrow> u8 list \<Rightarrow> u8 list \<Rightarrow> u8 list \<Rightarrow> u8 list option c_run option" where
  "save_image rd base malloc item p0 p1 p2 =
     (case save_buffer rd base item of
        None \<Rightarrow> None
      | Some (off, len, buf, hdr_len) \<Rightarrow>
          if \<not> malloc len then Some (Ret None)
          else if \<not> item_given item p0 p1 p2 then Some Fault
          else
            (case put_at buf (unat off + HEAD_SIZE) (item_data item p0 p1 p2) of
               None \<Rightarrow> Some Fault
             | Some b1 \<Rightarrow>
                 (case put_at b1 (unat off) (head_bytes item (of_nat (info_item_len item - HEAD_SIZE))) of
                    None \<Rightarrow> Some Fault
                  | Some b2 \<Rightarrow>
                      (case put_at b2 0 (head_bytes INFO_TLV_HEADER hdr_len) of
                         None \<Rightarrow> Some Fault
                       | Some b3 \<Rightarrow> Some (Ret (Some b3))))))"

definition save_info_item ::
    "'c flash_ctl \<Rightarrow> flash_config_t \<Rightarrow> (u32 \<Rightarrow> bool) \<Rightarrow> u32 \<Rightarrow> u8 list \<Rightarrow> u8 list \<Rightarrow> u8 list \<Rightarrow> 'c
      \<Rightarrow> (u32 \<times> 'c) c_run option" where
  "save_info_item F cfg malloc item p0 p1 p2 c =
     (case save_image (flash_reader F c) NET_PARAM_BASE malloc item p0 p1 p2 of
        None \<Rightarrow> None
      | Some Assert_Stop \<Rightarrow> Some Assert_Stop
      | Some Fault \<Rightarrow> Some Fault
      | Some (Ret None) \<Rightarrow> Some (Ret (0, c))
      | Some (Ret (Some buf)) \<Rightarrow>
          (case net_param_rewrite F cfg buf c of
             Ret c' \<Rightarrow> Some (Ret (1, c'))
           | Assert_Stop \<Rightarrow> Some Assert_Stop | Fault \<Rightarrow> Some Fault))"

section \<open>Tables\<close>

text \<open>What the caller of \<open>get_info_item\<close> finds in its buffers when the item holds \<open>p\<close>.\<close>

definition get_spec :: "u32 \<Rightarrow> u8 list \<Rightarrow> bool \<Rightarrow> bool \<Rightarrow> bool \<Rightarrow> u32 \<times> u8 list list" where
  "get_spec item p p0 p1 p2 =
     (if item = AUTO_CONNECT_ITEM \<or> item = WIFI_MODE_ITEM \<or> item = DHCP_MODE_ITEM \<or> item = WIFI_MAC_ITEM
      then (if p0 then (1, [p]) else (0, []))
      else if item = SSID_KEY_ITEM
      then (if p0 \<and> p1 then (1, [take 32 p, take 64 (drop 32 p)]) else (0, []))
      else if item = IP_CONFIG_ITEM
      then (if p0 \<and> p1 \<and> p2 then (1, [take 16 p, take 16 (drop 16 p), take 16 (drop 32 p)]) else (0, []))
      else (0, []))"

text \<open>What \<open>save_info_item\<close> makes of an item: the data over its old payload, or over zeros.\<close>

definition new_payload :: "u32 \<Rightarrow> u8 list option \<Rightarrow> u8 list \<Rightarrow> u8 list \<Rightarrow> u8 list \<Rightarrow> u8 list" where
  "new_payload item old p0 p1 p2 =
     blit (case old of Some p \<Rightarrow> p | None \<Rightarrow> replicate (info_item_len item - HEAD_SIZE) 0) 0 (item_data item p0 p1 p2)"

definition item_bytes :: "u32 \<times> u8 list \<Rightarrow> u8 list" where
  "item_bytes tp = head_bytes (fst tp) (of_nat (length (snd tp))) @ snd tp"

definition tbl_body :: "(u32 \<times> u8 list) list \<Rightarrow> u8 list" where
  "tbl_body items = concat (map item_bytes items)"

definition tbl_bytes :: "(u32 \<times> u8 list) list \<Rightarrow> u8 list" where
  "tbl_bytes items = head_bytes INFO_TLV_HEADER (of_nat (length (tbl_body items))) @ tbl_body items"

definition tbl_wf :: "nat \<Rightarrow> (u32 \<times> u8 list) list \<Rightarrow> bool" where
  "tbl_wf room items \<longleftrightarrow> distinct (map fst items) \<and> length (tbl_bytes items) \<le> room \<and>
     list_all (\<lambda>(t, p). HEAD_SIZE + length p = info_item_len t) items"

lemmas item_ids = AUTO_CONNECT_ITEM_def WIFI_MODE_ITEM_def DHCP_MODE_ITEM_def WIFI_MAC_ITEM_def
  SSID_KEY_ITEM_def IP_CONFIG_ITEM_def

lemma item_ids_distinct [simp]:
  "AUTO_CONNECT_ITEM \<noteq> WIFI_MODE_ITEM" "AUTO_CONNECT_ITEM \<noteq> DHCP_MODE_ITEM" "AUTO_CONNECT_ITEM \<noteq> WIFI_MAC_ITEM" "AUTO_CONNECT_ITEM \<noteq> SSID_KEY_ITEM" "AUTO_CONNECT_ITEM \<noteq> IP_CONFIG_ITEM"
  "WIFI_MODE_ITEM \<noteq> AUTO_CONNECT_ITEM" "WIFI_MODE_ITEM \<noteq> DHCP_MODE_ITEM" "WIFI_MODE_ITEM \<noteq> WIFI_MAC_ITEM" "WIFI_MODE_ITEM \<noteq> SSID_KEY_ITEM" "WIFI_MODE_ITEM \<noteq> IP_CONFIG_ITEM"
  "DHCP_MODE_ITEM \<noteq> AUTO_CONNECT_ITEM" "DHCP_MODE_ITEM \<noteq> WIFI_MODE_ITEM" "DHCP_MODE_ITEM \<noteq> WIFI_MAC_ITEM" "DHCP_MODE_ITEM \<noteq> SSID_KEY_ITEM" "DHCP_MODE_ITEM \<noteq> IP_CONFIG_ITEM"
  "WIFI_MAC_ITEM \<noteq> AUTO_CONNECT_ITEM" "WIFI_MAC_ITEM \<noteq> WIFI_MODE_ITEM" "WIFI_MAC_ITEM \<noteq> DHCP_MODE_ITEM" "WIFI_MAC_ITEM \<noteq> SSID_KEY_ITEM" "WIFI_MAC_ITEM \<noteq> IP_CONFIG_ITEM"
  "SSID_KEY_ITEM \<noteq> AUTO_CONNECT_ITEM" "SSID_KEY_ITEM \<noteq> WIFI_MODE_ITEM" "SSID_KEY_ITEM \<noteq> DHCP_MODE_ITEM" "SSID_KEY_ITEM \<noteq> WIFI_MAC_ITEM" "SSID_KEY_ITEM \<noteq> IP_CONFIG_ITEM"
  "IP_CONFIG_ITEM \<noteq> AUTO_CONNECT_ITEM" "IP_CONFIG_ITEM \<noteq> WIFI_MODE_ITEM" "IP_CONFIG_ITEM \<noteq> DHCP_MODE_ITEM" "IP_CONFIG_ITEM \<noteq> WIFI_MAC_ITEM" "IP_CONFIG_ITEM \<noteq> SSID_KEY_ITEM"
  by (simp_all add: item_ids)

lemma head_simps [simp]:
  "length (head_bytes t n) = 8" "head_type (head_bytes t n @ xs) = t" "head_len (head_bytes t n @ xs) = n"
  "head_type (head_bytes t n) = t" "head_len (head_bytes t n) = n"
  by (simp_all add: head_bytes_def head_type_def head_len_def)

lemma tbl_body_simps [simp]:
  "tbl_body [] = []" "tbl_body ((t, p) # its) = head_bytes t (of_nat (length p)) @ p @ tbl_body its"
  "tbl_body (xs @ ys) = tbl_body xs @ tbl_body ys"
  by (simp_all add: tbl_body_def item_bytes_def)

lemma length_tbl_bytes [simp]: "length (tbl_bytes its) = 8 + length (tbl_body its)"
  by (simp add: tbl_bytes_def)

lemma blit_middle: "length ys' = length ys \<Longrightarrow> blit (xs @ ys @ zs) (length xs) ys' = xs @ ys' @ zs"
  by (simp add: blit_def)

lemma blit_after: "blit (xs @ ys) (length xs + k) d = xs @ blit ys k d"
  by (simp add: blit_def)

lemma blit_front: "length ys' = length ys \<Longrightarrow> blit (ys @ zs) 0 ys' = ys' @ zs"
  using blit_middle [of ys' ys "[]" zs] by simp

lemma blit_inside: "k + length d \<le> length ys \<Longrightarrow> blit (ys @ zs) k d = blit ys k d @ zs"
  by (simp add: blit_def)

lemma update_there: "k \<notin> fst ` set pre \<Longrightarrow> AList.update k v' (pre @ (k, v) # post) = pre @ (k, v') # post"
  by (induction pre) auto

lemma update_new: "k \<notin> fst ` set al \<Longrightarrow> AList.update k v al = al @ [(k, v)]"
  by (induction al) auto

fun item_off :: "u32 \<Rightarrow> (u32 \<times> u8 list) list \<Rightarrow> nat" where
  "item_off item [] = 0"
| "item_off item ((t, p) # its) = (if t = item then 0 else 8 + length p + item_off item its)"

lemma item_off_there: "k \<notin> fst ` set pre \<Longrightarrow> item_off k (pre @ (k, v) # post) = length (tbl_body pre)"
  by (induction pre) auto

lemma item_off_new: "k \<notin> fst ` set al \<Longrightarrow> item_off k al = length (tbl_body al)"
  by (induction al) auto

lemma item_off_less: "k \<in> fst ` set its \<Longrightarrow> item_off k its + 8 \<le> length (tbl_body its)"
  by (induction its) (fastforce simp: image_iff)+

lemma item_data_fits: "length (item_data item p0 p1 p2) \<le> info_item_len item - HEAD_SIZE"
  by (auto simp: item_data_def info_item_len_def HEAD_SIZE_def)

lemma info_item_len_bounds: "12 \<le> info_item_len item" "info_item_len item \<le> 104"
  by (auto simp: info_item_len_def)

text \<open>The three copies of \<open>save_info_item\<close>, into a buffer with room for the item after \<open>pre\<close>.\<close>

lemma put_item:
  assumes "length hda = 8" "length hdb = 8" "length d \<le> length q" "length h = 8" "length hd' = 8"
    and buf: "buf = hda @ pre @ hdb @ q @ post" and off: "off = 8 + length pre"
  shows "put_at buf (off + HEAD_SIZE) d = Some (hda @ pre @ hdb @ blit q 0 d @ post)"
    and "put_at (hda @ pre @ hdb @ blit q 0 d @ post) off hd' = Some (hda @ pre @ hd' @ blit q 0 d @ post)"
    and "put_at (hda @ pre @ hd' @ blit q 0 d @ post) 0 h = Some (h @ pre @ hd' @ blit q 0 d @ post)"
proof -
  have "blit buf (off + HEAD_SIZE) d = hda @ pre @ hdb @ blit (q @ post) 0 d"
    using blit_after [of "hda @ pre @ hdb" "q @ post" 0 d] assms by (simp add: HEAD_SIZE_def add.assoc)
  then show "put_at buf (off + HEAD_SIZE) d = Some (hda @ pre @ hdb @ blit q 0 d @ post)"
    using assms by (simp add: put_at_def blit_inside HEAD_SIZE_def)
  have "blit (hda @ pre @ hdb @ blit q 0 d @ post) off hd' = hda @ pre @ hd' @ blit q 0 d @ post"
    using blit_middle [of hd' hdb "hda @ pre" "blit q 0 d @ post"] assms by simp
  then show "put_at (hda @ pre @ hdb @ blit q 0 d @ post) off hd' = Some (hda @ pre @ hd' @ blit q 0 d @ post)"
    using assms by (simp add: put_at_def)
  show "put_at (hda @ pre @ hd' @ blit q 0 d @ post) 0 h = Some (h @ pre @ hd' @ blit q 0 d @ post)"
    using assms by (simp add: put_at_def blit_front)
qed

lemma save_imageI:
  assumes sb: "save_buffer rd base item = Some (off, len, buf, hdr_len)" and m: "malloc len"
    and buf: "buf = hda @ tbl_body pre @ hdb @ q @ tbl_body post" "length hda = 8" "length hdb = 8"
    and q: "length q = info_item_len item - HEAD_SIZE" and off: "unat off = 8 + length (tbl_body pre)"
    and items: "items = pre @ (item, blit q 0 (item_data item p0 p1 p2)) # post"
    and hdr: "hdr_len = of_nat (length (tbl_body items))"
  shows "save_image rd base malloc item p0 p1 p2 =
     Some (if item_given item p0 p1 p2 then Ret (Some (tbl_bytes items)) else Fault)"
proof -
  have fit: "length (item_data item p0 p1 p2) \<le> length q" using item_data_fits q by simp
  note puts = put_item [OF buf(2,3) fit _ _ buf(1) off, of "head_bytes INFO_TLV_HEADER hdr_len"
      "head_bytes item (of_nat (info_item_len item - HEAD_SIZE))"]
  have "length (blit q 0 (item_data item p0 p1 p2)) = info_item_len item - HEAD_SIZE"
    using fit q by simp
  then show ?thesis
    unfolding save_image_def sb using m puts by (simp add: items hdr tbl_bytes_def)
qed

context param_sector
begin

definition reader_of :: "'s \<Rightarrow> reader" where
  "reader_of s a n = bytes_at s a (unat n)"

lemma reader_8 [simp]: "reader_of s a 8 = bytes_at s a 8"
  by (simp add: reader_of_def)

lemma search_loop_tbl:
  "bytes_at s a (length (tbl_body its)) = tbl_body its \<Longrightarrow> inv s \<Longrightarrow> unat a + length (tbl_body its) \<le> top \<Longrightarrow>
   search_info_loop (reader_of s) item a (a + of_nat (length (tbl_body its))) = Some (a + of_nat (item_off item its))"
proof (induction its arbitrary: a)
  case Nil
  then show ?case by (subst search_info_loop.simps) simp
next
  case (Cons tp its)
  obtain t p where tp: "tp = (t, p)" by fastforce
  let ?n = "length (tbl_body (tp # its))"
  have parts: "bytes_at s a 8 = head_bytes t (of_nat (length p))"
    "bytes_at s (a + of_nat (8 + length p)) (length (tbl_body its)) = tbl_body its"
    using Cons.prems bytes_of_parts [of s a "head_bytes t (of_nat (length p))" "p @ tbl_body its"]
      bytes_of_parts(2) [of s a "head_bytes t (of_nat (length p)) @ p" "tbl_body its"]
    by (simp_all add: tp add.assoc)
  have lt: "a < a + of_nat ?n"
    using Cons.prems(3) sector_below(2) unfolding word_less_nat_alt
    by (simp add: tp unat_word_ariths unat_of_nat32)
  have "unat (a + of_nat (8 + length p)) + length (tbl_body its) \<le> top"
    using Cons.prems(3) unat_add_nat_le [of a "8 + length p"] by (simp add: tp)
  from Cons.IH [OF parts(2) Cons.prems(2) this] show ?case
    using lt parts(1) by (subst search_info_loop.simps)
      (simp add: tp HEAD_SIZE_def Let_def algebra_simps)
qed

text \<open>\<open>held s items\<close>: the sector holds the table of the items.\<close>

definition held :: "'s \<Rightarrow> (u32 \<times> u8 list) list \<Rightarrow> bool" where
  "held s items \<longleftrightarrow> inv s \<and> tbl_wf room items \<and> bytes_at s base (length (tbl_bytes items)) = tbl_bytes items"

lemma reader_of_nat: "n < 4294967296 \<Longrightarrow> reader_of s a (of_nat n) = bytes_at s a n"
  by (simp add: reader_of_def unat_of_nat32)

lemma held_head:
  assumes "held s items"
  shows "bytes_at s base 8 = head_bytes INFO_TLV_HEADER (of_nat (length (tbl_body items)))"
    and "bytes_at s (base + 8) (length (tbl_body items)) = tbl_body items"
  using assms sector_below(1)
    bytes_of_parts [of s base "head_bytes INFO_TLV_HEADER (of_nat (length (tbl_body items)))" "tbl_body items"]
  by (simp_all add: held_def tbl_bytes_def tbl_wf_def)

lemma held_search_tbl:
  "held s items \<Longrightarrow> search_info_tbl (reader_of s) base = (1, of_nat (length (tbl_bytes items)))"
  using held_head(1) by (simp add: search_info_tbl_def HEAD_SIZE_def Let_def add.commute)

lemma held_search_item:
  assumes h: "held s items"
  shows "search_info_item (reader_of s) item base =
      Some (if item \<in> fst ` set items then base + 8 + of_nat (item_off item items) else 0)"
proof -
  let ?n = "length (tbl_body items)"
  have room: "unat base + 8 + ?n \<le> top" "unat base + 8 + ?n < 4294967296"
    using h sector_below by (simp_all add: held_def tbl_wf_def)
  have at: "unat (base + 8 + of_nat k) = unat base + 8 + k" if "k \<le> ?n" for k
    using room that by (simp add: unat_word_ariths unat_of_nat32)
  have loop: "search_info_loop (reader_of s) item (base + 8) (base + 8 + of_nat ?n) =
      Some (base + 8 + of_nat (item_off item items))"
    using room at [of 0] h by (intro search_loop_tbl held_head(2) [OF h]) (simp_all add: held_def)
  show ?thesis
  proof (cases "item \<in> fst ` set items")
    case True
    then have "item_off item items < ?n" using item_off_less by fastforce
    then have "\<not> base + 8 + of_nat ?n \<le> base + 8 + of_nat (item_off item items)"
      unfolding word_le_nat_alt using at by simp
    with True loop held_head(1) [OF h] show ?thesis
      by (simp add: search_info_item_def HEAD_SIZE_def Let_def)
  next
    case False
    with loop held_head(1) [OF h] show ?thesis
      by (simp add: search_info_item_def HEAD_SIZE_def Let_def item_off_new)
  qed
qed

text \<open>Where the item lies.\<close>

lemma held_item:
  assumes h: "held s items" and l: "map_of items item = Some p"
  shows "\<exists>pre post. items = pre @ (item, p) # post \<and> item \<notin> fst ` set pre \<and> item_off item items = length (tbl_body pre) \<and>
    bytes_at s (base + 8 + of_nat (item_off item items)) 8 = head_bytes item (of_nat (length p)) \<and>
    bytes_at s (base + 8 + of_nat (item_off item items) + 8) (length p) = p \<and>
    unat (base + 8 + of_nat (item_off item items) + 8) + length p \<le> top"
proof -
  have "(item, p) \<in> set items" "distinct (map fst items)"
    using h l by (auto dest: map_of_SomeD simp: held_def tbl_wf_def)
  then obtain pre post where items: "items = pre @ (item, p) # post" "item \<notin> fst ` set pre"
    by (fastforce dest!: split_list)
  have off: "item_off item items = length (tbl_body pre)" using items by (simp add: item_off_there)
  let ?a = "base + 8 + of_nat (length (tbl_body pre))"
  have inv: "inv s" and r: "unat base + 8 + (length (tbl_body pre) + (8 + (length p + length (tbl_body post)))) \<le> top"
    using h sector_below(1) by (simp_all add: held_def tbl_wf_def items)
  have a8: "unat (base + 8) \<le> unat base + 8" "unat ?a \<le> unat base + 8 + length (tbl_body pre)"
      "unat (?a + 8) \<le> unat base + 8 + length (tbl_body pre) + 8"
    using unat_add_nat_le [of base 8] unat_add_nat_le [of "base + 8" "length (tbl_body pre)"]
      unat_add_nat_le [of ?a 8] by simp_all
  have "bytes_at s (base + 8) (length (tbl_body pre) + (8 + (length p + length (tbl_body post)))) =
      tbl_body pre @ head_bytes item (of_nat (length p)) @ p @ tbl_body post"
    using held_head(2) [OF h] by (simp add: items add.assoc)
  then have "bytes_at s ?a (8 + (length p + length (tbl_body post))) =
      head_bytes item (of_nat (length p)) @ p @ tbl_body post"
    using bytes_of_parts(2) [OF inv, of "base + 8" "tbl_body pre" "head_bytes item (of_nat (length p)) @ p @ tbl_body post"]
      r a8 by simp
  then have "bytes_at s ?a 8 = head_bytes item (of_nat (length p))"
    "bytes_at s (?a + 8) (length p + length (tbl_body post)) = p @ tbl_body post"
    using bytes_of_parts [OF inv, of ?a "head_bytes item (of_nat (length p))" "p @ tbl_body post"] r a8 by simp_all
  then show ?thesis
    using items off bytes_of_parts(1) [OF inv, of "?a + 8" p "tbl_body post"] r a8 by auto
qed

lemma held_addr_nonzero:
  assumes "held s items" "item \<in> fst ` set items"
  shows "base + 8 + of_nat (item_off item items) \<noteq> 0"
proof -
  have "item_off item items < length (tbl_body items)" using item_off_less [OF assms(2)] by simp
  then have "unat (base + 8 + of_nat (item_off item items)) = unat base + 8 + item_off item items"
    using assms sector_below by (simp add: held_def tbl_wf_def unat_word_ariths unat_of_nat32)
  then show ?thesis by (metis add_is_0 unat_eq_zero zero_neq_numeral)
qed

lemma bytes_slice:
  assumes inv: "inv s" and r: "unat a + length p \<le> top" and at: "bytes_at s a (length p) = p" and km: "k + m \<le> length p"
  shows "bytes_at s (a + of_nat k) m = take m (drop k p)"
proof -
  have l: "k + (m + (length p - k - m)) = length p" using km by simp
  have u: "unat (a + of_nat k) \<le> unat a + k" by (rule unat_add_nat_le)
  have "p = bytes_at s a k @ bytes_at s (a + of_nat k) m @ bytes_at s (a + of_nat k + of_nat m) (length p - k - m)"
    using at bytes_split [OF inv, of a k "m + (length p - k - m)"] r u
      bytes_split [OF inv, of "a + of_nat k" m "length p - k - m"] l by simp
  then have "take m (drop k p) = take m (drop k (bytes_at s a k @ bytes_at s (a + of_nat k) m @
      bytes_at s (a + of_nat k + of_nat m) (length p - k - m)))" by simp
  also have "\<dots> = bytes_at s (a + of_nat k) m"
    using bytes_length [OF inv, of a k] bytes_length [OF inv, of "a + of_nat k" m] r u km by simp
  finally show ?thesis by simp
qed

definition stored :: "'s \<Rightarrow> (u32 \<times> u8 list) list \<Rightarrow> bool" where
  "stored s items \<longleftrightarrow> held s items \<or> inv s \<and> items = [] \<and> head_type (bytes_at s base 8) \<noteq> INFO_TLV_HEADER"

lemma stored_get:
  assumes s: "stored s items"
  shows "get_info_item (reader_of s) base item p0 p1 p2 =
    Some (case map_of items item of None \<Rightarrow> (0, []) | Some p \<Rightarrow> get_spec item p p0 p1 p2)"
proof (cases "held s items")
  case False
  with s show ?thesis by (simp add: stored_def get_info_item_def search_info_tbl_def)
next
  case h: True
  show ?thesis
  proof (cases "map_of items item")
    case None
    then have "item \<notin> fst ` set items" by (simp add: map_of_eq_None_iff)
    with None h show ?thesis
      by (simp add: get_info_item_def held_search_tbl held_search_item [OF h])
  next
    case (Some p)
    let ?a = "base + 8 + of_nat (item_off item items)"
    have k: "item \<in> fst ` set items" using Some by (metis map_of_eq_None_iff option.distinct(1))
    note nz = held_addr_nonzero [OF h k]
    have at: "bytes_at s ?a 8 = head_bytes item (of_nat (length p))" "bytes_at s (?a + 8) (length p) = p"
      "unat (?a + 8) + length p \<le> top" "inv s"
      using h held_item [OF h Some] by (auto simp: held_def)
    have len: "8 + length p = info_item_len item"
      using h Some by (auto simp: held_def tbl_wf_def list_all_iff HEAD_SIZE_def dest!: map_of_SomeD)
    have small: "length p < 4294967296" using len by (simp add: info_item_len_def split: if_splits)
    have rd: "reader_of s (?a + 8 + of_nat k) (of_nat m) = take m (drop k p)" if "k + m \<le> length p" for k m
      using bytes_slice [OF at(4,3,2) that] that small by (simp add: reader_of_nat)
    have get: "get_info_item (reader_of s) base item p0 p1 p2 =
        (if item = AUTO_CONNECT_ITEM \<or> item = WIFI_MODE_ITEM \<or> item = DHCP_MODE_ITEM \<or> item = WIFI_MAC_ITEM
         then Some (if p0 then (1, [reader_of s (?a + 8) (of_nat (length p))]) else (0, []))
         else if item = SSID_KEY_ITEM
         then Some (if p0 \<and> p1 then (1, [reader_of s (?a + 8) 32, reader_of s (?a + 8 + 32) 64]) else (0, []))
         else if item = IP_CONFIG_ITEM
         then Some (if p0 \<and> p1 \<and> p2 then (1, [reader_of s (?a + 8) 16, reader_of s (?a + 8 + 16) 16,
             reader_of s (?a + 8 + 32) 16]) else (0, []))
         else Some (0, []))"
      using k nz at(1) unfolding get_info_item_def held_search_item [OF h] held_search_tbl [OF h]
      by (simp only: fst_conv one_neq_zero if_False option.case if_True Let_def reader_8 head_simps HEAD_SIZE_def of_nat_numeral)
    have lens: "item = SSID_KEY_ITEM \<Longrightarrow> length p = 96" "item = IP_CONFIG_ITEM \<Longrightarrow> length p = 48"
      using len by (simp_all add: info_item_len_def item_ids)
    consider "item = AUTO_CONNECT_ITEM \<or> item = WIFI_MODE_ITEM \<or> item = DHCP_MODE_ITEM \<or> item = WIFI_MAC_ITEM"
      | "item = SSID_KEY_ITEM" "length p = 96" | "item = IP_CONFIG_ITEM" "length p = 48"
      | "item \<notin> {AUTO_CONNECT_ITEM, WIFI_MODE_ITEM, DHCP_MODE_ITEM, WIFI_MAC_ITEM, SSID_KEY_ITEM, IP_CONFIG_ITEM}"
      using lens by blast
    then show ?thesis
    proof cases
      case 1
      with Some get rd [of 0 "length p"] show ?thesis by (simp add: get_spec_def)
    next
      case 2
      with Some get rd [of 0 32] rd [of 32 64] show ?thesis by (simp add: get_spec_def)
    next
      case 3
      with Some get rd [of 0 16] rd [of 16 16] rd [of 32 16] show ?thesis by (simp add: get_spec_def)
    next
      case 4
      with Some get show ?thesis by (simp add: get_spec_def)
    qed
  qed
qed

lemma stored_save:
  assumes s: "stored s items"
    and items': "items' = AList.update item (new_payload item (map_of items item) p0 p1 p2) items"
    and wf: "tbl_wf room items'" and m: "malloc (of_nat (length (tbl_bytes items')))"
  shows "save_image (reader_of s) base malloc item p0 p1 p2 =
     Some (if item_given item p0 p1 p2 then Ret (Some (tbl_bytes items')) else Fault)"
proof -
  let ?il = "info_item_len item" and ?d = "item_data item p0 p1 p2"
  let ?z = "replicate (?il - 8) (0 :: u8)"
  have il: "12 \<le> ?il" "?il \<le> 104" by (rule info_item_len_bounds)+
  have zs: "replicate ?il (0 :: u8) = replicate 8 0 @ ?z"
    using il(1) by (simp flip: replicate_add)
  have new: "tbl_body (items @ [(item, blit ?z 0 ?d)]) = tbl_body items @ head_bytes item (of_nat (?il - 8)) @ blit ?z 0 ?d"
    using item_data_fits [of item p0 p1 p2] by (simp add: HEAD_SIZE_def)
  consider (fresh) "items = []" "head_type (bytes_at s base 8) \<noteq> INFO_TLV_HEADER"
    | (add) "held s items" "item \<notin> fst ` set items"
    | (over) p where "held s items" "map_of items item = Some p"
    using s unfolding stored_def by (metis map_of_eq_None_iff not_Some_eq)
  then show ?thesis
  proof cases
    case fresh
    have sb: "save_buffer (reader_of s) base item =
        Some (8, of_nat (8 + ?il), replicate 8 0 @ tbl_body [] @ replicate 8 0 @ ?z @ tbl_body [], of_nat ?il)"
      using fresh il unat_of_nat32 [of "8 + ?il"] zs
      by (simp add: save_buffer_def search_info_tbl_def HEAD_SIZE_def Let_def replicate_add)
    have it: "items' = [] @ (item, blit ?z 0 ?d) # []"
      using fresh by (simp add: items' new_payload_def HEAD_SIZE_def)
    show ?thesis
    proof (rule save_imageI [OF sb _ refl _ _ _ _ it])
      show "malloc (of_nat (8 + ?il))" using m il item_data_fits [of item p0 p1 p2] by (simp add: it HEAD_SIZE_def)
      show "of_nat ?il = (of_nat (length (tbl_body items')) :: u32)"
        using il item_data_fits [of item p0 p1 p2] by (simp add: it HEAD_SIZE_def)
    qed (simp_all add: HEAD_SIZE_def)
  next
    case add
    have it: "items' = items @ (item, blit ?z 0 ?d) # []"
      using add by (simp add: items' update_new new_payload_def HEAD_SIZE_def map_of_eq_None_iff [THEN iffD2])
    then have l': "length (tbl_bytes items') = length (tbl_bytes items) + ?il"
      using il item_data_fits [of item p0 p1 p2] by (simp add: HEAD_SIZE_def)
    then have l: "length (tbl_bytes items) + ?il < 4294967296" using wf sector_below by (simp add: tbl_wf_def)
    have "reader_of s base (of_nat (length (tbl_bytes items))) = tbl_bytes items"
      using l add(1) by (subst reader_of_nat) (simp_all add: held_def)
    moreover have "unat (of_nat (length (tbl_bytes items)) + of_nat ?il :: u32) = length (tbl_bytes items) + ?il"
      using l unat_of_nat32 [of "length (tbl_bytes items) + ?il"] by simp
    moreover have "blit (replicate (length (tbl_bytes items) + ?il) 0) 0 (tbl_bytes items) = tbl_bytes items @ replicate ?il 0"
      by (simp add: blit_def)
    ultimately have sb: "save_buffer (reader_of s) base item =
        Some (of_nat (length (tbl_bytes items)), of_nat (length (tbl_bytes items')),
          head_bytes INFO_TLV_HEADER (of_nat (length (tbl_body items))) @ tbl_body items @ replicate 8 0 @ ?z @ tbl_body [],
          of_nat (length (tbl_bytes items')) - 8)"
      using add unfolding save_buffer_def held_search_tbl [OF add(1)] held_search_item [OF add(1)] l'
      by (simp add: tbl_bytes_def HEAD_SIZE_def Let_def zs)
    show ?thesis
    proof (rule save_imageI [where malloc = malloc and pre = items and post = "[]" and q = ?z and hdb = "replicate 8 0"
          and hda = "head_bytes INFO_TLV_HEADER (of_nat (length (tbl_body items)))", OF sb m refl])
      show "unat (of_nat (length (tbl_bytes items)) :: u32) = 8 + length (tbl_body items)"
        using l unat_of_nat32 [of "length (tbl_bytes items)"] by simp
    qed (use it in \<open>simp_all add: HEAD_SIZE_def\<close>)
  next
    case over
    then obtain pre post where at: "items = pre @ (item, p) # post" "item \<notin> fst ` set pre"
      "item_off item items = length (tbl_body pre)"
      using held_item by metis
    have it: "items' = pre @ (item, blit p 0 ?d) # post"
      using at over(2) by (simp add: items' update_there new_payload_def)
    have len: "length p = ?il - 8" "length ?d \<le> length p"
      using over at(1) item_data_fits [of item p0 p1 p2] by (auto simp: held_def tbl_wf_def HEAD_SIZE_def)
    then have l': "length (tbl_bytes items') = length (tbl_bytes items)" by (simp add: it at(1))
    then have l: "length (tbl_bytes items) < 4294967296" using wf sector_below by (simp add: tbl_wf_def)
    have "reader_of s base (of_nat (length (tbl_bytes items))) = tbl_bytes items"
      using l over(1) by (subst reader_of_nat) (simp_all add: held_def)
    moreover have "blit (replicate (length (tbl_bytes items)) 0) 0 (tbl_bytes items) = tbl_bytes items"
      by (simp add: blit_def)
    moreover have "base + 8 + of_nat (item_off item items) \<noteq> 0"
      using held_addr_nonzero [OF over(1)] at(1) by simp
    ultimately have sb: "save_buffer (reader_of s) base item =
        Some (8 + of_nat (length (tbl_body pre)), of_nat (length (tbl_bytes items')),
          head_bytes INFO_TLV_HEADER (of_nat (length (tbl_body items))) @ tbl_body pre @
            head_bytes item (of_nat (length p)) @ p @ tbl_body post,
          of_nat (length (tbl_bytes items')) - 8)"
      using at l unat_of_nat32 [OF l]
      unfolding save_buffer_def held_search_tbl [OF over(1)] held_search_item [OF over(1)] l'
      by (simp add: tbl_bytes_def HEAD_SIZE_def Let_def)
    show ?thesis
    proof (rule save_imageI [where malloc = malloc and pre = pre and post = post and q = p and hdb = "head_bytes item (of_nat (length p))"
          and hda = "head_bytes INFO_TLV_HEADER (of_nat (length (tbl_body items)))", OF sb m refl])
      have "8 + length (tbl_body pre) < 4294967296" using l at(1) by simp
      then show "unat (8 + of_nat (length (tbl_body pre)) :: u32) = 8 + length (tbl_body pre)"
        using unat_of_nat32 [of "8 + length (tbl_body pre)"] by simp
    qed (use it len at in \<open>simp_all add: HEAD_SIZE_def\<close>)
  qed
qed

lemma stored_save_effect:
  assumes s: "stored s items"
    and items': "items' = AList.update item (new_payload item (map_of items item) p0 p1 p2) items"
    and wf: "tbl_wf room items'" and m: "malloc (of_nat (length (tbl_bytes items')))"
  shows "\<exists>s'. save_image (reader_of s) base malloc item p0 p1 p2 =
      Some (if item_given item p0 p1 p2 then Ret (Some (tbl_bytes items')) else Fault) \<and>
    rewrite (tbl_bytes items') s = Some s' \<and> stored s' items'"
proof -
  have "inv s" using s by (auto simp: stored_def held_def)
  then obtain s' where "rewrite (tbl_bytes items') s = Some s'" "inv s'"
      "bytes_at s' base (length (tbl_bytes items')) = tbl_bytes items'"
    using rewrite_holds [of s "tbl_bytes items'"] wf by (auto simp: tbl_wf_def)
  then show ?thesis using stored_save [OF s items' wf, of malloc] m wf by (auto simp: stored_def held_def)
qed

end

section \<open>The parameters in the flash\<close>

text \<open>The table of items in the parameter sector; a sector without a table holds no items.\<close>

definition param_table :: "'c flash_ctl \<Rightarrow> 'c \<Rightarrow> (u32 \<times> u8 list) list \<Rightarrow> bool" where
  "param_table F c items \<longleftrightarrow>
     tbl_wf 4096 items \<and> flash_reader F c NET_PARAM_BASE (of_nat (length (tbl_bytes items))) = tbl_bytes items \<or>
     items = [] \<and> head_type (flash_reader F c NET_PARAM_BASE 8) \<noteq> INFO_TLV_HEADER"

lemma param_table_stored:
  "flash_ok F cfg mem sr \<Longrightarrow>
    param_sector.stored (\<lambda>c a n. flash_reader F c a (of_nat n)) NET_PARAM_BASE 4096 (\<lambda>c. flash_ok F cfg mem sr) c items =
    param_table F c items"
  unfolding net_sector.stored_def net_sector.held_def param_table_def by auto

lemma sector_reader: "param_sector.reader_of (\<lambda>c a n. flash_reader F c a (of_nat n)) c = flash_reader F c"
  by (rule ext)+ (simp add: net_sector.reader_of_def)

lemma param_table_get:
  assumes "flash_ok F cfg mem sr" "param_table F c items"
  shows "get_info_item (flash_reader F c) NET_PARAM_BASE item q0 q1 q2 =
    Some (case map_of items item of None \<Rightarrow> (0, []) | Some p \<Rightarrow> get_spec item p q0 q1 q2)"
  by (rule net_sector.stored_get [of F cfg mem sr c items item q0 q1 q2,
      unfolded param_table_stored [OF assms(1)] sector_reader, OF assms(2)])

lemma param_table_save:
  assumes ok: "flash_ok F cfg mem sr" and tbl: "param_table F c items"
    and items': "items' = AList.update item (new_payload item (map_of items item) p0 p1 p2) items"
    and wf: "tbl_wf 4096 items'" and m: "malloc (of_nat (length (tbl_bytes items')))"
  shows "if item_given item p0 p1 p2 then
      \<exists>c'. save_info_item F cfg malloc item p0 p1 p2 c = Some (Ret (1, c')) \<and> param_table F c' items' \<and>
        (\<forall>x. 4096 \<le> unat (x - NET_PARAM_BASE) \<longrightarrow> mem c' x = mem c x)
    else save_info_item F cfg malloc item p0 p1 p2 c = Some Fault"
proof -
  obtain c' where c': "save_image (flash_reader F c) NET_PARAM_BASE malloc item p0 p1 p2 =
        Some (if item_given item p0 p1 p2 then Ret (Some (tbl_bytes items')) else Fault)"
      "sector_rewrite F cfg (tbl_bytes items') c = Some c'" "param_table F c' items'"
    using net_sector.stored_save_effect [of F cfg mem sr c items items' item p0 p1 p2 malloc,
      unfolded param_table_stored [OF ok] sector_reader, OF tbl items' wf m] by blast
  moreover obtain c'' where "net_param_rewrite F cfg (tbl_bytes items') c = Ret c''"
      "\<forall>x. 4096 \<le> unat (x - NET_PARAM_BASE) \<longrightarrow> mem c'' x = mem c x"
    using net_param_rewrite_effect [of F cfg mem sr "tbl_bytes items'" c] ok wf by (auto simp: flash_ok_def tbl_wf_def)
  ultimately show ?thesis by (simp add: save_info_item_def sector_rewrite_def)
qed

lemma blank_chip_ok: "flash_ok (nor_ctl (hd flash_config)) (hd flash_config) nc_mem nc_sr"
  using nor_ctl_laws by (simp add: flash_ok_def flash_config_def)

lemma blank_chip_table: "param_table (nor_ctl (hd flash_config)) blank_chip []"
proof -
  have "flash_reader (nor_ctl (hd flash_config)) blank_chip NET_PARAM_BASE (of_nat 8) =
      content (nc_mem blank_chip) NET_PARAM_BASE 8"
    by (rule flash_reader_content [OF blank_chip_ok]) (simp add: NET_PARAM_BASE_def)
  also have "\<dots> = replicate 8 0xFF" by (simp add: content_def blank_chip_def list_eq_iff_nth_eq)
  finally have r: "flash_reader (nor_ctl (hd flash_config)) blank_chip NET_PARAM_BASE 8 = replicate 8 0xFF" by simp
  have "head_type (replicate 8 0xFF) \<noteq> INFO_TLV_HEADER" by code_simp
  then show ?thesis using r by (simp add: param_table_def)
qed

lemma mac_update:
  "AList.update WIFI_MAC_ITEM (new_payload WIFI_MAC_ITEM (map_of [] WIFI_MAC_ITEM) [1, 2, 3, 4, 5, 6] p1 p2) [] =
     [(WIFI_MAC_ITEM, [1, 2, 3, 4, 5, 6, 0, 0])]"
  "tbl_wf 4096 [(WIFI_MAC_ITEM, [1, 2, 3, 4, 5, 6, 0, 0])]"
  by (simp_all add: new_payload_def info_item_len_def HEAD_SIZE_def item_data_def blit_def tbl_wf_def eval_nat_numeral)

lemma blank_chip_saved:
  "\<exists>c'. save_info_item (nor_ctl (hd flash_config)) (hd flash_config) (\<lambda>_. True) WIFI_MAC_ITEM [1, 2, 3, 4, 5, 6] [] []
       blank_chip = Some (Ret (1, c')) \<and>
     param_table (nor_ctl (hd flash_config)) c' [(WIFI_MAC_ITEM, [1, 2, 3, 4, 5, 6, 0, 0])]"
  using param_table_save [OF blank_chip_ok blank_chip_table mac_update(1) [symmetric] mac_update(2),
      of "\<lambda>_. True" "[]" "[]"] by (auto simp: item_given_def)

section \<open>Properties\<close>

text \<open>
  C6: storing an item over any well-formed table, or in a sector without one, makes the sector
  hold the table updated in place or extended at the end: the item with its new data, every other
  item as it was, and no byte of the flash outside the sector changed. A caller's buffer shorter than the
  item's fixed lengths is read beyond its end.
\<close>

theorem net_param_save_refines:
  assumes ok: "flash_ok F cfg mem sr" and tbl: "param_table F c items"
    and items': "items' = AList.update item (new_payload item (map_of items item) p0 p1 p2) items"
    and wf: "tbl_wf 4096 items'" and m: "malloc (of_nat (length (tbl_bytes items')))"
  shows "if item_given item p0 p1 p2 then
      \<exists>c'. save_info_item F cfg malloc item p0 p1 p2 c = Some (Ret (1, c')) \<and> param_table F c' items' \<and>
        (\<forall>x. 4096 \<le> unat (x - NET_PARAM_BASE) \<longrightarrow> mem c' x = mem c x)
    else save_info_item F cfg malloc item p0 p1 p2 c = Some Fault"
  by (rule param_table_save [where malloc = malloc, OF assms])

lemma net_param_save_refines_witness:
  "\<exists>c'. save_info_item (nor_ctl (hd flash_config)) (hd flash_config) (\<lambda>_. True) WIFI_MAC_ITEM [1, 2, 3, 4, 5, 6] [] []
       blank_chip = Some (Ret (1, c')) \<and>
     param_table (nor_ctl (hd flash_config)) c' [(WIFI_MAC_ITEM, [1, 2, 3, 4, 5, 6, 0, 0])] \<and>
     (\<forall>x. 4096 \<le> unat (x - NET_PARAM_BASE) \<longrightarrow> nc_mem c' x = nc_mem blank_chip x)"
  using net_param_save_refines [OF blank_chip_ok blank_chip_table mac_update(1) [symmetric] mac_update(2), of "\<lambda>_. True" "[]" "[]"]
  by (simp add: item_given_def)

text \<open>
  Reading an item answers what the table holds for it, cut into the caller's buffers, and 0 for
  an item that is not stored; the search of a well-formed table always ends.
\<close>

theorem net_param_get_lookup:
  assumes "flash_ok F cfg mem sr" "param_table F c items"
  shows "get_info_item (flash_reader F c) NET_PARAM_BASE item q0 q1 q2 =
    Some (case map_of items item of None \<Rightarrow> (0, []) | Some p \<Rightarrow> get_spec item p q0 q1 q2)"
  by (rule param_table_get [OF assms])

lemma net_param_get_lookup_witness:
  "\<exists>c. get_info_item (flash_reader (nor_ctl (hd flash_config)) c) NET_PARAM_BASE WIFI_MAC_ITEM True False False =
       Some (1, [[1, 2, 3, 4, 5, 6, 0, 0]]) \<and>
     get_info_item (flash_reader (nor_ctl (hd flash_config)) c) NET_PARAM_BASE SSID_KEY_ITEM True True False = Some (0, [])"
proof -
  obtain c where t: "param_table (nor_ctl (hd flash_config)) c [(WIFI_MAC_ITEM, [1, 2, 3, 4, 5, 6, 0, 0])]"
    using blank_chip_saved by blast
  show ?thesis
    using net_param_get_lookup [OF blank_chip_ok t, of WIFI_MAC_ITEM True False False]
      net_param_get_lookup [OF blank_chip_ok t, of SSID_KEY_ITEM True True False]
    by (auto simp: get_spec_def)
qed

text \<open>
  A MAC address comes back with two bytes more than were stored: whatever table was there, after
  \<open>save_info_item\<close> has copied the 6 bytes, \<open>get_info_item\<close> stores 8 bytes through the pointer.
  \<open>cfg_load_mac\<close> passes a buffer of 6.
\<close>

theorem net_param_mac_overrun:
  assumes ok: "flash_ok F cfg mem sr" and tbl: "param_table F c items" and mac: "length mac = 6"
    and items': "items' = AList.update WIFI_MAC_ITEM (new_payload WIFI_MAC_ITEM (map_of items WIFI_MAC_ITEM) mac p1 p2) items"
    and wf: "tbl_wf 4096 items'" and m: "malloc (of_nat (length (tbl_bytes items')))"
  shows "\<exists>c' r. save_info_item F cfg malloc WIFI_MAC_ITEM mac p1 p2 c = Some (Ret (1, c')) \<and> length r = 2 \<and>
    get_info_item (flash_reader F c') NET_PARAM_BASE WIFI_MAC_ITEM True q1 q2 = Some (1, [mac @ r])"
proof -
  obtain c' where c': "save_info_item F cfg malloc WIFI_MAC_ITEM mac p1 p2 c = Some (Ret (1, c'))" "param_table F c' items'"
    using param_table_save [where malloc = malloc, OF ok tbl items' wf m] mac by (auto simp: item_given_def)
  let ?p = "new_payload WIFI_MAC_ITEM (map_of items WIFI_MAC_ITEM) mac p1 p2"
  have p: "map_of items' WIFI_MAC_ITEM = Some ?p" by (simp add: items' AList.update_conv')
  then have "length ?p = 8"
    using wf by (auto simp: tbl_wf_def list_all_iff info_item_len_def HEAD_SIZE_def dest!: map_of_SomeD)
  then have "?p = mac @ drop 6 ?p" "length (drop 6 ?p) = 2"
    using mac by (simp_all add: new_payload_def item_data_def blit_def)
  moreover have "get_info_item (flash_reader F c') NET_PARAM_BASE WIFI_MAC_ITEM True q1 q2 = Some (1, [?p])"
    using param_table_get [OF ok c'(2), of WIFI_MAC_ITEM True q1 q2] p by (simp add: get_spec_def)
  ultimately show ?thesis using c'(1) by metis
qed

lemma net_param_mac_overrun_witness:
  "\<exists>c' r. save_info_item (nor_ctl (hd flash_config)) (hd flash_config) (\<lambda>_. True) WIFI_MAC_ITEM [1, 2, 3, 4, 5, 6] [] []
       blank_chip = Some (Ret (1, c')) \<and> length r = 2 \<and>
     get_info_item (flash_reader (nor_ctl (hd flash_config)) c') NET_PARAM_BASE WIFI_MAC_ITEM True False False =
       Some (1, [[1, 2, 3, 4, 5, 6] @ r])"
  by (rule net_param_mac_overrun [OF blank_chip_ok blank_chip_table _ mac_update(1) [symmetric] mac_update(2)]) simp_all

end
