(* ===== verification/Role_Launch.thy ===== *)
theory Role_Launch
  imports SDK_Prelude
begin

unbundle bit_operations_syntax

text \<open>
  The role launcher, \<open>beken378/func/joint_up/role_launch.c\<close>: requests to start or stop the
  station and the access point are put in a one-element socket each, moved into a queue of one
  launch in progress and one waiting (per role) by the enter timer, and worked off by the launch
  timer.

  A launch request carries the network description \<open>'p\<close>. Entities are values: allocating one
  may fail (\<open>malloc\<close>), freeing one forgets it. The timer service answers \<open>timer\<close> when a timer is
  started. \<open>calls\<close> is the log of the calls made: every request that is started and the WLAN
  call it makes.
\<close>

section \<open>State\<close>

definition LAUNCH_REQ_STA :: u32 where "LAUNCH_REQ_STA = 1"
definition LAUNCH_REQ_AP :: u32 where "LAUNCH_REQ_AP = 2"
definition LAUNCH_REQ_PURE_STA_SCAN :: u32 where "LAUNCH_REQ_PURE_STA_SCAN = 3"
definition LAUNCH_REQ_DELIF_STA :: u32 where "LAUNCH_REQ_DELIF_STA = 4"
definition LAUNCH_REQ_DELIF_AP :: u32 where "LAUNCH_REQ_DELIF_AP = 5"

definition LAUNCH_TYPE_ASAP :: u32 where "LAUNCH_TYPE_ASAP = 1"

datatype launch_status = LAUNCH_STATUS_OVER | LAUNCH_STATUS_CONT

definition RL_STATUS_CANCEL :: u32 where "RL_STATUS_CANCEL = 0x8000"
definition RL_STATUS_OTHER_MASK :: u32 where "RL_STATUS_OTHER_MASK = 0x7FFF"
definition RL_STATUS_STA_DHCPING :: u32 where "RL_STATUS_STA_DHCPING = 4"
definition RL_STATUS_STA_CHANNEL_SWITCHING :: u32 where "RL_STATUS_STA_CHANNEL_SWITCHING = 5"
definition RL_STATUS_STA_CHANNEL_SWITCHED :: u32 where "RL_STATUS_STA_CHANNEL_SWITCHED = 6"
definition RL_STATUS_STA_CSA_LAUNCHED_UNCERTAINTY :: u32 where "RL_STATUS_STA_CSA_LAUNCHED_UNCERTAINTY = 7"
definition RL_STATUS_STA_LAUNCHED :: u32 where "RL_STATUS_STA_LAUNCHED = 8"
definition RL_STATUS_STA_LAUNCH_FAILED :: u32 where "RL_STATUS_STA_LAUNCH_FAILED = 9"
definition RL_STATUS_AP_TRANSMITTED_BCN :: u32 where "RL_STATUS_AP_TRANSMITTED_BCN = 0x14"
definition RL_STATUS_AP_LAUNCHED :: u32 where "RL_STATUS_AP_LAUNCHED = 0x15"

datatype rl_timer_state = RL_TIMER_UNINIT | RL_TIMER_INIT | RL_TIMER_START | RL_TIMER_STOP

datatype pre_entity = PRE_ENTITY_IDLE | PRE_ENTITY_STA | PRE_ENTITY_AP | PRE_ENTITY_MESH

record 'p launch_req =
  descr :: 'p
  req_type :: u32

record 'p rl_entity =
  launch_type :: u32
  relaunch_limit :: u32
  launch_count :: u32
  rlaunch :: "'p launch_req"
  completion_cb :: "nat option"

datatype 'p rl_call = Rl_Sta_Request "'p launch_req" | Rl_Ap_Request "'p launch_req"
  | Bk_Wlan_Start_Sta 'p | Demo_Scan | Bk_Wlan_Stop_Station
  | Bk_Wlan_Start_Ap 'p | Bk_Wlan_Stop_Soft_Ap | Mm_Hw_Ap_Disable

text \<open>
  \<open>g_role_launch\<close>, the socket and the station cache; a request flag with its parameters is an
  option. \<open>enter_timer\<close> and \<open>rl_timer\<close> say which one-shot timers are running, \<open>timers_made\<close>
  whether they are initialised.
\<close>

record 'p rl_sys =
  rl_timer_flag :: rl_timer_state
  pre_entity_type :: pre_entity
  pre_sta_cancel :: u32
  pre_sta_status :: u32
  pre_ap_cancel :: u32
  pre_ap_status :: u32
  jl_previous_sta :: "'p rl_entity option"
  jl_following_sta :: "'p rl_entity option"
  jl_previous_ap :: "'p rl_entity option"
  jl_following_ap :: "'p rl_entity option"
  sta_socket :: "('p launch_req \<times> nat option) option"
  ap_socket :: "('p launch_req \<times> nat option) option"
  sta_cache :: "('p launch_req \<times> nat option) option"
  timers_made :: bool
  enter_timer :: bool
  rl_timer :: bool
  calls :: "'p rl_call list"

definition rl_zero :: "'p rl_sys" where
  "rl_zero = \<lparr>rl_timer_flag = RL_TIMER_UNINIT, pre_entity_type = PRE_ENTITY_IDLE,
     pre_sta_cancel = 0, pre_sta_status = 0, pre_ap_cancel = 0, pre_ap_status = 0,
     jl_previous_sta = None, jl_following_sta = None, jl_previous_ap = None, jl_following_ap = None,
     sta_socket = None, ap_socket = None, sta_cache = None,
     timers_made = False, enter_timer = False, rl_timer = False, calls = []\<rparr>"

section \<open>Status and cancellation\<close>

definition rl_pre_sta_init :: "'p rl_sys \<Rightarrow> 'p rl_sys" where
  "rl_pre_sta_init s = s\<lparr>pre_sta_cancel := 0, pre_sta_status := 0\<rparr>"

definition rl_pre_ap_init :: "'p rl_sys \<Rightarrow> 'p rl_sys" where
  "rl_pre_ap_init s = s\<lparr>pre_ap_cancel := 0, pre_ap_status := 0\<rparr>"

definition rl_pre_sta_set_cancel :: "'p rl_sys \<Rightarrow> 'p rl_sys" where
  "rl_pre_sta_set_cancel s = s\<lparr>pre_sta_cancel := 1\<rparr>"

definition rl_pre_sta_clear_cancel :: "'p rl_sys \<Rightarrow> 'p rl_sys" where
  "rl_pre_sta_clear_cancel s = s\<lparr>pre_sta_cancel := 0\<rparr>"

definition rl_pre_ap_set_cancel :: "'p rl_sys \<Rightarrow> 'p rl_sys" where
  "rl_pre_ap_set_cancel s = s\<lparr>pre_ap_cancel := 1\<rparr>"

definition rl_pre_ap_clear_cancel :: "'p rl_sys \<Rightarrow> 'p rl_sys" where
  "rl_pre_ap_clear_cancel s = s\<lparr>pre_ap_cancel := 0\<rparr>"

definition rl_pre_sta_set_status :: "u32 \<Rightarrow> 'p rl_sys \<Rightarrow> u32 \<times> 'p rl_sys" where
  "rl_pre_sta_set_status stat s =
     (let v = (if pre_sta_status s = RL_STATUS_STA_CHANNEL_SWITCHING \<and> stat = RL_STATUS_STA_LAUNCHED
               then RL_STATUS_STA_CSA_LAUNCHED_UNCERTAINTY
               else if pre_sta_status s = RL_STATUS_STA_CSA_LAUNCHED_UNCERTAINTY \<and> stat = RL_STATUS_STA_CHANNEL_SWITCHED
               then RL_STATUS_STA_LAUNCHED
               else stat);
          cancel = pre_sta_cancel s
      in (cancel, s\<lparr>pre_sta_status := (if cancel \<noteq> 0 then v OR RL_STATUS_CANCEL else v)\<rparr>))"

definition rl_pre_ap_set_status :: "u32 \<Rightarrow> 'p rl_sys \<Rightarrow> u32 \<times> 'p rl_sys" where
  "rl_pre_ap_set_status stat s =
     (let cancel = pre_ap_cancel s
      in (cancel, s\<lparr>pre_ap_status := (if cancel \<noteq> 0 then stat + RL_STATUS_CANCEL else stat)\<rparr>))"

definition rl_pre_ap_disable_autobcn :: "'p rl_sys \<Rightarrow> u32 \<times> 'p rl_sys" where
  "rl_pre_ap_disable_autobcn s =
     (pre_ap_cancel s, if pre_ap_cancel s \<noteq> 0 then s\<lparr>calls := calls s @ [Mm_Hw_Ap_Disable]\<rparr> else s)"

definition rl_sta_may_next_launch :: "'p rl_sys \<Rightarrow> u32" where
  "rl_sta_may_next_launch s =
     (let stat = pre_sta_status s in
      if RL_STATUS_STA_CSA_LAUNCHED_UNCERTAINTY \<noteq> stat AND RL_STATUS_OTHER_MASK \<and>
         (stat AND RL_STATUS_CANCEL \<noteq> 0 \<or> RL_STATUS_STA_LAUNCHED = stat \<or> RL_STATUS_STA_LAUNCH_FAILED = stat)
      then 1
      else if pre_sta_cancel s \<noteq> 0 \<and> RL_STATUS_STA_DHCPING = stat then 2
      else if RL_STATUS_STA_LAUNCH_FAILED = stat then 3
      else 0)"

definition rl_ap_may_next_launch :: "u32 \<Rightarrow> 'p rl_sys \<Rightarrow> u32" where
  "rl_ap_may_next_launch pre_cancel s =
     (if pre_cancel = 0 then 1
      else if RL_STATUS_AP_TRANSMITTED_BCN + RL_STATUS_CANCEL = pre_ap_status s \<or>
              RL_STATUS_AP_LAUNCHED = pre_ap_status s AND NOT RL_STATUS_CANCEL then 1
      else 0)"

section \<open>Starting requests\<close>

definition rl_sta_request_start :: "'p launch_req \<Rightarrow> 'p rl_sys \<Rightarrow> 'p rl_sys" where
  "rl_sta_request_start req s0 =
     (let s = s0\<lparr>calls := calls s0 @ [Rl_Sta_Request req]\<rparr>;
          log = (\<lambda>c s. s\<lparr>calls := calls s @ [c]\<rparr>)
      in if req_type req = LAUNCH_REQ_STA then log (Bk_Wlan_Start_Sta (descr req)) (rl_pre_sta_init s)
         else if req_type req = LAUNCH_REQ_PURE_STA_SCAN then log Demo_Scan (rl_pre_sta_init s)
         else if req_type req = LAUNCH_REQ_DELIF_STA then log Bk_Wlan_Stop_Station s
         else s)"

definition rl_ap_request_start :: "'p launch_req \<Rightarrow> 'p rl_sys \<Rightarrow> 'p rl_sys" where
  "rl_ap_request_start req s0 =
     (let s = s0\<lparr>calls := calls s0 @ [Rl_Ap_Request req]\<rparr>;
          log = (\<lambda>c s. s\<lparr>calls := calls s @ [c]\<rparr>)
      in if req_type req = LAUNCH_REQ_AP then log (Bk_Wlan_Start_Ap (descr req)) (rl_pre_ap_init s)
         else if req_type req = LAUNCH_REQ_DELIF_AP then log Bk_Wlan_Stop_Soft_Ap s
         else s)"

section \<open>Launching\<close>

definition relaunch_over :: "'p rl_entity \<Rightarrow> bool" where
  "relaunch_over e \<longleftrightarrow> relaunch_limit e \<noteq> 0 \<and> relaunch_limit e \<le> launch_count e"

definition rl_launch_sta :: "'p rl_sys \<Rightarrow> launch_status \<times> 'p rl_sys" where
  "rl_launch_sta s =
     (case jl_previous_sta s of
        None \<Rightarrow>
          (case jl_following_sta s of
             None \<Rightarrow> (LAUNCH_STATUS_OVER, s)
           | Some e \<Rightarrow>
               (LAUNCH_STATUS_CONT,
                rl_sta_request_start (rlaunch e) (s\<lparr>jl_previous_sta := Some e, jl_following_sta := None\<rparr>)))
      | Some pre \<Rightarrow>
          (let s1 = (case jl_following_sta s of
                       Some e \<Rightarrow> if LAUNCH_TYPE_ASAP = launch_type e then rl_pre_sta_set_cancel s else s
                     | None \<Rightarrow> s);
               s2 = (if relaunch_over pre then rl_pre_sta_set_cancel s1 else s1)
           in if rl_sta_may_next_launch s2 \<noteq> 0 then
                (let s3 = s2\<lparr>jl_previous_sta := jl_following_sta s2, jl_following_sta := None\<rparr>
                 in (case jl_previous_sta s3 of
                       Some e \<Rightarrow> (LAUNCH_STATUS_CONT, rl_sta_request_start (rlaunch e) s3)
                     | None \<Rightarrow> (LAUNCH_STATUS_OVER, s3)))
              else (LAUNCH_STATUS_CONT, s2)))"

definition rl_launch_ap :: "'p rl_sys \<Rightarrow> launch_status \<times> 'p rl_sys" where
  "rl_launch_ap s =
     (case jl_previous_ap s of
        None \<Rightarrow>
          (case jl_following_ap s of
             None \<Rightarrow> (LAUNCH_STATUS_OVER, s)
           | Some e \<Rightarrow>
               (LAUNCH_STATUS_CONT,
                rl_ap_request_start (rlaunch e)
                  (rl_pre_ap_init (s\<lparr>jl_previous_ap := Some e, jl_following_ap := None\<rparr>))))
      | Some pre \<Rightarrow>
          (let asap = (case jl_following_ap s of Some e \<Rightarrow> LAUNCH_TYPE_ASAP = launch_type e | None \<Rightarrow> False);
               cancel_pre_flag = (if asap \<or> relaunch_over pre then 1 else 0);
               s2 = (if cancel_pre_flag \<noteq> 0 then rl_pre_ap_set_cancel s else s)
           in if rl_ap_may_next_launch cancel_pre_flag s2 \<noteq> 0 then
                (let s3 = s2\<lparr>jl_previous_ap := jl_following_ap s2, jl_following_ap := None\<rparr>
                 in (case jl_previous_ap s3 of
                       Some e \<Rightarrow> (LAUNCH_STATUS_CONT, rl_ap_request_start (rlaunch e) (rl_pre_ap_init s3))
                     | None \<Rightarrow> (LAUNCH_STATUS_OVER, s3)))
              else (LAUNCH_STATUS_CONT, s2)))"

section \<open>Timers\<close>

definition rl_relaunch_chance :: "'p rl_sys \<Rightarrow> 'p rl_sys c_run" where
  "rl_relaunch_chance s = (if \<not> timers_made s then Assert_Stop else Ret (s\<lparr>rl_timer := True\<rparr>))"

definition rl_init :: "bool \<Rightarrow> 'p rl_sys \<Rightarrow> 'p rl_sys c_run" where
  "rl_init timer s =
     (if \<not> timer then Assert_Stop else Ret (s\<lparr>timers_made := True, rl_timer_flag := RL_TIMER_INIT\<rparr>))"

definition rl_start :: "bool \<Rightarrow> 'p rl_sys \<Rightarrow> 'p rl_sys c_run" where
  "rl_start timer s =
     (if \<not> timer then Assert_Stop else Ret (s\<lparr>rl_timer := True, rl_timer_flag := RL_TIMER_START\<rparr>))"

definition rl_stop :: "bool \<Rightarrow> 'p rl_sys \<Rightarrow> 'p rl_sys c_run" where
  "rl_stop timer s =
     (if \<not> timer then Assert_Stop
      else Ret (s\<lparr>rl_timer := False, enter_timer := False, rl_timer_flag := RL_TIMER_STOP\<rparr>))"

definition rl_uninit :: "bool \<Rightarrow> 'p rl_sys \<Rightarrow> 'p rl_sys c_run" where
  "rl_uninit timer s =
     (if \<not> timer then Assert_Stop
      else (case (if rl_timer_flag s = RL_TIMER_START then rl_stop timer s else Ret s) of
              Ret s1 \<Rightarrow> Ret (s1\<lparr>timers_made := False, rl_timer_flag := RL_TIMER_UNINIT\<rparr>)
            | Assert_Stop \<Rightarrow> Assert_Stop | Fault \<Rightarrow> Fault))"

section \<open>Requests\<close>

definition rl_alloc_entity :: "bool \<Rightarrow> 'p launch_req \<Rightarrow> nat option \<Rightarrow> 'p rl_entity c_run" where
  "rl_alloc_entity malloc req completion =
     (if \<not> malloc then Assert_Stop
      else Ret \<lparr>launch_type = LAUNCH_TYPE_ASAP, relaunch_limit = 0, launch_count = 0,
                rlaunch = req, completion_cb = completion\<rparr>)"

definition first_entity :: "pre_entity \<Rightarrow> 'p rl_sys \<Rightarrow> 'p rl_sys" where
  "first_entity tp s = (if pre_entity_type s = PRE_ENTITY_IDLE then s\<lparr>pre_entity_type := tp\<rparr> else s)"

definition sta_request_enter ::
    "bool \<Rightarrow> bool \<Rightarrow> 'p launch_req \<Rightarrow> nat option \<Rightarrow> 'p rl_sys \<Rightarrow> (u32 \<times> 'p rl_sys) c_run" where
  "sta_request_enter malloc timer req completion s =
     (if jl_previous_ap s = None \<and> jl_previous_sta s = None then
        (case rl_alloc_entity malloc req completion of
           Ret e \<Rightarrow> Ret (1, first_entity PRE_ENTITY_STA (rl_sta_request_start req (s\<lparr>jl_previous_sta := Some e\<rparr>)))
         | Assert_Stop \<Rightarrow> Assert_Stop | Fault \<Rightarrow> Fault)
      else if jl_following_sta s = None then
        (case rl_alloc_entity malloc req completion of
           Ret e \<Rightarrow>
             (case rl_start timer (s\<lparr>jl_following_sta := Some e\<rparr>) of
                Ret s1 \<Rightarrow> Ret (2, first_entity PRE_ENTITY_STA s1)
              | Assert_Stop \<Rightarrow> Assert_Stop | Fault \<Rightarrow> Fault)
         | Assert_Stop \<Rightarrow> Assert_Stop | Fault \<Rightarrow> Fault)
      else
        (case rl_start timer s of
           Ret s1 \<Rightarrow> Ret (0, s1)
         | Assert_Stop \<Rightarrow> Assert_Stop | Fault \<Rightarrow> Fault))"

definition ap_request_enter ::
    "bool \<Rightarrow> bool \<Rightarrow> 'p launch_req \<Rightarrow> nat option \<Rightarrow> 'p rl_sys \<Rightarrow> (u32 \<times> 'p rl_sys) c_run" where
  "ap_request_enter malloc timer req completion s =
     (if jl_previous_ap s = None \<and> jl_previous_sta s = None then
        (case rl_alloc_entity malloc req completion of
           Ret e \<Rightarrow> Ret (1, first_entity PRE_ENTITY_AP (rl_ap_request_start req (s\<lparr>jl_previous_ap := Some e\<rparr>)))
         | Assert_Stop \<Rightarrow> Assert_Stop | Fault \<Rightarrow> Fault)
      else if jl_following_ap s = None then
        (case rl_alloc_entity malloc req completion of
           Ret e \<Rightarrow>
             (case rl_start timer (s\<lparr>jl_following_ap := Some e\<rparr>) of
                Ret s1 \<Rightarrow> Ret (2, first_entity PRE_ENTITY_AP s1)
              | Assert_Stop \<Rightarrow> Assert_Stop | Fault \<Rightarrow> Fault)
         | Assert_Stop \<Rightarrow> Assert_Stop | Fault \<Rightarrow> Fault)
      else
        (case rl_start timer s of
           Ret s1 \<Rightarrow> Ret (0, s1)
         | Assert_Stop \<Rightarrow> Assert_Stop | Fault \<Rightarrow> Fault))"

definition serve_sta :: "bool \<Rightarrow> bool \<Rightarrow> ('p launch_req \<times> nat option) option \<Rightarrow> 'p rl_sys \<Rightarrow> 'p rl_sys c_run" where
  "serve_sta malloc timer hit_sta s =
     (case hit_sta of
        None \<Rightarrow> Ret s
      | Some (req, completion) \<Rightarrow>
          (case sta_request_enter malloc timer req completion s of
             Ret (ret, s1) \<Rightarrow> Ret (if ret \<noteq> 0 then s1\<lparr>sta_cache := Some (req, completion)\<rparr> else s1)
           | Assert_Stop \<Rightarrow> Assert_Stop | Fault \<Rightarrow> Fault))"

definition serve_ap :: "bool \<Rightarrow> bool \<Rightarrow> ('p launch_req \<times> nat option) option \<Rightarrow> 'p rl_sys \<Rightarrow> 'p rl_sys c_run" where
  "serve_ap malloc timer hit_ap s =
     (case hit_ap of
        None \<Rightarrow> Ret s
      | Some (req, completion) \<Rightarrow>
          (case ap_request_enter malloc timer req completion s of
             Ret (ret, s1) \<Rightarrow> Ret s1 | Assert_Stop \<Rightarrow> Assert_Stop | Fault \<Rightarrow> Fault))"

definition rl_enter_handler :: "bool \<Rightarrow> bool \<Rightarrow> 'p rl_sys \<Rightarrow> 'p rl_sys c_run" where
  "rl_enter_handler malloc timer s =
     (case serve_sta malloc timer (sta_socket s) (s\<lparr>sta_socket := None, ap_socket := None\<rparr>) of
        Ret s1 \<Rightarrow> serve_ap malloc timer (ap_socket s) s1
      | Assert_Stop \<Rightarrow> Assert_Stop | Fault \<Rightarrow> Fault)"

definition rl_turn :: "'p rl_sys \<Rightarrow> launch_status \<times> 'p rl_sys" where
  "rl_turn s =
     (case pre_entity_type s of
        PRE_ENTITY_AP \<Rightarrow>
          (case rl_launch_ap s of
             (LAUNCH_STATUS_OVER, s1) \<Rightarrow> rl_launch_sta (s1\<lparr>pre_entity_type := PRE_ENTITY_STA\<rparr>)
           | r \<Rightarrow> r)
      | PRE_ENTITY_STA \<Rightarrow>
          (case rl_launch_sta s of
             (LAUNCH_STATUS_OVER, s1) \<Rightarrow> rl_launch_ap (s1\<lparr>pre_entity_type := PRE_ENTITY_AP\<rparr>)
           | r \<Rightarrow> r)
      | _ \<Rightarrow> (LAUNCH_STATUS_OVER, s))"

definition rl_launch_handler :: "'p rl_sys \<Rightarrow> 'p rl_sys c_run" where
  "rl_launch_handler s =
     (case rl_turn s of
        (LAUNCH_STATUS_OVER, s1) \<Rightarrow> Ret s1
      | (LAUNCH_STATUS_CONT, s1) \<Rightarrow> rl_relaunch_chance s1)"

definition rl_sta_request_enter :: "bool \<Rightarrow> 'p launch_req \<Rightarrow> nat option \<Rightarrow> 'p rl_sys \<Rightarrow> 'p rl_sys c_run" where
  "rl_sta_request_enter timer req completion s =
     (if \<not> timer then Assert_Stop else Ret (s\<lparr>sta_socket := Some (req, completion), enter_timer := True\<rparr>))"

definition rl_ap_request_enter :: "bool \<Rightarrow> 'p launch_req \<Rightarrow> nat option \<Rightarrow> 'p rl_sys \<Rightarrow> 'p rl_sys c_run" where
  "rl_ap_request_enter timer req completion s =
     (if \<not> timer then Assert_Stop else Ret (s\<lparr>ap_socket := Some (req, completion), enter_timer := True\<rparr>))"

definition rl_sta_cache_request_enter :: "bool \<Rightarrow> 'p rl_sys \<Rightarrow> (u32 \<times> 'p rl_sys) c_run" where
  "rl_sta_cache_request_enter timer s =
     (case sta_cache s of
        None \<Rightarrow> Ret (0, s\<lparr>sta_cache := None\<rparr>)
      | Some (req, completion) \<Rightarrow>
          (case rl_sta_request_enter timer req completion s of
             Ret s1 \<Rightarrow> Ret (1, s1\<lparr>sta_cache := None\<rparr>)
           | Assert_Stop \<Rightarrow> Assert_Stop | Fault \<Rightarrow> Fault))"

definition rl_sta_req_is_null :: "'p rl_sys \<Rightarrow> u32" where
  "rl_sta_req_is_null s = (if jl_previous_sta s = None \<and> jl_previous_sta s = None then 1 else 0)"

section \<open>The launcher as a system of events\<close>

text \<open>
  What can happen to a launcher: a request is put in its socket, the cached station request is
  put there again, one of the two timers expires, the WLAN code reports a status or clears a
  cancellation. A timer handler runs only when its one-shot timer is running, which stops it.
\<close>

datatype 'p rl_event = Sta_Requested "'p launch_req" "nat option"
  | Ap_Requested "'p launch_req" "nat option"
  | Sta_Cache_Requested | Enter_Expired | Launch_Expired
  | Sta_Status u32 | Ap_Status u32 | Ap_Beacon_Off | Sta_Cancel_Clear | Ap_Cancel_Clear

definition rl_step :: "bool \<Rightarrow> bool \<Rightarrow> 'p rl_event \<Rightarrow> 'p rl_sys \<Rightarrow> 'p rl_sys c_run" where
  "rl_step malloc timer e s =
     (case e of
        Sta_Requested req c \<Rightarrow> rl_sta_request_enter timer req c s
      | Ap_Requested req c \<Rightarrow> rl_ap_request_enter timer req c s
      | Sta_Cache_Requested \<Rightarrow>
          (case rl_sta_cache_request_enter timer s of
             Ret (ret, s1) \<Rightarrow> Ret s1 | Assert_Stop \<Rightarrow> Assert_Stop | Fault \<Rightarrow> Fault)
      | Enter_Expired \<Rightarrow>
          if enter_timer s then rl_enter_handler malloc timer (s\<lparr>enter_timer := False\<rparr>) else Ret s
      | Launch_Expired \<Rightarrow> if rl_timer s then rl_launch_handler (s\<lparr>rl_timer := False\<rparr>) else Ret s
      | Sta_Status st \<Rightarrow> Ret (snd (rl_pre_sta_set_status st s))
      | Ap_Status st \<Rightarrow> Ret (snd (rl_pre_ap_set_status st s))
      | Ap_Beacon_Off \<Rightarrow> Ret (snd (rl_pre_ap_disable_autobcn s))
      | Sta_Cancel_Clear \<Rightarrow> Ret (rl_pre_sta_clear_cancel s)
      | Ap_Cancel_Clear \<Rightarrow> Ret (rl_pre_ap_clear_cancel s))"

fun rl_run :: "bool \<Rightarrow> bool \<Rightarrow> 'p rl_event list \<Rightarrow> 'p rl_sys \<Rightarrow> 'p rl_sys c_run" where
  "rl_run malloc timer [] s = Ret s"
| "rl_run malloc timer (e # es) s =
     (case rl_step malloc timer e s of
        Ret s1 \<Rightarrow> rl_run malloc timer es s1
      | Assert_Stop \<Rightarrow> Assert_Stop | Fault \<Rightarrow> Fault)"

definition rl_boot :: "'p rl_sys" where
  "rl_boot = rl_zero\<lparr>timers_made := True, rl_timer_flag := RL_TIMER_INIT\<rparr>"

text \<open>
  The enter timer takes the request of a socket unless one of the role already waits; then it
  only complains. \<open>rl_reach sas aas s\<close>: \<open>s\<close> can be reached from boot while the requests \<open>sas\<close> of
  the station and \<open>aas\<close> of the access point were taken, in this order.
\<close>

definition taken :: "bool \<Rightarrow> ('p launch_req \<times> nat option) option \<Rightarrow> 'p rl_entity option \<Rightarrow> 'p launch_req list" where
  "taken fires socket following =
     (if fires \<and> following = None then (case socket of Some (r, c) \<Rightarrow> [r] | None \<Rightarrow> []) else [])"

definition sta_taken :: "'p rl_event \<Rightarrow> 'p rl_sys \<Rightarrow> 'p launch_req list" where
  "sta_taken e s = taken (e = Enter_Expired \<and> enter_timer s) (sta_socket s) (jl_following_sta s)"

definition ap_taken :: "'p rl_event \<Rightarrow> 'p rl_sys \<Rightarrow> 'p launch_req list" where
  "ap_taken e s = taken (e = Enter_Expired \<and> enter_timer s) (ap_socket s) (jl_following_ap s)"

inductive rl_reach :: "'p launch_req list \<Rightarrow> 'p launch_req list \<Rightarrow> 'p rl_sys \<Rightarrow> bool" where
  boot: "rl_init timer rl_zero = Ret s \<Longrightarrow> rl_reach [] [] s"
| step: "rl_reach sas aas s \<Longrightarrow> rl_step malloc timer e s = Ret s' \<Longrightarrow>
         rl_reach (sas @ sta_taken e s) (aas @ ap_taken e s) s'"

definition sta_started :: "'p rl_call list \<Rightarrow> 'p launch_req list" where
  "sta_started cs = concat (map (\<lambda>c. case c of Rl_Sta_Request r \<Rightarrow> [r] | _ \<Rightarrow> []) cs)"

definition ap_started :: "'p rl_call list \<Rightarrow> 'p launch_req list" where
  "ap_started cs = concat (map (\<lambda>c. case c of Rl_Ap_Request r \<Rightarrow> [r] | _ \<Rightarrow> []) cs)"

definition waiting :: "'p rl_entity option \<Rightarrow> 'p launch_req list" where
  "waiting f = (case f of Some e \<Rightarrow> [rlaunch e] | None \<Rightarrow> [])"

lemma started_simps [simp]:
  "sta_started [] = []" "ap_started [] = []"
  "sta_started (as @ bs) = sta_started as @ sta_started bs"
  "ap_started (as @ bs) = ap_started as @ ap_started bs"
  by (simp_all add: sta_started_def ap_started_def)

lemma waiting_simps [simp]: "waiting None = []" "waiting (Some e) = [rlaunch e]"
  by (simp_all add: waiting_def)

section \<open>What every launcher keeps\<close>

text \<open>
  Every entity is an as-soon-as-possible one without a relaunch limit; nothing waits unless
  something is in progress; the turn is a role's as soon as there is an entity.
\<close>

definition plain_entity :: "'p rl_entity option \<Rightarrow> bool" where
  "plain_entity f = (case f of Some e \<Rightarrow> launch_type e = LAUNCH_TYPE_ASAP \<and> relaunch_limit e = 0 | None \<Rightarrow> True)"

definition idle :: "'p rl_sys \<Rightarrow> bool" where
  "idle s \<longleftrightarrow> jl_previous_sta s = None \<and> jl_previous_ap s = None"

definition rl_inv :: "'p rl_sys \<Rightarrow> bool" where
  "rl_inv s \<longleftrightarrow>
     plain_entity (jl_previous_sta s) \<and> plain_entity (jl_following_sta s) \<and>
     plain_entity (jl_previous_ap s) \<and> plain_entity (jl_following_ap s) \<and>
     (idle s \<longrightarrow> jl_following_sta s = None \<and> jl_following_ap s = None) \<and>
     pre_entity_type s \<noteq> PRE_ENTITY_MESH \<and> (pre_entity_type s = PRE_ENTITY_IDLE \<longrightarrow> idle s)"

lemmas rl_inv_defs = rl_inv_def idle_def plain_entity_def

text \<open>Only its own fields and the log: what starting a request does to the state.\<close>

lemma sta_request_start_frame [simp]:
  "jl_previous_sta (rl_sta_request_start r s) = jl_previous_sta s"
  "jl_following_sta (rl_sta_request_start r s) = jl_following_sta s"
  "jl_previous_ap (rl_sta_request_start r s) = jl_previous_ap s"
  "jl_following_ap (rl_sta_request_start r s) = jl_following_ap s"
  "pre_entity_type (rl_sta_request_start r s) = pre_entity_type s"
  "timers_made (rl_sta_request_start r s) = timers_made s"
  "ap_socket (rl_sta_request_start r s) = ap_socket s"
  "sta_started (calls (rl_sta_request_start r s)) = sta_started (calls s) @ [r]"
  "ap_started (calls (rl_sta_request_start r s)) = ap_started (calls s)"
  by (simp_all add: rl_sta_request_start_def rl_pre_sta_init_def Let_def sta_started_def ap_started_def)

lemma ap_request_start_frame [simp]:
  "jl_previous_sta (rl_ap_request_start r s) = jl_previous_sta s"
  "jl_following_sta (rl_ap_request_start r s) = jl_following_sta s"
  "jl_previous_ap (rl_ap_request_start r s) = jl_previous_ap s"
  "jl_following_ap (rl_ap_request_start r s) = jl_following_ap s"
  "pre_entity_type (rl_ap_request_start r s) = pre_entity_type s"
  "timers_made (rl_ap_request_start r s) = timers_made s"
  "sta_started (calls (rl_ap_request_start r s)) = sta_started (calls s)"
  "ap_started (calls (rl_ap_request_start r s)) = ap_started (calls s) @ [r]"
  by (simp_all add: rl_ap_request_start_def rl_pre_ap_init_def Let_def sta_started_def ap_started_def)

lemma cancel_frame [simp]:
  "jl_previous_sta (rl_pre_sta_set_cancel s) = jl_previous_sta s"
  "jl_following_sta (rl_pre_sta_set_cancel s) = jl_following_sta s"
  "jl_previous_ap (rl_pre_sta_set_cancel s) = jl_previous_ap s"
  "jl_following_ap (rl_pre_sta_set_cancel s) = jl_following_ap s"
  "pre_entity_type (rl_pre_sta_set_cancel s) = pre_entity_type s"
  "timers_made (rl_pre_sta_set_cancel s) = timers_made s"
  "calls (rl_pre_sta_set_cancel s) = calls s"
  "jl_previous_sta (rl_pre_ap_set_cancel s) = jl_previous_sta s"
  "jl_following_sta (rl_pre_ap_set_cancel s) = jl_following_sta s"
  "jl_previous_ap (rl_pre_ap_set_cancel s) = jl_previous_ap s"
  "jl_following_ap (rl_pre_ap_set_cancel s) = jl_following_ap s"
  "pre_entity_type (rl_pre_ap_set_cancel s) = pre_entity_type s"
  "timers_made (rl_pre_ap_set_cancel s) = timers_made s"
  "calls (rl_pre_ap_set_cancel s) = calls s"
  by (simp_all add: rl_pre_sta_set_cancel_def rl_pre_ap_set_cancel_def)

lemma ap_init_frame [simp]:
  "jl_previous_sta (rl_pre_ap_init s) = jl_previous_sta s"
  "jl_following_sta (rl_pre_ap_init s) = jl_following_sta s"
  "jl_previous_ap (rl_pre_ap_init s) = jl_previous_ap s"
  "jl_following_ap (rl_pre_ap_init s) = jl_following_ap s"
  "pre_entity_type (rl_pre_ap_init s) = pre_entity_type s"
  "timers_made (rl_pre_ap_init s) = timers_made s"
  "calls (rl_pre_ap_init s) = calls s"
  by (simp_all add: rl_pre_ap_init_def)

text \<open>What a turn of one role does to the queue: nothing, or it starts the waiting request.\<close>

definition queue_kept :: "'p rl_sys \<Rightarrow> 'p rl_sys \<Rightarrow> bool" where
  "queue_kept s s' \<longleftrightarrow>
     sta_started (calls s') @ waiting (jl_following_sta s') = sta_started (calls s) @ waiting (jl_following_sta s) \<and>
     ap_started (calls s') @ waiting (jl_following_ap s') = ap_started (calls s) @ waiting (jl_following_ap s)"

lemma launch_sta_queue:
  assumes "rl_launch_sta s = (r, s')"
  shows "queue_kept s s' \<and> jl_previous_ap s' = jl_previous_ap s \<and> jl_following_ap s' = jl_following_ap s \<and>
    timers_made s' = timers_made s \<and> pre_entity_type s' = pre_entity_type s \<and>
    (r = LAUNCH_STATUS_OVER \<longleftrightarrow> jl_previous_sta s' = None) \<and>
    (r = LAUNCH_STATUS_OVER \<longrightarrow> jl_following_sta s' = None)"
  using assms by (auto simp: rl_launch_sta_def queue_kept_def Let_def split: option.splits if_splits)

lemma launch_sta_plain:
  assumes "rl_launch_sta s = (r, s')" "plain_entity (jl_previous_sta s)" "plain_entity (jl_following_sta s)"
  shows "plain_entity (jl_previous_sta s') \<and> plain_entity (jl_following_sta s')"
  using assms by (auto simp: rl_launch_sta_def plain_entity_def Let_def split: option.splits if_splits)

lemma launch_ap_queue:
  assumes "rl_launch_ap s = (r, s')"
  shows "queue_kept s s' \<and> jl_previous_sta s' = jl_previous_sta s \<and> jl_following_sta s' = jl_following_sta s \<and>
    timers_made s' = timers_made s \<and> pre_entity_type s' = pre_entity_type s \<and>
    (r = LAUNCH_STATUS_OVER \<longleftrightarrow> jl_previous_ap s' = None) \<and>
    (r = LAUNCH_STATUS_OVER \<longrightarrow> jl_following_ap s' = None)"
  using assms by (auto simp: rl_launch_ap_def queue_kept_def Let_def split: option.splits if_splits)

lemma launch_ap_plain:
  assumes "rl_launch_ap s = (r, s')" "plain_entity (jl_previous_ap s)" "plain_entity (jl_following_ap s)"
  shows "plain_entity (jl_previous_ap s') \<and> plain_entity (jl_following_ap s')"
  using assms by (auto simp: rl_launch_ap_def plain_entity_def Let_def split: option.splits if_splits)

lemma queue_kept_trans: "queue_kept s t \<Longrightarrow> queue_kept t u \<Longrightarrow> queue_kept s u"
  by (simp add: queue_kept_def)

lemma queue_kept_turn [simp]:
  "queue_kept (s\<lparr>pre_entity_type := tp\<rparr>) t = queue_kept s t"
  "queue_kept s (t\<lparr>rl_timer := b\<rparr>) = queue_kept s t"
  "queue_kept (s\<lparr>rl_timer := b\<rparr>) t = queue_kept s t"
  by (simp_all add: queue_kept_def)

lemma turn_keeps:
  assumes "rl_turn s = (r, s')" "rl_inv s"
  shows "queue_kept s s' \<and> rl_inv s' \<and> timers_made s' = timers_made s"
proof (cases "pre_entity_type s")
  case PRE_ENTITY_AP
  obtain ra sa where ap: "rl_launch_ap s = (ra, sa)" by (metis surj_pair)
  note a = launch_ap_queue [OF ap] launch_ap_plain [OF ap]
  show ?thesis
  proof (cases ra)
    case LAUNCH_STATUS_OVER
    with assms PRE_ENTITY_AP ap have st: "rl_launch_sta (sa\<lparr>pre_entity_type := PRE_ENTITY_STA\<rparr>) = (r, s')"
      by (simp add: rl_turn_def)
    note b = launch_sta_queue [OF st] launch_sta_plain [OF st]
    have "queue_kept s s'"
      using a b by (auto elim: queue_kept_trans)
    moreover have "rl_inv s'"
      using a b LAUNCH_STATUS_OVER assms(2) by (simp add: rl_inv_def idle_def)
    ultimately show ?thesis using a b by simp
  next
    case LAUNCH_STATUS_CONT
    with assms PRE_ENTITY_AP ap a show ?thesis
      by (auto simp: rl_turn_def rl_inv_def idle_def)
  qed
next
  case PRE_ENTITY_STA
  obtain ra sa where ap: "rl_launch_sta s = (ra, sa)" by (metis surj_pair)
  note a = launch_sta_queue [OF ap] launch_sta_plain [OF ap]
  show ?thesis
  proof (cases ra)
    case LAUNCH_STATUS_OVER
    with assms PRE_ENTITY_STA ap have st: "rl_launch_ap (sa\<lparr>pre_entity_type := PRE_ENTITY_AP\<rparr>) = (r, s')"
      by (simp add: rl_turn_def)
    note b = launch_ap_queue [OF st] launch_ap_plain [OF st]
    have "queue_kept s s'"
      using a b by (auto elim: queue_kept_trans)
    moreover have "rl_inv s'"
      using a b LAUNCH_STATUS_OVER assms(2) by (simp add: rl_inv_def idle_def)
    ultimately show ?thesis using a b by simp
  next
    case LAUNCH_STATUS_CONT
    with assms PRE_ENTITY_STA ap a show ?thesis
      by (auto simp: rl_turn_def rl_inv_def idle_def)
  qed
qed (use assms in \<open>auto simp: rl_turn_def queue_kept_def\<close>)

lemma launch_handler_keeps:
  assumes "rl_launch_handler s = Ret s'" "rl_inv s"
  shows "queue_kept s s' \<and> rl_inv s'"
proof -
  obtain r t where turn: "rl_turn s = (r, t)" by (metis surj_pair)
  from assms(1) turn have "s' = t \<or> s' = t\<lparr>rl_timer := True\<rparr>"
    by (auto simp: rl_launch_handler_def rl_relaunch_chance_def split: launch_status.splits if_splits)
  with turn_keeps [OF turn assms(2)] show ?thesis by (auto simp: rl_inv_def idle_def)
qed

lemma rl_start_frame:
  assumes "rl_start timer s = Ret s'"
  shows "s' = s\<lparr>rl_timer := True, rl_timer_flag := RL_TIMER_START\<rparr>"
  using assms by (simp add: rl_start_def split: if_splits)

lemma alloc_entity_plain:
  assumes "rl_alloc_entity malloc req c = Ret e"
  shows "rlaunch e = req \<and> plain_entity (Some e)"
  using assms by (auto simp: rl_alloc_entity_def plain_entity_def split: if_splits)

text \<open>The queue of a role is the requests started and then the one waiting.\<close>

definition sta_queue :: "'p rl_sys \<Rightarrow> 'p launch_req list" where
  "sta_queue s = sta_started (calls s) @ waiting (jl_following_sta s)"

definition ap_queue :: "'p rl_sys \<Rightarrow> 'p launch_req list" where
  "ap_queue s = ap_started (calls s) @ waiting (jl_following_ap s)"

lemma inv_bookkeeping:
  "rl_inv (s\<lparr>sta_socket := x, ap_socket := y\<rparr>) = rl_inv s"
  "rl_inv (s\<lparr>sta_cache := z\<rparr>) = rl_inv s"
  "rl_inv (s\<lparr>enter_timer := b\<rparr>) = rl_inv s"
  "rl_inv (s\<lparr>rl_timer := b\<rparr>) = rl_inv s"
  "sta_queue (s\<lparr>sta_socket := x, ap_socket := y\<rparr>) = sta_queue s"
  "sta_queue (s\<lparr>sta_cache := z\<rparr>) = sta_queue s"
  "sta_queue (s\<lparr>enter_timer := b\<rparr>) = sta_queue s"
  "sta_queue (s\<lparr>rl_timer := b\<rparr>) = sta_queue s"
  "ap_queue (s\<lparr>sta_socket := x, ap_socket := y\<rparr>) = ap_queue s"
  "ap_queue (s\<lparr>sta_cache := z\<rparr>) = ap_queue s"
  "ap_queue (s\<lparr>enter_timer := b\<rparr>) = ap_queue s"
  "ap_queue (s\<lparr>rl_timer := b\<rparr>) = ap_queue s"
  by (simp_all add: rl_inv_def idle_def sta_queue_def ap_queue_def)

lemma sta_enter_keeps:
  assumes enter: "sta_request_enter malloc timer req c s = Ret (ret, s')" and inv: "rl_inv s"
  shows "rl_inv s' \<and> sta_queue s' = sta_queue s @ taken True (Some (req, c)) (jl_following_sta s) \<and>
    ap_queue s' = ap_queue s \<and> jl_following_ap s' = jl_following_ap s"
proof (cases "idle s")
  case True
  with enter inv show ?thesis
    by (auto simp: sta_request_enter_def first_entity_def rl_inv_def idle_def sta_queue_def ap_queue_def
        taken_def split: c_run.splits if_splits dest!: alloc_entity_plain)
next
  case busy: False
  with inv have turn: "pre_entity_type s \<noteq> PRE_ENTITY_IDLE" by (auto simp: rl_inv_def)
  show ?thesis
  proof (cases "jl_following_sta s")
    case None
    from enter inv busy None obtain e where e: "rl_alloc_entity malloc req c = Ret e"
      and s': "s' = first_entity PRE_ENTITY_STA (s\<lparr>jl_following_sta := Some e, rl_timer := True,
        rl_timer_flag := RL_TIMER_START\<rparr>)"
      by (auto simp: sta_request_enter_def idle_def split: c_run.splits dest!: rl_start_frame)
    from alloc_entity_plain [OF e] inv busy turn None s' show ?thesis
      by (simp add: first_entity_def rl_inv_def idle_def sta_queue_def ap_queue_def taken_def)
  next
    case (Some e)
    with enter inv busy have "s' = s\<lparr>rl_timer := True, rl_timer_flag := RL_TIMER_START\<rparr>"
      by (auto simp: sta_request_enter_def idle_def split: c_run.splits dest!: rl_start_frame)
    with inv Some show ?thesis
      by (simp add: rl_inv_def idle_def sta_queue_def ap_queue_def taken_def)
  qed
qed

lemma ap_enter_keeps:
  assumes enter: "ap_request_enter malloc timer req c s = Ret (ret, s')" and inv: "rl_inv s"
  shows "rl_inv s' \<and> ap_queue s' = ap_queue s @ taken True (Some (req, c)) (jl_following_ap s) \<and>
    sta_queue s' = sta_queue s \<and> jl_following_sta s' = jl_following_sta s"
proof (cases "idle s")
  case True
  with enter inv show ?thesis
    by (auto simp: ap_request_enter_def first_entity_def rl_inv_def idle_def sta_queue_def ap_queue_def
        taken_def split: c_run.splits if_splits dest!: alloc_entity_plain)
next
  case busy: False
  with inv have turn: "pre_entity_type s \<noteq> PRE_ENTITY_IDLE" by (auto simp: rl_inv_def)
  show ?thesis
  proof (cases "jl_following_ap s")
    case None
    from enter inv busy None obtain e where e: "rl_alloc_entity malloc req c = Ret e"
      and s': "s' = first_entity PRE_ENTITY_AP (s\<lparr>jl_following_ap := Some e, rl_timer := True,
        rl_timer_flag := RL_TIMER_START\<rparr>)"
      by (auto simp: ap_request_enter_def idle_def split: c_run.splits dest!: rl_start_frame)
    from alloc_entity_plain [OF e] inv busy turn None s' show ?thesis
      by (simp add: first_entity_def rl_inv_def idle_def sta_queue_def ap_queue_def taken_def)
  next
    case (Some e)
    with enter inv busy have "s' = s\<lparr>rl_timer := True, rl_timer_flag := RL_TIMER_START\<rparr>"
      by (auto simp: ap_request_enter_def idle_def split: c_run.splits dest!: rl_start_frame)
    with inv Some show ?thesis
      by (simp add: rl_inv_def idle_def sta_queue_def ap_queue_def taken_def)
  qed
qed

lemma serve_sta_keeps:
  assumes "serve_sta malloc timer hit s = Ret s'" "rl_inv s"
  shows "rl_inv s' \<and> sta_queue s' = sta_queue s @ taken True hit (jl_following_sta s) \<and>
    ap_queue s' = ap_queue s \<and> jl_following_ap s' = jl_following_ap s"
proof (cases hit)
  case None
  with assms show ?thesis by (simp add: serve_sta_def taken_def)
next
  case (Some rc)
  obtain req c where rc: "rc = (req, c)" by (cases rc)
  with assms Some obtain ret t where enter: "sta_request_enter malloc timer req c s = Ret (ret, t)"
    and s': "s' = (if ret \<noteq> 0 then t\<lparr>sta_cache := Some (req, c)\<rparr> else t)"
    by (auto simp: serve_sta_def split: c_run.splits)
  from sta_enter_keeps [OF enter assms(2)] s' Some rc show ?thesis
    by (simp add: inv_bookkeeping)
qed

lemma serve_ap_keeps:
  assumes "serve_ap malloc timer hit s = Ret s'" "rl_inv s"
  shows "rl_inv s' \<and> ap_queue s' = ap_queue s @ taken True hit (jl_following_ap s) \<and>
    sta_queue s' = sta_queue s"
  using assms
  by (cases hit) (auto simp: serve_ap_def taken_def split: c_run.splits dest!: ap_enter_keeps)

lemma enter_handler_keeps:
  assumes handler: "rl_enter_handler malloc timer s = Ret s'" and inv: "rl_inv s"
  shows "rl_inv s' \<and>
    sta_queue s' = sta_queue s @ taken True (sta_socket s) (jl_following_sta s) \<and>
    ap_queue s' = ap_queue s @ taken True (ap_socket s) (jl_following_ap s)"
proof -
  let ?t = "s\<lparr>sta_socket := None, ap_socket := None\<rparr>"
  from handler obtain u where sta: "serve_sta malloc timer (sta_socket s) ?t = Ret u"
    and ap: "serve_ap malloc timer (ap_socket s) u = Ret s'"
    by (auto simp: rl_enter_handler_def split: c_run.splits)
  from inv have "rl_inv ?t" by (simp add: inv_bookkeeping)
  note a = serve_sta_keeps [OF sta this]
  from a serve_ap_keeps [OF ap] show ?thesis by (simp add: inv_bookkeeping)
qed

lemma launch_handler_queue:
  assumes "rl_launch_handler s = Ret s'" "rl_inv s"
  shows "rl_inv s' \<and> sta_queue s' = sta_queue s \<and> ap_queue s' = ap_queue s"
  using launch_handler_keeps [OF assms] by (simp add: queue_kept_def sta_queue_def ap_queue_def)

text \<open>What the other operations do not change.\<close>

definition rl_view where
  "rl_view s = (jl_previous_sta s, jl_following_sta s, jl_previous_ap s, jl_following_ap s,
     pre_entity_type s, sta_started (calls s), ap_started (calls s))"

lemma view_keeps:
  "rl_view s' = rl_view s \<Longrightarrow> rl_inv s' = rl_inv s \<and> sta_queue s' = sta_queue s \<and> ap_queue s' = ap_queue s"
  by (simp add: rl_view_def rl_inv_def idle_def sta_queue_def ap_queue_def)

lemma quiet_step:
  assumes "rl_step malloc timer e s = Ret s'" "e \<noteq> Enter_Expired" "e \<noteq> Launch_Expired"
  shows "rl_view s' = rl_view s"
  using assms
  by (cases e) (auto simp: rl_step_def rl_view_def rl_sta_request_enter_def
        rl_ap_request_enter_def rl_sta_cache_request_enter_def rl_pre_sta_set_status_def rl_pre_ap_set_status_def
        rl_pre_ap_disable_autobcn_def rl_pre_sta_clear_cancel_def rl_pre_ap_clear_cancel_def Let_def
        sta_started_def ap_started_def
      split: if_splits option.splits c_run.splits)

lemma step_keeps:
  assumes step: "rl_step malloc timer e s = Ret s'" and inv: "rl_inv s"
  shows "rl_inv s' \<and> sta_queue s' = sta_queue s @ sta_taken e s \<and> ap_queue s' = ap_queue s @ ap_taken e s"
proof (cases "e = Enter_Expired \<and> enter_timer s")
  case True
  with step have "rl_enter_handler malloc timer (s\<lparr>enter_timer := False\<rparr>) = Ret s'"
    by (simp add: rl_step_def)
  from enter_handler_keeps [OF this] inv True show ?thesis
    by (simp add: inv_bookkeeping sta_taken_def ap_taken_def)
next
  case quiet: False
  then have no_take: "sta_taken e s = []" "ap_taken e s = []"
    by (auto simp: sta_taken_def ap_taken_def taken_def)
  show ?thesis
  proof (cases "e = Launch_Expired \<and> rl_timer s")
    case True
    with step have "rl_launch_handler (s\<lparr>rl_timer := False\<rparr>) = Ret s'"
      by (simp add: rl_step_def)
    from launch_handler_queue [OF this] inv no_take show ?thesis
      by (simp add: inv_bookkeeping)
  next
    case False
    have "rl_view s' = rl_view s"
    proof (cases "e = Enter_Expired \<or> e = Launch_Expired")
      case True
      with False quiet step show ?thesis by (auto simp: rl_step_def)
    next
      case False
      with quiet_step [OF step] show ?thesis by simp
    qed
    from view_keeps [OF this] inv no_take show ?thesis by simp
  qed
qed

lemma reach_keeps:
  assumes "rl_reach sas aas s"
  shows "rl_inv s \<and> sta_queue s = sas \<and> ap_queue s = aas"
  using assms
proof (induction rule: rl_reach.induct)
  case (boot timer s)
  then show ?case
    by (auto simp: rl_init_def rl_zero_def rl_inv_def idle_def plain_entity_def sta_queue_def ap_queue_def
        split: if_splits)
next
  case (step sas aas s malloc timer e s')
  with step_keeps show ?case by metis
qed

section \<open>Whoever waits is served\<close>

text \<open>The launch timer runs as long as a request waits.\<close>

definition armed :: "'p rl_sys \<Rightarrow> bool" where
  "armed s \<longleftrightarrow> timers_made s \<and> (jl_following_sta s \<noteq> None \<or> jl_following_ap s \<noteq> None \<longrightarrow> rl_timer s)"

lemma request_start_timer [simp]:
  "rl_timer (rl_sta_request_start r s) = rl_timer s"
  "rl_timer (rl_ap_request_start r s) = rl_timer s"
  by (simp_all add: rl_sta_request_start_def rl_ap_request_start_def rl_pre_sta_init_def rl_pre_ap_init_def Let_def)

lemma first_entity_armed [simp]: "armed (first_entity tp s) = armed s"
  by (simp add: first_entity_def armed_def)



lemma armed_bookkeeping [simp]:
  "armed (s\<lparr>sta_socket := x, ap_socket := y\<rparr>) = armed s"
  "armed (s\<lparr>sta_cache := z\<rparr>) = armed s"
  "armed (s\<lparr>enter_timer := b\<rparr>) = armed s"
  by (simp_all add: armed_def)


















lemma reach_run:
  "rl_run malloc timer es s = Ret s' \<Longrightarrow> rl_reach sas aas s \<Longrightarrow> rl_reach (sta_queue s') (ap_queue s') s'"
proof (induction es arbitrary: s sas aas)
  case Nil
  with reach_keeps show ?case by fastforce
next
  case (Cons e es)
  from Cons.prems(1) obtain t where t: "rl_step malloc timer e s = Ret t" "rl_run malloc timer es t = Ret s'"
    by (auto split: c_run.splits)
  show ?case by (rule Cons.IH [OF t(2) rl_reach.step [OF Cons.prems(2) t(1)]])
qed

lemma run_from_boot:
  "rl_run malloc timer es rl_boot = Ret s \<Longrightarrow> rl_reach (sta_queue s) (ap_queue s) s"
  by (rule reach_run) (auto intro: rl_reach.boot [of True] simp: rl_init_def rl_boot_def)

text \<open>A station request while nothing is in progress, and one that waits behind it.\<close>

definition sta_req :: "nat \<Rightarrow> nat launch_req" where
  "sta_req n = \<lparr>descr = n, req_type = LAUNCH_REQ_STA\<rparr>"

definition ap_req :: "nat \<Rightarrow> nat launch_req" where
  "ap_req n = \<lparr>descr = n, req_type = LAUNCH_REQ_AP\<rparr>"

definition two_stations :: "nat rl_event list" where
  "two_stations = [Sta_Requested (sta_req 1) None, Enter_Expired, Sta_Requested (sta_req 2) None, Enter_Expired]"

lemma two_stations_run:
  obtains s where "rl_run True True two_stations rl_boot = Ret s" "rl_reach [sta_req 1, sta_req 2] [] s"
    "\<exists>e. jl_following_sta s = Some e" "jl_following_ap s = None" "pre_sta_status s = 0"
proof -
  have run: "case rl_run True True two_stations rl_boot of
      Ret s \<Rightarrow> sta_queue s = [sta_req 1, sta_req 2] \<and> ap_queue s = [] \<and> jl_following_sta s \<noteq> None \<and>
        jl_following_ap s = None \<and> pre_sta_status s = 0
    | _ \<Rightarrow> False"
    by code_simp
  then obtain s where s: "rl_run True True two_stations rl_boot = Ret s" by (auto split: c_run.splits)
  with run run_from_boot [OF s] that [of s] show ?thesis by auto
qed

section \<open>Properties\<close>

text \<open>
  C10: No request that was taken is lost, repeated or overtaken: in every reachable state the station requests
  started so far, followed by the one that waits, are exactly the ones the enter timer took, in
  the order it took them, and the same holds of the access point; nothing waits when no launch
  is in progress.
\<close>
theorem rl_requests_in_order:
  assumes "rl_reach sas aas s"
  shows "sta_started (calls s) @ waiting (jl_following_sta s) = sas \<and>
    ap_started (calls s) @ waiting (jl_following_ap s) = aas \<and>
    (jl_previous_sta s = None \<and> jl_previous_ap s = None \<longrightarrow>
       sta_started (calls s) = sas \<and> ap_started (calls s) = aas)"
  using reach_keeps [OF assms] by (auto simp: sta_queue_def ap_queue_def rl_inv_def idle_def)

theorem rl_requests_in_order_witness:
  "\<exists>s. rl_run True True two_stations rl_boot = Ret s \<and>
     sta_started (calls s) @ waiting (jl_following_sta s) = [sta_req 1, sta_req 2]"
  using two_stations_run rl_requests_in_order by metis

text \<open>
  The turn is only taken when the launcher was never used: after a first station launch is
  over the turn is the access point's, a new station request starts directly without taking it,
  and an access point request that should wait for it is launched at the next tick while the
  station launch has not reported anything. Both roles are then in progress, although a request
  starts directly only when neither is.
\<close>
theorem rl_both_roles_in_progress:
  "case rl_run True True
      (two_stations @
       [Sta_Status RL_STATUS_STA_LAUNCHED, Launch_Expired, Sta_Status RL_STATUS_STA_LAUNCHED, Launch_Expired,
        Sta_Requested (sta_req 3) None, Enter_Expired, Ap_Requested (ap_req 4) None, Enter_Expired,
        Launch_Expired]) rl_boot of
     Ret s \<Rightarrow> map_option rlaunch (jl_previous_sta s) = Some (sta_req 3) \<and>
       map_option rlaunch (jl_previous_ap s) = Some (ap_req 4) \<and>
       pre_sta_status s = 0 \<and> rl_sta_may_next_launch s = 0
   | _ \<Rightarrow> False"
  by code_simp



end
