(* ===== verification/Airkiss.thy ===== *)
theory Airkiss
  imports SDK_Prelude
begin

unbundle bit_operations_syntax

text \<open>
  The AirKiss decoder, \<open>beken378/app/airkiss/airkiss.c\<close>: Wi-Fi credentials sent as the lengths of
  encrypted frames. A frame is its MAC header and its length. The decoder locks on a source whose
  lengths count up by one, then reads a magic code, a prefix code and the data in groups of four.

  The record arrays of the union \<open>airkiss_data\<close> share their base and element type and are one list,
  \<open>code_record\<close>; the table of sources is apart. The two overlap in memory, but the union is
  cleared whenever the decoder goes from one to the other. An access outside an array, through a NULL pointer, or a
  shift of \<open>1\<close> by 31 or more is a \<open>Fault\<close>. The \<open>memset\<close> and \<open>memcpy\<close> of the configuration are the C
  ones, \<open>printf\<close> is left out.
\<close>

section \<open>State\<close>

definition PASSWORD_MAX_LEN :: nat where "PASSWORD_MAX_LEN = 32"
definition ESSID_MAX_LEN :: nat where "ESSID_MAX_LEN = 32"

definition USR_DATA_BUFF_MAX_SIZE :: nat where
  "USR_DATA_BUFF_MAX_SIZE = PASSWORD_MAX_LEN + 1 + ESSID_MAX_LEN"

definition MAX_SRC_NUM :: nat where "MAX_SRC_NUM = 10"
definition MAX_MAGIC_CODE_RECORD :: nat where "MAX_MAGIC_CODE_RECORD = 4"
definition MAX_PREFIX_CODE_RECORD :: nat where "MAX_PREFIX_CODE_RECORD = 4"
definition MAX_SEQ_CODE_RECORD :: nat where "MAX_SEQ_CODE_RECORD = 6"

datatype air_kiss_state = AIRKISS_STATE_STOPED | AIRKISS_STATE_IDLE | AIRKISS_STATE_SRC_LOCKED
  | AIRKISS_STATE_MAGIC_CODE_COMPLETE | AIRKISS_STATE_PREFIX_CODE_COMPLETE | AIRKISS_STATE_COMPLETE

datatype airkiss_status = AIRKISS_STATUS_CONTINUE | AIRKISS_STATUS_CHANNEL_LOCKED | AIRKISS_STATUS_COMPLETE

record src_info_st =
  crc :: u8
  rev_cnt :: u8
  ap_sta :: u8
  seq_cnt :: u8
  len :: u16
  seq :: u16

text \<open>\<open>pwd\<close> and \<open>ssid\<close> point into \<open>usr_data\<close>.\<close>

record airkiss_local_context =
  pwd :: "nat option"
  ssid :: "nat option"
  pswd_len :: u8
  ssid_len :: u8
  random_num :: u8
  ssid_crc :: u8
  usr_data :: "u8 list"
  airkiss_state :: air_kiss_state
  src_mac_crc :: u8
  src_ap_sta :: u8
  base_len :: u8
  need_seq :: u8
  total_len :: u8
  pswd_lencrc :: u8
  seq_success_map :: u16
  seq_success_map_cmp :: u16
  src_info :: "src_info_st list"
  src_num :: u8
  code_record :: "u16 list"

definition src_info_zero :: src_info_st where
  "src_info_zero = \<lparr>crc = 0, rev_cnt = 0, ap_sta = 0, seq_cnt = 0, len = 0, seq = 0\<rparr>"

definition airkiss_resest_data :: "airkiss_local_context \<Rightarrow> airkiss_local_context" where
  "airkiss_resest_data c =
     c\<lparr>src_info := replicate MAX_SRC_NUM src_info_zero, src_num := 0,
       code_record := replicate (MAX_SEQ_CODE_RECORD + 1) 0\<rparr>"

text \<open>The zeroed context with its state set, of \<open>airkiss_init\<close> and \<open>airkiss_change_channel\<close>.\<close>

definition airkiss_start :: airkiss_local_context where
  "airkiss_start =
     \<lparr>pwd = None, ssid = None, pswd_len = 0, ssid_len = 0, random_num = 0, ssid_crc = 0,
      usr_data = replicate USR_DATA_BUFF_MAX_SIZE 0, airkiss_state = AIRKISS_STATE_IDLE,
      src_mac_crc = 0, src_ap_sta = 0, base_len = 0, need_seq = 0, total_len = 0, pswd_lencrc = 0,
      seq_success_map = 0, seq_success_map_cmp = 0,
      src_info = replicate MAX_SRC_NUM src_info_zero, src_num = 0,
      code_record = replicate (MAX_SEQ_CODE_RECORD + 1) 0\<rparr>"

text \<open>\<open>given\<close> says whether both pointers are given; -1 leaves the context as it is.\<close>

definition airkiss_init :: "bool \<Rightarrow> airkiss_local_context \<Rightarrow> int \<times> airkiss_local_context" where
  "airkiss_init given c = (if \<not> given then (-1, c) else (0, airkiss_start))"

definition airkiss_change_channel :: "airkiss_local_context \<Rightarrow> airkiss_local_context" where
  "airkiss_change_channel c = airkiss_start"

section \<open>Checksum\<close>

text \<open>One round of the loop on the remainder and the byte.\<close>

definition crc_round :: "u8 \<times> u8 \<Rightarrow> u8 \<times> u8" where
  "crc_round p = (case p of (crc_1byte, abyte) \<Rightarrow>
     (if (crc_1byte XOR abyte) AND 0x01 \<noteq> 0
      then drop_bit 1 (crc_1byte XOR 0x18) OR 0x80
      else drop_bit 1 crc_1byte,
      drop_bit 1 abyte))"

definition calcrc_1byte :: "u8 \<Rightarrow> u8" where
  "calcrc_1byte abyte = fst ((crc_round ^^ 8) (0, abyte))"

definition calcrc_bytes :: "u8 list \<Rightarrow> u8" where
  "calcrc_bytes p = foldl (\<lambda>r b. calcrc_1byte (r XOR b)) 0 p"

section \<open>Frames\<close>

definition MAC_FCTRL_TYPE_MASK :: u16 where "MAC_FCTRL_TYPE_MASK = 0x000C"
definition MAC_FCTRL_DATA_T :: u16 where "MAC_FCTRL_DATA_T = 0x0008"
definition MAC_FCTRL_TODS :: u16 where "MAC_FCTRL_TODS = 0x0100"
definition MAC_FCTRL_FROMDS :: u16 where "MAC_FCTRL_FROMDS = 0x0200"
definition MAC_FCTRL_TODS_FROMDS :: u16 where "MAC_FCTRL_TODS_FROMDS = MAC_FCTRL_TODS OR MAC_FCTRL_FROMDS"

record mac_hdr =
  fctl :: u16
  durid :: u16
  addr1 :: "u8 list"
  addr2 :: "u8 list"
  addr3 :: "u8 list"
  hdr_seq :: u16

definition airkiss_filter :: "airkiss_local_context \<Rightarrow> mac_hdr \<Rightarrow> u16 \<Rightarrow> bool c_run" where
  "airkiss_filter c h flen =
     (if MAC_FCTRL_DATA_T \<noteq> fctl h AND MAC_FCTRL_TYPE_MASK then Ret False
      else if unat flen < unat (base_len c) \<or> unat (base_len c) + 512 < unat flen then Ret False
      else if fctl h AND MAC_FCTRL_TODS_FROMDS = MAC_FCTRL_FROMDS then
        (if src_ap_sta c \<noteq> 1 then Ret False else Ret (src_mac_crc c = calcrc_bytes (addr3 h)))
      else if fctl h AND MAC_FCTRL_TODS_FROMDS = MAC_FCTRL_TODS then
        (if src_ap_sta c \<noteq> 2 then Ret False else Ret (src_mac_crc c = calcrc_bytes (addr2 h)))
      else Fault)"

definition airkiss_discover_filter :: "mac_hdr \<Rightarrow> u16 \<Rightarrow> bool" where
  "airkiss_discover_filter h flen \<longleftrightarrow>
     MAC_FCTRL_DATA_T = fctl h AND MAC_FCTRL_TYPE_MASK \<and> \<not> (flen < 24 \<or> 1024 < flen)"

section \<open>Locking on a source\<close>

text \<open>The first loop: the entry of this source, reading entries up to \<open>src_num\<close>.\<close>

function find_src :: "src_info_st list \<Rightarrow> nat \<Rightarrow> nat \<Rightarrow> u8 \<Rightarrow> u8 \<Rightarrow> nat c_run" where
  "find_src tbl n i mac_crc ap =
     (if n \<le> i then Ret n
      else if length tbl \<le> i then Fault
      else if crc (tbl ! i) = mac_crc \<and> ap_sta (tbl ! i) = ap then Ret i
      else find_src tbl n (Suc i) mac_crc ap)"
  by pat_completeness auto
termination
  by (relation "measure (\<lambda>(tbl, n, i, mac_crc, ap). n - i)") auto

declare find_src.simps [simp del]

text \<open>The least received of the ten sources.\<close>

definition least_src :: "src_info_st list \<Rightarrow> nat" where
  "least_src tbl =
     snd (fold (\<lambda>i (min_rev_cnt, min_idx).
            if rev_cnt (tbl ! i) < min_rev_cnt then (rev_cnt (tbl ! i), i) else (min_rev_cnt, min_idx))
          [0..<MAX_SRC_NUM] ((255 :: u8), 0))"

definition airkiss_add_src_macinfo ::
    "u8 \<Rightarrow> u8 \<Rightarrow> u16 \<Rightarrow> u16 \<Rightarrow> airkiss_local_context \<Rightarrow> (bool \<times> airkiss_local_context) c_run" where
  "airkiss_add_src_macinfo mac_crc ap f_len f_seq c =
     (case find_src (src_info c) (unat (src_num c)) 0 mac_crc ap of
        Assert_Stop \<Rightarrow> Assert_Stop
      | Fault \<Rightarrow> Fault
      | Ret i \<Rightarrow>
          if i < unat (src_num c) then
            (let e = src_info c ! i in
             if seq e = f_seq then Ret (False, c)
             else
               (let e1 = e\<lparr>seq_cnt := (if unat f_len = unat (len e) + 1 then seq_cnt e + 1 else 0),
                          len := f_len, seq := f_seq, rev_cnt := rev_cnt e + 1\<rparr>;
                    c1 = c\<lparr>src_info := (src_info c)[i := e1]\<rparr>
                in if seq_cnt e1 = 3
                   then Ret (True, c1\<lparr>base_len := ucast (len e1 - 4), src_ap_sta := ap_sta e1, src_mac_crc := crc e1\<rparr>)
                   else Ret (False, c1)))
          else
            (let k = (if unat (src_num c) = MAX_SRC_NUM then least_src (src_info c) else i) in
             if length (src_info c) \<le> k then Fault
             else Ret (False, c\<lparr>src_info := (src_info c)[k := \<lparr>crc = mac_crc, rev_cnt = 1, ap_sta = ap,
                                   seq_cnt = 0, len = f_len, seq = f_seq\<rparr>],
                               src_num := src_num c + 1\<rparr>)))"

definition airkiss_recv_discover :: "mac_hdr \<Rightarrow> u16 \<Rightarrow> airkiss_local_context \<Rightarrow> (bool \<times> airkiss_local_context) c_run" where
  "airkiss_recv_discover h flen c =
     (let src = (if fctl h AND MAC_FCTRL_TODS_FROMDS = MAC_FCTRL_FROMDS then Some (addr3 h, 1)
                 else if fctl h AND MAC_FCTRL_TODS_FROMDS = MAC_FCTRL_TODS then Some (addr2 h, 2)
                 else None)
      in case src of
           None \<Rightarrow> Fault
         | Some (mac, ap) \<Rightarrow>
             (case airkiss_add_src_macinfo (calcrc_bytes mac) ap flen (drop_bit 4 (hdr_seq h)) c of
                Ret (success, c1) \<Rightarrow>
                  Ret (success, if success
                                then airkiss_resest_data (c1\<lparr>airkiss_state := AIRKISS_STATE_SRC_LOCKED\<rparr>)
                                else c1)
              | Assert_Stop \<Rightarrow> Assert_Stop | Fault \<Rightarrow> Fault))"

section \<open>Codes\<close>

definition airkiss_record_move_ones :: "nat \<Rightarrow> u16 list \<Rightarrow> u16 list" where
  "airkiss_record_move_ones record_num r = fold (\<lambda>i r. r[i := r ! Suc i]) [0..<record_num] r"

definition record_in :: "nat \<Rightarrow> u16 \<Rightarrow> airkiss_local_context \<Rightarrow> airkiss_local_context" where
  "record_in n flen c =
     c\<lparr>code_record := airkiss_record_move_ones n ((code_record c)[n := flen - ucast (base_len c)])\<rparr>"

definition airkiss_process_magic_code :: "u16 \<Rightarrow> airkiss_local_context \<Rightarrow> airkiss_local_context" where
  "airkiss_process_magic_code flen c0 =
     (let c = record_in MAX_MAGIC_CODE_RECORD flen c0; r = code_record c in
      if (r ! 0) AND 0x01f0 = 0x0000 \<and> (r ! 1) AND 0x01f0 = 0x0010 \<and>
         (r ! 2) AND 0x01f0 = 0x0020 \<and> (r ! 3) AND 0x01f0 = 0x0030
      then airkiss_resest_data
             (c\<lparr>total_len := ucast (push_bit 4 ((r ! 0) AND 0x0007) + ((r ! 1) AND 0x000F)),
                ssid_crc := ucast (push_bit 4 ((r ! 2) AND 0x000F) + ((r ! 3) AND 0x000F)),
                airkiss_state := AIRKISS_STATE_MAGIC_CODE_COMPLETE\<rparr>)
      else c)"

definition airkiss_process_prefix_code :: "u16 \<Rightarrow> airkiss_local_context \<Rightarrow> airkiss_local_context c_run" where
  "airkiss_process_prefix_code flen c0 =
     (let c = record_in MAX_PREFIX_CODE_RECORD flen c0; r = code_record c in
      if (r ! 0) AND 0x01f0 = 0x0040 \<and> (r ! 1) AND 0x01f0 = 0x0050 \<and>
         (r ! 2) AND 0x01f0 = 0x0060 \<and> (r ! 3) AND 0x01f0 = 0x0070
      then
        (let n = ucast (push_bit 4 ((r ! 0) AND 0x000F) + ((r ! 1) AND 0x000F)) :: u8;
             c1 = c\<lparr>pswd_len := (if PASSWORD_MAX_LEN < unat n then 0 else n),
                    pswd_lencrc := ucast (push_bit 4 ((r ! 2) AND 0x000F) + ((r ! 3) AND 0x000F))\<rparr>
         in if calcrc_1byte (pswd_len c1) \<noteq> pswd_lencrc c1 then Ret (airkiss_resest_data c1)
            else
              (let need = (unat (total_len c1) + 3) div 4 in
               if 31 \<le> need then Fault
               else Ret (airkiss_resest_data
                     (c1\<lparr>airkiss_state := AIRKISS_STATE_PREFIX_CODE_COMPLETE, need_seq := of_nat need,
                         seq_success_map_cmp := of_nat (2 ^ need - 1)\<rparr>))))
      else Ret c)"

definition airkiss_add_seq_data :: "u8 list \<Rightarrow> nat \<Rightarrow> airkiss_local_context \<Rightarrow> airkiss_local_context" where
  "airkiss_add_seq_data data s c =
     (if s < unat (need_seq c) \<and> s * 4 + 4 \<le> USR_DATA_BUFF_MAX_SIZE \<and> \<not> bit (seq_success_map c) s
      then c\<lparr>usr_data := blit (usr_data c) (s * 4) data,
             seq_success_map := seq_success_map c OR push_bit s 1\<rparr>
      else c)"

text \<open>The end: where the two strings are, and their terminators.\<close>

definition airkiss_finish :: "airkiss_local_context \<Rightarrow> airkiss_local_context c_run" where
  "airkiss_finish c =
     (let p = unat (pswd_len c);
          n = total_len c - pswd_len c;
          e = p + 1 + unat n
      in if length (usr_data c) \<le> p \<or> length (usr_data c) \<le> e then Fault
         else Ret (c\<lparr>random_num := usr_data c ! p, usr_data := (usr_data c)[p := 0, e := 0],
                     pwd := Some 0, ssid_len := n, ssid := Some (p + 1),
                     airkiss_state := AIRKISS_STATE_COMPLETE\<rparr>))"

text \<open>The data bytes of a group: the low bytes of the codes after the two of its head, as long as they are data codes.\<close>

definition group_data :: "u16 list \<Rightarrow> nat \<Rightarrow> u8 list option" where
  "group_data r n =
     (if \<forall>i<n. (r ! (2 + i)) AND 0x0100 = 0x0100 then Some (map (\<lambda>i. ucast (r ! (2 + i))) [0..<n]) else None)"

definition airkiss_process_sequence :: "u16 \<Rightarrow> airkiss_local_context \<Rightarrow> airkiss_local_context c_run" where
  "airkiss_process_sequence flen c0 =
     (let c = record_in MAX_SEQ_CODE_RECORD flen c0; r = code_record c in
      if (r ! 0) AND 0x180 = 0x80 \<and> (r ! 1) AND 0x180 = 0x80 then
        (let seq_crc = ucast ((r ! 0) AND 0x7F) :: u8;
             cur_seq = ucast ((r ! 1) AND 0x7F) :: u8
         in if 31 \<le> unat cur_seq then Fault
            else if bit (seq_success_map c) (unat cur_seq) then Ret c
            else if unat cur_seq \<le> unat (total_len c) div 4 + 1 then
              (let left = unat (total_len c - push_bit 2 cur_seq); seq_byte = min 4 left in
               case group_data r seq_byte of
                 None \<Rightarrow> Ret c
               | Some d \<Rightarrow>
                   if seq_crc = calcrc_bytes (cur_seq # d) AND 0x7F then
                     (let c1 = airkiss_resest_data
                                 (airkiss_add_seq_data (d @ replicate (4 - seq_byte) 0) (unat cur_seq) c)
                      in if seq_success_map_cmp c1 = seq_success_map c1 then airkiss_finish c1 else Ret c1)
                   else Ret c)
            else Ret c)
      else Ret c)"

section \<open>Receiving\<close>

definition airkiss_recv :: "mac_hdr \<Rightarrow> u16 \<Rightarrow> airkiss_local_context \<Rightarrow> (airkiss_status \<times> airkiss_local_context) c_run" where
  "airkiss_recv h flen c =
     (case (if airkiss_state c \<noteq> AIRKISS_STATE_IDLE then airkiss_filter c h flen else Ret True) of
        Assert_Stop \<Rightarrow> Assert_Stop
      | Fault \<Rightarrow> Fault
      | Ret False \<Rightarrow> Ret (AIRKISS_STATUS_CONTINUE, c)
      | Ret True \<Rightarrow>
          (case airkiss_state c of
             AIRKISS_STATE_IDLE \<Rightarrow>
               if airkiss_discover_filter h flen then
                 (case airkiss_recv_discover h flen c of
                    Ret (locked, c1) \<Rightarrow>
                      Ret (if locked then AIRKISS_STATUS_CHANNEL_LOCKED else AIRKISS_STATUS_CONTINUE, c1)
                  | Assert_Stop \<Rightarrow> Assert_Stop | Fault \<Rightarrow> Fault)
               else Ret (AIRKISS_STATUS_CONTINUE, c)
           | AIRKISS_STATE_SRC_LOCKED \<Rightarrow> Ret (AIRKISS_STATUS_CONTINUE, airkiss_process_magic_code flen c)
           | AIRKISS_STATE_MAGIC_CODE_COMPLETE \<Rightarrow>
               (case airkiss_process_prefix_code flen c of
                  Ret c1 \<Rightarrow> Ret (AIRKISS_STATUS_CONTINUE, c1)
                | Assert_Stop \<Rightarrow> Assert_Stop | Fault \<Rightarrow> Fault)
           | AIRKISS_STATE_PREFIX_CODE_COMPLETE \<Rightarrow>
               (case airkiss_process_sequence flen c of
                  Ret c1 \<Rightarrow>
                    Ret (if airkiss_state c1 = AIRKISS_STATE_COMPLETE then AIRKISS_STATUS_COMPLETE
                         else AIRKISS_STATUS_CONTINUE, c1)
                | Assert_Stop \<Rightarrow> Assert_Stop | Fault \<Rightarrow> Fault)
           | _ \<Rightarrow> Ret (AIRKISS_STATUS_CONTINUE, c\<lparr>airkiss_state := AIRKISS_STATE_IDLE\<rparr>)))"

section \<open>A sender\<close>

text \<open>
  The frames of one source, \<open>ap\<close> 1 for an access point and 2 for a station, and the codes that a
  sender adds to its base length: the guide, the total length with a checksum of the network name, the
  length of the password, and the data, four bytes a group.
\<close>

fun airkiss_run :: "(mac_hdr \<times> u16) list \<Rightarrow> airkiss_status \<times> airkiss_local_context
    \<Rightarrow> (airkiss_status \<times> airkiss_local_context) c_run" where
  "airkiss_run [] sc = Ret sc"
| "airkiss_run ((h, n) # fs) (s, c) =
     (case airkiss_recv h n c of
        Ret sc \<Rightarrow> airkiss_run fs sc | Assert_Stop \<Rightarrow> Assert_Stop | Fault \<Rightarrow> Fault)"

definition from_src :: "u8 \<Rightarrow> u8 list \<Rightarrow> mac_hdr \<Rightarrow> bool" where
  "from_src ap mac h \<longleftrightarrow> fctl h AND MAC_FCTRL_TYPE_MASK = MAC_FCTRL_DATA_T \<and>
     (ap = 1 \<and> fctl h AND MAC_FCTRL_TODS_FROMDS = MAC_FCTRL_FROMDS \<and> addr3 h = mac \<or>
      ap = 2 \<and> fctl h AND MAC_FCTRL_TODS_FROMDS = MAC_FCTRL_TODS \<and> addr2 h = mac)"

definition nibbles :: "u16 \<Rightarrow> u8 \<Rightarrow> u16 list" where
  "nibbles tag b = [tag + of_nat (unat b div 16), tag + 0x10 + of_nat (unat b mod 16)]"

definition chunk :: "u8 list \<Rightarrow> nat \<Rightarrow> u8 list" where
  "chunk data i = take 4 (drop (4 * i) data)"

definition group_codes :: "u8 list \<Rightarrow> u16 list \<Rightarrow> nat \<Rightarrow> u16 list" where
  "group_codes data fill i =
     [0x80 OR ucast (calcrc_bytes (of_nat i # chunk data i) AND 0x7F), 0x80 OR of_nat i] @
     map (\<lambda>b. 0x100 OR ucast b) (chunk data i) @ take (4 - length (chunk data i)) fill"

definition airkiss_codes :: "u8 list \<Rightarrow> u8 \<Rightarrow> u8 \<Rightarrow> u16 list \<Rightarrow> nat list \<Rightarrow> u16 list" where
  "airkiss_codes data pn scrc fill order =
     [1, 2, 3, 4] @ nibbles 0x00 (of_nat (length data)) @ nibbles 0x20 scrc @
     nibbles 0x40 pn @ nibbles 0x60 (calcrc_1byte pn) @ concat (map (group_codes data fill) order)"

definition frames :: "mac_hdr list \<Rightarrow> u8 \<Rightarrow> u16 list \<Rightarrow> (mac_hdr \<times> u16) list" where
  "frames hdrs base codes = zip hdrs (map (\<lambda>k. ucast base + k) codes)"

lemma airkiss_run_append:
  "airkiss_run (as @ bs) sc =
     (case airkiss_run as sc of
        Ret sc' \<Rightarrow> airkiss_run bs sc' | Assert_Stop \<Rightarrow> Assert_Stop | Fault \<Rightarrow> Fault)"
proof (induction as arbitrary: sc)
  case (Cons f as)
  obtain h n s c where "f = (h, n)" "sc = (s, c)" by (metis surj_pair)
  with Cons show ?case by (simp split: c_run.split)
qed simp

lemma frames_append:
  "length ha = length ca \<Longrightarrow> frames (ha @ hb) base (ca @ cb) = frames ha base ca @ frames hb base cb"
  by (simp add: frames_def)

lemma frames_simps [simp]:
  "frames [] base codes = []" "frames hdrs base [] = []"
  "frames (h # hs) base (k # ks) = (h, ucast base + k) # frames hs base ks"
  by (simp_all add: frames_def)

section \<open>Frames of the locked source pass\<close>

lemma unat_frame_len:
  "k \<le> 512 \<Longrightarrow> unat (ucast (base :: u8) + k :: u16) = unat base + unat k"
proof -
  assume "k \<le> 512"
  then have "unat k \<le> 512" by (simp add: word_le_nat_alt)
  moreover have "unat base < 256" using unsigned_less [of base] by simp
  moreover have "unat (ucast base :: u16) = unat base"
    by (simp add: unsigned_ucast_eq take_bit_nat_eq_self order_less_trans [OF \<open>unat base < 256\<close>])
  ultimately show ?thesis by (simp add: unat_word_ariths)
qed

lemma filter_passes:
  assumes "from_src ap mac h" "src_ap_sta c = ap" "src_mac_crc c = calcrc_bytes mac" "k \<le> 512"
    "base_len c = base"
  shows "airkiss_filter c h (ucast base + k) = Ret True"
proof -
  have "MAC_FCTRL_FROMDS \<noteq> MAC_FCTRL_TODS" by (simp add: MAC_FCTRL_FROMDS_def MAC_FCTRL_TODS_def)
  with assms show ?thesis
    by (auto simp: airkiss_filter_def from_src_def unat_frame_len word_le_nat_alt)
qed

lemma recv_locked:
  assumes "from_src ap mac h" "src_ap_sta c = ap" "src_mac_crc c = calcrc_bytes mac" "k \<le> 512"
    "base_len c = base"
  shows "airkiss_state c = AIRKISS_STATE_SRC_LOCKED \<Longrightarrow>
      airkiss_recv h (ucast base + k) c =
        Ret (AIRKISS_STATUS_CONTINUE, airkiss_process_magic_code (ucast base + k) c)"
    "airkiss_state c = AIRKISS_STATE_MAGIC_CODE_COMPLETE \<Longrightarrow>
      airkiss_process_prefix_code (ucast base + k) c = Ret c' \<Longrightarrow>
      airkiss_recv h (ucast base + k) c = Ret (AIRKISS_STATUS_CONTINUE, c')"
    "airkiss_state c = AIRKISS_STATE_PREFIX_CODE_COMPLETE \<Longrightarrow>
      airkiss_process_sequence (ucast base + k) c = Ret c' \<Longrightarrow>
      airkiss_recv h (ucast base + k) c =
        Ret (if airkiss_state c' = AIRKISS_STATE_COMPLETE then AIRKISS_STATUS_COMPLETE
             else AIRKISS_STATUS_CONTINUE, c')"
  by (simp_all add: airkiss_recv_def filter_passes [OF assms])

section \<open>The guide code\<close>

lemma recv_guide:
  assumes "from_src ap mac h" "airkiss_state c = AIRKISS_STATE_IDLE" "23 \<le> base" "k \<in> {1, 2, 3, 4}"
    "airkiss_add_src_macinfo (calcrc_bytes mac) ap (ucast (base :: u8) + k) (drop_bit 4 (hdr_seq h)) c = Ret (locked, c1)"
  shows "airkiss_recv h (ucast base + k) c =
    Ret (if locked then (AIRKISS_STATUS_CHANNEL_LOCKED, airkiss_resest_data (c1\<lparr>airkiss_state := AIRKISS_STATE_SRC_LOCKED\<rparr>))
         else (AIRKISS_STATUS_CONTINUE, c1))"
proof -
  have k: "k \<le> 512" and pos: "1 \<le> unat k" "unat k \<le> 4" using assms(4) by auto
  have base: "23 \<le> unat base" using assms(3) by (simp add: word_le_nat_alt)
  have "unat base < 256" using unsigned_less [of base] by simp
  with base pos have "24 \<le> ucast base + k" "ucast base + k \<le> 1024"
    unfolding word_le_nat_alt unat_frame_len [OF k] by simp_all
  moreover have "MAC_FCTRL_FROMDS \<noteq> MAC_FCTRL_TODS" by (simp add: MAC_FCTRL_FROMDS_def MAC_FCTRL_TODS_def)
  ultimately show ?thesis
    using assms by (auto simp: airkiss_recv_def airkiss_discover_filter_def from_src_def
        airkiss_recv_discover_def not_less)
qed

text \<open>After some guide frames of one source: one entry, whose length is \<open>n\<close>.\<close>

definition guided :: "u8 \<Rightarrow> u8 \<Rightarrow> u8 \<Rightarrow> u8 \<Rightarrow> u16 \<Rightarrow> u16 \<Rightarrow> airkiss_local_context" where
  "guided mac_crc ap cnt got n sq =
     airkiss_start\<lparr>src_info := \<lparr>crc = mac_crc, rev_cnt = got, ap_sta = ap, seq_cnt = cnt, len = n, seq = sq\<rparr>
                     # replicate 9 src_info_zero, src_num := 1\<rparr>"

lemma add_first_src:
  "airkiss_add_src_macinfo mac_crc ap n sq airkiss_start = Ret (False, guided mac_crc ap 0 1 n sq)"
  by (simp add: airkiss_add_src_macinfo_def airkiss_start_def guided_def find_src.simps MAX_SRC_NUM_def
      numeral_eq_Suc)

lemma add_next_src:
  assumes "unat n' = unat n + 1" "sq' \<noteq> sq"
  shows "cnt \<noteq> 2 \<Longrightarrow> airkiss_add_src_macinfo mac_crc ap n' sq' (guided mac_crc ap cnt got n sq) =
      Ret (False, guided mac_crc ap (cnt + 1) (got + 1) n' sq')"
    "airkiss_add_src_macinfo mac_crc ap n' sq' (guided mac_crc ap 2 got n sq) =
      Ret (True, (guided mac_crc ap 3 (got + 1) n' sq')
        \<lparr>base_len := ucast (n' - 4), src_ap_sta := ap, src_mac_crc := mac_crc\<rparr>)"
  using assms
  by (auto simp: airkiss_add_src_macinfo_def guided_def find_src.simps Let_def airkiss_start_def)

definition locked_on :: "u8 \<Rightarrow> u8 \<Rightarrow> u8 list \<Rightarrow> airkiss_local_context" where
  "locked_on base ap mac =
     airkiss_start\<lparr>airkiss_state := AIRKISS_STATE_SRC_LOCKED, base_len := base, src_ap_sta := ap,
       src_mac_crc := calcrc_bytes mac\<rparr>"

lemma guide_locks:
  assumes src: "from_src ap mac h" "from_src ap mac i" "from_src ap mac j" "from_src ap mac k"
    and base: "23 \<le> base"
    and seqs: "drop_bit 4 (hdr_seq i) \<noteq> drop_bit 4 (hdr_seq h)" "drop_bit 4 (hdr_seq j) \<noteq> drop_bit 4 (hdr_seq i)"
      "drop_bit 4 (hdr_seq k) \<noteq> drop_bit 4 (hdr_seq j)"
  shows "airkiss_run (frames [h, i, j, k] base [1, 2, 3, 4]) (s, airkiss_start) =
    Ret (AIRKISS_STATUS_CHANNEL_LOCKED, locked_on base ap mac)"
proof -
  have idle: "airkiss_state airkiss_start = AIRKISS_STATE_IDLE"
    "airkiss_state (guided m a cnt got n sq) = AIRKISS_STATE_IDLE" for m a cnt got n sq
    by (simp_all add: airkiss_start_def guided_def)
  have up: "unat (ucast base + 2 :: u16) = unat (ucast base + 1 :: u16) + 1"
    "unat (ucast base + 3 :: u16) = unat (ucast base + 2 :: u16) + 1"
    "unat (ucast base + 4 :: u16) = unat (ucast base + 3 :: u16) + 1"
    by (simp_all add: unat_frame_len)
  have last: "airkiss_resest_data ((guided (calcrc_bytes mac) ap 3 4 (ucast base + 4) q)
        \<lparr>base_len := base, src_ap_sta := ap, src_mac_crc := calcrc_bytes mac, airkiss_state := AIRKISS_STATE_SRC_LOCKED\<rparr>)
      = locked_on base ap mac" for q
    by (simp add: airkiss_resest_data_def guided_def locked_on_def airkiss_start_def)
  have narrow: "ucast (ucast base :: u16) = base"
    by (rule bit_word_eqI) (auto simp: bit_simps)
  let ?g = "\<lambda>n k h. guided (calcrc_bytes mac) ap n (n + 1) (ucast base + k) (drop_bit 4 (hdr_seq h))"
  have "airkiss_recv h (ucast base + 1) airkiss_start = Ret (AIRKISS_STATUS_CONTINUE, ?g 0 1 h)"
    using recv_guide [OF src(1) idle(1) base _ add_first_src] by simp
  moreover have "airkiss_recv i (ucast base + 2) (?g 0 1 h) = Ret (AIRKISS_STATUS_CONTINUE, ?g 1 2 i)"
    using recv_guide [OF src(2) idle(2) base _ add_next_src(1) [OF up(1) seqs(1)]] by simp
  moreover have "airkiss_recv j (ucast base + 3) (?g 1 2 i) = Ret (AIRKISS_STATUS_CONTINUE, ?g 2 3 j)"
    using recv_guide [OF src(3) idle(2) base _ add_next_src(1) [OF up(2) seqs(2)]] by simp
  moreover have "airkiss_recv k (ucast base + 4) (?g 2 3 j) =
      Ret (AIRKISS_STATUS_CHANNEL_LOCKED, locked_on base ap mac)"
    using recv_guide [OF src(4) idle(2) base _ add_next_src(2) [OF up(3) seqs(3)]] last narrow by simp
  ultimately show ?thesis by simp
qed

section \<open>The magic and prefix codes\<close>

lemma record_in_code:
  "record_in n (ucast (base_len c) + k) c = c\<lparr>code_record := airkiss_record_move_ones n ((code_record c)[n := k])\<rparr>"
  by (simp add: record_in_def)

lemmas shift_records = airkiss_record_move_ones_def MAX_MAGIC_CODE_RECORD_def MAX_PREFIX_CODE_RECORD_def
  MAX_SEQ_CODE_RECORD_def upt_rec

lemma magic_step:
  assumes "code_record c = [a, b, d, e, x, y, z]" "n = ucast base + k" "base_len c = base"
  shows "b AND 0x01f0 \<noteq> 0 \<or> d AND 0x01f0 \<noteq> 0x10 \<or> e AND 0x01f0 \<noteq> 0x20 \<or> k AND 0x01f0 \<noteq> 0x30 \<Longrightarrow>
      airkiss_process_magic_code n c = c\<lparr>code_record := [b, d, e, k, k, y, z]\<rparr>"
    "b AND 0x01f0 = 0 \<Longrightarrow> d AND 0x01f0 = 0x10 \<Longrightarrow> e AND 0x01f0 = 0x20 \<Longrightarrow> k AND 0x01f0 = 0x30 \<Longrightarrow>
      airkiss_process_magic_code n c = airkiss_resest_data
        (c\<lparr>total_len := ucast (push_bit 4 (b AND 7) + (d AND 15)),
          ssid_crc := ucast (push_bit 4 (e AND 15) + (k AND 15)),
          airkiss_state := AIRKISS_STATE_MAGIC_CODE_COMPLETE\<rparr>)"
  using assms
  by (auto simp: airkiss_process_magic_code_def record_in_code Let_def shift_records airkiss_resest_data_def)

lemma prefix_step:
  assumes "code_record c = [a, b, d, e, x, y, z]" "n = ucast base + k" "base_len c = base"
  shows "b AND 0x01f0 \<noteq> 0x40 \<or> d AND 0x01f0 \<noteq> 0x50 \<or> e AND 0x01f0 \<noteq> 0x60 \<or> k AND 0x01f0 \<noteq> 0x70 \<Longrightarrow>
      airkiss_process_prefix_code n c = Ret (c\<lparr>code_record := [b, d, e, k, k, y, z]\<rparr>)" (is "?no \<Longrightarrow> ?goal")
    "b AND 0x01f0 = 0x40 \<Longrightarrow> d AND 0x01f0 = 0x50 \<Longrightarrow> e AND 0x01f0 = 0x60 \<Longrightarrow> k AND 0x01f0 = 0x70 \<Longrightarrow>
      ucast (push_bit 4 (b AND 15) + (d AND 15)) = (pn :: u8) \<Longrightarrow> unat pn \<le> PASSWORD_MAX_LEN \<Longrightarrow>
      ucast (push_bit 4 (e AND 15) + (k AND 15)) = calcrc_1byte pn \<Longrightarrow>
      (unat (total_len c) + 3) div 4 < 31 \<Longrightarrow>
      airkiss_process_prefix_code n c = Ret (airkiss_resest_data
        (c\<lparr>pswd_len := pn, pswd_lencrc := calcrc_1byte pn, airkiss_state := AIRKISS_STATE_PREFIX_CODE_COMPLETE,
          need_seq := of_nat ((unat (total_len c) + 3) div 4),
          seq_success_map_cmp := of_nat (2 ^ ((unat (total_len c) + 3) div 4) - 1)\<rparr>))"
proof -
  define c1 where "c1 = c\<lparr>code_record := [b, d, e, k, k, y, z]\<rparr>"
  have r: "record_in MAX_PREFIX_CODE_RECORD n c = c1" "code_record c1 = [b, d, e, k, k, y, z]"
    "total_len c1 = total_len c"
    using assms by (simp_all add: record_in_def shift_records c1_def)
  have nth: "[b, d, e, k, k, y, z] ! 0 = b" "[b, d, e, k, k, y, z] ! 1 = d"
    "[b, d, e, k, k, y, z] ! 2 = e" "[b, d, e, k, k, y, z] ! 3 = k" by simp_all
  note unfolded = airkiss_process_prefix_code_def Let_def r nth
  show "?no \<Longrightarrow> ?goal"
    unfolding unfolded by (auto simp: c1_def)
  show "airkiss_process_prefix_code n c = Ret (airkiss_resest_data
        (c\<lparr>pswd_len := pn, pswd_lencrc := calcrc_1byte pn, airkiss_state := AIRKISS_STATE_PREFIX_CODE_COMPLETE,
          need_seq := of_nat ((unat (total_len c) + 3) div 4),
          seq_success_map_cmp := of_nat (2 ^ ((unat (total_len c) + 3) div 4) - 1)\<rparr>))"
    if code: "b AND 0x01f0 = 0x40" "d AND 0x01f0 = 0x50" "e AND 0x01f0 = 0x60" "k AND 0x01f0 = 0x70"
      and pn: "ucast (push_bit 4 (b AND 15) + (d AND 15)) = (pn :: u8)" "unat pn \<le> PASSWORD_MAX_LEN"
      "ucast (push_bit 4 (e AND 15) + (k AND 15)) = calcrc_1byte pn"
      and need: "(unat (total_len c) + 3) div 4 < 31"
  proof -
    from pn(2) have small: "(if PASSWORD_MAX_LEN < unat pn then 0 else pn) = pn" by simp
    show ?thesis
      unfolding unfolded code pn small using need
      by (simp add: r c1_def airkiss_resest_data_def)
  qed
qed

definition no_record :: "u16 list" where
  "no_record = [0, 0, 0, 0, 0, 0, 0]"

lemma resest_record [simp]: "code_record (airkiss_resest_data c) = no_record"
  by (simp add: airkiss_resest_data_def no_record_def MAX_SEQ_CODE_RECORD_def numeral_eq_Suc)

lemma resest_frame [simp]:
  "src_ap_sta (airkiss_resest_data c) = src_ap_sta c" "src_mac_crc (airkiss_resest_data c) = src_mac_crc c"
  "base_len (airkiss_resest_data c) = base_len c" "total_len (airkiss_resest_data c) = total_len c"
  "pswd_len (airkiss_resest_data c) = pswd_len c" "need_seq (airkiss_resest_data c) = need_seq c"
  "ssid_crc (airkiss_resest_data c) = ssid_crc c"
  "usr_data (airkiss_resest_data c) = usr_data c" "airkiss_state (airkiss_resest_data c) = airkiss_state c"
  "seq_success_map (airkiss_resest_data c) = seq_success_map c"
  "seq_success_map_cmp (airkiss_resest_data c) = seq_success_map_cmp c"
  "airkiss_resest_data (c\<lparr>code_record := r\<rparr>) = airkiss_resest_data c"
  by (simp_all add: airkiss_resest_data_def)

lemma magic_received:
  assumes src: "\<forall>h \<in> {h1, h2, h3, h4}. from_src (src_ap_sta c) mac h" "src_mac_crc c = calcrc_bytes mac"
    and state: "airkiss_state c = AIRKISS_STATE_SRC_LOCKED" "code_record c = no_record"
    and small: "\<forall>k \<in> {a, b, d, e}. k \<le> 512"
    and code: "a AND 0x01f0 = 0" "b AND 0x01f0 = 0x10" "d AND 0x01f0 = 0x20" "e AND 0x01f0 = 0x30"
  shows "airkiss_run (frames [h1, h2, h3, h4] (base_len c) [a, b, d, e]) (s, c) =
    Ret (AIRKISS_STATUS_CONTINUE, airkiss_resest_data
        (c\<lparr>total_len := ucast (push_bit 4 (a AND 7) + (b AND 15)),
          ssid_crc := ucast (push_bit 4 (d AND 15) + (e AND 15)),
          airkiss_state := AIRKISS_STATE_MAGIC_CODE_COMPLETE\<rparr>))"
proof -
  note recv = recv_locked(1) [where mac = mac and ap = "src_ap_sta c"]
  show ?thesis
    using src small state code
    by (simp add: recv magic_step no_record_def) (simp add: airkiss_resest_data_def)
qed

lemma prefix_received:
  assumes src: "\<forall>h \<in> {h1, h2, h3, h4}. from_src (src_ap_sta c) mac h" "src_mac_crc c = calcrc_bytes mac"
    and state: "airkiss_state c = AIRKISS_STATE_MAGIC_CODE_COMPLETE" "code_record c = no_record"
    and small: "\<forall>k \<in> {a, b, d, e}. k \<le> 512"
    and code: "a AND 0x01f0 = 0x40" "b AND 0x01f0 = 0x50" "d AND 0x01f0 = 0x60" "e AND 0x01f0 = 0x70"
      "ucast (push_bit 4 (a AND 15) + (b AND 15)) = (pn :: u8)" "unat pn \<le> PASSWORD_MAX_LEN"
      "ucast (push_bit 4 (d AND 15) + (e AND 15)) = calcrc_1byte pn"
    and need: "(unat (total_len c) + 3) div 4 < 31"
  shows "airkiss_run (frames [h1, h2, h3, h4] (base_len c) [a, b, d, e]) (s, c) =
    Ret (AIRKISS_STATUS_CONTINUE, airkiss_resest_data
        (c\<lparr>pswd_len := pn, pswd_lencrc := calcrc_1byte pn, airkiss_state := AIRKISS_STATE_PREFIX_CODE_COMPLETE,
          need_seq := of_nat ((unat (total_len c) + 3) div 4), seq_success_map_cmp := of_nat (2 ^ ((unat (total_len c) + 3) div 4) - 1)\<rparr>))"
proof -
  note recv = recv_locked(2) [where mac = mac and ap = "src_ap_sta c"]
  show ?thesis
    using src small state need
    by (simp add: recv prefix_step(1) prefix_step(2) [OF _ refl _ code] no_record_def code(1-4) del: of_nat_diff)
      (simp add: airkiss_resest_data_def)
qed

lemma nibble_codes:
  assumes "n < 16" "t \<in> {0, 0x10, 0x20, 0x30, 0x40, 0x50, 0x60, 0x70}"
  shows "(t + of_nat n :: u16) AND 0x01f0 = t" "(t + of_nat n) AND 15 = of_nat n"
    "n < 8 \<Longrightarrow> (t + of_nat n) AND 7 = of_nat n" "t + of_nat n \<le> 512"
proof -
  from assms(1) have "n \<in> {0, 1, 2, 3, 4, 5, 6, 7, 8, 9, 10, 11, 12, 13, 14, 15}" by (simp add: set_eq_iff) presburger
  then show "(t + of_nat n :: u16) AND 0x01f0 = t" "(t + of_nat n) AND 15 = of_nat n"
    "n < 8 \<Longrightarrow> (t + of_nat n) AND 7 = of_nat n" "t + of_nat n \<le> 512"
    using assms(2) by (elim insertE emptyE; simp)+
qed

lemma nibbles_join:
  "ucast (push_bit 4 (of_nat (unat b div 16) :: u16) + of_nat (unat b mod 16)) = (b :: u8)"
proof -
  have "push_bit 4 (of_nat (unat b div 16) :: u16) + of_nat (unat b mod 16) =
      of_nat (unat b div 16 * 2 ^ 4 + unat b mod 16)"
    by (simp only: push_bit_eq_mult of_nat_add of_nat_mult of_nat_power of_nat_numeral)
  also have "unat b div 16 * 2 ^ 4 + unat b mod 16 = unat b" by simp
  also have "(of_nat (unat b) :: u16) = ucast b" by simp
  also have "ucast (ucast b :: u16) = b" by (rule bit_word_eqI) (auto simp: bit_simps)
  finally show ?thesis .
qed

end
