(* ===== verification/Airkiss_Decode.thy ===== *)
theory Airkiss_Decode
  imports Airkiss
begin

unbundle bit_operations_syntax

text \<open>
  What the AirKiss decoder of theory \<open>Airkiss\<close> makes of a transmission: the groups of data, the end
  of the data with \<open>airkiss_get_result\<close>, the checksum against the bitwise CRC-8, and the two overruns.
\<close>

section \<open>The data groups\<close>

lemma nine_bits: "take_bit 9 (x :: u16) = x \<Longrightarrow> x \<le> 512"
proof -
  assume x: "take_bit 9 x = x"
  have "unat (take_bit 9 x) < 2 ^ 9" by (simp only: unsigned_take_bit_eq take_bit_nat_less_exp)
  with x show ?thesis by (simp add: word_le_nat_alt)
qed

lemma head_code:
  "(0x80 OR ucast (q AND 0x7F) :: u16) AND 0x180 = 0x80"
  "ucast ((0x80 OR ucast (q AND 0x7F) :: u16) AND 0x7F) = (q AND 0x7F :: u8)"
  "(0x80 OR ucast (q AND 0x7F) :: u16) \<le> 512"
proof -
  have masks: "(0x7F :: u8) = mask 7" "(0x7F :: u16) = mask 7" "(0x80 :: u16) = mask 8 AND NOT (mask 7)"
    "(0x180 :: u16) = mask 9 AND NOT (mask 7)" by (simp_all add: mask_eq_decr_exp)
  show "(0x80 OR ucast (q AND 0x7F) :: u16) AND 0x180 = 0x80"
    unfolding masks by (rule bit_word_eqI) (auto simp: bit_simps)
  show "ucast ((0x80 OR ucast (q AND 0x7F) :: u16) AND 0x7F) = (q AND 0x7F :: u8)"
    unfolding masks by (rule bit_word_eqI) (auto simp: bit_simps)
  show "(0x80 OR ucast (q AND 0x7F) :: u16) \<le> 512"
    by (rule nine_bits, rule bit_word_eqI) (auto simp: bit_simps masks)
qed

lemma data_code:
  "(0x100 OR ucast (b :: u8) :: u16) AND 0x100 = 0x100"
  "ucast (0x100 OR ucast (b :: u8) :: u16) = b"
  "(0x100 OR ucast (b :: u8) :: u16) \<le> 512"
proof -
  have masks: "(0x100 :: u16) = mask 9 AND NOT (mask 8)" by (simp add: mask_eq_decr_exp)
  show "(0x100 OR ucast b :: u16) AND 0x100 = 0x100"
    unfolding masks by (rule bit_word_eqI) (auto simp: bit_simps)
  show "ucast (0x100 OR ucast b :: u16) = b"
    unfolding masks by (rule bit_word_eqI) (auto simp: bit_simps)
  show "(0x100 OR ucast b :: u16) \<le> 512"
    by (rule nine_bits, rule bit_word_eqI) (auto simp: bit_simps masks dest: bit_imp_le_length)
qed

lemma index_code:
  assumes "i < 16"
  shows "(0x80 OR of_nat i :: u16) = 0x80 OR ucast ((of_nat i :: u8) AND 0x7F)" "(of_nat i :: u8) AND 0x7F = of_nat i"
    "unat (of_nat i :: u8) = i"
proof -
  from assms have "i \<in> {0, 1, 2, 3, 4, 5, 6, 7, 8, 9, 10, 11, 12, 13, 14, 15}"
    by (simp add: set_eq_iff) presburger
  then show "(0x80 OR of_nat i :: u16) = 0x80 OR ucast ((of_nat i :: u8) AND 0x7F)"
    "(of_nat i :: u8) AND 0x7F = of_nat i" "unat (of_nat i :: u8) = i"
    by (elim insertE emptyE; simp)+
qed

lemma seq_step:
  assumes "code_record c = [a, b, d, e, f, g, x]" "n = ucast base + k" "base_len c = base"
    "b AND 0x180 \<noteq> 0x80"
  shows "airkiss_process_sequence n c = Ret (c\<lparr>code_record := [b, d, e, f, g, k, k]\<rparr>)"
proof -
  have "record_in MAX_SEQ_CODE_RECORD n c = c\<lparr>code_record := [b, d, e, f, g, k, k]\<rparr>"
    using assms by (simp add: record_in_def shift_records)
  with assms(4) show ?thesis by (simp add: airkiss_process_sequence_def)
qed

lemma group_data_take:
  assumes "m \<le> 4" "\<forall>y \<in> set (take m [e, f, g, k]). y AND 0x100 = 0x100"
  shows "group_data [b, d, e, f, g, k, k] m = Some (map ucast (take m [e, f, g, k]))"
proof -
  from assms(1) consider "m = 0" | "m = 1" | "m = 2" | "m = 3" | "m = 4" by linarith
  then show ?thesis
    using assms(2)
    by cases (simp_all add: group_data_def less_Suc_eq numeral_eq_Suc all_conj_distrib)
qed

lemma seq_group:
  assumes "code_record c = [a, b, d, e, f, g, x]" "n = ucast base + k" "base_len c = base"
    and heads: "b AND 0x180 = 0x80" "d AND 0x180 = 0x80"
    and i: "ucast (d AND 0x7F) = (of_nat i :: u8)" "i < 16" "\<not> bit (seq_success_map c) i"
      "i \<le> unat (total_len c) div 4"
    and data: "ch = map ucast (take (min 4 (unat (total_len c) - 4 * i)) [e, f, g, k])"
      "\<forall>y \<in> set (take (min 4 (unat (total_len c) - 4 * i)) [e, f, g, k]). y AND 0x100 = 0x100"
    and crc: "ucast (b AND 0x7F) = calcrc_bytes (of_nat i # ch) AND 0x7F"
  shows "airkiss_process_sequence n c =
    (let c1 = airkiss_resest_data (airkiss_add_seq_data (ch @ replicate (4 - length ch) 0) i c)
     in if seq_success_map_cmp c1 = seq_success_map c1 then airkiss_finish c1 else Ret c1)"
proof -
  define c1 where "c1 = c\<lparr>code_record := [b, d, e, f, g, k, k]\<rparr>"
  let ?m = "min 4 (unat (total_len c) - 4 * i)"
  have r: "record_in MAX_SEQ_CODE_RECORD n c = c1" "code_record c1 = [b, d, e, f, g, k, k]"
    "total_len c1 = total_len c" "seq_success_map c1 = seq_success_map c"
    using assms(1-3) by (simp_all add: record_in_def shift_records c1_def)
  have nth: "[b, d, e, f, g, k, k] ! 0 = b" "[b, d, e, f, g, k, k] ! 1 = d" by simp_all
  have "push_bit 2 (of_nat i :: u8) = of_nat (4 * i)" by (simp add: push_bit_eq_mult)
  moreover have "unat (of_nat (4 * i) :: u8) = 4 * i"
    using i(2) by (simp only: unat_of_nat) (simp add: take_bit_nat_eq_self)
  ultimately have left: "min 4 (unat (total_len c - push_bit 2 (of_nat i :: u8))) = ?m"
    using i(4) by (simp add: unat_sub word_le_nat_alt)
  have grp: "group_data [b, d, e, f, g, k, k] ?m = Some ch"
    using group_data_take [of ?m] data by simp
  have ch: "length ch = ?m" using data(1) by simp
  have upd: "airkiss_add_seq_data d' i c1 = (airkiss_add_seq_data d' i c)\<lparr>code_record := [b, d, e, f, g, k, k]\<rparr>" for d'
    by (simp add: airkiss_add_seq_data_def c1_def)
  show ?thesis
    unfolding airkiss_process_sequence_def Let_def r nth heads i(1) index_code(3) [OF i(2)] left
    using i grp crc ch by (simp add: r upd)
qed

text \<open>What the decoder holds when the groups \<open>S\<close> have arrived.\<close>

definition stored_data :: "u8 list \<Rightarrow> nat set \<Rightarrow> u8 list" where
  "stored_data data S =
     map (\<lambda>j. if j < length data \<and> j div 4 \<in> S then data ! j else 0) [0..<USR_DATA_BUFF_MAX_SIZE]"

definition groups :: "u8 list \<Rightarrow> nat" where
  "groups data = (length data + 3) div 4"

definition holds_groups :: "u8 list \<Rightarrow> nat set \<Rightarrow> airkiss_local_context \<Rightarrow> bool" where
  "holds_groups data S c \<longleftrightarrow> airkiss_state c = AIRKISS_STATE_PREFIX_CODE_COMPLETE \<and>
     code_record c = no_record \<and> total_len c = of_nat (length data) \<and>
     need_seq c = of_nat (groups data) \<and> seq_success_map_cmp c = mask (groups data) \<and>
     usr_data c = stored_data data S \<and> (\<forall>s. bit (seq_success_map c) s \<longleftrightarrow> s \<in> S)"

lemma length_stored [simp]: "length (stored_data data S) = USR_DATA_BUFF_MAX_SIZE"
  by (simp add: stored_data_def)

lemma length_chunk: "length (chunk data i) = min 4 (length data - 4 * i)"
  by (simp add: chunk_def)

lemma blit_stored:
  assumes "4 * i + 4 \<le> USR_DATA_BUFF_MAX_SIZE"
  shows "blit (stored_data data S) (i * 4) (chunk data i @ replicate (4 - length (chunk data i)) 0) =
    stored_data data (insert i S)"
proof (rule nth_equalityI)
  let ?new = "chunk data i @ replicate (4 - length (chunk data i)) 0"
  have len: "length ?new = 4" by (simp add: length_chunk)
  have fits: "i * 4 + length ?new \<le> length (stored_data data S)"
    using assms unfolding len by simp
  show "length (blit (stored_data data S) (i * 4) ?new) = length (stored_data data (insert i S))"
    by (simp only: length_blit [OF fits] length_stored)
  fix j assume "j < length (blit (stored_data data S) (i * 4) ?new)"
  then have j: "j < USR_DATA_BUFF_MAX_SIZE" by (simp only: length_blit [OF fits] length_stored)
  have new: "?new ! (j - i * 4) = (if j < length data then data ! j else 0)" if "j div 4 = i"
  proof -
    define r where "r = j - i * 4"
    from that have r: "j = 4 * i + r" "r < 4" by (simp_all add: r_def)
    have "?new ! r = (if r < length data - 4 * i then data ! (4 * i + r) else 0)"
      using r(2) by (simp add: nth_append length_chunk) (simp add: chunk_def)
    then show ?thesis using r by (simp add: r_def [symmetric]) linarith
  qed
  have "blit (stored_data data S) (i * 4) ?new ! j =
      (if i * 4 \<le> j \<and> j < i * 4 + length ?new then ?new ! (j - i * 4) else stored_data data S ! j)"
    by (rule nth_blit [OF fits]) (simp add: j)
  also have "i * 4 \<le> j \<and> j < i * 4 + length ?new \<longleftrightarrow> j div 4 = i"
    unfolding len by presburger
  also have "stored_data data S ! j = (if j < length data \<and> j div 4 \<in> S then data ! j else 0)"
    using j by (simp add: stored_data_def del: upt_Suc)
  also have "(if j div 4 = i then ?new ! (j - i * 4)
      else if j < length data \<and> j div 4 \<in> S then data ! j else 0) = stored_data data (insert i S) ! j"
    using j new by (simp add: stored_data_def del: upt_Suc)
  finally show "blit (stored_data data S) (i * 4) ?new ! j = stored_data data (insert i S) ! j" .
qed

lemma add_group:
  assumes "holds_groups data S c" "i < groups data" "i \<notin> S" "length data \<le> 64"
  shows "holds_groups data (insert i S)
      (airkiss_resest_data (airkiss_add_seq_data (chunk data i @ replicate (4 - length (chunk data i)) 0) i c))"
proof -
  from assms(2,4) have i: "i < 16" by (simp add: groups_def)
  have "groups data \<le> 16" using assms(4) by (simp add: groups_def)
  then have "unat (of_nat (groups data) :: u8) = groups data"
    by (simp add: unat_of_nat take_bit_nat_eq_self)
  with assms i have "airkiss_add_seq_data (chunk data i @ replicate (4 - length (chunk data i)) 0) i c =
      c\<lparr>usr_data := stored_data data (insert i S), seq_success_map := seq_success_map c OR push_bit i 1\<rparr>"
    by (simp add: airkiss_add_seq_data_def holds_groups_def blit_stored USR_DATA_BUFF_MAX_SIZE_def
        PASSWORD_MAX_LEN_def ESSID_MAX_LEN_def)
  with assms(1) i show ?thesis
    by (auto simp: holds_groups_def bit_simps)
qed

lemma all_groups:
  assumes "holds_groups data S c" "S \<subseteq> {..<groups data}" "length data \<le> 64"
  shows "seq_success_map_cmp c = seq_success_map c \<longleftrightarrow> S = {..<groups data}"
proof -
  have "groups data \<le> 16" using assms(3) by (simp add: groups_def)
  then have "bit (mask (groups data) :: u16) s \<longleftrightarrow> s \<in> {..<groups data}" for s
    by (auto simp: bit_simps)
  then have "(\<forall>s. bit (mask (groups data) :: u16) s \<longleftrightarrow> bit (seq_success_map c) s) \<longleftrightarrow> S = {..<groups data}"
    using assms(1) by (auto simp: holds_groups_def)
  moreover have "(\<forall>s. bit (mask (groups data) :: u16) s \<longleftrightarrow> bit (seq_success_map c) s) \<longleftrightarrow>
      mask (groups data) = seq_success_map c"
    by (auto intro!: bit_eqI)
  ultimately show ?thesis using assms(1) by (simp add: holds_groups_def)
qed

text \<open>Six frames of the locked source, with the codes of one group.\<close>

lemma group_received:
  assumes src: "\<forall>h \<in> set hs. from_src (src_ap_sta c) mac h" "length hs = 6" "src_mac_crc c = calcrc_bytes mac"
    and c: "holds_groups data S c" "S \<subseteq> {..<groups data}"
    and i: "i < groups data" "i \<notin> S" and data: "length data \<le> 64"
    and fill: "length fill = 4" "\<forall>k \<in> set fill. k \<le> 512"
  shows "\<exists>c1. holds_groups data (insert i S) c1 \<and> src_ap_sta c1 = src_ap_sta c \<and>
      src_mac_crc c1 = src_mac_crc c \<and> base_len c1 = base_len c \<and> pswd_len c1 = pswd_len c \<and>
      ssid_crc c1 = ssid_crc c \<and>
      airkiss_run (frames hs (base_len c) (group_codes data fill i)) (s, c) =
        (if insert i S = {..<groups data} then
           (case airkiss_finish c1 of
              Ret c2 \<Rightarrow> Ret (AIRKISS_STATUS_COMPLETE, c2) | Assert_Stop \<Rightarrow> Assert_Stop | Fault \<Rightarrow> Fault)
         else Ret (AIRKISS_STATUS_CONTINUE, c1))"
proof -
  define base where "base = base_len c"
  from i(1) data have i16: "i < 16" by (simp add: groups_def)
  define ch where "ch = chunk data i"
  let ?m = "min 4 (length data - 4 * i)"
  have ch_len: "length ch = ?m" by (simp add: ch_def length_chunk)
  define D where "D = map (\<lambda>b. 0x100 OR ucast b) ch @ take (4 - length ch) fill"
  have "length D = 4" using fill(1) ch_len by (simp add: D_def)
  then obtain e f g k where D: "D = [e, f, g, k]"
    by (auto simp: numeral_eq_Suc length_Suc_conv)
  obtain h1 h2 h3 h4 h5 h6 where hs: "hs = [h1, h2, h3, h4, h5, h6]"
    using src(2) by (auto simp: numeral_eq_Suc length_Suc_conv)
  define a where "a = (0x80 OR ucast (calcrc_bytes (of_nat i # ch) AND 0x7F) :: u16)"
  define b where "b = (0x80 OR of_nat i :: u16)"
  have codes: "group_codes data fill i = [a, b, e, f, g, k]"
    using D by (simp add: group_codes_def a_def b_def D_def ch_def)
  have "\<forall>k \<in> set D. k \<le> 512"
    using fill(2) data_code(3) by (auto simp: D_def dest: in_set_takeD)
  then have small: "a \<le> 512" "b \<le> 512" "e \<le> 512" "f \<le> 512" "g \<le> 512" "k \<le> 512"
    using head_code(3) index_code(1) [OF i16] by (simp_all add: D a_def b_def)
  have take_D: "take ?m [e, f, g, k] = map (\<lambda>b. 0x100 OR ucast b) ch"
    unfolding D [symmetric] D_def using ch_len by simp
  have total: "unat (total_len c) = length data"
    using c(1) data by (simp add: holds_groups_def unat_of_nat take_bit_nat_eq_self)
  have state: "airkiss_state c = AIRKISS_STATE_PREFIX_CODE_COMPLETE" "code_record c = no_record"
    using c(1) by (simp_all add: holds_groups_def)
  have quiet: "airkiss_recv h (ucast base + x) (c\<lparr>code_record := [p, 0, q, t, u, v, w]\<rparr>) =
      Ret (AIRKISS_STATUS_CONTINUE, c\<lparr>code_record := [0, q, t, u, v, x, x]\<rparr>)"
    if "h \<in> set hs" "x \<le> 512" for h x p q t u v w
  proof -
    have "airkiss_process_sequence (ucast base + x) (c\<lparr>code_record := [p, 0, q, t, u, v, w]\<rparr>) =
        Ret (c\<lparr>code_record := [0, q, t, u, v, x, x]\<rparr>)"
      by (subst seq_step [OF _ refl]) (simp_all add: base_def)
    with that src state show ?thesis
      by (simp add: recv_locked(3) [where mac = mac and ap = "src_ap_sta c"] base_def)
  qed
  define c5 where "c5 = c\<lparr>code_record := [0, a, b, e, f, g, g]\<rparr>"
  have "c\<lparr>code_record := [0, 0, 0, 0, 0, 0, 0]\<rparr> = c" using state(2) by (simp add: no_record_def)
  with quiet [of h1 a 0 0 0 0 0 0] small have first: "airkiss_recv h1 (ucast base + a) c =
      Ret (AIRKISS_STATUS_CONTINUE, c\<lparr>code_record := [0, 0, 0, 0, 0, a, a]\<rparr>)"
    by (simp add: hs)
  have five: "airkiss_run (frames hs base (group_codes data fill i)) (s, c) =
      airkiss_run [(h6, ucast base + k)] (AIRKISS_STATUS_CONTINUE, c5)"
    unfolding codes hs frames_simps c5_def
    by (simp add: first small quiet hs del: airkiss_run.simps(1))
  let ?c1 = "airkiss_resest_data (airkiss_add_seq_data (ch @ replicate (4 - length ch) 0) i c)"
  have add: "airkiss_resest_data (airkiss_add_seq_data d i c5) = airkiss_resest_data (airkiss_add_seq_data d i c)" for d
    by (simp add: c5_def airkiss_add_seq_data_def airkiss_resest_data_def)
  have tot: "unat (total_len c5) = length data" using total by (simp add: c5_def)
  have heads: "a AND 0x180 = 0x80" "b AND 0x180 = 0x80" "ucast (b AND 0x7F) = (of_nat i :: u8)"
    "ucast (a AND 0x7F) = calcrc_bytes (of_nat i # ch) AND 0x7F"
    using head_code(1,2) head_code(1,2) [of "of_nat i"] index_code(2) [OF i16]
    unfolding a_def b_def index_code(1) [OF i16] by simp_all
  have room: "\<not> bit (seq_success_map c5) i" "i \<le> unat (total_len c5) div 4"
    using c(1) i unfolding tot by (simp_all add: c5_def holds_groups_def groups_def)
  have bytes: "ch = map ucast (take (min 4 (unat (total_len c5) - 4 * i)) [e, f, g, k])"
    "\<forall>y \<in> set (take (min 4 (unat (total_len c5) - 4 * i)) [e, f, g, k]). y AND 0x100 = 0x100"
    unfolding tot take_D using data_code(1,2) by (simp_all add: comp_def)
  have rec: "code_record c5 = [0, a, b, e, f, g, g]" "base_len c5 = base"
    by (simp_all add: c5_def base_def)
  have held: "holds_groups data (insert i S) ?c1"
    using add_group [OF c(1) i data] by (simp add: ch_def)
  have "airkiss_process_sequence (ucast base + k) c5 =
      (if seq_success_map_cmp ?c1 = seq_success_map ?c1 then airkiss_finish ?c1 else Ret ?c1)"
    using seq_group [OF rec(1) refl rec(2) heads(1,2,3) i16 room bytes heads(4)]
    by (simp add: Let_def add)
  also have "seq_success_map_cmp ?c1 = seq_success_map ?c1 \<longleftrightarrow> insert i S = {..<groups data}"
    by (rule all_groups [OF held _ data]) (use c(2) i in auto)
  finally have last: "airkiss_process_sequence (ucast base + k) c5 =
      (if insert i S = {..<groups data} then airkiss_finish ?c1 else Ret ?c1)" .
  have done_state: "airkiss_state c2 = AIRKISS_STATE_COMPLETE" if "airkiss_finish ?c1 = Ret c2" for c2
    using that by (auto simp: airkiss_finish_def Let_def split: if_splits)
  have frame: "src_ap_sta ?c1 = src_ap_sta c \<and> src_mac_crc ?c1 = src_mac_crc c \<and> base_len ?c1 = base_len c \<and>
      pswd_len ?c1 = pswd_len c \<and> ssid_crc ?c1 = ssid_crc c"
    by (simp add: airkiss_add_seq_data_def)
  have "airkiss_run [(h6, ucast base + k)] (AIRKISS_STATUS_CONTINUE, c5) =
     (case airkiss_process_sequence (ucast base + k) c5 of
        Ret c' \<Rightarrow> Ret (if airkiss_state c' = AIRKISS_STATE_COMPLETE then AIRKISS_STATUS_COMPLETE
                        else AIRKISS_STATUS_CONTINUE, c')
      | Assert_Stop \<Rightarrow> Assert_Stop | Fault \<Rightarrow> Fault)"
    using src state small by (simp add: airkiss_recv_def c5_def hs base_def
        filter_passes [where ap = "src_ap_sta c" and mac = mac] split: c_run.splits)
  also have "\<dots> = (if insert i S = {..<groups data} then
           (case airkiss_finish ?c1 of
              Ret c2 \<Rightarrow> Ret (AIRKISS_STATUS_COMPLETE, c2) | Assert_Stop \<Rightarrow> Assert_Stop | Fault \<Rightarrow> Fault)
         else Ret (AIRKISS_STATUS_CONTINUE, ?c1))"
    unfolding last using held by (auto simp: done_state holds_groups_def split: c_run.splits)
  finally show ?thesis
    using five held frame unfolding base_def by (intro exI [of _ ?c1]) simp
qed

lemma frames_append6:
  assumes "length hs = 6 + n" "length ca = 6"
  shows "frames hs base (ca @ cb) = frames (take 6 hs) base ca @ frames (drop 6 hs) base cb"
  using frames_append [of "take 6 hs" ca "drop 6 hs" base cb] assms by simp

lemma length_group_codes:
  "length fill = 4 \<Longrightarrow> length (group_codes data fill i) = 6"
  by (simp add: group_codes_def length_chunk)

lemma groups_received:
  assumes "\<forall>h \<in> set hs. from_src ap mac h" "length hs = 6 * length order"
    "src_ap_sta c = ap" "src_mac_crc c = calcrc_bytes mac" "base_len c = base"
    "holds_groups data S c" "distinct order" "S \<inter> set order = {}" "S \<union> set order = {..<groups data}" "order \<noteq> []"
    "length data \<le> 64" "length fill = 4" "\<forall>k \<in> set fill. k \<le> 512"
  shows "\<exists>c1. holds_groups data {..<groups data} c1 \<and> pswd_len c1 = pswd_len c \<and> ssid_crc c1 = ssid_crc c \<and>
    airkiss_run (frames hs base (concat (map (group_codes data fill) order))) (s, c) =
      (case airkiss_finish c1 of
         Ret c2 \<Rightarrow> Ret (AIRKISS_STATUS_COMPLETE, c2) | Assert_Stop \<Rightarrow> Assert_Stop | Fault \<Rightarrow> Fault)"
  using assms
proof (induction order arbitrary: hs c S s)
  case (Cons i order)
  let ?now = "take 6 hs" and ?later = "drop 6 hs"
  have now: "\<forall>h \<in> set ?now. from_src (src_ap_sta c) mac h" "length ?now = 6"
    using Cons.prems(1,2,3) by (auto dest: in_set_takeD)
  have later: "\<forall>h \<in> set ?later. from_src ap mac h" "length ?later = 6 * length order"
    using Cons.prems(1,2) by (auto dest: in_set_dropD)
  have split: "frames hs base (concat (map (group_codes data fill) (i # order))) =
      frames ?now base (group_codes data fill i) @ frames ?later base (concat (map (group_codes data fill) order))"
    using Cons.prems(2) length_group_codes [OF Cons.prems(12)]
    by (simp add: frames_append6 [where n = "6 * length order"])
  have i: "i < groups data" "i \<notin> S" "S \<subseteq> {..<groups data}" using Cons.prems(8,9) by auto
  obtain c1 where c1: "holds_groups data (insert i S) c1" "src_ap_sta c1 = ap" "src_mac_crc c1 = calcrc_bytes mac"
      "base_len c1 = base" "pswd_len c1 = pswd_len c" "ssid_crc c1 = ssid_crc c"
    and run: "airkiss_run (frames ?now base (group_codes data fill i)) (s, c) =
        (if insert i S = {..<groups data} then
           (case airkiss_finish c1 of
              Ret c2 \<Rightarrow> Ret (AIRKISS_STATUS_COMPLETE, c2) | Assert_Stop \<Rightarrow> Assert_Stop | Fault \<Rightarrow> Fault)
         else Ret (AIRKISS_STATUS_CONTINUE, c1))"
    using group_received [OF now Cons.prems(4,6) i(3,1,2) Cons.prems(11,12,13)] Cons.prems(3-5) by metis
  show ?case
  proof (cases "order = []")
    case True
    with Cons.prems(9) have full: "insert i S = {..<groups data}" by auto
    with True split run have "airkiss_run (frames hs base (concat (map (group_codes data fill) (i # order)))) (s, c) =
        (case airkiss_finish c1 of
           Ret c2 \<Rightarrow> Ret (AIRKISS_STATUS_COMPLETE, c2) | Assert_Stop \<Rightarrow> Assert_Stop | Fault \<Rightarrow> Fault)"
      by (simp split: c_run.splits)
    with c1 full show ?thesis by metis
  next
    case False
    then obtain j where j: "j \<in> set order" by (cases order) auto
    from Cons.prems(7,8) have more: "distinct order" "insert i S \<inter> set order = {}" by auto
    have whole: "insert i S \<union> set order = {..<groups data}" using Cons.prems(9) by simp
    with j more(2) have less: "insert i S \<noteq> {..<groups data}" by blast
    from Cons.IH [OF later c1(2,3,4,1) more whole False Cons.prems(11,12,13), of AIRKISS_STATUS_CONTINUE]
      run less c1 show ?thesis
      unfolding split airkiss_run_append by simp
  qed
qed simp

section \<open>The result\<close>

definition c_string :: "u8 list \<Rightarrow> nat option \<Rightarrow> u8 list option" where
  "c_string buf p = map_option (\<lambda>off. takeWhile (\<lambda>b. b \<noteq> 0) (drop off buf)) p"

lemma stored_all:
  assumes "length data \<le> 64"
  shows "stored_data data {..<groups data} = data @ replicate (65 - length data) 0"
proof (rule nth_equalityI)
  fix j assume "j < length (stored_data data {..<groups data})"
  then have "j < 65" by (simp add: USR_DATA_BUFF_MAX_SIZE_def PASSWORD_MAX_LEN_def ESSID_MAX_LEN_def)
  moreover have "j < length data \<Longrightarrow> j div 4 < groups data" by (simp add: groups_def)
  ultimately show "stored_data data {..<groups data} ! j = (data @ replicate (65 - length data) 0) ! j"
    by (simp add: stored_data_def nth_append USR_DATA_BUFF_MAX_SIZE_def PASSWORD_MAX_LEN_def ESSID_MAX_LEN_def del: upt_Suc)
qed (use assms in \<open>simp add: USR_DATA_BUFF_MAX_SIZE_def PASSWORD_MAX_LEN_def ESSID_MAX_LEN_def\<close>)

lemma finish_result:
  assumes c: "holds_groups (pw @ [rnd] @ ss) {..<groups (pw @ [rnd] @ ss)} c" "pswd_len c = of_nat (length pw)"
    and len: "length pw \<le> 32" "length pw + 1 + length ss \<le> 63"
    and zero: "0 \<notin> set pw" "0 \<notin> set ss"
  shows "\<exists>c2. airkiss_finish c = Ret c2 \<and>
      c_string (usr_data c2) (pwd c2) = Some pw \<and> c_string (usr_data c2) (ssid c2) = Some ss \<and>
      unat (pswd_len c2) = length pw \<and> random_num c2 = rnd \<and> ssid_crc c2 = ssid_crc c \<and>
      unat (ssid_len c2) = length ss + 1"
proof -
  let ?data = "pw @ [rnd] @ ss"
  have data: "usr_data c = ?data @ replicate (65 - length ?data) 0"
    using c(1) len by (simp add: holds_groups_def stored_all)
  have p: "unat (pswd_len c) = length pw" using c(2) len(1) by (simp add: unat_of_nat take_bit_nat_eq_self)
  have "total_len c = of_nat (length ?data)" using c(1) by (simp only: holds_groups_def)
  then have "total_len c - pswd_len c = of_nat (length ss + 1)" using c(2) by simp
  then have n: "unat (total_len c - pswd_len c) = length ss + 1"
    using len(2) by (simp only: unat_of_nat) (simp add: take_bit_nat_eq_self)
  define e where "e = length pw + 1 + (length ss + 1)"
  define out where "out = (usr_data c)[length pw := 0, e := 0]"
  have "length (usr_data c) = 65" using data len by simp
  with p n len have fin: "airkiss_finish c = Ret (c\<lparr>random_num := usr_data c ! length pw, usr_data := out,
      pwd := Some 0, ssid_len := total_len c - pswd_len c, ssid := Some (length pw + 1),
      airkiss_state := AIRKISS_STATE_COMPLETE\<rparr>)"
    by (simp add: airkiss_finish_def Let_def out_def e_def)
  have rnd: "usr_data c ! length pw = rnd" unfolding data by simp
  have out: "out = pw @ [0] @ ss @ [0] @ replicate (64 - length ?data) 0"
  proof -
    have "65 - length ?data = Suc (64 - length ?data)" using len(2) by simp
    then show ?thesis
      unfolding out_def data e_def using len(2)
      by (cases "64 - length ?data") (simp_all add: list_update_append split: nat.splits)
  qed
  have strings: "c_string out (Some 0) = Some pw" "c_string out (Some (length pw + 1)) = Some ss"
    using zero unfolding out by (auto simp: c_string_def takeWhile_append2 takeWhile_append)
  show ?thesis
    using fin strings rnd p n by simp
qed

definition sent_by :: "u8 \<Rightarrow> u8 list \<Rightarrow> mac_hdr list \<Rightarrow> bool" where
  "sent_by ap mac hdrs \<longleftrightarrow> (\<forall>h \<in> set hdrs. from_src ap mac h) \<and>
     (\<forall>i < 3. drop_bit 4 (hdr_seq (hdrs ! Suc i)) \<noteq> drop_bit 4 (hdr_seq (hdrs ! i)))"

text \<open>A whole transmission, up to the end of the last group.\<close>

lemma transmission:
  fixes pw ss :: "u8 list" and rnd scrc :: u8 and order :: "nat list"
  defines "data \<equiv> pw @ [rnd] @ ss"
  assumes src: "sent_by ap mac hdrs" "length hdrs = 12 + 6 * length order" and base: "23 \<le> base"
    and len: "length pw \<le> 32" "length data \<le> 64"
    and order: "distinct order" "set order = {..<groups data}"
    and fill: "length fill = 4" "\<forall>k \<in> set fill. k \<le> 512"
  shows "\<exists>c1. holds_groups data {..<groups data} c1 \<and> pswd_len c1 = of_nat (length pw) \<and> ssid_crc c1 = scrc \<and>
    airkiss_run (frames hdrs base (airkiss_codes data (of_nat (length pw)) scrc fill order)) (s, airkiss_start) =
      (case airkiss_finish c1 of
         Ret c2 \<Rightarrow> Ret (AIRKISS_STATUS_COMPLETE, c2) | Assert_Stop \<Rightarrow> Assert_Stop | Fault \<Rightarrow> Fault)"
proof -
  define pn where "pn = (of_nat (length pw) :: u8)"
  define tl where "tl = (of_nat (length data) :: u8)"
  define gs where "gs = concat (map (group_codes data fill) order)"
  have "0 < groups data" by (simp add: groups_def data_def)
  with order(2) have nonempty: "order \<noteq> []" by (metis empty_iff lessThan_iff list.set(1))
  define a where "a = (\<lambda>i. hdrs ! i)"
  have "take 12 hdrs = map a [0..<12]"
    using src(2) by (intro nth_equalityI) (simp_all add: a_def)
  also have "\<dots> = [a 0, a 1, a 2, a 3] @ [a 4, a 5, a 6, a 7] @ [a 8, a 9, a 10, a 11]"
    by (simp add: upt_rec numeral_eq_Suc)
  finally have hdrs: "hdrs = [a 0, a 1, a 2, a 3] @ [a 4, a 5, a 6, a 7] @ [a 8, a 9, a 10, a 11] @ drop 12 hdrs"
    by (metis append.assoc append_take_drop_id)
  define rest where "rest = drop 12 hdrs"
  note hdrs = hdrs [folded rest_def]
  have from_src: "\<forall>h \<in> set hdrs. from_src ap mac h" using src(1) by (simp add: sent_by_def)
  have seqs: "drop_bit 4 (hdr_seq (a 1)) \<noteq> drop_bit 4 (hdr_seq (a 0))"
      "drop_bit 4 (hdr_seq (a 2)) \<noteq> drop_bit 4 (hdr_seq (a 1))"
      "drop_bit 4 (hdr_seq (a 3)) \<noteq> drop_bit 4 (hdr_seq (a 2))"
    using src(1) by (simp_all add: sent_by_def a_def numeral_eq_Suc less_Suc_eq all_conj_distrib)
  have rest: "\<forall>h \<in> set rest. from_src ap mac h" "length rest = 6 * length order"
    using from_src src(2) by (auto simp: rest_def dest: in_set_dropD)
  have nib: "unat b div 16 < 16" "unat b mod 16 < 16" for b :: u8
  proof -
    have "unat b < 256" using unsigned_less [of b] by simp
    then show "unat b div 16 < 16" "unat b mod 16 < 16" by simp_all
  qed
  have tl: "unat tl = length data" "unat tl div 16 < 8"
    using len(2) by (simp_all add: tl_def unat_of_nat take_bit_nat_eq_self)
  define c1 where "c1 = airkiss_resest_data ((locked_on base ap mac)\<lparr>total_len := tl, ssid_crc := scrc,
      airkiss_state := AIRKISS_STATE_MAGIC_CODE_COMPLETE\<rparr>)"
  let ?n = "\<lambda>b. (of_nat (unat (b :: u8) div 16) :: u16)" and ?m = "\<lambda>b. (of_nat (unat (b :: u8) mod 16) :: u16)"
  have hi: "(t + ?n b) AND 0x01f0 = t" "(t + ?n b) AND 15 = ?n b" "t + ?n b \<le> 512"
    if "t \<in> {0, 0x20, 0x40, 0x60}" for t b
    using that by (intro nibble_codes nib(1); blast)+
  have lo: "(t + ?m b) AND 0x01f0 = t" "(t + ?m b) AND 15 = ?m b" "t + ?m b \<le> 512"
    if "t \<in> {0x10, 0x30, 0x50, 0x70}" for t b
    using that by (intro nibble_codes nib(2); blast)+
  have top: "(0 + ?n tl) AND 7 = ?n tl" by (intro nibble_codes nib(1) tl(2); blast)
  have digits: "(0x20 + ?n b) AND 15 = ?n b" "(0x40 + ?n b) AND 15 = ?n b" "(0x60 + ?n b) AND 15 = ?n b"
    "(0x10 + ?m b) AND 15 = ?m b" "(0x30 + ?m b) AND 15 = ?m b" "(0x50 + ?m b) AND 15 = ?m b"
    "(0x70 + ?m b) AND 15 = ?m b" for b
    by (rule hi(2) lo(2); simp)+
  have locked: "src_ap_sta (locked_on base ap mac) = ap" "src_mac_crc (locked_on base ap mac) = calcrc_bytes mac"
    "base_len (locked_on base ap mac) = base" "airkiss_state (locked_on base ap mac) = AIRKISS_STATE_SRC_LOCKED"
    "code_record (locked_on base ap mac) = no_record"
    by (simp_all add: locked_on_def airkiss_start_def no_record_def MAX_SEQ_CODE_RECORD_def numeral_eq_Suc)
  have magic: "airkiss_run (frames [a 4, a 5, a 6, a 7] base (nibbles 0x00 tl @ nibbles 0x20 scrc))
      (AIRKISS_STATUS_CHANNEL_LOCKED, locked_on base ap mac) = Ret (AIRKISS_STATUS_CONTINUE, c1)"
  proof -
    have "airkiss_run (frames [a 4, a 5, a 6, a 7] (base_len (locked_on base ap mac))
        [0 + ?n tl, 0x10 + ?m tl, 0x20 + ?n scrc, 0x30 + ?m scrc])
        (AIRKISS_STATUS_CHANNEL_LOCKED, locked_on base ap mac) =
      Ret (AIRKISS_STATUS_CONTINUE, airkiss_resest_data ((locked_on base ap mac)
        \<lparr>total_len := ucast (push_bit 4 ((0 + ?n tl) AND 7) + ((0x10 + ?m tl) AND 15)),
          ssid_crc := ucast (push_bit 4 ((0x20 + ?n scrc) AND 15) + ((0x30 + ?m scrc) AND 15)),
          airkiss_state := AIRKISS_STATE_MAGIC_CODE_COMPLETE\<rparr>))"
    proof (rule magic_received [where mac = mac])
      show "\<forall>h \<in> {a 4, a 5, a 6, a 7}. from_src (src_ap_sta (locked_on base ap mac)) mac h"
        using from_src unfolding locked(1) by (subst (asm) hdrs) simp
      show "\<forall>k \<in> {0 + ?n tl, 0x10 + ?m tl, 0x20 + ?n scrc, 0x30 + ?m scrc}. k \<le> 512"
        using hi(3) lo(3) by blast
    qed (rule locked hi(1) lo(1); simp)+
    then show ?thesis
      unfolding top digits nibbles_join locked c1_def by (simp add: nibbles_def)
  qed
  have small: "unat pn = length pw" "unat pn \<le> PASSWORD_MAX_LEN"
    using len(1) by (simp_all add: pn_def unat_of_nat take_bit_nat_eq_self PASSWORD_MAX_LEN_def)
  have c1: "src_ap_sta c1 = ap" "src_mac_crc c1 = calcrc_bytes mac" "base_len c1 = base"
    "airkiss_state c1 = AIRKISS_STATE_MAGIC_CODE_COMPLETE" "code_record c1 = no_record" "total_len c1 = tl"
    by (simp_all add: c1_def locked)
  have need: "(unat (total_len c1) + 3) div 4 = groups data" by (simp add: c1(6) tl groups_def)
  have few: "groups data \<le> 16" using len(2) by (simp add: groups_def)
  define c2 where "c2 = airkiss_resest_data (c1\<lparr>pswd_len := pn, pswd_lencrc := calcrc_1byte pn,
      airkiss_state := AIRKISS_STATE_PREFIX_CODE_COMPLETE, need_seq := of_nat (groups data),
      seq_success_map_cmp := of_nat (2 ^ groups data - 1)\<rparr>)"
  have prefix: "airkiss_run (frames [a 8, a 9, a 10, a 11] base (nibbles 0x40 pn @ nibbles 0x60 (calcrc_1byte pn)))
      (AIRKISS_STATUS_CONTINUE, c1) = Ret (AIRKISS_STATUS_CONTINUE, c2)"
  proof -
    let ?q = "calcrc_1byte pn"
    have "airkiss_run (frames [a 8, a 9, a 10, a 11] (base_len c1)
        [0x40 + ?n pn, 0x50 + ?m pn, 0x60 + ?n ?q, 0x70 + ?m ?q])
        (AIRKISS_STATUS_CONTINUE, c1) =
      Ret (AIRKISS_STATUS_CONTINUE, airkiss_resest_data (c1\<lparr>pswd_len := pn, pswd_lencrc := ?q,
        airkiss_state := AIRKISS_STATE_PREFIX_CODE_COMPLETE, need_seq := of_nat ((unat (total_len c1) + 3) div 4),
        seq_success_map_cmp := of_nat (2 ^ ((unat (total_len c1) + 3) div 4) - 1)\<rparr>))"
    proof (rule prefix_received [where mac = mac])
      show "\<forall>h \<in> {a 8, a 9, a 10, a 11}. from_src (src_ap_sta c1) mac h"
        using from_src unfolding c1(1) by (subst (asm) hdrs) simp
      show "\<forall>k \<in> {0x40 + ?n pn, 0x50 + ?m pn, 0x60 + ?n ?q, 0x70 + ?m ?q}. k \<le> 512"
        using hi(3) lo(3) by blast
      show "ucast (push_bit 4 ((0x40 + ?n pn) AND 15) + ((0x50 + ?m pn) AND 15)) = pn"
        "ucast (push_bit 4 ((0x60 + ?n ?q) AND 15) + ((0x70 + ?m ?q) AND 15)) = ?q"
        unfolding digits nibbles_join by (rule refl)+
      show "(unat (total_len c1) + 3) div 4 < 31" unfolding need using few by simp
    qed (rule c1 small hi(1) lo(1); simp)+
    then show ?thesis
      unfolding need c1(3) c2_def by (simp add: nibbles_def)
  qed
  have "bit (seq_success_map c2) i = False" for i
    by (simp add: c2_def c1_def locked_on_def airkiss_start_def)
  moreover have "usr_data c2 = stored_data data {}"
    by (simp add: c2_def c1_def locked_on_def airkiss_start_def stored_data_def map_replicate_const)
  ultimately have "holds_groups data {} c2"
    by (simp add: holds_groups_def c2_def c1(6) tl_def mask_eq_exp_minus_1)
  moreover have "src_ap_sta c2 = ap" "src_mac_crc c2 = calcrc_bytes mac" "base_len c2 = base"
    "pswd_len c2 = pn" "ssid_crc c2 = scrc"
    using c1 by (simp_all add: c2_def) (simp add: c1_def)
  ultimately obtain c3 where c3: "holds_groups data {..<groups data} c3" "pswd_len c3 = pn" "ssid_crc c3 = scrc"
    "airkiss_run (frames rest base gs) (AIRKISS_STATUS_CONTINUE, c2) =
      (case airkiss_finish c3 of
         Ret c4 \<Rightarrow> Ret (AIRKISS_STATUS_COMPLETE, c4) | Assert_Stop \<Rightarrow> Assert_Stop | Fault \<Rightarrow> Fault)"
    using groups_received [OF rest, of c2 base data "{}" fill AIRKISS_STATUS_CONTINUE] order nonempty len(2) fill
    unfolding gs_def by auto
  have guide: "airkiss_run (frames [a 0, a 1, a 2, a 3] base [1, 2, 3, 4]) (s, airkiss_start) =
      Ret (AIRKISS_STATUS_CHANNEL_LOCKED, locked_on base ap mac)"
    by (rule guide_locks [OF _ _ _ _ base seqs]) (use from_src in \<open>subst (asm) hdrs, simp\<close>)+
  have codes: "airkiss_codes data (of_nat (length pw)) scrc fill order =
      [1, 2, 3, 4] @ (nibbles 0x00 tl @ nibbles 0x20 scrc) @ (nibbles 0x40 pn @ nibbles 0x60 (calcrc_1byte pn)) @ gs"
    by (simp add: airkiss_codes_def tl_def pn_def gs_def)
  have parts: "frames hdrs base (airkiss_codes data (of_nat (length pw)) scrc fill order) =
      frames [a 0, a 1, a 2, a 3] base [1, 2, 3, 4] @
      frames [a 4, a 5, a 6, a 7] base (nibbles 0x00 tl @ nibbles 0x20 scrc) @
      frames [a 8, a 9, a 10, a 11] base (nibbles 0x40 pn @ nibbles 0x60 (calcrc_1byte pn)) @ frames rest base gs"
    unfolding codes
    by (subst hdrs, (subst frames_append, simp add: nibbles_def)+) (rule refl)
  have "airkiss_run (frames hdrs base (airkiss_codes data (of_nat (length pw)) scrc fill order)) (s, airkiss_start) =
      airkiss_run (frames rest base gs) (AIRKISS_STATUS_CONTINUE, c2)"
    unfolding parts airkiss_run_append guide c_run.case magic prefix by (rule refl)
  with c3 show ?thesis by (auto simp: pn_def)
qed

section \<open>The checksum\<close>

text \<open>The CRC-8 of the 1-Wire bus, one message bit at a time, least significant bit first.\<close>

definition crc8_shift :: "bool \<Rightarrow> u8 \<Rightarrow> u8" where
  "crc8_shift m r = (if bit r 0 \<noteq> m then drop_bit 1 r XOR 0x8C else drop_bit 1 r)"

definition message_bits :: "u8 list \<Rightarrow> bool list" where
  "message_bits p = concat (map (\<lambda>b. map (bit b) [0..<8]) p)"

lemma round_reference:
  fixes r b :: u8
  shows "(crc_round ^^ k) (0, r XOR b) =
    (fold crc8_shift (map (bit b) [0..<k]) r XOR drop_bit k r, drop_bit k (r XOR b))"
proof (induction k)
  case (Suc k)
  define q where "q = fold crc8_shift (map (bit b) [0..<k]) r"
  have odd: "(x AND 1 \<noteq> 0) = bit x 0" for x :: u8
    by (simp add: and_one_eq bit_0 odd_iff_mod_2_eq_one)
  have "bit ((q XOR drop_bit k r) XOR drop_bit k (r XOR b)) 0 \<longleftrightarrow> bit q 0 \<noteq> bit b k"
    by (auto simp: bit_simps)
  moreover have "drop_bit 1 ((q XOR drop_bit k r) XOR 0x18) OR 0x80 = (drop_bit 1 q XOR 0x8C) XOR drop_bit (Suc k) r"
  proof -
    define y where "y = drop_bit 1 (q XOR drop_bit k r)"
    have "drop_bit 1 ((q XOR drop_bit k r) XOR 0x18) = y XOR 0x0C"
      by (simp add: y_def drop_bit_xor)
    moreover have "(y XOR 0x0C) OR 0x80 = y XOR 0x8C"
    proof (rule bit_word_eqI)
      fix n assume "n < LENGTH(8)"
      then have "n \<in> {0, 1, 2, 3, 4, 5, 6, 7}" by (simp add: set_eq_iff) presburger
      moreover have "\<not> bit y 7" by (auto simp: y_def bit_simps dest: bit_imp_le_length)
      ultimately show "bit ((y XOR 0x0C) OR 0x80) n = bit (y XOR 0x8C) n"
        by (elim insertE emptyE) (simp_all add: bit_simps)
    qed
    moreover have "y XOR 0x8C = (drop_bit 1 q XOR 0x8C) XOR drop_bit (Suc k) r"
      by (simp add: y_def drop_bit_xor drop_bit_drop_bit ac_simps)
    ultimately show ?thesis by simp
  qed
  moreover have step: "fold crc8_shift (map (bit b) [0..<Suc k]) r = crc8_shift (bit b k) q"
    by (simp add: q_def)
  ultimately show ?case
    unfolding funpow.simps comp_def Suc q_def [symmetric] step
    by (simp add: crc_round_def odd crc8_shift_def drop_bit_drop_bit drop_bit_xor)
qed simp

lemma byte_reference: "calcrc_1byte (r XOR b) = fold crc8_shift (map (bit b) [0..<8]) r"
proof -
  have "drop_bit 8 r = 0" by (rule bit_word_eqI) (auto simp: bit_simps dest: bit_imp_le_length)
  then show ?thesis unfolding calcrc_1byte_def round_reference by simp
qed

lemma shift_inj:
  assumes "crc8_shift m x = crc8_shift m y"
  shows "x = y"
proof -
  have top: "bit (crc8_shift m r) 7 \<longleftrightarrow> bit r 0 \<noteq> m" for r
    by (auto simp: crc8_shift_def bit_simps dest: bit_imp_le_length)
  have low: "bit x 0 \<longleftrightarrow> bit y 0" using top [of x] top [of y] unfolding assms by blast
  have cancel: "u = v" if "u XOR 0x8C = v XOR 0x8C" for u v :: u8
  proof -
    have "u = (u XOR 0x8C) XOR 0x8C" by (simp add: xor.assoc)
    also have "\<dots> = v" unfolding that by (simp add: xor.assoc)
    finally show ?thesis .
  qed
  have "drop_bit 1 x = drop_bit 1 y"
    using assms low by (cases "bit x 0 = m") (simp_all add: crc8_shift_def cancel)
  then have "bit (drop_bit 1 x) n = bit (drop_bit 1 y) n" for n by (rule arg_cong)
  then have high: "bit x (Suc n) = bit y (Suc n)" for n by (simp add: bit_drop_bit_eq)
  show "x = y"
  proof (rule bit_eqI)
    show "bit x n = bit y n" for n using low high by (cases n) simp_all
  qed
qed

lemma fold_shift_inj: "fold crc8_shift ms x = fold crc8_shift ms y \<Longrightarrow> x = y"
  by (induction ms arbitrary: x y) (auto dest: shift_inj)

lemma bytes_reference: "foldl (\<lambda>r b. calcrc_1byte (r XOR b)) r p = fold crc8_shift (message_bits p) r"
  by (induction p arbitrary: r) (simp_all add: message_bits_def byte_reference del: upt_Suc)

lemma byte_inj: "fold crc8_shift (map (bit a) [0..<8]) r = fold crc8_shift (map (bit b) [0..<8]) r \<Longrightarrow> a = b"
  for a b r :: u8
  unfolding byte_reference [symmetric]
proof -
  assume "calcrc_1byte (r XOR a) = calcrc_1byte (r XOR b)"
  moreover have "calcrc_1byte x = fold crc8_shift (map (bit (0 :: u8)) [0..<8]) x" for x
    using byte_reference [of x 0] by simp
  ultimately have "r XOR a = r XOR b" by (simp only:) (rule fold_shift_inj)
  then have "r XOR (r XOR a) = r XOR (r XOR b)" by simp
  then show "a = b" by (simp flip: xor.assoc)
qed

lemma calcrc_reference:
  "calcrc_bytes p = fold crc8_shift (message_bits p) 0"
  unfolding calcrc_bytes_def by (rule bytes_reference)

lemma calcrc_one_byte:
  "calcrc_bytes (as @ a # bs) = calcrc_bytes (as @ b # bs) \<longleftrightarrow> a = b"
proof
  assume "calcrc_bytes (as @ a # bs) = calcrc_bytes (as @ b # bs)"
  then have "fold crc8_shift (map (bit a) [0..<8]) (fold crc8_shift (message_bits as) 0) =
      fold crc8_shift (map (bit b) [0..<8]) (fold crc8_shift (message_bits as) 0)"
    unfolding calcrc_reference message_bits_def
    by (simp only: map_append list.map concat_append concat.simps fold_append comp_apply) (rule fold_shift_inj)
  then show "a = b" by (rule byte_inj)
qed simp

text \<open>The byte loops of the checksum compute the bitwise CRC-8 of the reflected polynomial \<open>0x8C\<close>, least
  significant bit first from a zero register, on every message, and so any change within a single byte of a message
  changes its checksum.\<close>

lemma calcrc_is_crc8:
  "calcrc_bytes p = fold crc8_shift (message_bits p) 0 \<and>
   (calcrc_bytes (as @ a # bs) = calcrc_bytes (as @ b # bs) \<longleftrightarrow> a = b)"
  by (simp only: calcrc_reference [of p] calcrc_one_byte)

section \<open>The decoded result\<close>

text \<open>\<open>airkiss_get_result\<close> copies the head of the context: \<open>reserved\<close> is the checksum of the name.\<close>

record airkiss_result_t =
  result_pwd :: "nat option"
  result_ssid :: "nat option"
  pwd_length :: u8
  ssid_length :: u8
  random :: u8
  reserved :: u8

definition airkiss_get_result :: "airkiss_local_context \<Rightarrow> int \<times> airkiss_result_t" where
  "airkiss_get_result c =
     (0, \<lparr>result_pwd = pwd c, result_ssid = ssid c, pwd_length = pswd_len c, ssid_length = ssid_len c,
          random = random_num c, reserved = ssid_crc c\<rparr>)"

text \<open>C4: End to end: from the start of a channel, the frames of a sender (guide, magic, prefix, then the data
  groups in any order, with anything in the unused places of the last group) end in \<open>AIRKISS_STATUS_COMPLETE\<close>, and the
  result holds the password, the network name, the random byte and the checksum that were sent; its name length is
  one too many, for it counts the random byte.\<close>

lemma airkiss_decodes_transmission:
  fixes pw ss :: "u8 list" and rnd scrc :: u8
  assumes "sent_by ap mac hdrs" "length hdrs = 12 + 6 * length order" "23 \<le> base"
    "length pw \<le> 32" "length pw + 1 + length ss \<le> 63" "0 \<notin> set pw" "0 \<notin> set ss"
    "distinct order" "set order = {..<groups (pw @ [rnd] @ ss)}" "length fill = 4" "\<forall>k \<in> set fill. k \<le> 512"
  shows "\<exists>c r. airkiss_run (frames hdrs base (airkiss_codes (pw @ [rnd] @ ss) (of_nat (length pw)) scrc fill order))
        (AIRKISS_STATUS_CONTINUE, airkiss_start) = Ret (AIRKISS_STATUS_COMPLETE, c) \<and>
      airkiss_get_result c = (0, r) \<and>
      c_string (usr_data c) (result_pwd r) = Some pw \<and> c_string (usr_data c) (result_ssid r) = Some ss \<and>
      unat (pwd_length r) = length pw \<and> random r = rnd \<and> reserved r = scrc \<and>
      unat (ssid_length r) = length ss + 1"
proof -
  have len: "length (pw @ [rnd] @ ss) \<le> 64" using assms(5) by simp
  obtain c1 where c1: "holds_groups (pw @ [rnd] @ ss) {..<groups (pw @ [rnd] @ ss)} c1"
      "pswd_len c1 = of_nat (length pw)" "ssid_crc c1 = scrc"
    and run: "airkiss_run (frames hdrs base (airkiss_codes (pw @ [rnd] @ ss) (of_nat (length pw)) scrc fill order))
        (AIRKISS_STATUS_CONTINUE, airkiss_start) =
      (case airkiss_finish c1 of
         Ret c2 \<Rightarrow> Ret (AIRKISS_STATUS_COMPLETE, c2) | Assert_Stop \<Rightarrow> Assert_Stop | Fault \<Rightarrow> Fault)"
    using transmission [OF assms(1,2,3,4) len assms(8,9,10,11)] by blast
  obtain c2 where c2: "airkiss_finish c1 = Ret c2" "c_string (usr_data c2) (pwd c2) = Some pw"
      "c_string (usr_data c2) (ssid c2) = Some ss" "unat (pswd_len c2) = length pw" "random_num c2 = rnd"
      "ssid_crc c2 = ssid_crc c1" "unat (ssid_len c2) = length ss + 1"
    using finish_result [OF c1(1,2) assms(4,5,6,7)] by blast
  define r where "r = snd (airkiss_get_result c2)"
  have got: "airkiss_get_result c2 = (0, r)" by (simp add: r_def airkiss_get_result_def)
  have r: "result_pwd r = pwd c2" "result_ssid r = ssid c2" "pwd_length r = pswd_len c2"
    "ssid_length r = ssid_len c2" "random r = random_num c2" "reserved r = ssid_crc c2"
    by (simp_all add: r_def airkiss_get_result_def)
  show ?thesis
    by (rule exI [of _ c2], rule exI [of _ r], unfold r got run c2 c1(3) c_run.case) simp
qed

text \<open>Fourteen frames of an access point: the password \<open>ab\<close>, the random byte 7 and the name \<open>c\<close>.\<close>

definition ap_frame :: "u8 list \<Rightarrow> nat \<Rightarrow> mac_hdr" where
  "ap_frame mac i = \<lparr>fctl = 0x0208, durid = 0, addr1 = replicate 6 255, addr2 = replicate 6 0, addr3 = mac,
     hdr_seq = of_nat (16 * i)\<rparr>"

lemma ap_frame_from: "from_src 1 mac (ap_frame mac i)"
  by (simp add: from_src_def ap_frame_def MAC_FCTRL_TYPE_MASK_def MAC_FCTRL_DATA_T_def MAC_FCTRL_TODS_FROMDS_def
      MAC_FCTRL_TODS_def MAC_FCTRL_FROMDS_def)

lemma ap_frames_sent:
  assumes "4 \<le> n"
  shows "sent_by 1 mac (map (ap_frame mac) [0..<n])"
proof -
  have "drop_bit 4 (hdr_seq (ap_frame mac (Suc i))) \<noteq> drop_bit 4 (hdr_seq (ap_frame mac i))" if "i < 3" for i
  proof -
    have "i \<in> {0, 1, 2}" using that by auto
    then show ?thesis by (elim insertE emptyE) (simp_all add: ap_frame_def)
  qed
  moreover have "map (ap_frame mac) [0..<n] ! i = ap_frame mac i" if "i < 4" for i
    using that assms by simp
  ultimately show ?thesis
    by (simp add: sent_by_def ap_frame_from)
qed

lemma airkiss_decodes_transmission_witness:
  "\<exists>c r. airkiss_run (frames (map (ap_frame [1, 2, 3, 4, 5, 6]) [0..<18]) 100
        (airkiss_codes [97, 98, 7, 99] 2 5 [0, 0, 0, 0] [0])) (AIRKISS_STATUS_CONTINUE, airkiss_start) =
      Ret (AIRKISS_STATUS_COMPLETE, c) \<and> airkiss_get_result c = (0, r) \<and>
      c_string (usr_data c) (result_pwd r) = Some [97, 98] \<and> c_string (usr_data c) (result_ssid r) = Some [99] \<and>
      unat (pwd_length r) = 2 \<and> random r = 7 \<and> reserved r = 5 \<and> unat (ssid_length r) = 2"
proof -
  have groups: "set [0] = {..<groups ([97, 98] @ [7] @ [99])}" by (auto simp: groups_def)
  have sent: "sent_by 1 [1, 2, 3, 4, 5, 6] (map (ap_frame [1, 2, 3, 4, 5, 6]) [0..<18])"
    by (rule ap_frames_sent) simp
  have "(23 :: u8) \<le> 100" "length (map (ap_frame [1, 2, 3, 4, 5, 6]) [0..<18]) = 12 + 6 * length [0 :: nat]"
    "\<forall>k \<in> set [0, 0, 0, 0 :: u16]. k \<le> 512" "0 \<notin> set [97, 98 :: u8]" "0 \<notin> set [99 :: u8]"
    by simp_all
  from airkiss_decodes_transmission [OF sent this(2,1) _ _ this(4,5) _ groups _ this(3), of 5]
  show ?thesis by (simp add: numeral_2_eq_2 del: upt_Suc)
qed

text \<open>C22: The longest data overruns the buffer: when the password, the random byte and the name are 64 bytes, which
  the buffer of 65 bytes can hold with its terminator, the last group makes the decoder write its second terminator
  past the end of \<open>usr_data\<close>.\<close>

lemma airkiss_full_data_overruns:
  fixes pw ss :: "u8 list" and rnd scrc :: u8
  assumes "sent_by ap mac hdrs" "length hdrs = 108" "23 \<le> base"
    "length pw \<le> 32" "length pw + 1 + length ss = 64" "distinct order" "set order = {..<16}"
    "length fill = 4" "\<forall>k \<in> set fill. k \<le> 512"
  shows "airkiss_run (frames hdrs base (airkiss_codes (pw @ [rnd] @ ss) (of_nat (length pw)) scrc fill order))
      (AIRKISS_STATUS_CONTINUE, airkiss_start) = Fault"
proof -
  let ?data = "pw @ [rnd] @ ss"
  have len: "length ?data = 64" using assms(5) by simp
  then have g: "groups ?data = 16" by (simp add: groups_def)
  have "length order = 16" using distinct_card [OF assms(6)] assms(7) by simp
  with assms(2) have hdrs: "length hdrs = 12 + 6 * length order" by simp
  obtain c1 where c1: "holds_groups ?data {..<groups ?data} c1" "pswd_len c1 = of_nat (length pw)"
    and run: "airkiss_run (frames hdrs base (airkiss_codes ?data (of_nat (length pw)) scrc fill order))
        (AIRKISS_STATUS_CONTINUE, airkiss_start) =
      (case airkiss_finish c1 of
         Ret c2 \<Rightarrow> Ret (AIRKISS_STATUS_COMPLETE, c2) | Assert_Stop \<Rightarrow> Assert_Stop | Fault \<Rightarrow> Fault)"
    using transmission [OF assms(1) hdrs assms(3,4) _ assms(6) _ assms(8,9), of rnd ss scrc] len assms(7)
    unfolding g by auto
  have p: "unat (pswd_len c1) = length pw"
    using c1(2) assms(4) by (simp add: unat_of_nat take_bit_nat_eq_self)
  have "total_len c1 = 64" using c1(1) len by (simp only: holds_groups_def) simp
  moreover have "pswd_len c1 \<le> 64" using p assms(4) by (simp add: word_le_nat_alt)
  ultimately have n: "unat (total_len c1 - pswd_len c1) = 64 - length pw" using p by (simp add: unat_sub)
  have "length (usr_data c1) = 65"
    using c1(1) by (simp add: holds_groups_def USR_DATA_BUFF_MAX_SIZE_def PASSWORD_MAX_LEN_def ESSID_MAX_LEN_def)
  then have "airkiss_finish c1 = Fault"
    using assms(4) unfolding airkiss_finish_def Let_def p n by simp
  with run show ?thesis by simp
qed

lemma airkiss_full_data_overruns_witness:
  "airkiss_run (frames (map (ap_frame [1, 2, 3, 4, 5, 6]) [0..<108]) 100
      (airkiss_codes (replicate 32 97 @ [7] @ replicate 31 99) 32 5 [0, 0, 0, 0] [0..<16]))
    (AIRKISS_STATUS_CONTINUE, airkiss_start) = Fault"
proof -
  have "set [0..<16] = {..<16}" by auto
  then show ?thesis
    using airkiss_full_data_overruns [OF ap_frames_sent, of 108 "[1, 2, 3, 4, 5, 6]" 100 "replicate 32 97" "replicate 31 99" "[0..<16]"
        "[0, 0, 0, 0]" 7 5] by (simp del: upt_Suc)
qed

section \<open>Many sources\<close>

text \<open>The source of a frame, as the decoder tells sources apart.\<close>

definition frame_source :: "mac_hdr \<Rightarrow> (u8 \<times> u8) option" where
  "frame_source h =
     (if fctl h AND MAC_FCTRL_TODS_FROMDS = MAC_FCTRL_FROMDS then Some (calcrc_bytes (addr3 h), 1)
      else if fctl h AND MAC_FCTRL_TODS_FROMDS = MAC_FCTRL_TODS then Some (calcrc_bytes (addr2 h), 2)
      else None)"

text \<open>The table holds sources of \<open>seen\<close> only, and counts \<open>n\<close> of them.\<close>

definition holds_sources :: "(u8 \<times> u8) set \<Rightarrow> nat \<Rightarrow> airkiss_local_context \<Rightarrow> bool" where
  "holds_sources seen n c \<longleftrightarrow> airkiss_state c = AIRKISS_STATE_IDLE \<and> length (src_info c) = MAX_SRC_NUM \<and>
     unat (src_num c) = n \<and> (\<forall>i < min n MAX_SRC_NUM. (crc (src_info c ! i), ap_sta (src_info c ! i)) \<in> seen)"

lemma find_src_new:
  assumes "\<forall>i < min n (length tbl). (crc (tbl ! i), ap_sta (tbl ! i)) \<noteq> (q, ap)"
  shows "find_src tbl n i q ap = (if n \<le> i then Ret n else if length tbl < n then Fault else Ret n)"
  using assms
proof (induction tbl n i q ap rule: find_src.induct)
  case (1 tbl n i q ap)
  show ?case
  proof (cases "n \<le> i \<or> length tbl \<le> i")
    case True
    then show ?thesis by (subst find_src.simps) auto
  next
    case False
    then have other: "\<not> (crc (tbl ! i) = q \<and> ap_sta (tbl ! i) = ap)" using 1(2) by auto
    with 1 False have "find_src tbl n (Suc i) q ap = (if n \<le> Suc i then Ret n else if length tbl < n then Fault else Ret n)"
      by blast
    then show ?thesis using False other by (subst find_src.simps) auto
  qed
qed

lemma recv_source:
  assumes "airkiss_state c = AIRKISS_STATE_IDLE" "airkiss_discover_filter h m" "frame_source h = Some (q, ap)"
  shows "airkiss_recv h m c =
    (case airkiss_add_src_macinfo q ap m (drop_bit 4 (hdr_seq h)) c of
       Ret (success, c1) \<Rightarrow>
         Ret (if success then (AIRKISS_STATUS_CHANNEL_LOCKED, airkiss_resest_data (c1\<lparr>airkiss_state := AIRKISS_STATE_SRC_LOCKED\<rparr>))
              else (AIRKISS_STATUS_CONTINUE, c1))
     | Assert_Stop \<Rightarrow> Assert_Stop | Fault \<Rightarrow> Fault)"
  using assms
  by (auto simp: airkiss_recv_def airkiss_recv_discover_def frame_source_def split: if_splits c_run.splits)

lemma least_src_bound: "least_src tbl < MAX_SRC_NUM"
proof -
  let ?step = "\<lambda>i (m, j). if rev_cnt (tbl ! i) < m then (rev_cnt (tbl ! i), i) else (m, j)"
  have max: "0 < MAX_SRC_NUM" by (simp add: MAX_SRC_NUM_def)
  have "set is \<subseteq> {..<MAX_SRC_NUM} \<Longrightarrow> j < MAX_SRC_NUM \<Longrightarrow> snd (fold ?step is (m, j)) < MAX_SRC_NUM" for "is" m j
    by (induction "is" arbitrary: m j) auto
  from this [of "[0..<MAX_SRC_NUM]" 0 255, OF _ max] show ?thesis
    unfolding least_src_def atLeast_upt [symmetric] by simp
qed

lemma new_source_stored:
  assumes "holds_sources seen n c" "n \<le> MAX_SRC_NUM" "airkiss_discover_filter h m"
    "frame_source h = Some p" "p \<notin> seen"
  shows "\<exists>c1. airkiss_recv h m c = Ret (AIRKISS_STATUS_CONTINUE, c1) \<and> holds_sources (insert p seen) (Suc n) c1"
proof -
  obtain q ap where p: "p = (q, ap)" by (cases p)
  have c: "airkiss_state c = AIRKISS_STATE_IDLE" "length (src_info c) = MAX_SRC_NUM" "unat (src_num c) = n"
    "\<forall>i < min n MAX_SRC_NUM. (crc (src_info c ! i), ap_sta (src_info c ! i)) \<in> seen"
    using assms(1) by (simp_all add: holds_sources_def)
  have new: "find_src (src_info c) (unat (src_num c)) 0 q ap = Ret n"
    unfolding c(3) by (subst find_src_new) (use c assms(2,5) p in auto)
  define k where "k = (if n = MAX_SRC_NUM then least_src (src_info c) else n)"
  have k: "k < MAX_SRC_NUM" using assms(2) least_src_bound by (auto simp: k_def)
  let ?e = "\<lparr>crc = q, rev_cnt = 1, ap_sta = ap, seq_cnt = 0, len = m, seq = drop_bit 4 (hdr_seq h)\<rparr>"
  define c1 where "c1 = c\<lparr>src_info := (src_info c)[k := ?e], src_num := src_num c + 1\<rparr>"
  have "airkiss_add_src_macinfo q ap m (drop_bit 4 (hdr_seq h)) c = Ret (False, c1)"
    using k unfolding airkiss_add_src_macinfo_def new by (simp add: c k_def [symmetric] c1_def)
  then have "airkiss_recv h m c = Ret (AIRKISS_STATUS_CONTINUE, c1)"
    using recv_source [OF c(1) assms(3)] assms(4) p by simp
  moreover have "unat (src_num c + 1) = Suc n"
    using c(3) assms(2) by (simp add: unat_word_ariths MAX_SRC_NUM_def)
  then have "holds_sources (insert p seen) (Suc n) c1"
    using c k p by (auto simp: holds_sources_def c1_def nth_list_update k_def less_Suc_eq)
  ultimately show ?thesis by blast
qed

lemma new_sources_stored:
  assumes "holds_sources seen n c" "n + length fs \<le> Suc MAX_SRC_NUM"
    "\<forall>(h, m) \<in> set fs. airkiss_discover_filter h m \<and> frame_source h \<noteq> None"
    "distinct (map (frame_source \<circ> fst) fs)" "\<forall>f \<in> set fs. frame_source (fst f) \<notin> Some ` seen"
  shows "\<exists>s1 c1 seen1. airkiss_run fs (s, c) = Ret (s1, c1) \<and>
    holds_sources seen1 (n + length fs) c1 \<and> Some ` seen1 = Some ` seen \<union> set (map (frame_source \<circ> fst) fs)"
  using assms
proof (induction fs arbitrary: seen n c s)
  case (Cons f fs)
  obtain h m where f: "f = (h, m)" by (cases f)
  with Cons.prems(3) obtain p where p: "frame_source h = Some p" "airkiss_discover_filter h m" by auto
  with Cons.prems f have fresh: "p \<notin> seen" by auto
  obtain c1 where c1: "airkiss_recv h m c = Ret (AIRKISS_STATUS_CONTINUE, c1)" "holds_sources (insert p seen) (Suc n) c1"
    using new_source_stored [OF Cons.prems(1) _ p(2,1) fresh] Cons.prems(2) by auto
  have "\<forall>f \<in> set fs. frame_source (fst f) \<notin> Some ` insert p seen"
    using Cons.prems(4,5) f p(1) by (auto simp: image_iff)
  with Cons.IH [OF c1(2), of AIRKISS_STATUS_CONTINUE] Cons.prems f p c1(1) show ?case by auto
qed auto

text \<open>Twelve sources overrun the table: when twelve frames of different sources arrive in the discovery of one
  channel, the eleventh replaces an entry and still counts itself, and the search for the twelfth reads the entry
  after the last one.\<close>

lemma airkiss_twelve_sources_overrun:
  assumes "length fs = 12" "\<forall>f \<in> set fs. airkiss_discover_filter (fst f) (snd f) \<and> frame_source (fst f) \<noteq> None"
    "distinct (map (frame_source \<circ> fst) fs)"
  shows "airkiss_run fs (AIRKISS_STATUS_CONTINUE, airkiss_start) = Fault"
proof -
  define gs where "gs = butlast fs"
  define f where "f = last fs"
  have fs: "fs = gs @ [f]" and gs: "length gs = 11"
    using assms(1) by (cases fs rule: rev_cases; simp add: gs_def f_def)+
  have start: "holds_sources {} 0 airkiss_start"
    by (simp add: holds_sources_def airkiss_start_def)
  have valid: "\<forall>(h, m) \<in> set gs. airkiss_discover_filter h m \<and> frame_source h \<noteq> None"
    using assms(2) fs by auto
  have room: "0 + length gs \<le> Suc MAX_SRC_NUM" using gs by (simp add: MAX_SRC_NUM_def)
  have new: "distinct (map (frame_source \<circ> fst) gs)" using assms(3) fs by simp
  obtain s1 c1 seen where c1: "airkiss_run gs (AIRKISS_STATUS_CONTINUE, airkiss_start) = Ret (s1, c1)"
      "holds_sources seen 11 c1" "Some ` seen = set (map (frame_source \<circ> fst) gs)"
    using new_sources_stored [OF start room valid new, of AIRKISS_STATUS_CONTINUE] gs by auto
  obtain q ap where p: "frame_source (fst f) = Some (q, ap)" "airkiss_discover_filter (fst f) (snd f)"
    using assms(2) fs by auto
  have fresh: "(q, ap) \<notin> seen"
    using assms(3) p(1) c1(3) unfolding fs by (auto simp: image_iff)
  have "find_src (src_info c1) 11 0 q ap = Fault"
    by (subst find_src_new) (use c1(2) fresh in \<open>auto simp: holds_sources_def MAX_SRC_NUM_def\<close>)
  then have "airkiss_add_src_macinfo q ap (snd f) (drop_bit 4 (hdr_seq (fst f))) c1 = Fault"
    using c1(2) by (simp add: airkiss_add_src_macinfo_def holds_sources_def)
  then have "airkiss_recv (fst f) (snd f) c1 = Fault"
    using recv_source [OF _ p(2,1), of c1] c1(2) by (simp add: holds_sources_def)
  then show ?thesis
    using c1(1) unfolding fs airkiss_run_append by (cases f) simp
qed

lemma airkiss_twelve_sources_overrun_witness:
  "airkiss_run (map (\<lambda>i. (ap_frame [0, 0, 0, 0, 0, of_nat i] i, 100)) [0..<12])
    (AIRKISS_STATUS_CONTINUE, airkiss_start) = Fault"
proof (rule airkiss_twelve_sources_overrun)
  let ?fs = "map (\<lambda>i. (ap_frame [0, 0, 0, 0, 0, of_nat i] i, 100)) [0..<12]"
  show "length ?fs = 12" by simp
  have src: "frame_source (ap_frame mac i) = Some (calcrc_bytes mac, 1)" for mac i
    by (simp add: frame_source_def ap_frame_def MAC_FCTRL_TODS_FROMDS_def MAC_FCTRL_TODS_def MAC_FCTRL_FROMDS_def)
  moreover have "airkiss_discover_filter (ap_frame mac i) 100" for mac i
    by (simp add: airkiss_discover_filter_def ap_frame_def MAC_FCTRL_TYPE_MASK_def MAC_FCTRL_DATA_T_def)
  ultimately show "\<forall>f \<in> set ?fs. airkiss_discover_filter (fst f) (snd f) \<and> frame_source (fst f) \<noteq> None"
    by (auto simp del: upt_Suc)
  show "distinct (map (frame_source \<circ> fst) ?fs)"
    by (simp add: src comp_def) code_simp
qed

end
