(* ===== verification/Airkiss_Scan.thy ===== *)
theory Airkiss_Scan
  imports Airkiss_Decode "HOL-Library.Multiset"
begin

unbundle bit_operations_syntax

text \<open>
  The channel scan around the AirKiss decoder, \<open>beken378/app/airkiss/airkiss_main.c\<close>: frames are counted per
  channel while a timer goes through all of them, the channels with traffic are kept in the front of the same table, sorted by
  their traffic, and the decoder runs on those.

  A received frame is its MAC header, its size and the channel number of its DS element, if \<open>mac_ie_find\<close> (not in the sources)
  finds one. What the code asks of the radio and of the timers is a log. An index outside \<open>chan\<close> or \<open>mac\<close> is a \<open>Fault\<close>.
\<close>

section \<open>State\<close>

definition MAX_CHANNELS :: nat where "MAX_CHANNELS = 14"
definition MAX_MAC :: nat where "MAX_MAC = 50"
definition AIRKISS_SWITCH_TIMER :: u32 where "AIRKISS_SWITCH_TIMER = 50"
definition MIN_SEL_CHAN_TIMER :: u32 where "MIN_SEL_CHAN_TIMER = 1000"
definition MAX_SEL_CHAN_TIMER :: u32 where "MAX_SEL_CHAN_TIMER = 5000"
definition MIN_VALID_DATACNT_INCHAN :: u8 where "MIN_VALID_DATACNT_INCHAN = 4"
definition MIN_VALID_BCNCNT_INCHAN :: u8 where "MIN_VALID_BCNCNT_INCHAN = 1"

datatype airkiss_mode = AIRKISS_SCAN_ALL_CHAN | AIRKISS_SCAN_SELECTED_CHAN

record chan_param_t =
  bcn_cnt :: u8
  data_cnt :: u8
  channel :: u16

record mac_param_t =
  frame_cnt :: u8
  mac_crc :: u8
  mac_ap_sta :: u8
  mac_channel :: u16

record airkiss_channel_t =
  chan :: "chan_param_t list"
  cur_chan_idx :: u8
  all_chan_nums :: u8
  selected_chan_nums :: u8
  mode :: airkiss_mode

record airkiss_mac_t =
  mac :: "mac_param_t list"
  mac_cnt :: u8

datatype radio_event = Set_Channel u16 | Chan_Timer_Period u32 | Stop_Chan_Timer | Start_Doing_Timer | Stop_Doing_Timer

record airkiss_scan =
  g_chans :: airkiss_channel_t
  g_macs :: airkiss_mac_t
  ak_contex :: airkiss_local_context
  radio :: "radio_event list"

record rx_frame =
  rx_hdr :: mac_hdr
  rx_size :: u16
  rx_ds_channel :: "u8 option"

definition chan_zero :: chan_param_t where
  "chan_zero = \<lparr>bcn_cnt = 0, data_cnt = 0, channel = 0\<rparr>"

definition mac_zero :: mac_param_t where
  "mac_zero = \<lparr>frame_cnt = 0, mac_crc = 0, mac_ap_sta = 0, mac_channel = 0\<rparr>"

section \<open>Counting\<close>

definition MAC_FCTRL_TYPESUBTYPE_MASK :: u16 where "MAC_FCTRL_TYPESUBTYPE_MASK = 0x00FC"
definition MAC_FCTRL_BEACON :: u16 where "MAC_FCTRL_BEACON = 0x0080"
definition MAC_FCTRL_PROBERSP :: u16 where "MAC_FCTRL_PROBERSP = 0x0050"

definition is_beacon :: "rx_frame \<Rightarrow> bool" where
  "is_beacon f \<longleftrightarrow> fctl (rx_hdr f) AND MAC_FCTRL_TYPESUBTYPE_MASK = MAC_FCTRL_BEACON \<or>
     fctl (rx_hdr f) AND MAC_FCTRL_TYPESUBTYPE_MASK = MAC_FCTRL_PROBERSP"

definition is_data :: "rx_frame \<Rightarrow> bool" where
  "is_data f \<longleftrightarrow> fctl (rx_hdr f) AND MAC_FCTRL_TYPE_MASK = MAC_FCTRL_DATA_T"

text \<open>The entry of a source in the table of beacons, searched from the front.\<close>

fun find_mac :: "mac_param_t list \<Rightarrow> nat \<Rightarrow> u8 \<Rightarrow> nat" where
  "find_mac (e # es) (Suc n) q = (if mac_crc e = q then 0 else Suc (find_mac es n q))"
| "find_mac _ _ q = 0"

definition note_beacon :: "u8 \<Rightarrow> u16 \<Rightarrow> airkiss_mac_t \<Rightarrow> airkiss_mac_t c_run" where
  "note_beacon q ch g =
     (let n = unat (mac_cnt g); i = find_mac (mac g) n q in
      if length (mac g) \<le> i then Fault
      else if i < n then Ret (if ch \<noteq> 0 then g\<lparr>mac := (mac g)[i := (mac g ! i)\<lparr>mac_channel := ch\<rparr>]\<rparr> else g)
      else Ret (g\<lparr>mac := (mac g)[i := (mac g ! i)\<lparr>mac_crc := q,
                     mac_channel := (if ch \<noteq> 0 then ch else mac_channel (mac g ! i))\<rparr>],
                  mac_cnt := mac_cnt g + 1\<rparr>))"

definition airkiss_count_usefull_packet :: "rx_frame \<Rightarrow> airkiss_scan \<Rightarrow> airkiss_scan c_run" where
  "airkiss_count_usefull_packet f s =
     (let g = g_chans s; k = unat (cur_chan_idx g) in
      if rx_size f = 0 then Ret s
      else if length (chan g) \<le> k then Fault
      else if is_beacon f then
        (let g1 = g\<lparr>chan := (chan g)[k := (chan g ! k)\<lparr>bcn_cnt := bcn_cnt (chan g ! k) + 1\<rparr>]\<rparr>;
             ch = (case rx_ds_channel f of None \<Rightarrow> 0 | Some c \<Rightarrow> ucast c)
         in c_then (note_beacon (calcrc_bytes (addr2 (rx_hdr f))) ch (g_macs s))
              (\<lambda>m. Ret (s\<lparr>g_chans := g1, g_macs := m\<rparr>)))
      else if is_data f then
        Ret (s\<lparr>g_chans := g\<lparr>chan := (chan g)[k := (chan g ! k)\<lparr>data_cnt := data_cnt (chan g ! k) + 1\<rparr>]\<rparr>\<rparr>)
      else Ret s)"

section \<open>Choosing channels\<close>

definition airkiss_set_scan_all_channel :: "airkiss_scan \<Rightarrow> airkiss_scan" where
  "airkiss_set_scan_all_channel s =
     s\<lparr>g_chans := \<lparr>chan = map (\<lambda>i. chan_zero\<lparr>channel := of_nat (i + 1)\<rparr>) [0..<MAX_CHANNELS - 1] @ [chan_zero],
                   cur_chan_idx = 0, all_chan_nums = of_nat (MAX_CHANNELS - 1), selected_chan_nums = 0,
                   mode = AIRKISS_SCAN_ALL_CHAN\<rparr>,
       g_macs := \<lparr>mac = replicate MAX_MAC mac_zero, mac_cnt = 0\<rparr>\<rparr>"

definition airkiss_calc_time_for_selected_channel :: "u8 \<Rightarrow> u32" where
  "airkiss_calc_time_for_selected_channel valid_cnt =
     (let timer_cnt = of_nat (unat valid_cnt div unat MIN_VALID_DATACNT_INCHAN) * MIN_SEL_CHAN_TIMER in
      if timer_cnt < MIN_SEL_CHAN_TIMER then MIN_SEL_CHAN_TIMER
      else if MAX_SEL_CHAN_TIMER < timer_cnt then MAX_SEL_CHAN_TIMER
      else timer_cnt)"

text \<open>The first selected channel with fewer data frames.\<close>

fun find_less :: "chan_param_t list \<Rightarrow> nat \<Rightarrow> u8 \<Rightarrow> nat" where
  "find_less (e # es) (Suc n) d = (if data_cnt e < d then 0 else Suc (find_less es n d))"
| "find_less _ _ d = 0"

definition airkiss_add_channel :: "u8 \<Rightarrow> u8 \<Rightarrow> u8 \<Rightarrow> airkiss_channel_t \<Rightarrow> airkiss_channel_t c_run" where
  "airkiss_add_channel ch bcn data g =
     (if data < MIN_VALID_DATACNT_INCHAN then Ret g
      else if bcn < MIN_VALID_BCNCNT_INCHAN then Ret g
      else
        (let n = unat (selected_chan_nums g); i = find_less (chan g) n data in
         if length (chan g) \<le> i then Fault
         else if i < n then
           (let cur_chan = ucast (channel (chan g ! i)) :: u8;
                g1 = (if cur_chan \<noteq> ch
                      then g\<lparr>chan := blit (chan g) (i + 1) (take (n - i) (drop i (chan g))),
                             selected_chan_nums := selected_chan_nums g + 1\<rparr>
                      else g)
            in if cur_chan \<noteq> ch \<and> length (chan g) \<le> n then Fault
               else Ret (g1\<lparr>chan := (chan g1)[i := (chan g1 ! i)\<lparr>channel := ucast ch, data_cnt := data\<rparr>]\<rparr>))
         else Ret (g\<lparr>selected_chan_nums := selected_chan_nums g + 1,
                     chan := (chan g)[i := (chan g ! i)\<lparr>channel := ucast ch, data_cnt := data\<rparr>]\<rparr>)))"

text \<open>The end of a channel's time: the two modes, then the radio and the timer.\<close>

definition tune :: "u32 \<Rightarrow> airkiss_scan \<Rightarrow> airkiss_scan c_run" where
  "tune timer_cnt s =
     (let g = g_chans s; k = unat (cur_chan_idx g) in
      if length (chan g) \<le> k then Fault
      else Ret (s\<lparr>ak_contex := airkiss_change_channel (ak_contex s),
                  radio := radio s @ [Set_Channel (ucast (ucast (channel (chan g ! k)) :: u8)), Chan_Timer_Period timer_cnt]\<rparr>))"

definition airkiss_switch_channel_callback :: "airkiss_scan \<Rightarrow> airkiss_scan c_run" where
  "airkiss_switch_channel_callback s =
     (let g = g_chans s; k = unat (cur_chan_idx g) in
      if length (chan g) \<le> k then Fault
      else
        (let cur = chan g ! k in
         case mode g of
           AIRKISS_SCAN_ALL_CHAN \<Rightarrow>
             c_then (airkiss_add_channel (ucast (channel cur)) (bcn_cnt cur) (data_cnt cur) g)
               (\<lambda>g0.
                  (let g1 = g0\<lparr>cur_chan_idx := cur_chan_idx g0 + 1\<rparr> in
                   if all_chan_nums g1 \<le> cur_chan_idx g1 then
                     (let g2 = g1\<lparr>cur_chan_idx := 0\<rparr> in
                      if selected_chan_nums g2 \<noteq> 0
                      then tune (airkiss_calc_time_for_selected_channel (data_cnt (chan g2 ! 0)))
                             (s\<lparr>g_chans := g2\<lparr>mode := AIRKISS_SCAN_SELECTED_CHAN\<rparr>\<rparr>)
                      else tune AIRKISS_SWITCH_TIMER (airkiss_set_scan_all_channel (s\<lparr>g_chans := g2\<rparr>)))
                   else tune AIRKISS_SWITCH_TIMER (s\<lparr>g_chans := g1\<rparr>)))
         | AIRKISS_SCAN_SELECTED_CHAN \<Rightarrow>
             (let g1 = g\<lparr>cur_chan_idx := cur_chan_idx g + 1\<rparr>; k1 = unat (cur_chan_idx g1) in
              if length (chan g1) \<le> k1 then Fault
              else if selected_chan_nums g1 \<le> cur_chan_idx g1
              then tune AIRKISS_SWITCH_TIMER (airkiss_set_scan_all_channel (s\<lparr>g_chans := g1\<rparr>))
              else tune (airkiss_calc_time_for_selected_channel (data_cnt (chan g1 ! k1))) (s\<lparr>g_chans := g1\<rparr>))))"

definition airkiss_doing_timeout_callback :: "airkiss_scan \<Rightarrow> airkiss_scan" where
  "airkiss_doing_timeout_callback s =
     (let s1 = airkiss_set_scan_all_channel
                 (s\<lparr>radio := radio s @ [Stop_Doing_Timer], ak_contex := airkiss_change_channel (ak_contex s)\<rparr>)
      in s1\<lparr>radio := radio s1 @ [Set_Channel (channel (chan (g_chans s1) ! 0)),
               Chan_Timer_Period AIRKISS_SWITCH_TIMER]\<rparr>)"

section \<open>Decoding\<close>

text \<open>The channel the source was heard to be on; every entry of the source is taken in turn.\<close>

definition follow_source :: "u8 \<Rightarrow> mac_param_t \<Rightarrow> airkiss_scan \<Rightarrow> airkiss_scan" where
  "follow_source q e s =
     (let g = g_chans s; k = unat (cur_chan_idx g) in
      if mac_crc e = q \<and> channel (chan g ! k) \<noteq> mac_channel e
      then s\<lparr>g_chans := g\<lparr>chan := (chan g)[k := (chan g ! k)\<lparr>channel := mac_channel e\<rparr>]\<rparr>,
             radio := radio s @ [Set_Channel (mac_channel e)]\<rparr>
      else s)"

definition process_airkiss :: "rx_frame \<Rightarrow> airkiss_scan \<Rightarrow> (airkiss_status \<times> airkiss_scan) c_run" where
  "process_airkiss f s =
     c_then (airkiss_recv (rx_hdr f) (rx_size f) (ak_contex s)) (\<lambda>(status, c).
          (let s1 = s\<lparr>ak_contex := c\<rparr> in
           Ret (status,
             case status of
               AIRKISS_STATUS_CONTINUE \<Rightarrow> s1
             | AIRKISS_STATUS_CHANNEL_LOCKED \<Rightarrow>
                 (let s2 = fold (follow_source (calcrc_bytes (addr2 (rx_hdr f))))
                        (take (unat (mac_cnt (g_macs s1))) (mac (g_macs s1)))
                        (s1\<lparr>radio := radio s1 @ [Stop_Chan_Timer]\<rparr>)
                  in s2\<lparr>radio := radio s2 @ [Start_Doing_Timer]\<rparr>)
             | AIRKISS_STATUS_COMPLETE \<Rightarrow> s1\<lparr>radio := radio s1 @ [Stop_Doing_Timer]\<rparr>)))"

text \<open>One turn of the loop of \<open>airkiss_main\<close> on a frame; the flag says that the loop was left.\<close>

definition airkiss_main_turn :: "rx_frame \<Rightarrow> airkiss_scan \<Rightarrow> (bool \<times> airkiss_scan) c_run" where
  "airkiss_main_turn f s =
     c_then (airkiss_count_usefull_packet f s) (\<lambda>s1.
       if mode (g_chans s1) = AIRKISS_SCAN_SELECTED_CHAN
       then c_then (process_airkiss f s1) (\<lambda>(status, s2). Ret (status = AIRKISS_STATUS_COMPLETE, s2))
       else Ret (False, s1))"

section \<open>Sorting the channels\<close>

definition entry :: "chan_param_t \<Rightarrow> u16 \<times> u8" where
  "entry e = (channel e, data_cnt e)"

definition insert_busy :: "u16 \<times> u8 \<Rightarrow> (u16 \<times> u8) list \<Rightarrow> (u16 \<times> u8) list" where
  "insert_busy x xs = takeWhile (\<lambda>y. \<not> snd y < snd x) xs @ x # dropWhile (\<lambda>y. \<not> snd y < snd x) xs"

lemma find_less_spec:
  "n \<le> length es \<Longrightarrow> find_less es n d = length (takeWhile (\<lambda>y. \<not> snd y < d) (map entry (take n es)))"
  by (induction es n d rule: find_less.induct) (auto simp: entry_def)

lemma find_less_le: "find_less es n d \<le> n"
  by (induction es n d rule: find_less.induct) auto

text \<open>The selected channels are the front of the table, and a new one is put in its place.\<close>

lemma add_channel_inserts:
  assumes sel: "unat (selected_chan_nums g) = n" "n < length (chan g)" "length (chan g) = 14"
    and ok: "MIN_VALID_DATACNT_INCHAN \<le> d" "MIN_VALID_BCNCNT_INCHAN \<le> b"
    and new: "\<forall>e \<in> set (take n (chan g)). ucast (channel e) \<noteq> ch"
  shows "\<exists>c. airkiss_add_channel ch b d g = Ret (g\<lparr>chan := c, selected_chan_nums := of_nat (n + 1)\<rparr>) \<and>
    length c = length (chan g) \<and> map entry (take (n + 1) c) = insert_busy (ucast ch, d) (map entry (take n (chan g))) \<and>
    (\<forall>j. n < j \<longrightarrow> j < length (chan g) \<longrightarrow> c ! j = chan g ! j)"
proof -
  define xs where "xs = take n (chan g)"
  define zs where "zs = drop (Suc n) (chan g)"
  define old where "old = chan g ! n"
  have g: "chan g = xs @ old # zs" and xs: "length xs = n"
    using sel(2) by (simp_all add: xs_def zs_def old_def id_take_nth_drop)
  define i where "i = find_less (chan g) n d"
  have i: "i \<le> n" by (simp add: i_def find_less_le)
  have i_spec: "i = length (takeWhile (\<lambda>y. \<not> snd y < d) (map entry xs))"
    using find_less_spec [of n "chan g" d] sel(2) by (simp add: i_def xs_def)
  have more: "selected_chan_nums g + 1 = of_nat (n + 1)"
    by (simp flip: sel(1))
  have front: "takeWhile (\<lambda>y. \<not> snd y < d) (map entry xs) = map entry (take i xs)"
    by (subst takeWhile_eq_take) (simp only: i_spec take_map)
  have rest: "dropWhile (\<lambda>y. \<not> snd y < d) (map entry xs) = map entry (drop i xs)"
    by (subst dropWhile_eq_drop) (simp only: i_spec drop_map)
  have put: "insert_busy (ucast ch, d) (map entry xs) = map entry (take i xs) @ (ucast ch, d) # map entry (drop i xs)"
    unfolding insert_busy_def snd_conv front rest by (rule refl)
  have small: "\<not> d < MIN_VALID_DATACNT_INCHAN" "\<not> b < MIN_VALID_BCNCNT_INCHAN" using ok by auto
  have inside: "\<not> length (chan g) \<le> i" using i sel(2) by simp
  show ?thesis
  proof (cases "i < n")
    case True
    define x where "x = xs ! i"
    have x: "chan g ! i = x" using True xs by (simp add: g x_def nth_append)
    have "x \<in> set xs" using True xs by (simp add: x_def)
    then have other: "ucast (channel x) \<noteq> ch" using new by (simp add: xs_def)
    have split: "xs = take i xs @ x # drop (Suc i) xs" using True xs by (simp add: x_def id_take_nth_drop)
    have "take (n - i) (drop i (chan g)) = drop i xs" using xs True by (simp add: g)
    moreover have "blit (chan g) (i + 1) (drop i xs) = take i xs @ x # drop i xs @ zs"
      using True xs by (simp add: g blit_def) (metis split append_Cons append_assoc append_take_drop_id
          length_take min.absorb4 nth_append_length take_Suc_conv_app_nth append_Nil)
    ultimately have moved: "blit (chan g) (i + 1) (take (n - i) (drop i (chan g))) = take i xs @ x # drop i xs @ zs" by simp
    define c where "c = take i xs @ x\<lparr>channel := ucast ch, data_cnt := d\<rparr> # drop i xs @ zs"
    have upd: "(take i xs @ x # drop i xs @ zs)[i := x\<lparr>channel := ucast ch, data_cnt := d\<rparr>] = c"
      using True xs by (simp add: c_def list_update_append)
    have nth: "(take i xs @ x # drop i xs @ zs) ! i = x" using True xs by (simp add: nth_append)
    have "airkiss_add_channel ch b d g = Ret (g\<lparr>chan := c, selected_chan_nums := of_nat (n + 1)\<rparr>)"
      unfolding airkiss_add_channel_def Let_def sel(1) i_def [symmetric] x
      using small inside True other sel(2) more by (simp add: moved [unfolded Suc_eq_plus1 [symmetric]] nth upd)
    moreover have "length c = length (chan g)" using True xs by (simp add: c_def g)
    moreover have "map entry (take (n + 1) c) = insert_busy (ucast ch, d) (map entry (take n (chan g)))"
      unfolding xs_def [symmetric] put using True xs by (simp add: c_def entry_def Suc_diff_le)
    moreover have "c ! j = chan g ! j" if "n < j" "j < length (chan g)" for j
    proof -
      have "c ! j = zs ! (j - Suc n)" using that True xs by (simp add: c_def nth_append nth_Cons' Suc_diff_Suc)
      moreover have "chan g ! j = zs ! (j - Suc n)" using that xs by (simp add: g nth_append nth_Cons')
      ultimately show ?thesis by simp
    qed
    ultimately show ?thesis by blast
  next
    case False
    with i have i_n: "i = n" by simp
    define c where "c = xs @ old\<lparr>channel := ucast ch, data_cnt := d\<rparr> # zs"
    have upd: "(chan g)[n := (chan g ! n)\<lparr>channel := ucast ch, data_cnt := d\<rparr>] = c"
      using xs by (simp add: c_def g list_update_append nth_append)
    have "airkiss_add_channel ch b d g = Ret (g\<lparr>chan := c, selected_chan_nums := of_nat (n + 1)\<rparr>)"
      unfolding airkiss_add_channel_def Let_def sel(1) i_def [symmetric] i_n
      using small inside i_n more by (simp add: upd)
    moreover have "length c = length (chan g)" by (simp add: c_def g)
    moreover have "map entry (take (n + 1) c) = insert_busy (ucast ch, d) (map entry (take n (chan g)))"
      unfolding xs_def [symmetric] put i_n using xs by (simp add: c_def entry_def)
    moreover have "c ! j = chan g ! j" if "n < j" "j < length (chan g)" for j
      using that xs by (simp add: c_def g nth_append nth_Cons')
    ultimately show ?thesis by blast
  qed
qed

text \<open>Inserting one by one is the stable sort, busiest channel first.\<close>

definition busyness :: "u16 \<times> u8 \<Rightarrow> int" where
  "busyness x = - uint (snd x)"

lemma insert_busy_split:
  "insert_busy x xs = takeWhile (\<lambda>y. busyness y \<le> busyness x) xs @ x # dropWhile (\<lambda>y. busyness y \<le> busyness x) xs"
proof -
  have "(\<not> snd y < snd x) = (busyness y \<le> busyness x)" for y
    by (simp add: busyness_def word_less_def not_less)
  then show ?thesis by (simp add: insert_busy_def)
qed

lemma insert_busy_sorts:
  assumes "sorted (map busyness xs)"
  shows "sorted (map busyness (insert_busy x xs))"
    "filter (\<lambda>y. k = busyness y) (insert_busy x xs) = filter (\<lambda>y. k = busyness y) (xs @ [x])"
proof -
  let ?P = "\<lambda>y. busyness y \<le> busyness x"
  have later: "busyness x < busyness y" if "y \<in> set (dropWhile ?P xs)" for y
  proof -
    have "dropWhile ?P xs \<noteq> []"
    proof
      assume "dropWhile ?P xs = []"
      with that show False by (simp only: list.set empty_iff)
    qed
    then obtain z zs where z: "dropWhile ?P xs = z # zs" unfolding neq_Nil_conv by blast
    then have "\<not> ?P z" by (metis dropWhile_eq_Cons_conv)
    moreover have "sorted (map busyness (z # zs))"
      using assms z by (metis append_eq_map_conv map_append sorted_append takeWhile_dropWhile_id)
    then have "busyness z \<le> busyness y" using that z by auto
    ultimately show ?thesis by simp
  qed
  have earlier: "?P y" if "y \<in> set (takeWhile ?P xs)" for y using that by (rule set_takeWhileD [THEN conjunct2])
  have parts: "sorted (map busyness (takeWhile ?P xs))" "sorted (map busyness (dropWhile ?P xs))"
    using assms by (metis map_append sorted_append takeWhile_dropWhile_id)+
  show "sorted (map busyness (insert_busy x xs))"
    unfolding insert_busy_split using parts earlier later
    by (auto simp: sorted_append intro: order.strict_implies_order dest!: earlier later)
  have "filter (\<lambda>y. k = busyness y) (dropWhile ?P xs) = []" if "busyness x = k"
  proof -
    have "k \<noteq> busyness y" if "y \<in> set (dropWhile ?P xs)" for y using later [OF that] \<open>busyness x = k\<close> by simp
    then show ?thesis unfolding filter_empty_conv by blast
  qed
  moreover have "filter (\<lambda>y. k = busyness y) xs =
      filter (\<lambda>y. k = busyness y) (takeWhile ?P xs) @ filter (\<lambda>y. k = busyness y) (dropWhile ?P xs)"
    by (metis filter_append takeWhile_dropWhile_id)
  ultimately show "filter (\<lambda>y. k = busyness y) (insert_busy x xs) = filter (\<lambda>y. k = busyness y) (xs @ [x])"
    unfolding insert_busy_split by auto
qed

lemma fold_insert_busy: "fold insert_busy xs [] = sort_key busyness xs"
proof -
  have "sorted (map busyness (fold insert_busy xs [])) \<and>
      (\<forall>k. filter (\<lambda>y. k = busyness y) (fold insert_busy xs []) = filter (\<lambda>y. k = busyness y) xs)"
  proof (induction xs rule: rev_induct)
    case (snoc x xs)
    then show ?case using insert_busy_sorts [where xs = "fold insert_busy xs []" and x = x] by simp
  qed simp
  then have sorted: "sorted (map busyness (fold insert_busy xs []))"
    and stable: "\<And>k. filter (\<lambda>y. k = busyness y) (fold insert_busy xs []) = filter (\<lambda>y. k = busyness y) xs"
    by blast+
  have "mset (fold insert_busy xs ys) = mset xs + mset ys" for ys
  proof (induction xs arbitrary: ys)
    case (Cons x xs)
    have "mset (insert_busy x ys) = add_mset x (mset ys)"
    proof -
      have "mset (insert_busy x ys) = add_mset x (mset (takeWhile (\<lambda>y. \<not> snd y < snd x) ys @ dropWhile (\<lambda>y. \<not> snd y < snd x) ys))"
        by (simp only: insert_busy_def mset_append mset.simps union_mset_add_mset_right)
      then show ?thesis by (simp only: takeWhile_dropWhile_id)
    qed
    with Cons show ?case by simp
  qed simp
  then have all: "mset (fold insert_busy xs []) = mset xs" by simp
  show ?thesis
    by (rule properties_for_sort_key [OF all stable sorted, symmetric])
qed

section \<open>A scan of all channels\<close>

text \<open>A dwell on a channel: the frames that come in, then the end of its time.\<close>

definition dwell :: "rx_frame list \<Rightarrow> airkiss_scan \<Rightarrow> airkiss_scan c_run" where
  "dwell fs s = c_then (c_steps (\<lambda>f s. c_then (airkiss_main_turn f s) (\<lambda>(over, s1). Ret s1)) fs s) airkiss_switch_channel_callback"

definition beacons :: "rx_frame list \<Rightarrow> nat" where
  "beacons fs = length (filter (\<lambda>f. rx_size f \<noteq> 0 \<and> is_beacon f) fs)"

definition data_frames :: "rx_frame list \<Rightarrow> nat" where
  "data_frames fs = length (filter (\<lambda>f. rx_size f \<noteq> 0 \<and> is_data f) fs)"

text \<open>The channels that have enough beacons and data frames, as the 8-bit counters see it.\<close>

definition heard :: "nat \<times> rx_frame list \<Rightarrow> bool" where
  "heard p \<longleftrightarrow> MIN_VALID_DATACNT_INCHAN \<le> of_nat (data_frames (snd p)) \<and>
     MIN_VALID_BCNCNT_INCHAN \<le> of_nat (beacons (snd p))"

definition channels_heard :: "rx_frame list list \<Rightarrow> (u16 \<times> u8) list" where
  "channels_heard fss =
     map (\<lambda>p. (of_nat (fst p + 1), of_nat (data_frames (snd p)))) (filter heard (zip [0..<length fss] fss))"

lemma channels_heard_snoc:
  "channels_heard (fss @ [fs]) = channels_heard fss @
     (if heard (length fss, fs) then [(of_nat (length fss + 1), of_nat (data_frames fs))] else [])"
  by (simp add: channels_heard_def)

text \<open>The state while channel \<open>k\<close> is scanned, after \<open>b\<close> beacons and \<open>d\<close> data frames on it and \<open>m\<close> beacons in all.\<close>

definition scanning :: "nat \<Rightarrow> nat \<Rightarrow> nat \<Rightarrow> nat \<Rightarrow> (u16 \<times> u8) list \<Rightarrow> airkiss_scan \<Rightarrow> bool" where
  "scanning k b d m sel s \<longleftrightarrow> (let g = g_chans s in
     mode g = AIRKISS_SCAN_ALL_CHAN \<and> unat (cur_chan_idx g) = k \<and> all_chan_nums g = 13 \<and> length (chan g) = 14 \<and>
     unat (selected_chan_nums g) = length sel \<and> length sel \<le> k \<and> map entry (take (length sel) (chan g)) = sel \<and>
     chan g ! k = \<lparr>bcn_cnt = of_nat b, data_cnt = of_nat d, channel = of_nat (k + 1)\<rparr> \<and>
     (\<forall>j. k < j \<longrightarrow> j < 13 \<longrightarrow> chan g ! j = chan_zero\<lparr>channel := of_nat (j + 1)\<rparr>)) \<and>
     length (mac (g_macs s)) = MAX_MAC \<and> unat (mac_cnt (g_macs s)) \<le> m"

lemma note_beacon_room:
  assumes "length (mac g) = MAX_MAC" "unat (mac_cnt g) \<le> m" "m < MAX_MAC"
  shows "\<exists>g1. note_beacon q ch g = Ret g1 \<and> length (mac g1) = MAX_MAC \<and> unat (mac_cnt g1) \<le> m + 1"
proof -
  have le: "find_mac es n q \<le> n" for es n by (induction es n q rule: find_mac.induct) auto
  define i where "i = find_mac (mac g) (unat (mac_cnt g)) q"
  have "i \<le> unat (mac_cnt g)" unfolding i_def by (rule le)
  with assms have i: "\<not> length (mac g) \<le> i" by simp
  have "unat (mac_cnt g + 1) \<le> unat (mac_cnt g) + 1"
    by (simp add: unat_word_ariths)
  then have "unat (mac_cnt g + 1) \<le> m + 1" using assms(2) by linarith
  with assms i show ?thesis
    unfolding note_beacon_def Let_def i_def [symmetric] by (auto simp: if_distrib)
qed

lemma beacon_not_data: "is_beacon f \<Longrightarrow> \<not> is_data f"
proof
  assume b: "is_beacon f" and d: "is_data f"
  let ?c = "fctl (rx_hdr f)"
  have "(?c AND MAC_FCTRL_TYPESUBTYPE_MASK) AND MAC_FCTRL_TYPE_MASK = ?c AND MAC_FCTRL_TYPE_MASK"
    by (simp add: MAC_FCTRL_TYPESUBTYPE_MASK_def MAC_FCTRL_TYPE_MASK_def and.assoc)
  with b d show False
    by (auto simp: is_beacon_def is_data_def MAC_FCTRL_BEACON_def MAC_FCTRL_PROBERSP_def MAC_FCTRL_TYPE_MASK_def MAC_FCTRL_DATA_T_def)
qed

lemma count_one:
  assumes "scanning k b d m sel s" "k < 13" "m + beacons [f] \<le> MAX_MAC"
  shows "\<exists>s1. airkiss_main_turn f s = Ret (False, s1) \<and>
    scanning k (b + beacons [f]) (d + data_frames [f]) (m + beacons [f]) sel s1"
proof -
  let ?g = "g_chans s"
  have s: "mode ?g = AIRKISS_SCAN_ALL_CHAN" "unat (cur_chan_idx ?g) = k" "length (chan ?g) = 14"
    "chan ?g ! k = \<lparr>bcn_cnt = of_nat b, data_cnt = of_nat d, channel = of_nat (k + 1)\<rparr>"
    "length (mac (g_macs s)) = MAX_MAC" "unat (mac_cnt (g_macs s)) \<le> m" "length sel \<le> k"
    using assms(1) by (simp_all add: scanning_def Let_def)
  have inside: "\<not> length (chan ?g) \<le> k" using s(3) assms(2) by simp
  have scan_upd: "scanning k b' d' m' sel (s\<lparr>g_chans := ?g\<lparr>chan := (chan ?g)[k := \<lparr>bcn_cnt = of_nat b', data_cnt = of_nat d',
      channel = of_nat (k + 1)\<rparr>]\<rparr>, g_macs := g1\<rparr>)"
    if "length (mac g1) = MAX_MAC" "unat (mac_cnt g1) \<le> m'" for b' d' m' g1
    using assms(1,2) s that by (simp add: scanning_def Let_def)
  show ?thesis
  proof (cases "rx_size f \<noteq> 0 \<and> is_beacon f")
    case True
    then have n: "beacons [f] = 1" "data_frames [f] = 0"
      using beacon_not_data by (simp_all add: beacons_def data_frames_def)
    define ch :: u16 where "ch = (case rx_ds_channel f of None \<Rightarrow> 0 | Some c \<Rightarrow> ucast c)"
    obtain g1 where g1: "note_beacon (calcrc_bytes (addr2 (rx_hdr f))) ch (g_macs s) = Ret g1"
        "length (mac g1) = MAX_MAC" "unat (mac_cnt g1) \<le> m + 1"
      using note_beacon_room [OF s(5,6)] assms(3) n by fastforce
    have "airkiss_count_usefull_packet f s = Ret (s\<lparr>g_chans := ?g\<lparr>chan := (chan ?g)[k := \<lparr>bcn_cnt = of_nat (b + 1),
        data_cnt = of_nat d, channel = of_nat (k + 1)\<rparr>]\<rparr>, g_macs := g1\<rparr>)"
      unfolding airkiss_count_usefull_packet_def Let_def s(2) ch_def [symmetric] g1(1)
      using True inside s(4) by (simp add: add.commute)
    with scan_upd [OF g1(2,3), of "b + 1" d] n s(1) show ?thesis
      by (simp add: airkiss_main_turn_def)
  next
    case False
    then have nb: "beacons [f] = 0" by (simp add: beacons_def)
    show ?thesis
    proof (cases "rx_size f \<noteq> 0 \<and> is_data f")
      case True
      then have n: "data_frames [f] = 1" by (simp add: data_frames_def)
      have "airkiss_count_usefull_packet f s = Ret (s\<lparr>g_chans := ?g\<lparr>chan := (chan ?g)[k := \<lparr>bcn_cnt = of_nat b,
          data_cnt = of_nat (d + 1), channel = of_nat (k + 1)\<rparr>]\<rparr>\<rparr>)"
        unfolding airkiss_count_usefull_packet_def Let_def s(2)
        using True False inside s(4) by (simp add: add.commute)
      with scan_upd [OF s(5,6), of b "d + 1"] n nb s(1) show ?thesis
        by (simp add: airkiss_main_turn_def)
    next
      case other: False
      then have n: "data_frames [f] = 0" by (simp add: data_frames_def)
      have "airkiss_count_usefull_packet f s = Ret s"
        unfolding airkiss_count_usefull_packet_def Let_def s(2)
        using other False inside by auto
      with n nb s(1) assms(1) show ?thesis by (simp add: airkiss_main_turn_def)
    qed
  qed
qed

lemma count_all:
  assumes "scanning k b d m sel s" "k < 13" "m + beacons fs \<le> MAX_MAC"
  shows "\<exists>s1. c_steps (\<lambda>f s. c_then (airkiss_main_turn f s) (\<lambda>(over, s1). Ret s1)) fs s = Ret s1 \<and>
    scanning k (b + beacons fs) (d + data_frames fs) (m + beacons fs) sel s1"
  using assms
proof (induction fs arbitrary: b d m s)
  case Nil
  then show ?case by (simp add: beacons_def data_frames_def)
next
  case (Cons f fs)
  have sum: "beacons (f # fs) = beacons [f] + beacons fs" "data_frames (f # fs) = data_frames [f] + data_frames fs"
    by (simp_all add: beacons_def data_frames_def)
  with Cons.prems obtain s1 where one: "airkiss_main_turn f s = Ret (False, s1)"
      "scanning k (b + beacons [f]) (d + data_frames [f]) (m + beacons [f]) sel s1"
    using count_one [of k b d m sel s f] by auto
  from Cons.IH [OF one(2) Cons.prems(2)] Cons.prems(3) one(1) show ?case
    unfolding sum by (simp add: add.assoc)
qed

definition then_heard :: "nat \<Rightarrow> nat \<Rightarrow> nat \<Rightarrow> (u16 \<times> u8) list \<Rightarrow> (u16 \<times> u8) list" where
  "then_heard k b d sel =
     (if MIN_VALID_DATACNT_INCHAN \<le> of_nat d \<and> MIN_VALID_BCNCNT_INCHAN \<le> of_nat b
      then insert_busy (of_nat (k + 1), of_nat d) sel else sel)"

lemma set_insert_busy: "set (insert_busy x sel) = insert x (set sel)"
  unfolding insert_busy_def by (metis Un_insert_right list.simps(15) set_append takeWhile_dropWhile_id)

lemma length_insert_busy: "length (insert_busy x sel) = Suc (length sel)"
proof -
  have "length (insert_busy x sel) = Suc (length (takeWhile (\<lambda>y. \<not> snd y < snd x) sel @ dropWhile (\<lambda>y. \<not> snd y < snd x) sel))"
    by (simp only: insert_busy_def length_append list.size add_Suc_right add_0_right)
  then show ?thesis by (simp only: takeWhile_dropWhile_id)
qed

lemma channel_added:
  assumes "scanning k b d m sel s" "k < 13" "\<forall>x \<in> set sel. unat (fst x) \<le> k"
  shows "\<exists>c n. airkiss_add_channel (ucast (channel (chan (g_chans s) ! k))) (bcn_cnt (chan (g_chans s) ! k))
        (data_cnt (chan (g_chans s) ! k)) (g_chans s) = Ret (g_chans s\<lparr>chan := c, selected_chan_nums := n\<rparr>) \<and>
    length c = 14 \<and> unat n = length (then_heard k b d sel) \<and> length (then_heard k b d sel) \<le> k + 1 \<and>
    map entry (take (length (then_heard k b d sel)) c) = then_heard k b d sel \<and>
    (\<forall>j. k < j \<longrightarrow> j < 14 \<longrightarrow> c ! j = chan (g_chans s) ! j)"
proof -
  let ?g = "g_chans s" and ?ch = "ucast (of_nat (k + 1) :: u16) :: u8"
  have s: "unat (selected_chan_nums ?g) = length sel" "length (chan ?g) = 14" "length sel \<le> k"
    "map entry (take (length sel) (chan ?g)) = sel"
    "chan ?g ! k = \<lparr>bcn_cnt = of_nat b, data_cnt = of_nat d, channel = of_nat (k + 1)\<rparr>"
    using assms(1) by (simp_all add: scanning_def Let_def)
  have "k \<in> {0, 1, 2, 3, 4, 5, 6, 7, 8, 9, 10, 11, 12}" using assms(2) by (simp add: set_eq_iff) presburger
  then have ch: "ucast ?ch = (of_nat (k + 1) :: u16)" "unat ?ch = k + 1" by (elim insertE emptyE; simp)+
  show ?thesis
  proof (cases "MIN_VALID_DATACNT_INCHAN \<le> of_nat d \<and> MIN_VALID_BCNCNT_INCHAN \<le> of_nat b")
    case True
    have new: "ucast (channel e) \<noteq> ?ch" if "e \<in> set (take (length sel) (chan ?g))" for e
    proof -
      from that have "entry e \<in> set sel" using s(4) by (metis imageI list.set_map)
      then have low: "unat (channel e) \<le> k" using assms(3) by (auto simp: entry_def)
      have same: "unat (ucast (channel e) :: u8) = unat (channel e)"
        using low assms(2) by (simp add: unsigned_ucast_eq take_bit_nat_eq_self)
      show ?thesis
      proof
        assume "ucast (channel e) = ?ch"
        with same ch(2) have "unat (channel e) = k + 1" by simp
        with low show False by simp
      qed
    qed
    have lt: "length sel < length (chan ?g)" using s(2,3) assms(2) by simp
    obtain c where c: "airkiss_add_channel ?ch (of_nat b) (of_nat d) ?g =
          Ret (?g\<lparr>chan := c, selected_chan_nums := of_nat (length sel + 1)\<rparr>)"
        "length c = length (chan ?g)" "map entry (take (length sel + 1) c) = insert_busy (ucast ?ch, of_nat d) (map entry (take (length sel) (chan ?g)))"
        "\<forall>j. length sel < j \<longrightarrow> j < length (chan ?g) \<longrightarrow> c ! j = chan ?g ! j"
      using add_channel_inserts [OF s(1) lt s(2) conjunct1 [OF True] conjunct2 [OF True], of ?ch] new by blast
    have upd: "then_heard k b d sel = insert_busy (of_nat (k + 1), of_nat d) sel" using True by (simp add: then_heard_def)
    have n: "unat (of_nat (length sel + 1) :: u8) = length sel + 1"
      using s(3) assms(2) by (simp only: unat_of_nat) (simp add: take_bit_nat_eq_self)
    have len: "length (then_heard k b d sel) = length sel + 1" by (simp add: upd length_insert_busy)
    show ?thesis
      using c n s ch(1) unfolding len upd s(5) by (intro exI [of _ c] exI [of _ "of_nat (length sel + 1)"])
        (simp add: length_insert_busy)
  next
    case False
    then have same: "then_heard k b d sel = sel" unfolding then_heard_def by (rule if_not_P)
    have "airkiss_add_channel ?ch (of_nat b) (of_nat d) ?g = Ret ?g"
      using False by (auto simp: airkiss_add_channel_def)
    then show ?thesis
      using s unfolding same s(5) by (intro exI [of _ "chan ?g"] exI [of _ "selected_chan_nums ?g"]) simp
  qed
qed

lemma next_channel:
  assumes "scanning k b d m sel s" "k < 12" "\<forall>x \<in> set sel. unat (fst x) \<le> k"
  shows "\<exists>s1. airkiss_switch_channel_callback s = Ret s1 \<and> scanning (k + 1) 0 0 m (then_heard k b d sel) s1"
proof -
  let ?g = "g_chans s"
  have s: "mode ?g = AIRKISS_SCAN_ALL_CHAN" "unat (cur_chan_idx ?g) = k" "length (chan ?g) = 14" "all_chan_nums ?g = 13"
    "\<forall>j. k < j \<longrightarrow> j < 13 \<longrightarrow> chan ?g ! j = chan_zero\<lparr>channel := of_nat (j + 1)\<rparr>"
    "length (mac (g_macs s)) = MAX_MAC" "unat (mac_cnt (g_macs s)) \<le> m"
    using assms(1) by (simp_all add: scanning_def Let_def)
  obtain c n where c: "airkiss_add_channel (ucast (channel (chan ?g ! k))) (bcn_cnt (chan ?g ! k)) (data_cnt (chan ?g ! k)) ?g =
        Ret (?g\<lparr>chan := c, selected_chan_nums := n\<rparr>)"
      "length c = 14" "unat n = length (then_heard k b d sel)" "length (then_heard k b d sel) \<le> k + 1"
      "map entry (take (length (then_heard k b d sel)) c) = then_heard k b d sel"
      "\<forall>j. k < j \<longrightarrow> j < 14 \<longrightarrow> c ! j = chan ?g ! j"
    using channel_added [OF assms(1) _ assms(3)] assms(2) by auto
  have idx: "unat (cur_chan_idx ?g + 1) = k + 1" using s(2) assms(2) by (simp add: unat_word_ariths)
  then have more: "\<not> (13 :: u8) \<le> cur_chan_idx ?g + 1" using assms(2) by (simp add: word_le_nat_alt)
  define g1 where "g1 = ?g\<lparr>chan := c, selected_chan_nums := n, cur_chan_idx := cur_chan_idx ?g + 1\<rparr>"
  have "airkiss_switch_channel_callback s = Ret (s\<lparr>g_chans := g1, ak_contex := airkiss_change_channel (ak_contex s),
      radio := radio s @ [Set_Channel (ucast (ucast (channel (c ! Suc k)) :: u8)), Chan_Timer_Period AIRKISS_SWITCH_TIMER]\<rparr>)"
    unfolding airkiss_switch_channel_callback_def Let_def s(1,2)
    using s(3) assms(2) more c(1,2) idx s(4) by (simp add: tune_def g1_def)
  moreover have "scanning (k + 1) 0 0 m (then_heard k b d sel) (s\<lparr>g_chans := g1, ak_contex := a, radio := r\<rparr>)" for a r
    using s c idx assms(2) by (simp add: scanning_def Let_def g1_def chan_zero_def)
  ultimately show ?thesis by blast
qed

text \<open>The end of the last channel's time: the decoder starts on the busiest channel, or the scan starts again.\<close>

definition busiest :: "(u16 \<times> u8) list \<Rightarrow> radio_event list" where
  "busiest sel =
     (case sel of
        [] \<Rightarrow> [Set_Channel 1, Chan_Timer_Period AIRKISS_SWITCH_TIMER]
      | x # xs \<Rightarrow> [Set_Channel (fst x), Chan_Timer_Period (airkiss_calc_time_for_selected_channel (snd x))])"

definition selection :: "(u16 \<times> u8) list \<Rightarrow> airkiss_scan \<Rightarrow> bool" where
  "selection sel s \<longleftrightarrow> (let g = g_chans s in
     if sel = [] then g = g_chans (airkiss_set_scan_all_channel s)
     else mode g = AIRKISS_SCAN_SELECTED_CHAN \<and> cur_chan_idx g = 0 \<and> unat (selected_chan_nums g) = length sel \<and>
       map entry (take (length sel) (chan g)) = sel)"

lemma last_channel:
  assumes "scanning 12 b d m sel s" "\<forall>x \<in> set sel. unat (fst x) \<le> 12"
  shows "\<exists>s1 r. airkiss_switch_channel_callback s = Ret s1 \<and> selection (then_heard 12 b d sel) s1 \<and>
    radio s1 = r @ busiest (then_heard 12 b d sel)"
proof -
  let ?g = "g_chans s" and ?new = "then_heard 12 b d sel"
  have s: "mode ?g = AIRKISS_SCAN_ALL_CHAN" "unat (cur_chan_idx ?g) = 12" "length (chan ?g) = 14" "all_chan_nums ?g = 13"
    using assms(1) by (simp_all add: scanning_def Let_def)
  obtain c n where c: "airkiss_add_channel (ucast (channel (chan ?g ! 12))) (bcn_cnt (chan ?g ! 12)) (data_cnt (chan ?g ! 12)) ?g =
        Ret (?g\<lparr>chan := c, selected_chan_nums := n\<rparr>)"
      "length c = 14" "unat n = length ?new" "map entry (take (length ?new) c) = ?new"
    using channel_added [OF assms(1) _ assms(2)] by auto
  have "cur_chan_idx ?g = of_nat (unat (cur_chan_idx ?g))" by simp
  then have idx: "cur_chan_idx ?g + 1 = 13" unfolding s(2) by simp
  have low: "\<forall>x \<in> set ?new. unat (fst x) \<le> 13"
  proof -
    have "\<forall>x \<in> set sel. unat (fst x) \<le> 13" using assms(2) by fastforce
    then show ?thesis by (simp add: then_heard_def set_insert_busy)
  qed
  have inside: "\<not> length (chan ?g) \<le> 12" using s(3) by simp
  note step = airkiss_switch_channel_callback_def [of s, unfolded Let_def s(1,2)]
  define g1 where "g1 = ?g\<lparr>chan := c, selected_chan_nums := n, cur_chan_idx := 0\<rparr>"
  show ?thesis
  proof (cases ?new)
    case Nil
    then have n: "n = 0" using c(3) by (simp add: unat_eq_0)
    have "airkiss_switch_channel_callback s =
        tune AIRKISS_SWITCH_TIMER (airkiss_set_scan_all_channel (s\<lparr>g_chans := g1\<rparr>))"
      unfolding step using inside c(1) n idx s(4) by (simp add: g1_def)
    then show ?thesis
      unfolding Nil by (auto simp: tune_def airkiss_set_scan_all_channel_def selection_def busiest_def MAX_CHANNELS_def upt_rec)
  next
    case (Cons x xs)
    then have n: "n \<noteq> 0" using c(3) by (auto simp: unat_eq_0)
    obtain e es where e: "c = e # es" using c(2) by (cases c) auto
    have x: "entry e = x" using c(4) Cons unfolding e by simp
    have "unat (channel e) \<le> 13" using low Cons x by (auto simp: entry_def)
    then have narrow: "ucast (ucast (channel e) :: u8) = channel e"
      by (intro word_unat_eq_iff [THEN iffD2]) (simp add: unsigned_ucast_eq unsigned_take_bit_eq take_bit_nat_eq_self)
    have "airkiss_switch_channel_callback s =
        tune (airkiss_calc_time_for_selected_channel (data_cnt e)) (s\<lparr>g_chans := g1\<lparr>mode := AIRKISS_SCAN_SELECTED_CHAN\<rparr>\<rparr>)"
      unfolding step using inside c(1) n idx s(4) by (simp add: g1_def e)
    also have "\<dots> = Ret (s\<lparr>g_chans := g1\<lparr>mode := AIRKISS_SCAN_SELECTED_CHAN\<rparr>, ak_contex := airkiss_change_channel (ak_contex s),
        radio := radio s @ busiest ?new\<rparr>)"
      using x narrow by (auto simp: tune_def g1_def e Cons busiest_def entry_def)
    finally show ?thesis
      using c(3,4) Cons by (auto simp: selection_def Let_def g1_def)
  qed
qed

text \<open>The first channels, one after the other.\<close>

lemma scan_starts: "scanning 0 0 0 0 [] (airkiss_set_scan_all_channel s)"
proof -
  have "(map (\<lambda>i. chan_zero\<lparr>channel := of_nat (i + 1)\<rparr>) [0..<13] @ [chan_zero]) ! j = chan_zero\<lparr>channel := of_nat (j + 1)\<rparr>"
    if "j < 13" for j
    using that by (simp add: nth_append del: upt_Suc)
  then show ?thesis
    by (simp add: scanning_def airkiss_set_scan_all_channel_def Let_def MAX_CHANNELS_def chan_zero_def del: upt_Suc)
qed

lemma heard_insert:
  "then_heard (length fss) (beacons fs) (data_frames fs) (fold insert_busy (channels_heard fss) []) =
   fold insert_busy (channels_heard (fss @ [fs])) []"
  by (simp add: channels_heard_snoc then_heard_def heard_def)

lemma heard_channels: "\<forall>x \<in> set (fold insert_busy (channels_heard fss) []). length fss < 14 \<longrightarrow> unat (fst x) \<le> length fss"
proof -
  have "set (fold insert_busy xs ys) = set xs \<union> set ys" for xs ys
    by (induction xs arbitrary: ys) (auto simp: set_insert_busy)
  moreover have "unat (of_nat (i + 1) :: u16) \<le> length fss" if "i < length fss" "length fss < 14" for i
    using that by (simp only: unat_of_nat) (simp add: take_bit_nat_eq_self)
  ultimately show ?thesis
    by (auto simp: channels_heard_def dest!: set_zip_leftD)
qed

lemma scan_prefix:
  assumes "length fss \<le> 12" "beacons (concat fss) \<le> MAX_MAC"
  shows "\<exists>s1. c_steps dwell fss (airkiss_set_scan_all_channel s) = Ret s1 \<and>
    scanning (length fss) 0 0 (beacons (concat fss)) (fold insert_busy (channels_heard fss) []) s1"
  using assms
proof (induction fss rule: rev_induct)
  case Nil
  then show ?case using scan_starts by (simp add: beacons_def channels_heard_def)
next
  case (snoc fs fss)
  have sum: "beacons (concat (fss @ [fs])) = beacons (concat fss) + beacons fs" by (simp add: beacons_def)
  have steps: "c_steps dwell (xs @ [fs]) t = c_then (c_steps dwell xs t) (dwell fs)" for xs t
    by (induction xs arbitrary: t) (auto simp: c_then_def split: c_run.splits)
  obtain s1 where s1: "c_steps dwell fss (airkiss_set_scan_all_channel s) = Ret s1"
      "scanning (length fss) 0 0 (beacons (concat fss)) (fold insert_busy (channels_heard fss) []) s1"
    using snoc sum by auto
  obtain s2 where s2: "c_steps (\<lambda>f s. c_then (airkiss_main_turn f s) (\<lambda>(over, s1). Ret s1)) fs s1 = Ret s2"
      "scanning (length fss) (beacons fs) (data_frames fs) (beacons (concat (fss @ [fs])))
        (fold insert_busy (channels_heard fss) []) s2"
    using count_all [OF s1(2), of fs] snoc.prems sum by auto
  have "\<forall>x \<in> set (fold insert_busy (channels_heard fss) []). unat (fst x) \<le> length fss"
    using heard_channels [of fss] snoc.prems(1) by auto
  with next_channel [OF s2(2)] snoc.prems(1) obtain s3 where "airkiss_switch_channel_callback s2 = Ret s3"
      "scanning (length fss + 1) 0 0 (beacons (concat (fss @ [fs]))) (fold insert_busy (channels_heard (fss @ [fs])) []) s3"
    unfolding heard_insert by auto
  then show ?case unfolding steps s1(1) by (simp add: dwell_def s2(1))
qed

text \<open>C25: A whole scan: whatever frames come in on the thirteen channels, as long as the beacons fit the table of sources, the scan
  ends with exactly the channels that have at least four data frames and a beacon (as the 8-bit counters see it), in the
  stable order of falling data count, and the radio on the busiest for its time; with none, the scan starts again.\<close>

lemma airkiss_scan_sorts_channels:
  assumes "length fss = 13" "beacons (concat fss) \<le> MAX_MAC"
  shows "\<exists>s1 r. c_steps dwell fss (airkiss_set_scan_all_channel s) = Ret s1 \<and>
    selection (sort_key busyness (channels_heard fss)) s1 \<and> radio s1 = r @ busiest (sort_key busyness (channels_heard fss))"
proof -
  define gs where "gs = butlast fss"
  define fs where "fs = last fss"
  have fss: "fss = gs @ [fs]" and gs: "length gs = 12"
    using assms(1) by (cases fss rule: rev_cases; simp add: gs_def fs_def)+
  have sum: "beacons (concat fss) = beacons (concat gs) + beacons fs" by (simp add: beacons_def fss)
  have steps: "c_steps dwell (xs @ [fs]) t = c_then (c_steps dwell xs t) (dwell fs)" for xs t
    by (induction xs arbitrary: t) (auto simp: c_then_def split: c_run.splits)
  obtain s1 where s1: "c_steps dwell gs (airkiss_set_scan_all_channel s) = Ret s1"
      "scanning 12 0 0 (beacons (concat gs)) (fold insert_busy (channels_heard gs) []) s1"
    using scan_prefix [of gs s] gs assms(2) sum by auto
  obtain s2 where s2: "c_steps (\<lambda>f s. c_then (airkiss_main_turn f s) (\<lambda>(over, s1). Ret s1)) fs s1 = Ret s2"
      "scanning 12 (beacons fs) (data_frames fs) (beacons (concat fss)) (fold insert_busy (channels_heard gs) []) s2"
    using count_all [OF s1(2), of fs] assms(2) sum by auto
  have "\<forall>x \<in> set (fold insert_busy (channels_heard gs) []). unat (fst x) \<le> 12"
    using heard_channels [of gs] gs by auto
  from last_channel [OF s2(2) this] obtain s3 r where "airkiss_switch_channel_callback s2 = Ret s3"
      "selection (fold insert_busy (channels_heard fss) []) s3" "radio s3 = r @ busiest (fold insert_busy (channels_heard fss) [])"
    using heard_insert [of gs fs] gs fss by auto
  then show ?thesis
    unfolding fold_insert_busy fss steps s1(1) by (auto simp: dwell_def s2(1))
qed

text \<open>Traffic on channels 6 and 11 only.\<close>

definition fresh_scan :: airkiss_scan where
  "fresh_scan = \<lparr>g_chans = \<lparr>chan = replicate MAX_CHANNELS chan_zero, cur_chan_idx = 0, all_chan_nums = 0, selected_chan_nums = 0,
      mode = AIRKISS_SCAN_ALL_CHAN\<rparr>,
    g_macs = \<lparr>mac = replicate MAX_MAC mac_zero, mac_cnt = 0\<rparr>, ak_contex = airkiss_start, radio = []\<rparr>"

definition beacon_of :: "nat \<Rightarrow> rx_frame" where
  "beacon_of i = \<lparr>rx_hdr = \<lparr>fctl = 0x0080, durid = 0, addr1 = replicate 6 255, addr2 = [2, 0, 0, 0, 0, of_nat i],
     addr3 = [2, 0, 0, 0, 0, of_nat i], hdr_seq = 0\<rparr>, rx_size = 60, rx_ds_channel = Some 6\<rparr>"

definition data_of :: "nat \<Rightarrow> rx_frame" where
  "data_of i = \<lparr>rx_hdr = \<lparr>fctl = 0x0208, durid = 0, addr1 = replicate 6 255, addr2 = [2, 0, 0, 0, 0, of_nat i],
     addr3 = [2, 0, 0, 0, 0, of_nat i], hdr_seq = 0\<rparr>, rx_size = 60, rx_ds_channel = None\<rparr>"

definition two_channels :: "rx_frame list list" where
  "two_channels = [[], [], [], [], [], beacon_of 1 # replicate 5 (data_of 1), [], [], [], [],
     beacon_of 2 # replicate 9 (data_of 2), [], []]"

lemma frame_kinds: "is_beacon (beacon_of i)" "\<not> is_beacon (data_of i)" "is_data (data_of i)" "\<not> is_data (beacon_of i)"
  "rx_size (beacon_of i) = 60" "rx_size (data_of i) = 60" "addr2 (rx_hdr (beacon_of i)) = [2, 0, 0, 0, 0, of_nat i]"
  by (simp_all add: is_beacon_def is_data_def beacon_of_def data_of_def MAC_FCTRL_TYPESUBTYPE_MASK_def MAC_FCTRL_BEACON_def
      MAC_FCTRL_PROBERSP_def MAC_FCTRL_TYPE_MASK_def MAC_FCTRL_DATA_T_def)

lemma two_channels_heard: "length two_channels = 13" "beacons (concat two_channels) = 2"
    "channels_heard two_channels = [(6, 5), (11, 9)]"
  by (simp_all add: two_channels_def channels_heard_def heard_def beacons_def data_frames_def frame_kinds
      MIN_VALID_DATACNT_INCHAN_def MIN_VALID_BCNCNT_INCHAN_def)

lemma airkiss_scan_sorts_channels_witness:
  "\<exists>s1 r. c_steps dwell two_channels (airkiss_set_scan_all_channel fresh_scan) = Ret s1 \<and> selection [(11, 9), (6, 5)] s1 \<and>
    radio s1 = r @ [Set_Channel 11, Chan_Timer_Period 2000]"
proof -
  have "sort_key busyness [(6, 5), (11, 9)] = [(11, 9), (6, 5)]" by (simp add: busyness_def)
  moreover have "busiest [(11, 9), (6, 5)] = [Set_Channel 11, Chan_Timer_Period 2000]"
    by (simp add: busiest_def airkiss_calc_time_for_selected_channel_def MIN_VALID_DATACNT_INCHAN_def MIN_SEL_CHAN_TIMER_def
        MAX_SEL_CHAN_TIMER_def)
  ultimately show ?thesis
    using airkiss_scan_sorts_channels [of two_channels fresh_scan] by (simp add: two_channels_heard MAX_MAC_def)
qed

section \<open>The table of beacons\<close>

lemma find_mac_new: "q \<notin> mac_crc ` set (take n es) \<Longrightarrow> n \<le> length es \<Longrightarrow> find_mac es n q = n"
  by (induction es n q rule: find_mac.induct) auto

definition beacon_crc :: "rx_frame \<Rightarrow> u8" where
  "beacon_crc f = calcrc_bytes (addr2 (rx_hdr f))"

lemma new_beacon_noted:
  assumes "rx_size f \<noteq> 0" "is_beacon f" "mode (g_chans s) = AIRKISS_SCAN_ALL_CHAN" "cur_chan_idx (g_chans s) = 0"
    "length (chan (g_chans s)) = 14" "length (mac (g_macs s)) = 50" "unat (mac_cnt (g_macs s)) = n" "n \<le> 50"
    "mac_crc ` set (take n (mac (g_macs s))) = seen" "beacon_crc f \<notin> seen"
  shows "if n = 50 then airkiss_main_turn f s = Fault
    else \<exists>s1. airkiss_main_turn f s = Ret (False, s1) \<and> mode (g_chans s1) = AIRKISS_SCAN_ALL_CHAN \<and>
      cur_chan_idx (g_chans s1) = 0 \<and> length (chan (g_chans s1)) = 14 \<and> length (mac (g_macs s1)) = 50 \<and>
      unat (mac_cnt (g_macs s1)) = n + 1 \<and> mac_crc ` set (take (n + 1) (mac (g_macs s1))) = insert (beacon_crc f) seen"
proof -
  define ch :: u16 where "ch = (case rx_ds_channel f of None \<Rightarrow> 0 | Some c \<Rightarrow> ucast c)"
  have new: "find_mac (mac (g_macs s)) n (beacon_crc f) = n"
    using assms(6,8,9,10) by (intro find_mac_new) auto
  note count = airkiss_count_usefull_packet_def [of f s, unfolded Let_def beacon_crc_def [symmetric] ch_def [symmetric]]
  show ?thesis
  proof (cases "n = 50")
    case True
    then have "note_beacon (beacon_crc f) ch (g_macs s) = Fault"
      using new assms(6,7) by (simp add: note_beacon_def Let_def)
    then show ?thesis using True assms(1,2,4,5) by (simp add: airkiss_main_turn_def count)
  next
    case False
    define e where "e = (mac (g_macs s) ! n)\<lparr>mac_crc := beacon_crc f,
        mac_channel := (if ch \<noteq> 0 then ch else mac_channel (mac (g_macs s) ! n))\<rparr>"
    define g1 where "g1 = g_macs s\<lparr>mac := (mac (g_macs s))[n := e], mac_cnt := mac_cnt (g_macs s) + 1\<rparr>"
    have "note_beacon (beacon_crc f) ch (g_macs s) = Ret g1"
      using new False assms(6,7,8) by (simp add: note_beacon_def Let_def g1_def e_def)
    moreover have "unat (mac_cnt (g_macs s) + 1) = n + 1" using assms(7,8) by (simp add: unat_word_ariths)
    moreover have "take (Suc n) ((mac (g_macs s))[n := e]) = take n (mac (g_macs s)) @ [e]"
      using False assms(6,8) by (simp add: take_Suc_conv_app_nth)
    moreover have "mac_crc e = beacon_crc f" by (simp add: e_def)
    ultimately show ?thesis
      using False assms by (simp add: airkiss_main_turn_def count g1_def)
  qed
qed

text \<open>Fifty-one sources overrun the table of beacons: when the beacons of 51 sources with different checksums are heard in one scan,
  the last one is written after the table of fifty.\<close>

lemma airkiss_beacons_overrun:
  assumes "length fs = 51" "list_all (\<lambda>f. rx_size f \<noteq> 0 \<and> is_beacon f) fs" "distinct (map (\<lambda>f. calcrc_bytes (addr2 (rx_hdr f))) fs)"
  shows "dwell fs (airkiss_set_scan_all_channel s) = Fault"
proof -
  let ?turn = "\<lambda>f s. c_then (airkiss_main_turn f s) (\<lambda>(over, s1). Ret s1)"
  have "c_steps ?turn fs t = Fault"
    if "length fs + n = 51" "list_all (\<lambda>f. rx_size f \<noteq> 0 \<and> is_beacon f) fs" "distinct (map beacon_crc fs)"
      "mode (g_chans t) = AIRKISS_SCAN_ALL_CHAN" "cur_chan_idx (g_chans t) = 0" "length (chan (g_chans t)) = 14"
      "length (mac (g_macs t)) = 50" "unat (mac_cnt (g_macs t)) = n" "n \<le> 50"
      "mac_crc ` set (take n (mac (g_macs t))) = seen" "seen \<inter> beacon_crc ` set fs = {}" for fs n t seen
    using that
  proof (induction fs arbitrary: n t seen)
    case (Cons f fs)
    have f: "rx_size f \<noteq> 0" "is_beacon f" "beacon_crc f \<notin> seen" using Cons.prems(2,11) by auto
    note turn = new_beacon_noted [OF f(1,2) Cons.prems(4-10) f(3)]
    show ?case
    proof (cases "n = 50")
      case True
      with turn show ?thesis by simp
    next
      case False
      with turn obtain t1 where t1: "airkiss_main_turn f t = Ret (False, t1)" "mode (g_chans t1) = AIRKISS_SCAN_ALL_CHAN"
          "cur_chan_idx (g_chans t1) = 0" "length (chan (g_chans t1)) = 14" "length (mac (g_macs t1)) = 50"
          "unat (mac_cnt (g_macs t1)) = n + 1" "mac_crc ` set (take (n + 1) (mac (g_macs t1))) = insert (beacon_crc f) seen"
        by auto
      have "c_steps ?turn fs t1 = Fault"
        by (rule Cons.IH [OF _ _ _ t1(2-6) _ t1(7)]) (use Cons.prems False in auto)
      with t1(1) show ?thesis by simp
    qed
  qed simp
  from this [of fs 0 "airkiss_set_scan_all_channel s" "{}"] assms show ?thesis
    by (simp add: dwell_def airkiss_set_scan_all_channel_def MAX_CHANNELS_def MAX_MAC_def beacon_crc_def [abs_def] del: upt_Suc)
qed

lemma airkiss_beacons_overrun_witness:
  "dwell (map beacon_of [0..<51]) (airkiss_set_scan_all_channel fresh_scan) = Fault"
proof (rule airkiss_beacons_overrun)
  show "length (map beacon_of [0..<51]) = 51" by simp
  show "list_all (\<lambda>f. rx_size f \<noteq> 0 \<and> is_beacon f) (map beacon_of [0..<51])" by (simp add: list_all_iff frame_kinds del: upt_Suc)
  have "inj_on (\<lambda>i. calcrc_bytes [2, 0, 0, 0, 0, of_nat i]) (set [0..<51])"
  proof (rule inj_onI)
    fix i j :: nat assume ij: "i \<in> set [0..<51]" "j \<in> set [0..<51]"
      "calcrc_bytes [2, 0, 0, 0, 0, of_nat i] = calcrc_bytes [2, 0, 0, 0, 0, of_nat j]"
    then have "(of_nat i :: u8) = of_nat j"
      using calcrc_one_byte [of "[2, 0, 0, 0, 0]" "of_nat i" "[]" "of_nat j"] by simp
    then have "unat (of_nat i :: u8) = unat (of_nat j :: u8)" by simp
    then show "i = j" using ij(1,2) by (simp only: unat_of_nat) (simp add: take_bit_nat_eq_self)
  qed
  then have "distinct (map (\<lambda>i. calcrc_bytes [2, 0, 0, 0, 0, of_nat i]) [0..<51])"
    by (simp add: distinct_map del: upt_Suc)
  then show "distinct (map (\<lambda>f. calcrc_bytes (addr2 (rx_hdr f))) (map beacon_of [0..<51]))"
    by (simp add: frame_kinds comp_def del: upt_Suc)
qed

end
