(* ===== verification/Dhcp_Server.thy ===== *)
theory Dhcp_Server
  imports SDK_Prelude
begin

unbundle bit_operations_syntax

text \<open>
  The DHCP server of the access point, \<open>beken378/func/lwip_intf/dhcpd\<close>: the cache of leases, the choice of the next
  address, the answer to a message and the loop over the three sockets.

  Addresses are \<open>u32\<close> in network order as the code keeps them (\<open>current_ip\<close> in host order). The message
  buffer is its 1024 bytes, with whatever an earlier message left behind the current one; a read outside it
  is a \<open>Fault\<close>. A loop that may not end is a \<open>partial_function\<close>, and \<open>None\<close> is a call that does not return. lwIP is a record of
  functions on what has been asked of it so far, the log. Debug output and the mutex are left out.
\<close>

section \<open>State\<close>

definition SERVER_BUFFER_SIZE :: nat where "SERVER_BUFFER_SIZE = 1024"
definition MAC_IP_CACHE_SIZE :: nat where "MAC_IP_CACHE_SIZE = 8"
definition CLIENT_IP_NOT_FOUND :: u32 where "CLIENT_IP_NOT_FOUND = 0"
definition IPADDR_ANY :: u32 where "IPADDR_ANY = 0"
definition IPADDR_BROADCAST :: u32 where "IPADDR_BROADCAST = 0xFFFFFFFF"
definition EINVAL :: int where "EINVAL = 22"
definition DEFAULT_DHCP_ADDRESS_TIMEOUT :: u32 where "DEFAULT_DHCP_ADDRESS_TIMEOUT = 60 * 60 * 1"

record client_mac_cache =
  client_mac :: "u8 list"
  cached_ip :: u32

text \<open>
  \<open>address_timeout\<close> is the global \<open>dhcp_address_timeout\<close>, \<open>nack_dns\<close> says whether \<open>dhcp_nack_dns_server_handler\<close> is
  set. The broadcast address is the constant that \<open>get_broadcast_addr\<close> stores; the other socket addresses
  are only passed on.
\<close>

record dhcp_server_data =
  sock :: int
  dnssock :: int
  ctrlsock :: int
  count_clients :: nat
  msg :: "u8 list option"
  ip_mac_mapping :: "client_mac_cache list"
  netmask :: u32
  my_ip :: u32
  client_ip :: u32
  current_ip :: u32
  address_timeout :: u32
  nack_dns :: bool

definition no_client :: client_mac_cache where
  "no_client = \<lparr>client_mac = replicate 6 0, cached_ip = 0\<rparr>"

definition dhcps_zero :: "u32 \<Rightarrow> bool \<Rightarrow> dhcp_server_data" where
  "dhcps_zero timeout dns =
     \<lparr>sock = 0, dnssock = 0, ctrlsock = 0, count_clients = 0, msg = None,
      ip_mac_mapping = replicate MAC_IP_CACHE_SIZE no_client, netmask = 0, my_ip = 0, client_ip = 0,
      current_ip = 0, address_timeout = timeout, nack_dns = dns\<rparr>"

text \<open>What the server asks of lwIP and of the network interface, and what these answer.\<close>

datatype net_event = Ap_Default_Netif | Reset_Default_Netif | Sendto int u32 "u8 list" | Close int

record lwip_env =
  sendto_ret :: "net_event list \<Rightarrow> int \<Rightarrow> u8 list \<Rightarrow> int"
  socket_ret :: "net_event list \<Rightarrow> int"
  if_macaddr :: "u8 list"

section \<open>Byte order\<close>

definition htonl :: "u32 \<Rightarrow> u32" where
  "htonl x = push_bit 24 (x AND 0xFF) OR push_bit 8 (x AND 0xFF00) OR
             drop_bit 8 (x AND 0xFF0000) OR drop_bit 24 (x AND 0xFF000000)"

definition ntohl :: "u32 \<Rightarrow> u32" where
  "ntohl x = htonl x"

definition htons :: "u16 \<Rightarrow> u16" where
  "htons x = push_bit 8 (x AND 0xFF) OR drop_bit 8 (x AND 0xFF00)"

definition half_bytes :: "u16 \<Rightarrow> u8 list" where
  "half_bytes w = [ucast w, ucast (drop_bit 8 w)]"

definition write_u32 :: "nat \<Rightarrow> u32 \<Rightarrow> u8 list \<Rightarrow> u8 list" where
  "write_u32 dest be_value m =
     blit m dest [ucast (be_value AND 0xFF), ucast (drop_bit 8 be_value AND 0xFF),
                  ucast (drop_bit 16 be_value AND 0xFF), ucast (drop_bit 24 be_value)]"

section \<open>The cache of leases\<close>

definition cached :: "dhcp_server_data \<Rightarrow> client_mac_cache list" where
  "cached s = take (min (count_clients s) MAC_IP_CACHE_SIZE) (ip_mac_mapping s)"

definition ac_not_full :: "dhcp_server_data \<Rightarrow> bool" where
  "ac_not_full s \<longleftrightarrow> count_clients s < MAC_IP_CACHE_SIZE"

text \<open>The \<open>bool\<close> that is returned is the truth value of the 0 and -1 in the code: true when nothing was added.\<close>

definition ac_add :: "u8 list \<Rightarrow> u32 \<Rightarrow> dhcp_server_data \<Rightarrow> bool \<times> dhcp_server_data" where
  "ac_add chaddr ip s =
     (if ac_not_full s
      then (False, s\<lparr>ip_mac_mapping := (ip_mac_mapping s)[count_clients s := \<lparr>client_mac = chaddr, cached_ip = ip\<rparr>],
                     count_clients := count_clients s + 1\<rparr>)
      else (True, s))"

definition ac_lookup_mac :: "u8 list \<Rightarrow> dhcp_server_data \<Rightarrow> u32" where
  "ac_lookup_mac chaddr s =
     (case find (\<lambda>e. client_mac e = chaddr) (cached s) of Some e \<Rightarrow> cached_ip e | None \<Rightarrow> CLIENT_IP_NOT_FOUND)"

definition ac_lookup_ip :: "u32 \<Rightarrow> dhcp_server_data \<Rightarrow> u8 list option" where
  "ac_lookup_ip ip s = map_option client_mac (find (\<lambda>e. cached_ip e = ip) (cached s))"

definition ac_valid_ip :: "u32 \<Rightarrow> dhcp_server_data \<Rightarrow> bool" where
  "ac_valid_ip requested_ip s =
     (if requested_ip = ntohl (my_ip s) \<or> requested_ip = ntohl (my_ip s AND netmask s) \<or>
         requested_ip = ntohl (my_ip s OR (0xffffffff AND NOT (netmask s)))
      then False
      else if ac_lookup_ip (htonl requested_ip) s \<noteq> None then False
      else True)"

definition dhcp_server_lease_timeout :: "u32 \<Rightarrow> dhcp_server_data \<Rightarrow> int \<times> dhcp_server_data" where
  "dhcp_server_lease_timeout val s =
     (if val = 0 \<or> 60 * 60 * 24 * 49700 < val then (- EINVAL, s) else (0, s\<lparr>address_timeout := val\<rparr>))"

definition dhcp_get_ip_from_mac :: "u8 list \<Rightarrow> dhcp_server_data \<Rightarrow> int \<times> u32" where
  "dhcp_get_ip_from_mac mac s =
     (let ip = ac_lookup_mac mac s in if ip = CLIENT_IP_NOT_FOUND then (-1, ip) else (0, ip))"

text \<open>\<open>dhcp_lookup_mac\<close> returns the address as text, written by \<open>inet_ntoa\<close>, an argument here.\<close>

definition dhcp_lookup_mac :: "(u32 \<Rightarrow> string) \<Rightarrow> u8 list \<Rightarrow> dhcp_server_data \<Rightarrow> string option" where
  "dhcp_lookup_mac inet_ntoa chaddr s =
     map_option (\<lambda>e. inet_ntoa (cached_ip e)) (find (\<lambda>e. client_mac e = chaddr) (cached s))"

section \<open>The next address\<close>

definition advance_ip :: "dhcp_server_data \<Rightarrow> dhcp_server_data" where
  "advance_ip s =
     s\<lparr>current_ip := ntohl (my_ip s AND netmask s) OR ((current_ip s + 1) AND ntohl (NOT (netmask s)))\<rparr>"

partial_function (option) first_valid :: "dhcp_server_data \<Rightarrow> dhcp_server_data option" where
  "first_valid s = (if ac_valid_ip (current_ip s) s then Some s else first_valid (advance_ip s))"

declare first_valid.simps [code]

definition next_yiaddr :: "u8 list \<Rightarrow> dhcp_server_data \<Rightarrow> (u32 \<times> dhcp_server_data) option" where
  "next_yiaddr chaddr s =
     (let new_ip = ac_lookup_mac chaddr s in
      if new_ip = CLIENT_IP_NOT_FOUND then
        (case first_valid (advance_ip s) of
           None \<Rightarrow> None
         | Some s1 \<Rightarrow> let new_ip = htonl (current_ip s1) in Some (new_ip, snd (ac_add chaddr new_ip s1)))
      else Some (new_ip, s))"

section \<open>Messages\<close>

definition BOOTP_OP_REQUEST :: u8 where "BOOTP_OP_REQUEST = 1"
definition BOOTP_OP_RESPONSE :: u8 where "BOOTP_OP_RESPONSE = 2"
definition BOOTP_OPTION_SUBNET_MASK :: u8 where "BOOTP_OPTION_SUBNET_MASK = 1"
definition BOOTP_OPTION_ROUTER :: u8 where "BOOTP_OPTION_ROUTER = 3"
definition BOOTP_OPTION_NAMESERVER :: u8 where "BOOTP_OPTION_NAMESERVER = 6"
definition BOOTP_OPTION_REQUESTED_IP :: u8 where "BOOTP_OPTION_REQUESTED_IP = 50"
definition BOOTP_OPTION_ADDRESS_TIME :: u8 where "BOOTP_OPTION_ADDRESS_TIME = 51"
definition BOOTP_OPTION_DHCP_MESSAGE :: u8 where "BOOTP_OPTION_DHCP_MESSAGE = 53"
definition BOOTP_OPTION_DHCP_SERVER_ID :: u8 where "BOOTP_OPTION_DHCP_SERVER_ID = 54"
definition BOOTP_END_OPTION :: u8 where "BOOTP_END_OPTION = 0xFF"

definition DHCP_MESSAGE_DISCOVER :: u8 where "DHCP_MESSAGE_DISCOVER = 1"
definition DHCP_MESSAGE_OFFER :: u8 where "DHCP_MESSAGE_OFFER = 2"
definition DHCP_MESSAGE_REQUEST :: u8 where "DHCP_MESSAGE_REQUEST = 3"
definition DHCP_MESSAGE_ACK :: u8 where "DHCP_MESSAGE_ACK = 5"
definition DHCP_MESSAGE_NAK :: u8 where "DHCP_MESSAGE_NAK = 6"
definition DHCP_NO_RESPONSE :: u8 where "DHCP_NO_RESPONSE = 255"

text \<open>The fields of \<open>struct bootp_header\<close>, by their place in the packed layout of 240 bytes.\<close>

definition BOOTP_HEADER_SIZE :: nat where "BOOTP_HEADER_SIZE = 240"

definition hdr_op :: "u8 list \<Rightarrow> u8" where "hdr_op m = m ! 0"
definition hdr_htype :: "u8 list \<Rightarrow> u8" where "hdr_htype m = m ! 1"
definition hdr_hlen :: "u8 list \<Rightarrow> u8" where "hdr_hlen m = m ! 2"
definition hdr_ciaddr :: "u8 list \<Rightarrow> u32" where "hdr_ciaddr m = bytes_word (take 4 (drop 12 m))"
definition hdr_yiaddr :: "u8 list \<Rightarrow> u32" where "hdr_yiaddr m = bytes_word (take 4 (drop 16 m))"
definition hdr_chaddr :: "u8 list \<Rightarrow> u8 list" where "hdr_chaddr m = take 6 (drop 28 m)"

text \<open>The header part of \<open>make_response\<close>, then its options; the result is the message with its length.\<close>

definition response_header :: "u32 \<Rightarrow> u8 list \<Rightarrow> u8 list" where
  "response_header yiaddr m =
     blit (blit m 0 [BOOTP_OP_RESPONSE, 1, 6, 0]) 12
       (word_bytes 0 @ word_bytes yiaddr @ word_bytes 0 @ word_bytes 0)"

definition put_option :: "u8 \<Rightarrow> u32 \<Rightarrow> nat \<times> u8 list \<Rightarrow> nat \<times> u8 list" where
  "put_option ty v p = (case p of (off, m) \<Rightarrow> (off + 6, write_u32 (off + 2) v (blit m off [ty, 4])))"

definition response_options :: "u8 \<Rightarrow> dhcp_server_data \<Rightarrow> u8 list \<Rightarrow> nat \<times> u8 list" where
  "response_options ty s m =
     (let off = BOOTP_HEADER_SIZE;
          m1 = blit m off [BOOTP_OPTION_DHCP_MESSAGE, 1, ty];
          off1 = off + 3
      in if ty = DHCP_MESSAGE_NAK then (off1, m1)
         else
           (case put_option BOOTP_OPTION_NAMESERVER (if nack_dns s then my_ip s else 0)
                  (put_option BOOTP_OPTION_ROUTER (my_ip s)
                    (put_option BOOTP_OPTION_DHCP_SERVER_ID (my_ip s)
                      (put_option BOOTP_OPTION_ADDRESS_TIME (htonl (address_timeout s))
                        (put_option BOOTP_OPTION_SUBNET_MASK (netmask s) (off1, m1))))) of
              (end, m2) \<Rightarrow> (end + 1, m2[end := BOOTP_END_OPTION])))"

definition make_response :: "u8 \<Rightarrow> u8 list \<Rightarrow> dhcp_server_data \<Rightarrow> (nat \<times> u8 list \<times> dhcp_server_data) option" where
  "make_response ty m s =
     (case (if ty = DHCP_MESSAGE_OFFER then next_yiaddr (hdr_chaddr m) s
            else Some (if ty = DHCP_MESSAGE_ACK then client_ip s else 0, s)) of
        None \<Rightarrow> None
      | Some (yiaddr, s1) \<Rightarrow>
          (case response_options ty s1 (response_header yiaddr m) of (len, m1) \<Rightarrow> Some (len, m1, s1\<lparr>msg := Some m1\<rparr>)))"

section \<open>Sending\<close>

partial_function (option) send_loop ::
    "lwip_env \<Rightarrow> int \<Rightarrow> u32 \<Rightarrow> u8 list \<Rightarrow> net_event list \<Rightarrow> (bool \<times> net_event list) option" where
  "send_loop env k dest rest log =
     (if rest = [] then Some (True, log)
      else
        (let nb = sendto_ret env log k rest; log1 = log @ [Sendto k dest rest] in
         if nb < 0 then Some (False, log1) else send_loop env k dest (drop (nat nb) rest) log1))"

declare send_loop.simps [code]

definition send_response :: "lwip_env \<Rightarrow> int \<Rightarrow> u32 \<Rightarrow> u8 list \<Rightarrow> net_event list \<Rightarrow> (int \<times> net_event list) option" where
  "send_response env k dest_ip m log =
     (let wide = (dest_ip = IPADDR_ANY \<or> dest_ip = IPADDR_BROADCAST) in
      case send_loop env k dest_ip m (if wide then log @ [Ap_Default_Netif] else log) of
        None \<Rightarrow> None
      | Some (False, log1) \<Rightarrow> Some (-1, log1)
      | Some (True, log1) \<Rightarrow> Some (0, if wide then log1 @ [Reset_Default_Netif] else log1))"

definition arp_packet :: "u8 list \<Rightarrow> u32 \<Rightarrow> u8 list" where
  "arp_packet mac ip =
     replicate 6 0xff @ mac @ half_bytes (htons 0x0806) @ half_bytes (htons 1) @ half_bytes (htons 0x0800) @
     [6, 4] @ half_bytes (htons 2) @ mac @ write_u32 0 ip (replicate 4 0) @ replicate 6 0xff @
     write_u32 0 ip (replicate 4 0) @ replicate 18 0"

definition send_gratuitous_arp :: "lwip_env \<Rightarrow> u32 \<Rightarrow> net_event list \<Rightarrow> int \<times> net_event list" where
  "send_gratuitous_arp env ip log =
     (let k = socket_ret env log in
      if k < 0 then (-1, log)
      else
        (let pkt = arp_packet (if_macaddr env) ip in
         (if sendto_ret env log k pkt < 0 then -1 else 0, log @ [Sendto k ip pkt, Close k])))"

section \<open>A DHCP message\<close>

text \<open>The local variables of \<open>process_dhcp_message\<close> that the options set.\<close>

record dhcp_walk =
  response_type :: u8
  got_ip :: bool
  need_ip :: bool
  got_client_ip :: bool

text \<open>One option: its message type, its requested address, and what the address means so far.\<close>

definition option_message :: "u8 list \<Rightarrow> nat \<Rightarrow> dhcp_walk \<times> dhcp_server_data \<Rightarrow> dhcp_walk \<times> dhcp_server_data" where
  "option_message m off p = (case p of (w, s) \<Rightarrow>
     if m ! off = BOOTP_OPTION_DHCP_MESSAGE \<and> m ! (off + 1) = 1 then
       (if m ! (off + 2) = DHCP_MESSAGE_DISCOVER then (w\<lparr>response_type := DHCP_MESSAGE_OFFER\<rparr>, s)
        else if m ! (off + 2) = DHCP_MESSAGE_REQUEST then
          (if hdr_ciaddr m \<noteq> 0
           then (w\<lparr>need_ip := True, got_client_ip := True\<rparr>, s\<lparr>client_ip := hdr_ciaddr m\<rparr>)
           else (w\<lparr>need_ip := True\<rparr>, s))
        else (w, s))
     else (w, s))"

definition option_requested :: "u8 list \<Rightarrow> nat \<Rightarrow> dhcp_walk \<times> dhcp_server_data \<Rightarrow> dhcp_walk \<times> dhcp_server_data" where
  "option_requested m off p = (case p of (w, s) \<Rightarrow>
     if m ! off = BOOTP_OPTION_REQUESTED_IP \<and> m ! (off + 1) = 4
     then (w\<lparr>got_client_ip := True\<rparr>, s\<lparr>client_ip := bytes_word (take 4 (drop (off + 2) m))\<rparr>)
     else (w, s))"

definition option_lease :: "u8 list \<Rightarrow> dhcp_walk \<times> dhcp_server_data \<Rightarrow> dhcp_walk \<times> dhcp_server_data" where
  "option_lease chaddr p = (case p of (w, s) \<Rightarrow>
     if got_client_ip w \<and> client_ip s AND netmask s = my_ip s AND netmask s then
       (let new_ip = ac_lookup_mac chaddr s in
        if new_ip \<noteq> CLIENT_IP_NOT_FOUND then (w\<lparr>got_ip := (new_ip = client_ip s)\<rparr>, s)
        else if ac_valid_ip (ntohl (client_ip s)) s then
          (w\<lparr>got_ip := True\<rparr>, if ac_not_full s then snd (ac_add chaddr (client_ip s) s) else s)
        else (w, s))
     else (w, s))"

definition process_option :: "u8 list \<Rightarrow> nat \<Rightarrow> dhcp_walk \<times> dhcp_server_data \<Rightarrow> dhcp_walk \<times> dhcp_server_data" where
  "process_option m off p =
     (case option_lease (hdr_chaddr m) (option_requested m off (option_message m off p)) of (w, s) \<Rightarrow>
        (if need_ip w then w\<lparr>response_type := (if got_ip w then DHCP_MESSAGE_ACK else DHCP_MESSAGE_NAK)\<rparr> else w, s))"

text \<open>What an option reads lies in the buffer.\<close>

definition option_in_buffer :: "u8 list \<Rightarrow> nat \<Rightarrow> bool" where
  "option_in_buffer m off \<longleftrightarrow> off + 1 < length m \<and>
     (m ! off = BOOTP_OPTION_DHCP_MESSAGE \<and> m ! (off + 1) = 1 \<longrightarrow> off + 2 < length m) \<and>
     (m ! off = BOOTP_OPTION_REQUESTED_IP \<and> m ! (off + 1) = 4 \<longrightarrow> off + 5 < length m)"

function option_walk ::
    "u8 list \<Rightarrow> nat \<Rightarrow> int \<Rightarrow> dhcp_walk \<times> dhcp_server_data \<Rightarrow> (dhcp_walk \<times> dhcp_server_data) c_run" where
  "option_walk m off len p =
     (if len \<le> 0 then Ret p
      else if length m \<le> off then Fault
      else if m ! off = BOOTP_END_OPTION then Ret p
      else if \<not> option_in_buffer m off then Fault
      else
        (let consumed = 2 + unat (m ! (off + 1))
         in option_walk m (off + consumed) (len - int consumed) (process_option m off p)))"
  by pat_completeness auto
termination
proof (relation "measure (\<lambda>(m, off, len, p). nat len)")
  have "- 2 < uint x" for x :: u8 by (rule less_le_trans [OF _ unsigned_greater_eq]) simp
  then show "\<And>m off len p x. \<not> len \<le> 0 \<Longrightarrow> \<not> length m \<le> off \<Longrightarrow> m ! off \<noteq> BOOTP_END_OPTION \<Longrightarrow>
      \<not> \<not> option_in_buffer m off \<Longrightarrow> x = 2 + unat (m ! (off + 1)) \<Longrightarrow>
      ((m, off + x, len - int x, process_option m off p), m, off, len, p) \<in> measure (\<lambda>(m, off, len, p). nat len)"
    by simp
qed simp

declare option_walk.simps [simp del]

type_synonym served = "(int \<times> dhcp_server_data \<times> net_event list) c_run option"

definition process_dhcp_message :: "lwip_env \<Rightarrow> nat \<Rightarrow> dhcp_server_data \<Rightarrow> net_event list \<Rightarrow> served" where
  "process_dhcp_message env len s log =
     (case msg s of
        None \<Rightarrow> Some (Ret (-1, s, log))
      | Some m \<Rightarrow>
          if len < BOOTP_HEADER_SIZE + 2 + 1 then Some (Ret (-1, s, log))
          else if hdr_op m \<noteq> BOOTP_OP_REQUEST \<and> hdr_op m \<noteq> BOOTP_OP_RESPONSE then Some (Ret (-1, s, log))
          else if hdr_htype m \<noteq> 1 \<or> hdr_hlen m \<noteq> 6 then Some (Ret (-1, s, log))
          else
            (case option_walk m BOOTP_HEADER_SIZE (int len - int BOOTP_HEADER_SIZE)
                   (\<lparr>response_type = DHCP_NO_RESPONSE, got_ip = False, need_ip = False, got_client_ip = False\<rparr>, s) of
               Fault \<Rightarrow> Some Fault
             | Assert_Stop \<Rightarrow> Some Assert_Stop
             | Ret (w, s1) \<Rightarrow>
                 if response_type w = DHCP_NO_RESPONSE then Some (Ret (0, s1, log))
                 else
                   (case make_response (response_type w) m s1 of
                      None \<Rightarrow> None
                    | Some (n, m2, s2) \<Rightarrow>
                        (case send_response env (sock s2) IPADDR_BROADCAST (take n m2) log of
                           None \<Rightarrow> None
                         | Some (ret, log1) \<Rightarrow>
                             Some (Ret (0, s2,
                               if response_type w = DHCP_MESSAGE_ACK
                               then snd (send_gratuitous_arp env (my_ip s2) log1) else log1))))))"

section \<open>A DNS message\<close>

text \<open>The flags are read and set in the half word as it was loaded, and swapped after.\<close>

definition ERROR_REFUSED :: u16 where "ERROR_REFUSED = 5"
definition DNS_HEADER_SIZE :: nat where "DNS_HEADER_SIZE = 12"

definition half_at :: "u8 list \<Rightarrow> nat \<Rightarrow> u16" where
  "half_at m off = ucast (m ! off) OR push_bit 8 (ucast (m ! (off + 1)))"

definition refused_flags :: "u16 \<Rightarrow> u16" where
  "refused_flags f =
     (let f1 = f AND NOT 0xFF8F OR 0x8000 OR 0x0100 OR ERROR_REFUSED in htons f1)"

definition process_dns_message :: "lwip_env \<Rightarrow> nat \<Rightarrow> u32 \<Rightarrow> dhcp_server_data \<Rightarrow> net_event list \<Rightarrow> served" where
  "process_dns_message env len from_ip s log =
     (if len < DNS_HEADER_SIZE then Some (Ret (-1, s, log))
      else case msg s of
        None \<Rightarrow> Some Fault
      | Some m \<Rightarrow>
          if bit (half_at m 2) 15 then Some (Ret (-1, s, log))
          else if htons (half_at m 4) = 0 then Some (Ret (-1, s, log))
          else
            (let m1 = blit m 2 (half_bytes (refused_flags (half_at m 2)) @ half_bytes (htons 1) @ replicate 6 0)
             in case send_response env (dnssock s) from_ip (take len m1) log of
                  None \<Rightarrow> None
                | Some (ret, log1) \<Rightarrow> Some (Ret (-1, s\<lparr>msg := Some m1\<rparr>, log1))))"

section \<open>The server loop\<close>

definition dhcp_clean_sockets :: "dhcp_server_data \<times> net_event list \<Rightarrow> dhcp_server_data \<times> net_event list" where
  "dhcp_clean_sockets p =
     (let (s1, log1) = (case p of (s, log) \<Rightarrow>
            if sock s \<noteq> -1 then (s\<lparr>sock := -1\<rparr>, log @ [Close (sock s)]) else (s, log))
      in if ctrlsock s1 \<noteq> -1 then (s1\<lparr>ctrlsock := -1\<rparr>, log1 @ [Close (ctrlsock s1)]) else (s1, log1))"

text \<open>What one turn of the loop meets: the answer of \<open>lwip_select\<close>, and for each socket the datagram, if the socket is set.\<close>

record server_input =
  select_ret :: int
  dhcp_in :: "u8 list option"
  dns_in :: "(u32 \<times> u8 list) option"
  ctrl_in :: "u8 list option"

text \<open>A datagram is cut to the buffer; the handler sees its length when there is one.\<close>

definition recv_into :: "u8 list \<Rightarrow> dhcp_server_data \<Rightarrow> nat \<times> dhcp_server_data" where
  "recv_into d s = (length (take SERVER_BUFFER_SIZE d),
     s\<lparr>msg := map_option (\<lambda>m. blit m 0 (take SERVER_BUFFER_SIZE d)) (msg s)\<rparr>)"

definition on_datagram ::
    "u8 list option \<Rightarrow> (nat \<Rightarrow> dhcp_server_data \<Rightarrow> net_event list \<Rightarrow> served) \<Rightarrow>
     dhcp_server_data \<times> net_event list \<Rightarrow> (dhcp_server_data \<times> net_event list) c_run option" where
  "on_datagram d handler p =
     (case p of (s, log) \<Rightarrow>
        (case d of
           None \<Rightarrow> Some (Ret (s, log))
         | Some d \<Rightarrow>
             (let (len, s1) = recv_into d s in
              if msg s = None \<and> len \<noteq> 0 then Some Fault
              else if len = 0 then Some (Ret (s1, log))
              else
                and_then (handler len s1 log) (\<lambda>(ret, s2, log2). Some (Ret (s2, log2))))))"

definition halt_received :: "dhcp_server_data \<Rightarrow> bool" where
  "halt_received s \<longleftrightarrow> map_option (take 5) (msg s) = Some [0x48, 0x41, 0x4C, 0x54, 0]"

definition halt_turn ::
    "u8 list option \<Rightarrow> dhcp_server_data \<times> net_event list \<Rightarrow> (bool \<times> dhcp_server_data \<times> net_event list) c_run option" where
  "halt_turn d p =
     (case d of
        None \<Rightarrow> Some (Ret (False, p))
      | Some d \<Rightarrow>
          (let (len, s) = recv_into d (fst p) in
           if msg s = None \<and> len \<noteq> 0 then Some Fault
           else if 0 < len \<and> halt_received s then Some (Ret (True, dhcp_clean_sockets (s, snd p)))
           else Some (Ret (False, s, snd p))))"

text \<open>One turn of the \<open>while\<close> loop; the flag of the result says that the loop was left through \<open>done\<close>.\<close>

definition dhcp_server_turn ::
    "lwip_env \<Rightarrow> server_input \<Rightarrow> dhcp_server_data \<times> net_event list
     \<Rightarrow> (bool \<times> dhcp_server_data \<times> net_event list) c_run option" where
  "dhcp_server_turn env i p =
     (if select_ret i < 0 then Some (Ret (True, dhcp_clean_sockets p))
      else
        and_then (on_datagram (dhcp_in i) (process_dhcp_message env) p) (\<lambda>p1.
        and_then (if nack_dns (fst p1)
                  then on_datagram (map_option snd (dns_in i))
                         (\<lambda>len. process_dns_message env len (fst (the (dns_in i)))) p1
                  else Some (Ret p1)) (\<lambda>p2. halt_turn (ctrl_in i) p2)))"

section \<open>Start and stop\<close>

text \<open>
  \<open>create_and_bind_udp_socket\<close>, with the answers of \<open>lwip_socket\<close>, the broadcast option and \<open>lwip_bind\<close>;
  then \<open>dhcp_server_init\<close> with what its calls answer.
\<close>

record bind_answers =
  made_socket :: int
  broadcast_ret :: int
  bind_ret :: int

definition create_and_bind_udp_socket :: "bind_answers \<Rightarrow> net_event list \<Rightarrow> int \<times> net_event list" where
  "create_and_bind_udp_socket a log =
     (if made_socket a = -1 then (-1, log)
      else if broadcast_ret a = -1 then (-1, log @ [Close (made_socket a)])
      else if bind_ret a \<noteq> 0 then (-1, log @ [Close (made_socket a)])
      else (made_socket a, log))"

record init_answers =
  alloc_msg :: "u8 list option"
  mutex_ret :: int
  ip_answer :: "int \<times> u32"
  mask_answer :: "int \<times> u32"
  dhcp_socket :: bind_answers
  dns_socket :: bind_answers
  ctrl_socket :: bind_answers

definition dhcp_server_init ::
    "init_answers \<Rightarrow> dhcp_server_data \<Rightarrow> net_event list \<Rightarrow> int \<times> dhcp_server_data \<times> net_event list" where
  "dhcp_server_init a old log =
     (let s = dhcps_zero (address_timeout old) (nack_dns old) in
      case alloc_msg a of
        None \<Rightarrow> (-1, s, log)
      | Some m \<Rightarrow>
          (let s = s\<lparr>msg := Some m\<rparr> in
           if mutex_ret a \<noteq> 0 then (-1, s, log)
           else if fst (ip_answer a) < 0 then (-1, s\<lparr>msg := None, my_ip := snd (ip_answer a)\<rparr>, log)
           else
             (let s = s\<lparr>my_ip := snd (ip_answer a), netmask := snd (mask_answer a)\<rparr> in
              if fst (mask_answer a) < 0 then (-1, s\<lparr>msg := None\<rparr>, log)
              else
                (let (k, log) = create_and_bind_udp_socket (dhcp_socket a) log; s = s\<lparr>sock := k\<rparr> in
                 if k < 0 then (-1, s\<lparr>msg := None\<rparr>, log)
                 else
                   (let (k, log) = (if nack_dns s then create_and_bind_udp_socket (dns_socket a) log
                                    else (dnssock s, log));
                        s = s\<lparr>dnssock := k\<rparr> in
                    if nack_dns s \<and> k < 0 then (-1, s, log)
                    else
                      (let (k, log) = create_and_bind_udp_socket (ctrl_socket a) log; s = s\<lparr>ctrlsock := k\<rparr> in
                       if k < 0 then (-1, s\<lparr>msg := None\<rparr>, log) else (0, s, log)))))))"

definition dhcp_enable_nack_dns_server :: "dhcp_server_data \<Rightarrow> dhcp_server_data" where
  "dhcp_enable_nack_dns_server s = s\<lparr>nack_dns := True\<rparr>"

text \<open>The halt message goes to the loopback address; \<open>deinit_ret\<close> is the answer of \<open>rtos_deinit_mutex\<close>.\<close>

definition CTRL_ADDR :: u32 where "CTRL_ADDR = 0x0100007F"

definition dhcp_free_allocations ::
    "int \<Rightarrow> dhcp_server_data \<times> net_event list \<Rightarrow> int \<times> dhcp_server_data \<times> net_event list" where
  "dhcp_free_allocations deinit_ret p =
     (case dhcp_clean_sockets p of (s, log) \<Rightarrow> (deinit_ret, s\<lparr>msg := None\<rparr>, log))"

definition dhcp_send_halt ::
    "lwip_env \<Rightarrow> int \<Rightarrow> dhcp_server_data \<times> net_event list \<Rightarrow> int \<times> dhcp_server_data \<times> net_event list" where
  "dhcp_send_halt env deinit_ret p =
     (case p of (s, log) \<Rightarrow>
        (let halt = [0x48, 0x41, 0x4C, 0x54, 0]; log1 = log @ [Sendto (ctrlsock s) CTRL_ADDR halt] in
         if sendto_ret env log (ctrlsock s) halt < 0 then (-1, s, log1)
         else dhcp_free_allocations deinit_ret (s, log1)))"

text \<open>\<open>dhcp-server-main.c\<close>: the flag \<open>dhcpd_running\<close> beside the server.\<close>

definition dhcp_server_start ::
    "init_answers \<Rightarrow> int \<Rightarrow> int \<Rightarrow> bool \<times> dhcp_server_data \<times> net_event list
     \<Rightarrow> int \<times> bool \<times> dhcp_server_data \<times> net_event list" where
  "dhcp_server_start a thread_ret deinit_ret p =
     (case p of (running, s, log) \<Rightarrow>
        if running then (-1, p)
        else
          (case dhcp_server_init a s log of
             (ret, s1, log1) \<Rightarrow>
               if ret \<noteq> 0 then (-1, False, s1, log1)
               else if thread_ret \<noteq> 0 then (-1, False, snd (dhcp_free_allocations deinit_ret (s1, log1)))
               else (0, True, s1, log1)))"

definition dhcp_server_stop ::
    "lwip_env \<Rightarrow> int \<Rightarrow> bool \<times> dhcp_server_data \<times> net_event list \<Rightarrow> bool \<times> dhcp_server_data \<times> net_event list" where
  "dhcp_server_stop env deinit_ret p =
     (case p of (running, s, log) \<Rightarrow>
        if running then
          (case dhcp_send_halt env deinit_ret (s, log) of
             (ret, s1, log1) \<Rightarrow> (if ret \<noteq> 0 then (True, s1, log1) else (False, s1, log1)))
        else p)"

end
