(* ===== verification/Dhcp_Lease.thy ===== *)
theory Dhcp_Lease
  imports Dhcp_Server
begin

unbundle bit_operations_syntax

text \<open>
  What the DHCP server of theory \<open>Dhcp_Server\<close> promises: the cache is an injective map from clients to
  addresses of the subnet whatever is received, when a search for an address ends, the form of a reply, the
  exchange of an offer and a request, and what a full cache breaks.
\<close>

section \<open>Byte order\<close>

lemma bit_htonl:
  "bit (htonl x) n \<longleftrightarrow> (if n < 8 then bit x (n + 24) else if n < 16 then bit x (n + 8)
     else if n < 24 then bit x (n - 8) else n < 32 \<and> bit x (n - 24))"
proof -
  have masks: "(0xFF :: u32) = mask 8" "(0xFF00 :: u32) = mask 16 AND NOT (mask 8)"
    "(0xFF0000 :: u32) = mask 24 AND NOT (mask 16)" "(0xFF000000 :: u32) = mask 32 AND NOT (mask 24)"
    by (simp_all add: mask_eq_decr_exp)
  show ?thesis
    unfolding htonl_def masks by (auto simp: bit_simps add.commute dest: bit_imp_le_length)
qed

lemma htonl_htonl [simp]: "htonl (htonl x) = x"
  by (rule bit_word_eqI) (auto simp: bit_htonl)

lemma htonl_eq_iff [simp]: "htonl x = htonl y \<longleftrightarrow> x = y"
  by (metis htonl_htonl)

lemma htonl_and: "htonl (x AND y) = htonl x AND htonl y"
  and htonl_or: "htonl (x OR y) = htonl x OR htonl y"
  by (rule bit_word_eqI; auto simp: bit_htonl bit_simps)+

lemma htonl_not: "htonl (NOT x) = NOT (htonl x)"
  by (rule bit_word_eqI) (auto simp: bit_htonl bit_simps)

section \<open>Which addresses may be given out\<close>

text \<open>An address of the subnet that is not the server's, not the network's and not the broadcast address.\<close>

definition assignable :: "u32 \<Rightarrow> dhcp_server_data \<Rightarrow> bool" where
  "assignable ip s \<longleftrightarrow> ip AND netmask s = my_ip s AND netmask s \<and> ip \<noteq> my_ip s \<and>
     ip \<noteq> my_ip s AND netmask s \<and> ip \<noteq> my_ip s OR NOT (netmask s)"

lemma lookup_ip_None: "ac_lookup_ip ip s = None \<longleftrightarrow> ip \<notin> cached_ip ` set (cached s)"
  by (auto simp: ac_lookup_ip_def find_None_iff)

lemma ac_valid_iff:
  "ip AND netmask s = my_ip s AND netmask s \<Longrightarrow>
   ac_valid_ip (ntohl ip) s \<longleftrightarrow> assignable ip s \<and> ip \<notin> cached_ip ` set (cached s)"
proof -
  have all: "(0xffffffff :: u32) AND w = w" for w
  proof -
    have "(0xffffffff :: u32) = - 1" by simp
    then show ?thesis by (simp only: and.left_neutral)
  qed
  show "ip AND netmask s = my_ip s AND netmask s \<Longrightarrow>
      ac_valid_ip (ntohl ip) s \<longleftrightarrow> assignable ip s \<and> ip \<notin> cached_ip ` set (cached s)"
    unfolding ac_valid_ip_def assignable_def ntohl_def lookup_ip_None all by simp
qed

lemma assignable_nonzero: "assignable ip s \<Longrightarrow> ip \<noteq> 0"
  by (auto simp: assignable_def)

text \<open>The cache: distinct clients, distinct addresses, all of them assignable.\<close>

definition leases_ok :: "dhcp_server_data \<Rightarrow> bool" where
  "leases_ok s \<longleftrightarrow> length (ip_mac_mapping s) = MAC_IP_CACHE_SIZE \<and> count_clients s \<le> MAC_IP_CACHE_SIZE \<and>
     distinct (map client_mac (cached s)) \<and> distinct (map cached_ip (cached s)) \<and>
     (\<forall>e \<in> set (cached s). assignable (cached_ip e) s)"

definition lease_of :: "dhcp_server_data \<Rightarrow> u8 list \<rightharpoonup> u32" where
  "lease_of s = map_of (map (\<lambda>e. (client_mac e, cached_ip e)) (cached s))"

lemma lookup_mac_lease:
  assumes "leases_ok s"
  shows "ac_lookup_mac chaddr s = (case lease_of s chaddr of None \<Rightarrow> CLIENT_IP_NOT_FOUND | Some ip \<Rightarrow> ip)"
proof -
  have "ac_lookup_mac chaddr s = (case map_of (map (\<lambda>e. (client_mac e, cached_ip e)) es) chaddr of
      None \<Rightarrow> CLIENT_IP_NOT_FOUND | Some ip \<Rightarrow> ip)" if "es = cached s" for es
    unfolding ac_lookup_mac_def that [symmetric] by (induction es) auto
  then show ?thesis by (simp add: lease_of_def)
qed

lemma lease_assignable:
  "leases_ok s \<Longrightarrow> lease_of s chaddr = Some ip \<Longrightarrow> assignable ip s"
  by (auto simp: leases_ok_def lease_of_def dest!: map_of_SomeD)

lemma unknown_client:
  assumes "leases_ok s"
  shows "ac_lookup_mac chaddr s = CLIENT_IP_NOT_FOUND \<longleftrightarrow> lease_of s chaddr = None"
  using lease_assignable [OF assms, of chaddr] assignable_nonzero
  by (auto simp: lookup_mac_lease [OF assms] CLIENT_IP_NOT_FOUND_def split: option.splits)

lemma known_client:
  assumes "leases_ok s" "lease_of s chaddr = Some ip"
  shows "ac_lookup_mac chaddr s = ip" "ip \<noteq> CLIENT_IP_NOT_FOUND"
proof -
  show "ac_lookup_mac chaddr s = ip" by (simp add: lookup_mac_lease [OF assms(1)] assms(2))
  show "ip \<noteq> CLIENT_IP_NOT_FOUND"
    using assignable_nonzero [OF lease_assignable [OF assms]] by (simp add: CLIENT_IP_NOT_FOUND_def)
qed

lemma lease_None: "lease_of s chaddr = None \<longleftrightarrow> chaddr \<notin> client_mac ` set (cached s)"
  by (force simp: lease_of_def map_of_eq_None_iff)

text \<open>\<open>assignable\<close> looks at the two addresses of the server only.\<close>

lemma assignable_cong [simp]:
  "assignable ip (s\<lparr>current_ip := c\<rparr>) = assignable ip s" "assignable ip (s\<lparr>client_ip := c\<rparr>) = assignable ip s"
  "assignable ip (s\<lparr>msg := b\<rparr>) = assignable ip s"
  "assignable ip (s\<lparr>ip_mac_mapping := l, count_clients := n\<rparr>) = assignable ip s"
  "assignable ip (s\<lparr>sock := k\<rparr>) = assignable ip s" "assignable ip (s\<lparr>ctrlsock := k\<rparr>) = assignable ip s"
  by (simp_all add: assignable_def)

lemma cached_cong [simp]:
  "cached (s\<lparr>current_ip := c\<rparr>) = cached s" "cached (s\<lparr>client_ip := c\<rparr>) = cached s" "cached (s\<lparr>msg := b\<rparr>) = cached s"
  "cached (s\<lparr>sock := k\<rparr>) = cached s" "cached (s\<lparr>ctrlsock := k\<rparr>) = cached s"
  by (simp_all add: cached_def)

lemma leases_ok_cong [simp]:
  "leases_ok (s\<lparr>current_ip := c\<rparr>) = leases_ok s" "leases_ok (s\<lparr>client_ip := c\<rparr>) = leases_ok s"
  "leases_ok (s\<lparr>msg := b\<rparr>) = leases_ok s" "leases_ok (s\<lparr>sock := k\<rparr>) = leases_ok s"
  "leases_ok (s\<lparr>ctrlsock := k\<rparr>) = leases_ok s"
  by (simp_all add: leases_ok_def)

lemma lookup_cong [simp]:
  "ac_lookup_mac h (s\<lparr>current_ip := c\<rparr>) = ac_lookup_mac h s" "ac_lookup_mac h (s\<lparr>client_ip := c\<rparr>) = ac_lookup_mac h s"
  "ac_lookup_mac h (s\<lparr>msg := b\<rparr>) = ac_lookup_mac h s"
  by (simp_all add: ac_lookup_mac_def)

lemma valid_cong [simp]:
  "ac_valid_ip ip (s\<lparr>current_ip := c\<rparr>) = ac_valid_ip ip s" "ac_valid_ip ip (s\<lparr>client_ip := c\<rparr>) = ac_valid_ip ip s"
  "ac_valid_ip ip (s\<lparr>msg := b\<rparr>) = ac_valid_ip ip s"
  by (simp_all add: ac_valid_ip_def ac_lookup_ip_def)

lemma cached_added:
  assumes "leases_ok s" "ac_not_full s"
  shows "cached (snd (ac_add chaddr ip s)) = cached s @ [\<lparr>client_mac = chaddr, cached_ip = ip\<rparr>]"
proof -
  have "take (Suc n) (l[n := x]) = take n l @ [x]" if "n < length l" for n and l :: "client_mac_cache list" and x
    using that by (simp add: take_Suc_conv_app_nth)
  then show ?thesis
    using assms by (simp add: ac_add_def cached_def leases_ok_def ac_not_full_def min_def)
qed

lemma added_ok:
  assumes "leases_ok s" "assignable ip s" "lease_of s chaddr = None" "ip \<notin> cached_ip ` set (cached s)"
  shows "leases_ok (snd (ac_add chaddr ip s))"
proof (cases "ac_not_full s")
  case True
  note cs = cached_added [OF assms(1) True, of chaddr ip]
  have same: "assignable i (snd (ac_add chaddr ip s)) = assignable i s" for i by (simp add: ac_add_def)
  have "length (ip_mac_mapping (snd (ac_add chaddr ip s))) = MAC_IP_CACHE_SIZE"
    "count_clients (snd (ac_add chaddr ip s)) \<le> MAC_IP_CACHE_SIZE"
    using assms(1) True by (simp_all add: ac_add_def leases_ok_def ac_not_full_def)
  then show ?thesis
    using assms unfolding leases_ok_def cs same by (auto simp: lease_None)
next
  case False
  with assms(1) show ?thesis by (simp add: ac_add_def)
qed

lemma lease_added:
  assumes "leases_ok s" "ac_not_full s" "lease_of s chaddr = None"
  shows "lease_of (snd (ac_add chaddr ip s)) = (lease_of s)(chaddr \<mapsto> ip)"
proof -
  have "map_of (xs @ [(chaddr, ip)]) = (map_of xs)(chaddr \<mapsto> ip)" if "map_of xs chaddr = None" for xs :: "(u8 list \<times> u32) list"
    using that by (auto simp: map_add_def split: option.split)
  then show ?thesis
    using assms(3) unfolding lease_of_def cached_added [OF assms(1,2)] by simp
qed

section \<open>The search for an address\<close>

lemma advance_frame [simp]:
  "my_ip (advance_ip s) = my_ip s" "netmask (advance_ip s) = netmask s" "cached (advance_ip s) = cached s"
  "ac_valid_ip ip (advance_ip s) = ac_valid_ip ip s" "leases_ok (advance_ip s) = leases_ok s"
  "assignable ip (advance_ip s) = assignable ip s" "ac_not_full (advance_ip s) = ac_not_full s"
  "lease_of (advance_ip s) = lease_of s" "sock (advance_ip s) = sock s" "client_ip (advance_ip s) = client_ip s"
  "nack_dns (advance_ip s) = nack_dns s" "address_timeout (advance_ip s) = address_timeout s" "msg (advance_ip s) = msg s"
  by (simp_all add: advance_ip_def ac_not_full_def lease_of_def)

lemma advanced_in_subnet:
  "htonl (current_ip (advance_ip s)) AND netmask s = my_ip s AND netmask s"
proof -
  have "htonl (current_ip (advance_ip s)) = (my_ip s AND netmask s) OR (htonl (current_ip s + 1) AND NOT (netmask s))"
    by (simp add: advance_ip_def ntohl_def htonl_or htonl_and htonl_not)
  then show ?thesis
    by (simp only:) (rule bit_word_eqI, auto simp: bit_simps)
qed

lemma first_valid_reaches:
  assumes "first_valid s = Some r"
  shows "\<exists>k. r = (advance_ip ^^ k) s \<and> ac_valid_ip (current_ip r) r"
  using _ assms
proof (rule first_valid.raw_induct)
  fix first s r
  assume 1: "\<And>s r. first s = Some r \<Longrightarrow> \<exists>k. r = (advance_ip ^^ k) s \<and> ac_valid_ip (current_ip r) r"
    "(if ac_valid_ip (current_ip s) s then Some s else first (advance_ip s)) = Some r"
  show "\<exists>k. r = (advance_ip ^^ k) s \<and> ac_valid_ip (current_ip r) r"
  proof (cases "ac_valid_ip (current_ip s) s")
    case True
    with 1(2) show ?thesis by (intro exI [of _ 0]) simp
  next
    case False
    with 1(2) have "first (advance_ip s) = Some r" by simp
    with 1(1) obtain k where "r = (advance_ip ^^ k) (advance_ip s)" "ac_valid_ip (current_ip r) r" by blast
    then show ?thesis by (intro exI [of _ "Suc k"]) (simp add: funpow_Suc_right del: funpow.simps)
  qed
qed

lemma advance_powers [simp]:
  "my_ip ((advance_ip ^^ k) s) = my_ip s" "netmask ((advance_ip ^^ k) s) = netmask s"
  "cached ((advance_ip ^^ k) s) = cached s" "ac_valid_ip ip ((advance_ip ^^ k) s) = ac_valid_ip ip s"
  "leases_ok ((advance_ip ^^ k) s) = leases_ok s" "assignable ip ((advance_ip ^^ k) s) = assignable ip s"
  "ac_not_full ((advance_ip ^^ k) s) = ac_not_full s" "lease_of ((advance_ip ^^ k) s) = lease_of s"
  "sock ((advance_ip ^^ k) s) = sock s" "client_ip ((advance_ip ^^ k) s) = client_ip s"
  "nack_dns ((advance_ip ^^ k) s) = nack_dns s" "address_timeout ((advance_ip ^^ k) s) = address_timeout s"
  "msg ((advance_ip ^^ k) s) = msg s"
  by (induction k) simp_all

lemma first_valid_found:
  "ac_valid_ip (current_ip ((advance_ip ^^ k) s)) s \<Longrightarrow> \<exists>r. first_valid s = Some r"
proof (induction k arbitrary: s)
  case 0
  then show ?case by (subst first_valid.simps) simp
next
  case (Suc k)
  then have "ac_valid_ip (current_ip ((advance_ip ^^ k) (advance_ip s))) (advance_ip s)"
    by (simp add: funpow_swap1)
  with Suc.IH obtain r where "first_valid (advance_ip s) = Some r" by blast
  then show ?case by (subst first_valid.simps) simp
qed

text \<open>The mask is a run of ones, then zeros, and the search runs through all host numbers.\<close>

definition host_bits :: "dhcp_server_data \<Rightarrow> nat \<Rightarrow> bool" where
  "host_bits s h \<longleftrightarrow> ntohl (NOT (netmask s)) = mask h"

lemma advance_nth:
  assumes "host_bits s h"
  shows "current_ip ((advance_ip ^^ Suc k) s) =
    ntohl (my_ip s AND netmask s) OR take_bit h (current_ip s + of_nat (Suc k))"
proof (induction k)
  case 0
  show ?case using assms by (simp add: advance_ip_def host_bits_def take_bit_eq_mask ac_simps)
next
  case (Suc k)
  let ?b = "ntohl (my_ip s AND netmask s)" and ?n = "current_ip s + of_nat (Suc k)"
  have clear: "take_bit h ?b = 0"
  proof (rule bit_word_eqI)
    fix n assume "n < LENGTH(32)"
    have "bit (mask h :: u32) n \<longleftrightarrow> bit (NOT (ntohl (netmask s))) n"
      using assms by (simp add: host_bits_def ntohl_def htonl_not)
    then show "bit (take_bit h ?b) n = bit 0 n"
      using \<open>n < LENGTH(32)\<close> by (auto simp: bit_simps ntohl_def htonl_and)
  qed
  have low: "take_bit h (?b OR take_bit h ?n) = take_bit h ?n"
    using clear by (simp add: take_bit_or)
  have "take_bit h ((?b OR take_bit h ?n) + 1) = take_bit h (take_bit h (?b OR take_bit h ?n) + 1)"
    unfolding take_bit_eq_mask mask_eqs(1) by (rule refl)
  also have "\<dots> = take_bit h (?n + 1)"
    by (subst low) (simp only: take_bit_eq_mask mask_eqs(1))
  also have "?n + 1 = current_ip s + of_nat (Suc (Suc k))" by simp
  finally have next_host: "take_bit h ((?b OR take_bit h ?n) + 1) = take_bit h (current_ip s + of_nat (Suc (Suc k)))" .
  have "current_ip ((advance_ip ^^ Suc (Suc k)) s) = current_ip (advance_ip ((advance_ip ^^ Suc k) s))"
    by (simp only: funpow.simps comp_apply)
  also have "\<dots> = ?b OR take_bit h (current_ip ((advance_ip ^^ Suc k) s) + 1)"
    unfolding advance_ip_def [of "(advance_ip ^^ Suc k) s"] using assms
    by (simp only: advance_powers host_bits_def take_bit_eq_mask) simp
  also have "\<dots> = ?b OR take_bit h (current_ip s + of_nat (Suc (Suc k)))"
    unfolding Suc next_host by (rule refl)
  finally show ?case .
qed

lemma cached_ips:
  assumes "leases_ok s"
  shows "cached_ip ` set (cached s) = ran (lease_of s)"
proof -
  have "distinct (map fst (map (\<lambda>e. (client_mac e, cached_ip e)) (cached s)))"
    using assms by (simp add: leases_ok_def comp_def)
  then show ?thesis
    unfolding lease_of_def by (simp only: ran_distinct) (force simp: image_iff)
qed

lemma host_address:
  assumes "host_bits s h" "ip AND netmask s = my_ip s AND netmask s"
  shows "ntohl (my_ip s AND netmask s) OR take_bit h (ntohl ip) = ntohl ip"
proof -
  have mask: "mask h = NOT (ntohl (netmask s))"
    using assms(1) by (simp add: host_bits_def ntohl_def htonl_not)
  show ?thesis
    unfolding take_bit_eq_mask mask assms(2) [symmetric] ntohl_def htonl_and
    by (rule bit_word_eqI) (auto simp: bit_simps)
qed

lemma search_ends:
  assumes "leases_ok s" "host_bits s h" "assignable ip s" "ip \<notin> ran (lease_of s)"
  shows "\<exists>r. first_valid (advance_ip s) = Some r"
proof -
  define k where "k = unat (ntohl ip - current_ip s - 1)"
  have subnet: "ip AND netmask s = my_ip s AND netmask s" using assms(3) by (simp add: assignable_def)
  have "current_ip s + of_nat (Suc k) = ntohl ip" by (simp add: k_def)
  then have "current_ip ((advance_ip ^^ k) (advance_ip s)) = ntohl ip"
    using advance_nth [OF assms(2), of k] host_address [OF assms(2) subnet]
    by (simp add: funpow_Suc_right del: funpow.simps)
  moreover have "ac_valid_ip (ntohl ip) s"
    using assms subnet by (simp add: ac_valid_iff cached_ips)
  ultimately show ?thesis
    by (intro first_valid_found [of k]) simp
qed

lemma search_result:
  assumes "leases_ok s" "first_valid (advance_ip s) = Some r"
  shows "assignable (htonl (current_ip r)) s \<and> htonl (current_ip r) \<notin> ran (lease_of s) \<and>
    (\<exists>k. r = (advance_ip ^^ k) s)"
proof -
  obtain k where k: "r = (advance_ip ^^ k) (advance_ip s)" "ac_valid_ip (current_ip r) r"
    using first_valid_reaches [OF assms(2)] by blast
  then have r: "r = advance_ip ((advance_ip ^^ k) s)" "r = (advance_ip ^^ Suc k) s" by (simp_all add: funpow_swap1)
  have "htonl (current_ip r) AND netmask s = my_ip s AND netmask s"
    using advanced_in_subnet [of "(advance_ip ^^ k) s"] r(1) by simp
  moreover have "ac_valid_ip (ntohl (htonl (current_ip r))) s" using k(2) r(1) by (simp add: ntohl_def)
  ultimately show ?thesis
    using ac_valid_iff [of "htonl (current_ip r)" s] assms(1) r(2) by (auto simp: cached_ips simp del: funpow.simps)
qed

lemma choice_exists:
  assumes "leases_ok s" "host_bits s h"
    "lease_of s chaddr \<noteq> None \<or> (\<exists>ip. assignable ip s \<and> ip \<notin> ran (lease_of s))"
  shows "\<exists>r. next_yiaddr chaddr s = Some r"
proof (cases "lease_of s chaddr")
  case None
  then have "ac_lookup_mac chaddr s = CLIENT_IP_NOT_FOUND" using unknown_client assms(1) by blast
  moreover obtain r where "first_valid (advance_ip s) = Some r" using None assms search_ends by blast
  ultimately show ?thesis by (simp add: next_yiaddr_def Let_def)
next
  case (Some ip)
  from known_client [OF assms(1) this] show ?thesis by (simp add: next_yiaddr_def)
qed

lemma choice_is:
  assumes "leases_ok s" "next_yiaddr chaddr s = Some (ip, s1)"
  shows "lease_of s chaddr = Some ip \<or> lease_of s chaddr = None \<and> assignable ip s \<and> ip \<notin> ran (lease_of s)"
proof (cases "lease_of s chaddr")
  case None
  then have "ac_lookup_mac chaddr s = CLIENT_IP_NOT_FOUND" using unknown_client assms(1) by blast
  with assms(2) obtain r where "first_valid (advance_ip s) = Some r" "ip = htonl (current_ip r)"
    by (auto simp: next_yiaddr_def Let_def split: option.splits)
  with search_result [OF assms(1)] None show ?thesis by blast
next
  case (Some i)
  from known_client [OF assms(1) this] assms(2) Some show ?thesis by (simp add: next_yiaddr_def)
qed

text \<open>What the later steps need of a choice.\<close>

lemma next_yiaddr_chosen:
  assumes "leases_ok s" "next_yiaddr chaddr s = Some (ip, s1)"
  shows "leases_ok s1" "my_ip s1 = my_ip s" "netmask s1 = netmask s" "client_ip s1 = client_ip s" "sock s1 = sock s"
    "nack_dns s1 = nack_dns s" "address_timeout s1 = address_timeout s" "msg s1 = msg s" "assignable ip s"
    "lease_of s1 = (if ac_not_full s then (lease_of s)(chaddr \<mapsto> ip) else lease_of s)"
    "\<not> ac_not_full s \<Longrightarrow> \<not> ac_not_full s1"
proof -
  let ?goal = "leases_ok s1 \<and> my_ip s1 = my_ip s \<and> netmask s1 = netmask s \<and> client_ip s1 = client_ip s \<and> sock s1 = sock s \<and>
    nack_dns s1 = nack_dns s \<and> address_timeout s1 = address_timeout s \<and> msg s1 = msg s \<and> assignable ip s \<and>
    lease_of s1 = (if ac_not_full s then (lease_of s)(chaddr \<mapsto> ip) else lease_of s) \<and>
    (\<not> ac_not_full s \<longrightarrow> \<not> ac_not_full s1)"
  have ?goal
  proof (cases "lease_of s chaddr")
    case None
    then have "ac_lookup_mac chaddr s = CLIENT_IP_NOT_FOUND" using unknown_client assms(1) by blast
    with assms(2) obtain r where r: "first_valid (advance_ip s) = Some r" "ip = htonl (current_ip r)"
        "s1 = snd (ac_add chaddr ip r)"
      by (auto simp: next_yiaddr_def Let_def split: option.splits)
    with search_result [OF assms(1) r(1)] obtain k where k: "r = (advance_ip ^^ k) s" "assignable ip s" "ip \<notin> ran (lease_of s)"
      by blast
    have old: "leases_ok r" "assignable ip r" "lease_of r chaddr = None" "ip \<notin> cached_ip ` set (cached r)" "ac_not_full r = ac_not_full s"
      using k assms(1) None by (simp_all add: cached_ips)
    have frame: "my_ip s1 = my_ip r \<and> netmask s1 = netmask r \<and> client_ip s1 = client_ip r \<and> sock s1 = sock r \<and>
        nack_dns s1 = nack_dns r \<and> address_timeout s1 = address_timeout r \<and> msg s1 = msg r"
      unfolding r(3) by (simp add: ac_add_def)
    have "leases_ok s1" unfolding r(3) by (rule added_ok [OF old(1-4)])
    moreover have "lease_of s1 = (lease_of s)(chaddr \<mapsto> ip)" if "ac_not_full s"
      using lease_added [OF old(1) _ old(3), of ip] that old(5) k(1) unfolding r(3) by simp
    moreover have "s1 = r" if "\<not> ac_not_full s"
      using that old(5) unfolding r(3) by (simp add: ac_add_def)
    ultimately show ?thesis using frame k(1,2) None by auto
  next
    case (Some i)
    then have "ac_lookup_mac chaddr s = i" "i \<noteq> CLIENT_IP_NOT_FOUND"
      using known_client [OF assms(1)] by blast+
    with assms(2) have "s1 = s" "ip = i" by (simp_all add: next_yiaddr_def)
    with Some assms(1) lease_assignable show ?thesis by (auto simp: map_upd_triv)
  qed
  then show "leases_ok s1" "my_ip s1 = my_ip s" "netmask s1 = netmask s" "client_ip s1 = client_ip s" "sock s1 = sock s"
    "nack_dns s1 = nack_dns s" "address_timeout s1 = address_timeout s" "msg s1 = msg s" "assignable ip s"
    "lease_of s1 = (if ac_not_full s then (lease_of s)(chaddr \<mapsto> ip) else lease_of s)"
    "\<not> ac_not_full s \<Longrightarrow> \<not> ac_not_full s1"
    by blast+
qed

section \<open>Every message keeps the leases in order\<close>

lemma option_lease_ok:
  assumes "leases_ok s" "option_lease chaddr (w, s) = (w1, s1)"
  shows "leases_ok s1 \<and> my_ip s1 = my_ip s \<and> netmask s1 = netmask s \<and> client_ip s1 = client_ip s \<and> msg s1 = msg s"
proof -
  have "leases_ok (snd (ac_add chaddr (client_ip s) s))"
    if "client_ip s AND netmask s = my_ip s AND netmask s" "ac_lookup_mac chaddr s = CLIENT_IP_NOT_FOUND"
      "ac_valid_ip (ntohl (client_ip s)) s"
    using that assms(1) by (intro added_ok) (simp_all add: ac_valid_iff unknown_client)
  moreover have "my_ip (snd (ac_add chaddr i s)) = my_ip s" "netmask (snd (ac_add chaddr i s)) = netmask s"
    "client_ip (snd (ac_add chaddr i s)) = client_ip s" "msg (snd (ac_add chaddr i s)) = msg s" for i
    by (simp_all add: ac_add_def)
  ultimately show ?thesis
    using assms by (auto simp: option_lease_def Let_def split: if_splits)
qed

lemma process_option_ok:
  assumes "leases_ok s" "process_option m off (w, s) = (w1, s1)"
  shows "leases_ok s1 \<and> my_ip s1 = my_ip s \<and> netmask s1 = netmask s \<and> msg s1 = msg s"
proof -
  obtain w2 s2 where read: "option_requested m off (option_message m off (w, s)) = (w2, s2)" by (metis surj_pair)
  then have "\<exists>c. s2 = s\<lparr>client_ip := c\<rparr>"
    by (auto simp: option_requested_def option_message_def split: if_splits) (metis dhcp_server_data.surjective dhcp_server_data.update_convs(9))+
  with assms(1) have s2: "leases_ok s2" "my_ip s2 = my_ip s" "netmask s2 = netmask s" "msg s2 = msg s" by auto
  obtain w3 s3 where lease: "option_lease (hdr_chaddr m) (w2, s2) = (w3, s3)" by (metis surj_pair)
  with assms(2) read have "s1 = s3" by (simp add: process_option_def)
  with option_lease_ok [OF s2(1) lease] s2 show ?thesis by simp
qed

lemma option_walk_ok:
  "option_walk m off len (w, s) = Ret (w1, s1) \<Longrightarrow> leases_ok s \<Longrightarrow>
   leases_ok s1 \<and> my_ip s1 = my_ip s \<and> netmask s1 = netmask s \<and> msg s1 = msg s"
proof (induction m off len "(w, s)" arbitrary: w s rule: option_walk.induct)
  case (1 m off len)
  obtain w2 s2 where p: "process_option m off (w, s) = (w2, s2)" by (metis surj_pair)
  show ?case
  proof (cases "len \<le> 0 \<or> length m \<le> off \<or> m ! off = BOOTP_END_OPTION \<or> \<not> option_in_buffer m off")
    case True
    with 1(2,3) show ?thesis by (auto simp: option_walk.simps [of m off] split: if_splits)
  next
    case False
    with 1(2) p have "option_walk m (off + (2 + unat (m ! (off + 1)))) (len - int (2 + unat (m ! (off + 1)))) (w2, s2) = Ret (w1, s1)"
      by (simp add: option_walk.simps [of m off] Let_def)
    with 1(1) False p process_option_ok [OF 1(3) p] show ?thesis by auto
  qed
qed

end
