(* ===== verification/Dhcp_Exchange.thy ===== *)
theory Dhcp_Exchange
  imports Dhcp_Lease
begin

unbundle bit_operations_syntax

text \<open>
  The DHCP server as a client meets it: the bytes of a reply read back, the exchange of a discovery, an offer, a request
  and an acknowledgement, and the same request from two clients when the cache is full.
\<close>

section \<open>The bytes of a reply\<close>

text \<open>A reader of options: type, length, value, up to the end option or the end of the bytes.\<close>

function tlv :: "u8 list \<Rightarrow> (u8 \<times> u8 list) list" where
  "tlv (t # n # bs) = (if t = BOOTP_END_OPTION then [] else (t, take (unat n) bs) # tlv (drop (unat n) bs))"
| "tlv [] = []"
| "tlv [t] = []"
  by pat_completeness auto
termination
  by (relation "measure length") auto

record reply =
  reply_op :: u8
  reply_xid :: "u8 list"
  reply_yiaddr :: u32
  reply_chaddr :: "u8 list"
  reply_options :: "(u8 \<times> u8 list) list"

definition read_reply :: "u8 list \<Rightarrow> reply" where
  "read_reply m = \<lparr>reply_op = hdr_op m, reply_xid = take 4 (drop 4 m), reply_yiaddr = hdr_yiaddr m,
     reply_chaddr = hdr_chaddr m, reply_options = tlv (drop BOOTP_HEADER_SIZE m)\<rparr>"

text \<open>What a reply of the server says, address by address.\<close>

definition lease_options :: "dhcp_server_data \<Rightarrow> (u8 \<times> u8 list) list" where
  "lease_options s =
     [(BOOTP_OPTION_SUBNET_MASK, word_bytes (netmask s)),
      (BOOTP_OPTION_ADDRESS_TIME, word_bytes (htonl (address_timeout s))),
      (BOOTP_OPTION_DHCP_SERVER_ID, word_bytes (my_ip s)), (BOOTP_OPTION_ROUTER, word_bytes (my_ip s)),
      (BOOTP_OPTION_NAMESERVER, word_bytes (if nack_dns s then my_ip s else 0))]"

definition four_bytes :: "u8 \<times> u8 list \<Rightarrow> u8 list" where
  "four_bytes p = [fst p, 4] @ snd p"

definition server_reply :: "u8 \<Rightarrow> u32 \<Rightarrow> u8 list \<Rightarrow> u8 list \<Rightarrow> dhcp_server_data \<Rightarrow> reply" where
  "server_reply ty yiaddr xid chaddr s =
     \<lparr>reply_op = BOOTP_OP_RESPONSE, reply_xid = xid, reply_yiaddr = yiaddr, reply_chaddr = chaddr,
      reply_options = (BOOTP_OPTION_DHCP_MESSAGE, [ty]) # (if ty = DHCP_MESSAGE_NAK then [] else lease_options s)\<rparr>"

lemma take_blit:
  "off \<le> length m \<Longrightarrow> take (off + length xs) (blit m off xs) = take off m @ xs"
  by (simp add: blit_def)

lemma write_u32_blit: "write_u32 dest v m = blit m dest (word_bytes v)"
proof -
  have low: "ucast (w AND 0xFF) = (ucast w :: u8)" for w :: u32
  proof -
    have mask: "(0xFF :: u32) = mask 8" by (simp add: mask_eq_decr_exp)
    show ?thesis unfolding mask by (rule bit_word_eqI) (auto simp: bit_simps)
  qed
  show ?thesis unfolding write_u32_def word_bytes_def low by (rule refl)
qed

lemma put_option_bytes:
  assumes "take off m = pre" "off + 6 \<le> length m"
  shows "\<exists>m1. put_option ty v (off, m) = (off + 6, m1) \<and> length m1 = length m \<and> take (off + 6) m1 = pre @ [ty, 4] @ word_bytes v"
proof -
  let ?m = "blit m off [ty, 4]"
  have len: "length ?m = length m" using assms(2) by simp
  have "take (off + 2 + 4) (blit ?m (off + 2) (word_bytes v)) = take (off + 2) ?m @ word_bytes v"
    using take_blit [of "off + 2" ?m "word_bytes v"] assms(2) len by simp
  moreover have "take (off + 2) ?m = pre @ [ty, 4]"
    using take_blit [of off m "[ty, 4]"] assms by simp
  moreover have "length (blit ?m (off + 2) (word_bytes v)) = length m"
    using assms(2) len by (subst length_blit) simp_all
  ultimately show ?thesis
    by (simp add: put_option_def write_u32_blit add.commute)
qed

lemma take_Suc_update: "n < length l \<Longrightarrow> take (Suc n) (l[n := x]) = take n l @ [x]"
  by (simp add: take_Suc_conv_app_nth)

lemma response_options_bytes:
  assumes "length m = SERVER_BUFFER_SIZE"
  shows "\<exists>n m1. response_options ty s m = (n, m1) \<and> length m1 = SERVER_BUFFER_SIZE \<and> 0 < n \<and>
    take n m1 = take BOOTP_HEADER_SIZE m @ [BOOTP_OPTION_DHCP_MESSAGE, 1, ty] @
      (if ty = DHCP_MESSAGE_NAK then []
       else concat (map four_bytes (lease_options s)) @ [BOOTP_END_OPTION])"
proof (cases "ty = DHCP_MESSAGE_NAK")
  case True
  have "take (240 + 3) (blit m 240 [BOOTP_OPTION_DHCP_MESSAGE, 1, ty]) = take 240 m @ [BOOTP_OPTION_DHCP_MESSAGE, 1, ty]"
    using take_blit [of 240 m "[BOOTP_OPTION_DHCP_MESSAGE, 1, ty]"] assms by (simp add: SERVER_BUFFER_SIZE_def)
  with True assms show ?thesis
    by (simp add: response_options_def Let_def BOOTP_HEADER_SIZE_def SERVER_BUFFER_SIZE_def)
next
  case False
  define pre where "pre = take 240 m @ [BOOTP_OPTION_DHCP_MESSAGE, 1, ty]"
  define a where "a = blit m 240 [BOOTP_OPTION_DHCP_MESSAGE, 1, ty]"
  have a: "take 243 a = pre" "length a = 1024"
    using take_blit [of 240 m "[BOOTP_OPTION_DHCP_MESSAGE, 1, ty]"] assms by (simp_all add: a_def pre_def SERVER_BUFFER_SIZE_def)
  define b where "b = put_option BOOTP_OPTION_SUBNET_MASK (netmask s) (243, a)"
  obtain b1 where b: "b = (249, b1)" "length b1 = 1024" "take 249 b1 = pre @ [BOOTP_OPTION_SUBNET_MASK, 4] @ word_bytes (netmask s)"
    using put_option_bytes [OF a(1), of BOOTP_OPTION_SUBNET_MASK "netmask s"] a(2) by (auto simp: b_def)
  define c where "c = put_option BOOTP_OPTION_ADDRESS_TIME (htonl (address_timeout s)) b"
  obtain c1 where c: "c = (255, c1)" "length c1 = 1024"
      "take 255 c1 = (pre @ [BOOTP_OPTION_SUBNET_MASK, 4] @ word_bytes (netmask s)) @
         [BOOTP_OPTION_ADDRESS_TIME, 4] @ word_bytes (htonl (address_timeout s))"
    using put_option_bytes [OF b(3), of BOOTP_OPTION_ADDRESS_TIME "htonl (address_timeout s)"] b(1,2) by (auto simp: c_def)
  define d where "d = put_option BOOTP_OPTION_DHCP_SERVER_ID (my_ip s) c"
  obtain d1 where d: "d = (261, d1)" "length d1 = 1024"
      "take 261 d1 = ((pre @ [BOOTP_OPTION_SUBNET_MASK, 4] @ word_bytes (netmask s)) @
         [BOOTP_OPTION_ADDRESS_TIME, 4] @ word_bytes (htonl (address_timeout s))) @
         [BOOTP_OPTION_DHCP_SERVER_ID, 4] @ word_bytes (my_ip s)"
    using put_option_bytes [OF c(3), of BOOTP_OPTION_DHCP_SERVER_ID "my_ip s"] c(1,2) by (auto simp: d_def)
  define e where "e = put_option BOOTP_OPTION_ROUTER (my_ip s) d"
  obtain e1 where e: "e = (267, e1)" "length e1 = 1024"
      "take 267 e1 = (((pre @ [BOOTP_OPTION_SUBNET_MASK, 4] @ word_bytes (netmask s)) @
         [BOOTP_OPTION_ADDRESS_TIME, 4] @ word_bytes (htonl (address_timeout s))) @
         [BOOTP_OPTION_DHCP_SERVER_ID, 4] @ word_bytes (my_ip s)) @ [BOOTP_OPTION_ROUTER, 4] @ word_bytes (my_ip s)"
    using put_option_bytes [OF d(3), of BOOTP_OPTION_ROUTER "my_ip s"] d(1,2) by (auto simp: e_def)
  define f where "f = put_option BOOTP_OPTION_NAMESERVER (if nack_dns s then my_ip s else 0) e"
  obtain f1 where f: "f = (273, f1)" "length f1 = 1024"
      "take 273 f1 = pre @ concat (map four_bytes (lease_options s))"
    using put_option_bytes [OF e(3), of BOOTP_OPTION_NAMESERVER "if nack_dns s then my_ip s else 0"] e(1,2)
    by (auto simp: f_def lease_options_def four_bytes_def)
  have "response_options ty s m = (274, f1[273 := BOOTP_END_OPTION])"
    using False f(1) by (simp add: response_options_def Let_def BOOTP_HEADER_SIZE_def a_def b_def c_def d_def e_def f_def)
  moreover have "take (Suc 273) (f1[273 := BOOTP_END_OPTION]) = take 273 f1 @ [BOOTP_END_OPTION]"
    using f(2) by (intro take_Suc_update) simp
  ultimately show ?thesis
    using False f(2,3) by (simp add: SERVER_BUFFER_SIZE_def BOOTP_HEADER_SIZE_def pre_def)
qed

lemma response_header_bytes:
  assumes "length m = SERVER_BUFFER_SIZE"
  shows "take BOOTP_HEADER_SIZE (response_header y m) =
      [BOOTP_OP_RESPONSE, 1, 6, 0] @ take 8 (drop 4 m) @ word_bytes 0 @ word_bytes y @ word_bytes 0 @ word_bytes 0 @
      take 212 (drop 28 m)" (is "?l = ?r")
    "length (response_header y m) = SERVER_BUFFER_SIZE"
proof -
  define a b c d where "a = take 4 m" and "b = take 8 (drop 4 m)" and "c = take 16 (drop 12 m)" and "d = drop 28 m"
  have "m = a @ drop 4 m" by (simp add: a_def)
  also have "drop 4 m = b @ drop 12 m" using append_take_drop_id [of 8 "drop 4 m"] by (simp add: b_def)
  also have "drop 12 m = c @ d" using append_take_drop_id [of 16 "drop 12 m"] by (simp add: c_def d_def)
  finally have m: "m = a @ b @ c @ d" .
  have len: "length a = 4" "length b = 8" "length c = 16" "length d = 996"
    using assms by (simp_all add: a_def b_def c_def d_def SERVER_BUFFER_SIZE_def)
  have first: "blit (a @ b @ c @ d) 0 [BOOTP_OP_RESPONSE, 1, 6, 0] = [BOOTP_OP_RESPONSE, 1, 6, 0] @ b @ c @ d"
    using len by (simp add: blit_def)
  have "response_header y m = ([BOOTP_OP_RESPONSE, 1, 6, 0] @ b) @ (word_bytes 0 @ word_bytes y @ word_bytes 0 @ word_bytes 0) @ d"
    unfolding response_header_def m first using len by (simp add: blit_def word_bytes_def)
  then show "?l = ?r" "length (response_header y m) = SERVER_BUFFER_SIZE"
    using len by (simp_all add: BOOTP_HEADER_SIZE_def SERVER_BUFFER_SIZE_def b_def [symmetric] d_def [symmetric])
qed

lemma tlv_option [simp]:
  "t \<noteq> BOOTP_END_OPTION \<Longrightarrow> tlv ([t, 4] @ word_bytes v @ bs) = (t, word_bytes v) # tlv bs"
  by (simp add: word_bytes_def)

lemma tlv_lease: "tlv (concat (map four_bytes (lease_options s)) @ [BOOTP_END_OPTION]) = lease_options s"
  by (simp add: lease_options_def four_bytes_def BOOTP_END_OPTION_def BOOTP_OPTION_SUBNET_MASK_def BOOTP_OPTION_ADDRESS_TIME_def
      BOOTP_OPTION_DHCP_SERVER_ID_def BOOTP_OPTION_ROUTER_def BOOTP_OPTION_NAMESERVER_def word_bytes_def)

lemma make_response_reads:
  assumes "length m = SERVER_BUFFER_SIZE" "make_response ty m s = Some (n, m1, s1)"
  shows "length m1 = SERVER_BUFFER_SIZE \<and> take n m1 \<noteq> [] \<and> msg s1 = Some m1 \<and>
    (\<exists>y s2. (if ty = DHCP_MESSAGE_OFFER then next_yiaddr (hdr_chaddr m) s
            else Some (if ty = DHCP_MESSAGE_ACK then client_ip s else 0, s)) = Some (y, s2) \<and> s1 = s2\<lparr>msg := Some m1\<rparr> \<and>
       read_reply (take n m1) = server_reply ty y (take 4 (drop 4 m)) (hdr_chaddr m) s2)"
proof -
  obtain y s2 where y: "(if ty = DHCP_MESSAGE_OFFER then next_yiaddr (hdr_chaddr m) s
      else Some (if ty = DHCP_MESSAGE_ACK then client_ip s else 0, s)) = Some (y, s2)"
    and opts: "response_options ty s2 (response_header y m) = (n, m1)" and s1: "s1 = s2\<lparr>msg := Some m1\<rparr>"
    using assms(2) by (auto simp: make_response_def split: option.splits prod.splits)
  note hdr = response_header_bytes [OF assms(1), of y]
  from response_options_bytes [OF hdr(2), of ty s2] opts
  have m1: "length m1 = SERVER_BUFFER_SIZE" "0 < n"
    "take n m1 = take BOOTP_HEADER_SIZE (response_header y m) @ [BOOTP_OPTION_DHCP_MESSAGE, 1, ty] @
      (if ty = DHCP_MESSAGE_NAK then []
       else concat (map four_bytes (lease_options s2)) @ [BOOTP_END_OPTION])" by auto
  define b d where "b = take 8 (drop 4 m)" and "d = take 212 (drop 28 m)"
  define opts where "opts = [BOOTP_OPTION_DHCP_MESSAGE, 1, ty] @
      (if ty = DHCP_MESSAGE_NAK then []
       else concat (map four_bytes (lease_options s2)) @ [BOOTP_END_OPTION])"
  have len: "length b = 8" "length d = 212" using assms(1) by (simp_all add: b_def d_def SERVER_BUFFER_SIZE_def)
  have parts: "take 4 b = take 4 (drop 4 m)" "take 6 d = hdr_chaddr m" by (simp_all add: b_def d_def hdr_chaddr_def)
  have bytes: "take n m1 = [BOOTP_OP_RESPONSE, 1, 6, 0] @ b @ word_bytes 0 @ word_bytes y @ word_bytes 0 @ word_bytes 0 @ d @ opts"
    unfolding m1(3) hdr(1) b_def d_def opts_def by simp
  have "tlv opts = (BOOTP_OPTION_DHCP_MESSAGE, [ty]) # (if ty = DHCP_MESSAGE_NAK then [] else lease_options s2)"
    by (simp add: opts_def tlv_lease) (simp add: BOOTP_END_OPTION_def BOOTP_OPTION_DHCP_MESSAGE_def)
  then have "read_reply (take n m1) = server_reply ty y (take 4 (drop 4 m)) (hdr_chaddr m) s2"
    unfolding bytes read_reply_def server_reply_def
    using len parts by (simp add: hdr_op_def hdr_yiaddr_def hdr_chaddr_def BOOTP_HEADER_SIZE_def)
  moreover have "take n m1 \<noteq> []" unfolding bytes by simp
  ultimately show ?thesis using y s1 m1(1) by auto
qed

section \<open>The lease table through whole runs\<close>

definition has_buffer :: "dhcp_server_data \<Rightarrow> bool" where
  "has_buffer s \<longleftrightarrow> (\<forall>m. msg s = Some m \<longrightarrow> length m = SERVER_BUFFER_SIZE)"

lemma make_response_ok:
  assumes "leases_ok s" "length m = SERVER_BUFFER_SIZE" "make_response ty m s = Some (n, m1, s1)"
  shows "leases_ok s1 \<and> has_buffer s1"
proof -
  from make_response_reads [OF assms(2,3)] obtain y s2 where r: "length m1 = SERVER_BUFFER_SIZE" "msg s1 = Some m1"
      "(if ty = DHCP_MESSAGE_OFFER then next_yiaddr (hdr_chaddr m) s
        else Some (if ty = DHCP_MESSAGE_ACK then client_ip s else 0, s)) = Some (y, s2)" "s1 = s2\<lparr>msg := Some m1\<rparr>"
    by auto
  have "leases_ok s2"
    using r(3) assms(1) next_yiaddr_chosen(1) by (auto split: if_splits)
  with r show ?thesis by (simp add: has_buffer_def)
qed

lemma process_message_ok:
  assumes "leases_ok s" "has_buffer s" "process_dhcp_message env len s log = Some (Ret (ret, s1, log1))"
  shows "leases_ok s1 \<and> has_buffer s1"
proof (cases "msg s")
  case None
  with assms show ?thesis by (simp add: process_dhcp_message_def)
next
  case (Some m)
  then have m: "length m = SERVER_BUFFER_SIZE" using assms(2) by (simp add: has_buffer_def)
  consider "s1 = s" | w s2 where "option_walk m BOOTP_HEADER_SIZE (int len - int BOOTP_HEADER_SIZE)
        (\<lparr>response_type = DHCP_NO_RESPONSE, got_ip = False, need_ip = False, got_client_ip = False\<rparr>, s) = Ret (w, s2)"
      "s1 = s2 \<or> (\<exists>ty n m2. make_response ty m s2 = Some (n, m2, s1))"
    using assms(3) Some by (auto simp: process_dhcp_message_def split: if_splits option.splits c_run.splits prod.splits)
  then show ?thesis
  proof cases
    case 1
    with assms show ?thesis by simp
  next
    case 2
    from option_walk_ok [OF 2(1) assms(1)] assms(2) have s2: "leases_ok s2" "has_buffer s2" by (simp_all add: has_buffer_def)
    with 2(2) make_response_ok [OF s2(1) m] show ?thesis by blast
  qed
qed

lemma recv_ok:
  assumes "leases_ok s" "has_buffer s" "recv_into d s = (len, s1)"
  shows "leases_ok s1 \<and> has_buffer s1"
proof -
  have "length (blit m 0 (take SERVER_BUFFER_SIZE d)) = SERVER_BUFFER_SIZE" if "msg s = Some m" for m
    using assms(2) that by (subst length_blit) (simp_all add: has_buffer_def)
  with assms show ?thesis by (auto simp: recv_into_def has_buffer_def)
qed

lemma process_dns_ok:
  assumes "leases_ok s" "has_buffer s" "process_dns_message env len ip s log = Some (Ret (ret, s1, log1))"
  shows "leases_ok s1 \<and> has_buffer s1"
  using assms
  by (auto simp: process_dns_message_def has_buffer_def Let_def half_bytes_def DNS_HEADER_SIZE_def SERVER_BUFFER_SIZE_def
      split: if_splits option.splits)

lemma on_datagram_ok:
  assumes "leases_ok s" "has_buffer s" "on_datagram d handler (s, log) = Some (Ret (s1, log1))"
    "\<And>len s2 ret s3 log3. leases_ok s2 \<Longrightarrow> has_buffer s2 \<Longrightarrow>
      handler len s2 log = Some (Ret (ret, s3, log3)) \<Longrightarrow> leases_ok s3 \<and> has_buffer s3"
  shows "leases_ok s1 \<and> has_buffer s1"
proof (cases d)
  case None
  with assms(1-3) show ?thesis by (simp add: on_datagram_def)
next
  case (Some d)
  obtain len s2 where r: "recv_into d s = (len, s2)" by (metis surj_pair)
  with assms(3) Some have "s1 = s2 \<or> (\<exists>ret. handler len s2 log = Some (Ret (ret, s1, log1)))"
    by (auto simp: on_datagram_def and_then_returns split: if_splits)
  with recv_ok [OF assms(1,2) r] assms(4) show ?thesis by blast
qed

lemma clean_ok:
  "leases_ok s \<Longrightarrow> has_buffer s \<Longrightarrow> dhcp_clean_sockets (s, log) = (s1, log1) \<Longrightarrow> leases_ok s1 \<and> has_buffer s1"
  by (auto simp: dhcp_clean_sockets_def has_buffer_def split: if_splits)

text \<open>The turns of the loop as calls: once the loop is left, the thread does nothing more.\<close>

definition dhcp_step ::
    "lwip_env \<Rightarrow> server_input \<Rightarrow> bool \<times> dhcp_server_data \<times> net_event list
     \<Rightarrow> (bool \<times> dhcp_server_data \<times> net_event list) c_run option" where
  "dhcp_step env i p = (if fst p then Some (Ret p) else dhcp_server_turn env i (snd p))"

lemma halt_turn_ok:
  assumes "leases_ok s" "has_buffer s" "halt_turn d (s, log) = Some (Ret (over, s1, log1))"
  shows "leases_ok s1 \<and> has_buffer s1"
proof (cases d)
  case None
  with assms show ?thesis by (simp add: halt_turn_def)
next
  case (Some d)
  obtain len s2 where r: "recv_into d s = (len, s2)" by (metis surj_pair)
  with assms(3) Some have "s1 = s2 \<or> (\<exists>log2. dhcp_clean_sockets (s2, log) = (s1, log2))"
    by (auto simp: halt_turn_def split: if_splits)
  with recv_ok [OF assms(1,2) r] clean_ok show ?thesis by blast
qed

lemma turn_ok:
  assumes "leases_ok s" "has_buffer s" "dhcp_server_turn env i (s, log) = Some (Ret (over, s1, log1))"
  shows "leases_ok s1 \<and> has_buffer s1"
proof (cases "select_ret i < 0")
  case True
  with assms(3) have "dhcp_clean_sockets (s, log) = (s1, log1)" by (simp add: dhcp_server_turn_def)
  with assms(1,2) show ?thesis by (rule clean_ok)
next
  case False
  let ?dns = "\<lambda>p. if nack_dns (fst p)
      then on_datagram (map_option snd (dns_in i)) (\<lambda>len. process_dns_message env len (fst (the (dns_in i)))) p
      else Some (Ret p)"
  from assms(3) False obtain s2 log2 s3 log3 where
      one: "on_datagram (dhcp_in i) (process_dhcp_message env) (s, log) = Some (Ret (s2, log2))"
    and two: "?dns (s2, log2) = Some (Ret (s3, log3))" and three: "halt_turn (ctrl_in i) (s3, log3) = Some (Ret (over, s1, log1))"
    unfolding dhcp_server_turn_def and_then_returns by (auto simp only: and_then_returns if_False split_paired_Ex)
  have s2: "leases_ok s2" "has_buffer s2"
    using on_datagram_ok [OF assms(1,2) one] process_message_ok by blast+
  have s3: "leases_ok s3 \<and> has_buffer s3"
  proof (cases "nack_dns s2")
    case True
    with two have "on_datagram (map_option snd (dns_in i))
        (\<lambda>len. process_dns_message env len (fst (the (dns_in i)))) (s2, log2) = Some (Ret (s3, log3))" by simp
    then show ?thesis by (rule on_datagram_ok [OF s2]) (rule process_dns_ok)
  next
    case False
    with two s2 show ?thesis by simp
  qed
  with halt_turn_ok [OF _ _ three] show ?thesis by blast
qed

interpretation dhcp_loop: call_machine "dhcp_step env" "\<lambda>p. leases_ok (fst (snd p)) \<and> has_buffer (fst (snd p))" for env
proof
  fix p i p1
  assume "leases_ok (fst (snd p)) \<and> has_buffer (fst (snd p))" "dhcp_step env i p = Some (Ret p1)"
  then show "leases_ok (fst (snd p1)) \<and> has_buffer (fst (snd p1))"
    using turn_ok [of "fst (snd p)" env i "snd (snd p)" "fst p1" "fst (snd p1)" "snd (snd p1)"]
    by (auto simp: dhcp_step_def split: if_splits)
qed

lemma init_ok:
  assumes "dhcp_server_init a old log = (0, s, log1)" "\<forall>m. alloc_msg a = Some m \<longrightarrow> length m = SERVER_BUFFER_SIZE"
  shows "leases_ok s \<and> has_buffer s"
proof -
  have "cached s = []" "length (ip_mac_mapping s) = MAC_IP_CACHE_SIZE" "count_clients s = 0" "msg s = alloc_msg a"
    using assms(1)
    by (auto simp: dhcp_server_init_def dhcps_zero_def cached_def Let_def split: option.splits if_splits prod.splits)
  with assms(2) show ?thesis by (simp add: leases_ok_def has_buffer_def)
qed

section \<open>Messages of a client\<close>

definition client_packet :: "u8 list \<Rightarrow> u8 list \<Rightarrow> u8 list \<Rightarrow> u8 list" where
  "client_packet xid mac opts =
     [BOOTP_OP_REQUEST, 1, 6, 0] @ xid @ replicate 20 0 @ mac @ replicate 202 0 @ [0x63, 0x82, 0x53, 0x63] @ opts @ [BOOTP_END_OPTION]"

definition discover :: "u8 list \<Rightarrow> u8 list \<Rightarrow> u8 list" where
  "discover xid mac = client_packet xid mac [BOOTP_OPTION_DHCP_MESSAGE, 1, DHCP_MESSAGE_DISCOVER]"

definition request :: "u8 list \<Rightarrow> u8 list \<Rightarrow> u32 \<Rightarrow> u8 list" where
  "request xid mac ip =
     client_packet xid mac ([BOOTP_OPTION_DHCP_MESSAGE, 1, DHCP_MESSAGE_REQUEST, BOOTP_OPTION_REQUESTED_IP, 4] @ word_bytes ip)"

definition from_client :: "u8 list \<Rightarrow> server_input" where
  "from_client d = \<lparr>select_ret = 1, dhcp_in = Some d, dns_in = None, ctrl_in = None\<rparr>"

text \<open>lwIP sends what it is given, the whole of it.\<close>

definition sends_all :: "lwip_env \<Rightarrow> bool" where
  "sends_all env \<longleftrightarrow> (\<forall>log k d. sendto_ret env log k d = int (length d))"

lemma send_whole:
  assumes "sends_all env" "d \<noteq> []"
  shows "send_response env k IPADDR_BROADCAST d log =
    Some (0, log @ [Ap_Default_Netif, Sendto k IPADDR_BROADCAST d, Reset_Default_Netif])"
proof -
  have "send_loop env k a d l = Some (True, l @ [Sendto k a d])" for a l
    using assms by (subst send_loop.simps, subst send_loop.simps) (simp add: sends_all_def Let_def)
  then show ?thesis by (simp add: send_response_def Let_def)
qed

lemma packet_reads:
  assumes "length xid = 4" "length mac = 6" "m = client_packet xid mac opts @ rest"
  shows "hdr_op m = BOOTP_OP_REQUEST" "hdr_htype m = 1" "hdr_hlen m = 6" "hdr_ciaddr m = 0" "hdr_chaddr m = mac"
    "take 4 (drop 4 m) = xid" "drop BOOTP_HEADER_SIZE m = opts @ [BOOTP_END_OPTION] @ rest"
    "length (client_packet xid mac opts) = 241 + length opts"
proof -
  have zeros: "replicate 20 (0 :: u8) = replicate 4 0 @ word_bytes 0 @ replicate 12 0"
    by (simp add: word_bytes_def numeral_eq_Suc)
  show "hdr_op m = BOOTP_OP_REQUEST" "hdr_htype m = 1" "hdr_hlen m = 6"
    unfolding assms(3) client_packet_def by (simp_all add: hdr_op_def hdr_htype_def hdr_hlen_def)
  show "hdr_ciaddr m = 0"
    unfolding assms(3) client_packet_def zeros using assms(1,2) by (simp add: hdr_ciaddr_def)
  show "hdr_chaddr m = mac"
    unfolding assms(3) client_packet_def using assms(1,2) by (simp add: hdr_chaddr_def)
  show "take 4 (drop 4 m) = xid"
    unfolding assms(3) client_packet_def using assms(1,2) by simp
  show "drop BOOTP_HEADER_SIZE m = opts @ [BOOTP_END_OPTION] @ rest"
    unfolding assms(3) client_packet_def using assms(1,2) by (simp add: BOOTP_HEADER_SIZE_def)
  show "length (client_packet xid mac opts) = 241 + length opts"
    unfolding client_packet_def using assms(1,2) by simp
qed

text \<open>The walk over the options of a discovery and of a request.\<close>

lemma nth_options: "drop off m = bs \<Longrightarrow> off \<le> length m \<Longrightarrow> m ! (off + i) = bs ! i"
  by (simp add: nth_drop [symmetric])

lemma walk_discover:
  assumes "drop 240 m = [BOOTP_OPTION_DHCP_MESSAGE, 1, DHCP_MESSAGE_DISCOVER, BOOTP_END_OPTION] @ rest"
    "length m = SERVER_BUFFER_SIZE"
  shows "option_walk m 240 4 (\<lparr>response_type = DHCP_NO_RESPONSE, got_ip = False, need_ip = False, got_client_ip = False\<rparr>, s) =
    Ret (\<lparr>response_type = DHCP_MESSAGE_OFFER, got_ip = False, need_ip = False, got_client_ip = False\<rparr>, s)"
proof -
  have len: "length m = 1024" using assms(2) by (simp add: SERVER_BUFFER_SIZE_def)
  have at: "m ! 240 = BOOTP_OPTION_DHCP_MESSAGE" "m ! 241 = 1" "m ! 242 = DHCP_MESSAGE_DISCOVER" "m ! 243 = BOOTP_END_OPTION"
    using nth_options [OF assms(1), of 0] nth_options [OF assms(1), of 1] nth_options [OF assms(1), of 2]
      nth_options [OF assms(1), of 3] len by simp_all
  show ?thesis
    using len at
    by (simp add: option_walk.simps [of m 240] option_walk.simps [of m 243] option_in_buffer_def process_option_def
        option_message_def option_requested_def option_lease_def BOOTP_OPTION_DHCP_MESSAGE_def BOOTP_END_OPTION_def
        BOOTP_OPTION_REQUESTED_IP_def)
qed

lemma walk_request:
  assumes "drop 240 m = [BOOTP_OPTION_DHCP_MESSAGE, 1, DHCP_MESSAGE_REQUEST, BOOTP_OPTION_REQUESTED_IP, 4] @ word_bytes ip @
      [BOOTP_END_OPTION] @ rest"
    "length m = SERVER_BUFFER_SIZE" "hdr_ciaddr m = 0" "leases_ok s"
    "lease_of s (hdr_chaddr m) = Some ip \<or>
     lease_of s (hdr_chaddr m) = None \<and> assignable ip s \<and> ip \<notin> ran (lease_of s)"
  shows "option_walk m 240 10 (\<lparr>response_type = DHCP_NO_RESPONSE, got_ip = False, need_ip = False, got_client_ip = False\<rparr>, s) =
    Ret (\<lparr>response_type = DHCP_MESSAGE_ACK, got_ip = True, need_ip = True, got_client_ip = True\<rparr>,
      if lease_of s (hdr_chaddr m) = None then snd (ac_add (hdr_chaddr m) ip (s\<lparr>client_ip := ip\<rparr>)) else s\<lparr>client_ip := ip\<rparr>)"
proof -
  have len: "length m = 1024" using assms(2) by (simp add: SERVER_BUFFER_SIZE_def)
  have at: "m ! 240 = BOOTP_OPTION_DHCP_MESSAGE" "m ! 241 = 1" "m ! 242 = DHCP_MESSAGE_REQUEST"
    "m ! 243 = BOOTP_OPTION_REQUESTED_IP" "m ! 244 = 4" "m ! 249 = BOOTP_END_OPTION"
    using nth_options [OF assms(1), of 0] nth_options [OF assms(1), of 1] nth_options [OF assms(1), of 2]
      nth_options [OF assms(1), of 3] nth_options [OF assms(1), of 4] nth_options [OF assms(1), of 9] len
    by (simp_all add: nth_append)
  have "drop 245 m = drop 5 (drop 240 m)" by simp
  then have addr: "bytes_word (take 4 (drop 245 m)) = ip" unfolding assms(1) by simp
  define s1 where "s1 = s\<lparr>client_ip := ip\<rparr>"
  let ?w = "\<lparr>response_type = DHCP_MESSAGE_NAK, got_ip = False, need_ip = True, got_client_ip = True\<rparr>"
  have ok: "leases_ok s1" "lease_of s1 = lease_of s" "assignable ip s1 = assignable ip s" "client_ip s1 = ip"
    using assms(4) by (simp_all add: s1_def lease_of_def)
  have "assignable ip s1" using assms(4,5) ok(3) lease_assignable by blast
  then have subnet: "ip AND netmask s1 = my_ip s1 AND netmask s1" by (simp add: assignable_def)
  have lease: "option_lease (hdr_chaddr m) (?w, s1) = (?w\<lparr>got_ip := True\<rparr>,
      if lease_of s (hdr_chaddr m) = None then snd (ac_add (hdr_chaddr m) ip s1) else s1)"
  proof (cases "lease_of s (hdr_chaddr m)")
    case None
    with assms(5) have "ac_valid_ip (ntohl ip) s1"
      using ok subnet by (simp add: ac_valid_iff cached_ips)
    moreover have "ac_lookup_mac (hdr_chaddr m) s1 = CLIENT_IP_NOT_FOUND" using None ok unknown_client by simp
    moreover have "(if ac_not_full s1 then snd (ac_add (hdr_chaddr m) ip s1) else s1) = snd (ac_add (hdr_chaddr m) ip s1)"
      by (simp add: ac_add_def)
    ultimately show ?thesis using None ok(4) subnet
      by (simp add: option_lease_def Let_def) (simp add: ac_add_def)
  next
    case (Some i)
    with assms(5) have i: "lease_of s1 (hdr_chaddr m) = Some ip" using ok(2) by simp
    from known_client [OF ok(1) i] Some ok(4) subnet show ?thesis by (simp add: option_lease_def Let_def)
  qed
  have first: "process_option m 240 (\<lparr>response_type = DHCP_NO_RESPONSE, got_ip = False, need_ip = False, got_client_ip = False\<rparr>, s) =
      (?w\<lparr>got_client_ip := False\<rparr>, s)"
    using at assms(3) by (simp add: process_option_def option_message_def option_requested_def option_lease_def
        BOOTP_OPTION_DHCP_MESSAGE_def BOOTP_OPTION_REQUESTED_IP_def DHCP_MESSAGE_REQUEST_def DHCP_MESSAGE_DISCOVER_def)
  have read: "option_requested m 243 (option_message m 243 (?w\<lparr>got_client_ip := False\<rparr>, s)) = (?w, s1)"
    using at addr by (simp add: option_message_def option_requested_def s1_def
        BOOTP_OPTION_DHCP_MESSAGE_def BOOTP_OPTION_REQUESTED_IP_def)
  have second: "process_option m 243 (?w\<lparr>got_client_ip := False\<rparr>, s) =
      (\<lparr>response_type = DHCP_MESSAGE_ACK, got_ip = True, need_ip = True, got_client_ip = True\<rparr>,
       if lease_of s (hdr_chaddr m) = None then snd (ac_add (hdr_chaddr m) ip s1) else s1)"
    unfolding process_option_def read lease by simp
  have inside: "option_in_buffer m 240" "option_in_buffer m 243"
    using at len by (simp_all add: option_in_buffer_def BOOTP_OPTION_DHCP_MESSAGE_def BOOTP_OPTION_REQUESTED_IP_def)
  have going: "m ! 240 \<noteq> BOOTP_END_OPTION" "m ! 243 \<noteq> BOOTP_END_OPTION"
    using at by (simp_all add: BOOTP_OPTION_DHCP_MESSAGE_def BOOTP_OPTION_REQUESTED_IP_def BOOTP_END_OPTION_def)
  have size: "2 + unat (m ! (240 + 1)) = 3" "2 + unat (m ! (243 + 1)) = 6" using at by simp_all
  have last: "option_walk m 249 1 p = Ret p" for p
    using len at(6) by (subst option_walk.simps) simp
  have "option_walk m 243 7 (?w\<lparr>got_client_ip := False\<rparr>, s) = option_walk m 249 1 (process_option m 243 (?w\<lparr>got_client_ip := False\<rparr>, s))"
    using len inside going size by (subst option_walk.simps) (simp add: Let_def)
  then show ?thesis
    using len inside going size first unfolding last second s1_def
    by (subst option_walk.simps) (simp add: Let_def)
qed

section \<open>An offer, and its acknowledgement\<close>

definition wide_send :: "int \<Rightarrow> u8 list \<Rightarrow> net_event list" where
  "wide_send k d = [Ap_Default_Netif, Sendto k IPADDR_BROADCAST d, Reset_Default_Netif]"

lemma received:
  assumes "msg s = Some b" "length b = SERVER_BUFFER_SIZE" "0 < length d" "length d \<le> SERVER_BUFFER_SIZE"
  shows "dhcp_server_turn env (from_client d) (s, log) =
      and_then (process_dhcp_message env (length d) (s\<lparr>msg := Some (d @ drop (length d) b)\<rparr>) log)
        (\<lambda>(ret, s2, log2). if nack_dns s2 then Some (Ret (False, s2, log2)) else Some (Ret (False, s2, log2)))"
    "length (d @ drop (length d) b) = SERVER_BUFFER_SIZE"
proof -
  have "recv_into d s = (length d, s\<lparr>msg := Some (d @ drop (length d) b)\<rparr>)"
    using assms by (simp add: recv_into_def blit_def)
  with assms(1,3) show "dhcp_server_turn env (from_client d) (s, log) =
      and_then (process_dhcp_message env (length d) (s\<lparr>msg := Some (d @ drop (length d) b)\<rparr>) log)
        (\<lambda>(ret, s2, log2). if nack_dns s2 then Some (Ret (False, s2, log2)) else Some (Ret (False, s2, log2)))"
    by (auto simp: dhcp_server_turn_def from_client_def on_datagram_def halt_turn_def and_then_def
        split: option.split c_run.split)
  show "length (d @ drop (length d) b) = SERVER_BUFFER_SIZE" using assms by simp
qed

lemma lease_of_cong [simp]:
  "lease_of (s\<lparr>msg := b\<rparr>) = lease_of s" "lease_of (s\<lparr>client_ip := i\<rparr>) = lease_of s"
  by (simp_all add: lease_of_def)

lemma not_full_cong [simp]:
  "ac_not_full (s\<lparr>msg := b\<rparr>) = ac_not_full s" "ac_not_full (s\<lparr>client_ip := i\<rparr>) = ac_not_full s"
  by (simp_all add: ac_not_full_def)

lemma server_reply_cong [simp]:
  "server_reply ty y xid mac (s\<lparr>msg := b\<rparr>) = server_reply ty y xid mac s"
  "server_reply ty y xid mac (s\<lparr>client_ip := i\<rparr>) = server_reply ty y xid mac s"
  by (simp_all add: server_reply_def lease_options_def)

lemma server_reply_frame:
  "my_ip s1 = my_ip s \<Longrightarrow> netmask s1 = netmask s \<Longrightarrow> nack_dns s1 = nack_dns s \<Longrightarrow> address_timeout s1 = address_timeout s \<Longrightarrow>
   server_reply ty y xid mac s1 = server_reply ty y xid mac s"
  by (simp add: server_reply_def lease_options_def)

lemma host_bits_cong [simp]: "host_bits (s\<lparr>msg := b\<rparr>) h = host_bits s h"
  by (simp add: host_bits_def)

text \<open>A discovery is answered by an offer, as long as there is an address to offer.\<close>

definition can_offer :: "u8 list \<Rightarrow> dhcp_server_data \<Rightarrow> bool" where
  "can_offer mac s \<longleftrightarrow> leases_ok s \<and> (\<exists>h. host_bits s h) \<and>
     (lease_of s mac \<noteq> None \<or> (\<exists>ip. assignable ip s \<and> ip \<notin> ran (lease_of s)))"

definition ready :: "dhcp_server_data \<Rightarrow> bool" where
  "ready s \<longleftrightarrow> (\<exists>b. msg s = Some b \<and> length b = SERVER_BUFFER_SIZE)"

lemma discover_offered:
  assumes ok: "can_offer mac s" "ready s" and env: "sends_all env" and client: "length xid = 4" "length mac = 6"
  shows "\<exists>d ip s1. dhcp_server_turn env (from_client (discover xid mac)) (s, log) =
        Some (Ret (False, s1, log @ wide_send (sock s) d)) \<and>
      read_reply d = server_reply DHCP_MESSAGE_OFFER ip xid mac s \<and> ready s1 \<and> leases_ok s1 \<and>
      (lease_of s mac = Some ip \<or> lease_of s mac = None \<and> assignable ip s \<and> ip \<notin> ran (lease_of s)) \<and>
      lease_of s1 = (if ac_not_full s then (lease_of s)(mac \<mapsto> ip) else lease_of s) \<and>
      (\<not> ac_not_full s \<longrightarrow> \<not> ac_not_full s1) \<and>
      my_ip s1 = my_ip s \<and> netmask s1 = netmask s \<and> nack_dns s1 = nack_dns s \<and>
      address_timeout s1 = address_timeout s \<and> sock s1 = sock s"
proof -
  from ok obtain b h where b: "msg s = Some b" "length b = SERVER_BUFFER_SIZE" and s: "leases_ok s" "host_bits s h"
      "lease_of s mac \<noteq> None \<or> (\<exists>ip. assignable ip s \<and> ip \<notin> ran (lease_of s))"
    by (auto simp: ready_def can_offer_def)
  let ?d = "discover xid mac"
  define m where "m = ?d @ drop (length ?d) b"
  define s0 where "s0 = s\<lparr>msg := Some m\<rparr>"
  note reads = packet_reads [OF client m_def [unfolded discover_def], folded discover_def]
  have len: "length ?d = 244" by (simp add: reads(8))
  have turn: "dhcp_server_turn env (from_client ?d) (s, log) =
      and_then (process_dhcp_message env 244 s0 log)
        (\<lambda>(ret, s2, log2). if nack_dns s2 then Some (Ret (False, s2, log2)) else Some (Ret (False, s2, log2)))"
    and m_len: "length m = SERVER_BUFFER_SIZE"
    using received [OF b, of ?d] len by (simp_all add: SERVER_BUFFER_SIZE_def s0_def m_def)
  have opts: "drop 240 m = [BOOTP_OPTION_DHCP_MESSAGE, 1, DHCP_MESSAGE_DISCOVER, BOOTP_END_OPTION] @ drop (length ?d) b"
    using reads(7) by (simp add: BOOTP_HEADER_SIZE_def)
  have s0: "leases_ok s0" "lease_of s0 = lease_of s" "ac_not_full s0 = ac_not_full s" "my_ip s0 = my_ip s" "netmask s0 = netmask s"
    "nack_dns s0 = nack_dns s" "address_timeout s0 = address_timeout s" "sock s0 = sock s"
    "assignable ip s0 = assignable ip s" for ip
    using s(1) by (simp_all add: s0_def)
  obtain ip s' where found: "next_yiaddr mac s0 = Some (ip, s')"
    using choice_exists [of s0 h mac] s by (auto simp: s0_def)
  note chosen = next_yiaddr_chosen [OF s0(1) found] and is_ip = choice_is [OF s0(1) found]
  obtain n m1 s1 where resp: "make_response DHCP_MESSAGE_OFFER m s0 = Some (n, m1, s1)"
    using found reads(5) by (cases "response_options DHCP_MESSAGE_OFFER s' (response_header ip m)") (simp add: make_response_def)
  from make_response_reads [OF m_len this] found reads(5,6)
  have r: "length m1 = SERVER_BUFFER_SIZE" "take n m1 \<noteq> []" "s1 = s'\<lparr>msg := Some m1\<rparr>"
    "read_reply (take n m1) = server_reply DHCP_MESSAGE_OFFER ip xid mac s'" by auto
  have frame: "sock s1 = sock s" "read_reply (take n m1) = server_reply DHCP_MESSAGE_OFFER ip xid mac s"
    using r(3,4) chosen s0 server_reply_frame [of s' s] by simp_all
  have "process_dhcp_message env 244 s0 log = Some (Ret (0, s1, log @ wide_send (sock s) (take n m1)))"
    using reads(1-3) walk_discover [OF opts m_len, of s0] resp send_whole [OF env r(2)] frame(1)
    by (simp add: process_dhcp_message_def s0_def wide_send_def BOOTP_HEADER_SIZE_def
        DHCP_MESSAGE_OFFER_def DHCP_NO_RESPONSE_def DHCP_MESSAGE_ACK_def)
  then have "dhcp_server_turn env (from_client ?d) (s, log) = Some (Ret (False, s1, log @ wide_send (sock s) (take n m1)))"
    unfolding turn by simp
  with frame r(1,3) chosen is_ip s0 show ?thesis
    by (intro exI [of _ "take n m1"] exI [of _ ip] exI [of _ s1]) (simp add: ready_def cong: if_cong)
qed

lemma arp_logged: "\<exists>arp. snd (send_gratuitous_arp env ip log) = log @ arp"
  by (cases "socket_ret env log < 0") (simp_all add: send_gratuitous_arp_def Let_def)

text \<open>A request for an address the client may have is acknowledged.\<close>

lemma request_acknowledged:
  assumes ok: "leases_ok s" "ready s" and env: "sends_all env" and client: "length xid = 4" "length mac = 6"
    and ip: "lease_of s mac = Some ip \<or> lease_of s mac = None \<and> assignable ip s \<and> ip \<notin> ran (lease_of s)"
  shows "\<exists>d s1 arp. dhcp_server_turn env (from_client (request xid mac ip)) (s, log) =
        Some (Ret (False, s1, log @ wide_send (sock s) d @ arp)) \<and>
      read_reply d = server_reply DHCP_MESSAGE_ACK ip xid mac s \<and> ready s1 \<and> leases_ok s1 \<and>
      lease_of s1 = (if ac_not_full s then (lease_of s)(mac \<mapsto> ip) else lease_of s) \<and>
      (\<not> ac_not_full s \<longrightarrow> \<not> ac_not_full s1) \<and>
      my_ip s1 = my_ip s \<and> netmask s1 = netmask s \<and> nack_dns s1 = nack_dns s \<and>
      address_timeout s1 = address_timeout s \<and> sock s1 = sock s"
proof -
  from ok(2) obtain b where b: "msg s = Some b" "length b = SERVER_BUFFER_SIZE" by (auto simp: ready_def)
  let ?d = "request xid mac ip"
  define m where "m = ?d @ drop (length ?d) b"
  define s0 where "s0 = s\<lparr>msg := Some m\<rparr>"
  note reads = packet_reads [OF client m_def [unfolded request_def], folded request_def]
  have len: "length ?d = 250" by (simp add: reads(8))
  have turn: "dhcp_server_turn env (from_client ?d) (s, log) =
      and_then (process_dhcp_message env 250 s0 log)
        (\<lambda>(ret, s2, log2). if nack_dns s2 then Some (Ret (False, s2, log2)) else Some (Ret (False, s2, log2)))"
    and m_len: "length m = SERVER_BUFFER_SIZE"
    using received [OF b, of ?d] len by (simp_all add: SERVER_BUFFER_SIZE_def s0_def m_def)
  have opts: "drop 240 m = [BOOTP_OPTION_DHCP_MESSAGE, 1, DHCP_MESSAGE_REQUEST, BOOTP_OPTION_REQUESTED_IP, 4] @ word_bytes ip @
      [BOOTP_END_OPTION] @ drop (length ?d) b"
    using reads(7) by (simp add: BOOTP_HEADER_SIZE_def)
  have s0: "leases_ok s0" "lease_of s0 (hdr_chaddr m) = Some ip \<or>
     lease_of s0 (hdr_chaddr m) = None \<and> assignable ip s0 \<and> ip \<notin> ran (lease_of s0)"
    using ok(1) ip reads(5) by (simp_all add: s0_def)
  have same: "lease_of s0 = lease_of s" by (simp add: s0_def)
  define s2 where "s2 = (if lease_of s mac = None then snd (ac_add mac ip (s0\<lparr>client_ip := ip\<rparr>)) else s0\<lparr>client_ip := ip\<rparr>)"
  have walk: "option_walk m 240 10 (\<lparr>response_type = DHCP_NO_RESPONSE, got_ip = False, need_ip = False, got_client_ip = False\<rparr>, s0) =
      Ret (\<lparr>response_type = DHCP_MESSAGE_ACK, got_ip = True, need_ip = True, got_client_ip = True\<rparr>, s2)"
    using walk_request [OF opts m_len reads(4) s0] same by (simp add: s2_def reads(5))
  have s2: "leases_ok s2" using option_walk_ok [OF walk s0(1)] by simp
  have frame: "my_ip s2 = my_ip s" "netmask s2 = netmask s" "nack_dns s2 = nack_dns s" "address_timeout s2 = address_timeout s"
    "sock s2 = sock s" "client_ip s2 = ip" "\<not> ac_not_full s \<Longrightarrow> \<not> ac_not_full s2"
    by (auto simp: s2_def ac_add_def ac_not_full_def s0_def)
  have leases: "lease_of s2 = (if ac_not_full s then (lease_of s)(mac \<mapsto> ip) else lease_of s)"
  proof (cases "lease_of s mac = None")
    case True
    then have "s2 = snd (ac_add mac ip (s0\<lparr>client_ip := ip\<rparr>))" by (simp add: s2_def)
    moreover have "leases_ok (s0\<lparr>client_ip := ip\<rparr>)" "lease_of (s0\<lparr>client_ip := ip\<rparr>) = lease_of s"
      "ac_not_full (s0\<lparr>client_ip := ip\<rparr>) = ac_not_full s"
      using s0(1) by (simp_all add: s0_def)
    moreover from this True have "\<not> ac_not_full s \<Longrightarrow> snd (ac_add mac ip (s0\<lparr>client_ip := ip\<rparr>)) = s0\<lparr>client_ip := ip\<rparr>"
      by (simp add: ac_add_def)
    ultimately show ?thesis using True lease_added [of "s0\<lparr>client_ip := ip\<rparr>" mac ip] by simp
  next
    case False
    with ip have "(lease_of s)(mac \<mapsto> ip) = lease_of s" by (simp add: map_upd_triv)
    moreover have "s2 = s0\<lparr>client_ip := ip\<rparr>" unfolding s2_def if_not_P [OF False] by (rule refl)
    ultimately show ?thesis by (simp add: same)
  qed
  obtain n m1 s1 where resp: "make_response DHCP_MESSAGE_ACK m s2 = Some (n, m1, s1)"
    by (cases "response_options 5 s2 (response_header (client_ip s2) m)")
      (simp add: make_response_def DHCP_MESSAGE_ACK_def DHCP_MESSAGE_OFFER_def)
  from make_response_reads [OF m_len this] reads(5,6) frame(6)
  have r: "length m1 = SERVER_BUFFER_SIZE" "take n m1 \<noteq> []" "s1 = s2\<lparr>msg := Some m1\<rparr>"
    "read_reply (take n m1) = server_reply DHCP_MESSAGE_ACK ip xid mac s2"
    by (auto simp: DHCP_MESSAGE_ACK_def DHCP_MESSAGE_OFFER_def)
  have r4: "read_reply (take n m1) = server_reply DHCP_MESSAGE_ACK ip xid mac s"
    using r(4) frame server_reply_frame [of s2 s] by simp
  have s1: "sock s1 = sock s" "my_ip s1 = my_ip s" using r(3) frame by simp_all
  obtain arp where arp: "snd (send_gratuitous_arp env (my_ip s) (log @ wide_send (sock s) (take n m1))) =
      log @ wide_send (sock s) (take n m1) @ arp"
    using arp_logged [of env "my_ip s" "log @ wide_send (sock s) (take n m1)"] by auto
  have "process_dhcp_message env 250 s0 log = Some (Ret (0, s1, log @ wide_send (sock s) (take n m1) @ arp))"
    using reads(1-3) walk resp send_whole [OF env r(2)] s1 arp
    by (simp add: process_dhcp_message_def s0_def wide_send_def BOOTP_HEADER_SIZE_def
        DHCP_NO_RESPONSE_def DHCP_MESSAGE_ACK_def)
  then have "dhcp_server_turn env (from_client ?d) (s, log) =
      Some (Ret (False, s1, log @ wide_send (sock s) (take n m1) @ arp))"
    unfolding turn by simp
  with frame r(1,3) r4 s2 leases show ?thesis
    by (intro exI [of _ "take n m1"] exI [of _ s1] exI [of _ arp]) (simp add: ready_def)
qed

section \<open>What the server promises\<close>

text \<open>C2: In every state that the server reaches from its start, whatever datagrams come in on its three sockets, the cache is a
  table of at most eight leases with distinct clients and distinct addresses, each an address of the subnet other than the
  server's, the network's and the broadcast address.\<close>

lemma dhcp_leases_always:
  assumes "dhcp_server_init a old log0 = (0, s0, log1)" "\<forall>m. alloc_msg a = Some m \<longrightarrow> length m = SERVER_BUFFER_SIZE"
    "run_calls (dhcp_step env) is (False, s0, log1) = Some (Ret (over, s, log))"
  shows "length (cached s) \<le> MAC_IP_CACHE_SIZE \<and> distinct (map client_mac (cached s)) \<and>
    distinct (map cached_ip (cached s)) \<and> list_all (\<lambda>e. assignable (cached_ip e) s) (cached s)"
proof -
  have "leases_ok s0 \<and> has_buffer s0" by (rule init_ok [OF assms(1,2)])
  then have "leases_ok s" using dhcp_loop.calls_keep [OF _ assms(3)] by simp
  then show ?thesis by (simp add: leases_ok_def list_all_iff) (simp add: cached_def)
qed

text \<open>A network of the documented kind, and a start on 192.168.1.1/24.\<close>

definition lan :: lwip_env where
  "lan = \<lparr>sendto_ret = (\<lambda>log k d. int (length d)), socket_ret = (\<lambda>log. 7), if_macaddr = [2, 0, 0, 0, 0, 1]\<rparr>"

definition lan_init :: init_answers where
  "lan_init = \<lparr>alloc_msg = Some (replicate 1024 0), mutex_ret = 0, ip_answer = (0, 0x0101A8C0), mask_answer = (0, 0x00FFFFFF),
     dhcp_socket = \<lparr>made_socket = 3, broadcast_ret = 0, bind_ret = 0\<rparr>,
     dns_socket = \<lparr>made_socket = 4, broadcast_ret = 0, bind_ret = 0\<rparr>,
     ctrl_socket = \<lparr>made_socket = 5, broadcast_ret = 0, bind_ret = 0\<rparr>\<rparr>"

definition lan_start :: dhcp_server_data where
  "lan_start = (dhcps_zero DEFAULT_DHCP_ADDRESS_TIMEOUT False)\<lparr>msg := Some (replicate 1024 0), my_ip := 0x0101A8C0,
     netmask := 0x00FFFFFF, sock := 3, ctrlsock := 5\<rparr>"

lemma lan_starts: "dhcp_server_init lan_init (dhcps_zero DEFAULT_DHCP_ADDRESS_TIMEOUT False) [] = (0, lan_start, [])"
  by (simp add: dhcp_server_init_def lan_init_def create_and_bind_udp_socket_def lan_start_def dhcps_zero_def)

lemma lan_ready: "ready lan_start" "sends_all lan" "leases_ok lan_start" "lease_of lan_start = Map.empty" "ac_not_full lan_start"
  by (simp_all add: ready_def lan_start_def SERVER_BUFFER_SIZE_def sends_all_def lan_def leases_ok_def dhcps_zero_def cached_def
      lease_of_def ac_not_full_def MAC_IP_CACHE_SIZE_def)

lemma lan_offers: "can_offer mac lan_start"
proof -
  have "assignable 0x0201A8C0 lan_start" by (simp add: assignable_def lan_start_def)
  moreover have "host_bits lan_start 8" by (simp add: host_bits_def lan_start_def ntohl_def htonl_def mask_eq_exp_minus_1)
  ultimately show ?thesis using lan_ready by (auto simp: can_offer_def)
qed

lemma dhcp_leases_always_witness:
  "\<exists>s log. run_calls (dhcp_step lan) [from_client (discover [1, 2, 3, 4] [2, 0, 0, 0, 0, 9])] (False, lan_start, []) =
     Some (Ret (False, s, log)) \<and>
   length (cached s) \<le> MAC_IP_CACHE_SIZE \<and> distinct (map client_mac (cached s)) \<and>
    distinct (map cached_ip (cached s)) \<and> list_all (\<lambda>e. assignable (cached_ip e) s) (cached s)"
proof -
  have len: "length [1, 2, 3, 4 :: u8] = 4" "length [2, 0, 0, 0, 0, 9 :: u8] = 6" by simp_all
  obtain s log where run: "dhcp_server_turn lan (from_client (discover [1, 2, 3, 4] [2, 0, 0, 0, 0, 9])) (lan_start, []) =
      Some (Ret (False, s, log))"
    using discover_offered [OF lan_offers lan_ready(1,2) len] by blast
  then have "run_calls (dhcp_step lan) [from_client (discover [1, 2, 3, 4] [2, 0, 0, 0, 0, 9])] (False, lan_start, []) =
      Some (Ret (False, s, log))" by (simp add: dhcp_step_def)
  moreover note dhcp_leases_always [OF lan_starts _ this]
  moreover have "\<forall>m. alloc_msg lan_init = Some m \<longrightarrow> length m = SERVER_BUFFER_SIZE"
    by (simp add: lan_init_def SERVER_BUFFER_SIZE_def)
  ultimately show ?thesis by blast
qed

lemma lan_host_bits: "host_bits lan_start 8"
  by (simp add: host_bits_def lan_start_def ntohl_def htonl_def mask_eq_exp_minus_1)

text \<open>C23: An offer is found exactly when there is one to be made: for a mask of the usual form, the choice of an address
  returns iff the client has a lease or some address of the subnet is free, and the address is the lease or a free one that is not
  the server's, the network's or the broadcast address; on a subnet with none free the loop never ends.\<close>

lemma next_yiaddr_terminates:
  assumes "leases_ok s" "host_bits s h"
  shows "((\<exists>r. next_yiaddr chaddr s = Some r) \<longleftrightarrow>
      lease_of s chaddr \<noteq> None \<or> (\<exists>ip. assignable ip s \<and> ip \<notin> ran (lease_of s))) \<and>
    (\<forall>ip s1. next_yiaddr chaddr s = Some (ip, s1) \<longrightarrow>
      lease_of s chaddr = Some ip \<or> lease_of s chaddr = None \<and> assignable ip s \<and> ip \<notin> ran (lease_of s))"
proof (intro conjI iffI allI impI)
  assume "\<exists>r. next_yiaddr chaddr s = Some r"
  with choice_is [OF assms(1)] show "lease_of s chaddr \<noteq> None \<or> (\<exists>ip. assignable ip s \<and> ip \<notin> ran (lease_of s))" by fastforce
qed (rule choice_exists [OF assms] choice_is [OF assms(1)], assumption)+

lemma next_yiaddr_terminates_witness:
  "\<exists>ip s1. next_yiaddr [2, 0, 0, 0, 0, 9] lan_start = Some (ip, s1) \<and> assignable ip lan_start"
proof -
  note choice = next_yiaddr_terminates [OF lan_ready(3) lan_host_bits, of "[2, 0, 0, 0, 0, 9]"]
  have "assignable 0x0201A8C0 lan_start" by (simp add: assignable_def lan_start_def)
  then have "\<exists>r. next_yiaddr [2, 0, 0, 0, 0, 9] lan_start = Some r" using choice lan_ready(4) by auto
  then show ?thesis using choice lan_ready(4) by fastforce
qed

text \<open>C24: The exchange of a client: a discovery is answered by an offer of the client's lease or of a free address, with the mask,
  the lease time and the server's address; the request of the offered address is then acknowledged with that address, and if the
  cache had room the lease of the client is that address; no other lease is touched.\<close>

lemma dhcp_offer_then_ack:
  assumes "can_offer mac s" "ready s" "sends_all env" "length xid = 4" "length mac = 6"
  shows "\<exists>ip d1 s1 d2 s2 arp.
    dhcp_server_turn env (from_client (discover xid mac)) (s, log) = Some (Ret (False, s1, log @ wide_send (sock s) d1)) \<and>
    read_reply d1 = server_reply DHCP_MESSAGE_OFFER ip xid mac s \<and>
    (lease_of s mac = Some ip \<or> assignable ip s \<and> ip \<notin> ran (lease_of s)) \<and>
    dhcp_server_turn env (from_client (request xid mac ip)) (s1, log @ wide_send (sock s) d1) =
      Some (Ret (False, s2, (log @ wide_send (sock s) d1) @ wide_send (sock s) d2 @ arp)) \<and>
    read_reply d2 = server_reply DHCP_MESSAGE_ACK ip xid mac s \<and>
    lease_of s2 = (if ac_not_full s then (lease_of s)(mac \<mapsto> ip) else lease_of s)"
proof -
  obtain d1 ip s1 where offer:
      "dhcp_server_turn env (from_client (discover xid mac)) (s, log) = Some (Ret (False, s1, log @ wide_send (sock s) d1))"
      "read_reply d1 = server_reply DHCP_MESSAGE_OFFER ip xid mac s" "ready s1" "leases_ok s1"
    and ip: "lease_of s mac = Some ip \<or> lease_of s mac = None \<and> assignable ip s \<and> ip \<notin> ran (lease_of s)"
    and leases: "lease_of s1 = (if ac_not_full s then (lease_of s)(mac \<mapsto> ip) else lease_of s)"
      "\<not> ac_not_full s \<longrightarrow> \<not> ac_not_full s1"
    and same: "my_ip s1 = my_ip s" "netmask s1 = netmask s" "nack_dns s1 = nack_dns s" "address_timeout s1 = address_timeout s"
      "sock s1 = sock s"
    using discover_offered [OF assms] by blast
  have "assignable ip s1 = assignable ip s" using same by (simp add: assignable_def)
  with ip leases(1) have again: "lease_of s1 mac = Some ip \<or> lease_of s1 mac = None \<and> assignable ip s1 \<and> ip \<notin> ran (lease_of s1)"
    by auto
  obtain d2 s2 arp where ack:
      "dhcp_server_turn env (from_client (request xid mac ip)) (s1, log @ wide_send (sock s) d1) =
        Some (Ret (False, s2, (log @ wide_send (sock s) d1) @ wide_send (sock s1) d2 @ arp))"
      "read_reply d2 = server_reply DHCP_MESSAGE_ACK ip xid mac s1"
      "lease_of s2 = (if ac_not_full s1 then (lease_of s1)(mac \<mapsto> ip) else lease_of s1)"
    using request_acknowledged [OF offer(4,3) assms(3,4,5) again] by blast
  have "lease_of s2 = (if ac_not_full s then (lease_of s)(mac \<mapsto> ip) else lease_of s)"
    using ack(3) leases by (auto split: if_splits)
  moreover have "server_reply DHCP_MESSAGE_ACK ip xid mac s1 = server_reply DHCP_MESSAGE_ACK ip xid mac s"
    using same by (intro server_reply_frame) simp_all
  ultimately show ?thesis using offer(1,2) ip ack(1,2) same(5) by metis
qed

lemma dhcp_offer_then_ack_witness:
  "\<exists>ip d1 s1 d2 s2 arp.
    dhcp_server_turn lan (from_client (discover [1, 2, 3, 4] [2, 0, 0, 0, 0, 9])) (lan_start, []) =
      Some (Ret (False, s1, [] @ wide_send (sock lan_start) d1)) \<and>
    read_reply d1 = server_reply DHCP_MESSAGE_OFFER ip [1, 2, 3, 4] [2, 0, 0, 0, 0, 9] lan_start \<and>
    (lease_of lan_start [2, 0, 0, 0, 0, 9] = Some ip \<or> assignable ip lan_start \<and> ip \<notin> ran (lease_of lan_start)) \<and>
    dhcp_server_turn lan (from_client (request [1, 2, 3, 4] [2, 0, 0, 0, 0, 9] ip)) (s1, [] @ wide_send (sock lan_start) d1) =
      Some (Ret (False, s2, ([] @ wide_send (sock lan_start) d1) @ wide_send (sock lan_start) d2 @ arp)) \<and>
    read_reply d2 = server_reply DHCP_MESSAGE_ACK ip [1, 2, 3, 4] [2, 0, 0, 0, 0, 9] lan_start \<and>
    lease_of s2 = (if ac_not_full lan_start then (lease_of lan_start)([2, 0, 0, 0, 0, 9] \<mapsto> ip) else lease_of lan_start)"
  by (rule dhcp_offer_then_ack [OF lan_offers lan_ready(1,2)]) simp_all

text \<open>A full cache gives one address to two clients: when the table of eight leases is full, the requests of two clients that
  have no lease for the same free address are both acknowledged with it, and neither is remembered.\<close>

lemma dhcp_full_cache_duplicates:
  assumes "leases_ok s" "ready s" "sends_all env" "\<not> ac_not_full s" "assignable ip s" "ip \<notin> ran (lease_of s)"
    "length xid = 4" "length a = 6" "length b = 6" "lease_of s a = None" "lease_of s b = None"
  shows "\<exists>d1 s1 d2 s2 arp1 arp2.
    dhcp_server_turn env (from_client (request xid a ip)) (s, log) =
      Some (Ret (False, s1, log @ wide_send (sock s) d1 @ arp1)) \<and>
    read_reply d1 = server_reply DHCP_MESSAGE_ACK ip xid a s \<and>
    dhcp_server_turn env (from_client (request xid b ip)) (s1, log @ wide_send (sock s) d1 @ arp1) =
      Some (Ret (False, s2, (log @ wide_send (sock s) d1 @ arp1) @ wide_send (sock s) d2 @ arp2)) \<and>
    read_reply d2 = server_reply DHCP_MESSAGE_ACK ip xid b s \<and> lease_of s2 = lease_of s"
proof -
  have ip: "lease_of s a = Some ip \<or> lease_of s a = None \<and> assignable ip s \<and> ip \<notin> ran (lease_of s)"
    using assms(5,6,10) by simp
  obtain d1 s1 arp1 where one:
      "dhcp_server_turn env (from_client (request xid a ip)) (s, log) = Some (Ret (False, s1, log @ wide_send (sock s) d1 @ arp1))"
      "read_reply d1 = server_reply DHCP_MESSAGE_ACK ip xid a s" "ready s1" "leases_ok s1"
    and leases: "lease_of s1 = (if ac_not_full s then (lease_of s)(a \<mapsto> ip) else lease_of s)" "\<not> ac_not_full s \<longrightarrow> \<not> ac_not_full s1"
    and same: "my_ip s1 = my_ip s" "netmask s1 = netmask s" "nack_dns s1 = nack_dns s" "address_timeout s1 = address_timeout s"
      "sock s1 = sock s"
    using request_acknowledged [OF assms(1,2,3,7,8) ip] by blast
  have "assignable ip s1 = assignable ip s" using same by (simp add: assignable_def)
  with assms(4-6,11) leases have ip1: "lease_of s1 b = Some ip \<or> lease_of s1 b = None \<and> assignable ip s1 \<and> ip \<notin> ran (lease_of s1)"
    by simp
  obtain d2 s2 arp2 where two:
      "dhcp_server_turn env (from_client (request xid b ip)) (s1, log @ wide_send (sock s) d1 @ arp1) =
        Some (Ret (False, s2, (log @ wide_send (sock s) d1 @ arp1) @ wide_send (sock s1) d2 @ arp2))"
      "read_reply d2 = server_reply DHCP_MESSAGE_ACK ip xid b s1"
      "lease_of s2 = (if ac_not_full s1 then (lease_of s1)(b \<mapsto> ip) else lease_of s1)"
    using request_acknowledged [OF one(4,3) assms(3,7,9) ip1] by blast
  have "lease_of s2 = lease_of s" using two(3) leases assms(4) by simp
  moreover have "server_reply DHCP_MESSAGE_ACK ip xid b s1 = server_reply DHCP_MESSAGE_ACK ip xid b s"
    using same by (intro server_reply_frame) simp_all
  ultimately show ?thesis using one(1,2) two(1,2) same(5) by metis
qed

text \<open>Eight clients on 192.168.1.10 to 17.\<close>

definition lan_full :: dhcp_server_data where
  "lan_full = lan_start\<lparr>count_clients := 8,
     ip_mac_mapping := map (\<lambda>i. \<lparr>client_mac = [2, 0, 0, 0, 1, of_nat i], cached_ip = htonl (0xC0A8010A + of_nat i)\<rparr>) [0..<8]\<rparr>"

lemma lan_full_ok: "leases_ok lan_full" "ready lan_full" "\<not> ac_not_full lan_full" "assignable 0x6401A8C0 lan_full"
    "0x6401A8C0 \<notin> ran (lease_of lan_full)" "lease_of lan_full [2, 0, 0, 0, 0, i] = None"
proof -
  have "[0..<8] = [0, 1, 2, 3, 4, 5, 6, 7]" by (simp add: upt_rec)
  then have cached: "cached lan_full = map (\<lambda>i. \<lparr>client_mac = [2, 0, 0, 0, 1, of_nat i], cached_ip = htonl (0xC0A8010A + of_nat i)\<rparr>)
      [0, 1, 2, 3, 4, 5, 6, 7]" "length (ip_mac_mapping lan_full) = 8"
    by (simp_all add: cached_def lan_full_def MAC_IP_CACHE_SIZE_def)
  show ok: "leases_ok lan_full"
    unfolding leases_ok_def cached
    by (simp add: MAC_IP_CACHE_SIZE_def) (simp add: lan_full_def lan_start_def assignable_def htonl_def)
  show "ready lan_full" "\<not> ac_not_full lan_full" "assignable 0x6401A8C0 lan_full"
    by (simp_all add: ready_def ac_not_full_def assignable_def lan_full_def lan_start_def SERVER_BUFFER_SIZE_def MAC_IP_CACHE_SIZE_def)
  show "0x6401A8C0 \<notin> ran (lease_of lan_full)"
    unfolding cached_ips [OF ok, symmetric] cached by (simp add: htonl_def)
  show "lease_of lan_full [2, 0, 0, 0, 0, i] = None"
    unfolding lease_None cached by simp
qed

lemma dhcp_full_cache_duplicates_witness:
  "\<exists>d1 s1 d2 s2 arp1 arp2.
    dhcp_server_turn lan (from_client (request [1, 2, 3, 4] [2, 0, 0, 0, 0, 9] 0x6401A8C0)) (lan_full, []) =
      Some (Ret (False, s1, [] @ wide_send (sock lan_full) d1 @ arp1)) \<and>
    read_reply d1 = server_reply DHCP_MESSAGE_ACK 0x6401A8C0 [1, 2, 3, 4] [2, 0, 0, 0, 0, 9] lan_full \<and>
    dhcp_server_turn lan (from_client (request [1, 2, 3, 4] [2, 0, 0, 0, 0, 8] 0x6401A8C0))
        (s1, [] @ wide_send (sock lan_full) d1 @ arp1) =
      Some (Ret (False, s2, ([] @ wide_send (sock lan_full) d1 @ arp1) @ wide_send (sock lan_full) d2 @ arp2)) \<and>
    read_reply d2 = server_reply DHCP_MESSAGE_ACK 0x6401A8C0 [1, 2, 3, 4] [2, 0, 0, 0, 0, 8] lan_full \<and>
    lease_of s2 = lease_of lan_full"
  by (rule dhcp_full_cache_duplicates [OF lan_full_ok(1,2) lan_ready(2) lan_full_ok(3,4,5)]) (simp_all add: lan_full_ok(6))

end
