(* ===== verification/Icu.thy ===== *)
theory Icu
  imports SDK_Prelude
begin

text \<open>
  The interrupt and clock unit driver, \<open>beken378/driver/icu/icu.c\<close>, in its BK7231
  configuration. Its registers are memory-mapped words; \<open>REG_READ\<close> and \<open>REG_WRITE\<close>
  (\<open>arm_arch.h\<close>) are a load and a store, and so they are here: what the hardware does to a
  register on its own is the register file a call starts from.
\<close>

section \<open>Registers\<close>

type_synonym regs = "u32 \<Rightarrow> u32"

definition REG_READ :: "u32 \<Rightarrow> regs \<Rightarrow> u32" where "REG_READ addr m = m addr"
definition REG_WRITE :: "u32 \<Rightarrow> u32 \<Rightarrow> regs \<Rightarrow> regs" where "REG_WRITE addr v m = m(addr := v)"

definition ICU_BASE :: u32 where "ICU_BASE = 0x00802000"
definition ICU_PERI_CLK_MUX :: u32 where "ICU_PERI_CLK_MUX = ICU_BASE + 0 * 4"
definition ICU_PWM_CLK_MUX :: u32 where "ICU_PWM_CLK_MUX = ICU_BASE + 1 * 4"
definition ICU_PERI_CLK_PWD :: u32 where "ICU_PERI_CLK_PWD = ICU_BASE + 2 * 4"
definition ICU_PERI_CLK_GATING :: u32 where "ICU_PERI_CLK_GATING = ICU_BASE + 3 * 4"
definition ICU_TL410_CLK_PWD :: u32 where "ICU_TL410_CLK_PWD = ICU_BASE + 4 * 4"
definition ICU_JTAG_SELECT :: u32 where "ICU_JTAG_SELECT = ICU_BASE + 6 * 4"
definition ICU_INTERRUPT_ENABLE :: u32 where "ICU_INTERRUPT_ENABLE = ICU_BASE + 16 * 4"
definition ICU_GLOBAL_INT_EN :: u32 where "ICU_GLOBAL_INT_EN = ICU_BASE + 17 * 4"
definition ICU_INT_RAW_STATUS :: u32 where "ICU_INT_RAW_STATUS = ICU_BASE + 18 * 4"
definition ICU_INT_STATUS :: u32 where "ICU_INT_STATUS = ICU_BASE + 19 * 4"
definition ICU_ARM_WAKEUP_EN :: u32 where "ICU_ARM_WAKEUP_EN = ICU_BASE + 20 * 4"

lemmas icu_reg_defs = ICU_BASE_def ICU_PERI_CLK_MUX_def ICU_PWM_CLK_MUX_def ICU_PERI_CLK_PWD_def
  ICU_PERI_CLK_GATING_def ICU_TL410_CLK_PWD_def ICU_JTAG_SELECT_def ICU_INTERRUPT_ENABLE_def
  ICU_GLOBAL_INT_EN_def ICU_INT_RAW_STATUS_def ICU_INT_STATUS_def ICU_ARM_WAKEUP_EN_def

section \<open>Commands\<close>

datatype icu_cmd = CMD_ICU_CLKGATING_DISABLE | CMD_ICU_CLKGATING_ENABLE | CMD_ICU_INT_DISABLE
  | CMD_ICU_INT_ENABLE | CMD_ICU_GLOBAL_INT_DISABLE | CMD_ICU_GLOBAL_INT_ENABLE
  | CMD_GET_INTR_STATUS | CMD_CLR_INTR_STATUS | CMD_GET_INTR_RAW_STATUS | CMD_CLR_INTR_RAW_STATUS
  | CMD_CLK_PWR_DOWN | CMD_CLK_PWR_UP | CMD_CONF_PWM_PCLK | CMD_CONF_PWM_LPOCLK
  | CMD_TL410_CLK_PWR_DOWN | CMD_TL410_CLK_PWR_UP | CMD_CONF_PCLK_26M | CMD_CONF_PCLK_DCO
  | CMD_SET_JTAG_MODE | CMD_GET_JTAG_MODE | CMD_ARM_WAKEUP | CMD_UNKNOWN

definition ICU_SUCCESS :: u32 where "ICU_SUCCESS = 0"
definition JTAG_ARM_MODE :: u32 where "JTAG_ARM_MODE = 0"
definition JTAG_TL410_MODE :: u32 where "JTAG_TL410_MODE = 1"
definition JTAG_SEL_WR_ARM :: u32 where "JTAG_SEL_WR_ARM = 0x7111E968"
definition JTAG_SEL_WR_TL4 :: u32 where "JTAG_SEL_WR_TL4 = 0x7111E410"
definition GINTR_FIQ_BIT :: u32 where "GINTR_FIQ_BIT = push_bit 1 1"
definition GINTR_IRQ_BIT :: u32 where "GINTR_IRQ_BIT = push_bit 0 1"
definition FIQ_MAILBOX1_BIT :: u32 where "FIQ_MAILBOX1_BIT = push_bit 25 1"
definition FIQ_MAILBOX0_BIT :: u32 where "FIQ_MAILBOX0_BIT = push_bit 24 1"
definition PCLK_POSI :: u32 where "PCLK_POSI = 0"

text \<open>\<open>*(UINT32 *)param\<close>, with \<open>None\<close> the NULL pointer; \<open>asserted\<close> is \<open>ASSERT(param)\<close> before it.\<close>

definition deref :: "u32 option \<Rightarrow> (u32 \<Rightarrow> 'a c_run) \<Rightarrow> 'a c_run" where
  "deref param k = (case param of None \<Rightarrow> Fault | Some v \<Rightarrow> k v)"

definition asserted :: "u32 option \<Rightarrow> 'a c_run \<Rightarrow> 'a c_run" where
  "asserted param r = (if param = None then Assert_Stop else r)"

definition set_bits :: "u32 \<Rightarrow> u32 \<Rightarrow> regs \<Rightarrow> regs" where
  "set_bits addr v m = REG_WRITE addr (REG_READ addr m OR v) m"

definition clr_bits :: "u32 \<Rightarrow> u32 \<Rightarrow> regs \<Rightarrow> regs" where
  "clr_bits addr v m = REG_WRITE addr (REG_READ addr m AND NOT v) m"

fun icu_ctrl :: "icu_cmd \<Rightarrow> u32 option \<Rightarrow> regs \<Rightarrow> (u32 \<times> regs) c_run" where
  "icu_ctrl CMD_CONF_PCLK_26M param m =
     deref param (\<lambda>v. Ret (ICU_SUCCESS, set_bits ICU_PERI_CLK_MUX (push_bit (unat v) 1) m))"
| "icu_ctrl CMD_CONF_PWM_LPOCLK param m =
     deref param (\<lambda>v. Ret (ICU_SUCCESS, set_bits ICU_PWM_CLK_MUX (push_bit (unat v) 1) m))"
| "icu_ctrl CMD_CONF_PCLK_DCO param m =
     deref param (\<lambda>v. Ret (ICU_SUCCESS, clr_bits ICU_PERI_CLK_MUX (push_bit (unat v) 1) m))"
| "icu_ctrl CMD_CONF_PWM_PCLK param m =
     deref param (\<lambda>v. Ret (ICU_SUCCESS, clr_bits ICU_PWM_CLK_MUX (push_bit (unat v) 1) m))"
| "icu_ctrl CMD_CLK_PWR_UP param m =
     deref param (\<lambda>v. Ret (ICU_SUCCESS, clr_bits ICU_PERI_CLK_PWD v m))"
| "icu_ctrl CMD_CLK_PWR_DOWN param m =
     deref param (\<lambda>v. Ret (ICU_SUCCESS, set_bits ICU_PERI_CLK_PWD v m))"
| "icu_ctrl CMD_TL410_CLK_PWR_UP param m =
     deref param (\<lambda>v. Ret (ICU_SUCCESS, clr_bits ICU_TL410_CLK_PWD v m))"
| "icu_ctrl CMD_TL410_CLK_PWR_DOWN param m =
     deref param (\<lambda>v. Ret (ICU_SUCCESS, set_bits ICU_TL410_CLK_PWD v m))"
| "icu_ctrl CMD_ICU_CLKGATING_DISABLE param m =
     deref param (\<lambda>v. Ret (ICU_SUCCESS, set_bits ICU_PERI_CLK_GATING v m))"
| "icu_ctrl CMD_ICU_CLKGATING_ENABLE param m =
     deref param (\<lambda>v. Ret (ICU_SUCCESS, clr_bits ICU_PERI_CLK_GATING v m))"
| "icu_ctrl CMD_ICU_INT_DISABLE param m =
     deref param (\<lambda>v. Ret (ICU_SUCCESS, clr_bits ICU_INTERRUPT_ENABLE v m))"
| "icu_ctrl CMD_ICU_INT_ENABLE param m =
     deref param (\<lambda>v. Ret (ICU_SUCCESS, set_bits ICU_INTERRUPT_ENABLE v m))"
| "icu_ctrl CMD_ICU_GLOBAL_INT_DISABLE param m =
     deref param (\<lambda>v. Ret (ICU_SUCCESS, clr_bits ICU_GLOBAL_INT_EN v m))"
| "icu_ctrl CMD_ICU_GLOBAL_INT_ENABLE param m =
     deref param (\<lambda>v. Ret (ICU_SUCCESS, set_bits ICU_GLOBAL_INT_EN v m))"
| "icu_ctrl CMD_GET_INTR_STATUS param m = Ret (REG_READ ICU_INT_STATUS m, m)"
| "icu_ctrl CMD_CLR_INTR_STATUS param m =
     asserted param (deref param (\<lambda>v. Ret (ICU_SUCCESS,
       REG_WRITE ICU_INT_STATUS (REG_READ ICU_INT_STATUS m OR v) m)))"
| "icu_ctrl CMD_GET_INTR_RAW_STATUS param m = Ret (REG_READ ICU_INT_RAW_STATUS m, m)"
| "icu_ctrl CMD_CLR_INTR_RAW_STATUS param m =
     asserted param (deref param (\<lambda>v. Ret (ICU_SUCCESS,
       REG_WRITE ICU_INT_RAW_STATUS (REG_READ ICU_INT_RAW_STATUS m OR v) m)))"
| "icu_ctrl CMD_SET_JTAG_MODE param m =
     asserted param (deref param (\<lambda>v. Ret (ICU_SUCCESS,
       if v = JTAG_ARM_MODE then REG_WRITE ICU_JTAG_SELECT JTAG_SEL_WR_ARM m
       else if v = JTAG_TL410_MODE then REG_WRITE ICU_JTAG_SELECT JTAG_SEL_WR_TL4 m
       else m)))"
| "icu_ctrl CMD_GET_JTAG_MODE param m = Ret (REG_READ ICU_JTAG_SELECT m, m)"
| "icu_ctrl CMD_ARM_WAKEUP param m =
     deref param (\<lambda>v. Ret (ICU_SUCCESS, REG_WRITE ICU_ARM_WAKEUP_EN v m))"
| "icu_ctrl CMD_UNKNOWN param m = Ret (ICU_SUCCESS, m)"

text \<open>A call whose parameter is a variable of the caller: the register file afterwards.\<close>

definition icu_do :: "icu_cmd \<Rightarrow> u32 \<Rightarrow> regs \<Rightarrow> regs" where
  "icu_do cmd v m = (case icu_ctrl cmd (Some v) m of Ret (_, m') \<Rightarrow> m' | _ \<Rightarrow> m)"

text \<open>\<open>icu_init\<close> after it has registered the device.\<close>

definition icu_init :: "regs \<Rightarrow> regs" where
  "icu_init m = icu_do CMD_ICU_INT_DISABLE (FIQ_MAILBOX0_BIT OR FIQ_MAILBOX1_BIT)
     (icu_do CMD_CONF_PCLK_26M PCLK_POSI m)"

section \<open>Which command touches which register\<close>

fun cmd_reg :: "icu_cmd \<Rightarrow> u32 option" where
  "cmd_reg CMD_CONF_PCLK_26M = Some ICU_PERI_CLK_MUX"
| "cmd_reg CMD_CONF_PCLK_DCO = Some ICU_PERI_CLK_MUX"
| "cmd_reg CMD_CONF_PWM_LPOCLK = Some ICU_PWM_CLK_MUX"
| "cmd_reg CMD_CONF_PWM_PCLK = Some ICU_PWM_CLK_MUX"
| "cmd_reg CMD_CLK_PWR_UP = Some ICU_PERI_CLK_PWD"
| "cmd_reg CMD_CLK_PWR_DOWN = Some ICU_PERI_CLK_PWD"
| "cmd_reg CMD_TL410_CLK_PWR_UP = Some ICU_TL410_CLK_PWD"
| "cmd_reg CMD_TL410_CLK_PWR_DOWN = Some ICU_TL410_CLK_PWD"
| "cmd_reg CMD_ICU_CLKGATING_DISABLE = Some ICU_PERI_CLK_GATING"
| "cmd_reg CMD_ICU_CLKGATING_ENABLE = Some ICU_PERI_CLK_GATING"
| "cmd_reg CMD_ICU_INT_DISABLE = Some ICU_INTERRUPT_ENABLE"
| "cmd_reg CMD_ICU_INT_ENABLE = Some ICU_INTERRUPT_ENABLE"
| "cmd_reg CMD_ICU_GLOBAL_INT_DISABLE = Some ICU_GLOBAL_INT_EN"
| "cmd_reg CMD_ICU_GLOBAL_INT_ENABLE = Some ICU_GLOBAL_INT_EN"
| "cmd_reg CMD_CLR_INTR_STATUS = Some ICU_INT_STATUS"
| "cmd_reg CMD_CLR_INTR_RAW_STATUS = Some ICU_INT_RAW_STATUS"
| "cmd_reg CMD_SET_JTAG_MODE = Some ICU_JTAG_SELECT"
| "cmd_reg CMD_ARM_WAKEUP = Some ICU_ARM_WAKEUP_EN"
| "cmd_reg CMD_GET_INTR_STATUS = None"
| "cmd_reg CMD_GET_INTR_RAW_STATUS = None"
| "cmd_reg CMD_GET_JTAG_MODE = None"
| "cmd_reg CMD_UNKNOWN = None"

lemma bits_other [simp]:
  "a \<noteq> b \<Longrightarrow> set_bits a v m b = m b" "a \<noteq> b \<Longrightarrow> clr_bits a v m b = m b"
  "a \<noteq> b \<Longrightarrow> REG_WRITE a v m b = m b"
  by (simp_all add: set_bits_def clr_bits_def REG_WRITE_def)

lemma bits_same:
  "set_bits a v m a = m a OR v" "clr_bits a v m a = m a AND NOT v" "REG_WRITE a v m a = v"
  by (simp_all add: set_bits_def clr_bits_def REG_WRITE_def REG_READ_def)

lemma icu_frame:
  "icu_ctrl cmd param m = Ret (r, m') \<Longrightarrow> cmd_reg cmd \<noteq> Some addr \<Longrightarrow> m' addr = m addr"
  by (cases cmd) (auto simp: deref_def asserted_def split: option.splits if_splits)

section \<open>Interrupt lines\<close>

definition intc_enable :: "nat \<Rightarrow> regs \<Rightarrow> regs" where
  "intc_enable index m = icu_do CMD_ICU_INT_ENABLE (push_bit index 1) m"

definition intc_disable :: "nat \<Rightarrow> regs \<Rightarrow> regs" where
  "intc_disable index m = icu_do CMD_ICU_INT_DISABLE (push_bit index 1) m"

definition line_on :: "regs \<Rightarrow> nat \<Rightarrow> bool" where
  "line_on m k = bit (m ICU_INTERRUPT_ENABLE) k"

text \<open>
  What the interrupt controller's client relies on: switching a line on or off changes that line
  alone.
\<close>

locale irq_lines =
  fixes on :: "nat \<Rightarrow> 'c \<Rightarrow> 'c"
    and off :: "nat \<Rightarrow> 'c \<Rightarrow> 'c"
    and line :: "'c \<Rightarrow> nat \<Rightarrow> bool"
    and lines :: nat
  assumes on_line: "k < lines \<Longrightarrow> j < lines \<Longrightarrow> line (on k c) j = (j = k \<or> line c j)"
    and off_line: "k < lines \<Longrightarrow> j < lines \<Longrightarrow> line (off k c) j = (j \<noteq> k \<and> line c j)"
begin

lemma all_on: "list_all (\<lambda>k. k < lines) ks \<Longrightarrow> j < lines \<Longrightarrow>
    line (fold on ks c) j = (j \<in> set ks \<or> line c j)"
  by (induction ks arbitrary: c) (auto simp: on_line)

lemma all_off: "list_all (\<lambda>k. k < lines) ks \<Longrightarrow> j < lines \<Longrightarrow>
    line (fold off ks c) j = (j \<notin> set ks \<and> line c j)"
  by (induction ks arbitrary: c) (auto simp: off_line)

end

interpretation icu: irq_lines intc_enable intc_disable line_on 32
  by unfold_locales
    (auto simp: intc_enable_def intc_disable_def line_on_def icu_do_def deref_def bits_same
      bit_or_iff bit_and_iff bit_not_iff bit_push_bit_iff bit_exp_iff)

section \<open>Properties\<close>

text \<open>
  A command changes no register but its own; the enable and disable commands of a register
  set and clear exactly the bits of their parameter there.
\<close>

theorem icu_ctrl_frame:
  "(case icu_ctrl cmd param m of Ret (r, m') \<Rightarrow> m' = m(the (cmd_reg cmd) := m' (the (cmd_reg cmd))) \<or> m' = m
     | _ \<Rightarrow> param = None) \<and>
   bit (icu_do CMD_ICU_INT_ENABLE v m ICU_INTERRUPT_ENABLE) k =
     (bit (m ICU_INTERRUPT_ENABLE) k \<or> bit v k) \<and>
   bit (icu_do CMD_ICU_INT_DISABLE v m ICU_INTERRUPT_ENABLE) k =
     (bit (m ICU_INTERRUPT_ENABLE) k \<and> \<not> bit v k) \<and>
   bit (icu_do CMD_CLK_PWR_DOWN v m ICU_PERI_CLK_PWD) k = (bit (m ICU_PERI_CLK_PWD) k \<or> bit v k) \<and>
   bit (icu_do CMD_CLK_PWR_UP v m ICU_PERI_CLK_PWD) k = (bit (m ICU_PERI_CLK_PWD) k \<and> \<not> bit v k)"
proof -
  have "case icu_ctrl cmd param m of Ret (r, m') \<Rightarrow> m' = m(the (cmd_reg cmd) := m' (the (cmd_reg cmd))) \<or> m' = m
     | _ \<Rightarrow> param = None"
    by (cases cmd; cases param)
      (auto simp: deref_def asserted_def set_bits_def clr_bits_def REG_WRITE_def)
  moreover have "bit v k \<Longrightarrow> k < 32"
    using bit_imp_le_length [of v k] by simp
  ultimately show ?thesis
    by (auto simp: icu_do_def deref_def bits_same bit_or_iff bit_and_iff bit_not_iff
        dest: bit_imp_le_length)
qed

end
