(* ===== verification/Intc.thy ===== *)
theory Intc
  imports Icu
begin

text \<open>
  The interrupt dispatcher, \<open>beken378/driver/intc/intc.c\<close>, over the intrusive doubly linked lists
  of \<open>doubly_list.h\<close>. The list nodes live inside the array \<open>_isrs\<close>; the links are an explicit
  store, the maps \<open>nxt\<close> and \<open>prv\<close> over the header node and the 32 array nodes, because the
  dispatcher's behaviour depends on their aliasing. A handler is a function on the state
  \<open>'w\<close> of the rest of the system, \<open>None\<close> a NULL pointer; it does not touch the list.
\<close>

section \<open>State\<close>

datatype lnode = Hdr | Isr nat

record 'w isr_t =
  isr_func :: "('w \<Rightarrow> 'w) option"
  isr_pri :: u8
  isr_num :: u8

record 'w intc =
  isrs :: "'w isr_t list"
  nxt :: "lnode \<Rightarrow> lnode"
  prv :: "lnode \<Rightarrow> lnode"
  isrs_mask :: u32

definition INTC_MAX_COUNT :: nat where "INTC_MAX_COUNT = 32"

definition BIT :: "nat \<Rightarrow> u32" where "BIT i = push_bit i 1"

text \<open>The static initialisers: no handler, an empty list.\<close>

definition intc_start :: "'w intc" where
  "intc_start = \<lparr>isrs = replicate INTC_MAX_COUNT \<lparr>isr_func = None, isr_pri = 0, isr_num = 0\<rparr>,
     nxt = (\<lambda>_. Hdr), prv = (\<lambda>_. Hdr), isrs_mask = 0\<rparr>"

section \<open>Lists\<close>

definition list_add_between :: "lnode \<Rightarrow> lnode \<Rightarrow> lnode \<Rightarrow> 'w intc \<Rightarrow> 'w intc" where
  "list_add_between new p n s =
     (let s1 = s\<lparr>prv := (prv s)(n := new)\<rparr>;
          s2 = s1\<lparr>nxt := (nxt s1)(new := n)\<rparr>;
          s3 = s2\<lparr>prv := (prv s2)(new := p)\<rparr>
      in s3\<lparr>nxt := (nxt s3)(p := new)\<rparr>)"

definition list_add_head :: "lnode \<Rightarrow> lnode \<Rightarrow> 'w intc \<Rightarrow> 'w intc" where
  "list_add_head new head s = list_add_between new head (nxt s head) s"

definition list_add_tail :: "lnode \<Rightarrow> lnode \<Rightarrow> 'w intc \<Rightarrow> 'w intc" where
  "list_add_tail new head s = list_add_between new (prv s head) head s"

definition list_empty :: "'w intc \<Rightarrow> bool" where
  "list_empty s \<longleftrightarrow> nxt s Hdr = Hdr"

section \<open>Registration\<close>

text \<open>
  The loop over the list: where the new entry goes. \<open>None\<close> is a walk that never comes back to the
  header.
\<close>

datatype isr_place = Place_Before nat | Place_Clash | Place_End

partial_function (option) find_place :: "'w intc \<Rightarrow> u8 \<Rightarrow> lnode \<Rightarrow> isr_place option" where
  "find_place s p pos =
     (case pos of
        Hdr \<Rightarrow> Some Place_End
      | Isr k \<Rightarrow>
          (if p < isr_pri (isrs s ! k) then Some (Place_Before k)
           else if p = isr_pri (isrs s ! k) then Some Place_Clash
           else find_place s p (nxt s pos)))"

definition intc_service_register ::
    "u8 \<Rightarrow> u8 \<Rightarrow> ('w \<Rightarrow> 'w) option \<Rightarrow> 'w intc \<Rightarrow> 'w intc c_run option" where
  "intc_service_register int_num int_pri isr s0 =
     (let i = unat int_num in
      if INTC_MAX_COUNT \<le> i then Some Fault
      else
        (let s = s0\<lparr>isrs := (isrs s0)[i := \<lparr>isr_func = isr, isr_pri = int_pri, isr_num = int_num\<rparr>]\<rparr>;
             done = (\<lambda>s'. Some (Ret (s'\<lparr>isrs_mask := isrs_mask s' OR BIT i\<rparr>)))
         in if list_empty s then done (list_add_head (Isr i) Hdr s)
            else
              (case find_place s int_pri (nxt s Hdr) of
                 None \<Rightarrow> None
               | Some (Place_Before k) \<Rightarrow> done (list_add_tail (Isr i) (Isr k) s)
               | Some Place_End \<Rightarrow> done (list_add_tail (Isr i) Hdr s)
               | Some Place_Clash \<Rightarrow> Some (Ret (s\<lparr>isrs := (isrs s)[i := isrs s0 ! i]\<rparr>)))))"

text \<open>The priority search of \<open>intc_service_change_handler\<close>.\<close>

partial_function (option) has_priority :: "'w intc \<Rightarrow> u8 \<Rightarrow> lnode \<Rightarrow> bool option" where
  "has_priority s p pos =
     (case pos of
        Hdr \<Rightarrow> Some False
      | Isr k \<Rightarrow> if p = isr_pri (isrs s ! k) then Some True else has_priority s p (nxt s pos))"

definition intc_service_change_handler ::
    "u8 \<Rightarrow> ('w \<Rightarrow> 'w) option \<Rightarrow> 'w intc \<Rightarrow> 'w intc c_run option" where
  "intc_service_change_handler int_num isr s =
     (let i = unat int_num in
      if INTC_MAX_COUNT \<le> i then Some Fault
      else
        (let cur = isrs s ! i in
         if isr_func cur = None then Some (Ret s)
         else if list_empty s then Some (Ret (s\<lparr>isrs := (isrs s)[i := cur]\<rparr>))
         else
           (case has_priority s (isr_pri cur) (nxt s Hdr) of
              None \<Rightarrow> None
            | Some found \<Rightarrow>
                Some (Ret (s\<lparr>isrs := (isrs s)[i := (if found then cur\<lparr>isr_func := isr\<rparr> else cur)]\<rparr>)))))"

section \<open>Dispatch\<close>

partial_function (option) intc_walk :: "'w intc \<Rightarrow> lnode \<Rightarrow> u32 \<Rightarrow> 'w \<Rightarrow> 'w c_run option" where
  "intc_walk s pos stat w =
     (case pos of
        Hdr \<Rightarrow> Some (Ret w)
      | Isr k \<Rightarrow>
          (let f = isrs s ! k; i = unat (isr_num f) in
           if BIT i AND stat \<noteq> 0 then
             (case isr_func f of
                None \<Rightarrow> Some Fault
              | Some g \<Rightarrow>
                  (let stat' = stat AND NOT (BIT i) in
                   if stat' = 0 then Some (Ret (g w)) else intc_walk s (nxt s pos) stat' (g w)))
           else if stat = 0 then Some (Ret w) else intc_walk s (nxt s pos) stat w))"

text \<open>\<open>wake\<close> is \<open>power_save_dtim_wake\<close>, which the BK7231 configuration calls first.\<close>

definition intc_hdl_entry :: "(u32 \<Rightarrow> 'w \<Rightarrow> 'w) \<Rightarrow> 'w intc \<Rightarrow> u32 \<Rightarrow> 'w \<Rightarrow> 'w c_run option" where
  "intc_hdl_entry wake s int_status w =
     (let stat = int_status AND isrs_mask s
      in intc_walk s (nxt s Hdr) stat (wake stat w))"

text \<open>
  The two exceptions: they read the pending lines, acknowledge their half and dispatch it. The
  register file is the unit's after the acknowledgement.
\<close>

definition intc_irq ::
    "(u32 \<Rightarrow> 'w \<Rightarrow> 'w) \<Rightarrow> 'w intc \<Rightarrow> regs \<Rightarrow> 'w \<Rightarrow> regs \<times> 'w c_run option" where
  "intc_irq wake s m w =
     (let irq_status = REG_READ ICU_INT_STATUS m AND 0xFFFF
      in (icu_do CMD_CLR_INTR_STATUS irq_status m, intc_hdl_entry wake s irq_status w))"

definition intc_fiq ::
    "(u32 \<Rightarrow> 'w \<Rightarrow> 'w) \<Rightarrow> 'w intc \<Rightarrow> regs \<Rightarrow> 'w \<Rightarrow> regs \<times> 'w c_run option" where
  "intc_fiq wake s m w =
     (let fiq_status = REG_READ ICU_INT_STATUS m AND 0xFFFF0000
      in (icu_do CMD_CLR_INTR_STATUS fiq_status m, intc_hdl_entry wake s fiq_status w))"

section \<open>Switching lines\<close>

text \<open>\<open>intc_init\<close> enables the lines of the wireless subsystem, \<open>intc_deinit\<close> disables 0 to 28.\<close>

definition intc_init_lines :: "nat list" where
  "intc_init_lines = [22, 21, 20, 19, 18, 17, 16]"

definition intc_init :: "regs \<Rightarrow> regs" where
  "intc_init m = icu_do CMD_ICU_GLOBAL_INT_ENABLE (GINTR_FIQ_BIT OR GINTR_IRQ_BIT)
     (fold intc_enable intc_init_lines m)"

definition intc_deinit :: "regs \<Rightarrow> regs" where
  "intc_deinit m = icu_do CMD_ICU_GLOBAL_INT_DISABLE (GINTR_FIQ_BIT OR GINTR_IRQ_BIT)
     (fold intc_disable [0..<29] m)"

section \<open>Well-formed lists\<close>

text \<open>\<open>linked s a xs b\<close>: the nodes \<open>xs\<close> lead from \<open>a\<close> to \<open>b\<close>, forwards and backwards.\<close>

fun linked :: "'w intc \<Rightarrow> lnode \<Rightarrow> nat list \<Rightarrow> lnode \<Rightarrow> bool" where
  "linked s a [] b \<longleftrightarrow> nxt s a = b \<and> prv s b = a"
| "linked s a (x # xs) b \<longleftrightarrow> nxt s a = Isr x \<and> prv s (Isr x) = a \<and> linked s (Isr x) xs b"

definition intc_ok :: "'w intc \<Rightarrow> nat list \<Rightarrow> bool" where
  "intc_ok s xs \<longleftrightarrow> length (isrs s) = 32 \<and> linked s Hdr xs Hdr \<and>
     sorted_wrt (\<lambda>a b. isr_pri (isrs s ! a) < isr_pri (isrs s ! b)) xs \<and>
     (\<forall>k \<in> set xs. k < 32 \<and> unat (isr_num (isrs s ! k)) = k \<and> isr_func (isrs s ! k) \<noteq> None) \<and>
     (\<forall>k. bit (isrs_mask s) k \<longleftrightarrow> k \<in> set xs)"

lemma linked_append:
  "linked s a (xs @ y # ys) b \<longleftrightarrow> linked s a xs (Isr y) \<and> linked s (Isr y) ys b"
  by (induction xs arbitrary: a) auto

lemma linked_first: "linked s a xs b \<Longrightarrow> nxt s a = (case xs of [] \<Rightarrow> b | x # _ \<Rightarrow> Isr x)"
  by (cases xs) auto

lemma linked_last: "linked s a xs b \<Longrightarrow> prv s b = (if xs = [] then a else Isr (last xs))"
  by (induction xs arbitrary: a) auto

lemma linked_cong:
  "nxt s' a = nxt s a \<Longrightarrow> prv s' b = prv s b \<Longrightarrow>
     \<forall>x \<in> set xs. nxt s' (Isr x) = nxt s (Isr x) \<and> prv s' (Isr x) = prv s (Isr x) \<Longrightarrow>
     linked s' a xs b = linked s a xs b"
  by (induction xs arbitrary: a) auto

lemma list_add_between_links:
  "nxt (list_add_between new p n s) = (nxt s)(new := n, p := new)"
  "prv (list_add_between new p n s) = (prv s)(n := new, new := p)"
  "isrs (list_add_between new p n s) = isrs s"
  "isrs_mask (list_add_between new p n s) = isrs_mask s"
  by (simp_all add: list_add_between_def Let_def)

definition succ_node :: "nat list \<Rightarrow> lnode" where
  "succ_node ys = (case ys of [] \<Rightarrow> Hdr | y # _ \<Rightarrow> Isr y)"

lemma linked_insert:
  assumes l: "linked s Hdr (xs @ ys) Hdr" and d: "distinct (xs @ ys)" "n \<notin> set (xs @ ys)"
  shows "linked (list_add_tail (Isr n) (succ_node ys) s) Hdr (xs @ n # ys) Hdr"
proof -
  define p where "p = (if xs = [] then Hdr else Isr (last xs))"
  have prev: "prv s (succ_node ys) = p"
  proof (cases ys)
    case Nil
    with l show ?thesis by (auto simp: succ_node_def p_def linked_last)
  next
    case (Cons y zs)
    with l show ?thesis by (auto simp: succ_node_def p_def linked_append linked_last)
  qed
  have lastx: "xs \<noteq> [] \<Longrightarrow> last xs \<notin> set ys"
    using d(1) by (metis disjoint_iff distinct_append last_in_set)
  let ?s = "list_add_between (Isr n) p (succ_node ys) s"
  have pn: "p \<noteq> Isr n" "succ_node ys \<noteq> Isr n"
    using d(2) by (auto simp: p_def succ_node_def split: list.split)
  have "linked ?s Hdr xs (Isr n)"
  proof (cases xs rule: rev_cases)
    case Nil
    with pn show ?thesis by (simp add: list_add_between_links p_def)
  next
    case (snoc zs z)
    have "linked s Hdr zs (Isr z)" using l snoc by (simp add: linked_append)
    then have "linked ?s Hdr zs (Isr z)"
      using d snoc by (subst linked_cong [of _ _ s])
        (auto simp: list_add_between_links p_def succ_node_def split: list.split)
    with snoc pn show ?thesis by (simp add: linked_append list_add_between_links p_def)
  qed
  moreover have "linked ?s (Isr n) ys Hdr"
  proof (cases ys)
    case Nil
    with pn show ?thesis by (simp add: list_add_between_links succ_node_def)
  next
    case (Cons y zs)
    have "linked s (Isr y) zs Hdr" using l Cons by (simp add: linked_append)
    then have "linked ?s (Isr y) zs Hdr"
      using d Cons lastx by (subst linked_cong [of _ _ s])
        (auto simp: list_add_between_links p_def succ_node_def)
    with Cons pn show ?thesis by (auto simp: list_add_between_links succ_node_def)
  qed
  ultimately show ?thesis
    by (simp add: list_add_tail_def prev linked_append)
qed

lemma find_place_linked:
  "linked s a xs Hdr \<Longrightarrow> find_place s p (nxt s a) =
     Some (case dropWhile (\<lambda>k. isr_pri (isrs s ! k) < p) xs of
        [] \<Rightarrow> Place_End
      | k # _ \<Rightarrow> if p = isr_pri (isrs s ! k) then Place_Clash else Place_Before k)"
proof (induction xs arbitrary: a)
  case Nil
  then show ?case by (subst find_place.simps) simp
next
  case (Cons x xs)
  then show ?case by (subst find_place.simps) (auto split: list.split)
qed

lemma has_priority_linked:
  "linked s a xs Hdr \<Longrightarrow> has_priority s p (nxt s a) =
     Some (list_ex (\<lambda>k. p = isr_pri (isrs s ! k)) xs)"
proof (induction xs arbitrary: a)
  case Nil
  then show ?case by (subst has_priority.simps) simp
next
  case (Cons x xs)
  then show ?case by (subst has_priority.simps) auto
qed

lemma BIT_pending: "k < 32 \<Longrightarrow> BIT k AND stat \<noteq> 0 \<longleftrightarrow> bit stat k"
proof
  assume "k < 32" "BIT k AND stat \<noteq> 0"
  then obtain j where "bit (BIT k AND stat) j" by (auto simp: bit_eq_iff)
  then show "bit stat k" by (auto simp: BIT_def bit_and_iff bit_exp_iff)
next
  assume "k < 32" "bit stat k"
  then have "bit (BIT k AND stat) k" by (simp add: BIT_def bit_and_iff bit_exp_iff)
  then show "BIT k AND stat \<noteq> 0" by auto
qed

lemma bit_clear_BIT: "bit (stat AND NOT (BIT k)) j \<longleftrightarrow> bit stat j \<and> j \<noteq> k"
  by (auto simp: BIT_def bit_and_iff bit_not_iff bit_exp_iff dest: bit_imp_le_length)

lemma bit_BIT: "k < 32 \<Longrightarrow> bit (BIT k) j \<longleftrightarrow> j = k"
  by (auto simp: BIT_def bit_exp_iff)

lemma bit_set_BIT: "k < 32 \<Longrightarrow> bit (m OR BIT k :: u32) j \<longleftrightarrow> bit m j \<or> j = k"
  by (auto simp: BIT_def bit_or_iff bit_exp_iff)

text \<open>The walk runs the handlers of the pending lines in list order, each once.\<close>

lemma intc_walk_linked:
  "linked s a xs Hdr \<Longrightarrow> distinct xs \<Longrightarrow>
     \<forall>k \<in> set xs. k < 32 \<and> unat (isr_num (isrs s ! k)) = k \<and> isr_func (isrs s ! k) \<noteq> None \<Longrightarrow>
     intc_walk s (nxt s a) stat w =
       Some (Ret (fold (\<lambda>k. the (isr_func (isrs s ! k))) (filter (bit stat) xs) w))"
proof (induction xs arbitrary: a stat w)
  case Nil
  then show ?case by (subst intc_walk.simps) simp
next
  case (Cons k xs)
  from Cons.prems have k: "k < 32" "unat (isr_num (isrs s ! k)) = k" "nxt s a = Isr k"
    by auto
  obtain g where g: "isr_func (isrs s ! k) = Some g" using Cons.prems by auto
  have rest: "intc_walk s (nxt s (Isr k)) st v =
      Some (Ret (fold (\<lambda>k. the (isr_func (isrs s ! k))) (filter (bit st) xs) v))" for st v
    using Cons by auto
  show ?case
  proof (cases "bit stat k")
    case True
    let ?st = "stat AND NOT (BIT k)"
    have "filter (bit stat) xs = filter (bit ?st) xs"
      using Cons.prems(2) by (intro filter_cong) (auto simp: bit_clear_BIT)
    moreover have "?st = 0 \<Longrightarrow> filter (bit ?st) xs = []" by simp
    ultimately show ?thesis
      using True k g rest by (subst intc_walk.simps) (simp add: BIT_pending Let_def)
  next
    case False
    with k g rest show ?thesis
      by (subst intc_walk.simps) (simp add: BIT_pending [unfolded not_None_eq] Let_def)
  qed
qed

lemma list_empty_linked: "linked s Hdr xs Hdr \<Longrightarrow> list_empty s \<longleftrightarrow> xs = []"
  by (cases xs) (auto simp: list_empty_def)

lemma list_add_head_empty: "linked s Hdr [] Hdr \<Longrightarrow> list_add_head n Hdr s = list_add_tail n Hdr s"
  by (simp add: list_add_head_def list_add_tail_def)

lemma linked_isrs [simp]: "linked (s\<lparr>isrs := x\<rparr>) a xs b = linked s a xs b"
  "linked (s\<lparr>isrs_mask := m\<rparr>) a xs b = linked s a xs b"
  by (induction xs arbitrary: a) simp_all

lemma list_add_tail_fields [simp]:
  "isrs (list_add_tail n t s) = isrs s" "isrs_mask (list_add_tail n t s) = isrs_mask s"
  by (simp_all add: list_add_tail_def list_add_between_links)

text \<open>The priorities a list is sorted by, with one slot overwritten.\<close>

definition by_pri :: "'w isr_t list \<Rightarrow> nat list \<Rightarrow> bool" where
  "by_pri t xs \<longleftrightarrow> sorted_wrt (\<lambda>a b. isr_pri (t ! a) < isr_pri (t ! b)) xs"

lemma by_pri_insert:
  assumes "by_pri t xs" "i \<notin> set xs" "i < length t"
    and "\<forall>k \<in> set xs. isr_pri (t ! k) \<noteq> p"
  shows "by_pri (t[i := d\<lparr>isr_pri := p\<rparr>])
    (takeWhile (\<lambda>k. isr_pri (t ! k) < p) xs @ i # dropWhile (\<lambda>k. isr_pri (t ! k) < p) xs)"
  using assms
proof (induction xs)
  case (Cons x xs)
  then have "i \<noteq> x" by auto
  show ?case
  proof (cases "isr_pri (t ! x) < p")
    case True
    with Cons \<open>i \<noteq> x\<close> show ?thesis
      by (auto simp: by_pri_def nth_list_update dest: set_takeWhileD set_dropWhileD)
  next
    case False
    with Cons.prems(4) have "p < isr_pri (t ! x)" by (auto simp: not_less le_less)
    moreover have upd: "t[i := d\<lparr>isr_pri := p\<rparr>] ! k = t ! k" if "k \<in> set (x # xs)" for k
      using that Cons.prems(2) by (intro nth_list_update_neq) auto
    moreover have "sorted_wrt (\<lambda>a b. isr_pri (t[i := d\<lparr>isr_pri := p\<rparr>] ! a)
        < isr_pri (t[i := d\<lparr>isr_pri := p\<rparr>] ! b)) (x # xs)"
      using Cons.prems(1) unfolding by_pri_def
      by (rule sorted_wrt_mono_rel [rotated]) (simp only: upd)
    moreover have "\<forall>k \<in> set (x # xs). p < isr_pri (t ! k)"
      using Cons.prems(1) calculation(1) by (auto simp: by_pri_def intro: less_trans)
    ultimately show ?thesis
      using False Cons.prems(3) by (simp add: by_pri_def)
  qed
qed (simp add: by_pri_def)

lemma intc_ok_by_pri: "intc_ok s xs \<Longrightarrow> by_pri (isrs s) xs"
  by (simp add: intc_ok_def by_pri_def)

lemma intc_ok_distinct: "intc_ok s xs \<Longrightarrow> distinct xs"
proof -
  have "sorted_wrt (\<lambda>a b. isr_pri (t ! a) < isr_pri (t ! b)) xs \<Longrightarrow> distinct xs" for t :: "'a isr_t list"
    by (induction xs) auto
  then show "intc_ok s xs \<Longrightarrow> distinct xs" by (auto simp: intc_ok_def)
qed

definition pri_place :: "'w isr_t list \<Rightarrow> u8 \<Rightarrow> nat \<Rightarrow> nat list \<Rightarrow> nat list" where
  "pri_place t p i xs = takeWhile (\<lambda>k. isr_pri (t ! k) < p) xs @ i # dropWhile (\<lambda>k. isr_pri (t ! k) < p) xs"

lemma set_pri_place [simp]: "set (pri_place t p i xs) = insert i (set xs)"
  unfolding pri_place_def set_append list.set
  using takeWhile_dropWhile_id [of "\<lambda>k. isr_pri (t ! k) < p" xs] by (metis Un_insert_right set_append)

lemma drop_head_clash:
  assumes "by_pri t xs" "k \<in> set xs" "isr_pri (t ! k) = p"
  shows "\<exists>ys. dropWhile (\<lambda>k. isr_pri (t ! k) < p) xs = k # ys"
  using assms by (induction xs) (auto simp: by_pri_def)

text \<open>Registering a line that is not in the list yet.\<close>

lemma register_new:
  fixes s :: "'w intc"
  assumes ok: "intc_ok s xs" and n: "unat num < 32" "unat num \<notin> set xs" and f: "isr \<noteq> None"
  shows "\<exists>s'. intc_service_register num p isr s = Some (Ret s') \<and>
     (if \<exists>k \<in> set xs. isr_pri (isrs s ! k) = p then s' = s
      else intc_ok s' (pri_place (isrs s) p (unat num) xs) \<and>
        isrs s' = (isrs s)[unat num := \<lparr>isr_func = isr, isr_pri = p, isr_num = num\<rparr>])"
proof -
  define i where "i = unat num"
  let ?e = "\<lparr>isr_func = isr, isr_pri = p, isr_num = num\<rparr>"
  let ?t = "(isrs s)[i := ?e]"
  let ?s = "s\<lparr>isrs := ?t\<rparr>"
  define ys where "ys = dropWhile (\<lambda>k. isr_pri (isrs s ! k) < p) xs"
  define zs where "zs = takeWhile (\<lambda>k. isr_pri (isrs s ! k) < p) xs"
  have len: "length (isrs s) = 32" and l: "linked s Hdr xs Hdr" using ok by (auto simp: intc_ok_def)
  have xs: "xs = zs @ ys" by (simp add: zs_def ys_def)
  have same: "isr_pri (?t ! k) = isr_pri (isrs s ! k)" if "k \<in> set xs" for k
    using that n by (cases "k = i") (auto simp: i_def)
  have drop: "dropWhile (\<lambda>k. isr_pri (?t ! k) < p) xs = ys"
    unfolding ys_def by (intro dropWhile_cong) (auto simp: same)
  have place: "find_place ?s p (nxt s Hdr) = Some (case ys of [] \<Rightarrow> Place_End
      | k # _ \<Rightarrow> if p = isr_pri (?t ! k) then Place_Clash else Place_Before k)"
    using find_place_linked [of ?s Hdr xs p] l drop by (cases ys) simp_all
  show ?thesis
  proof (cases "\<exists>k \<in> set xs. isr_pri (isrs s ! k) = p")
    case True
    then obtain k where k: "k \<in> set xs" "isr_pri (isrs s ! k) = p" by blast
    obtain ys' where "ys = k # ys'"
      using drop_head_clash [OF intc_ok_by_pri [OF ok] k] by (auto simp: ys_def)
    with place k same have "find_place ?s p (nxt s Hdr) = Some Place_Clash" by simp
    moreover have "\<not> list_empty ?s" using list_empty_linked [of ?s xs] l k(1) by auto
    ultimately have "intc_service_register num p isr s = Some (Ret s)"
      using n by (simp add: intc_service_register_def INTC_MAX_COUNT_def Let_def i_def)
    with True show ?thesis by simp
  next
    case False
    have d: "distinct (zs @ ys)" "i \<notin> set (zs @ ys)" using intc_ok_distinct [OF ok] n xs i_def by auto
    let ?s' = "(list_add_tail (Isr i) (succ_node ys) ?s)\<lparr>isrs_mask := isrs_mask s OR BIT i\<rparr>"
    have "intc_service_register num p isr s = Some (Ret ?s')"
    proof (cases ys)
      case Nil
      then show ?thesis
        using place n l list_empty_linked [of ?s xs] list_add_head_empty [of ?s "Isr i"]
        by (auto simp: intc_service_register_def INTC_MAX_COUNT_def Let_def i_def [symmetric] succ_node_def)
    next
      case (Cons k ys')
      with False xs same have "p \<noteq> isr_pri (?t ! k)" by auto
      with Cons show ?thesis
        using place n l list_empty_linked [of ?s xs] xs
        by (simp add: intc_service_register_def INTC_MAX_COUNT_def Let_def i_def [symmetric] succ_node_def)
    qed
    moreover have "intc_ok ?s' (pri_place (isrs s) p i xs)"
    proof -
      have "linked ?s' Hdr (pri_place (isrs s) p i xs) Hdr"
        unfolding pri_place_def zs_def [symmetric] ys_def [symmetric]
        using linked_insert [of ?s zs ys i] l d by (simp add: xs)
      moreover have "by_pri ?t (pri_place (isrs s) p i xs)"
        using by_pri_insert [OF intc_ok_by_pri [OF ok], of i p ?e] n False len
        by (simp add: pri_place_def i_def)
      moreover have "bit (isrs_mask ?s') k \<longleftrightarrow> k \<in> insert i (set xs)" for k
        using ok n by (auto simp: intc_ok_def bit_set_BIT i_def)
      moreover have "\<forall>k \<in> insert i (set xs). k < 32 \<and> unat (isr_num (?t ! k)) = k \<and> isr_func (?t ! k) \<noteq> None"
        using ok n f len by (auto simp: intc_ok_def i_def nth_list_update)
      ultimately show ?thesis
        using len n f unfolding intc_ok_def by_pri_def by (simp add: i_def)
    qed
    ultimately show ?thesis using False by (simp add: i_def)
  qed
qed

text \<open>The handlers of the lines \<open>ks\<close>, one after the other.\<close>

definition run_handlers :: "'w intc \<Rightarrow> nat list \<Rightarrow> 'w \<Rightarrow> 'w" where
  "run_handlers s ks w = fold (\<lambda>k. the (isr_func (isrs s ! k))) ks w"

lemma intc_start_ok: "intc_ok intc_start []"
  by (simp add: intc_ok_def intc_start_def INTC_MAX_COUNT_def)

lemma dispatch_order:
  assumes "intc_ok s xs"
  shows "intc_hdl_entry wake s int_status w =
     Some (Ret (run_handlers s (filter (bit int_status) xs) (wake (int_status AND isrs_mask s) w)))"
proof -
  let ?st = "int_status AND isrs_mask s"
  have "filter (bit ?st) xs = filter (bit int_status) xs"
    using assms by (intro filter_cong) (auto simp: intc_ok_def bit_and_iff)
  moreover have "intc_walk s (nxt s Hdr) ?st (wake ?st w) =
      Some (Ret (fold (\<lambda>k. the (isr_func (isrs s ! k))) (filter (bit ?st) xs) (wake ?st w)))"
    using assms intc_ok_distinct [OF assms] by (intro intc_walk_linked) (auto simp: intc_ok_def)
  ultimately show ?thesis by (simp add: intc_hdl_entry_def Let_def run_handlers_def)
qed

section \<open>Properties\<close>

text \<open>
  C18: registering a handler for a line that has none keeps the list of handlers linked both ways,
  sorted by strictly increasing priority number, and in step with the mask of registered lines:
  the new entry goes behind all smaller priorities, and if its priority is taken nothing changes.
\<close>

theorem intc_register_sorted:
  assumes "intc_ok s xs" "unat num < 32" "unat num \<notin> set xs" "isr \<noteq> None"
  shows "\<exists>s'. intc_service_register num p isr s = Some (Ret s') \<and>
     (if \<exists>k \<in> set xs. isr_pri (isrs s ! k) = p then s' = s
      else intc_ok s' (pri_place (isrs s) p (unat num) xs))"
  using register_new [OF assms] by (meson)

text \<open>
  C8: dispatching over a well-formed list ends, and runs exactly the handlers of the lines that are
  pending and registered, each once, in order of priority.
\<close>

theorem intc_dispatch_in_priority_order:
  assumes "intc_ok s xs"
  shows "intc_hdl_entry wake s int_status w =
     Some (Ret (run_handlers s (filter (bit int_status) xs) (wake (int_status AND isrs_mask s) w)))"
  using assms by (rule dispatch_order)

text \<open>
  The IRQ exception dispatches the pending lines 0 to 15 and the FIQ exception 16 to 31; but
  the value each writes back to acknowledge is the whole status register, the other exception's
  pending lines included.
\<close>

theorem intc_irq_fiq_halves:
  assumes "intc_ok s xs"
  shows "snd (intc_irq wake s m w) = Some (Ret (run_handlers s
       (filter (\<lambda>k. k < 16 \<and> bit (m ICU_INT_STATUS) k) xs)
       (wake ((m ICU_INT_STATUS AND 0xFFFF) AND isrs_mask s) w))) \<and>
     snd (intc_fiq wake s m w) = Some (Ret (run_handlers s
       (filter (\<lambda>k. 16 \<le> k \<and> bit (m ICU_INT_STATUS) k) xs)
       (wake ((m ICU_INT_STATUS AND 0xFFFF0000) AND isrs_mask s) w))) \<and>
     fst (intc_irq wake s m w) ICU_INT_STATUS = m ICU_INT_STATUS \<and>
     fst (intc_fiq wake s m w) ICU_INT_STATUS = m ICU_INT_STATUS"
proof -
  let ?st = "m ICU_INT_STATUS"
  have low: "bit (0xFFFF :: u32) k \<longleftrightarrow> k < 16" for k
    using bit_mask_iff [where 'a = u32, of 16 k] by (auto simp: mask_eq_exp_minus_1)
  have all: "(0xFFFF0000 :: u32) = NOT 0xFFFF" by code_simp
  have high: "bit (0xFFFF0000 :: u32) k \<longleftrightarrow> 16 \<le> k \<and> k < 32" for k
    unfolding all bit_not_iff low by auto
  have "k < 32" if "bit ?st k" for k using bit_imp_le_length [OF that] by simp
  then have f: "bit (?st AND 0xFFFF) = (\<lambda>k. k < 16 \<and> bit ?st k)"
    "bit (?st AND 0xFFFF0000) = (\<lambda>k. 16 \<le> k \<and> bit ?st k)"
    unfolding fun_eq_iff bit_and_iff low high by blast+
  have "?st OR ?st AND v = ?st" for v by (auto simp: bit_eq_iff bit_or_iff bit_and_iff)
  then show ?thesis
    by (simp add: intc_irq_def intc_fiq_def dispatch_order [OF assms] Let_def
        icu_do_def deref_def asserted_def bits_same REG_READ_def f)
qed

text \<open>
  \<open>intc_init\<close> switches on exactly the seven lines of the wireless subsystem, 16 to 22, and
  \<open>intc_deinit\<close> switches off lines 0 to 28 but leaves 29 to 31 as they are.
\<close>

theorem intc_init_deinit_lines:
  "k < 32 \<Longrightarrow> line_on (intc_init m) k = (16 \<le> k \<and> k \<le> 22 \<or> line_on m k) \<and>
     line_on (intc_deinit m) k = (29 \<le> k \<and> line_on m k)"
proof -
  assume k: "k < 32"
  have "line_on (intc_init m) k = line_on (fold intc_enable intc_init_lines m) k"
    "line_on (intc_deinit m) k = line_on (fold intc_disable [0..<29] m) k"
    by (simp_all add: intc_init_def intc_deinit_def line_on_def icu_do_def deref_def icu_reg_defs)
  moreover have "k \<in> set intc_init_lines \<longleftrightarrow> 16 \<le> k \<and> k \<le> 22"
    by (auto simp: intc_init_lines_def)
  ultimately show ?thesis
    using icu.all_on [of intc_init_lines k m] icu.all_off [of "[0..<29]" k m] k
    by (auto simp: intc_init_lines_def list_all_iff)
qed

section \<open>Registering a line again\<close>

text \<open>Two nodes that point at each other catch a walk that has work left for a third line.\<close>

lemma intc_walk_caught:
  assumes links: "nxt s (Isr a) = Isr b" "nxt s (Isr b) = Isr a"
    and nums: "unat (isr_num (isrs s ! a)) = a" "unat (isr_num (isrs s ! b)) = b" "a < 32" "b < 32"
    and funcs: "isr_func (isrs s ! a) \<noteq> None" "isr_func (isrs s ! b) \<noteq> None"
    and c: "c \<noteq> a" "c \<noteq> b"
  shows "bit stat c \<Longrightarrow> pos = Isr a \<or> pos = Isr b \<Longrightarrow> intc_walk s pos stat w = None"
proof -
  have "intc_walk s' pos stat w = Some y \<Longrightarrow>
      s' = s \<longrightarrow> (pos = Isr a \<or> pos = Isr b) \<longrightarrow> bit stat c \<longrightarrow> False" for s' pos stat w y
  proof (induct rule: intc_walk.raw_induct [rotated, consumes 1, case_names step])
    case (step walk s' pos stat w y)
    show ?case
    proof (intro impI)
      assume s': "s' = s" and pos: "pos = Isr a \<or> pos = Isr b" and bit: "bit stat c"
      obtain k where k: "pos = Isr k" "k = a \<or> k = b" using pos by auto
      have ks: "unat (isr_num (isrs s ! k)) = k" "k < 32" "c \<noteq> k" "nxt s (Isr k) = Isr a \<or> nxt s (Isr k) = Isr b"
        using k links nums c by auto
      obtain g where g: "isr_func (isrs s ! k) = Some g" using k funcs by auto
      have "bit (stat AND NOT (BIT k)) c" using bit ks by (simp add: bit_clear_BIT)
      then have "stat AND NOT (BIT k) \<noteq> 0" "bit (stat AND NOT (BIT k)) c" "stat \<noteq> 0" using bit by auto
      with step s' k ks g bit show False
        by (auto simp: Let_def split: if_splits)
    qed
  qed
  then show "bit stat c \<Longrightarrow> pos = Isr a \<or> pos = Isr b \<Longrightarrow> intc_walk s pos stat w = None"
    by (cases "intc_walk s pos stat w") auto
qed

text \<open>
  C19: registering the second line of the list again with a smaller priority number than that of the first
  inserts its node, still in the list, a second time: the first two nodes form a loop, and a dispatch
  with a pending line behind them never ends.
\<close>

theorem intc_reregister_hangs:
  assumes ok: "intc_ok s (a # b # ys)" and num: "unat num = b" and p: "p < isr_pri (isrs s ! a)"
    and isr: "isr \<noteq> None" and c: "c \<in> set ys" "bit int_status c"
  shows "\<exists>s'. intc_service_register num p isr s = Some (Ret s') \<and> intc_hdl_entry wake s' int_status w = None"
proof -
  let ?e = "\<lparr>isr_func = isr, isr_pri = p, isr_num = num\<rparr>"
  let ?s = "s\<lparr>isrs := (isrs s)[b := ?e]\<rparr>"
  have l: "linked s Hdr (a # b # ys) Hdr" and d: "distinct (a # b # ys)"
    and len: "length (isrs s) = 32"
    using ok intc_ok_distinct [OF ok] by (auto simp: intc_ok_def)
  have b: "b < 32" "a < 32" "a \<noteq> b" using ok d by (auto simp: intc_ok_def)
  have "find_place ?s p (nxt ?s Hdr) = Some (Place_Before a)"
    using l b p by (subst find_place.simps) simp
  then have reg: "intc_service_register num p isr s =
      Some (Ret ((list_add_tail (Isr b) (Isr a) ?s)\<lparr>isrs_mask := isrs_mask s OR BIT b\<rparr>))"
    using l b num by (simp add: intc_service_register_def INTC_MAX_COUNT_def Let_def list_empty_def)
  let ?s' = "(list_add_tail (Isr b) (Isr a) ?s)\<lparr>isrs_mask := isrs_mask s OR BIT b\<rparr>"
  have links: "nxt ?s' Hdr = Isr b" "nxt ?s' (Isr b) = Isr a" "nxt ?s' (Isr a) = Isr b"
    using l b by (auto simp: list_add_tail_def list_add_between_links)
  have "bit (int_status AND isrs_mask ?s') c"
    using ok c b by (auto simp: bit_and_iff bit_or_iff intc_ok_def)
  then have "intc_walk ?s' (Isr b) (int_status AND isrs_mask ?s') w = None" for w
    using ok d b len num isr c links
    by (intro intc_walk_caught [of _ a b c]) (auto simp: intc_ok_def)
  with links reg show ?thesis by (simp add: intc_hdl_entry_def Let_def)
qed

definition demo_intc :: "nat intc" where
  "demo_intc = \<lparr>isrs = (isrs intc_start)[1 := \<lparr>isr_func = Some Suc, isr_pri = 5, isr_num = 1\<rparr>,
       2 := \<lparr>isr_func = Some Suc, isr_pri = 10, isr_num = 2\<rparr>,
       7 := \<lparr>isr_func = Some (\<lambda>n. n * 10), isr_pri = 20, isr_num = 7\<rparr>],
     nxt = (\<lambda>_. Hdr)(Hdr := Isr 1, Isr 1 := Isr 2, Isr 2 := Isr 7),
     prv = (\<lambda>_. Hdr)(Hdr := Isr 7, Isr 7 := Isr 2, Isr 2 := Isr 1),
     isrs_mask = BIT 1 OR BIT 2 OR BIT 7\<rparr>"

lemma demo_intc_ok: "intc_ok demo_intc [1, 2, 7]"
  by (auto simp: intc_ok_def demo_intc_def intc_start_def INTC_MAX_COUNT_def bit_BIT bit_or_iff
      nth_list_update)

theorem intc_register_sorted_witness:
  "\<exists>s'. intc_service_register 4 7 (Some id) demo_intc = Some (Ret s') \<and> intc_ok s' [1, 4, 2, 7]"
proof -
  have "isr_pri (isrs demo_intc ! 1) = 5" "isr_pri (isrs demo_intc ! 2) = 10" "isr_pri (isrs demo_intc ! 7) = 20"
    by (simp_all add: demo_intc_def intc_start_def INTC_MAX_COUNT_def nth_list_update)
  then show ?thesis
    using intc_register_sorted [OF demo_intc_ok, of 4 "Some id" 7] by (simp add: pri_place_def)
qed

theorem intc_dispatch_in_priority_order_witness:
  "intc_hdl_entry (\<lambda>_ n. n) demo_intc 0x82 3 = Some (Ret 40)"
proof -
  have "filter (bit (0x82 :: u32)) [1, 2, 7] = [1, 7]" by code_simp
  moreover have "run_handlers demo_intc [1, 7] 3 = 40"
    by (simp add: run_handlers_def demo_intc_def intc_start_def INTC_MAX_COUNT_def nth_list_update)
  ultimately show ?thesis
    by (simp add: intc_dispatch_in_priority_order [OF demo_intc_ok])
qed

theorem intc_irq_fiq_halves_witness:
  "fst (intc_irq (\<lambda>_ n. n) demo_intc (\<lambda>_. 0x80000002) 0) ICU_INT_STATUS = 0x80000002 \<and>
   fst (intc_fiq (\<lambda>_ n. n) demo_intc (\<lambda>_. 0x80000002) 0) ICU_INT_STATUS = 0x80000002"
  using intc_irq_fiq_halves [OF demo_intc_ok, of "\<lambda>_ n. n" "\<lambda>_. 0x80000002" 0] by simp

theorem intc_init_deinit_lines_witness:
  "line_on (intc_init (\<lambda>_. 0)) 20 \<and> \<not> line_on (intc_deinit (\<lambda>_. 0)) 20"
  using intc_init_deinit_lines [of 20 "\<lambda>_. 0"] by simp

theorem intc_reregister_hangs_witness:
  "\<exists>s'. intc_service_register 2 3 (Some id) demo_intc = Some (Ret s') \<and>
     intc_hdl_entry (\<lambda>_ n. n) s' 0x80 0 = None"
proof -
  have "isr_pri (isrs demo_intc ! 1) = 5"
    by (simp add: demo_intc_def intc_start_def INTC_MAX_COUNT_def nth_list_update)
  moreover have "bit (0x80 :: u32) 7" by code_simp
  ultimately show ?thesis
    using intc_reregister_hangs [OF demo_intc_ok, where num = 2 and p = 3 and isr = "Some id"
        and c = 7 and int_status = "0x80" and wake = "\<lambda>_ n. n" and w = 0] by simp
qed

end
