(* ===== verification/Gpio.thy ===== *)
theory Gpio
  imports Intc
begin

text \<open>
  The pins: the driver \<open>beken378/driver/gpio/gpio.c\<close> in its BK7231 configuration with the JTAG
  pins kept from the application (\<open>JTAG_GPIO_FILTER\<close>), the calls of \<open>BkDriverGpio.c\<close> and
  \<open>gpio_pub.h\<close> on top of it, and those of \<open>tuya_gpio.c\<close> on top of these.

  The registers are those of \<open>Icu\<close>; the level of a pin is a bit of its configuration register. A shift by
  32 places or more is what the processor's shift by a register gives, 0. Interrupt handlers are functions on the
  registers and the rest of the system.
\<close>

unbundle bit_operations_syntax

section \<open>Registers\<close>

definition GPIO_BASE_ADDR :: u32 where "GPIO_BASE_ADDR = 0x0802800"
definition REG_GPIO_CFG_BASE_ADDR :: u32 where "REG_GPIO_CFG_BASE_ADDR = GPIO_BASE_ADDR + 0 * 4"
definition REG_GPIO_FUNC_CFG :: u32 where "REG_GPIO_FUNC_CFG = GPIO_BASE_ADDR + 32 * 4"
definition REG_GPIO_INTEN :: u32 where "REG_GPIO_INTEN = GPIO_BASE_ADDR + 33 * 4"
definition REG_GPIO_INTLV0 :: u32 where "REG_GPIO_INTLV0 = GPIO_BASE_ADDR + 34 * 4"
definition REG_GPIO_INTLV1 :: u32 where "REG_GPIO_INTLV1 = GPIO_BASE_ADDR + 35 * 4"
definition REG_GPIO_INTSTA :: u32 where "REG_GPIO_INTSTA = GPIO_BASE_ADDR + 36 * 4"
definition REG_GPIO_DPLL_UNLOCK :: u32 where "REG_GPIO_DPLL_UNLOCK = GPIO_BASE_ADDR + 38 * 4"
definition REG_GPIO_MODULE_SELECT :: u32 where "REG_GPIO_MODULE_SELECT = GPIO_BASE_ADDR + 45 * 4"

lemmas gpio_regs = GPIO_BASE_ADDR_def REG_GPIO_CFG_BASE_ADDR_def REG_GPIO_FUNC_CFG_def REG_GPIO_INTEN_def
  REG_GPIO_INTLV0_def REG_GPIO_INTLV1_def REG_GPIO_INTSTA_def REG_GPIO_DPLL_UNLOCK_def REG_GPIO_MODULE_SELECT_def

definition GCFG_INPUT_BIT :: u32 where "GCFG_INPUT_BIT = push_bit 0 1"
definition GCFG_OUTPUT_POS :: nat where "GCFG_OUTPUT_POS = 1"
definition GCFG_OUTPUT_BIT :: u32 where "GCFG_OUTPUT_BIT = push_bit 1 1"
definition PERIAL_MODE_1 :: u32 where "PERIAL_MODE_1 = 0"
definition PERIAL_MODE_2 :: u32 where "PERIAL_MODE_2 = 1"
definition GPIO_MODUL_NONE :: u32 where "GPIO_MODUL_NONE = 0xff"
definition GPIO_SD_DMA_MODULE :: u32 where "GPIO_SD_DMA_MODULE = push_bit 1 0"
definition GPIO_SD_HOST_MODULE :: u32 where "GPIO_SD_HOST_MODULE = push_bit 1 1"
definition GPIO_SD_MODULE_MASK :: u32 where "GPIO_SD_MODULE_MASK = push_bit 1 1"
definition GPIO_SPI_DMA_MODULE :: u32 where "GPIO_SPI_DMA_MODULE = push_bit 0 0"
definition GPIO_SPI_MODULE :: u32 where "GPIO_SPI_MODULE = push_bit 0 1"
definition GPIO_SPI_MODULE_MASK :: u32 where "GPIO_SPI_MODULE_MASK = push_bit 0 1"

definition GPIO_FAILURE :: u32 where "GPIO_FAILURE = 1"
definition GPIO_SUCCESS :: u32 where "GPIO_SUCCESS = 0"
definition GPIONUM :: nat where "GPIONUM = 40"

definition GMODE_INPUT_PULLDOWN :: u32 where "GMODE_INPUT_PULLDOWN = 0"
definition GMODE_OUTPUT :: u32 where "GMODE_OUTPUT = 1"
definition GMODE_SECOND_FUNC :: u32 where "GMODE_SECOND_FUNC = 2"
definition GMODE_INPUT_PULLUP :: u32 where "GMODE_INPUT_PULLUP = 3"
definition GMODE_INPUT :: u32 where "GMODE_INPUT = 4"
definition GMODE_SECOND_FUNC_PULL_UP :: u32 where "GMODE_SECOND_FUNC_PULL_UP = 5"

lemmas gpio_modes = GMODE_INPUT_PULLDOWN_def GMODE_OUTPUT_def GMODE_SECOND_FUNC_def GMODE_INPUT_PULLUP_def
  GMODE_INPUT_def GMODE_SECOND_FUNC_PULL_UP_def

section \<open>One pin\<close>

text \<open>\<open>GPIO_SUCCESS\<close> means that the pin is filtered.\<close>

definition gpio_ops_filter :: "u32 \<Rightarrow> u32" where
  "gpio_ops_filter index =
     (if index = 20 \<or> index = 21 \<or> index = 22 \<or> index = 23 then GPIO_SUCCESS else GPIO_FAILURE)"

definition pin_reg :: "u32 \<Rightarrow> u32" where
  "pin_reg index = REG_GPIO_CFG_BASE_ADDR + index * 4"

definition mode_val :: "u32 \<Rightarrow> u32 option" where
  "mode_val mode =
     (if mode = GMODE_INPUT_PULLDOWN then Some 0x2C
      else if mode = GMODE_OUTPUT then Some 0x00
      else if mode = GMODE_SECOND_FUNC then Some 0x40
      else if mode = GMODE_INPUT_PULLUP then Some 0x3C
      else if mode = GMODE_INPUT then Some 0x0C
      else if mode = GMODE_SECOND_FUNC_PULL_UP then Some 0x70
      else None)"

definition gpio_config :: "u32 \<Rightarrow> u32 \<Rightarrow> regs \<Rightarrow> regs" where
  "gpio_config index mode r =
     (if gpio_ops_filter index = GPIO_SUCCESS then r
      else if GPIONUM \<le> unat index then r
      else (case mode_val mode of Some val \<Rightarrow> REG_WRITE (pin_reg index) val r | None \<Rightarrow> r))"

definition gpio_input :: "u32 \<Rightarrow> regs \<Rightarrow> u32" where
  "gpio_input pin r =
     ((if gpio_ops_filter pin = GPIO_SUCCESS then 0 else REG_READ (pin_reg pin) r) AND GCFG_INPUT_BIT)"

definition gpio_output :: "u32 \<Rightarrow> u32 \<Rightarrow> regs \<Rightarrow> regs" where
  "gpio_output pin val r =
     (if gpio_ops_filter pin = GPIO_SUCCESS then r
      else (let reg_val = (REG_READ (pin_reg pin) r AND NOT GCFG_OUTPUT_BIT) OR push_bit GCFG_OUTPUT_POS (val AND 0x01)
            in REG_WRITE (pin_reg pin) reg_val r))"

definition gpio_output_reverse :: "u32 \<Rightarrow> regs \<Rightarrow> regs" where
  "gpio_output_reverse pin r =
     (if gpio_ops_filter pin = GPIO_SUCCESS then r
      else REG_WRITE (pin_reg pin) (REG_READ (pin_reg pin) r XOR GCFG_OUTPUT_BIT) r)"

section \<open>Peripherals on the pins\<close>

datatype gpio_func = GFUNC_MODE_UART2 | GFUNC_MODE_I2C2 | GFUNC_MODE_I2S | GFUNC_MODE_ADC1 | GFUNC_MODE_ADC2
  | GFUNC_MODE_CLK13M | GFUNC_MODE_PWM0 | GFUNC_MODE_PWM1 | GFUNC_MODE_PWM2 | GFUNC_MODE_PWM3
  | GFUNC_MODE_WIFI_ACTIVE | GFUNC_MODE_BT_ACTIVE | GFUNC_MODE_BT_PRIORITY | GFUNC_MODE_UART1 | GFUNC_MODE_SD_DMA
  | GFUNC_MODE_SD_HOST | GFUNC_MODE_SPI_DMA | GFUNC_MODE_SPI | GFUNC_MODE_PWM4 | GFUNC_MODE_PWM5 | GFUNC_MODE_I2C1
  | GFUNC_MODE_JTAG | GFUNC_MODE_CLK26M | GFUNC_MODE_ADC3 | GFUNC_MODE_DCMI | GFUNC_MODE_ADC4 | GFUNC_MODE_ADC5
  | GFUNC_MODE_ADC6 | GFUNC_MODE_ADC7 | GFUNC_MODE_SD1_HOST

record func_pins =
  start_index :: nat
  end_index :: nat
  pmode :: u32
  config_pull_up :: bool
  modul_select :: u32
  pmask :: u32

definition func_plain :: "nat \<Rightarrow> nat \<Rightarrow> u32 \<Rightarrow> func_pins" where
  "func_plain a b p = \<lparr>start_index = a, end_index = b, pmode = p, config_pull_up = False,
     modul_select = GPIO_MODUL_NONE, pmask = 0\<rparr>"

text \<open>The switch of \<open>gpio_enable_second_function\<close>; the modes after \<open>ADC3\<close> are not those of this chip and take the default.\<close>

fun func_table :: "gpio_func \<Rightarrow> func_pins" where
  "func_table GFUNC_MODE_UART2 = (func_plain 0 1 PERIAL_MODE_1)\<lparr>config_pull_up := True\<rparr>"
| "func_table GFUNC_MODE_I2C2 = func_plain 0 1 PERIAL_MODE_2"
| "func_table GFUNC_MODE_I2S = func_plain 2 5 PERIAL_MODE_1"
| "func_table GFUNC_MODE_ADC1 = func_plain 4 4 PERIAL_MODE_2"
| "func_table GFUNC_MODE_ADC2 = func_plain 5 5 PERIAL_MODE_2"
| "func_table GFUNC_MODE_CLK13M = func_plain 6 6 PERIAL_MODE_1"
| "func_table GFUNC_MODE_PWM0 = func_plain 6 6 PERIAL_MODE_2"
| "func_table GFUNC_MODE_PWM1 = func_plain 7 7 PERIAL_MODE_2"
| "func_table GFUNC_MODE_PWM2 = func_plain 8 8 PERIAL_MODE_2"
| "func_table GFUNC_MODE_PWM3 = func_plain 9 9 PERIAL_MODE_2"
| "func_table GFUNC_MODE_BT_PRIORITY = func_plain 9 9 PERIAL_MODE_1"
| "func_table GFUNC_MODE_WIFI_ACTIVE = func_plain 7 7 PERIAL_MODE_1"
| "func_table GFUNC_MODE_BT_ACTIVE = func_plain 8 8 PERIAL_MODE_1"
| "func_table GFUNC_MODE_UART1 = (func_plain 10 13 PERIAL_MODE_1)\<lparr>config_pull_up := True\<rparr>"
| "func_table GFUNC_MODE_SD_DMA =
     (func_plain 14 19 PERIAL_MODE_1)\<lparr>modul_select := GPIO_SD_DMA_MODULE, pmask := GPIO_SD_MODULE_MASK\<rparr>"
| "func_table GFUNC_MODE_SD_HOST =
     (func_plain 14 19 PERIAL_MODE_1)\<lparr>config_pull_up := True, modul_select := GPIO_SD_HOST_MODULE, pmask := GPIO_SD_MODULE_MASK\<rparr>"
| "func_table GFUNC_MODE_SPI_DMA =
     (func_plain 14 17 PERIAL_MODE_2)\<lparr>modul_select := GPIO_SPI_DMA_MODULE, pmask := GPIO_SPI_MODULE_MASK\<rparr>"
| "func_table GFUNC_MODE_SPI =
     (func_plain 14 17 PERIAL_MODE_2)\<lparr>modul_select := GPIO_SPI_MODULE, pmask := GPIO_SPI_MODULE_MASK\<rparr>"
| "func_table GFUNC_MODE_PWM4 = func_plain 18 18 PERIAL_MODE_2"
| "func_table GFUNC_MODE_PWM5 = func_plain 19 19 PERIAL_MODE_2"
| "func_table GFUNC_MODE_I2C1 = func_plain 20 21 PERIAL_MODE_1"
| "func_table GFUNC_MODE_JTAG = func_plain 20 23 PERIAL_MODE_2"
| "func_table GFUNC_MODE_CLK26M = func_plain 22 22 PERIAL_MODE_1"
| "func_table GFUNC_MODE_ADC3 = func_plain 23 23 PERIAL_MODE_1"
| "func_table _ = func_plain 0 0 PERIAL_MODE_1"

text \<open>The modes in the order of their enumeration; a number without one takes the default as well.\<close>

definition gpio_funcs :: "gpio_func list" where
  "gpio_funcs = [GFUNC_MODE_UART2, GFUNC_MODE_I2C2, GFUNC_MODE_I2S, GFUNC_MODE_ADC1, GFUNC_MODE_ADC2,
     GFUNC_MODE_CLK13M, GFUNC_MODE_PWM0, GFUNC_MODE_PWM1, GFUNC_MODE_PWM2, GFUNC_MODE_PWM3,
     GFUNC_MODE_WIFI_ACTIVE, GFUNC_MODE_BT_ACTIVE, GFUNC_MODE_BT_PRIORITY, GFUNC_MODE_UART1, GFUNC_MODE_SD_DMA,
     GFUNC_MODE_SD_HOST, GFUNC_MODE_SPI_DMA, GFUNC_MODE_SPI, GFUNC_MODE_PWM4, GFUNC_MODE_PWM5, GFUNC_MODE_I2C1,
     GFUNC_MODE_JTAG, GFUNC_MODE_CLK26M, GFUNC_MODE_ADC3, GFUNC_MODE_DCMI, GFUNC_MODE_ADC4, GFUNC_MODE_ADC5,
     GFUNC_MODE_ADC6, GFUNC_MODE_ADC7, GFUNC_MODE_SD1_HOST]"

definition func_pins_of :: "u32 \<Rightarrow> func_pins" where
  "func_pins_of mode =
     (if unat mode < length gpio_funcs then func_table (gpio_funcs ! unat mode) else func_plain 0 0 PERIAL_MODE_1)"

definition second_function_pin :: "func_pins \<Rightarrow> nat \<Rightarrow> regs \<Rightarrow> regs" where
  "second_function_pin f i r =
     (let r1 = gpio_config (of_nat i) (if \<not> config_pull_up f then GMODE_SECOND_FUNC else GMODE_SECOND_FUNC_PULL_UP) r;
          reg = REG_READ REG_GPIO_FUNC_CFG r1
      in REG_WRITE REG_GPIO_FUNC_CFG (if PERIAL_MODE_1 = pmode f then reg AND NOT (BIT i) else reg OR BIT i) r1)"

definition gpio_enable_second_function :: "u32 \<Rightarrow> regs \<Rightarrow> regs" where
  "gpio_enable_second_function func_mode r =
     (let f = func_pins_of func_mode;
          r1 = fold (second_function_pin f) [start_index f..<end_index f + 1] r
      in if modul_select f \<noteq> GPIO_MODUL_NONE
         then REG_WRITE REG_GPIO_MODULE_SELECT
                ((REG_READ REG_GPIO_MODULE_SELECT r1 AND NOT (pmask f)) OR modul_select f) r1
         else r1)"

section \<open>Interrupts\<close>

type_synonym 'e gpio_handler = "u8 \<Rightarrow> regs \<times> 'e \<Rightarrow> regs \<times> 'e"

record 'e gpio_io =
  io_regs :: regs
  io_rest :: 'e
  p_gpio_intr_handler :: "nat \<Rightarrow> 'e gpio_handler option"

definition gpio_isr_pin :: "u32 \<Rightarrow> nat \<Rightarrow> 'e gpio_io \<Rightarrow> 'e gpio_io" where
  "gpio_isr_pin ulIntStatus i s =
     (if ulIntStatus AND BIT i \<noteq> 0 then
        (case p_gpio_intr_handler s i of
           None \<Rightarrow> s
         | Some h \<Rightarrow> (case h (of_nat i) (io_regs s, io_rest s) of (r, w) \<Rightarrow> s\<lparr>io_regs := r, io_rest := w\<rparr>))
      else s)"

definition gpio_isr :: "'e gpio_io \<Rightarrow> 'e gpio_io" where
  "gpio_isr s =
     (let ulIntStatus = REG_READ REG_GPIO_INTSTA (io_regs s);
          s1 = fold (gpio_isr_pin ulIntStatus) [0..<GPIONUM] s
      in s1\<lparr>io_regs := REG_WRITE REG_GPIO_INTSTA ulIntStatus (io_regs s1)\<rparr>)"

definition IRQ_GPIO :: u8 where "IRQ_GPIO = 7"
definition PRI_IRQ_GPIO :: u8 where "PRI_IRQ_GPIO = 19"
definition IRQ_GPIO_BIT :: u32 where "IRQ_GPIO_BIT = push_bit 7 1"

definition gpio_int_disable :: "u32 \<Rightarrow> regs \<Rightarrow> regs" where
  "gpio_int_disable index r = clr_bits REG_GPIO_INTEN (push_bit (unat index) 0x01) r"

definition gpio_int_level :: "u32 \<Rightarrow> u32 \<Rightarrow> regs \<Rightarrow> regs" where
  "gpio_int_level index mode r =
     (if index < 16 then
        REG_WRITE REG_GPIO_INTLV0 ((REG_READ REG_GPIO_INTLV0 r AND NOT (push_bit (unat (push_bit 1 index)) 0x03)) OR
          push_bit (unat (push_bit 1 index)) mode) r
      else
        REG_WRITE REG_GPIO_INTLV1 ((REG_READ REG_GPIO_INTLV1 r AND NOT (push_bit (unat (push_bit 1 (index - 16))) 0x03)) OR
          push_bit (unat (push_bit 1 (index - 16))) mode) r)"

record 'e gpio_board =
  gb_intc :: "'e gpio_io intc"
  gb_io :: "'e gpio_io"

definition gpio_int_enable :: "u32 \<Rightarrow> u32 \<Rightarrow> 'e gpio_handler option \<Rightarrow> 'e gpio_board \<Rightarrow> 'e gpio_board c_run option" where
  "gpio_int_enable index mode0 h b =
     and_then (intc_service_register IRQ_GPIO PRI_IRQ_GPIO (Some gpio_isr) (gb_intc b)) (\<lambda>ic.
       (let io1 = (gb_io b)\<lparr>io_regs := icu_do CMD_ICU_INT_ENABLE IRQ_GPIO_BIT (io_regs (gb_io b))\<rparr>;
            mode = mode0 AND 0x03
        in if GPIONUM \<le> unat index then Some (Ret (b\<lparr>gb_intc := ic, gb_io := io1\<rparr>))
           else
             (let r2 = gpio_config index (if mode = 0 \<or> mode = 3 then GMODE_INPUT_PULLUP else GMODE_INPUT_PULLDOWN) (io_regs io1);
                  r3 = gpio_int_level index mode r2;
                  io3 = io1\<lparr>io_regs := r3, p_gpio_intr_handler := (p_gpio_intr_handler io1)(unat index := h)\<rparr>
              in Some (Ret (b\<lparr>gb_intc := ic,
                    gb_io := io3\<lparr>io_regs := set_bits REG_GPIO_INTEN (push_bit (unat index) 0x01) (io_regs io3)\<rparr>\<rparr>)))))"

section \<open>The control call\<close>

datatype gpio_cmd = CMD_GPIO_CFG | CMD_GPIO_OUTPUT_REVERSE | CMD_GPIO_ENABLE_SECOND | CMD_GPIO_INPUT | CMD_GPIO_OUTPUT
  | CMD_GPIO_CLR_DPLL_UNLOOK_INT | CMD_GPIO_INT_ENABLE | CMD_GPIO_INT_DISABLE | CMD_GPIO_INT_CLEAR

definition GPIO_CFG_PARAM :: "u32 \<Rightarrow> u32 \<Rightarrow> u32" where
  "GPIO_CFG_PARAM pin mode = pin + push_bit 8 (mode AND 0xff)"

definition GPIO_CFG_PARAM_DEMUX_ID :: "u32 \<Rightarrow> u32" where "GPIO_CFG_PARAM_DEMUX_ID param = param AND 0xff"
definition GPIO_CFG_PARAM_DEMUX_MODE :: "u32 \<Rightarrow> u32" where "GPIO_CFG_PARAM_DEMUX_MODE param = drop_bit 8 param AND 0xff"

definition GPIO_OUTPUT_PARAM :: "u32 \<Rightarrow> u32 \<Rightarrow> u32" where
  "GPIO_OUTPUT_PARAM pin val = pin + push_bit 8 (val AND 0xff)"

definition GPIO_OUTPUT_DEMUX_ID :: "u32 \<Rightarrow> u32" where "GPIO_OUTPUT_DEMUX_ID param = param AND 0xff"
definition GPIO_OUTPUT_DEMUX_VAL :: "u32 \<Rightarrow> u32" where "GPIO_OUTPUT_DEMUX_VAL param = drop_bit 8 param AND 0xff"

text \<open>What \<open>param\<close> points to: nothing, a word, or the structure of \<open>CMD_GPIO_INT_ENABLE\<close>, whose first word is the pin.\<close>

datatype 'e gpio_param = Gp_Null | Gp_Word u32 | Gp_Int u32 u32 "'e gpio_handler option"

fun gp_word :: "'e gpio_param \<Rightarrow> u32 option" where
  "gp_word Gp_Null = None"
| "gp_word (Gp_Word w) = Some w"
| "gp_word (Gp_Int pin mode h) = Some pin"

text \<open>The commands that read and write pin registers only.\<close>

fun gpio_pin_ctrl :: "gpio_cmd \<Rightarrow> u32 option \<Rightarrow> regs \<Rightarrow> (u32 \<times> regs) c_run" where
  "gpio_pin_ctrl CMD_GPIO_CFG param r =
     deref param (\<lambda>w. Ret (GPIO_SUCCESS, gpio_config (GPIO_CFG_PARAM_DEMUX_ID w) (GPIO_CFG_PARAM_DEMUX_MODE w) r))"
| "gpio_pin_ctrl CMD_GPIO_OUTPUT_REVERSE param r =
     asserted param (deref param (\<lambda>w. Ret (GPIO_SUCCESS, gpio_output_reverse w r)))"
| "gpio_pin_ctrl CMD_GPIO_OUTPUT param r =
     deref param (\<lambda>w. Ret (GPIO_SUCCESS, gpio_output (GPIO_OUTPUT_DEMUX_ID w) (GPIO_OUTPUT_DEMUX_VAL w) r))"
| "gpio_pin_ctrl CMD_GPIO_INPUT param r = asserted param (deref param (\<lambda>w. Ret (gpio_input w r, r)))"
| "gpio_pin_ctrl CMD_GPIO_ENABLE_SECOND param r =
     asserted param (deref param (\<lambda>w. Ret (GPIO_SUCCESS, gpio_enable_second_function w r)))"
| "gpio_pin_ctrl CMD_GPIO_CLR_DPLL_UNLOOK_INT param r = Ret (GPIO_SUCCESS, REG_WRITE REG_GPIO_DPLL_UNLOCK 0x1 r)"
| "gpio_pin_ctrl CMD_GPIO_INT_DISABLE param r = deref param (\<lambda>w. Ret (GPIO_SUCCESS, gpio_int_disable w r))"
| "gpio_pin_ctrl _ param r = Ret (GPIO_SUCCESS, r)"

definition gpio_ctrl :: "gpio_cmd \<Rightarrow> 'e gpio_param \<Rightarrow> 'e gpio_board \<Rightarrow> (u32 \<times> 'e gpio_board) c_run option" where
  "gpio_ctrl cmd param b =
     (if cmd = CMD_GPIO_INT_ENABLE then
        (case param of
           Gp_Int index mode h \<Rightarrow> and_then (gpio_int_enable index mode h b) (\<lambda>b1. Some (Ret (GPIO_SUCCESS, b1)))
         | _ \<Rightarrow> Some Fault)
      else
        Some (c_then (gpio_pin_ctrl cmd (gp_word param) (io_regs (gb_io b)))
          (\<lambda>(v, r). Ret (v, b\<lparr>gb_io := (gb_io b)\<lparr>io_regs := r\<rparr>\<rparr>))))"

section \<open>The calls on top\<close>

text \<open>\<open>sddev_control\<close> by the name of this driver is \<open>gpio_ctrl\<close> (\<open>Drv_Model\<close>).\<close>

datatype bk_gpio_config = INPUT_PULL_UP | INPUT_PULL_DOWN | INPUT_NORMAL | OUTPUT_NORMAL | GPIO_SECOND_FNNC | Gpio_Config_Other

fun bk_gpio_mode :: "bk_gpio_config \<Rightarrow> u32 option" where
  "bk_gpio_mode INPUT_PULL_UP = Some GMODE_INPUT_PULLUP"
| "bk_gpio_mode INPUT_PULL_DOWN = Some GMODE_INPUT_PULLDOWN"
| "bk_gpio_mode INPUT_NORMAL = Some GMODE_INPUT"
| "bk_gpio_mode OUTPUT_NORMAL = Some GMODE_OUTPUT"
| "bk_gpio_mode GPIO_SECOND_FNNC = Some GMODE_SECOND_FUNC"
| "bk_gpio_mode Gpio_Config_Other = None"

definition expect_success :: "(u32 \<times> regs) c_run \<Rightarrow> regs c_run" where
  "expect_success c = c_then c (\<lambda>(ret, r). if GPIO_SUCCESS = ret then Ret r else Assert_Stop)"

definition BkGpioInitialize :: "u32 \<Rightarrow> bk_gpio_config \<Rightarrow> regs \<Rightarrow> regs c_run" where
  "BkGpioInitialize gpio configuration r =
     (case bk_gpio_mode configuration of
        None \<Rightarrow> Ret r
      | Some mode \<Rightarrow> expect_success (gpio_pin_ctrl CMD_GPIO_CFG (Some (GPIO_CFG_PARAM gpio mode)) r))"

definition BkGpioFinalize :: "u32 \<Rightarrow> regs \<Rightarrow> regs c_run" where
  "BkGpioFinalize gpio r = BkGpioInitialize gpio INPUT_NORMAL r"

definition bk_gpio_output :: "u32 \<Rightarrow> u32 \<Rightarrow> regs \<Rightarrow> regs c_run" where
  "bk_gpio_output pin val r = expect_success (gpio_pin_ctrl CMD_GPIO_OUTPUT (Some (GPIO_OUTPUT_PARAM pin val)) r)"

definition bk_gpio_input :: "u32 \<Rightarrow> regs \<Rightarrow> u32 c_run" where
  "bk_gpio_input pin r = c_then (gpio_pin_ctrl CMD_GPIO_INPUT (Some pin) r) (\<lambda>(v, _). Ret v)"

definition BkGpioOutputHigh :: "u32 \<Rightarrow> regs \<Rightarrow> regs c_run" where "BkGpioOutputHigh gpio = bk_gpio_output gpio 1"
definition BkGpioOutputLow :: "u32 \<Rightarrow> regs \<Rightarrow> regs c_run" where "BkGpioOutputLow gpio = bk_gpio_output gpio 0"

definition BkGpioInputGet :: "u32 \<Rightarrow> regs \<Rightarrow> bool c_run" where
  "BkGpioInputGet gpio r = c_then (bk_gpio_input gpio r) (\<lambda>v. Ret (v \<noteq> 0))"

text \<open>Interrupts by \<open>sddev_control\<close>, and the call of the command line with its characters.\<close>

definition BkGpioEnableIRQ ::
    "u32 \<Rightarrow> u32 \<Rightarrow> 'e gpio_handler option \<Rightarrow> 'e gpio_board \<Rightarrow> (u32 \<times> 'e gpio_board) c_run option" where
  "BkGpioEnableIRQ gpio trigger h = gpio_ctrl CMD_GPIO_INT_ENABLE (Gp_Int gpio trigger h)"

definition BkGpioDisableIRQ :: "u32 \<Rightarrow> 'e gpio_board \<Rightarrow> (u32 \<times> 'e gpio_board) c_run option" where
  "BkGpioDisableIRQ gpio = gpio_ctrl CMD_GPIO_INT_DISABLE (Gp_Word gpio)"

definition BKGpioOp :: "char \<Rightarrow> u32 \<Rightarrow> char \<Rightarrow> regs \<Rightarrow> (u32 \<times> regs) c_run" where
  "BKGpioOp cmd pin mode r =
     (let command = (if cmd = CHR ''0'' then CMD_GPIO_CFG else if cmd = CHR ''1'' then CMD_GPIO_INPUT
                     else if cmd = CHR ''2'' then CMD_GPIO_OUTPUT else CMD_GPIO_OUTPUT_REVERSE);
          mode_set = (if mode = CHR ''0'' then GMODE_INPUT_PULLDOWN else if mode = CHR ''1'' then GMODE_OUTPUT
                      else if mode = CHR ''2'' then GMODE_INPUT_PULLUP else GMODE_INPUT)
      in gpio_pin_ctrl command (Some (push_bit 8 mode_set OR pin)) r)"

text \<open>\<open>tuya_gpio.c\<close>; its calls always answer \<open>OPRT_OK\<close>.\<close>

definition tuya_gpio_inout_set :: "u32 \<Rightarrow> bool \<Rightarrow> regs \<Rightarrow> regs c_run" where
  "tuya_gpio_inout_set port input = BkGpioInitialize port (if input then INPUT_PULL_UP else OUTPUT_NORMAL)"

definition tuya_gpio_read :: "u32 \<Rightarrow> regs \<Rightarrow> int c_run" where
  "tuya_gpio_read port r = c_then (BkGpioInputGet port r) (\<lambda>b. Ret (of_bool b))"

definition tuya_gpio_write :: "u32 \<Rightarrow> bool \<Rightarrow> regs \<Rightarrow> regs c_run" where
  "tuya_gpio_write port high = (if high then BkGpioOutputHigh port else BkGpioOutputLow port)"

section \<open>Levels of pins\<close>

text \<open>A pin of the application: one of the 32 with a register of its own, and not one of the JTAG pins.\<close>

definition app_pin :: "u32 \<Rightarrow> bool" where
  "app_pin p \<longleftrightarrow> unat p < 32 \<and> p \<notin> {20, 21, 22, 23}"

definition level :: "regs \<Rightarrow> u32 \<Rightarrow> bool" where
  "level r p \<longleftrightarrow> bit (r (pin_reg p)) 1"

lemma pin_cases: "unat (p :: u32) < 32 \<longleftrightarrow> p < 32"
  by (simp add: word_less_nat_alt)

lemma app_pin_less: "app_pin p \<Longrightarrow> unat p < 32"
  by (simp add: app_pin_def)

lemma app_pin_filter [simp]: "app_pin p \<Longrightarrow> gpio_ops_filter p = GPIO_FAILURE"
  by (simp add: app_pin_def gpio_ops_filter_def)

lemma unat_mult4: "unat (p :: u32) < 64 \<Longrightarrow> unat (p * 4) = unat p * 4"
  by (simp add: unat_word_ariths)

lemma word_unat_eqD: "unat (v :: u32) = unat w \<Longrightarrow> v = w"
  by (rule unsigned_word_eqI)

lemma app_pin_eq: "app_pin p \<Longrightarrow> app_pin q \<Longrightarrow> unat p = unat q \<Longrightarrow> p = q"
  by (erule word_unat_eqD)

lemma pin_reg_inj [simp]:
  assumes "app_pin p" "app_pin q"
  shows "pin_reg p = pin_reg q \<longleftrightarrow> p = q"
proof
  assume "pin_reg p = pin_reg q"
  then have "unat (p * 4) = unat (q * 4)" by (simp add: pin_reg_def)
  then show "p = q"
    using assms app_pin_less [OF assms(1)] app_pin_less [OF assms(2)] by (intro app_pin_eq) (simp_all add: unat_mult4)
qed simp

lemma byte_of_word: "unat (w :: u32) < 256 \<Longrightarrow> w AND 0xff = w"
proof -
  assume "unat w < 256"
  then have "take_bit 8 w = w" by (intro word_unat_eqD) (simp add: unsigned_take_bit_eq take_bit_nat_eq_self)
  then show ?thesis by (simp add: take_bit_eq_mask mask_eq_exp_minus_1)
qed

lemma byte_bit: "bit ((w :: u32) AND 0xff) n \<longleftrightarrow> n < 8 \<and> bit w n"
proof -
  have "w AND 0xff = take_bit 8 w" by (simp add: take_bit_eq_mask mask_eq_exp_minus_1)
  then show ?thesis by (simp add: bit_take_bit_iff)
qed

text \<open>A pin and a byte in one word.\<close>

lemma joined_bytes:
  assumes "unat (pin :: u32) < 256" "unat (c :: u32) < 256"
  shows "(pin + push_bit 8 c) AND 0xff = pin" "drop_bit 8 (pin + push_bit 8 c) AND 0xff = c"
proof -
  have high: "bit pin n \<Longrightarrow> n < 8" "bit c n \<Longrightarrow> n < 8" for n
    using byte_bit [of pin n] byte_bit [of c n] unfolding byte_of_word [OF assms(1)] byte_of_word [OF assms(2)] by simp_all
  have "pin AND push_bit 8 c = 0"
    by (rule bit_word_eqI) (auto simp: bit_and_iff bit_push_bit_iff dest: high)
  then have join: "pin + push_bit 8 c = pin OR push_bit 8 c"
    by (rule disjunctive_add_eq_or)
  show "(pin + push_bit 8 c) AND 0xff = pin"
    unfolding join by (rule bit_word_eqI) (auto simp: byte_bit bit_or_iff bit_push_bit_iff dest: high)
  show "drop_bit 8 (pin + push_bit 8 c) AND 0xff = c"
    unfolding join by (rule bit_word_eqI) (auto simp: byte_bit bit_or_iff bit_push_bit_iff bit_drop_bit_eq comp_def dest: high)
qed

lemma joined_word:
  assumes "unat (pin :: u32) < 256"
  shows "(pin + push_bit 8 (v AND 0xff)) AND 0xff = pin" "drop_bit 8 (pin + push_bit 8 (v AND 0xff)) AND 0xff = v AND 0xff"
proof -
  have "v AND 0xff = take_bit 8 v" by (simp add: take_bit_eq_mask mask_eq_exp_minus_1)
  then have "unat (v AND 0xff) = take_bit 8 (unat v)" by (simp only: unsigned_take_bit_eq)
  then have "unat (v AND 0xff) < 256" using take_bit_nat_less_exp [of 8 "unat v"] by simp
  from joined_bytes [OF assms this] show "(pin + push_bit 8 (v AND 0xff)) AND 0xff = pin"
    "drop_bit 8 (pin + push_bit 8 (v AND 0xff)) AND 0xff = v AND 0xff" by blast+
qed

lemma cfg_param:
  assumes "unat pin < 256"
  shows "GPIO_CFG_PARAM_DEMUX_ID (GPIO_CFG_PARAM pin mode) = pin"
    "GPIO_CFG_PARAM_DEMUX_MODE (GPIO_CFG_PARAM pin mode) = mode AND 0xff"
  by (simp_all only: GPIO_CFG_PARAM_def GPIO_CFG_PARAM_DEMUX_ID_def GPIO_CFG_PARAM_DEMUX_MODE_def joined_word [OF assms])

lemma output_param:
  assumes "unat pin < 256"
  shows "GPIO_OUTPUT_DEMUX_ID (GPIO_OUTPUT_PARAM pin v) = pin"
    "GPIO_OUTPUT_DEMUX_VAL (GPIO_OUTPUT_PARAM pin v) = v AND 0xff"
  by (simp_all only: GPIO_OUTPUT_PARAM_def GPIO_OUTPUT_DEMUX_ID_def GPIO_OUTPUT_DEMUX_VAL_def joined_word [OF assms])

text \<open>What the calls of \<open>tuya_gpio.c\<close> do to the registers.\<close>

lemma tuya_inout:
  "app_pin p \<Longrightarrow> tuya_gpio_inout_set p input r = Ret (r(pin_reg p := if input then 0x3C else 0))"
  using app_pin_less [of p]
  by (simp add: tuya_gpio_inout_set_def BkGpioInitialize_def expect_success_def deref_def cfg_param gpio_config_def GPIONUM_def
      GPIO_SUCCESS_def GPIO_FAILURE_def mode_val_def gpio_modes REG_WRITE_def)

lemma bk_output:
  assumes "app_pin p"
  shows "bk_gpio_output p v r =
     Ret (r(pin_reg p := (r (pin_reg p) AND NOT GCFG_OUTPUT_BIT) OR push_bit 1 ((v AND 0xff) AND 1)))"
  using app_pin_less [OF assms] assms
  by (simp add: bk_gpio_output_def expect_success_def deref_def output_param gpio_output_def GPIO_SUCCESS_def
      GPIO_FAILURE_def REG_WRITE_def REG_READ_def GCFG_OUTPUT_POS_def)

lemma tuya_write:
  "app_pin p \<Longrightarrow> tuya_gpio_write p high r =
     Ret (r(pin_reg p := (r (pin_reg p) AND NOT GCFG_OUTPUT_BIT) OR (if high then GCFG_OUTPUT_BIT else 0)))"
  by (simp add: tuya_gpio_write_def BkGpioOutputHigh_def BkGpioOutputLow_def bk_output GCFG_OUTPUT_BIT_def)

lemma tuya_read:
  "app_pin p \<Longrightarrow> tuya_gpio_read p r = Ret (of_bool (bit (r (pin_reg p)) 0))"
  by (simp add: tuya_gpio_read_def BkGpioInputGet_def bk_gpio_input_def asserted_def deref_def gpio_input_def
      GPIO_SUCCESS_def GPIO_FAILURE_def REG_READ_def GCFG_INPUT_BIT_def and_exp_eq_0_iff_not_bit [of _ 0, simplified])

lemma level_write:
  assumes "app_pin p"
  obtains r1 where "tuya_gpio_write p high r = Ret r1"
    "\<forall>q. app_pin q \<longrightarrow> level r1 q = (if q = p then high else level r q)"
  using assms by (simp add: tuya_write level_def GCFG_OUTPUT_BIT_def bit_or_iff bit_and_iff bit_not_iff bit_push_bit_iff)

lemma level_inout:
  assumes "app_pin p"
  obtains r1 where "tuya_gpio_inout_set p input r = Ret r1"
    "\<forall>q. app_pin q \<longrightarrow> level r1 q = (if q = p then False else level r q)"
  using assms by (simp add: tuya_inout level_def)

section \<open>Peripherals\<close>

lemma unat_pin: "i < 32 \<Longrightarrow> unat (of_nat i :: u32) = i"
  by (rule unat_of_nat32) simp

lemma pin_reg_unat: "app_pin p \<Longrightarrow> pin_reg p = pin_reg (of_nat (unat p))"
  by simp

lemma filtered_or_app:
  assumes "i < 32"
  shows "gpio_ops_filter (of_nat i) = GPIO_SUCCESS \<longleftrightarrow> \<not> app_pin (of_nat i)"
  using assms by (simp add: app_pin_def gpio_ops_filter_def unat_pin GPIO_SUCCESS_def GPIO_FAILURE_def)

lemma pin_reg_not_func: "app_pin p \<Longrightarrow> pin_reg p \<noteq> REG_GPIO_FUNC_CFG"
proof
  assume p: "app_pin p" and "pin_reg p = REG_GPIO_FUNC_CFG"
  then have "p * 4 = 128" by (simp add: pin_reg_def gpio_regs)
  then have "unat p * 4 = 128" using unat_mult4 [of p] app_pin_less [OF p] by simp
  then show False using app_pin_less [OF p] by simp
qed

definition second_val :: "func_pins \<Rightarrow> u32" where
  "second_val f = (if config_pull_up f then 0x70 else 0x40)"

lemma second_config:
  assumes "i < 32"
  shows "gpio_config (of_nat i) (if \<not> config_pull_up f then GMODE_SECOND_FUNC else GMODE_SECOND_FUNC_PULL_UP) r =
     (if app_pin (of_nat i) then r(pin_reg (of_nat i) := second_val f) else r)"
  using assms by (simp add: gpio_config_def filtered_or_app unat_pin GPIONUM_def mode_val_def gpio_modes second_val_def REG_WRITE_def)

lemma second_pin:
  assumes "i < 32"
  shows "app_pin p \<Longrightarrow> second_function_pin f i r (pin_reg p) = (if unat p = i then second_val f else r (pin_reg p))"
    "bit (second_function_pin f i r REG_GPIO_FUNC_CFG) j =
       (if j = i then pmode f \<noteq> PERIAL_MODE_1 else bit (r REG_GPIO_FUNC_CFG) j)"
proof -
  assume p: "app_pin p"
  then have "pin_reg p = pin_reg (of_nat i) \<longleftrightarrow> unat p = i" if "app_pin (of_nat i)"
    using that assms by (auto simp: unat_pin)
  moreover have "app_pin (of_nat i)" if "unat p = i" using p that by auto
  ultimately show "second_function_pin f i r (pin_reg p) = (if unat p = i then second_val f else r (pin_reg p))"
    using p pin_reg_not_func [OF p]
    by (auto simp: second_function_pin_def second_config [OF assms] Let_def REG_WRITE_def)
next
  have "(if app_pin (of_nat i) then r(pin_reg (of_nat i) := second_val f) else r) REG_GPIO_FUNC_CFG = r REG_GPIO_FUNC_CFG"
    using pin_reg_not_func [of "of_nat i"] by (auto simp: fun_upd_def)
  then show "bit (second_function_pin f i r REG_GPIO_FUNC_CFG) j =
       (if j = i then pmode f \<noteq> PERIAL_MODE_1 else bit (r REG_GPIO_FUNC_CFG) j)"
    using assms
    by (auto simp: second_function_pin_def second_config [OF assms] Let_def REG_WRITE_def REG_READ_def bit_BIT
        bit_or_iff bit_and_iff bit_not_iff dest: bit_imp_le_length)
qed

lemma second_pins:
  assumes "b < 32"
  shows "app_pin p \<Longrightarrow> fold (second_function_pin f) [a..<b + 1] r (pin_reg p) =
       (if a \<le> unat p \<and> unat p \<le> b then second_val f else r (pin_reg p))"
    "bit (fold (second_function_pin f) [a..<b + 1] r REG_GPIO_FUNC_CFG) j =
       (if a \<le> j \<and> j \<le> b then pmode f \<noteq> PERIAL_MODE_1 else bit (r REG_GPIO_FUNC_CFG) j)"
proof -
  have "(app_pin p \<longrightarrow> fold (second_function_pin f) [a..<n] r (pin_reg p) =
       (if a \<le> unat p \<and> unat p < n then second_val f else r (pin_reg p))) \<and>
    bit (fold (second_function_pin f) [a..<n] r REG_GPIO_FUNC_CFG) j =
       (if a \<le> j \<and> j < n then pmode f \<noteq> PERIAL_MODE_1 else bit (r REG_GPIO_FUNC_CFG) j)" if "n \<le> 32" for n
    using that
  proof (induction n)
    case (Suc n)
    then show ?case
    proof (cases "a \<le> n")
      case True
      with Suc show ?thesis by (auto simp: second_pin)
    next
      case False
      then show ?thesis by auto
    qed
  qed simp
  note upto = this [of "b + 1"]
  from upto assms show "app_pin p \<Longrightarrow> fold (second_function_pin f) [a..<b + 1] r (pin_reg p) =
       (if a \<le> unat p \<and> unat p \<le> b then second_val f else r (pin_reg p))"
    "bit (fold (second_function_pin f) [a..<b + 1] r REG_GPIO_FUNC_CFG) j =
       (if a \<le> j \<and> j \<le> b then pmode f \<noteq> PERIAL_MODE_1 else bit (r REG_GPIO_FUNC_CFG) j)"
    by (auto simp: less_Suc_eq_le)
qed

lemma func_table_pins: "end_index (func_table g) < 32"
  by (cases g) (simp_all add: func_plain_def)

lemma func_pins_end: "end_index (func_pins_of mode) < 32"
  by (simp add: func_pins_of_def func_table_pins) (simp add: func_plain_def)

lemma second_pin_frame:
  assumes "i < 32" "a \<noteq> REG_GPIO_FUNC_CFG" "\<And>p. app_pin p \<Longrightarrow> a \<noteq> pin_reg p"
  shows "second_function_pin f i r a = r a"
  using assms(2,3) by (simp add: second_function_pin_def second_config [OF assms(1)] Let_def REG_WRITE_def)

lemma second_pins_frame:
  assumes "b < 32" "a \<noteq> REG_GPIO_FUNC_CFG" "\<And>p. app_pin p \<Longrightarrow> a \<noteq> pin_reg p"
  shows "fold (second_function_pin f) [n..<b + 1] r a = r a"
proof -
  have "fold (second_function_pin f) is r a = r a" if "\<forall>i \<in> set is. i < 32" for "is"
    using that by (induction "is" arbitrary: r) (simp_all add: second_pin_frame [OF _ assms(2,3)])
  note on = this
  show ?thesis by (rule on) (use assms(1) in auto)
qed

lemma select_not_pin:
  assumes "app_pin p"
  shows "REG_GPIO_MODULE_SELECT \<noteq> pin_reg p"
proof
  assume "REG_GPIO_MODULE_SELECT = pin_reg p"
  then have "p * 4 = 180" by (simp add: pin_reg_def gpio_regs)
  then have "unat p * 4 = 180" using unat_mult4 [of p] app_pin_less [OF assms] by simp
  then show False using app_pin_less [OF assms] by simp
qed

text \<open>Switching a peripheral on gives it exactly its pins: the application pins of its range get the second-function
  setting and every other pin keeps its register; the selection bit of every pin of the range is the peripheral's and the
  others stay; the module field of the shared pins is set to the peripheral, if it has one. Pins kept for JTAG get their
  selection bit only.\<close>

lemma gpio_second_function:
  fixes mode r
  defines "f \<equiv> func_pins_of mode" and "r1 \<equiv> gpio_enable_second_function mode r"
  assumes "app_pin p"
  shows "r1 (pin_reg p) = (if start_index f \<le> unat p \<and> unat p \<le> end_index f then second_val f else r (pin_reg p)) \<and>
    bit (r1 REG_GPIO_FUNC_CFG) j =
       (if start_index f \<le> j \<and> j \<le> end_index f then pmode f \<noteq> PERIAL_MODE_1 else bit (r REG_GPIO_FUNC_CFG) j) \<and>
    r1 REG_GPIO_MODULE_SELECT =
       (if modul_select f = GPIO_MODUL_NONE then r REG_GPIO_MODULE_SELECT
        else (r REG_GPIO_MODULE_SELECT AND NOT (pmask f)) OR modul_select f)"
proof -
  have e: "end_index f < 32" by (simp add: f_def func_pins_end)
  define r0 where "r0 = fold (second_function_pin f) [start_index f..<end_index f + 1] r"
  have r1: "r1 = (if modul_select f \<noteq> GPIO_MODUL_NONE
      then r0(REG_GPIO_MODULE_SELECT := (r0 REG_GPIO_MODULE_SELECT AND NOT (pmask f)) OR modul_select f) else r0)"
    by (simp only: r1_def gpio_enable_second_function_def f_def [symmetric] Let_def REG_WRITE_def REG_READ_def r0_def)
  have "REG_GPIO_FUNC_CFG \<noteq> REG_GPIO_MODULE_SELECT" by (simp add: gpio_regs)
  moreover have "r0 (pin_reg p) = (if start_index f \<le> unat p \<and> unat p \<le> end_index f then second_val f else r (pin_reg p))"
    unfolding r0_def by (rule second_pins(1) [OF e assms(3)])
  moreover have "bit (r0 REG_GPIO_FUNC_CFG) j =
       (if start_index f \<le> j \<and> j \<le> end_index f then pmode f \<noteq> PERIAL_MODE_1 else bit (r REG_GPIO_FUNC_CFG) j)"
    unfolding r0_def by (rule second_pins(2) [OF e])
  moreover have "r0 REG_GPIO_MODULE_SELECT = r REG_GPIO_MODULE_SELECT"
    unfolding r0_def by (rule second_pins_frame [OF e]) (simp_all add: select_not_pin, simp add: gpio_regs)
  ultimately show ?thesis
    using select_not_pin [OF assms(3)] by (simp add: r1)
qed

lemma gpio_second_function_witness:
  "gpio_enable_second_function 13 (\<lambda>_. 0x3C) (pin_reg 10) = 0x70 \<and> gpio_enable_second_function 13 (\<lambda>_. 0x3C) (pin_reg 9) = 0x3C"
proof -
  have f: "func_pins_of 13 = (func_plain 10 13 PERIAL_MODE_1)\<lparr>config_pull_up := True\<rparr>"
    by (simp add: func_pins_of_def gpio_funcs_def)
  have p: "app_pin 10" "app_pin 9" by (simp_all add: app_pin_def)
  show ?thesis
    using gpio_second_function [OF p(1), of 13 "\<lambda>_. 0x3C"] gpio_second_function [OF p(2), of 13 "\<lambda>_. 0x3C"]
    by (simp add: f func_plain_def second_val_def)
qed

end
