(* ===== verification/Gpio_Test.thy ===== *)
theory Gpio_Test
  imports Gpio
begin

text \<open>
  The production test of a module's pins, \<open>project/tuya_common/src/gpio_test.c\<close>: the test jig connects the pins of each
  group; every pin in turn drives its group high and low while the others must read it.

  The board is a function \<open>hw\<close> that gives the registers as the hardware shows them for what was written; what is
  assumed of it is that a pin sees only the pins it is connected to.
\<close>

section \<open>Boards\<close>

type_synonym ctrl_group = "u32 list"

definition groups_wa1 :: "ctrl_group list" where
  "groups_wa1 = [[7, 18, 19], [6, 9], [4, 8], []]"

definition groups_wa2 :: "ctrl_group list" where
  "groups_wa2 = [[6, 18], [8, 19], [4, 7], []]"

definition groups_wa3 :: "ctrl_group list" where
  "groups_wa3 = [[8, 18, 28], [6, 7, 9], [4, 19], []]"

text \<open>The second group says three pins and names two: the third is the zero of the initialiser, pin 0.\<close>

definition groups_wa2l :: "ctrl_group list" where
  "groups_wa2l = [[6, 18], take 3 ([8, 19] @ replicate 6 0), [], []]"

definition BK_BOARD_WA1 :: u8 where "BK_BOARD_WA1 = 0"
definition BK_BOARD_WA2 :: u8 where "BK_BOARD_WA2 = 1"
definition BK_BOARD_WA3 :: u8 where "BK_BOARD_WA3 = 2"
definition BK_BOARD_WA2L :: u8 where "BK_BOARD_WA2L = 3"
definition BK_BOARD_MAX :: u8 where "BK_BOARD_MAX = 4"

lemmas bk_boards = BK_BOARD_WA1_def BK_BOARD_WA2_def BK_BOARD_WA3_def BK_BOARD_WA2L_def BK_BOARD_MAX_def

section \<open>The test\<close>

text \<open>The direction of every pin of the group when pin \<open>i\<close> drives it.\<close>

definition set_directions :: "ctrl_group \<Rightarrow> nat \<Rightarrow> regs \<Rightarrow> regs c_run" where
  "set_directions g i = c_steps (\<lambda>j. tuya_gpio_inout_set (g ! j) (i \<noteq> j)) [0..<length g]"

fun others_read :: "(regs \<Rightarrow> regs) \<Rightarrow> ctrl_group \<Rightarrow> nat \<Rightarrow> int \<Rightarrow> nat list \<Rightarrow> regs \<Rightarrow> bool c_run" where
  "others_read hw g i v [] r = Ret True"
| "others_read hw g i v (j # js) r =
     (if i = j then others_read hw g i v js r
      else c_then (tuya_gpio_read (g ! j) (hw r))
             (\<lambda>x. if x \<noteq> v then Ret False else others_read hw g i v js r))"

definition test_level :: "(regs \<Rightarrow> regs) \<Rightarrow> ctrl_group \<Rightarrow> nat \<Rightarrow> bool \<Rightarrow> regs \<Rightarrow> (bool \<times> regs) c_run" where
  "test_level hw g i high r =
     c_then (tuya_gpio_write (g ! i) high r) (\<lambda>r1.
     c_then (others_read hw g i (of_bool high) [0..<length g] r1) (\<lambda>b. Ret (b, r1)))"

definition test_pin :: "(regs \<Rightarrow> regs) \<Rightarrow> ctrl_group \<Rightarrow> nat \<Rightarrow> regs \<Rightarrow> (bool \<times> regs) c_run" where
  "test_pin hw g i r =
     c_then (set_directions g i r) (\<lambda>r1.
     c_then (test_level hw g i True r1) (\<lambda>(b, r2).
     if \<not> b then Ret (False, r2) else test_level hw g i False r2))"

fun test_pins :: "(regs \<Rightarrow> regs) \<Rightarrow> ctrl_group \<Rightarrow> nat list \<Rightarrow> regs \<Rightarrow> (bool \<times> regs) c_run" where
  "test_pins hw g [] r = Ret (True, r)"
| "test_pins hw g (i # is) r =
     c_then (test_pin hw g i r) (\<lambda>(b, r1). if \<not> b then Ret (False, r1) else test_pins hw g is r1)"

fun test_groups :: "(regs \<Rightarrow> regs) \<Rightarrow> ctrl_group list \<Rightarrow> regs \<Rightarrow> (bool \<times> regs) c_run" where
  "test_groups hw [] r = Ret (True, r)"
| "test_groups hw (g # gs) r =
     c_then (test_pins hw g [0..<length g] r) (\<lambda>(b, r1). if \<not> b then Ret (False, r1) else test_groups hw gs r1)"

definition board_groups :: "u8 \<Rightarrow> ctrl_group list" where
  "board_groups type =
     (if type = BK_BOARD_WA1 then groups_wa1 else if type = BK_BOARD_WA2 then groups_wa2
      else if type = BK_BOARD_WA3 then groups_wa3 else groups_wa2l)"

definition gpio_test_cb :: "(regs \<Rightarrow> regs) \<Rightarrow> u8 \<Rightarrow> regs \<Rightarrow> (bool \<times> regs) c_run" where
  "gpio_test_cb hw type r = (if BK_BOARD_MAX \<le> type then Ret (False, r) else test_groups hw (board_groups type) r)"

text \<open>\<open>||\<close> stops at the first board that passes.\<close>

fun test_boards :: "(regs \<Rightarrow> regs) \<Rightarrow> u8 list \<Rightarrow> regs \<Rightarrow> (bool \<times> regs) c_run" where
  "test_boards hw [] r = Ret (False, r)"
| "test_boards hw (t # ts) r =
     c_then (gpio_test_cb hw t r) (\<lambda>(b, r1). if b then Ret (True, r1) else test_boards hw ts r1)"

definition gpio_test_all :: "(regs \<Rightarrow> regs) \<Rightarrow> regs \<Rightarrow> (bool \<times> regs) c_run" where
  "gpio_test_all hw = test_boards hw [BK_BOARD_WA1, BK_BOARD_WA2, BK_BOARD_WA3, BK_BOARD_WA2L]"

section \<open>What a board is\<close>

text \<open>The level a pin drives, if it is an output (the output enable is bit 3, active low).\<close>

definition drives :: "regs \<Rightarrow> u32 \<Rightarrow> bool option" where
  "drives r p = (if bit (r (pin_reg p)) 3 then None else Some (level r p))"

definition sees :: "(regs \<Rightarrow> regs) \<Rightarrow> regs \<Rightarrow> u32 \<Rightarrow> bool" where
  "sees hw r p \<longleftrightarrow> bit (hw r (pin_reg p)) 0"

definition board_ok :: "(regs \<Rightarrow> regs) \<Rightarrow> (u32 \<Rightarrow> u32 \<Rightarrow> bool) \<Rightarrow> bool" where
  "board_ok hw wired \<longleftrightarrow>
     (\<forall>r r' p. (\<forall>q. app_pin q \<longrightarrow> wired p q \<longrightarrow> drives r q = drives r' q) \<longrightarrow> sees hw r p = sees hw r' p) \<and>
     (\<forall>r p q v. app_pin q \<longrightarrow> wired p q \<longrightarrow> drives r q = Some v \<longrightarrow>
        (\<forall>q'. app_pin q' \<longrightarrow> wired p q' \<longrightarrow> q' \<noteq> q \<longrightarrow> drives r q' = None) \<longrightarrow> sees hw r p = v)"

lemma board_local:
  assumes "board_ok hw wired" "\<forall>q. app_pin q \<longrightarrow> wired p q \<longrightarrow> drives r q = drives r' q"
  shows "sees hw r p = sees hw r' p"
  using conjunct1 [OF assms(1) [unfolded board_ok_def], THEN spec [of _ r], THEN spec [of _ r'], THEN spec [of _ p]] assms(2)
  by (rule mp)

lemma board_driven:
  assumes "board_ok hw wired" "app_pin q" "wired p q" "drives r q = Some v"
    "\<forall>q'. app_pin q' \<longrightarrow> wired p q' \<longrightarrow> q' \<noteq> q \<longrightarrow> drives r q' = None"
  shows "sees hw r p = v"
  using conjunct2 [OF assms(1) [unfolded board_ok_def], THEN spec [of _ r], THEN spec [of _ p], THEN spec [of _ q],
      THEN spec [of _ v]] assms(2-5) by (elim impE)

text \<open>All pins of every group connected; and no others to them.\<close>

definition joined :: "(u32 \<Rightarrow> u32 \<Rightarrow> bool) \<Rightarrow> ctrl_group \<Rightarrow> bool" where
  "joined wired g \<longleftrightarrow> list_all (\<lambda>p. list_all (\<lambda>q. p \<noteq> q \<longrightarrow> wired p q) g) g"

definition alone :: "(u32 \<Rightarrow> u32 \<Rightarrow> bool) \<Rightarrow> ctrl_group \<Rightarrow> bool" where
  "alone wired g \<longleftrightarrow> (\<forall>p q. p \<in> set g \<longrightarrow> wired p q \<longrightarrow> q \<in> set g)"

definition group_ok :: "ctrl_group \<Rightarrow> bool" where
  "group_ok g \<longleftrightarrow> distinct g \<and> list_all app_pin g"

section \<open>One pin's turn\<close>

lemma pin_upd:
  "app_pin p \<Longrightarrow> app_pin q \<Longrightarrow> (r(pin_reg p := v)) (pin_reg q) = (if q = p then v else r (pin_reg q))"
  by simp

lemma drives_inout:
  assumes "app_pin p" "tuya_gpio_inout_set p input r = Ret r1" "app_pin q"
  shows "drives r1 q = (if q = p then (if input then None else Some False) else drives r q)"
proof -
  have r1: "r1 = r(pin_reg p := if input then 0x3C else 0)" using assms(1,2) by (simp add: tuya_inout)
  show ?thesis unfolding drives_def level_def r1 pin_upd [OF assms(1,3)] by simp
qed

lemma drives_write:
  assumes "app_pin p" "tuya_gpio_write p high r = Ret r1" "app_pin q"
  shows "drives r1 q = (if q = p then map_option (\<lambda>_. high) (drives r q) else drives r q)"
proof -
  let ?v = "(r (pin_reg p) AND NOT GCFG_OUTPUT_BIT) OR (if high then GCFG_OUTPUT_BIT else 0)"
  have r1: "r1 = r(pin_reg p := ?v)" using assms(1,2) by (simp add: tuya_write)
  have "bit ?v 3 = bit (r (pin_reg p)) 3" "bit ?v 1 = high"
    by (simp_all add: GCFG_OUTPUT_BIT_def bit_or_iff bit_and_iff bit_not_iff)
  then show ?thesis unfolding drives_def level_def r1 pin_upd [OF assms(1,3)] by (cases "q = p") simp_all
qed

lemma group_nth:
  assumes "group_ok g" "i < length g"
  shows "app_pin (g ! i)"
  using assms by (simp add: group_ok_def list_all_length)

lemma group_nth_eq:
  "group_ok g \<Longrightarrow> i < length g \<Longrightarrow> j < length g \<Longrightarrow> g ! i = g ! j \<longleftrightarrow> i = j"
  by (simp add: group_ok_def nth_eq_iff_index_eq)

lemma directions_set:
  assumes g: "group_ok g" and i: "i < length g"
  obtains r1 where "set_directions g i r = Ret r1"
    "\<forall>q. app_pin q \<longrightarrow> drives r1 q = (if q \<in> set g then (if q = g ! i then Some False else None) else drives r q)"
proof -
  have "\<exists>r1. c_steps (\<lambda>j. tuya_gpio_inout_set (g ! j) (i \<noteq> j)) js r = Ret r1 \<and>
    (\<forall>q. app_pin q \<longrightarrow> drives r1 q =
       (if q \<in> (!) g ` set js then (if q = g ! i then Some False else None) else drives r q))"
    if "\<forall>j \<in> set js. j < length g" for js
    using that
  proof (induction js arbitrary: r)
    case (Cons j js)
    from Cons.prems have j: "app_pin (g ! j)" "j < length g" using group_nth [OF g] by auto
    then obtain r0 where r0: "tuya_gpio_inout_set (g ! j) (i \<noteq> j) r = Ret r0" by (simp add: tuya_inout)
    note d0 = drives_inout [OF j(1) r0]
    from Cons.IH [of r0] Cons.prems obtain r1 where r1: "c_steps (\<lambda>j. tuya_gpio_inout_set (g ! j) (i \<noteq> j)) js r0 = Ret r1"
      "\<forall>q. app_pin q \<longrightarrow> drives r1 q =
         (if q \<in> (!) g ` set js then (if q = g ! i then Some False else None) else drives r0 q)"
      by auto
    have same: "g ! j = g ! i \<longleftrightarrow> i = j" using group_nth_eq [OF g j(2) i] by auto
    have "drives r1 q = (if q \<in> (!) g ` set (j # js) then (if q = g ! i then Some False else None) else drives r q)"
      if q: "app_pin q" for q
      using r1(2) [rule_format, OF q] d0 [OF q] same by (cases "q = g ! j") simp_all
    then show ?case using r0 r1(1) by simp
  qed simp
  from this [of "[0..<length g]"] obtain r1 where "set_directions g i r = Ret r1"
    "\<forall>q. app_pin q \<longrightarrow> drives r1 q =
       (if q \<in> (!) g ` set [0..<length g] then (if q = g ! i then Some False else None) else drives r q)"
    unfolding set_directions_def by auto
  moreover have "(!) g ` set [0..<length g] = set g" by (auto simp: in_set_conv_nth)
  ultimately show thesis by (intro that) simp_all
qed

lemma reads_others:
  assumes g: "group_ok g" and js: "\<forall>j \<in> set js. j < length g"
  shows "others_read hw g i (of_bool v) js r = Ret (list_all (\<lambda>j. i \<noteq> j \<longrightarrow> sees hw r (g ! j) = v) js)"
  using js
proof (induction js)
  case (Cons j js)
  then have "app_pin (g ! j)" using group_nth [OF g] by simp
  then have "tuya_gpio_read (g ! j) (hw r) = Ret (of_bool (sees hw r (g ! j)))" by (simp add: tuya_read sees_def)
  with Cons show ?case by auto
qed simp

text \<open>Pin \<open>i\<close> passes if the others of its group follow it at both levels.\<close>

lemma pin_turn:
  assumes g: "group_ok g" and i: "i < length g"
  obtains r1 r2 b r3 where "test_pin hw g i r = Ret (b, r3)"
    "\<forall>q. app_pin q \<longrightarrow> drives r1 q = (if q \<in> set g then (if q = g ! i then Some True else None) else drives r q)"
    "\<forall>q. app_pin q \<longrightarrow> drives r2 q = (if q \<in> set g then (if q = g ! i then Some False else None) else drives r q)"
    "b \<longleftrightarrow> (\<forall>q \<in> set g. q \<noteq> g ! i \<longrightarrow> sees hw r1 q \<and> \<not> sees hw r2 q)"
proof -
  obtain r0 where r0: "set_directions g i r = Ret r0"
    "\<forall>q. app_pin q \<longrightarrow> drives r0 q = (if q \<in> set g then (if q = g ! i then Some False else None) else drives r q)"
    by (rule directions_set [OF g i])
  have p: "app_pin (g ! i)" using group_nth [OF g i] .
  obtain r1 where r1: "tuya_gpio_write (g ! i) True r0 = Ret r1" using p by (simp add: tuya_write)
  obtain r2 where r2: "tuya_gpio_write (g ! i) False r1 = Ret r2" using p by (simp add: tuya_write)
  have d1: "drives r1 q = (if q \<in> set g then (if q = g ! i then Some True else None) else drives r q)" if "app_pin q" for q
    using drives_write [OF p r1 that] r0(2) that i by auto
  have d2: "drives r2 q = (if q \<in> set g then (if q = g ! i then Some False else None) else drives r q)" if "app_pin q" for q
    using drives_write [OF p r2 that] d1 [OF that] i by auto
  have seen: "list_all (\<lambda>j. i \<noteq> j \<longrightarrow> sees hw r' (g ! j) = v) [0..<length g] \<longleftrightarrow>
      (\<forall>q \<in> set g. q \<noteq> g ! i \<longrightarrow> sees hw r' q = v)" for r' v
    using group_nth_eq [OF g _ i] by (auto simp: list_all_iff all_set_conv_all_nth)
  have level: "test_level hw g i high r = Ret (\<forall>q \<in> set g. q \<noteq> g ! i \<longrightarrow> sees hw r' q = high, r')"
    if "tuya_gpio_write (g ! i) high r = Ret r'" for high r r'
    using that reads_others [OF g, of "[0..<length g]"] by (simp add: test_level_def seen)
  show thesis
  proof (cases "\<forall>q \<in> set g. q \<noteq> g ! i \<longrightarrow> sees hw r1 q")
    case True
    have "test_pin hw g i r = Ret (\<forall>q \<in> set g. q \<noteq> g ! i \<longrightarrow> sees hw r2 q = False, r2)"
      using True r0(1) level [OF r1] level [OF r2] by (simp add: test_pin_def)
    then show thesis by (rule that [of _ _ r1 r2]) (use d1 d2 True in auto)
  next
    case False
    have "test_pin hw g i r = Ret (False, r1)" using False r0(1) level [OF r1] by (simp add: test_pin_def)
    then show thesis by (rule that [of _ _ r1 r2]) (use d1 d2 False in auto)
  qed
qed

section \<open>The whole test\<close>

lemma pin_detects:
  assumes b: "board_ok hw wired" and g: "group_ok g" and i: "i < length g"
  obtains b r1 where "test_pin hw g i r = Ret (b, r1)"
    "b \<Longrightarrow> \<forall>q \<in> set g. q \<noteq> g ! i \<longrightarrow> wired q (g ! i)"
    "joined wired g \<Longrightarrow> alone wired g \<Longrightarrow> b"
proof -
  obtain r1 r2 c r3 where t: "test_pin hw g i r = Ret (c, r3)"
    "\<forall>q. app_pin q \<longrightarrow> drives r1 q = (if q \<in> set g then (if q = g ! i then Some True else None) else drives r q)"
    "\<forall>q. app_pin q \<longrightarrow> drives r2 q = (if q \<in> set g then (if q = g ! i then Some False else None) else drives r q)"
    "c \<longleftrightarrow> (\<forall>q \<in> set g. q \<noteq> g ! i \<longrightarrow> sees hw r1 q \<and> \<not> sees hw r2 q)"
    by (rule pin_turn [OF g i])
  have p: "app_pin (g ! i)" "g ! i \<in> set g" using group_nth [OF g i] i by auto
  have "wired q (g ! i)" if "c" "q \<in> set g" "q \<noteq> g ! i" for q
  proof (rule ccontr)
    assume "\<not> wired q (g ! i)"
    then have "\<forall>q'. app_pin q' \<longrightarrow> wired q q' \<longrightarrow> drives r1 q' = drives r2 q'" using t(2,3) by auto
    then have "sees hw r1 q = sees hw r2 q" by (rule board_local [OF b])
    then show False using t(4) that by auto
  qed
  moreover have "c" if j: "joined wired g" and a: "alone wired g"
    unfolding t(4)
  proof (intro ballI impI)
    fix q assume q: "q \<in> set g" "q \<noteq> g ! i"
    have w: "wired q (g ! i)" using j q p(2) by (auto simp: joined_def list_all_iff)
    have quiet: "\<forall>q'. app_pin q' \<longrightarrow> wired q q' \<longrightarrow> q' \<noteq> g ! i \<longrightarrow> drives r' q' = None"
      if "\<forall>q. app_pin q \<longrightarrow> drives r' q = (if q \<in> set g then (if q = g ! i then Some v else None) else drives r q)" for r' v
      using that a q(1) by (auto simp: alone_def)
    have "sees hw r1 q = True" by (rule board_driven [OF b p(1) w _ quiet [OF t(2)]]) (use t(2) p in simp)
    moreover have "sees hw r2 q = False" by (rule board_driven [OF b p(1) w _ quiet [OF t(3)]]) (use t(3) p in simp)
    ultimately show "sees hw r1 q \<and> \<not> sees hw r2 q" by simp
  qed
  ultimately show thesis using that t(1) by blast
qed

lemma pins_detect:
  assumes b: "board_ok hw wired" and g: "group_ok g" and "\<forall>i \<in> set is. i < length g"
  shows "\<exists>b r1. test_pins hw g is r = Ret (b, r1) \<and>
    (b \<longrightarrow> (\<forall>i \<in> set is. \<forall>q \<in> set g. q \<noteq> g ! i \<longrightarrow> wired q (g ! i))) \<and> (joined wired g \<longrightarrow> alone wired g \<longrightarrow> b)"
  using assms(3)
proof (induction "is" arbitrary: r)
  case (Cons i "is")
  then have "i < length g" by simp
  from pin_detects [OF b g this, of r] obtain c r1 where t: "test_pin hw g i r = Ret (c, r1)"
    "c \<Longrightarrow> \<forall>q \<in> set g. q \<noteq> g ! i \<longrightarrow> wired q (g ! i)" "joined wired g \<Longrightarrow> alone wired g \<Longrightarrow> c" by metis
  from Cons.IH [of r1] Cons.prems obtain c2 r2 where t2: "test_pins hw g is r1 = Ret (c2, r2)"
    "c2 \<longrightarrow> (\<forall>i \<in> set is. \<forall>q \<in> set g. q \<noteq> g ! i \<longrightarrow> wired q (g ! i))" "joined wired g \<longrightarrow> alone wired g \<longrightarrow> c2" by auto
  show ?case
  proof (cases c)
    case True
    with t t2 show ?thesis by auto
  next
    case False
    then show ?thesis using t(1,3) by auto
  qed
next
  case Nil
  show ?case by (rule exI [of _ True]) simp
qed

lemma groups_detect:
  assumes b: "board_ok hw wired" and "list_all group_ok gs"
  shows "\<exists>b r1. test_groups hw gs r = Ret (b, r1) \<and> (b \<longrightarrow> list_all (joined wired) gs) \<and>
    (list_all (joined wired) gs \<longrightarrow> list_all (alone wired) gs \<longrightarrow> b)"
  using assms(2)
proof (induction gs arbitrary: r)
  case (Cons g gs)
  then have g: "group_ok g" by simp
  from pins_detect [OF b g, of "[0..<length g]" r] obtain c r1 where t: "test_pins hw g [0..<length g] r = Ret (c, r1)"
    "c \<longrightarrow> (\<forall>i \<in> set [0..<length g]. \<forall>q \<in> set g. q \<noteq> g ! i \<longrightarrow> wired q (g ! i))" "joined wired g \<longrightarrow> alone wired g \<longrightarrow> c"
    by auto
  have j: "c \<longrightarrow> joined wired g" using t(2) unfolding joined_def list_all_iff by (metis (no_types) in_set_conv_nth atLeastLessThan_iff atLeastLessThan_upt le0)
  from Cons.IH [of r1] Cons.prems obtain c2 r2 where t2: "test_groups hw gs r1 = Ret (c2, r2)"
    "c2 \<longrightarrow> list_all (joined wired) gs" "list_all (joined wired) gs \<longrightarrow> list_all (alone wired) gs \<longrightarrow> c2"
    by auto
  show ?case
  proof (cases c)
    case True
    with t t2 j show ?thesis by auto
  next
    case False
    then show ?thesis using t(1,3) by auto
  qed
next
  case Nil
  show ?case by (rule exI [of _ True]) simp
qed

lemma boards_ok: "list_all group_ok (board_groups type)"
  by (simp add: board_groups_def groups_wa1_def groups_wa2_def groups_wa3_def groups_wa2l_def group_ok_def app_pin_def)

text \<open>C26: The pin test tells good wiring from bad: on a board where pins see only what they are connected to and no group is
  connected to others, the test of a board type ends and answers whether all the pins of every group are connected.\<close>

lemma gpio_test_detects:
  assumes "board_ok hw wired" "type < BK_BOARD_MAX" "list_all (alone wired) (board_groups type)"
  shows "\<exists>r1. gpio_test_cb hw type r = Ret (list_all (joined wired) (board_groups type), r1)"
proof -
  obtain b r1 where "test_groups hw (board_groups type) r = Ret (b, r1)" "b \<longrightarrow> list_all (joined wired) (board_groups type)"
    "list_all (joined wired) (board_groups type) \<longrightarrow> b"
    using groups_detect [OF assms(1) boards_ok [of type], of r] assms(3) by blast
  moreover from this have "b = list_all (joined wired) (board_groups type)" by blast
  ultimately show ?thesis using assms(2) leD [of BK_BOARD_MAX type] by (auto simp: gpio_test_cb_def)
qed

text \<open>A jig that connects the pins of each of some groups: a pin shows the level of the first output of its group, or its pull-up.\<close>

definition net_of :: "ctrl_group list \<Rightarrow> u32 \<Rightarrow> ctrl_group" where
  "net_of gs a = (case find (\<lambda>g. a \<in> set (map pin_reg g)) gs of None \<Rightarrow> [] | Some g \<Rightarrow> g)"

definition jig :: "ctrl_group list \<Rightarrow> regs \<Rightarrow> regs" where
  "jig gs r a = (case find (\<lambda>p. drives r p \<noteq> None) (net_of gs a) of None \<Rightarrow> 1 | Some p \<Rightarrow> of_bool (drives r p = Some True))"

definition jig_wires :: "ctrl_group list \<Rightarrow> u32 \<Rightarrow> u32 \<Rightarrow> bool" where
  "jig_wires gs p q \<longleftrightarrow> q \<in> set (net_of gs (pin_reg p))"

lemma find_in: "find P xs = Some x \<Longrightarrow> x \<in> set xs"
  by (induction xs) (auto split: if_splits)

lemma net_pins: "list_all group_ok gs \<Longrightarrow> q \<in> set (net_of gs a) \<Longrightarrow> app_pin q"
  by (cases "find (\<lambda>g. a \<in> set (map pin_reg g)) gs") (auto simp: net_of_def list_all_iff group_ok_def dest: find_in)

lemma find_drives_cong:
  "\<forall>q \<in> set g. drives r q = drives r' q \<Longrightarrow> find (\<lambda>p. drives r p \<noteq> None) g = find (\<lambda>p. drives r' p \<noteq> None) g"
  by (induction g) auto

lemma find_only:
  "q \<in> set g \<Longrightarrow> P q \<Longrightarrow> \<forall>q' \<in> set g. q' \<noteq> q \<longrightarrow> \<not> P q' \<Longrightarrow> find P g = Some q"
  by (induction g) auto

lemma jig_board:
  assumes "list_all group_ok gs"
  shows "board_ok (jig gs) (jig_wires gs)"
  unfolding board_ok_def
proof (intro conjI allI impI)
  fix r r' p
  let ?g = "net_of gs (pin_reg p)"
  assume "\<forall>q. app_pin q \<longrightarrow> jig_wires gs p q \<longrightarrow> drives r q = drives r' q"
  then have same: "\<forall>q \<in> set ?g. drives r q = drives r' q" using net_pins [OF assms] by (auto simp: jig_wires_def)
  show "sees (jig gs) r p = sees (jig gs) r' p"
    using find_drives_cong [OF same] same
    by (auto simp: sees_def jig_def split: option.splits dest: find_in)
next
  fix r p q v
  let ?g = "net_of gs (pin_reg p)"
  assume q: "app_pin q" "jig_wires gs p q" "drives r q = Some v"
    "\<forall>q'. app_pin q' \<longrightarrow> jig_wires gs p q' \<longrightarrow> q' \<noteq> q \<longrightarrow> drives r q' = None"
  have "find (\<lambda>p. drives r p \<noteq> None) ?g = Some q"
    using q net_pins [OF assms] by (intro find_only) (auto simp: jig_wires_def)
  then show "sees (jig gs) r p = v" using q(3) by (simp add: sees_def jig_def)
qed

lemma gpio_test_detects_witness:
  "(\<exists>r1. gpio_test_cb (jig groups_wa1) BK_BOARD_WA1 (\<lambda>_. 0) = Ret (True, r1)) \<and>
   (\<exists>r1. gpio_test_cb (jig [[6, 18], [8, 19]]) BK_BOARD_WA2L (\<lambda>_. 0) = Ret (False, r1))"
proof -
  have ok: "list_all group_ok [[6, 18], [8, 19]]"
    by (simp add: group_ok_def app_pin_def)
  show ?thesis
  using gpio_test_detects [OF jig_board, of groups_wa1 BK_BOARD_WA1 "\<lambda>_. 0"] boards_ok [of BK_BOARD_WA1]
    gpio_test_detects [OF jig_board [OF ok], of BK_BOARD_WA2L "\<lambda>_. 0"]
  by (simp add: bk_boards board_groups_def groups_wa1_def groups_wa2l_def alone_def joined_def jig_wires_def net_of_def pin_reg_def
    gpio_regs)
qed

end
