(* ===== verification/Tuya_Led.thy ===== *)
theory Tuya_Led
  imports Gpio
begin

text \<open>
  Indicator lights of the Tuya application, \<open>project/tuya_common/src/driver/tuya_led.c\<close>: control blocks in a list, newest
  first, a light type per block, and a 100-ms timer that flashes them.

  A handle is the address of the block, the answer of \<open>Malloc\<close>; the block of an address is looked up in the list, and one
  that is not there (NULL, above all) is a \<open>Fault\<close>. The answers of the allocation, the mutex and the timer calls are
  arguments; the pins are the registers of \<open>Gpio\<close>.
\<close>

section \<open>State\<close>


datatype led_lt = OL_LOW | OL_HIGH | OL_FLASH_LOW | OL_FLASH_HIGH

record led_cntl =
  led_port :: u32
  led_type :: led_lt
  flash_cycle :: u16
  expire_time :: u16
  flh_sum_time :: u16

definition LED_TIMER_VAL_MS :: u16 where "LED_TIMER_VAL_MS = 100"
definition LED_TIMER_UNINIT :: u16 where "LED_TIMER_UNINIT = 0xffff"

record led_sys =
  led_cntl_list :: "(nat \<times> led_cntl) list"
  led_timer :: u16
  led_mutex :: bool
  led_regs :: regs

definition led_start :: "regs \<Rightarrow> led_sys" where
  "led_start r = \<lparr>led_cntl_list = [], led_timer = LED_TIMER_UNINIT, led_mutex = False, led_regs = r\<rparr>"

section \<open>Creating a light\<close>

record led_env =
  led_mutex_ret :: int
  led_add_timer :: "int \<times> u16"
  led_start_timer :: int
  led_malloc :: "nat option"

text \<open>The mutex and the timer of the first call.\<close>

definition led_prepare :: "led_env \<Rightarrow> led_sys \<Rightarrow> int \<times> led_sys" where
  "led_prepare env s =
     (let s1 = (if led_mutex s then s else s\<lparr>led_mutex := led_mutex_ret env = OPRT_OK\<rparr>) in
      if \<not> led_mutex s \<and> led_mutex_ret env \<noteq> OPRT_OK then (led_mutex_ret env, s1)
      else if led_timer s1 \<noteq> LED_TIMER_UNINIT then (OPRT_OK, s1)
      else if fst (led_add_timer env) \<noteq> OPRT_OK then (fst (led_add_timer env), s1)
      else (led_start_timer env, s1\<lparr>led_timer := snd (led_add_timer env)\<rparr>))"

definition led_new :: "u32 \<Rightarrow> led_cntl" where
  "led_new port = \<lparr>led_port = port, led_type = OL_LOW, flash_cycle = 0, expire_time = 0, flh_sum_time = 0\<rparr>"

definition tuya_create_led_handle ::
    "led_env \<Rightarrow> u32 \<Rightarrow> bool \<Rightarrow> nat option \<Rightarrow> led_sys \<Rightarrow> (int \<times> nat option \<times> led_sys) c_run" where
  "tuya_create_led_handle env port high handle s =
     (case led_prepare env s of (op_ret, s1) \<Rightarrow>
      if op_ret \<noteq> OPRT_OK then Ret (op_ret, handle, s1)
      else
        c_then (tuya_gpio_inout_set port False (led_regs s1)) (\<lambda>r1.
        c_then (tuya_gpio_write port high r1) (\<lambda>r2.
          (let s2 = s1\<lparr>led_regs := r2\<rparr> in
           case led_malloc env of
             None \<Rightarrow> Ret (OPRT_MALLOC_FAILED, handle, s2)
           | Some a \<Rightarrow> Ret (OPRT_OK, Some a, s2\<lparr>led_cntl_list := (a, led_new port) # led_cntl_list s2\<rparr>)))))"

section \<open>Light types\<close>

definition set_type :: "led_lt \<Rightarrow> u16 \<Rightarrow> u16 \<Rightarrow> led_cntl \<Rightarrow> regs \<Rightarrow> (led_cntl \<times> regs) c_run" where
  "set_type type mstime sumtime c r =
     (let c1 = c\<lparr>led_type := type\<rparr> in
      case type of
        OL_LOW \<Rightarrow> c_then (tuya_gpio_write (led_port c1) False r) (\<lambda>r1. Ret (c1, r1))
      | OL_HIGH \<Rightarrow> c_then (tuya_gpio_write (led_port c1) True r) (\<lambda>r1. Ret (c1, r1))
      | _ \<Rightarrow> Ret (c1\<lparr>flh_sum_time := sumtime, flash_cycle := mstime, expire_time := 0\<rparr>, r))"

fun led_update :: "nat \<Rightarrow> led_cntl \<Rightarrow> (nat \<times> led_cntl) list \<Rightarrow> (nat \<times> led_cntl) list" where
  "led_update h c [] = []"
| "led_update h c ((a, d) # ls) = (if a = h then (a, c) # ls else (a, d) # led_update h c ls)"

definition tuya_set_led_light_type :: "nat option \<Rightarrow> led_lt \<Rightarrow> u16 \<Rightarrow> u16 \<Rightarrow> led_sys \<Rightarrow> led_sys c_run" where
  "tuya_set_led_light_type handle type mstime sumtime s =
     (case handle of
        None \<Rightarrow> Fault
      | Some h \<Rightarrow>
          (case map_of (led_cntl_list s) h of
             None \<Rightarrow> Fault
           | Some c \<Rightarrow>
               c_then (set_type type mstime sumtime c (led_regs s)) (\<lambda>(c1, r1).
                 Ret (s\<lparr>led_cntl_list := led_update h c1 (led_cntl_list s), led_regs := r1\<rparr>))))"

section \<open>The timer\<close>

definition led_toggle :: "led_cntl \<Rightarrow> regs \<Rightarrow> (led_cntl \<times> regs) c_run" where
  "led_toggle c r =
     (if led_type c = OL_FLASH_LOW
      then c_then (tuya_gpio_write (led_port c) False r) (\<lambda>r1. Ret (c\<lparr>led_type := OL_FLASH_HIGH\<rparr>, r1))
      else c_then (tuya_gpio_write (led_port c) True r) (\<lambda>r1. Ret (c\<lparr>led_type := OL_FLASH_LOW\<rparr>, r1)))"

definition led_deadline :: "led_cntl \<Rightarrow> regs \<Rightarrow> (led_cntl \<times> regs) c_run" where
  "led_deadline c r =
     (if flh_sum_time c = 0xffff then Ret (c, r)
      else
        (let c1 = c\<lparr>flh_sum_time := (if LED_TIMER_VAL_MS \<le> flh_sum_time c then flh_sum_time c - LED_TIMER_VAL_MS else 0)\<rparr> in
         if flh_sum_time c1 = 0 then set_type (if led_type c1 = OL_FLASH_LOW then OL_LOW else OL_HIGH) 0 0 c1 r
         else Ret (c1, r)))"

definition led_tick :: "led_cntl \<Rightarrow> regs \<Rightarrow> (led_cntl \<times> regs) c_run" where
  "led_tick c r =
     (if led_type c = OL_FLASH_LOW \<or> led_type c = OL_FLASH_HIGH then
        (let c1 = c\<lparr>expire_time := expire_time c + LED_TIMER_VAL_MS\<rparr> in
         c_then (if flash_cycle c1 \<le> expire_time c1 then led_toggle (c1\<lparr>expire_time := 0\<rparr>) r else Ret (c1, r))
           (\<lambda>(c2, r1). led_deadline c2 r1))
      else Ret (c, r))"

fun led_walk :: "(nat \<times> led_cntl) list \<Rightarrow> regs \<Rightarrow> ((nat \<times> led_cntl) list \<times> regs) c_run" where
  "led_walk [] r = Ret ([], r)"
| "led_walk ((a, c) # ls) r =
     c_then (led_tick c r) (\<lambda>(c1, r1). c_then (led_walk ls r1) (\<lambda>(ls1, r2). Ret ((a, c1) # ls1, r2)))"

definition led_timer_cb :: "led_sys \<Rightarrow> led_sys c_run" where
  "led_timer_cb s =
     c_then (led_walk (led_cntl_list s) (led_regs s)) (\<lambda>(ls, r). Ret (s\<lparr>led_cntl_list := ls, led_regs := r\<rparr>))"

section \<open>Well-formed lights\<close>

definition leds_ok :: "(nat \<times> led_cntl) list \<Rightarrow> bool" where
  "leds_ok ls \<longleftrightarrow> distinct (map fst ls) \<and> distinct (map (led_port \<circ> snd) ls) \<and> list_all (app_pin \<circ> led_port \<circ> snd) ls"

text \<open>One light by itself: its block and the level of its pin.\<close>

definition lit_type :: "led_lt \<Rightarrow> bool \<Rightarrow> bool" where
  "lit_type t b = (case t of OL_LOW \<Rightarrow> False | OL_HIGH \<Rightarrow> True | _ \<Rightarrow> b)"

definition typed :: "led_lt \<Rightarrow> u16 \<Rightarrow> u16 \<Rightarrow> led_cntl \<Rightarrow> led_cntl" where
  "typed t mstime sumtime c =
     (if t = OL_LOW \<or> t = OL_HIGH then c\<lparr>led_type := t\<rparr>
      else c\<lparr>led_type := t, flh_sum_time := sumtime, flash_cycle := mstime, expire_time := 0\<rparr>)"

definition light_toggle :: "led_cntl \<times> bool \<Rightarrow> led_cntl \<times> bool" where
  "light_toggle = (\<lambda>(c, b). (c\<lparr>led_type := (if led_type c = OL_FLASH_LOW then OL_FLASH_HIGH else OL_FLASH_LOW)\<rparr>,
     led_type c \<noteq> OL_FLASH_LOW))"

definition light_deadline :: "led_cntl \<times> bool \<Rightarrow> led_cntl \<times> bool" where
  "light_deadline = (\<lambda>(c, b).
     if flh_sum_time c = 0xffff then (c, b)
     else
       (let c1 = c\<lparr>flh_sum_time := (if LED_TIMER_VAL_MS \<le> flh_sum_time c then flh_sum_time c - LED_TIMER_VAL_MS else 0)\<rparr>;
            t = (if led_type c1 = OL_FLASH_LOW then OL_LOW else OL_HIGH)
        in if flh_sum_time c1 = 0 then (c1\<lparr>led_type := t\<rparr>, lit_type t b) else (c1, b)))"

definition light_tick :: "led_cntl \<times> bool \<Rightarrow> led_cntl \<times> bool" where
  "light_tick = (\<lambda>(c, b).
     if led_type c = OL_FLASH_LOW \<or> led_type c = OL_FLASH_HIGH then
       (let c1 = c\<lparr>expire_time := expire_time c + LED_TIMER_VAL_MS\<rparr> in
        light_deadline (if flash_cycle c1 \<le> expire_time c1 then light_toggle (c1\<lparr>expire_time := 0\<rparr>, b) else (c1, b)))
     else (c, b))"

text \<open>A computation on a block's pin: it does what the light does and leaves the other pins alone.\<close>

definition moves_pin :: "(led_cntl \<times> regs) c_run \<Rightarrow> regs \<Rightarrow> led_cntl \<times> bool \<Rightarrow> bool" where
  "moves_pin run r l \<longleftrightarrow> (\<exists>c1 r1. run = Ret (c1, r1) \<and> c1 = fst l \<and> level r1 (led_port c1) = snd l \<and>
     (\<forall>q. app_pin q \<longrightarrow> q \<noteq> led_port c1 \<longrightarrow> level r1 q = level r q))"

lemma moves_pinI:
  "run = Ret (c1, r1) \<Longrightarrow> l = (c1, level r1 (led_port c1)) \<Longrightarrow>
     \<forall>q. app_pin q \<longrightarrow> q \<noteq> led_port c1 \<longrightarrow> level r1 q = level r q \<Longrightarrow> moves_pin run r l"
  by (simp add: moves_pin_def)

lemma write_moves:
  assumes "app_pin (led_port c1)"
  shows "moves_pin (c_then (tuya_gpio_write (led_port c1) high r) (\<lambda>r1. Ret (c1, r1))) r (c1, high)"
proof -
  obtain r1 where r1: "tuya_gpio_write (led_port c1) high r = Ret r1"
    "\<forall>q. app_pin q \<longrightarrow> level r1 q = (if q = led_port c1 then high else level r q)"
    by (rule level_write [OF assms])
  from r1(2) assms have "level r1 (led_port c1) = high" by simp
  with r1 show ?thesis by (intro moves_pinI [of _ c1 r1]) simp_all
qed

lemma stays_moves: "moves_pin (Ret (c, r)) r (c, level r (led_port c))"
  by (simp add: moves_pin_def)

lemma set_type_moves:
  assumes "app_pin (led_port c)"
  shows "moves_pin (set_type t mstime sumtime c r) r (typed t mstime sumtime c, lit_type t (level r (led_port c)))"
  using assms write_moves [of "c\<lparr>led_type := t\<rparr>"] stays_moves [of "c\<lparr>led_type := t, flh_sum_time := sumtime,
    flash_cycle := mstime, expire_time := 0\<rparr>"]
  by (cases t) (simp_all add: set_type_def typed_def lit_type_def Let_def)

lemma toggle_moves:
  assumes "app_pin (led_port c)"
  shows "moves_pin (led_toggle c r) r (light_toggle (c, b))"
  using assms write_moves [of "c\<lparr>led_type := OL_FLASH_LOW\<rparr>" True r] write_moves [of "c\<lparr>led_type := OL_FLASH_HIGH\<rparr>" False r]
  by (simp add: led_toggle_def light_toggle_def)

lemma deadline_moves:
  assumes "app_pin (led_port c)"
  shows "moves_pin (led_deadline c r) r (light_deadline (c, level r (led_port c)))"
proof (cases "flh_sum_time c = 0xffff")
  case True
  then show ?thesis by (simp add: led_deadline_def light_deadline_def stays_moves)
next
  case False
  define c1 where "c1 = c\<lparr>flh_sum_time := (if LED_TIMER_VAL_MS \<le> flh_sum_time c then flh_sum_time c - LED_TIMER_VAL_MS else 0)\<rparr>"
  define t where "t = (if led_type c1 = OL_FLASH_LOW then OL_LOW else OL_HIGH)"
  have p: "led_port c1 = led_port c" by (simp add: c1_def)
  have t: "t = OL_LOW \<or> t = OL_HIGH" by (simp add: t_def)
  have d: "led_deadline c r = (if flh_sum_time c1 = 0 then set_type t 0 0 c1 r else Ret (c1, r))"
    "light_deadline (c, b) = (if flh_sum_time c1 = 0 then (c1\<lparr>led_type := t\<rparr>, lit_type t b) else (c1, b))" for b
    using False by (simp_all add: led_deadline_def light_deadline_def Let_def c1_def [symmetric] t_def [symmetric])
  have "typed t 0 0 c1 = c1\<lparr>led_type := t\<rparr>" using t by (simp add: typed_def)
  then show ?thesis
    using set_type_moves [of c1 t 0 0 r] stays_moves [of c1 r] assms unfolding d p by (cases "flh_sum_time c1 = 0") (simp_all add: p)
qed

lemma moves_then:
  assumes "moves_pin run r l" "led_port (fst l) = p" "\<And>r1. level r1 p = snd l \<Longrightarrow> moves_pin (f (fst l, r1)) r1 l'" "led_port (fst l') = p"
  shows "moves_pin (c_then run f) r l'"
proof -
  obtain c1 r1 where r1: "run = Ret (c1, r1)" "c1 = fst l" "level r1 (led_port c1) = snd l"
    "\<forall>q. app_pin q \<longrightarrow> q \<noteq> led_port c1 \<longrightarrow> level r1 q = level r q"
    using assms(1) unfolding moves_pin_def by blast
  then have "moves_pin (f (c1, r1)) r1 l'" using assms(2,3) by simp
  then obtain c2 r2 where "f (c1, r1) = Ret (c2, r2)" "c2 = fst l'" "level r2 (led_port c2) = snd l'"
    "\<forall>q. app_pin q \<longrightarrow> q \<noteq> led_port c2 \<longrightarrow> level r2 q = level r1 q"
    unfolding moves_pin_def by blast
  with r1 assms(2,4) show ?thesis unfolding moves_pin_def by auto
qed

lemma light_port [simp]:
  "led_port (fst (light_toggle l)) = led_port (fst l)" "led_port (fst (light_deadline l)) = led_port (fst l)"
  "led_port (fst (light_tick l)) = led_port (fst l)"
proof -
  show t: "led_port (fst (light_toggle l)) = led_port (fst l)" for l by (cases l) (simp add: light_toggle_def)
  show d: "led_port (fst (light_deadline l)) = led_port (fst l)" for l
    by (cases l) (simp add: light_deadline_def Let_def)
  show "led_port (fst (light_tick l)) = led_port (fst l)"
    by (cases l) (simp add: light_tick_def Let_def t d)
qed

lemma tick_moves:
  assumes "app_pin (led_port c)"
  shows "moves_pin (led_tick c r) r (light_tick (c, level r (led_port c)))"
proof (cases "led_type c = OL_FLASH_LOW \<or> led_type c = OL_FLASH_HIGH")
  case True
  define c1 where "c1 = c\<lparr>expire_time := expire_time c + LED_TIMER_VAL_MS\<rparr>"
  define l where "l = (if flash_cycle c1 \<le> expire_time c1 then light_toggle (c1\<lparr>expire_time := 0\<rparr>, level r (led_port c))
      else (c1, level r (led_port c)))"
  have p: "led_port c1 = led_port c" "led_port (fst l) = led_port c" by (simp_all add: c1_def l_def)
  have run: "moves_pin (if flash_cycle c1 \<le> expire_time c1 then led_toggle (c1\<lparr>expire_time := 0\<rparr>) r else Ret (c1, r)) r l"
    using toggle_moves [of "c1\<lparr>expire_time := 0\<rparr>" r] stays_moves [of c1 r] assms by (simp add: l_def p)
  have after: "moves_pin (led_deadline (fst l) r1) r1 (light_deadline l)" if "level r1 (led_port c) = snd l" for r1
    using deadline_moves [of "fst l" r1] assms by (simp add: p that)
  have defs: "led_tick c r = c_then (if flash_cycle c1 \<le> expire_time c1 then led_toggle (c1\<lparr>expire_time := 0\<rparr>) r else Ret (c1, r))
      (\<lambda>(c2, r1). led_deadline c2 r1)"
    "light_tick (c, level r (led_port c)) = light_deadline l"
    using True by (simp_all add: led_tick_def light_tick_def Let_def c1_def [symmetric] l_def [symmetric])
  show ?thesis unfolding defs by (rule moves_then [OF run p(2)]) (simp_all add: after p)
next
  case False
  then show ?thesis by (simp add: led_tick_def light_tick_def stays_moves)
qed

section \<open>All lights\<close>

text \<open>What the lights of a state are: the block and the level of each.\<close>

definition lights_of :: "(nat \<times> led_cntl) list \<Rightarrow> regs \<Rightarrow> (nat \<times> led_cntl \<times> bool) list" where
  "lights_of ls r = map (\<lambda>(a, c). (a, c, level r (led_port c))) ls"

definition lights :: "led_sys \<Rightarrow> (nat \<times> led_cntl \<times> bool) list" where
  "lights s = lights_of (led_cntl_list s) (led_regs s)"

lemma lights_of_simps [simp]:
  "lights_of [] r = []" "lights_of ((a, c) # ls) r = (a, c, level r (led_port c)) # lights_of ls r"
  by (simp_all add: lights_of_def)

lemma lights_of_cong:
  "list_all (app_pin \<circ> led_port \<circ> snd) ls \<Longrightarrow> \<forall>q. app_pin q \<longrightarrow> q \<in> (led_port \<circ> snd) ` set ls \<longrightarrow> level r1 q = level r q \<Longrightarrow>
     lights_of ls r1 = lights_of ls r"
  by (induction ls) auto

lemma leds_ok_Cons:
  "leds_ok ((a, c) # ls) \<longleftrightarrow> a \<notin> fst ` set ls \<and> led_port c \<notin> (led_port \<circ> snd) ` set ls \<and> app_pin (led_port c) \<and> leds_ok ls"
  by (auto simp: leds_ok_def)

lemma walk_lights:
  assumes "leds_ok ls"
  shows "\<exists>ls1 r1. led_walk ls r = Ret (ls1, r1) \<and> lights_of ls1 r1 = map (apsnd light_tick) (lights_of ls r) \<and>
    leds_ok ls1 \<and> map (\<lambda>(a, c). (a, led_port c)) ls1 = map (\<lambda>(a, c). (a, led_port c)) ls \<and>
    (\<forall>q. app_pin q \<longrightarrow> q \<notin> (led_port \<circ> snd) ` set ls \<longrightarrow> level r1 q = level r q)"
  using assms
proof (induction ls arbitrary: r)
  case (Cons l ls)
  obtain a c where l: "l = (a, c)" by (cases l)
  from Cons.prems have ok: "a \<notin> fst ` set ls" "led_port c \<notin> (led_port \<circ> snd) ` set ls" "app_pin (led_port c)" "leds_ok ls"
    by (simp_all add: l leds_ok_Cons)
  obtain c0 r0 where t: "led_tick c r = Ret (c0, r0)" "c0 = fst (light_tick (c, level r (led_port c)))"
    "level r0 (led_port c0) = snd (light_tick (c, level r (led_port c)))"
    "\<forall>q. app_pin q \<longrightarrow> q \<noteq> led_port c0 \<longrightarrow> level r0 q = level r q"
    using tick_moves [OF ok(3), of r] unfolding moves_pin_def by blast
  then have p0: "led_port c0 = led_port c" by simp
  obtain ls1 r1 where w: "led_walk ls r0 = Ret (ls1, r1)" "lights_of ls1 r1 = map (apsnd light_tick) (lights_of ls r0)"
    "leds_ok ls1" "map (\<lambda>(a, c). (a, led_port c)) ls1 = map (\<lambda>(a, c). (a, led_port c)) ls"
    "\<forall>q. app_pin q \<longrightarrow> q \<notin> (led_port \<circ> snd) ` set ls \<longrightarrow> level r1 q = level r0 q"
    using Cons.IH [OF ok(4), of r0] by blast
  have "set (map (\<lambda>(a, c). (a, led_port c)) ls1) = set (map (\<lambda>(a, c). (a, led_port c)) ls)" using w(4) by simp
  then have img: "(\<lambda>(a, c). (a, led_port c)) ` set ls1 = (\<lambda>(a, c). (a, led_port c)) ` set ls" by simp
  have same: "fst ` set ls1 = fst ` set ls" "(led_port \<circ> snd) ` set ls1 = (led_port \<circ> snd) ` set ls"
    using arg_cong [OF img, of "image fst"] arg_cong [OF img, of "image snd"] by (simp_all add: image_image case_prod_beta)
  have "level r0 q = level r q" if "app_pin q" "q \<in> (led_port \<circ> snd) ` set ls" for q
    using t(4) p0 ok(2) that by metis
  then have "lights_of ls r0 = lights_of ls r"
    by (intro lights_of_cong) (use ok(4) in \<open>simp_all add: leds_ok_def\<close>)
  moreover have "level r1 (led_port c0) = level r0 (led_port c0)" using w(5) ok(2,3) p0 by simp
  ultimately show ?case
    using t w ok same p0 by (auto simp: l leds_ok_Cons)
qed (simp add: leds_ok_def)

lemma timer_lights:
  assumes "leds_ok (led_cntl_list s)"
  obtains s1 where "led_timer_cb s = Ret s1" "lights s1 = map (apsnd light_tick) (lights s)" "leds_ok (led_cntl_list s1)"
    "\<forall>q. app_pin q \<longrightarrow> q \<notin> (led_port \<circ> snd) ` set (led_cntl_list s) \<longrightarrow> level (led_regs s1) q = level (led_regs s) q"
    "map (\<lambda>(a, c). (a, led_port c)) (led_cntl_list s1) = map (\<lambda>(a, c). (a, led_port c)) (led_cntl_list s)"
    "led_timer s1 = led_timer s" "led_mutex s1 = led_mutex s"
  using walk_lights [OF assms, of "led_regs s"] by (auto simp: led_timer_cb_def lights_def)

lemma update_lights:
  assumes "leds_ok ls" "map_of ls h = Some c" "led_port c1 = led_port c"
    "\<forall>q. app_pin q \<longrightarrow> q \<noteq> led_port c \<longrightarrow> level r1 q = level r q"
  shows "lights_of (led_update h c1 ls) r1 =
      map (\<lambda>(a, l). if a = h then (a, c1, level r1 (led_port c)) else (a, l)) (lights_of ls r) \<and>
    leds_ok (led_update h c1 ls) \<and>
    map (\<lambda>(a, c). (a, led_port c)) (led_update h c1 ls) = map (\<lambda>(a, c). (a, led_port c)) ls"
  using assms(1,2)
proof (induction ls)
  case (Cons l ls)
  obtain a d where l: "l = (a, d)" by (cases l)
  from Cons.prems have ok: "a \<notin> fst ` set ls" "led_port d \<notin> (led_port \<circ> snd) ` set ls" "app_pin (led_port d)" "leds_ok ls"
    by (simp_all add: l leds_ok_Cons)
  show ?case
  proof (cases "a = h")
    case True
    then have d: "d = c" using Cons.prems by (simp add: l)
    have "level r1 q = level r q" if "app_pin q" "q \<in> (led_port \<circ> snd) ` set ls" for q
      using assms(4) ok(2) that d by metis
    then have same: "lights_of ls r1 = lights_of ls r"
      by (intro lights_of_cong) (use ok(4) in \<open>simp_all add: leds_ok_def\<close>)
    have "map (\<lambda>(a, l). if a = h then (a, c1, level r1 (led_port c)) else (a, l)) (lights_of ls r) = lights_of ls r"
      using ok(1) True by (intro map_idI) (auto simp: lights_of_def image_iff split: prod.splits)
    then show ?thesis using True d ok assms(3) same by (simp add: l leds_ok_Cons)
  next
    case False
    have there: "map_of ls h = Some c" using Cons.prems False by (simp add: l)
    note ih = Cons.IH [OF ok(4) there]
    then have "set (map (\<lambda>(a, c). (a, led_port c)) (led_update h c1 ls)) = set (map (\<lambda>(a, c). (a, led_port c)) ls)" by simp
    then have img: "(\<lambda>(a, c). (a, led_port c)) ` set (led_update h c1 ls) = (\<lambda>(a, c). (a, led_port c)) ` set ls" by simp
    have same: "fst ` set (led_update h c1 ls) = fst ` set ls"
      "(led_port \<circ> snd) ` set (led_update h c1 ls) = (led_port \<circ> snd) ` set ls"
      using arg_cong [OF img, of "image fst"] arg_cong [OF img, of "image snd"] by (simp_all add: image_image case_prod_beta)
    have "led_port d \<noteq> led_port c"
      using ok(2) map_of_SomeD [OF there] by (auto simp: image_iff)
    then show ?thesis using False ih ok same assms(4) by (simp add: l leds_ok_Cons)
  qed
qed simp

lemma set_lights:
  assumes "leds_ok (led_cntl_list s)" "map_of (led_cntl_list s) h = Some c"
  obtains s1 where "tuya_set_led_light_type (Some h) t mstime sumtime s = Ret s1"
    "lights s1 = map (\<lambda>(a, l). if a = h then (a, typed t mstime sumtime (fst l), lit_type t (snd l)) else (a, l)) (lights s)"
    "leds_ok (led_cntl_list s1)"
    "\<forall>q. app_pin q \<longrightarrow> q \<noteq> led_port c \<longrightarrow> level (led_regs s1) q = level (led_regs s) q"
    "map (\<lambda>(a, c). (a, led_port c)) (led_cntl_list s1) = map (\<lambda>(a, c). (a, led_port c)) (led_cntl_list s)"
    "led_timer s1 = led_timer s" "led_mutex s1 = led_mutex s"
proof -
  have mem: "(h, c) \<in> set (led_cntl_list s)" using assms(2) by (rule map_of_SomeD)
  then have "app_pin (led_port c)" using assms(1) by (auto simp: leds_ok_def list_all_iff)
  from set_type_moves [OF this, of t mstime sumtime "led_regs s"] obtain c1 r1 where
    t: "set_type t mstime sumtime c (led_regs s) = Ret (c1, r1)" "c1 = typed t mstime sumtime c"
      "level r1 (led_port c1) = lit_type t (level (led_regs s) (led_port c))"
      "\<forall>q. app_pin q \<longrightarrow> q \<noteq> led_port c1 \<longrightarrow> level r1 q = level (led_regs s) q"
    unfolding moves_pin_def by auto
  then have p: "led_port c1 = led_port c" by (simp add: typed_def)
  let ?s1 = "s\<lparr>led_cntl_list := led_update h c1 (led_cntl_list s), led_regs := r1\<rparr>"
  note u = update_lights [OF assms p, of r1 "led_regs s"]
  have only: "x = (h, c, level (led_regs s) (led_port c))" if x: "x \<in> set (lights s)" "fst x = h" for x
  proof -
    obtain d where "x = (h, d, level (led_regs s) (led_port d))" "(h, d) \<in> set (led_cntl_list s)"
      using x by (cases x) (auto simp: lights_def lights_of_def)
    moreover from this have "d = c" using mem assms(1) by (auto simp: leds_ok_def dest: eq_key_imp_eq_value)
    ultimately show ?thesis by simp
  qed
  have "map (\<lambda>(a, l). if a = h then (a, c1, level r1 (led_port c)) else (a, l)) (lights s) =
    map (\<lambda>(a, l). if a = h then (a, typed t mstime sumtime (fst l), lit_type t (snd l)) else (a, l)) (lights s)"
  proof (intro map_cong refl)
    fix x assume x: "x \<in> set (lights s)"
    show "(case x of (a, l) \<Rightarrow> if a = h then (a, c1, level r1 (led_port c)) else (a, l)) =
      (case x of (a, l) \<Rightarrow> if a = h then (a, typed t mstime sumtime (fst l), lit_type t (snd l)) else (a, l))"
      using only [OF x] t(2,3) p by (cases "fst x = h") (auto split: prod.splits)
  qed
  with u t p assms show thesis
    by (intro that [of ?s1]) (simp_all add: tuya_set_led_light_type_def lights_def)
qed

section \<open>Flashing\<close>

text \<open>The number of timer ticks of a time in milliseconds: at least one.\<close>

definition led_ticks :: "u16 \<Rightarrow> nat" where
  "led_ticks ms = max 1 ((unat ms + 99) div 100)"

definition flash_type :: "bool \<Rightarrow> led_lt" where
  "flash_type high = (if high then OL_FLASH_HIGH else OL_FLASH_LOW)"

text \<open>The level \<open>n\<close> ticks after a light was set to flash, with the given first level, from the level \<open>b\<close> it had.\<close>

definition flash_level :: "bool \<Rightarrow> u16 \<Rightarrow> u16 \<Rightarrow> nat \<Rightarrow> bool \<Rightarrow> bool" where
  "flash_level high ms dur n b =
     (if dur = 0xffff \<or> n < led_ticks dur then
        (let k = n div led_ticks ms in if k = 0 then b else if odd k then high else \<not> high)
      else (let k = led_ticks dur div led_ticks ms in if odd k then \<not> high else high))"

lemma flash_type_simps [simp]:
  "flash_type high = OL_FLASH_LOW \<longleftrightarrow> \<not> high" "flash_type high = OL_FLASH_HIGH \<longleftrightarrow> high"
  "flash_type high = OL_FLASH_LOW \<or> flash_type high = OL_FLASH_HIGH"
  by (simp_all add: flash_type_def)

text \<open>A flashing light before its deadline.\<close>

definition flashing :: "bool \<Rightarrow> u16 \<Rightarrow> u16 \<Rightarrow> nat \<Rightarrow> bool \<Rightarrow> led_cntl \<times> bool \<Rightarrow> bool" where
  "flashing high ms dur n b l \<longleftrightarrow>
     led_type (fst l) = flash_type (if odd (n div led_ticks ms) then \<not> high else high) \<and>
     flash_cycle (fst l) = ms \<and> unat (expire_time (fst l)) = 100 * (n mod led_ticks ms) \<and>
     (if dur = 0xffff then flh_sum_time (fst l) = 0xffff else unat (flh_sum_time (fst l)) = unat dur - 100 * n) \<and>
     snd l = (let k = n div led_ticks ms in if k = 0 then b else if odd k then high else \<not> high)"

lemma led_ticks_bounds: "0 < led_ticks ms" "unat ms \<le> 100 * led_ticks ms" "1 < led_ticks ms \<Longrightarrow> 100 * (led_ticks ms - 1) < unat ms"
  by (auto simp: led_ticks_def max_def)

lemma unat_less16: "unat (w :: u16) < 65536"
  using unsigned_less [of w] by simp

lemma unat16_100: "unat (w :: u16) + 100 < 65536 \<Longrightarrow> unat (w + LED_TIMER_VAL_MS) = unat w + 100"
  by (simp add: LED_TIMER_VAL_MS_def unat_word_ariths)

lemma div_mod_Suc:
  assumes "0 < (P :: nat)"
  shows "Suc n mod P = (if Suc (n mod P) = P then 0 else Suc (n mod P))"
    "Suc n div P = (if Suc (n mod P) = P then Suc (n div P) else n div P)"
  by (simp_all add: mod_Suc div_Suc)

text \<open>A tick up to the deadline: time and toggle, then the deadline.\<close>

definition light_time :: "led_cntl \<times> bool \<Rightarrow> led_cntl \<times> bool" where
  "light_time = (\<lambda>(c, b).
     (let c1 = c\<lparr>expire_time := expire_time c + LED_TIMER_VAL_MS\<rparr> in
      if flash_cycle c1 \<le> expire_time c1 then light_toggle (c1\<lparr>expire_time := 0\<rparr>, b) else (c1, b)))"

lemma light_tick_flash:
  "led_type (fst l) = flash_type h \<Longrightarrow> light_tick l = light_deadline (light_time l)"
  by (cases l) (simp add: light_tick_def light_time_def Let_def)

lemma time_tick:
  assumes ms: "unat ms \<le> 65500" and l: "flashing high ms dur n b l"
  shows "led_type (fst (light_time l)) = flash_type (if odd (Suc n div led_ticks ms) then \<not> high else high)"
    "flash_cycle (fst (light_time l)) = ms" "unat (expire_time (fst (light_time l))) = 100 * (Suc n mod led_ticks ms)"
    "flh_sum_time (fst (light_time l)) = flh_sum_time (fst l)"
    "snd (light_time l) = (let k = Suc n div led_ticks ms in if k = 0 then b else if odd k then high else \<not> high)"
proof -
  obtain c v where cv: "l = (c, v)" by (cases l)
  let ?P = "led_ticks ms"
  have P: "0 < ?P" "unat ms \<le> 100 * ?P" "1 < ?P \<Longrightarrow> 100 * (?P - 1) < unat ms" by (rule led_ticks_bounds)+
  have "?P \<le> 655" using ms by (simp add: led_ticks_def)
  moreover have "n mod ?P < ?P" using P(1) by simp
  ultimately have "100 * (n mod ?P) + 100 < 65536" by simp
  then have e: "unat (expire_time c + LED_TIMER_VAL_MS) = 100 * Suc (n mod ?P)"
    using l by (simp add: flashing_def cv unat16_100)
  have f: "flash_cycle c = ms" "led_type c = flash_type (if odd (n div ?P) then \<not> high else high)"
    "v = (let k = n div ?P in if k = 0 then b else if odd k then high else \<not> high)"
    using l by (simp_all add: flashing_def cv)
  have reached: "ms \<le> expire_time c + LED_TIMER_VAL_MS \<longleftrightarrow> Suc (n mod ?P) = ?P"
  proof (cases "Suc (n mod ?P) = ?P")
    case True
    then show ?thesis using P(2) by (simp add: word_le_nat_alt e del: mult_Suc_right)
  next
    case False
    then have less: "Suc (n mod ?P) \<le> ?P - 1" "1 < ?P" using \<open>n mod ?P < ?P\<close> by auto
    have "100 * Suc (n mod ?P) < unat ms" using P(3) less by (meson le_less_trans mult_le_mono2)
    then show ?thesis using False by (simp add: word_le_nat_alt e del: mult_Suc_right)
  qed
  note q = div_mod_Suc [OF P(1), of n]
  have t: "light_time l = (if Suc (n mod ?P) = ?P
      then light_toggle (c\<lparr>expire_time := 0\<rparr>, v) else (c\<lparr>expire_time := expire_time c + LED_TIMER_VAL_MS\<rparr>, v))"
    using f(1) reached by (simp add: light_time_def cv Let_def)
  show "led_type (fst (light_time l)) = flash_type (if odd (Suc n div led_ticks ms) then \<not> high else high)"
    unfolding t q using f by (auto simp: light_toggle_def flash_type_def)
  show "flash_cycle (fst (light_time l)) = ms" unfolding t using f by (simp add: light_toggle_def)
  show "unat (expire_time (fst (light_time l))) = 100 * (Suc n mod led_ticks ms)"
    unfolding t q using e by (simp add: light_toggle_def)
  show "flh_sum_time (fst (light_time l)) = flh_sum_time (fst l)" unfolding t by (simp add: light_toggle_def cv)
  show "snd (light_time l) = (let k = Suc n div led_ticks ms in if k = 0 then b else if odd k then high else \<not> high)"
    unfolding t q using f by (auto simp: light_toggle_def flash_type_def Let_def)
qed

lemma deadline_left:
  assumes "dur \<noteq> 0xffff" "unat s = unat dur - 100 * n"
  shows "unat (if LED_TIMER_VAL_MS \<le> s then s - LED_TIMER_VAL_MS else 0) = unat dur - 100 * Suc n"
  using assms(2) by (auto simp: LED_TIMER_VAL_MS_def word_le_nat_alt unat_sub)

lemma ticks_left: "unat (dur :: u16) - 100 * Suc n = 0 \<longleftrightarrow> led_ticks dur \<le> Suc n"
  unfolding led_ticks_def by auto

lemma flash_tick:
  assumes "unat ms \<le> 65500" "flashing high ms dur n b l" "dur = 0xffff \<or> Suc n < led_ticks dur"
  shows "flashing high ms dur (Suc n) b (light_tick l)"
proof -
  obtain c v where cv: "light_time l = (c, v)" by (cases "light_time l")
  note t = time_tick [OF assms(1,2), unfolded cv fst_conv snd_conv]
  have tick: "light_tick l = light_deadline (c, v)"
    using assms(2) light_tick_flash [of l] cv by (auto simp: flashing_def)
  show ?thesis
  proof (cases "dur = 0xffff")
    case True
    then have "flh_sum_time c = 0xffff" using t(4) assms(2) by (simp add: flashing_def)
    then show ?thesis using t True by (simp add: tick light_deadline_def flashing_def)
  next
    case False
    let ?s = "if LED_TIMER_VAL_MS \<le> flh_sum_time c then flh_sum_time c - LED_TIMER_VAL_MS else 0"
    have s: "unat (flh_sum_time c) = unat dur - 100 * n" using t(4) assms(2) False by (simp add: flashing_def)
    then have s1: "unat ?s = unat dur - 100 * Suc n" by (rule deadline_left [OF False])
    have "unat dur < 65535" using False unat_less16 [of dur] by (auto simp: word_unat_eq_iff)
    then have "flh_sum_time c \<noteq> 0xffff" using s by auto
    moreover have "unat ?s \<noteq> 0" using ticks_left [of dur n] assms(3) False unfolding s1 by simp
    then have "?s \<noteq> 0" by (simp only: unat_eq_0 not_False_eq_True)
    ultimately have "light_deadline (c, v) = (c\<lparr>flh_sum_time := ?s\<rparr>, v)" by (simp add: light_deadline_def Let_def)
    then show ?thesis using t s1 False unfolding tick flashing_def by (simp only: fst_conv snd_conv) simp
  qed
qed

lemma flash_last_tick:
  assumes "unat ms \<le> 65500" "flashing high ms dur n b l" "dur \<noteq> 0xffff" "Suc n = led_ticks dur"
  defines "v \<equiv> (if odd (led_ticks dur div led_ticks ms) then \<not> high else high)"
  shows "led_type (fst (light_tick l)) = (if v then OL_HIGH else OL_LOW) \<and> snd (light_tick l) = v"
proof -
  obtain c b' where cv: "light_time l = (c, b')" by (cases "light_time l")
  note t = time_tick [OF assms(1,2), unfolded cv fst_conv snd_conv]
  have tick: "light_tick l = light_deadline (c, b')"
    using assms(2) light_tick_flash [of l] cv by (auto simp: flashing_def)
  let ?s = "if LED_TIMER_VAL_MS \<le> flh_sum_time c then flh_sum_time c - LED_TIMER_VAL_MS else 0"
  have s: "unat (flh_sum_time c) = unat dur - 100 * n" using t(4) assms(2,3) by (simp add: flashing_def)
  then have "unat ?s = unat dur - 100 * Suc n" by (rule deadline_left [OF assms(3)])
  then have "unat ?s = 0" using ticks_left [of dur n] assms(4) by simp
  then have "?s = 0" by (simp only: unat_eq_0)
  moreover have "unat dur < 65535" using assms(3) unat_less16 [of dur] by (auto simp: word_unat_eq_iff)
  then have "flh_sum_time c \<noteq> 0xffff" using s by auto
  moreover have "led_type c = flash_type v" using t(1) assms(4) by (simp add: v_def)
  ultimately show ?thesis by (simp add: tick light_deadline_def Let_def lit_type_def)
qed

lemma light_rest: "led_type (fst l) = OL_HIGH \<or> led_type (fst l) = OL_LOW \<Longrightarrow> light_tick l = l"
  by (cases l) (auto simp: light_tick_def)

lemma flash_run:
  assumes ms: "unat ms \<le> 65500" and l: "flashing high ms dur 0 b l"
  shows "(dur = 0xffff \<or> n < led_ticks dur \<longrightarrow> flashing high ms dur n b ((light_tick ^^ n) l)) \<and>
    snd ((light_tick ^^ n) l) = flash_level high ms dur n b \<and>
    (dur \<noteq> 0xffff \<longrightarrow> led_ticks dur \<le> n \<longrightarrow>
       led_type (fst ((light_tick ^^ n) l)) = (if flash_level high ms dur n b then OL_HIGH else OL_LOW))"
proof (induction n)
  case 0
  have "flash_level high ms dur 0 b = b" using led_ticks_bounds(1) by (simp add: flash_level_def)
  then show ?case using l led_ticks_bounds(1) [of dur] by (simp add: flashing_def)
next
  case (Suc n)
  let ?l = "(light_tick ^^ n) l"
  consider "dur = 0xffff \<or> Suc n < led_ticks dur" | "dur \<noteq> 0xffff" "Suc n = led_ticks dur" | "dur \<noteq> 0xffff" "led_ticks dur \<le> n"
    by linarith
  then show ?case
  proof cases
    case 1
    then have f: "flashing high ms dur (Suc n) b (light_tick ?l)" using Suc.IH by (intro flash_tick [OF ms]) auto
    then have "snd (light_tick ?l) = flash_level high ms dur (Suc n) b" using 1 unfolding flashing_def flash_level_def by simp
    with f 1 show ?thesis by auto
  next
    case 2
    then have "flashing high ms dur n b ?l" using Suc.IH by auto
    from flash_last_tick [OF ms this 2] show ?thesis using 2(1) by (simp add: flash_level_def Let_def flip: 2(2))
  next
    case 3
    then have "light_tick ?l = ?l" using Suc.IH by (intro light_rest) auto
    moreover have "flash_level high ms dur (Suc n) b = flash_level high ms dur n b" using 3 by (simp add: flash_level_def)
    ultimately show ?thesis using 3 Suc.IH by simp
  qed
qed

lemma timer_runs:
  assumes "leds_ok (led_cntl_list s)"
  shows "\<exists>s1. c_steps (\<lambda>_. led_timer_cb) [0..<n] s = Ret s1 \<and> lights s1 = map (apsnd (light_tick ^^ n)) (lights s)"
proof -
  have "\<exists>s1. c_steps (\<lambda>_. led_timer_cb) ns s = Ret s1 \<and> lights s1 = map (apsnd (light_tick ^^ length ns)) (lights s)"
    if "leds_ok (led_cntl_list s)" for ns :: "nat list" and s
    using that
  proof (induction ns arbitrary: s)
    case (Cons n ns)
    obtain s1 where s1: "led_timer_cb s = Ret s1" "lights s1 = map (apsnd light_tick) (lights s)" "leds_ok (led_cntl_list s1)"
      using timer_lights [OF Cons.prems] by metis
    from Cons.IH [OF s1(3)] obtain s2 where "c_steps (\<lambda>_. led_timer_cb) ns s1 = Ret s2"
      "lights s2 = map (apsnd (light_tick ^^ length ns)) (lights s1)" by blast
    then show ?case using s1 by (auto simp: funpow_swap1)
  qed (simp add: map_idI)
  from this [OF assms, of "[0..<n]"] show ?thesis by simp
qed

text \<open>C27: A light set to flash shows, any number of timer ticks later, the pattern of its settings: no change in the first
  period, then the first level and its opposite by turns, each for the period rounded up to whole ticks; from the deadline
  on, unless there is none, it keeps the first level or its opposite as the number of changes made is even or odd. The other
  lights do not matter. Periods above 65500 ms are excluded: there the 16-bit time wraps.

  This is not what \<open>tuya_led.h\<close> says of these settings, a flash that begins with its first level and ends on it: the code
  keeps the old level for the first period, and ends on the documented level only if the number of changes is even, which
  is the second conjunct.\<close>

lemma led_flashes:
  assumes "leds_ok (led_cntl_list s)" "map_of (led_cntl_list s) h = Some c" "unat ms \<le> 65500"
  shows "\<exists>s1 s2. tuya_set_led_light_type (Some h) (flash_type high) ms dur s = Ret s1 \<and>
    c_steps (\<lambda>_. led_timer_cb) [0..<n] s1 = Ret s2 \<and>
    level (led_regs s2) (led_port c) = flash_level high ms dur n (level (led_regs s) (led_port c)) \<and>
    (dur \<noteq> 0xffff \<and> led_ticks dur \<le> n \<longrightarrow>
       (level (led_regs s2) (led_port c) = high \<longleftrightarrow> even (led_ticks dur div led_ticks ms)))"
proof -
  let ?t = "flash_type high" let ?b = "level (led_regs s) (led_port c)"
  obtain s1 where s1: "tuya_set_led_light_type (Some h) ?t ms dur s = Ret s1" "leds_ok (led_cntl_list s1)"
    "lights s1 = map (\<lambda>(a, l). if a = h then (a, typed ?t ms dur (fst l), lit_type ?t (snd l)) else (a, l)) (lights s)"
    by (rule set_lights [OF assms(1,2), of ?t ms dur])
  obtain s2 where s2: "c_steps (\<lambda>_. led_timer_cb) [0..<n] s1 = Ret s2" "lights s2 = map (apsnd (light_tick ^^ n)) (lights s1)"
    using timer_runs [OF s1(2)] by blast
  define l where "l = (typed ?t ms dur c, lit_type ?t ?b)"
  have "(h, c, ?b) \<in> set (lights s)" using map_of_SomeD [OF assms(2)] by (force simp: lights_def lights_of_def)
  then have "(h, l) \<in> set (lights s1)" unfolding s1(3) l_def by force
  then have "(h, (light_tick ^^ n) l) \<in> set (lights s2)" unfolding s2(2) by force
  moreover have port: "led_port (fst ((light_tick ^^ n) l)) = led_port c" for n
    by (induction n) (simp_all add: l_def typed_def)
  moreover have "flashing high ms dur 0 ?b l"
    by (simp add: flashing_def l_def typed_def lit_type_def flash_type_def)
  then have "snd ((light_tick ^^ n) l) = flash_level high ms dur n ?b" using flash_run [OF assms(3)] by blast
  ultimately have "level (led_regs s2) (led_port c) = flash_level high ms dur n ?b"
    using port [of n] by (cases "(light_tick ^^ n) l") (auto simp: lights_def lights_of_def)
  moreover from this have "dur \<noteq> 0xffff \<and> led_ticks dur \<le> n \<longrightarrow>
      (level (led_regs s2) (led_port c) = high \<longleftrightarrow> even (led_ticks dur div led_ticks ms))"
    by (simp add: flash_level_def Let_def)
  ultimately show ?thesis using s1(1) s2(1) by blast
qed

text \<open>Periods of 250 ms take three ticks. For 600 ms there are two changes, and the light ends high, as documented; for 500 ms
  there is one, and it ends low.\<close>

lemma led_flashes_witness:
  "(\<exists>s1 s2. tuya_set_led_light_type (Some 7) OL_FLASH_HIGH 250 600
       (led_start (\<lambda>_. 0)\<lparr>led_cntl_list := [(7, led_new 8), (5, led_new 28)]\<rparr>) = Ret s1 \<and>
    c_steps (\<lambda>_. led_timer_cb) [0..<6] s1 = Ret s2 \<and> level (led_regs s2) 8) \<and>
   (\<exists>s1 s2. tuya_set_led_light_type (Some 7) OL_FLASH_HIGH 250 500
       (led_start (\<lambda>_. 0)\<lparr>led_cntl_list := [(7, led_new 8), (5, led_new 28)]\<rparr>) = Ret s1 \<and>
    c_steps (\<lambda>_. led_timer_cb) [0..<6] s1 = Ret s2 \<and> \<not> level (led_regs s2) 8)"
  using led_flashes [of "led_start (\<lambda>_. 0)\<lparr>led_cntl_list := [(7, led_new 8), (5, led_new 28)]\<rparr>" 7 "led_new 8" 250 True 600 6]
    led_flashes [of "led_start (\<lambda>_. 0)\<lparr>led_cntl_list := [(7, led_new 8), (5, led_new 28)]\<rparr>" 7 "led_new 8" 250 True 500 6]
  by (simp add: led_start_def leds_ok_def led_new_def app_pin_def flash_type_def flash_level_def led_ticks_def)

end
