(* ===== verification/Tuya_Key.thy ===== *)
theory Tuya_Key
  imports SDK_Prelude
begin

text \<open>
  Push buttons of the Tuya application, \<open>project/tuya_common/src/driver/tuya_key.c\<close>: a timer
  samples every key each \<open>timer_space\<close> milliseconds and runs a six-state machine per key that
  debounces it and reports single, sequential and long presses through the key's callback.

  The GPIO levels of a tick, the result of every \<open>Malloc\<close> and the results of the timer and
  mutex calls are arguments. The callbacks made are the list each operation returns. Times are
  C \<open>int\<close>s in milliseconds, kept as \<open>int\<close>: the code relies on them not overflowing (a key
  held for 24 days).
\<close>

section \<open>State\<close>

datatype push_key_type = NORMAL_KEY | SEQ_KEY | LONG_KEY

datatype key_long_press_tp = LP_INVALID | LP_ONCE_TRIG | LP_MORE_NORMAL_TRIG
  | FALLING_EDGE_TRIG | FALLING_LONG_TRIG

datatype key_stat = KEY_DOWN | KEY_DOWN_CONFIRM | KEY_DOWNNING | KEY_UP_CONFIRM | KEY_UPING | KEY_FINISH

record key_user_def =
  key_port :: nat
  low_level_detect :: bool
  lp_tp :: key_long_press_tp
  long_key_time :: u16
  seq_key_detect_time :: u16
  call_back :: "nat option"

record key_entity =
  kud :: key_user_def
  status :: key_stat
  long_key_press :: bool
  key_val_last :: bool
  down_time :: int
  up_time :: int
  seq_key_cnt :: int

text \<open>A callback made: the function called (\<open>None\<close> is NULL) with its arguments.\<close>

datatype key_event = Key_Event "nat option" nat push_key_type int

fun ev_type :: "key_event \<Rightarrow> push_key_type" where
  "ev_type (Key_Event f port tp cnt) = tp"

record key_manage =
  p_tbl :: "key_entity list"
  timer_space :: int
  lst :: "key_entity list"

definition TIMER_SPACE_MAX :: int where "TIMER_SPACE_MAX = 100"
definition KEY_DOWN_CONT_TRIG_TIME_MS :: int where "KEY_DOWN_CONT_TRIG_TIME_MS = 300"

section \<open>One key\<close>

definition tuya_key_down_verify :: "(nat \<Rightarrow> int) \<Rightarrow> key_entity \<Rightarrow> bool" where
  "tuya_key_down_verify gpio_read ent =
     (let gpio_stat = gpio_read (key_port (kud ent)) in
      if \<not> low_level_detect (kud ent) then gpio_stat \<noteq> 0 else gpio_stat = 0)"

definition key_call :: "key_entity \<Rightarrow> push_key_type \<Rightarrow> int \<Rightarrow> key_event list" where
  "key_call ent tp cnt = [Key_Event (call_back (kud ent)) (key_port (kud ent)) tp cnt]"

text \<open>
  The states of \<open>__key_ent_proc\<close>, each given the sampled level (\<open>press\<close>) and the timer period.
\<close>

definition key_down_state :: "bool \<Rightarrow> key_entity \<Rightarrow> key_entity \<times> key_event list" where
  "key_down_state press ent =
     (let e1 = (if press \<and> \<not> key_val_last ent
                then ent\<lparr>status := KEY_DOWN_CONFIRM, key_val_last := True\<rparr>
                else ent\<lparr>key_val_last := press\<rparr>)
      in (e1\<lparr>down_time := 0, up_time := 0, seq_key_cnt := 0\<rparr>, []))"

definition key_down_confirm_state :: "bool \<Rightarrow> key_entity \<Rightarrow> key_entity \<times> key_event list" where
  "key_down_confirm_state press ent =
     (if press then
        (ent\<lparr>status := KEY_DOWNNING\<rparr>,
         if lp_tp (kud ent) = FALLING_EDGE_TRIG \<or> lp_tp (kud ent) = FALLING_LONG_TRIG
         then key_call ent NORMAL_KEY 0 else [])
      else (ent\<lparr>status := KEY_DOWN, down_time := 0\<rparr>, []))"

definition key_downning_state :: "int \<Rightarrow> bool \<Rightarrow> key_entity \<Rightarrow> key_entity \<times> key_event list" where
  "key_downning_state space press ent =
     (if press then
        (let e1 = ent\<lparr>down_time := down_time ent + space\<rparr> in
         if (lp_tp (kud e1) = LP_ONCE_TRIG \<or> lp_tp (kud e1) = FALLING_LONG_TRIG) \<and>
            uint (long_key_time (kud e1)) \<le> down_time e1 \<and> \<not> long_key_press e1
         then (e1\<lparr>long_key_press := True\<rparr>, key_call e1 LONG_KEY 0)
         else if lp_tp (kud e1) = LP_MORE_NORMAL_TRIG \<and> KEY_DOWN_CONT_TRIG_TIME_MS \<le> down_time e1
         then (e1\<lparr>down_time := 0\<rparr>, key_call e1 NORMAL_KEY 0)
         else (e1, []))
      else (ent\<lparr>status := KEY_UP_CONFIRM, up_time := 0\<rparr>, []))"

definition key_up_confirm_state :: "int \<Rightarrow> bool \<Rightarrow> key_entity \<Rightarrow> key_entity \<times> key_event list" where
  "key_up_confirm_state space press ent =
     (if \<not> press then (ent\<lparr>status := KEY_UPING\<rparr>, [])
      else (ent\<lparr>down_time := down_time ent + space, status := KEY_DOWNNING\<rparr>, []))"

definition key_uping_state :: "int \<Rightarrow> bool \<Rightarrow> key_entity \<Rightarrow> key_entity \<times> key_event list" where
  "key_uping_state space press ent =
     (let seq = uint (seq_key_detect_time (kud ent));
          e1 = (if \<not> press then
                  (let e = ent\<lparr>up_time := (if up_time ent = 0 then space * 2 else up_time ent + space)\<rparr>
                   in if seq \<le> up_time e then e\<lparr>status := KEY_FINISH\<rparr> else e)
                else if seq \<le> up_time ent then ent\<lparr>status := KEY_FINISH\<rparr>
                else ent\<lparr>status := KEY_DOWN_CONFIRM, up_time := 0, seq_key_cnt := seq_key_cnt ent + 1\<rparr>)
      in if status e1 \<noteq> KEY_FINISH then (e1, [])
         else
           (let e2 = (if seq_key_cnt e1 \<noteq> 0 then e1\<lparr>seq_key_cnt := seq_key_cnt e1 + 1\<rparr> else e1);
                ev = (if 1 < seq_key_cnt e2 then key_call e2 SEQ_KEY (seq_key_cnt e2)
                      else if lp_tp (kud e2) \<noteq> FALLING_EDGE_TRIG \<and> lp_tp (kud e2) \<noteq> FALLING_LONG_TRIG \<and>
                              \<not> (lp_tp (kud e2) = LP_ONCE_TRIG \<and> long_key_press e2)
                      then key_call e2 NORMAL_KEY 0 else [])
            in (if lp_tp (kud e2) = LP_ONCE_TRIG then e2\<lparr>long_key_press := False\<rparr> else e2, ev)))"

definition key_ent_proc :: "int \<Rightarrow> bool \<Rightarrow> key_entity \<Rightarrow> key_entity \<times> key_event list" where
  "key_ent_proc space press ent =
     (case status ent of
        KEY_DOWN \<Rightarrow> key_down_state press ent
      | KEY_DOWN_CONFIRM \<Rightarrow> key_down_confirm_state press ent
      | KEY_DOWNNING \<Rightarrow> key_downning_state space press ent
      | KEY_UP_CONFIRM \<Rightarrow> key_up_confirm_state space press ent
      | KEY_UPING \<Rightarrow> key_uping_state space press ent
      | KEY_FINISH \<Rightarrow> (ent\<lparr>status := KEY_DOWN\<rparr>, []))"

lemmas key_states = key_down_state_def key_down_confirm_state_def key_downning_state_def
  key_up_confirm_state_def key_uping_state_def

section \<open>All keys\<close>

text \<open>\<open>__key_handle\<close>: the table first, then the registered list, in order.\<close>

fun key_proc_all :: "int \<Rightarrow> (nat \<Rightarrow> int) \<Rightarrow> key_entity list \<Rightarrow> key_entity list \<times> key_event list" where
  "key_proc_all space gpio_read [] = ([], [])"
| "key_proc_all space gpio_read (e # es) =
     (case key_ent_proc space (tuya_key_down_verify gpio_read e) e of (e', ev) \<Rightarrow>
      case key_proc_all space gpio_read es of (es', evs) \<Rightarrow> (e' # es', ev @ evs))"

definition key_handle :: "(nat \<Rightarrow> int) \<Rightarrow> key_manage \<Rightarrow> key_manage \<times> key_event list" where
  "key_handle gpio_read km =
     (case key_proc_all (timer_space km) gpio_read (p_tbl km) of (t, ev1) \<Rightarrow>
      case key_proc_all (timer_space km) gpio_read (lst km) of (l, ev2) \<Rightarrow>
        (km\<lparr>p_tbl := t, lst := l\<rparr>, ev1 @ ev2))"

section \<open>Set-up and registration\<close>

definition KEY_OK :: int where "KEY_OK = 0"
definition KEY_INVALID_PARM :: int where "KEY_INVALID_PARM = -2"
definition KEY_MALLOC_FAILED :: int where "KEY_MALLOC_FAILED = -3"

definition key_new :: "key_user_def \<Rightarrow> key_entity" where
  "key_new ud = \<lparr>kud = ud, status = KEY_DOWN, long_key_press = False, key_val_last = True,
     down_time = 0, up_time = 0, seq_key_cnt = 0\<rparr>"

text \<open>What the calls of \<open>key_init\<close> answer: the allocations, \<open>tuya_gpio_inout_set\<close> per port, the
  mutex, adding the timer and starting it.\<close>

record key_env =
  mag_malloc :: bool
  tbl_malloc :: bool
  inout_set :: "nat \<Rightarrow> int"
  mutex_ret :: int
  add_timer_ret :: int
  start_timer_ret :: int

fun first_error :: "int list \<Rightarrow> int" where
  "first_error [] = 0"
| "first_error (r # rs) = (if r \<noteq> 0 then r else first_error rs)"

definition key_init ::
    "key_env \<Rightarrow> key_user_def list \<Rightarrow> int \<Rightarrow> key_manage option \<Rightarrow> int \<times> key_manage option" where
  "key_init env tbl space key_mag =
     (if key_mag \<noteq> None then (KEY_OK, key_mag)
      else if TIMER_SPACE_MAX < space then (KEY_INVALID_PARM, None)
      else if \<not> mag_malloc env then (KEY_MALLOC_FAILED, None)
      else if tbl \<noteq> [] \<and> \<not> tbl_malloc env then (KEY_MALLOC_FAILED, None)
      else
        (let km = \<lparr>p_tbl = map key_new tbl, timer_space = (if space = 0 then 20 else space), lst = []\<rparr>;
             op_ret = first_error (map (inout_set env \<circ> key_port) tbl @
                        [mutex_ret env, add_timer_ret env, start_timer_ret env])
         in if op_ret \<noteq> KEY_OK then (op_ret, None) else (KEY_OK, Some km)))"

fun key_update :: "key_user_def \<Rightarrow> key_entity list \<Rightarrow> key_entity list" where
  "key_update ud [] = []"
| "key_update ud (e # es) =
     (if key_port (kud e) = key_port ud then e\<lparr>kud := ud\<rparr> # es else e # key_update ud es)"

definition reg_proc_key ::
    "bool \<Rightarrow> (nat \<Rightarrow> int) \<Rightarrow> key_user_def option \<Rightarrow> key_manage \<Rightarrow> int \<times> key_manage" where
  "reg_proc_key malloc_ok inout key_ud km =
     (case key_ud of
        None \<Rightarrow> (KEY_INVALID_PARM, km)
      | Some ud \<Rightarrow>
          if call_back ud = None then (KEY_INVALID_PARM, km)
          else if key_port ud \<in> set (map (key_port \<circ> kud) (lst km)) then
            (if inout (key_port ud) \<noteq> KEY_OK then (inout (key_port ud), km)
             else (KEY_OK, km\<lparr>lst := key_update ud (lst km)\<rparr>))
          else if \<not> malloc_ok then (KEY_MALLOC_FAILED, km)
          else if inout (key_port ud) \<noteq> KEY_OK then (inout (key_port ud), km)
          else (KEY_OK, km\<lparr>lst := key_new ud # lst km\<rparr>))"

section \<open>Sampled runs of a key\<close>

fun key_run :: "int \<Rightarrow> bool list \<Rightarrow> key_entity \<Rightarrow> key_entity \<times> key_event list" where
  "key_run space [] e = (e, [])"
| "key_run space (b # bs) e =
     (case key_ent_proc space b e of (e1, ev) \<Rightarrow> case key_run space bs e1 of (e2, evs) \<Rightarrow> (e2, ev @ evs))"

lemma key_run_Cons [simp]:
  "fst (key_run space (b # bs) e) = fst (key_run space bs (fst (key_ent_proc space b e)))"
  "snd (key_run space (b # bs) e) =
     snd (key_ent_proc space b e) @ snd (key_run space bs (fst (key_ent_proc space b e)))"
  by (simp_all split: prod.split)

declare key_run.simps(2) [simp del]

lemma key_run_append [simp]:
  "fst (key_run space (as @ bs) e) = fst (key_run space bs (fst (key_run space as e)))"
  "snd (key_run space (as @ bs) e) =
     snd (key_run space as e) @ snd (key_run space bs (fst (key_run space as e)))"
  by (induction as arbitrary: e) simp_all

lemma key_run_seq:
  "key_run space as e = (e1, ev1) \<Longrightarrow> key_run space bs e1 = (e2, ev2) \<Longrightarrow>
     key_run space (as @ bs) e = (e2, ev1 @ ev2)"
  by (intro prod_eqI) simp_all

lemma key_ent_proc_kud [simp]: "kud (fst (key_ent_proc space press e)) = kud e"
  by (cases "status e") (simp_all add: key_ent_proc_def key_states Let_def)

lemma key_run_kud [simp]: "kud (fst (key_run space bs e)) = kud e"
  by (induction bs arbitrary: e) simp_all

lemma key_run_fold: "fst (key_run space bs e) = fold (\<lambda>b e. fst (key_ent_proc space b e)) bs e"
  by (induction bs arbitrary: e) simp_all

text \<open>Released samples in the two resting states.\<close>

lemma key_rest:
  assumes "status e = KEY_FINISH \<or> status e = KEY_DOWN"
  shows "snd (key_run space (replicate k False) e) = [] \<and>
     status (fst (key_run space (replicate k False) e)) \<in> {KEY_FINISH, KEY_DOWN} \<and>
     long_key_press (fst (key_run space (replicate k False) e)) = long_key_press e"
  using assms
proof (induction k arbitrary: e)
  case (Suc k)
  let ?e1 = "fst (key_ent_proc space False e)"
  have "snd (key_ent_proc space False e) = []" "status ?e1 = KEY_DOWN"
    "long_key_press ?e1 = long_key_press e"
    using Suc.prems by (auto simp: key_ent_proc_def key_states)
  with Suc.IH [of ?e1] show ?case by simp
qed simp

text \<open>What the end of a click reports.\<close>

definition click_events :: "key_entity \<Rightarrow> key_event list" where
  "click_events e =
     (if seq_key_cnt e \<noteq> 0 then key_call e SEQ_KEY (seq_key_cnt e + 1)
      else if lp_tp (kud e) \<noteq> FALLING_EDGE_TRIG \<and> lp_tp (kud e) \<noteq> FALLING_LONG_TRIG \<and>
              \<not> (lp_tp (kud e) = LP_ONCE_TRIG \<and> long_key_press e)
      then key_call e NORMAL_KEY 0 else [])"

lemma key_release_step:
  assumes "status e = KEY_UPING" "0 \<le> seq_key_cnt e" "0 \<le> up_time e" "0 < space"
  defines "up \<equiv> (if up_time e = 0 then space * 2 else up_time e + space)"
  shows "key_ent_proc space False e =
     (if uint (seq_key_detect_time (kud e)) \<le> up then
        (e\<lparr>up_time := up, status := KEY_FINISH,
           seq_key_cnt := (if seq_key_cnt e \<noteq> 0 then seq_key_cnt e + 1 else 0),
           long_key_press := (lp_tp (kud e) \<noteq> LP_ONCE_TRIG \<and> long_key_press e)\<rparr>, click_events e)
      else (e\<lparr>up_time := up\<rparr>, []))"
  using assms
  by (auto simp: key_ent_proc_def key_uping_state_def Let_def click_events_def key_call_def)

lemma key_release:
  "status e = KEY_UPING \<Longrightarrow> 0 \<le> seq_key_cnt e \<Longrightarrow> 0 \<le> up_time e \<Longrightarrow> 0 < space \<Longrightarrow> 0 < m \<Longrightarrow>
     uint (seq_key_detect_time (kud e)) \<le> up_time e + int m * space \<Longrightarrow>
     snd (key_run space (replicate m False) e) = click_events e \<and>
     status (fst (key_run space (replicate m False) e)) \<in> {KEY_FINISH, KEY_DOWN} \<and>
     long_key_press (fst (key_run space (replicate m False) e)) =
       (lp_tp (kud e) \<noteq> LP_ONCE_TRIG \<and> long_key_press e)"
proof (induction m arbitrary: e)
  case (Suc m)
  let ?up = "if up_time e = 0 then space * 2 else up_time e + space"
  note st = key_release_step [OF Suc.prems(1-4)]
  show ?case
  proof (cases "uint (seq_key_detect_time (kud e)) \<le> ?up")
    case True
    let ?e1 = "fst (key_ent_proc space False e)"
    have "snd (key_ent_proc space False e) = click_events e" "status ?e1 = KEY_FINISH"
      "long_key_press ?e1 = (lp_tp (kud e) \<noteq> LP_ONCE_TRIG \<and> long_key_press e)"
      using True by (simp_all add: st)
    with key_rest [of ?e1 space m] show ?thesis by simp
  next
    case False
    let ?e1 = "e\<lparr>up_time := ?up\<rparr>"
    have s: "key_ent_proc space False e = (?e1, [])" using False by (simp add: st)
    have "0 < m" using Suc.prems False by (cases m) (auto split: if_splits)
    moreover have "uint (seq_key_detect_time (kud e)) \<le> ?up + int m * space"
      using Suc.prems by (auto simp: algebra_simps)
    ultimately have "snd (key_run space (replicate m False) ?e1) = click_events ?e1 \<and>
       status (fst (key_run space (replicate m False) ?e1)) \<in> {KEY_FINISH, KEY_DOWN} \<and>
       long_key_press (fst (key_run space (replicate m False) ?e1)) =
         (lp_tp (kud ?e1) \<noteq> LP_ONCE_TRIG \<and> long_key_press ?e1)"
      using Suc.prems by (intro Suc.IH) auto
    moreover have "click_events ?e1 = click_events e"
      by (simp add: click_events_def key_call_def)
    ultimately show ?thesis by (simp add: s)
  qed
qed simp

text \<open>Holding a key that reports long presses once.\<close>

lemma key_hold_once:
  assumes "status e = KEY_DOWNNING" "lp_tp (kud e) = LP_ONCE_TRIG" "\<not> long_key_press e" "0 < space"
  defines "long k \<equiv> 0 < (k :: nat) \<and> uint (long_key_time (kud e)) \<le> down_time e + int k * space"
  shows "key_run space (replicate n True) e =
     (e\<lparr>down_time := down_time e + int n * space, long_key_press := long n\<rparr>,
      if long n then key_call e LONG_KEY 0 else [])"
proof (induction n)
  case 0
  then show ?case using assms by (simp add: long_def)
next
  case (Suc n)
  have mono: "long n \<Longrightarrow> long (Suc n)" using \<open>0 < space\<close> by (auto simp: long_def algebra_simps)
  have "replicate (Suc n) True = replicate n True @ [True]" by (simp add: replicate_append_same)
  then show ?case
    using Suc.IH assms(1,2,4) mono
    by (intro prod_eqI) (auto simp: key_ent_proc_def key_downning_state_def Let_def key_call_def
        long_def algebra_simps)
qed

text \<open>Holding a key without long presses.\<close>

lemma key_hold_plain:
  assumes "status e = KEY_DOWNNING" "lp_tp (kud e) = LP_INVALID"
  shows "key_run space (replicate n True) e = (e\<lparr>down_time := down_time e + int n * space\<rparr>, [])"
proof (induction n)
  case (Suc n)
  have "replicate (Suc n) True = replicate n True @ [True]" by (simp add: replicate_append_same)
  then show ?case
    using Suc.IH assms
    by (intro prod_eqI) (simp_all add: key_ent_proc_def key_downning_state_def Let_def algebra_simps)
qed simp

section \<open>Clicks\<close>

text \<open>
  The samples of one click: two that confirm the press, \<open>n\<close> more while it is held, two that
  confirm the release and \<open>g\<close> more until the next click.
\<close>

definition click_samples :: "nat \<Rightarrow> nat \<Rightarrow> bool list" where
  "click_samples n g = [True, True] @ replicate n True @ [False, False] @ replicate g False"

definition gap_time :: "int \<Rightarrow> nat \<Rightarrow> int" where
  "gap_time space g = (if g = 0 then 0 else (int g + 1) * space)"

lemma key_gap:
  assumes "status e = KEY_UPING" "up_time e = 0" "0 < space" "0 \<le> seq_key_cnt e"
    and "gap_time space g < uint (seq_key_detect_time (kud e))"
  shows "key_run space (replicate g False) e = (e\<lparr>up_time := gap_time space g\<rparr>, [])"
  using assms(5)
proof (induction g)
  case 0
  then show ?case using assms by (simp add: gap_time_def)
next
  case (Suc g)
  let ?e = "e\<lparr>up_time := gap_time space g\<rparr>"
  have le: "gap_time space g \<le> gap_time space (Suc g)" "0 \<le> gap_time space g"
    using \<open>0 < space\<close> by (auto simp: gap_time_def algebra_simps)
  with Suc have IH: "key_run space (replicate g False) e = (?e, [])" by simp
  have "(if up_time ?e = 0 then space * 2 else up_time ?e + space) = gap_time space (Suc g)"
  proof (cases "g = 0")
    case False
    have "0 \<le> space * int g" using \<open>0 < space\<close> by simp
    then have "0 < space + space * int g" using \<open>0 < space\<close> by linarith
    then show ?thesis by (simp add: gap_time_def algebra_simps)
  qed (simp add: gap_time_def)
  then have "key_ent_proc space False ?e = (e\<lparr>up_time := gap_time space (Suc g)\<rparr>, [])"
    using Suc.prems assms(1,3,4) le key_release_step [of ?e space] by simp
  moreover have "replicate (Suc g) False = replicate g False @ [False]"
    by (simp add: replicate_append_same)
  ultimately show ?case using IH by (intro prod_eqI) simp_all
qed

text \<open>A key that waits for the next click of a sequence, or for the first one.\<close>

definition key_ready :: "key_entity \<Rightarrow> bool" where
  "key_ready e \<longleftrightarrow> status e = KEY_DOWN \<and> \<not> key_val_last e"

definition key_between :: "key_entity \<Rightarrow> bool" where
  "key_between e \<longleftrightarrow> status e = KEY_UPING \<and> 0 \<le> seq_key_cnt e \<and> 0 \<le> up_time e \<and>
     up_time e < uint (seq_key_detect_time (kud e))"

lemma key_press:
  assumes "key_ready e \<or> key_between e" "lp_tp (kud e) \<noteq> FALLING_EDGE_TRIG" "lp_tp (kud e) \<noteq> FALLING_LONG_TRIG"
  shows "\<exists>e'. key_run space [True, True] e = (e', []) \<and> status e' = KEY_DOWNNING \<and> kud e' = kud e \<and>
     long_key_press e' = long_key_press e \<and>
     (key_ready e \<longrightarrow> down_time e' = 0) \<and>
     seq_key_cnt e' = (if key_ready e then 0 else seq_key_cnt e + 1)"
proof -
  have "snd (key_run space [True, True] e) = []" "status (fst (key_run space [True, True] e)) = KEY_DOWNNING"
    "long_key_press (fst (key_run space [True, True] e)) = long_key_press e"
    "key_ready e \<longrightarrow> down_time (fst (key_run space [True, True] e)) = 0"
    "seq_key_cnt (fst (key_run space [True, True] e)) = (if key_ready e then 0 else seq_key_cnt e + 1)"
    using assms
    by (auto simp: key_ready_def key_between_def key_ent_proc_def key_states Let_def)
  then show ?thesis by (intro exI [of _ "fst (key_run space [True, True] e)"]) (simp add: prod_eq_iff)
qed

lemma key_let_go:
  assumes "status e = KEY_DOWNNING"
  shows "key_run space [False, False] e = (e\<lparr>status := KEY_UPING, up_time := 0\<rparr>, [])"
  using assms by (intro prod_eqI) (simp_all add: key_ent_proc_def key_states)

lemma key_click:
  assumes "key_ready e \<or> key_between e" "lp_tp (kud e) = LP_INVALID" "0 < space"
    "gap_time space g < uint (seq_key_detect_time (kud e))"
  shows "\<exists>e'. key_run space (click_samples n g) e = (e', []) \<and> key_between e' \<and> kud e' = kud e \<and>
     seq_key_cnt e' = (if key_ready e then 0 else seq_key_cnt e + 1)"
proof -
  obtain e1 where e1: "key_run space [True, True] e = (e1, [])" "status e1 = KEY_DOWNNING" "kud e1 = kud e"
    "seq_key_cnt e1 = (if key_ready e then 0 else seq_key_cnt e + 1)"
    using key_press [OF assms(1), of space] assms(2) by auto
  define e2 where "e2 = e1\<lparr>down_time := down_time e1 + int n * space\<rparr>"
  have e2: "key_run space (replicate n True) e1 = (e2, [])"
    unfolding e2_def using e1 assms(2) by (intro key_hold_plain) simp_all
  define e3 where "e3 = e2\<lparr>status := KEY_UPING, up_time := 0\<rparr>"
  have e3: "key_run space [False, False] e2 = (e3, [])"
    unfolding e3_def using e1 by (intro key_let_go) (simp add: e2_def)
  have pos: "0 \<le> seq_key_cnt e3" using e1 assms(1) by (auto simp: e3_def e2_def key_between_def)
  have e4: "key_run space (replicate g False) e3 = (e3\<lparr>up_time := gap_time space g\<rparr>, [])"
    using assms pos e1 by (intro key_gap) (simp_all add: e3_def e2_def)
  have "key_run space (click_samples n g) e = (e3\<lparr>up_time := gap_time space g\<rparr>, [] @ [] @ [] @ [])"
    unfolding click_samples_def
    by (rule key_run_seq [OF e1(1) key_run_seq [OF e2 key_run_seq [OF e3 e4]]])
  moreover have "0 \<le> gap_time space g" using assms(3) by (simp add: gap_time_def)
  ultimately show ?thesis
    using assms pos e1 by (auto simp: key_between_def e3_def e2_def)
qed

fun clicks :: "(nat \<times> nat) list \<Rightarrow> bool list" where
  "clicks [] = []"
| "clicks ((n, g) # cs) = click_samples n g @ clicks cs"

lemma key_clicks:
  "key_between e \<Longrightarrow> lp_tp (kud e) = LP_INVALID \<Longrightarrow> 0 < space \<Longrightarrow>
     list_all (\<lambda>(n, g). gap_time space g < uint (seq_key_detect_time (kud e))) cs \<Longrightarrow>
     \<exists>e'. key_run space (clicks cs) e = (e', []) \<and> key_between e' \<and> kud e' = kud e \<and>
       seq_key_cnt e' = seq_key_cnt e + int (length cs)"
proof (induction cs arbitrary: e)
  case (Cons c cs)
  obtain n g where c: "c = (n, g)" by fastforce
  have "\<not> key_ready e" using Cons.prems(1) by (simp add: key_ready_def key_between_def)
  then obtain e1 where e1: "key_run space (click_samples n g) e = (e1, [])" "key_between e1"
    "kud e1 = kud e" "seq_key_cnt e1 = seq_key_cnt e + 1"
    using key_click [of e space g n] Cons.prems c by auto
  from Cons.IH [of e1] e1 Cons.prems c obtain e' where "key_run space (clicks cs) e1 = (e', [])"
    "key_between e'" "kud e' = kud e" "seq_key_cnt e' = seq_key_cnt e + 1 + int (length cs)" by auto
  with e1 c show ?case by (intro exI [of _ e']) (auto intro: prod_eqI)
qed simp

section \<open>Invariants\<close>

definition key_wf :: "key_entity \<Rightarrow> bool" where
  "key_wf e \<longleftrightarrow> 0 \<le> seq_key_cnt e \<and> 0 \<le> down_time e \<and> 0 \<le> up_time e"

definition event_of :: "key_user_def \<Rightarrow> key_event \<Rightarrow> bool" where
  "event_of ud ev =
     (case ev of Key_Event f port tp cnt \<Rightarrow>
        f = call_back ud \<and> port = key_port ud \<and> (if tp = SEQ_KEY then 2 \<le> cnt else cnt = 0))"

lemma key_step_wf:
  assumes "0 < space" "key_wf e"
  shows "key_wf (fst (key_ent_proc space press e)) \<and>
     list_all (event_of (kud e)) (snd (key_ent_proc space press e))"
  using assms
  by (cases "status e")
    (auto simp: key_wf_def key_ent_proc_def key_states Let_def key_call_def event_of_def)

interpretation keys: step_machine "\<lambda>press e. fst (key_ent_proc space press e)"
    "\<lambda>e. 0 < space \<and> key_wf e"
  by unfold_locales (simp add: key_step_wf)

lemma key_run_events:
  "0 < space \<Longrightarrow> key_wf e \<Longrightarrow> list_all (event_of (kud e)) (snd (key_run space bs e))"
proof (induction bs arbitrary: e)
  case (Cons b bs)
  with key_step_wf [of space e b] Cons.IH [of "fst (key_ent_proc space b e)"] show ?case by simp
qed simp

definition spent_long :: "key_entity \<Rightarrow> bool" where
  "spent_long e \<longleftrightarrow> lp_tp (kud e) = FALLING_LONG_TRIG \<and> long_key_press e"

lemma spent_long_step:
  "spent_long e \<Longrightarrow> spent_long (fst (key_ent_proc space press e)) \<and>
     LONG_KEY \<notin> ev_type ` set (snd (key_ent_proc space press e))"
  by (cases "status e")
    (auto simp: spent_long_def key_ent_proc_def key_states Let_def key_call_def)

interpretation spent: step_machine "\<lambda>press e. fst (key_ent_proc space press e)" spent_long
  by unfold_locales (simp add: spent_long_step)

section \<open>The registered keys\<close>

definition keys_ok :: "key_manage \<Rightarrow> bool" where
  "keys_ok km \<longleftrightarrow> distinct (map (key_port \<circ> kud) (lst km)) \<and>
     list_all (\<lambda>e. call_back (kud e) \<noteq> None) (lst km)"

definition key_lookup :: "nat \<Rightarrow> key_entity list \<Rightarrow> key_user_def option" where
  "key_lookup port es = map_option kud (find (\<lambda>e. key_port (kud e) = port) es)"

lemma key_lookup_simps [simp]:
  "key_lookup port [] = None"
  "key_lookup port (e # es) = (if key_port (kud e) = port then Some (kud e) else key_lookup port es)"
  by (simp_all add: key_lookup_def)

lemma key_update_ports: "map (key_port \<circ> kud) (key_update ud es) = map (key_port \<circ> kud) es"
  by (induction es) auto

lemma key_update_lookup:
  "key_port ud \<in> set (map (key_port \<circ> kud) es) \<Longrightarrow>
     key_lookup port (key_update ud es) = (if port = key_port ud then Some ud else key_lookup port es)"
  by (induction es) auto

lemma key_update_calls:
  "call_back ud \<noteq> None \<Longrightarrow> list_all (\<lambda>e. call_back (kud e) \<noteq> None) es \<Longrightarrow>
     list_all (\<lambda>e. call_back (kud e) \<noteq> None) (key_update ud es)"
  by (induction es) auto

lemma reg_proc_key_ok: "keys_ok km \<Longrightarrow> keys_ok (snd (reg_proc_key malloc_ok inout ud km))"
  by (auto simp: reg_proc_key_def keys_ok_def key_update_ports key_update_calls key_new_def
      simp del: not_None_eq split: option.split)

interpretation registered: step_machine
    "\<lambda>(malloc_ok, inout, ud) km. snd (reg_proc_key malloc_ok inout ud km)" keys_ok
  by unfold_locales (auto simp: reg_proc_key_ok)

definition demo_key :: "key_long_press_tp \<Rightarrow> key_entity" where
  "demo_key tp = (key_new \<lparr>key_port = 7, low_level_detect = False, lp_tp = tp, long_key_time = 1000,
     seq_key_detect_time = 400, call_back = Some 1\<rparr>)\<lparr>key_val_last := False\<rparr>"

lemma single_press:
  assumes "key_ready e" "lp_tp (kud e) = LP_ONCE_TRIG" "\<not> long_key_press e" "0 < space" "0 < m"
    and "uint (seq_key_detect_time (kud e)) \<le> int m * space"
  shows "snd (key_run space ([True, True] @ replicate n True @ [False, False] @ replicate m False) e) =
       key_call e (if 0 < n \<and> uint (long_key_time (kud e)) \<le> int n * space then LONG_KEY else NORMAL_KEY) 0 \<and>
     status (fst (key_run space ([True, True] @ replicate n True @ [False, False] @ replicate m False) e))
       \<in> {KEY_FINISH, KEY_DOWN} \<and>
     \<not> long_key_press (fst (key_run space
         ([True, True] @ replicate n True @ [False, False] @ replicate m False) e))"
proof -
  define long where "long \<longleftrightarrow> 0 < n \<and> uint (long_key_time (kud e)) \<le> int n * space"
  obtain e1 where e1: "key_run space [True, True] e = (e1, [])" "status e1 = KEY_DOWNNING" "kud e1 = kud e"
    "\<not> long_key_press e1" "down_time e1 = 0" "seq_key_cnt e1 = 0"
    using key_press [of e space] assms(1-3) by auto
  define e2 where "e2 = e1\<lparr>down_time := int n * space, long_key_press := long\<rparr>"
  have e2: "key_run space (replicate n True) e1 = (e2, if long then key_call e1 LONG_KEY 0 else [])"
    using key_hold_once [of e1 space n] e1 assms by (simp add: e2_def long_def)
  define e3 where "e3 = e2\<lparr>status := KEY_UPING, up_time := 0\<rparr>"
  have e3: "key_run space [False, False] e2 = (e3, [])"
    unfolding e3_def using e1 by (intro key_let_go) (simp add: e2_def)
  have run: "key_run space ([True, True] @ replicate n True @ [False, False] @ replicate m False) e =
     (fst (key_run space (replicate m False) e3), [] @ (if long then key_call e1 LONG_KEY 0 else []) @ [] @
        snd (key_run space (replicate m False) e3))"
    by (rule key_run_seq [OF e1(1) key_run_seq [OF e2 key_run_seq [OF e3]]]) simp
  have rel: "snd (key_run space (replicate m False) e3) = click_events e3 \<and>
     status (fst (key_run space (replicate m False) e3)) \<in> {KEY_FINISH, KEY_DOWN} \<and>
     long_key_press (fst (key_run space (replicate m False) e3)) =
       (lp_tp (kud e3) \<noteq> LP_ONCE_TRIG \<and> long_key_press e3)"
    using assms e1 by (intro key_release) (simp_all add: e3_def e2_def)
  have "click_events e3 = (if long then [] else key_call e NORMAL_KEY 0)"
    using e1 assms(2) by (simp add: click_events_def e3_def e2_def key_call_def)
  moreover have "key_call e1 LONG_KEY 0 = key_call e LONG_KEY 0" using e1 by (simp add: key_call_def)
  ultimately show ?thesis
    unfolding run using rel e1 assms(2) by (simp add: e3_def e2_def long_def)
qed

section \<open>Properties\<close>

text \<open>
  Registering a key either fails and leaves the registered keys as they are, or makes its
  definition the one found under its port and no other port's; after any number of
  registrations there is one key per port, each with a callback to call.
\<close>

theorem key_registration:
  assumes km: "km = fold (\<lambda>(malloc_ok, inout, ud) km. snd (reg_proc_key malloc_ok inout ud km)) regs
      \<lparr>p_tbl = tbl, timer_space = space, lst = []\<rparr>"
  shows "keys_ok km \<and>
     (case reg_proc_key malloc_ok inout (Some ud) km of (ret, km') \<Rightarrow>
        if ret \<noteq> KEY_OK then km' = km
        else key_lookup port (lst km') =
          (if port = key_port ud then Some ud else key_lookup port (lst km)))"
proof -
  have "keys_ok \<lparr>p_tbl = tbl, timer_space = space, lst = []\<rparr>" by (simp add: keys_ok_def)
  from registered.run_keeps [OF this, of regs] have "keys_ok km" by (simp add: km)
  then show ?thesis
    using key_update_lookup [of ud "lst km" port]
    by (auto simp: reg_proc_key_def key_new_def KEY_OK_def KEY_INVALID_PARM_def KEY_MALLOC_FAILED_def)
qed

theorem key_registration_witness:
  "case reg_proc_key True (\<lambda>_. 0) (Some (kud (demo_key LP_INVALID)))
      \<lparr>p_tbl = [], timer_space = 20, lst = []\<rparr> of (ret, km') \<Rightarrow>
     if ret \<noteq> KEY_OK then lst km' = []
     else key_lookup 7 (lst km') = Some (kud (demo_key LP_INVALID))"
  using key_registration [where regs = "[]" and tbl = "[]" and space = 20 and malloc_ok = True
      and inout = "\<lambda>_. 0" and ud = "kud (demo_key LP_INVALID)" and port = 7]
  by (auto simp: demo_key_def key_new_def split: prod.splits if_splits)

text \<open>
  C14: a single press of a key that reports long presses once, from rest to rest, makes exactly
  one callback: \<open>LONG_KEY\<close> if it was held for at least \<open>long_key_time\<close> after it was confirmed,
  \<open>NORMAL_KEY\<close> otherwise; afterwards the key is at rest again and can report the next long press.
\<close>

theorem key_single_press:
  assumes "key_ready e" "lp_tp (kud e) = LP_ONCE_TRIG" "\<not> long_key_press e" "0 < space" "0 < m"
    and "uint (seq_key_detect_time (kud e)) \<le> int m * space"
  shows "snd (key_run space ([True, True] @ replicate n True @ [False, False] @ replicate m False) e) =
       key_call e (if 0 < n \<and> uint (long_key_time (kud e)) \<le> int n * space then LONG_KEY else NORMAL_KEY) 0 \<and>
     status (fst (key_run space ([True, True] @ replicate n True @ [False, False] @ replicate m False) e))
       \<in> {KEY_FINISH, KEY_DOWN} \<and>
     \<not> long_key_press (fst (key_run space
         ([True, True] @ replicate n True @ [False, False] @ replicate m False) e))"
  using assms by (rule single_press)

text \<open>
  A sequence of clicks of a key without long presses, each shorter than the detection time
  apart, makes exactly one callback when it is over: \<open>NORMAL_KEY\<close> for one click, \<open>SEQ_KEY\<close> with
  the number of clicks for more.
\<close>

theorem key_click_sequence:
  assumes "key_ready e" "lp_tp (kud e) = LP_INVALID" "0 < space" "0 < m" "cs \<noteq> []"
    and "list_all (\<lambda>(n, g). gap_time space g < uint (seq_key_detect_time (kud e))) cs"
    and "uint (seq_key_detect_time (kud e)) \<le> int m * space"
  shows "snd (key_run space (clicks cs @ replicate m False) e) =
     (if length cs = 1 then key_call e NORMAL_KEY 0 else key_call e SEQ_KEY (int (length cs)))"
proof -
  obtain n g cs' where cs: "cs = (n, g) # cs'" using assms(5) by (cases cs) auto
  obtain e1 where e1: "key_run space (click_samples n g) e = (e1, [])" "key_between e1" "kud e1 = kud e"
    "seq_key_cnt e1 = 0"
    using key_click [of e space g n] assms cs by auto
  obtain e2 where e2: "key_run space (clicks cs') e1 = (e2, [])" "key_between e2" "kud e2 = kud e1"
    "seq_key_cnt e2 = int (length cs')"
    using key_clicks [of e1 space cs'] assms e1 cs by auto
  have "snd (key_run space (replicate m False) e2) = click_events e2"
    using key_release [of e2 space m] e2 e1 assms by (simp add: key_between_def)
  then have "snd (key_run space (clicks cs @ replicate m False) e) = click_events e2"
    using e1(1) e2(1) cs by simp
  then show ?thesis
    using e1 e2 assms(2) cs by (simp add: click_events_def key_call_def)
qed

text \<open>
  Debouncing: as long as a key at rest is never sampled pressed twice in a row, it makes no
  callback, whatever its configuration.
\<close>

theorem key_debounce:
  "status e = KEY_DOWN \<Longrightarrow> successively (\<lambda>a b. \<not> (a \<and> b)) bs \<Longrightarrow> snd (key_run space bs e) = []"
proof -
  have "status e = KEY_DOWN \<or> status e = KEY_DOWN_CONFIRM \<and> (bs = [] \<or> \<not> hd bs) \<Longrightarrow>
      successively (\<lambda>a b. \<not> (a \<and> b)) bs \<Longrightarrow> snd (key_run space bs e) = []" for e
  proof (induction bs arbitrary: e)
    case (Cons b bs)
    let ?e1 = "fst (key_ent_proc space b e)"
    have "snd (key_ent_proc space b e) = []"
      "status ?e1 = KEY_DOWN \<or> status ?e1 = KEY_DOWN_CONFIRM \<and> (bs = [] \<or> \<not> hd bs)"
      using Cons.prems
      by (auto simp: key_ent_proc_def key_states Let_def successively_Cons split: if_splits)
    moreover from Cons.prems have "successively (\<lambda>a b. \<not> (a \<and> b)) bs"
      by (cases "bs = []") (auto simp: successively_Cons)
    ultimately show ?case using Cons.IH [of ?e1] by simp
  qed simp
  then show "status e = KEY_DOWN \<Longrightarrow> successively (\<lambda>a b. \<not> (a \<and> b)) bs \<Longrightarrow> snd (key_run space bs e) = []"
    by blast
qed

text \<open>
  Every callback a key makes, in any run from its set-up, goes to its own function with its
  own port, with a count of at least 2 for \<open>SEQ_KEY\<close> and 0 otherwise.
\<close>

theorem key_callbacks_well_formed:
  "0 < space \<Longrightarrow> list_all (event_of ud) (snd (key_run space bs (key_new ud)))"
  using key_run_events [of space "key_new ud" bs] by (simp add: key_new_def key_wf_def)

text \<open>
  A key of type \<open>FALLING_LONG_TRIG\<close> that has reported one long press never reports another:
  nothing resets \<open>long_key_press\<close> for this type.
\<close>

theorem key_falling_long_once:
  "lp_tp (kud e) = FALLING_LONG_TRIG \<Longrightarrow> long_key_press e \<Longrightarrow>
     LONG_KEY \<notin> ev_type ` set (snd (key_run space bs e))"
proof -
  have "spent_long e \<Longrightarrow> LONG_KEY \<notin> ev_type ` set (snd (key_run space bs e))" for e
  proof (induction bs arbitrary: e)
    case (Cons b bs)
    with spent_long_step [of e space b] show ?case by (auto simp: image_Un)
  qed simp
  then show "lp_tp (kud e) = FALLING_LONG_TRIG \<Longrightarrow> long_key_press e \<Longrightarrow>
     LONG_KEY \<notin> ev_type ` set (snd (key_run space bs e))"
    by (simp add: spent_long_def)
qed

text \<open>
  Hold times add up over the clicks of a sequence: two presses of 600 ms each, with a long
  press time of 1000 ms, are reported as a long press and as two sequential ones.
\<close>

theorem key_short_presses_add_up:
  "snd (key_run 100 (clicks [(6, 0), (6, 0)] @ replicate 5 False) (demo_key LP_ONCE_TRIG)) =
     [Key_Event (Some 1) 7 LONG_KEY 0, Key_Event (Some 1) 7 SEQ_KEY 2]"
  by code_simp

theorem key_single_press_witness:
  "snd (key_run 20 ([True, True] @ replicate 60 True @ [False, False] @ replicate 20 False)
     (demo_key LP_ONCE_TRIG)) = [Key_Event (Some 1) 7 LONG_KEY 0]"
  using key_single_press [of "demo_key LP_ONCE_TRIG" 20 20 60]
  by (simp add: demo_key_def key_new_def key_ready_def key_call_def)

theorem key_click_sequence_witness:
  "snd (key_run 20 (clicks [(3, 1), (5, 0), (2, 4)] @ replicate 20 False) (demo_key LP_INVALID)) =
     [Key_Event (Some 1) 7 SEQ_KEY 3]"
  using key_click_sequence [of "demo_key LP_INVALID" 20 20 "[(3, 1), (5, 0), (2, 4)]"]
  by (simp add: demo_key_def key_new_def key_ready_def key_call_def gap_time_def)

theorem key_debounce_witness:
  "snd (key_run 20 [True, False, False, True, False] (demo_key LP_INVALID)) = []"
  by (rule key_debounce) (simp_all add: demo_key_def key_new_def)

theorem key_callbacks_well_formed_witness:
  "list_all (event_of (kud (demo_key LP_INVALID)))
     (snd (key_run 20 (clicks [(3, 1), (5, 0)]) (key_new (kud (demo_key LP_INVALID)))))"
  by (rule key_callbacks_well_formed) simp

theorem key_falling_long_once_witness:
  "LONG_KEY \<notin> ev_type ` set (snd (key_run 20 (replicate 500 True)
     ((demo_key FALLING_LONG_TRIG)\<lparr>long_key_press := True\<rparr>)))"
  by (rule key_falling_long_once) (simp_all add: demo_key_def key_new_def)

end
