(* ===== verification/Hw_Table.thy ===== *)
theory Hw_Table
  imports Tuya_Led Tuya_Key
begin

text \<open>
  The hardware table of the sample device, \<open>project/tuya_user/bk7231_sample/src/hw_table.c\<close>: a network light, a reset
  button, and channels of a relay, a button and a light each. The state also holds what \<open>tuya_device.c\<close> keeps, since the
  two call each other: the reports sent to the cloud are a log of their JSON texts, printed into buffers of fixed size.

  Lights and buttons are those of \<open>Tuya_Led\<close> and \<open>Tuya_Key\<close>, whose pins are the registers of \<open>Gpio\<close>. The functions that
  take the table are called with the global one only. An index outside the channels is a \<open>Fault\<close>.
\<close>

section \<open>State\<close>

definition DPID_NOT_EXIST :: int where "DPID_NOT_EXIST = -1"

datatype io_drive_type = IO_DRIVE_LEVEL_HIGH | IO_DRIVE_LEVEL_LOW | IO_DRIVE_LEVEL_NOT_EXIST

record io_config =
  io_type :: io_drive_type
  io_pin :: u32

record ctrl_channel =
  relay :: io_config
  button :: key_user_def
  led :: io_config
  led_handle :: "nat option"
  dpid :: int
  cd_dpid :: int
  cd_sec :: int
  stat :: bool

record hw_table =
  wifi_stat_led :: io_config
  wifi_stat_led_handle :: "nat option"
  rst_button :: key_user_def
  channel_num :: int
  channels :: "ctrl_channel list"

record device =
  g_hw_table :: hw_table
  is_connected :: bool
  dev_leds :: led_sys
  dev_keys :: "key_manage option"
  reports :: "string list"
  unactive_calls :: nat
  is_count_down :: bool

datatype nw_stat = STAT_LOW_POWER | STAT_UNPROVISION | STAT_AP_STA_UNCFG | STAT_AP_STA_DISC | STAT_AP_STA_CONN
  | STAT_STA_DISC | STAT_STA_CONN | STAT_CLOUD_CONN | STAT_AP_CLOUD_CONN

text \<open>The static table; the function \<open>key_process\<close> is number 1, NULL is \<open>None\<close>.\<close>

definition KEY_PROCESS :: nat where "KEY_PROCESS = 1"
definition KEY_TIMER_MS :: int where "KEY_TIMER_MS = 20"
definition KEY_RST_TIME :: u16 where "KEY_RST_TIME = 3000"

definition channels_start :: "ctrl_channel list" where
  "channels_start = [\<lparr>relay = \<lparr>io_type = IO_DRIVE_LEVEL_HIGH, io_pin = 25\<rparr>,
     button = \<lparr>key_port = 19, low_level_detect = True, lp_tp = LP_INVALID, long_key_time = 0, seq_key_detect_time = 50,
       call_back = None\<rparr>,
     led = \<lparr>io_type = IO_DRIVE_LEVEL_LOW, io_pin = 28\<rparr>, led_handle = None, dpid = 1, cd_dpid = 9, cd_sec = 0, stat = False\<rparr>]"

definition hw_table_start :: hw_table where
  "hw_table_start = \<lparr>wifi_stat_led = \<lparr>io_type = IO_DRIVE_LEVEL_LOW, io_pin = 8\<rparr>, wifi_stat_led_handle = None,
     rst_button = \<lparr>key_port = 19, low_level_detect = True, lp_tp = LP_ONCE_TRIG, long_key_time = KEY_RST_TIME,
       seq_key_detect_time = 50, call_back = Some KEY_PROCESS\<rparr>,
     channel_num = 0, channels = channels_start\<rparr>"

definition device_start :: "regs \<Rightarrow> device" where
  "device_start r = \<lparr>g_hw_table = hw_table_start, is_connected = False, dev_leds = led_start r, dev_keys = None,
     reports = [], unactive_calls = 0, is_count_down = True\<rparr>"

section \<open>Pins and lights\<close>

definition hw_upd :: "(hw_table \<Rightarrow> hw_table) \<Rightarrow> device \<Rightarrow> device" where
  "hw_upd f d = d\<lparr>g_hw_table := f (g_hw_table d)\<rparr>"

definition chan_upd :: "nat \<Rightarrow> (ctrl_channel \<Rightarrow> ctrl_channel) \<Rightarrow> device \<Rightarrow> device" where
  "chan_upd i f = hw_upd (\<lambda>t. t\<lparr>channels := (channels t)[i := f (channels t ! i)]\<rparr>)"

definition chan_at :: "int \<Rightarrow> device \<Rightarrow> ctrl_channel c_run" where
  "chan_at n d = (let cs = channels (g_hw_table d) in if 0 \<le> n \<and> nat n < length cs then Ret (cs ! nat n) else Fault)"

definition write_pin :: "u32 \<Rightarrow> bool \<Rightarrow> device \<Rightarrow> device c_run" where
  "write_pin pin high d =
     c_then (tuya_gpio_write pin high (led_regs (dev_leds d))) (\<lambda>r. Ret (d\<lparr>dev_leds := (dev_leds d)\<lparr>led_regs := r\<rparr>\<rparr>))"

definition set_light :: "nat option \<Rightarrow> led_lt \<Rightarrow> u16 \<Rightarrow> u16 \<Rightarrow> device \<Rightarrow> device c_run" where
  "set_light handle type mstime sumtime d =
     c_then (tuya_set_led_light_type handle type mstime sumtime (dev_leds d)) (\<lambda>l. Ret (d\<lparr>dev_leds := l\<rparr>))"

definition drive_relay :: "ctrl_channel \<Rightarrow> bool \<Rightarrow> device \<Rightarrow> device c_run" where
  "drive_relay c active d =
     (case io_type (relay c) of
        IO_DRIVE_LEVEL_HIGH \<Rightarrow> write_pin (io_pin (relay c)) active d
      | IO_DRIVE_LEVEL_LOW \<Rightarrow> write_pin (io_pin (relay c)) (\<not> active) d
      | IO_DRIVE_LEVEL_NOT_EXIST \<Rightarrow> Ret d)"

definition drive_led :: "ctrl_channel \<Rightarrow> bool \<Rightarrow> device \<Rightarrow> device c_run" where
  "drive_led c active d =
     (case io_type (led c) of
        IO_DRIVE_LEVEL_HIGH \<Rightarrow> set_light (led_handle c) (if active then OL_HIGH else OL_LOW) 0 0 d
      | IO_DRIVE_LEVEL_LOW \<Rightarrow> set_light (led_handle c) (if active then OL_LOW else OL_HIGH) 0 0 d
      | IO_DRIVE_LEVEL_NOT_EXIST \<Rightarrow> Ret d)"

section \<open>Channels\<close>

definition each_channel :: "(nat \<Rightarrow> ctrl_channel \<Rightarrow> device \<Rightarrow> device c_run) \<Rightarrow> device \<Rightarrow> device c_run" where
  "each_channel step d =
     c_steps (\<lambda>i d. c_then (chan_at (int i) d) (\<lambda>c. step i c d)) [0..<nat (channel_num (g_hw_table d))] d"

definition sync_led_and_relay_connected :: "device \<Rightarrow> device c_run" where
  "sync_led_and_relay_connected = each_channel (\<lambda>i c d. if stat c then drive_led c True d else Ret d)"

definition sync_led_and_relay_unconnected :: "device \<Rightarrow> device c_run" where
  "sync_led_and_relay_unconnected = each_channel (\<lambda>i c d. drive_led c False d)"

text \<open>A bad number is only logged: the channel is used all the same.\<close>

definition hw_set_channel :: "int \<Rightarrow> bool \<Rightarrow> device \<Rightarrow> device c_run" where
  "hw_set_channel channel_no is_active d =
     c_then (chan_at channel_no d) (\<lambda>c.
       (let d1 = chan_upd (nat channel_no) (\<lambda>c. c\<lparr>stat := is_active\<rparr>) d in
        c_then (drive_relay c is_active d1) (\<lambda>d2.
          if is_active then (if is_connected d2 then drive_led c True d2 else Ret d2)
          else drive_led c False d2)))"

definition hw_trig_channel :: "int \<Rightarrow> device \<Rightarrow> device c_run" where
  "hw_trig_channel channel_no d = c_then (chan_at channel_no d) (\<lambda>c. hw_set_channel channel_no (\<not> stat c) d)"

fun find_channel :: "(ctrl_channel \<Rightarrow> bool) \<Rightarrow> ctrl_channel list \<Rightarrow> nat \<Rightarrow> nat \<Rightarrow> int c_run" where
  "find_channel P cs i 0 = Ret (-1)"
| "find_channel P cs i (Suc n) =
     (if length cs \<le> i then Fault else if P (cs ! i) then Ret (int i) else find_channel P cs (Suc i) n)"

definition hw_set_channel_by_dpid :: "int \<Rightarrow> bool \<Rightarrow> device \<Rightarrow> (int \<times> device) c_run" where
  "hw_set_channel_by_dpid dp is_active d =
     (let t = g_hw_table d in
      c_then (find_channel (\<lambda>c. dp = dpid c) (channels t) 0 (nat (channel_num t))) (\<lambda>i.
        if 0 \<le> i then c_then (hw_set_channel i is_active d) (\<lambda>d1. Ret (i, d1)) else Ret (-1, d)))"

definition hw_find_channel_by_cd_dpid :: "int \<Rightarrow> device \<Rightarrow> int c_run" where
  "hw_find_channel_by_cd_dpid dp d =
     (let t = g_hw_table d in find_channel (\<lambda>c. dp = cd_dpid c) (channels t) 0 (nat (channel_num t)))"

section \<open>Reports\<close>

definition digit :: "nat \<Rightarrow> char" where
  "digit n = char_of (48 + n)"

fun dec_nat :: "nat \<Rightarrow> string" where
  "dec_nat n = (if n < 10 then [digit n] else dec_nat (n div 10) @ [digit (n mod 10)])"

declare dec_nat.simps [simp del]

definition dec :: "int \<Rightarrow> string" where
  "dec i = (if i < 0 then CHR ''-'' # dec_nat (nat (- i)) else dec_nat (nat i))"

definition dp_text :: "int \<Rightarrow> string \<Rightarrow> string" where
  "dp_text dp v = ''{'' @ [CHR 0x22] @ dec dp @ [CHR 0x22] @ '':'' @ v @ ''}''"

definition bool_text :: "bool \<Rightarrow> string" where
  "bool_text b = (if b then ''true'' else ''false'')"

text \<open>\<open>sprintf\<close> into a buffer, with the final zero, then \<open>dp_upload_proc\<close>.\<close>

definition report :: "nat \<Rightarrow> string \<Rightarrow> device \<Rightarrow> device c_run" where
  "report size_buff text d = (if length text < size_buff then Ret (d\<lparr>reports := reports d @ [text]\<rparr>) else Fault)"

definition Start_boot_up :: "device \<Rightarrow> device c_run" where
  "Start_boot_up = each_channel (\<lambda>i c d.
     c_then (report 30 (dp_text (dpid c) (bool_text (stat c))) d) (\<lambda>d1.
       if is_count_down d1
       then report 30 (dp_text (cd_dpid c) ''0'') (chan_upd i (\<lambda>c. c\<lparr>cd_sec := -1\<rparr>) d1)
       else Ret d1))"

section \<open>Network status\<close>

definition wifi_light :: "bool \<Rightarrow> device \<Rightarrow> device c_run" where
  "wifi_light lit d =
     set_light (wifi_stat_led_handle (g_hw_table d))
       (if (io_type (wifi_stat_led (g_hw_table d)) = IO_DRIVE_LEVEL_LOW) = lit then OL_LOW else OL_HIGH) 0 0 d"

definition hw_set_wifi_led_stat :: "nw_stat \<Rightarrow> device \<Rightarrow> device c_run" where
  "hw_set_wifi_led_stat wifi_stat d =
     (let off = d\<lparr>is_connected := False\<rparr>; on = d\<lparr>is_connected := True\<rparr>;
          flash = (\<lambda>ms d. set_light (wifi_stat_led_handle (g_hw_table d)) OL_FLASH_HIGH ms LED_TIMER_UNINIT d) in
      case wifi_stat of
        STAT_UNPROVISION \<Rightarrow> c_then (sync_led_and_relay_unconnected off) (flash 250)
      | STAT_AP_STA_UNCFG \<Rightarrow> c_then (sync_led_and_relay_unconnected off) (flash 1500)
      | STAT_AP_STA_DISC \<Rightarrow> c_then (sync_led_and_relay_unconnected off) (wifi_light False)
      | STAT_STA_DISC \<Rightarrow> c_then (sync_led_and_relay_unconnected off) (wifi_light False)
      | STAT_AP_STA_CONN \<Rightarrow> c_then (sync_led_and_relay_connected on) (wifi_light True)
      | STAT_STA_CONN \<Rightarrow> c_then (sync_led_and_relay_connected on) (wifi_light True)
      | STAT_CLOUD_CONN \<Rightarrow> c_then (sync_led_and_relay_connected on) (\<lambda>d. c_then (wifi_light True d) Start_boot_up)
      | STAT_AP_CLOUD_CONN \<Rightarrow> c_then (sync_led_and_relay_connected on) (\<lambda>d. c_then (wifi_light True d) Start_boot_up)
      | STAT_LOW_POWER \<Rightarrow> wifi_light False d)"

section \<open>The button\<close>

definition key_process :: "nat \<Rightarrow> push_key_type \<Rightarrow> int \<Rightarrow> device \<Rightarrow> device c_run" where
  "key_process port type cnt d =
     (if key_port (rst_button (g_hw_table d)) \<noteq> port then Ret d
      else
        (case type of
           LONG_KEY \<Rightarrow> Ret (d\<lparr>unactive_calls := unactive_calls d + 1\<rparr>)
         | NORMAL_KEY \<Rightarrow>
             c_then (hw_trig_channel 0 d) (\<lambda>d1.
             c_then (chan_at 0 d1) (\<lambda>c.
             c_then (report 30 (dp_text (dpid c) (bool_text (stat c))) d1) (\<lambda>d2.
               if cd_sec c \<noteq> -1
               then c_then (report 30 (dp_text (cd_dpid c) ''0'') d2) (\<lambda>d3. Ret (chan_upd 0 (\<lambda>c. c\<lparr>cd_sec := -1\<rparr>) d3))
               else Ret d2)))
         | SEQ_KEY \<Rightarrow> Ret d))"

section \<open>Set-up\<close>

text \<open>What the calls of \<open>init_hw\<close> answer: for the network light, \<open>key_init\<close>, the two registrations, and a channel's light.\<close>

record hw_env =
  wifi_led_env :: led_env
  hw_key_env :: key_env
  reset_key_malloc :: bool
  chan_led_env :: "nat \<Rightarrow> led_env"
  chan_key_malloc :: "nat \<Rightarrow> bool"

definition create_light :: "led_env \<Rightarrow> io_config \<Rightarrow> bool \<Rightarrow> nat option \<Rightarrow> device \<Rightarrow> (int \<times> nat option \<times> device) c_run" where
  "create_light env io lit handle d =
     (if io_type io = IO_DRIVE_LEVEL_NOT_EXIST then Ret (OPRT_OK, handle, d)
      else c_then (tuya_create_led_handle env (io_pin io) ((io_type io = IO_DRIVE_LEVEL_HIGH) = lit) handle (dev_leds d))
             (\<lambda>(ret, h, l). Ret (ret, h, d\<lparr>dev_leds := l\<rparr>)))"

text \<open>\<open>reg_proc_key\<close> makes the pin an input before it takes the key.\<close>

definition register_key :: "bool \<Rightarrow> key_user_def \<Rightarrow> device \<Rightarrow> (int \<times> device) c_run" where
  "register_key malloc_ok ud d =
     (case dev_keys d of
        None \<Rightarrow> Fault
      | Some km \<Rightarrow>
          (case reg_proc_key malloc_ok (\<lambda>_. KEY_OK) (Some ud) km of (ret, km1) \<Rightarrow>
           if ret \<noteq> KEY_OK then Ret (ret, d)
           else c_then (tuya_gpio_inout_set (of_nat (key_port ud)) True (led_regs (dev_leds d))) (\<lambda>r.
                  Ret (ret, d\<lparr>dev_leds := (dev_leds d)\<lparr>led_regs := r\<rparr>, dev_keys := Some km1\<rparr>))))"

text \<open>Errors as the first component, 0 for none: a step that runs only if the ones before did not fail.\<close>

definition if_ok :: "(int \<times> device) c_run \<Rightarrow> (device \<Rightarrow> (int \<times> device) c_run) \<Rightarrow> (int \<times> device) c_run" where
  "if_ok run f = c_then run (\<lambda>(ret, d). if ret \<noteq> OPRT_OK then Ret (ret, d) else f d)"

definition init_channel :: "hw_env \<Rightarrow> nat \<Rightarrow> device \<Rightarrow> (int \<times> device) c_run" where
  "init_channel env i d =
     c_then (chan_at (int i) d) (\<lambda>c.
     if_ok (c_then (create_light (chan_led_env env i) (led c) False (led_handle c) d)
              (\<lambda>(ret, h, d1). Ret (ret, chan_upd i (\<lambda>c. c\<lparr>led_handle := h\<rparr>) d1))) (\<lambda>d1.
     if_ok (if call_back (button c) \<noteq> None
            then c_then (register_key (chan_key_malloc env i) (button c) d1)
                   (\<lambda>(ret, d2). Ret (if ret \<noteq> OPRT_OK then OPRT_COM_ERROR else OPRT_OK, d2))
            else Ret (OPRT_OK, d1)) (\<lambda>d2.
     if_ok (if io_type (relay c) \<noteq> IO_DRIVE_LEVEL_NOT_EXIST
            then c_then (tuya_gpio_inout_set (io_pin (relay c)) False (led_regs (dev_leds d2)))
                   (\<lambda>r. Ret (OPRT_OK, d2\<lparr>dev_leds := (dev_leds d2)\<lparr>led_regs := r\<rparr>\<rparr>))
            else Ret (OPRT_OK, d2)) (\<lambda>d3.
     Ret (OPRT_OK, chan_upd i (\<lambda>c. c\<lparr>cd_sec := -1, stat := False\<rparr>) d3)))))"

fun init_channels :: "hw_env \<Rightarrow> nat list \<Rightarrow> device \<Rightarrow> (int \<times> device) c_run" where
  "init_channels env [] d = Ret (OPRT_OK, d)"
| "init_channels env (i # is) d = if_ok (init_channel env i d) (init_channels env is)"

definition init_hw :: "hw_env \<Rightarrow> device \<Rightarrow> (int \<times> device) c_run" where
  "init_hw env d =
     if_ok (c_then (create_light (wifi_led_env env) (wifi_stat_led (g_hw_table d)) True (wifi_stat_led_handle (g_hw_table d)) d)
              (\<lambda>(ret, h, d1). Ret (ret, hw_upd (\<lambda>t. t\<lparr>wifi_stat_led_handle := h\<rparr>) d1))) (\<lambda>d1.
     if_ok (case key_init (hw_key_env env) [] KEY_TIMER_MS (dev_keys d1) of (ret, km) \<Rightarrow> Ret (ret, d1\<lparr>dev_keys := km\<rparr>)) (\<lambda>d2.
     if_ok (if call_back (rst_button (g_hw_table d2)) \<noteq> None
            then c_then (register_key (reset_key_malloc env) (rst_button (g_hw_table d2)) d2)
                   (\<lambda>(ret, d3). Ret (if ret \<noteq> OPRT_OK then OPRT_COM_ERROR else OPRT_OK, d3))
            else Ret (OPRT_OK, d2)) (\<lambda>d3.
       init_channels env [0..<length (channels (g_hw_table d3))]
         (hw_upd (\<lambda>t. t\<lparr>channel_num := int (length (channels t))\<rparr>) d3))))"

end
