(* ===== verification/Tuya_Device.thy ===== *)
theory Tuya_Device
  imports Hw_Table
begin

text \<open>
  The sample device, \<open>project/tuya_user/bk7231_sample/src/tuya_device.c\<close>: commands from the cloud, the countdown of each
  channel, the network status and the start of the device, over the hardware table of \<open>Hw_Table\<close>.

  Each callback is one step; they run in different threads of the firmware, and are taken not to interleave. A command is the
  list of its data points. What the cloud library and the timers answer are arguments.
\<close>

section \<open>Callbacks\<close>

datatype dp_value = PROP_BOOL bool | PROP_VALUE int | PROP_STR string | PROP_ENUM u32 | PROP_BITMAP u32

type_synonym dp_cmd = "u8 \<times> dp_value"

definition recv_dp :: "dp_cmd \<Rightarrow> device \<Rightarrow> device c_run" where
  "recv_dp dp d =
     (case dp of (dpid0, v) \<Rightarrow>
      case v of
        PROP_BOOL b \<Rightarrow>
          c_then (hw_set_channel_by_dpid (uint dpid0) b d) (\<lambda>(ch_index, d1).
            if 0 \<le> ch_index then
              c_then (chan_at ch_index d1) (\<lambda>c.
              c_then (report 30 (dp_text (dpid c) (bool_text (stat c))) d1) (\<lambda>d2.
                if is_count_down d2 \<and> 0 \<le> cd_sec c
                then report 30 (dp_text (cd_dpid c) ''0'') (chan_upd (nat ch_index) (\<lambda>c. c\<lparr>cd_sec := -1\<rparr>) d2)
                else Ret d2))
            else Ret d1)
      | PROP_VALUE n \<Rightarrow>
          c_then (hw_find_channel_by_cd_dpid (uint dpid0) d) (\<lambda>ch_index.
            if 0 \<le> ch_index then
              c_then (chan_at ch_index d) (\<lambda>c.
                if n = 0
                then report 30 (dp_text (cd_dpid c) ''0'') (chan_upd (nat ch_index) (\<lambda>c. c\<lparr>cd_sec := -1\<rparr>) d)
                else report 30 (dp_text (cd_dpid c) (dec n)) (chan_upd (nat ch_index) (\<lambda>c. c\<lparr>cd_sec := n\<rparr>) d))
            else Ret d)
      | _ \<Rightarrow> Ret d)"

definition dev_obj_dp_cb :: "dp_cmd list \<Rightarrow> device \<Rightarrow> device c_run" where
  "dev_obj_dp_cb = c_steps recv_dp"

definition cd_channel :: "nat \<Rightarrow> ctrl_channel \<Rightarrow> device \<Rightarrow> device c_run" where
  "cd_channel i c d =
     (if cd_sec c < 0 then Ret d
      else
        (let left = cd_sec c - 1; d1 = chan_upd i (\<lambda>c. c\<lparr>cd_sec := left\<rparr>) d in
         if left \<le> 0 then
           c_then (hw_trig_channel (int i) d1) (\<lambda>d2.
           c_then (chan_at (int i) d2) (\<lambda>c2.
           c_then (report 20 (dp_text (dpid c2) (bool_text (stat c2))) d2) (\<lambda>d3.
           c_then (report 20 (dp_text (cd_dpid c2) ''0'') d3) (\<lambda>d4.
             Ret (chan_upd i (\<lambda>c. c\<lparr>cd_sec := -1\<rparr>) d4)))))
         else if left mod 30 = 0 then report 20 (dp_text (cd_dpid c) (dec left)) d1
         else Ret d1))"

definition cd_timer_cb :: "device \<Rightarrow> device c_run" where
  "cd_timer_cb = each_channel cd_channel"

text \<open>The buttons' timer, with the levels it samples: the callbacks its keys make.\<close>

definition key_callback :: "key_event \<Rightarrow> device \<Rightarrow> device c_run" where
  "key_callback ev d =
     (case ev of Key_Event f port tp cnt \<Rightarrow>
      case f of None \<Rightarrow> Fault | Some k \<Rightarrow> if k = KEY_PROCESS then key_process port tp cnt d else Ret d)"

definition key_timer :: "(nat \<Rightarrow> int) \<Rightarrow> device \<Rightarrow> device c_run" where
  "key_timer gpio_read d =
     (case dev_keys d of
        None \<Rightarrow> Ret d
      | Some km \<Rightarrow> (case key_handle gpio_read km of (km1, evs) \<Rightarrow> c_steps key_callback evs (d\<lparr>dev_keys := Some km1\<rparr>)))"

definition led_timer_step :: "device \<Rightarrow> device c_run" where
  "led_timer_step d = c_then (led_timer_cb (dev_leds d)) (\<lambda>l. Ret (d\<lparr>dev_leds := l\<rparr>))"

datatype dev_event = Dev_Dps "dp_cmd list" | Dev_Countdown | Dev_Leds | Dev_Keys "nat \<Rightarrow> int" | Dev_Network nw_stat

fun dev_step :: "dev_event \<Rightarrow> device \<Rightarrow> device c_run" where
  "dev_step (Dev_Dps dps) = dev_obj_dp_cb dps"
| "dev_step Dev_Countdown = cd_timer_cb"
| "dev_step Dev_Leds = led_timer_step"
| "dev_step (Dev_Keys gpio_read) = key_timer gpio_read"
| "dev_step (Dev_Network st) = hw_set_wifi_led_stat st"

section \<open>Start\<close>

record dev_env =
  soc_init_ret :: int
  nw_cb_ret :: int
  dev_hw_env :: hw_env
  cd_timer_ret :: int
  memory_timer_ret :: int

text \<open>The answer of \<open>init_hw\<close> is not looked at.\<close>

definition device_init :: "dev_env \<Rightarrow> device \<Rightarrow> (int \<times> device) c_run" where
  "device_init env d =
     (if soc_init_ret env \<noteq> OPRT_OK then Ret (-1, d)
      else if nw_cb_ret env \<noteq> OPRT_OK then Ret (nw_cb_ret env, d)
      else
        c_then (init_hw (dev_hw_env env) d) (\<lambda>(_, d1).
          if is_count_down d1 \<and> cd_timer_ret env \<noteq> OPRT_OK then Ret (cd_timer_ret env, d1)
          else Ret (memory_timer_ret env, d1)))"

section \<open>Texts\<close>

lemma length_dec_nat: "n < 10 ^ Suc k \<Longrightarrow> length (dec_nat n) \<le> Suc k"
proof (induction k arbitrary: n)
  case 0
  then show ?case by (simp add: dec_nat.simps [of n])
next
  case (Suc k)
  then have "length (dec_nat (n div 10)) \<le> Suc k" by (intro Suc.IH) auto
  then show ?case by (simp add: dec_nat.simps [of n])
qed

lemma length_dec:
  "0 \<le> i \<Longrightarrow> i < 10 ^ Suc k \<Longrightarrow> length (dec i) \<le> Suc k"
  "i < 0 \<Longrightarrow> - i < 10 ^ Suc k \<Longrightarrow> length (dec i) \<le> Suc (Suc k)"
proof -
  have bound: "nat j < 10 ^ Suc k" if "0 \<le> j" "j < 10 ^ Suc k" for j :: int
    using that by (metis nat_less_iff of_nat_numeral of_nat_power)
  show "0 \<le> i \<Longrightarrow> i < 10 ^ Suc k \<Longrightarrow> length (dec i) \<le> Suc k"
    using length_dec_nat [OF bound [of i]] by (simp add: dec_def)
  show "i < 0 \<Longrightarrow> - i < 10 ^ Suc k \<Longrightarrow> length (dec i) \<le> Suc (Suc k)"
    using length_dec_nat [OF bound [of "- i"]] by (simp add: dec_def)
qed

lemma length_dp_text: "length (dp_text dp v) = length (dec dp) + length v + 5"
  by (simp add: dp_text_def)

text \<open>A data point number of at most four characters.\<close>

definition short_dpid :: "int \<Rightarrow> bool" where
  "short_dpid dp \<longleftrightarrow> -999 \<le> dp \<and> dp \<le> 9999"

lemma short_dpid_text: "short_dpid dp \<Longrightarrow> length (dec dp) \<le> 4"
  using length_dec(1) [of dp 3] length_dec(2) [of dp 2] by (cases "dp < 0") (auto simp: short_dpid_def)

definition int32 :: "int \<Rightarrow> bool" where
  "int32 n \<longleftrightarrow> -2147483648 \<le> n \<and> n \<le> 2147483647"

lemma int32_text: "int32 n \<Longrightarrow> length (dec n) \<le> 11" "int32 n \<Longrightarrow> 0 \<le> n \<Longrightarrow> length (dec n) \<le> 10"
  using length_dec(1) [of n 9] length_dec(2) [of n 9] by (cases "n < 0"; auto simp: int32_def)+

lemma report_fits:
  "length text < k \<Longrightarrow> report k text d = Ret (d\<lparr>reports := reports d @ [text]\<rparr>)"
  by (simp add: report_def)

lemma texts_fit:
  assumes "short_dpid dp"
  shows "length (dp_text dp (bool_text b)) < 20" "length (dp_text dp ''0'') < 20"
    "int32 n \<Longrightarrow> length (dp_text dp (dec n)) < 30" "int32 n \<Longrightarrow> 0 \<le> n \<Longrightarrow> length (dp_text dp (dec n)) < 20"
  using short_dpid_text [OF assms] int32_text [of n] by (simp_all add: length_dp_text bool_text_def)

section \<open>Well-formed devices\<close>

text \<open>
  What a pin or a light of a channel shows: a relay \<open>on\<close> and a light \<open>lit\<close>, at the levels of their drive types.
  The light's block must be one of the list, at the channel's pin, and steady.
\<close>

definition active_level :: "io_config \<Rightarrow> bool \<Rightarrow> bool" where
  "active_level io on \<longleftrightarrow> (io_type io = IO_DRIVE_LEVEL_HIGH) = on"

definition relay_shows :: "led_sys \<Rightarrow> io_config \<Rightarrow> bool \<Rightarrow> bool" where
  "relay_shows L io on \<longleftrightarrow> io_type io = IO_DRIVE_LEVEL_NOT_EXIST \<or>
     app_pin (io_pin io) \<and> io_pin io \<notin> (led_port \<circ> snd) ` set (led_cntl_list L) \<and> level (led_regs L) (io_pin io) = active_level io on"

definition light_shows :: "led_sys \<Rightarrow> io_config \<Rightarrow> nat option \<Rightarrow> bool \<Rightarrow> bool" where
  "light_shows L io h lit \<longleftrightarrow> io_type io = IO_DRIVE_LEVEL_NOT_EXIST \<or>
     (\<exists>a b. h = Some a \<and> (a, b, active_level io lit) \<in> set (lights L) \<and> led_port b = io_pin io \<and>
        (led_type b = OL_HIGH \<or> led_type b = OL_LOW))"

definition channel_typed :: "ctrl_channel \<Rightarrow> bool" where
  "channel_typed c \<longleftrightarrow> short_dpid (dpid c) \<and> short_dpid (cd_dpid c) \<and> int32 (cd_sec c)"

definition apart :: "ctrl_channel \<Rightarrow> ctrl_channel \<Rightarrow> bool" where
  "apart c1 c2 \<longleftrightarrow>
     (io_type (relay c1) \<noteq> IO_DRIVE_LEVEL_NOT_EXIST \<longrightarrow> io_type (relay c2) \<noteq> IO_DRIVE_LEVEL_NOT_EXIST \<longrightarrow>
        io_pin (relay c1) \<noteq> io_pin (relay c2)) \<and>
     (io_type (led c1) \<noteq> IO_DRIVE_LEVEL_NOT_EXIST \<longrightarrow> io_type (led c2) \<noteq> IO_DRIVE_LEVEL_NOT_EXIST \<longrightarrow>
        led_handle c1 \<noteq> led_handle c2)"

definition chans :: "device \<Rightarrow> ctrl_channel list" where
  "chans d = channels (g_hw_table d)"

definition dev_static :: "device \<Rightarrow> bool" where
  "dev_static d \<longleftrightarrow> leds_ok (led_cntl_list (dev_leds d)) \<and> channel_num (g_hw_table d) = int (length (chans d)) \<and>
     length (chans d) < 256 \<and> list_all channel_typed (chans d) \<and>
     (\<exists>w b. wifi_stat_led_handle (g_hw_table d) = Some w \<and> map_of (led_cntl_list (dev_leds d)) w = Some b \<and>
        (\<forall>c \<in> set (chans d). io_type (led c) \<noteq> IO_DRIVE_LEVEL_NOT_EXIST \<longrightarrow> led_handle c \<noteq> Some w)) \<and>
     (\<forall>i < length (chans d). \<forall>j < length (chans d). i \<noteq> j \<longrightarrow> apart (chans d ! i) (chans d ! j)) \<and>
     (case dev_keys d of None \<Rightarrow> True | Some km \<Rightarrow> p_tbl km = [] \<and> keys_ok km) \<and> 0 < length (chans d)"

definition displays :: "device \<Rightarrow> (nat \<Rightarrow> bool) \<Rightarrow> (nat \<Rightarrow> bool) \<Rightarrow> bool" where
  "displays d on lit \<longleftrightarrow> (\<forall>i < length (chans d). relay_shows (dev_leds d) (relay (chans d ! i)) (on i) \<and>
     light_shows (dev_leds d) (led (chans d ! i)) (led_handle (chans d ! i)) (lit i))"

text \<open>A device in order: every relay is on iff its channel is active, every light lit iff moreover the network is there.\<close>

definition device_ok :: "device \<Rightarrow> bool" where
  "device_ok d \<longleftrightarrow> dev_static d \<and> displays d (\<lambda>i. stat (chans d ! i)) (\<lambda>i. is_connected d \<and> stat (chans d ! i))"

text \<open>Lights that change: only the light of one handle.\<close>

lemma relay_frame:
  assumes "relay_shows L io on" "map (\<lambda>(a, c). (a, led_port c)) (led_cntl_list L1) = map (\<lambda>(a, c). (a, led_port c)) (led_cntl_list L)"
    "\<forall>q. app_pin q \<longrightarrow> q \<notin> (led_port \<circ> snd) ` set (led_cntl_list L) \<longrightarrow> level (led_regs L1) q = level (led_regs L) q"
  shows "relay_shows L1 io on"
proof -
  have "snd ` set (map (\<lambda>(a, c). (a, led_port c)) (led_cntl_list L1)) = snd ` set (map (\<lambda>(a, c). (a, led_port c)) (led_cntl_list L))"
    by (simp only: assms(2))
  then have "(led_port \<circ> snd) ` set (led_cntl_list L1) = (led_port \<circ> snd) ` set (led_cntl_list L)"
    by (simp add: image_image case_prod_beta)
  with assms(1,3) show ?thesis by (auto simp: relay_shows_def)
qed

lemma lights_map_of:
  assumes "leds_ok (led_cntl_list L)"
  shows "(a, b, v) \<in> set (lights L) \<longleftrightarrow> map_of (led_cntl_list L) a = Some b \<and> v = level (led_regs L) (led_port b)"
  using assms by (auto simp: lights_def lights_of_def leds_ok_def split: prod.splits)

lemma light_other:
  assumes "light_shows L io h lit" "h \<noteq> Some a"
    "lights L1 = map (\<lambda>(a', l). if a' = a then (a', f l) else (a', l)) (lights L)"
  shows "light_shows L1 io h lit"
proof (cases "io_type io = IO_DRIVE_LEVEL_NOT_EXIST")
  case False
  then obtain a' b where ab: "h = Some a'" "(a', b, active_level io lit) \<in> set (lights L)" "led_port b = io_pin io"
    "led_type b = OL_HIGH \<or> led_type b = OL_LOW"
    using assms(1) by (auto simp: light_shows_def)
  then have "a' \<noteq> a" using assms(2) by simp
  with ab(2) have "(a', b, active_level io lit) \<in> set (lights L1)" unfolding assms(3) by force
  with ab show ?thesis by (auto simp: light_shows_def)
qed (simp add: light_shows_def)

lemma light_same:
  assumes "leds_ok (led_cntl_list L)" "light_shows L io (Some a) lit" "io_type io \<noteq> IO_DRIVE_LEVEL_NOT_EXIST"
    "lights L1 = map (\<lambda>(a', l). if a' = a then (a', typed t ms dur (fst l), lit_type t (snd l)) else (a', l)) (lights L)"
    "t = (if active_level io v then OL_HIGH else OL_LOW)"
  shows "light_shows L1 io (Some a) v"
proof -
  obtain b where ab: "(a, b, active_level io lit) \<in> set (lights L)" "led_port b = io_pin io"
    using assms(2,3) by (auto simp: light_shows_def)
  have "(a, typed t ms dur b, lit_type t (active_level io lit)) \<in> set (lights L1)" unfolding assms(4) using ab(1) by force
  moreover have "lit_type t (active_level io lit) = active_level io v" using assms(5) by (simp add: lit_type_def)
  moreover have "led_port (typed t ms dur b) = io_pin io" using ab(2) by (simp add: typed_def)
  moreover have "led_type (typed t ms dur b) = t" by (simp add: typed_def)
  ultimately show ?thesis using assms(5) unfolding light_shows_def
    by (intro disjI2 exI [of _ a] exI [of _ "typed t ms dur b"]) (simp split: if_splits)
qed

lemma same_ports:
  assumes "map (\<lambda>(a, c). (a, led_port c)) ls1 = map (\<lambda>(a, c). (a, led_port c)) ls"
  shows "(\<exists>b. map_of ls1 w = Some b) \<longleftrightarrow> (\<exists>b. map_of ls w = Some b)"
proof -
  have "fst ` set (map (\<lambda>(a, c). (a, led_port c)) ls1) = fst ` set (map (\<lambda>(a, c). (a, led_port c)) ls)" by (simp only: assms)
  then have "fst ` set ls1 = fst ` set ls" by (simp add: image_image case_prod_beta)
  then have "w \<in> dom (map_of ls1) \<longleftrightarrow> w \<in> dom (map_of ls)" by (simp only: dom_map_of_conv_image_fst)
  then show ?thesis by (simp add: dom_def)
qed

lemma static_leds:
  assumes "dev_static d" "leds_ok (led_cntl_list L)"
    "map (\<lambda>(a, c). (a, led_port c)) (led_cntl_list L) = map (\<lambda>(a, c). (a, led_port c)) (led_cntl_list (dev_leds d))"
  shows "dev_static (d\<lparr>dev_leds := L\<rparr>)"
  using assms(1,2) same_ports [OF assms(3)] unfolding dev_static_def chans_def by auto

text \<open>Setting one light: the relays stay, and so do the lights of other handles.\<close>

lemma set_light_ok:
  assumes st: "dev_static d" and there: "map_of (led_cntl_list (dev_leds d)) a = Some b"
  obtains L where "set_light (Some a) t ms dur d = Ret (d\<lparr>dev_leds := L\<rparr>)" "dev_static (d\<lparr>dev_leds := L\<rparr>)"
    "\<forall>io on. relay_shows (dev_leds d) io on \<longrightarrow> relay_shows L io on"
    "lights L = map (\<lambda>(a', l). if a' = a then (a', typed t ms dur (fst l), lit_type t (snd l)) else (a', l)) (lights (dev_leds d))"
proof -
  have ok: "leds_ok (led_cntl_list (dev_leds d))" using st by (simp add: dev_static_def)
  obtain L where L: "tuya_set_led_light_type (Some a) t ms dur (dev_leds d) = Ret L"
    "lights L = map (\<lambda>(a', l). if a' = a then (a', typed t ms dur (fst l), lit_type t (snd l)) else (a', l)) (lights (dev_leds d))"
    "leds_ok (led_cntl_list L)"
    "\<forall>q. app_pin q \<longrightarrow> q \<noteq> led_port b \<longrightarrow> level (led_regs L) q = level (led_regs (dev_leds d)) q"
    "map (\<lambda>(a, c). (a, led_port c)) (led_cntl_list L) = map (\<lambda>(a, c). (a, led_port c)) (led_cntl_list (dev_leds d))"
    by (rule set_lights [OF ok there, of t ms dur])
  have "led_port b \<in> (led_port \<circ> snd) ` set (led_cntl_list (dev_leds d))" using map_of_SomeD [OF there] by force
  then have "\<forall>q. app_pin q \<longrightarrow> q \<notin> (led_port \<circ> snd) ` set (led_cntl_list (dev_leds d)) \<longrightarrow>
      level (led_regs L) q = level (led_regs (dev_leds d)) q"
    using L(4) by blast
  then have "relay_shows L io on" if "relay_shows (dev_leds d) io on" for io on using relay_frame [OF that L(5)] by blast
  moreover have "dev_static (d\<lparr>dev_leds := L\<rparr>)" by (rule static_leds [OF st L(3,5)])
  ultimately show thesis using that L(1,2) by (simp add: set_light_def)
qed

lemma chans_leds [simp]: "chans (d\<lparr>dev_leds := L\<rparr>) = chans d"
  by (simp add: chans_def)

lemma drive_led_ok:
  assumes st: "dev_static d" and di: "displays d on lit" and i: "i < length (chans d)"
  obtains L where "drive_led (chans d ! i) v d = Ret (d\<lparr>dev_leds := L\<rparr>)" "dev_static (d\<lparr>dev_leds := L\<rparr>)"
    "displays (d\<lparr>dev_leds := L\<rparr>) on (lit(i := v))"
proof (cases "io_type (led (chans d ! i)) = IO_DRIVE_LEVEL_NOT_EXIST")
  case True
  then have "displays d on (lit(i := v))" using di by (auto simp: displays_def light_shows_def)
  then show thesis using that [of "dev_leds d"] True st by (simp add: drive_led_def)
next
  case False
  let ?c = "chans d ! i"
  have l: "light_shows (dev_leds d) (led ?c) (led_handle ?c) (lit i)" using di i by (simp add: displays_def)
  have ok: "leds_ok (led_cntl_list (dev_leds d))" using st by (simp add: dev_static_def)
  obtain a b where a: "led_handle ?c = Some a" "map_of (led_cntl_list (dev_leds d)) a = Some b"
    using l False by (auto simp: light_shows_def lights_map_of [OF ok])
  define t where "t = (if active_level (led ?c) v then OL_HIGH else OL_LOW)"
  obtain L where L: "set_light (Some a) t 0 0 d = Ret (d\<lparr>dev_leds := L\<rparr>)" "dev_static (d\<lparr>dev_leds := L\<rparr>)"
    "\<forall>io on. relay_shows (dev_leds d) io on \<longrightarrow> relay_shows L io on"
    "lights L = map (\<lambda>(a', l). if a' = a then (a', typed t 0 0 (fst l), lit_type t (snd l)) else (a', l)) (lights (dev_leds d))"
    by (rule set_light_ok [OF st a(2), of t 0 0])
  have "drive_led ?c v d = Ret (d\<lparr>dev_leds := L\<rparr>)"
    using L(1) False a(1) by (cases "io_type (led ?c)"; cases v) (simp_all add: drive_led_def t_def active_level_def)
  moreover have "displays (d\<lparr>dev_leds := L\<rparr>) on (lit(i := v))"
    unfolding displays_def
  proof (intro allI impI conjI; simp only: chans_leds)
    fix j assume j: "j < length (chans d)"
    then have dj: "relay_shows (dev_leds d) (relay (chans d ! j)) (on j)"
      "light_shows (dev_leds d) (led (chans d ! j)) (led_handle (chans d ! j)) (lit j)"
      using di by (simp_all add: displays_def)
    show "relay_shows (dev_leds (d\<lparr>dev_leds := L\<rparr>)) (relay (chans d ! j)) (on j)" using L(3) dj(1) by simp
    show "light_shows (dev_leds (d\<lparr>dev_leds := L\<rparr>)) (led (chans d ! j)) (led_handle (chans d ! j)) ((lit(i := v)) j)"
    proof (cases "j = i")
      case True
      then show ?thesis using light_same [OF ok l [unfolded a(1)] False L(4) t_def] a(1) by simp
    next
      case jn: False
      then have "apart ?c (chans d ! j)" using st i j by (auto simp: dev_static_def)
      then have "io_type (led (chans d ! j)) = IO_DRIVE_LEVEL_NOT_EXIST \<or> led_handle (chans d ! j) \<noteq> Some a"
        using False a(1) by (auto simp: apart_def)
      then show ?thesis using light_other [OF dj(2) _ L(4)] jn by (auto simp: light_shows_def)
    qed
  qed
  ultimately show thesis using that L(2) by blast
qed

lemma wifi_set_ok:
  assumes st: "dev_static d" and di: "displays d on lit"
  obtains L where "set_light (wifi_stat_led_handle (g_hw_table d)) t ms dur d = Ret (d\<lparr>dev_leds := L\<rparr>)"
    "dev_static (d\<lparr>dev_leds := L\<rparr>)" "displays (d\<lparr>dev_leds := L\<rparr>) on lit"
proof -
  obtain w b where w: "wifi_stat_led_handle (g_hw_table d) = Some w" "map_of (led_cntl_list (dev_leds d)) w = Some b"
    "\<forall>c \<in> set (chans d). io_type (led c) \<noteq> IO_DRIVE_LEVEL_NOT_EXIST \<longrightarrow> led_handle c \<noteq> Some w"
    using st by (auto simp: dev_static_def)
  obtain L where L: "set_light (Some w) t ms dur d = Ret (d\<lparr>dev_leds := L\<rparr>)" "dev_static (d\<lparr>dev_leds := L\<rparr>)"
    "\<forall>io on. relay_shows (dev_leds d) io on \<longrightarrow> relay_shows L io on"
    "lights L = map (\<lambda>(a', l). if a' = w then (a', typed t ms dur (fst l), lit_type t (snd l)) else (a', l)) (lights (dev_leds d))"
    by (rule set_light_ok [OF st w(2), of t ms dur])
  have "displays (d\<lparr>dev_leds := L\<rparr>) on lit"
    unfolding displays_def
  proof (intro allI impI conjI; simp only: chans_leds)
    fix j assume j: "j < length (chans d)"
    then have dj: "relay_shows (dev_leds d) (relay (chans d ! j)) (on j)"
      "light_shows (dev_leds d) (led (chans d ! j)) (led_handle (chans d ! j)) (lit j)"
      using di by (simp_all add: displays_def)
    show "relay_shows (dev_leds (d\<lparr>dev_leds := L\<rparr>)) (relay (chans d ! j)) (on j)" using L(3) dj(1) by simp
    show "light_shows (dev_leds (d\<lparr>dev_leds := L\<rparr>)) (led (chans d ! j)) (led_handle (chans d ! j)) (lit j)"
      using light_other [OF dj(2) _ L(4)] w(3) nth_mem [OF j] by (auto simp: light_shows_def)
  qed
  with L(1,2) w(1) show thesis using that by simp
qed

lemma write_pin_ok:
  assumes st: "dev_static d" and p: "app_pin p" "p \<notin> (led_port \<circ> snd) ` set (led_cntl_list (dev_leds d))"
  obtains L where "write_pin p v d = Ret (d\<lparr>dev_leds := L\<rparr>)" "dev_static (d\<lparr>dev_leds := L\<rparr>)"
    "lights L = lights (dev_leds d)" "led_cntl_list L = led_cntl_list (dev_leds d)"
    "\<forall>q. app_pin q \<longrightarrow> level (led_regs L) q = (if q = p then v else level (led_regs (dev_leds d)) q)"
proof -
  obtain r where r: "tuya_gpio_write p v (led_regs (dev_leds d)) = Ret r"
    "\<forall>q. app_pin q \<longrightarrow> level r q = (if q = p then v else level (led_regs (dev_leds d)) q)"
    by (rule level_write [OF p(1)])
  have ok: "leds_ok (led_cntl_list (dev_leds d))" using st by (simp add: dev_static_def)
  let ?L = "(dev_leds d)\<lparr>led_regs := r\<rparr>"
  have "lights ?L = lights (dev_leds d)"
    unfolding lights_def using ok r(2) p(2)
    by (intro trans [OF _ lights_of_cong [of "led_cntl_list (dev_leds d)" r "led_regs (dev_leds d)"]]) (auto simp: leds_ok_def)
  moreover have "dev_static (d\<lparr>dev_leds := ?L\<rparr>)" by (rule static_leds [OF st]) (simp_all add: ok)
  ultimately show thesis using r by (intro that [of ?L]) (simp_all add: write_pin_def)
qed

lemma drive_relay_ok:
  assumes st: "dev_static d" and di: "displays d on lit" and i: "i < length (chans d)"
  obtains L where "drive_relay (chans d ! i) v d = Ret (d\<lparr>dev_leds := L\<rparr>)" "dev_static (d\<lparr>dev_leds := L\<rparr>)"
    "displays (d\<lparr>dev_leds := L\<rparr>) (on(i := v)) lit"
proof (cases "io_type (relay (chans d ! i)) = IO_DRIVE_LEVEL_NOT_EXIST")
  case True
  then have "displays d (on(i := v)) lit" using di by (auto simp: displays_def relay_shows_def)
  then show thesis using that [of "dev_leds d"] True st by (simp add: drive_relay_def)
next
  case False
  let ?c = "chans d ! i"
  let ?p = "io_pin (relay ?c)"
  have r: "app_pin ?p" "?p \<notin> (led_port \<circ> snd) ` set (led_cntl_list (dev_leds d))"
    using di i False by (auto simp: displays_def relay_shows_def)
  obtain L where L: "write_pin ?p (active_level (relay ?c) v) d = Ret (d\<lparr>dev_leds := L\<rparr>)" "dev_static (d\<lparr>dev_leds := L\<rparr>)"
    "lights L = lights (dev_leds d)" "led_cntl_list L = led_cntl_list (dev_leds d)"
    "\<forall>q. app_pin q \<longrightarrow> level (led_regs L) q = (if q = ?p then active_level (relay ?c) v else level (led_regs (dev_leds d)) q)"
    by (rule write_pin_ok [OF st r, of "active_level (relay ?c) v"])
  have "drive_relay ?c v d = Ret (d\<lparr>dev_leds := L\<rparr>)"
    using L(1) False by (cases "io_type (relay ?c)"; cases v) (simp_all add: drive_relay_def active_level_def)
  moreover have "displays (d\<lparr>dev_leds := L\<rparr>) (on(i := v)) lit"
    unfolding displays_def
  proof (intro allI impI conjI; simp only: chans_leds)
    fix j assume j: "j < length (chans d)"
    then have dj: "relay_shows (dev_leds d) (relay (chans d ! j)) (on j)"
      "light_shows (dev_leds d) (led (chans d ! j)) (led_handle (chans d ! j)) (lit j)"
      using di by (simp_all add: displays_def)
    show "light_shows (dev_leds (d\<lparr>dev_leds := L\<rparr>)) (led (chans d ! j)) (led_handle (chans d ! j)) (lit j)"
      using dj(2) by (simp add: light_shows_def L(3))
    show "relay_shows (dev_leds (d\<lparr>dev_leds := L\<rparr>)) (relay (chans d ! j)) ((on(i := v)) j)"
    proof (cases "j = i")
      case True
      then show ?thesis using r L(4,5) by (simp add: relay_shows_def)
    next
      case jn: False
      then have "apart ?c (chans d ! j)" using st i j by (auto simp: dev_static_def)
      then have "io_type (relay (chans d ! j)) = IO_DRIVE_LEVEL_NOT_EXIST \<or> io_pin (relay (chans d ! j)) \<noteq> ?p"
        using False by (auto simp: apart_def)
      then show ?thesis using dj(1) jn L(4,5) by (auto simp: relay_shows_def)
    qed
  qed
  ultimately show thesis using that L(2) by blast
qed

text \<open>Changing what a channel remembers.\<close>

lemma chans_upd: "chans (chan_upd i f d) = (chans d)[i := f (chans d ! i)]"
  by (simp add: chans_def chan_upd_def hw_upd_def)

lemma chan_upd_simps [simp]:
  "dev_leds (chan_upd i f d) = dev_leds d" "dev_keys (chan_upd i f d) = dev_keys d"
  "is_connected (chan_upd i f d) = is_connected d" "is_count_down (chan_upd i f d) = is_count_down d"
  "reports (chan_upd i f d) = reports d" "unactive_calls (chan_upd i f d) = unactive_calls d"
  "wifi_stat_led_handle (g_hw_table (chan_upd i f d)) = wifi_stat_led_handle (g_hw_table d)"
  "wifi_stat_led (g_hw_table (chan_upd i f d)) = wifi_stat_led (g_hw_table d)"
  "channel_num (g_hw_table (chan_upd i f d)) = channel_num (g_hw_table d)"
  "rst_button (g_hw_table (chan_upd i f d)) = rst_button (g_hw_table d)"
  by (simp_all add: chan_upd_def hw_upd_def)

definition remembers :: "(ctrl_channel \<Rightarrow> ctrl_channel) \<Rightarrow> bool" where
  "remembers f \<longleftrightarrow> (\<forall>c. relay (f c) = relay c \<and> led (f c) = led c \<and> led_handle (f c) = led_handle c \<and>
     (channel_typed c \<longrightarrow> channel_typed (f c)))"

lemma remembers_cases:
  "remembers (\<lambda>c. c\<lparr>stat := b\<rparr>)" "int32 n \<Longrightarrow> remembers (\<lambda>c. c\<lparr>cd_sec := n\<rparr>)"
  by (simp_all add: remembers_def channel_typed_def)

lemma chan_upd_nth:
  "remembers f \<Longrightarrow> j < length (chans d) \<Longrightarrow> relay (chans (chan_upd i f d) ! j) = relay (chans d ! j) \<and>
     led (chans (chan_upd i f d) ! j) = led (chans d ! j) \<and> led_handle (chans (chan_upd i f d) ! j) = led_handle (chans d ! j) \<and>
     (channel_typed (chans d ! j) \<longrightarrow> channel_typed (chans (chan_upd i f d) ! j))"
  by (cases "j = i") (auto simp: chans_upd remembers_def)

lemma chan_upd_ok:
  assumes "remembers f"
  shows "dev_static d \<Longrightarrow> dev_static (chan_upd i f d)" "displays d on lit \<Longrightarrow> displays (chan_upd i f d) on lit"
proof -
  have len: "length (chans (chan_upd i f d)) = length (chans d)" by (simp add: chans_upd)
  note nth = chan_upd_nth [OF assms]
  show "displays (chan_upd i f d) on lit" if "displays d on lit"
    using that nth unfolding displays_def len by simp
  assume st: "dev_static d"
  have typed: "list_all channel_typed (chans (chan_upd i f d))"
    using st nth by (simp add: dev_static_def list_all_length len)
  have ap: "apart (chans (chan_upd i f d) ! j) (chans (chan_upd i f d) ! k)"
    if "j < length (chans d)" "k < length (chans d)" "j \<noteq> k" for j k
  proof -
    have "apart (chans d ! j) (chans d ! k)" using st that by (simp add: dev_static_def)
    then show ?thesis using nth [OF that(1)] nth [OF that(2)] by (simp add: apart_def)
  qed
  obtain w b where w: "wifi_stat_led_handle (g_hw_table d) = Some w" "map_of (led_cntl_list (dev_leds d)) w = Some b"
    "\<forall>c \<in> set (chans d). io_type (led c) \<noteq> IO_DRIVE_LEVEL_NOT_EXIST \<longrightarrow> led_handle c \<noteq> Some w"
    using st by (auto simp: dev_static_def)
  have "\<forall>c \<in> set (chans (chan_upd i f d)). io_type (led c) \<noteq> IO_DRIVE_LEVEL_NOT_EXIST \<longrightarrow> led_handle c \<noteq> Some w"
    using w(3) nth unfolding all_set_conv_all_nth len by auto
  with st typed ap w show "dev_static (chan_upd i f d)" by (simp add: dev_static_def len)
qed

section \<open>Every step keeps a device in order\<close>

lemma chan_at_ok: "i < length (chans d) \<Longrightarrow> chan_at (int i) d = Ret (chans d ! i)"
  by (simp add: chan_at_def chans_def Let_def)

lemma chan_at_0: "0 < length (chans d) \<Longrightarrow> chan_at 0 d = Ret (chans d ! 0)"
  using chan_at_ok [of 0 d] by simp

lemma device_ok_static: "device_ok d \<Longrightarrow> dev_static d"
  by (simp add: device_ok_def)

lemma device_ok_log [simp]:
  "device_ok (d\<lparr>reports := rs\<rparr>) = device_ok d" "device_ok (d\<lparr>unactive_calls := n\<rparr>) = device_ok d"
  "chans (d\<lparr>reports := rs\<rparr>) = chans d" "chans (d\<lparr>unactive_calls := n\<rparr>) = chans d"
  by (simp_all add: device_ok_def dev_static_def displays_def chans_def)

lemma device_ok_cd [simp]:
  assumes "int32 n"
  shows "device_ok d \<Longrightarrow> device_ok (chan_upd i (\<lambda>c. c\<lparr>cd_sec := n\<rparr>) d)"
proof -
  assume ok: "device_ok d"
  have "stat (chans (chan_upd i (\<lambda>c. c\<lparr>cd_sec := n\<rparr>) d) ! j) = stat (chans d ! j)" for j
    by (cases "i < length (chans d)"; cases "j = i") (simp_all add: chans_upd list_update_beyond [OF leI])
  then show ?thesis
    using ok chan_upd_ok [OF remembers_cases(2) [OF assms], of d] by (simp add: device_ok_def)
qed

lemma device_channel:
  assumes "device_ok d" "i < length (chans d)"
  shows "channel_typed (chans d ! i)"
  using assms by (simp add: device_ok_def dev_static_def list_all_length)

lemma int32_small [simp]: "int32 (- 1)"
  by (simp add: int32_def)

lemma report_ok:
  "device_ok d \<Longrightarrow> length text < k \<Longrightarrow> \<exists>d1. report k text d = Ret d1 \<and> device_ok d1 \<and> d1 = d\<lparr>reports := reports d @ [text]\<rparr>"
  by (simp add: report_fits)

lemma set_channel_ok:
  assumes ok: "device_ok d" and i: "i < length (chans d)"
  obtains L where "hw_set_channel (int i) b d = Ret ((chan_upd i (\<lambda>c. c\<lparr>stat := b\<rparr>) d)\<lparr>dev_leds := L\<rparr>)"
    "device_ok ((chan_upd i (\<lambda>c. c\<lparr>stat := b\<rparr>) d)\<lparr>dev_leds := L\<rparr>)"
proof -
  let ?d = "chan_upd i (\<lambda>c. c\<lparr>stat := b\<rparr>) d"
  let ?on = "\<lambda>j. stat (chans d ! j)" let ?lit = "\<lambda>j. is_connected d \<and> stat (chans d ! j)"
  have st: "dev_static ?d" and di: "displays ?d ?on ?lit"
    using ok chan_upd_ok [OF remembers_cases(1), of d] by (simp_all add: device_ok_def)
  have i1: "i < length (chans ?d)" using i by (simp add: chans_upd)
  obtain L1 where L1: "drive_relay (chans ?d ! i) b ?d = Ret (?d\<lparr>dev_leds := L1\<rparr>)" "dev_static (?d\<lparr>dev_leds := L1\<rparr>)"
    "displays (?d\<lparr>dev_leds := L1\<rparr>) (?on(i := b)) ?lit"
    by (rule drive_relay_ok [OF st di i1])
  obtain L2 where L2: "drive_led (chans ?d ! i) b (?d\<lparr>dev_leds := L1\<rparr>) = Ret (?d\<lparr>dev_leds := L2\<rparr>)"
    "dev_static (?d\<lparr>dev_leds := L2\<rparr>)" "displays (?d\<lparr>dev_leds := L2\<rparr>) (?on(i := b)) (?lit(i := b))"
    using drive_led_ok [OF L1(2,3), of i b] i1 by auto
  have c: "chans ?d ! i = (chans d ! i)\<lparr>stat := b\<rparr>" using i by (simp add: chans_upd)
  have same: "drive_relay (chans d ! i) b x = drive_relay (chans ?d ! i) b x"
    "drive_led (chans d ! i) b x = drive_led (chans ?d ! i) b x" for x
    by (simp_all add: c drive_relay_def drive_led_def split: io_drive_type.split)
  define L where "L = (if b \<and> \<not> is_connected d then L1 else L2)"
  have new: "(\<lambda>j. stat (chans ?d ! j)) = ?on(i := b)" using i by (auto simp: chans_upd nth_list_update)
  have "hw_set_channel (int i) b d = Ret (?d\<lparr>dev_leds := L\<rparr>)"
    using L1(1) L2(1) i unfolding same [symmetric] by (cases b) (simp_all add: hw_set_channel_def chan_at_ok L_def)
  moreover have "device_ok (?d\<lparr>dev_leds := L\<rparr>)"
  proof (cases "b \<and> \<not> is_connected d")
    case True
    then have "(\<lambda>j. is_connected d \<and> stat (chans ?d ! j)) = ?lit" by auto
    then show ?thesis using L1 True new by (simp add: device_ok_def L_def)
  next
    case False
    then have "(\<lambda>j. is_connected d \<and> stat (chans ?d ! j)) = ?lit(i := b)"
      using fun_cong [OF new] by (auto simp: fun_eq_iff)
    moreover have "L = L2" using False by (simp only: L_def if_False)
    ultimately show ?thesis using L2 new by (simp add: device_ok_def)
  qed
  ultimately show thesis by (rule that)
qed

lemma trig_channel_ok:
  assumes ok: "device_ok d" and i: "i < length (chans d)"
  obtains L where "hw_trig_channel (int i) d = Ret ((chan_upd i (\<lambda>c. c\<lparr>stat := \<not> stat (chans d ! i)\<rparr>) d)\<lparr>dev_leds := L\<rparr>)"
    "device_ok ((chan_upd i (\<lambda>c. c\<lparr>stat := \<not> stat (chans d ! i)\<rparr>) d)\<lparr>dev_leds := L\<rparr>)"
proof -
  obtain L where "hw_set_channel (int i) (\<not> stat (chans d ! i)) d =
      Ret ((chan_upd i (\<lambda>c. c\<lparr>stat := \<not> stat (chans d ! i)\<rparr>) d)\<lparr>dev_leds := L\<rparr>)"
    "device_ok ((chan_upd i (\<lambda>c. c\<lparr>stat := \<not> stat (chans d ! i)\<rparr>) d)\<lparr>dev_leds := L\<rparr>)"
    by (rule set_channel_ok [OF ok i])
  then show thesis using that i by (simp add: hw_trig_channel_def chan_at_ok)
qed

text \<open>A walk over the channels, with an invariant that may speak of how far it got.\<close>

lemma each_channel_inv:
  assumes "J 0 d" "channel_num (g_hw_table d) = int n"
    "\<And>i d. J i d \<Longrightarrow> i < n \<Longrightarrow> n = length (chans d)"
    "\<And>i d. J i d \<Longrightarrow> i < n \<Longrightarrow> \<exists>d1. step i (chans d ! i) d = Ret d1 \<and> J (Suc i) d1"
  shows "\<exists>d1. each_channel step d = Ret d1 \<and> J n d1"
proof -
  have "\<exists>d1. c_steps (\<lambda>i d. c_then (chan_at (int i) d) (\<lambda>c. step i c d)) [i..<n] d = Ret d1 \<and> J n d1"
    if "J i d" "i \<le> n" for i d
    using that(2,1)
  proof (induction i arbitrary: d rule: inc_induct)
    case (step k)
    then obtain d1 where "step k (chans d ! k) d = Ret d1" "J (Suc k) d1" using assms(4) by blast
    moreover have "chan_at (int k) d = Ret (chans d ! k)" using step assms(3) by (intro chan_at_ok) simp
    ultimately show ?case using step(3) [of d1] step(2) by (simp add: upt_conv_Cons)
  qed simp
  from this [of 0 d] assms(1,2) show ?thesis by (simp add: each_channel_def)
qed

section \<open>The callbacks\<close>

definition only_leds :: "device \<Rightarrow> device \<Rightarrow> bool" where
  "only_leds d d1 \<longleftrightarrow> d1 = d\<lparr>dev_leds := dev_leds d1\<rparr>"

lemma only_leds_refl [simp]: "only_leds d d"
  by (simp add: only_leds_def)

lemma only_leds_set [simp]: "only_leds d (d1\<lparr>dev_leds := L\<rparr>) \<longleftrightarrow> d1\<lparr>dev_leds := L\<rparr> = d\<lparr>dev_leds := L\<rparr>"
  by (simp add: only_leds_def)

lemma only_ledsD:
  "only_leds d d1 \<Longrightarrow> chans d1 = chans d \<and> is_connected d1 = is_connected d \<and> reports d1 = reports d \<and>
     is_count_down d1 = is_count_down d \<and> unactive_calls d1 = unactive_calls d \<and> g_hw_table d1 = g_hw_table d"
proof -
  assume "only_leds d d1"
  then have d1: "d1 = d\<lparr>dev_leds := dev_leds d1\<rparr>" by (simp add: only_leds_def)
  show ?thesis by (subst (1 2 3 4 5 6) d1) simp
qed

lemma only_leds_trans: "only_leds d d1 \<Longrightarrow> only_leds d1 d2 \<Longrightarrow> only_leds d d2"
  unfolding only_leds_def by (metis device.surjective device.update_convs(3))

lemma sync_off:
  assumes st: "dev_static d" and di: "displays d (\<lambda>i. stat (chans d ! i)) lit"
  shows "\<exists>d1. sync_led_and_relay_unconnected d = Ret d1 \<and> only_leds d d1 \<and> dev_static d1 \<and>
    displays d1 (\<lambda>i. stat (chans d ! i)) (\<lambda>_. False)"
proof -
  let ?n = "length (chans d)"
  have "\<exists>d1. sync_led_and_relay_unconnected d = Ret d1 \<and> only_leds d d1 \<and> dev_static d1 \<and>
    displays d1 (\<lambda>i. stat (chans d ! i)) (\<lambda>j. if j < ?n then False else lit j)"
    unfolding sync_led_and_relay_unconnected_def
  proof (rule each_channel_inv)
    fix i d1 assume J: "only_leds d d1 \<and> dev_static d1 \<and>
      displays d1 (\<lambda>i. stat (chans d ! i)) (\<lambda>j. if j < i then False else lit j)" and i: "i < ?n"
    then have st1: "dev_static d1" and di1: "displays d1 (\<lambda>i. stat (chans d ! i)) (\<lambda>j. if j < i then False else lit j)"
      and only: "only_leds d d1" by blast+
    from only have same: "chans d1 = chans d" using only_ledsD by blast
    then show "?n = length (chans d1)" by simp
    have i1: "i < length (chans d1)" using i same by simp
    obtain L where L: "drive_led (chans d1 ! i) False d1 = Ret (d1\<lparr>dev_leds := L\<rparr>)" "dev_static (d1\<lparr>dev_leds := L\<rparr>)"
      "displays (d1\<lparr>dev_leds := L\<rparr>) (\<lambda>i. stat (chans d ! i)) ((\<lambda>j. if j < i then False else lit j)(i := False))"
      by (rule drive_led_ok [OF st1 di1 i1])
    moreover have "(\<lambda>j. if j < i then False else lit j)(i := False) = (\<lambda>j. if j < Suc i then False else lit j)"
      by (auto simp: fun_eq_iff less_Suc_eq)
    moreover have "only_leds d (d1\<lparr>dev_leds := L\<rparr>)" by (rule only_leds_trans [OF only]) (simp add: only_leds_def)
    ultimately show "\<exists>d2. drive_led (chans d1 ! i) False d1 = Ret d2 \<and> only_leds d d2 \<and> dev_static d2 \<and>
      displays d2 (\<lambda>i. stat (chans d ! i)) (\<lambda>j. if j < Suc i then False else lit j)"
      by (intro exI [of _ "d1\<lparr>dev_leds := L\<rparr>"]) simp
  qed (use st di in \<open>simp_all add: dev_static_def\<close>)
  then obtain d1 where d1: "sync_led_and_relay_unconnected d = Ret d1" "only_leds d d1" "dev_static d1"
    "displays d1 (\<lambda>i. stat (chans d ! i)) (\<lambda>j. if j < ?n then False else lit j)" by blast
  then have "displays d1 (\<lambda>i. stat (chans d ! i)) (\<lambda>_. False)"
    using only_ledsD [OF d1(2)] by (simp add: displays_def)
  with d1 show ?thesis by blast
qed

lemma sync_on:
  assumes st: "dev_static d" and di: "displays d (\<lambda>i. stat (chans d ! i)) lit" and dark: "\<And>i. lit i \<Longrightarrow> stat (chans d ! i)"
  shows "\<exists>d1. sync_led_and_relay_connected d = Ret d1 \<and> only_leds d d1 \<and> dev_static d1 \<and>
    displays d1 (\<lambda>i. stat (chans d ! i)) (\<lambda>i. stat (chans d ! i))"
proof -
  let ?n = "length (chans d)" let ?st = "\<lambda>i. stat (chans d ! i)"
  have "\<exists>d1. sync_led_and_relay_connected d = Ret d1 \<and> only_leds d d1 \<and> dev_static d1 \<and>
    displays d1 ?st (\<lambda>j. if j < ?n then ?st j else lit j)"
    unfolding sync_led_and_relay_connected_def
  proof (rule each_channel_inv)
    fix i d1 assume J: "only_leds d d1 \<and> dev_static d1 \<and> displays d1 ?st (\<lambda>j. if j < i then ?st j else lit j)" and i: "i < ?n"
    then have st1: "dev_static d1" and di1: "displays d1 ?st (\<lambda>j. if j < i then ?st j else lit j)"
      and only: "only_leds d d1" by blast+
    from only have same: "chans d1 = chans d" using only_ledsD by blast
    then show "?n = length (chans d1)" by simp
    have i1: "i < length (chans d1)" using i same by simp
    show "\<exists>d2. (if stat (chans d1 ! i) then drive_led (chans d1 ! i) True d1 else Ret d1) = Ret d2 \<and> only_leds d d2 \<and>
      dev_static d2 \<and> displays d2 ?st (\<lambda>j. if j < Suc i then ?st j else lit j)"
    proof (cases "?st i")
      case True
      obtain L where L: "drive_led (chans d1 ! i) True d1 = Ret (d1\<lparr>dev_leds := L\<rparr>)" "dev_static (d1\<lparr>dev_leds := L\<rparr>)"
        "displays (d1\<lparr>dev_leds := L\<rparr>) ?st ((\<lambda>j. if j < i then ?st j else lit j)(i := True))"
        by (rule drive_led_ok [OF st1 di1 i1])
      moreover have "(\<lambda>j. if j < i then ?st j else lit j)(i := True) = (\<lambda>j. if j < Suc i then ?st j else lit j)"
        using True by (auto simp: fun_eq_iff less_Suc_eq)
      moreover have "only_leds d (d1\<lparr>dev_leds := L\<rparr>)" by (rule only_leds_trans [OF only]) (simp add: only_leds_def)
      ultimately show ?thesis using True same by (intro exI [of _ "d1\<lparr>dev_leds := L\<rparr>"]) simp
    next
      case False
      then have "(\<lambda>j. if j < i then ?st j else lit j) = (\<lambda>j. if j < Suc i then ?st j else lit j)"
        using dark [of i] by (auto simp: fun_eq_iff less_Suc_eq)
      with False st1 di1 only same show ?thesis by (intro exI [of _ d1]) simp
    qed
  qed (use st di in \<open>simp_all add: dev_static_def\<close>)
  then obtain d1 where d1: "sync_led_and_relay_connected d = Ret d1" "only_leds d d1" "dev_static d1"
    "displays d1 ?st (\<lambda>j. if j < ?n then ?st j else lit j)" by blast
  then have "displays d1 ?st ?st"
    using only_ledsD [OF d1(2)] by (simp add: displays_def)
  with d1 show ?thesis by blast
qed

definition goes_on :: "device c_run \<Rightarrow> bool" where
  "goes_on run \<longleftrightarrow> (\<exists>d1. run = Ret d1 \<and> device_ok d1)"

lemma goes_on_Ret [simp]: "goes_on (Ret d) \<longleftrightarrow> device_ok d"
  by (simp add: goes_on_def)

lemma goes_on_then: "goes_on run \<Longrightarrow> (\<And>d1. device_ok d1 \<Longrightarrow> goes_on (f d1)) \<Longrightarrow> goes_on (c_then run f)"
  by (auto simp: goes_on_def)

lemma goes_on_steps: "device_ok d \<Longrightarrow> (\<And>x d. x \<in> set xs \<Longrightarrow> device_ok d \<Longrightarrow> goes_on (f x d)) \<Longrightarrow> goes_on (c_steps f xs d)"
  by (induction xs arbitrary: d) (auto intro: goes_on_then)

lemma goes_on_report: "device_ok d \<Longrightarrow> length text < k \<Longrightarrow> goes_on (report k text d)"
  by (simp add: report_fits)

lemma goes_on_each:
  assumes ok: "device_ok d" and step: "\<And>i d. device_ok d \<Longrightarrow> i < length (chans d) \<Longrightarrow> goes_on (step i (chans d ! i) d)"
    and num: "\<And>i d d1. device_ok d \<Longrightarrow> i < length (chans d) \<Longrightarrow> step i (chans d ! i) d = Ret d1 \<Longrightarrow> length (chans d1) = length (chans d)"
  shows "goes_on (each_channel step d)"
proof -
  let ?n = "length (chans d)"
  have "\<exists>d1. each_channel step d = Ret d1 \<and> device_ok d1 \<and> length (chans d1) = ?n"
  proof (rule each_channel_inv [where J = "\<lambda>_ d1. device_ok d1 \<and> length (chans d1) = ?n" and n = ?n])
    show "channel_num (g_hw_table d) = int ?n" using ok by (simp add: device_ok_def dev_static_def)
    fix i d' assume J: "device_ok d' \<and> length (chans d') = ?n" and i: "i < ?n"
    then show "?n = length (chans d')" by simp
    have i': "i < length (chans d')" and ok': "device_ok d'" using J i by simp_all
    obtain d1 where "step i (chans d' ! i) d' = Ret d1" "device_ok d1" using step [OF ok' i'] by (auto simp: goes_on_def)
    moreover from this have "length (chans d1) = ?n" using num [OF ok' i'] J by simp
    ultimately show "\<exists>d1. step i (chans d' ! i) d' = Ret d1 \<and> device_ok d1 \<and> length (chans d1) = ?n" by blast
  qed (use ok in simp)
  then show ?thesis by (auto simp: goes_on_def)
qed

text \<open>Channels found by number.\<close>

lemma find_channel_ok:
  "i + n \<le> length cs \<Longrightarrow> \<exists>k. find_channel P cs i n = Ret k \<and> (k = -1 \<or> (\<exists>j. k = int j \<and> i \<le> j \<and> j < i + n \<and> P (cs ! j)))"
proof (induction n arbitrary: i)
  case (Suc n)
  show ?case
  proof (cases "P (cs ! i)")
    case True
    then show ?thesis using Suc.prems by auto
  next
    case False
    have "Suc i + n \<le> length cs" using Suc.prems by simp
    from Suc.IH [OF this] obtain k where "find_channel P cs (Suc i) n = Ret k"
      "k = -1 \<or> (\<exists>j. k = int j \<and> Suc i \<le> j \<and> j < Suc i + n \<and> P (cs ! j))" by blast
    then show ?thesis using False Suc.prems by (intro exI [of _ k]) auto
  qed
qed simp

lemma found_channel:
  assumes "device_ok d"
  obtains "find_channel P (channels (g_hw_table d)) 0 (nat (channel_num (g_hw_table d))) = Ret (-1)"
  | j where "find_channel P (channels (g_hw_table d)) 0 (nat (channel_num (g_hw_table d))) = Ret (int j)"
      "j < length (chans d)" "P (chans d ! j)"
  using find_channel_ok [of 0 "length (chans d)" "chans d" P] assms that
  by (auto simp: device_ok_def dev_static_def chans_def)

lemma channel_reports:
  assumes "device_ok d" "i < length (chans d)"
  shows "length (dp_text (dpid (chans d ! i)) (bool_text b)) < 20" "length (dp_text (cd_dpid (chans d ! i)) ''0'') < 20"
    "int32 n \<Longrightarrow> length (dp_text (cd_dpid (chans d ! i)) (dec n)) < 30"
    "int32 n \<Longrightarrow> 0 \<le> n \<Longrightarrow> length (dp_text (cd_dpid (chans d ! i)) (dec n)) < 20"
  using device_channel [OF assms] texts_fit by (auto simp: channel_typed_def)

lemma set_stat_same:
  "i < length (chans d) \<Longrightarrow> dpid (chans ((chan_upd i (\<lambda>c. c\<lparr>stat := b\<rparr>) d)\<lparr>dev_leds := L\<rparr>) ! i) = dpid (chans d ! i) \<and>
     cd_dpid (chans ((chan_upd i (\<lambda>c. c\<lparr>stat := b\<rparr>) d)\<lparr>dev_leds := L\<rparr>) ! i) = cd_dpid (chans d ! i) \<and>
     length (chans ((chan_upd i (\<lambda>c. c\<lparr>stat := b\<rparr>) d)\<lparr>dev_leds := L\<rparr>)) = length (chans d)"
  by (simp add: chans_upd)

lemma length_cd_upd [simp]: "length (chans (chan_upd i f d)) = length (chans d)"
  by (simp add: chans_upd)

lemma recv_dp_ok:
  assumes ok: "device_ok d" and v: "\<And>n. snd dp = PROP_VALUE n \<Longrightarrow> int32 n"
  shows "goes_on (recv_dp dp d)"
proof -
  obtain dp0 v where dp: "dp = (dp0, v)" by (cases dp)
  show ?thesis
  proof (cases v)
    case (PROP_BOOL b)
    show ?thesis
    proof (cases rule: found_channel [OF ok, of "\<lambda>c. uint dp0 = dpid c"])
      case 1
      then show ?thesis using ok by (simp add: dp PROP_BOOL recv_dp_def hw_set_channel_by_dpid_def)
    next
      case (2 j)
      obtain L where L: "hw_set_channel (int j) b d = Ret ((chan_upd j (\<lambda>c. c\<lparr>stat := b\<rparr>) d)\<lparr>dev_leds := L\<rparr>)"
        "device_ok ((chan_upd j (\<lambda>c. c\<lparr>stat := b\<rparr>) d)\<lparr>dev_leds := L\<rparr>)" (is "device_ok ?d")
        by (rule set_channel_ok [OF ok 2(2)])
      have j: "j < length (chans ?d)" using 2(2) by (simp add: chans_upd)
      note r = channel_reports [OF L(2) j]
      have "goes_on (report 30 (dp_text (dpid (chans ?d ! j)) (bool_text (stat (chans ?d ! j)))) ?d)"
        by (rule goes_on_report [OF L(2)]) (use r(1) in \<open>rule less_trans\<close>, simp)
      then have "goes_on (c_then (report 30 (dp_text (dpid (chans ?d ! j)) (bool_text (stat (chans ?d ! j)))) ?d) (\<lambda>d2.
          if is_count_down d2 \<and> 0 \<le> cd_sec (chans ?d ! j)
          then report 30 (dp_text (cd_dpid (chans ?d ! j)) ''0'') (chan_upd j (\<lambda>c. c\<lparr>cd_sec := -1\<rparr>) d2) else Ret d2))"
        by (rule goes_on_then) (use r(2) in \<open>auto intro!: goes_on_report\<close>)
      then show ?thesis
        using 2(1) L(1) by (simp add: dp PROP_BOOL recv_dp_def hw_set_channel_by_dpid_def chan_at_ok [OF j] cong: if_cong)
    qed
  next
    case (PROP_VALUE n)
    have n: "int32 n" using v by (simp add: dp PROP_VALUE)
    show ?thesis
    proof (cases rule: found_channel [OF ok, of "\<lambda>c. uint dp0 = cd_dpid c"])
      case 1
      then show ?thesis using ok by (simp add: dp PROP_VALUE recv_dp_def hw_find_channel_by_cd_dpid_def)
    next
      case (2 j)
      note r = channel_reports [OF ok 2(2)]
      show ?thesis using 2(1) ok n r(2) r(3) [OF n]
        by (auto simp: dp PROP_VALUE recv_dp_def hw_find_channel_by_cd_dpid_def chan_at_ok [OF 2(2)] intro!: goes_on_report)
    qed
  qed (use ok in \<open>simp_all add: dp recv_dp_def\<close>)
qed

lemma cd_channel_ok:
  assumes ok: "device_ok d" and i: "i < length (chans d)"
  shows "\<exists>d1. cd_channel i (chans d ! i) d = Ret d1 \<and> device_ok d1 \<and> length (chans d1) = length (chans d)"
proof -
  let ?c = "chans d ! i" let ?left = "cd_sec ?c - 1"
  show ?thesis
  proof (cases "cd_sec ?c < 0")
    case True
    then show ?thesis using ok by (simp add: cd_channel_def)
  next
    case False
    have n: "int32 ?left" using device_channel [OF ok i] False by (simp add: channel_typed_def int32_def)
    let ?d = "chan_upd i (\<lambda>c. c\<lparr>cd_sec := ?left\<rparr>) d"
    have ok1: "device_ok ?d" by (rule device_ok_cd [OF n ok])
    show ?thesis
    proof (cases "?left \<le> 0")
      case True
      have i1: "i < length (chans ?d)" using i by simp
      obtain L where L: "hw_trig_channel (int i) ?d =
          Ret ((chan_upd i (\<lambda>c. c\<lparr>stat := \<not> stat (chans ?d ! i)\<rparr>) ?d)\<lparr>dev_leds := L\<rparr>)"
        "device_ok ((chan_upd i (\<lambda>c. c\<lparr>stat := \<not> stat (chans ?d ! i)\<rparr>) ?d)\<lparr>dev_leds := L\<rparr>)" (is "device_ok ?d2")
        by (rule trig_channel_ok [OF ok1 i1])
      have j: "i < length (chans ?d2)" using i by simp
      note r = channel_reports [OF L(2) j]
      let ?r1 = "reports ?d2 @ [dp_text (dpid (chans ?d2 ! i)) (bool_text (stat (chans ?d2 ! i)))]"
      let ?d4 = "?d2\<lparr>reports := ?r1 @ [dp_text (cd_dpid (chans ?d2 ! i)) ''0'']\<rparr>"
      have "cd_channel i ?c d = Ret (chan_upd i (\<lambda>c. c\<lparr>cd_sec := -1\<rparr>) ?d4)"
        using False True L(1) r(1,2) by (simp add: cd_channel_def Let_def chan_at_ok [OF j] report_fits)
      moreover have "device_ok (chan_upd i (\<lambda>c. c\<lparr>cd_sec := -1\<rparr>) ?d4)"
        by (rule device_ok_cd) (use L(2) in simp_all)
      ultimately show ?thesis by simp
    next
      case pos: False
      show ?thesis
      proof (cases "?left mod 30 = 0")
        case True
        have "length (dp_text (cd_dpid ?c) (dec ?left)) < 20" using channel_reports(4) [OF ok i n] pos by simp
        then show ?thesis using False pos True ok1 by (simp add: cd_channel_def Let_def report_fits)
      next
        case notm: False
        show ?thesis using False pos notm ok1 by (simp add: cd_channel_def Let_def)
      qed
    qed
  qed
qed

lemma countdown_ok: "device_ok d \<Longrightarrow> goes_on (cd_timer_cb d)"
  unfolding cd_timer_cb_def
  by (rule goes_on_each) (use cd_channel_ok in \<open>fastforce simp: goes_on_def\<close>)+

lemma boot_ok: "device_ok d \<Longrightarrow> goes_on (Start_boot_up d)"
  unfolding Start_boot_up_def
proof (rule goes_on_each)
  fix i d assume ok: "device_ok d" and i: "i < length (chans d)"
  let ?c = "chans d ! i"
  note r = channel_reports [OF ok i]
  let ?d1 = "d\<lparr>reports := reports d @ [dp_text (dpid ?c) (bool_text (stat ?c))]\<rparr>"
  have r1: "report 30 (dp_text (dpid ?c) (bool_text (stat ?c))) d = Ret ?d1" by (rule report_fits) (rule less_trans [OF r(1)], simp)
  have r2: "report 30 (dp_text (cd_dpid ?c) ''0'') x = Ret (x\<lparr>reports := reports x @ [dp_text (cd_dpid ?c) ''0'']\<rparr>)" for x
    by (rule report_fits) (rule less_trans [OF r(2)], simp)
  have ok1: "device_ok (chan_upd i (\<lambda>c. c\<lparr>cd_sec := -1\<rparr>) ?d1)" by (rule device_ok_cd) (use ok in simp_all)
  show "goes_on (c_then (report 30 (dp_text (dpid ?c) (bool_text (stat ?c))) d) (\<lambda>d1.
      if is_count_down d1 then report 30 (dp_text (cd_dpid ?c) ''0'') (chan_upd i (\<lambda>c. c\<lparr>cd_sec := -1\<rparr>) d1) else Ret d1))"
    using ok ok1 by (simp add: r1 r2)
  fix d1 assume "c_then (report 30 (dp_text (dpid ?c) (bool_text (stat ?c))) d) (\<lambda>d1.
      if is_count_down d1 then report 30 (dp_text (cd_dpid ?c) ''0'') (chan_upd i (\<lambda>c. c\<lparr>cd_sec := -1\<rparr>) d1) else Ret d1) = Ret d1"
  then show "length (chans d1) = length (chans d)" by (auto simp: r1 r2 split: if_splits)
qed

lemma wifi_goes_on: "device_ok d \<Longrightarrow> goes_on (set_light (wifi_stat_led_handle (g_hw_table d)) t ms dur d)"
proof -
  assume ok: "device_ok d"
  then have st: "dev_static d" and di: "displays d (\<lambda>i. stat (chans d ! i)) (\<lambda>i. is_connected d \<and> stat (chans d ! i))"
    by (simp_all add: device_ok_def)
  obtain L where "set_light (wifi_stat_led_handle (g_hw_table d)) t ms dur d = Ret (d\<lparr>dev_leds := L\<rparr>)"
    "dev_static (d\<lparr>dev_leds := L\<rparr>)" "displays (d\<lparr>dev_leds := L\<rparr>) (\<lambda>i. stat (chans d ! i)) (\<lambda>i. is_connected d \<and> stat (chans d ! i))"
    by (rule wifi_set_ok [OF st di])
  then show ?thesis by (simp add: goes_on_def device_ok_def)
qed

lemma connected_upd [simp]:
  "dev_static (d\<lparr>is_connected := b\<rparr>) = dev_static d" "displays (d\<lparr>is_connected := b\<rparr>) on lit = displays d on lit"
  "chans (d\<lparr>is_connected := b\<rparr>) = chans d"
  by (simp_all add: dev_static_def displays_def chans_def)

lemma off_only_leds:
  "device_ok d \<Longrightarrow> \<exists>d1. sync_led_and_relay_unconnected (d\<lparr>is_connected := False\<rparr>) = Ret d1 \<and>
     only_leds (d\<lparr>is_connected := False\<rparr>) d1 \<and> device_ok d1"
proof -
  assume ok: "device_ok d"
  let ?d = "d\<lparr>is_connected := False\<rparr>"
  have "dev_static ?d" "displays ?d (\<lambda>i. stat (chans ?d ! i)) (\<lambda>i. is_connected d \<and> stat (chans d ! i))"
    using ok by (simp_all add: device_ok_def)
  from sync_off [OF this] obtain d1 where d1: "sync_led_and_relay_unconnected ?d = Ret d1" "only_leds ?d d1" "dev_static d1"
    "displays d1 (\<lambda>i. stat (chans ?d ! i)) (\<lambda>_. False)" by blast
  then show ?thesis using only_ledsD [OF d1(2)] by (auto simp: device_ok_def)
qed

lemma off_goes_on: "device_ok d \<Longrightarrow> goes_on (sync_led_and_relay_unconnected (d\<lparr>is_connected := False\<rparr>))"
  using off_only_leds by (auto simp: goes_on_def)

lemma on_only_leds:
  "device_ok d \<Longrightarrow> \<exists>d1. sync_led_and_relay_connected (d\<lparr>is_connected := True\<rparr>) = Ret d1 \<and>
     only_leds (d\<lparr>is_connected := True\<rparr>) d1 \<and> device_ok d1"
proof -
  assume ok: "device_ok d"
  let ?d = "d\<lparr>is_connected := True\<rparr>"
  have "dev_static ?d" "displays ?d (\<lambda>i. stat (chans ?d ! i)) (\<lambda>i. is_connected d \<and> stat (chans d ! i))"
    using ok by (simp_all add: device_ok_def)
  from sync_on [OF this] obtain d1 where d1: "sync_led_and_relay_connected ?d = Ret d1" "only_leds ?d d1" "dev_static d1"
    "displays d1 (\<lambda>i. stat (chans ?d ! i)) (\<lambda>i. stat (chans ?d ! i))" by auto
  then show ?thesis using only_ledsD [OF d1(2)] by (auto simp: device_ok_def)
qed

lemma on_goes_on: "device_ok d \<Longrightarrow> goes_on (sync_led_and_relay_connected (d\<lparr>is_connected := True\<rparr>))"
  using on_only_leds by (auto simp: goes_on_def)

lemma network_ok: "device_ok d \<Longrightarrow> goes_on (hw_set_wifi_led_stat st d)"
  by (cases st) (simp_all add: hw_set_wifi_led_stat_def wifi_light_def Let_def goes_on_then off_goes_on on_goes_on wifi_goes_on boot_ok)

lemma key_process_ok:
  assumes ok: "device_ok d"
  shows "goes_on (key_process port tp cnt d)"
proof (cases "key_port (rst_button (g_hw_table d)) = port \<and> tp = NORMAL_KEY")
  case True
  have i: "0 < length (chans d)" using ok by (simp add: device_ok_def dev_static_def)
  obtain L where L0: "hw_trig_channel (int 0) d = Ret ((chan_upd 0 (\<lambda>c. c\<lparr>stat := \<not> stat (chans d ! 0)\<rparr>) d)\<lparr>dev_leds := L\<rparr>)"
    "device_ok ((chan_upd 0 (\<lambda>c. c\<lparr>stat := \<not> stat (chans d ! 0)\<rparr>) d)\<lparr>dev_leds := L\<rparr>)" (is "device_ok ?d")
    by (rule trig_channel_ok [OF ok i])
  have z: "hw_trig_channel 0 d = Ret ?d" using L0(1) unfolding int_ops(1) .
  have j: "0 < length (chans ?d)" using i by simp
  note r = channel_reports [OF L0(2) j]
  let ?c = "chans ?d ! 0"
  let ?d2 = "?d\<lparr>reports := reports ?d @ [dp_text (dpid ?c) (bool_text (stat ?c))]\<rparr>"
  have r1: "report 30 (dp_text (dpid ?c) (bool_text (stat ?c))) ?d = Ret ?d2" by (rule report_fits) (rule less_trans [OF r(1)], simp)
  have r2: "report 30 (dp_text (cd_dpid ?c) ''0'') x = Ret (x\<lparr>reports := reports x @ [dp_text (cd_dpid ?c) ''0'']\<rparr>)" for x
    by (rule report_fits) (rule less_trans [OF r(2)], simp)
  have ok2: "device_ok ?d2" using L0(2) by simp
  have "key_process port tp cnt d = (if cd_sec ?c \<noteq> -1
      then Ret (chan_upd 0 (\<lambda>c. c\<lparr>cd_sec := -1\<rparr>) (?d2\<lparr>reports := reports ?d2 @ [dp_text (cd_dpid ?c) ''0'']\<rparr>)) else Ret ?d2)"
    by (simp only: key_process_def conjunct1 [OF True] conjunct2 [OF True] push_key_type.case simp_thms if_True if_False
        z c_then_simps chan_at_0 [OF j] r1 r2)
  then show ?thesis using ok2 by simp
next
  case False
  then show ?thesis using ok by (cases tp) (auto simp: key_process_def)
qed

text \<open>The buttons.\<close>

definition calls_back :: "key_event \<Rightarrow> bool" where
  "calls_back ev = (case ev of Key_Event f port tp cnt \<Rightarrow> f \<noteq> None)"

lemma key_events_call:
  "call_back (kud e) \<noteq> None \<Longrightarrow> ev \<in> set (snd (key_ent_proc space press e)) \<Longrightarrow> calls_back ev"
  by (cases "status e") (auto simp: key_ent_proc_def key_states key_call_def calls_back_def Let_def split: if_splits)

lemma proc_all_ok:
  "list_all (\<lambda>e. call_back (kud e) \<noteq> None) es \<Longrightarrow>
     map kud (fst (key_proc_all space g es)) = map kud es \<and> list_all calls_back (snd (key_proc_all space g es))"
proof (induction es)
  case (Cons e es)
  have "kud (fst (key_ent_proc space (tuya_key_down_verify g e) e)) = kud e" by simp
  moreover have "list_all calls_back (snd (key_ent_proc space (tuya_key_down_verify g e) e))"
    unfolding list_all_iff using Cons.prems by (intro ballI key_events_call) simp_all
  ultimately show ?case using Cons by (simp add: case_prod_unfold)
qed simp

lemma keys_ok_cong: "map kud (lst km1) = map kud (lst km) \<Longrightarrow> keys_ok km1 = keys_ok km"
proof -
  assume "map kud (lst km1) = map kud (lst km)"
  then have "map key_port (map kud (lst km1)) = map key_port (map kud (lst km))"
    "list_all (\<lambda>u. call_back u \<noteq> None) (map kud (lst km1)) = list_all (\<lambda>u. call_back u \<noteq> None) (map kud (lst km))" by simp_all
  then show ?thesis by (simp add: keys_ok_def list.pred_map comp_def)
qed

lemma key_handle_ok:
  assumes "p_tbl km = []" "keys_ok km"
  shows "p_tbl (fst (key_handle g km)) = [] \<and> keys_ok (fst (key_handle g km)) \<and> list_all calls_back (snd (key_handle g km))"
proof -
  obtain es evs where p: "key_proc_all (timer_space km) g (lst km) = (es, evs)" by fastforce
  have "map kud es = map kud (lst km)" "list_all calls_back evs"
    using proc_all_ok [of "lst km" "timer_space km" g] assms(2) by (simp_all add: p keys_ok_def)
  then show ?thesis using assms keys_ok_cong [of "km\<lparr>p_tbl := [], lst := es\<rparr>" km] by (simp add: key_handle_def p)
qed

lemma keys_upd:
  "device_ok d \<Longrightarrow> p_tbl km = [] \<Longrightarrow> keys_ok km \<Longrightarrow> device_ok (d\<lparr>dev_keys := Some km\<rparr>)"
  by (simp add: device_ok_def dev_static_def displays_def chans_def)

lemma callback_ok: "device_ok d \<Longrightarrow> calls_back ev \<Longrightarrow> goes_on (key_callback ev d)"
  by (cases ev) (auto simp: key_callback_def calls_back_def key_process_ok)

lemma buttons_ok: "device_ok d \<Longrightarrow> goes_on (key_timer g d)"
proof (cases "dev_keys d")
  case (Some km)
  assume ok: "device_ok d"
  then have km: "p_tbl km = []" "keys_ok km" using Some by (simp_all add: device_ok_def dev_static_def)
  obtain km1 evs where h: "key_handle g km = (km1, evs)" by fastforce
  have "p_tbl km1 = []" "keys_ok km1" "list_all calls_back evs" using key_handle_ok [OF km, of g] by (simp_all add: h)
  then show ?thesis
    using keys_upd [OF ok] callback_ok by (auto simp: key_timer_def Some h list_all_iff intro!: goes_on_steps)
qed (simp add: key_timer_def)

text \<open>The lights' timer does not touch steady lights.\<close>

lemma light_timer_same:
  assumes "light_shows L io h lit" "lights L1 = map (apsnd light_tick) (lights L)"
  shows "light_shows L1 io h lit"
proof (cases "io_type io = IO_DRIVE_LEVEL_NOT_EXIST")
  case False
  then obtain a b where ab: "h = Some a" "(a, b, active_level io lit) \<in> set (lights L)" "led_port b = io_pin io"
    "led_type b = OL_HIGH \<or> led_type b = OL_LOW"
    using assms(1) by (auto simp: light_shows_def)
  have "light_tick (b, active_level io lit) = (b, active_level io lit)" using ab(4) by (intro light_rest) auto
  then have "(a, b, active_level io lit) \<in> set (lights L1)" unfolding assms(2) using ab(2) by force
  with ab show ?thesis by (auto simp: light_shows_def)
qed (simp add: light_shows_def)

lemma leds_step_ok: "device_ok d \<Longrightarrow> goes_on (led_timer_step d)"
proof -
  assume ok: "device_ok d"
  then have st: "dev_static d" and leds: "leds_ok (led_cntl_list (dev_leds d))" by (simp_all add: device_ok_def dev_static_def)
  obtain L where L: "led_timer_cb (dev_leds d) = Ret L" "lights L = map (apsnd light_tick) (lights (dev_leds d))"
    "leds_ok (led_cntl_list L)"
    "\<forall>q. app_pin q \<longrightarrow> q \<notin> (led_port \<circ> snd) ` set (led_cntl_list (dev_leds d)) \<longrightarrow> level (led_regs L) q = level (led_regs (dev_leds d)) q"
    "map (\<lambda>(a, c). (a, led_port c)) (led_cntl_list L) = map (\<lambda>(a, c). (a, led_port c)) (led_cntl_list (dev_leds d))"
    by (rule timer_lights [OF leds])
  have "displays (d\<lparr>dev_leds := L\<rparr>) on lit" if "displays d on lit" for on lit
    using that relay_frame [OF _ L(5,4)] light_timer_same [OF _ L(2)] by (simp add: displays_def)
  with ok static_leds [OF st L(3,5)] L(1) show ?thesis by (simp add: led_timer_step_def goes_on_def device_ok_def)
qed

fun event_typed :: "dev_event \<Rightarrow> bool" where
  "event_typed (Dev_Dps dps) = list_all (\<lambda>(_, v). case v of PROP_VALUE n \<Rightarrow> int32 n | _ \<Rightarrow> True) dps"
| "event_typed _ = True"

lemma step_ok:
  assumes ok: "device_ok d" and ev: "event_typed ev"
  shows "goes_on (dev_step ev d)"
proof (cases ev)
  case (Dev_Dps dps)
  have "goes_on (c_steps recv_dp dps d)"
    by (rule goes_on_steps [OF ok]) (use ev in \<open>auto simp: Dev_Dps list_all_iff intro!: recv_dp_ok split: dp_value.splits\<close>)
  then show ?thesis by (simp add: Dev_Dps dev_obj_dp_cb_def)
qed (use ok in \<open>simp_all add: countdown_ok leds_step_ok buttons_ok network_ok\<close>)

end
