(* ===== verification/Device_Run.thy ===== *)
theory Device_Run
  imports Tuya_Device
begin

text \<open>
  The start of the sample device, and what the device does from there: no callback faults, relays and lights follow the
  channels, countdowns end when they should, and the button does what it is for.
\<close>

section \<open>The start\<close>

definition led_env_ok :: "led_env \<Rightarrow> bool" where
  "led_env_ok env \<longleftrightarrow> led_mutex_ret env = OPRT_OK \<and> fst (led_add_timer env) = OPRT_OK \<and>
     snd (led_add_timer env) \<noteq> LED_TIMER_UNINIT \<and> led_start_timer env = OPRT_OK"

text \<open>All calls succeed, and the two blocks allocated for lights are different.\<close>

definition all_succeed :: "dev_env \<Rightarrow> bool" where
  "all_succeed env \<longleftrightarrow> soc_init_ret env = OPRT_OK \<and> nw_cb_ret env = OPRT_OK \<and> cd_timer_ret env = OPRT_OK \<and>
     memory_timer_ret env = OPRT_OK \<and>
     (let h = dev_hw_env env; k = hw_key_env h in
        led_env_ok (wifi_led_env h) \<and> mag_malloc k \<and> mutex_ret k = 0 \<and> add_timer_ret k = 0 \<and> start_timer_ret k = 0 \<and>
        reset_key_malloc h \<and> led_malloc (wifi_led_env h) \<noteq> None \<and> led_malloc (chan_led_env h 0) \<noteq> None \<and>
        led_malloc (wifi_led_env h) \<noteq> led_malloc (chan_led_env h 0))"

lemma sample_pins: "app_pin 8" "app_pin 28" "app_pin 25" "app_pin 19"
  by (simp_all add: app_pin_def)

lemma light_created:
  assumes "led_env_ok env \<or> led_mutex s \<and> led_timer s \<noteq> LED_TIMER_UNINIT" "led_malloc env = Some a" "app_pin p"
  shows "\<exists>s1. tuya_create_led_handle env p high h s = Ret (OPRT_OK, Some a, s1) \<and> led_mutex s1 \<and> led_timer s1 \<noteq> LED_TIMER_UNINIT \<and>
    led_cntl_list s1 = (a, led_new p) # led_cntl_list s \<and>
    (\<forall>q. app_pin q \<longrightarrow> level (led_regs s1) q = (if q = p then high else level (led_regs s) q))"
proof -
  obtain s0 where s0: "led_prepare env s = (OPRT_OK, s0)" "led_mutex s0" "led_timer s0 \<noteq> LED_TIMER_UNINIT"
    "led_cntl_list s0 = led_cntl_list s" "led_regs s0 = led_regs s"
    using assms(1) by (cases "led_mutex s"; cases "led_timer s = LED_TIMER_UNINIT") (auto simp: led_prepare_def led_env_ok_def Let_def)
  obtain r1 where r1: "tuya_gpio_inout_set p False (led_regs s0) = Ret r1"
    "\<forall>q. app_pin q \<longrightarrow> level r1 q = (if q = p then False else level (led_regs s0) q)" by (rule level_inout [OF assms(3)])
  obtain r2 where r2: "tuya_gpio_write p high r1 = Ret r2"
    "\<forall>q. app_pin q \<longrightarrow> level r2 q = (if q = p then high else level r1 q)" by (rule level_write [OF assms(3)])
  show ?thesis using s0 r1 r2 assms(2) by (auto simp: tuya_create_led_handle_def Let_def)
qed

definition sample_channel :: "nat \<Rightarrow> ctrl_channel" where
  "sample_channel a = (channels_start ! 0)\<lparr>led_handle := Some a, cd_sec := -1\<rparr>"

text \<open>The sample device after a start that went well: the table, the reset button, and the outputs.\<close>

lemma device_starts:
  assumes "all_succeed env"
  obtains d where "device_init env (device_start r) = Ret (OPRT_OK, d)" "device_ok d" "\<not> is_connected d"
    "\<exists>a. chans d = [sample_channel a]" "rst_button (g_hw_table d) = rst_button hw_table_start" "unactive_calls d = 0"
    "dev_keys d = Some \<lparr>p_tbl = [], timer_space = 20, lst = [key_new (rst_button hw_table_start)]\<rparr>" "is_count_down d" "reports d = []"
proof -
  let ?h = "dev_hw_env env" let ?k = "hw_key_env ?h"
  obtain w a where e: "led_env_ok (wifi_led_env ?h)" "led_malloc (wifi_led_env ?h) = Some w" "led_malloc (chan_led_env ?h 0) = Some a" "w \<noteq> a"
    using assms by (auto simp: all_succeed_def Let_def)
  obtain s1 where s1: "tuya_create_led_handle (wifi_led_env ?h) 8 False None (led_start r) = Ret (OPRT_OK, Some w, s1)"
    "led_mutex s1" "led_timer s1 \<noteq> LED_TIMER_UNINIT" "led_cntl_list s1 = [(w, led_new 8)]"
    "\<forall>q. app_pin q \<longrightarrow> level (led_regs s1) q = (if q = 8 then False else level (led_regs (led_start r)) q)"
    using light_created [OF disjI1 [OF e(1)] e(2) sample_pins(1), of False None "led_start r"] by (auto simp: led_start_def)
  obtain r2 where r2: "tuya_gpio_inout_set 19 True (led_regs s1) = Ret r2"
    "\<forall>q. app_pin q \<longrightarrow> level r2 q = (if q = 19 then False else level (led_regs s1) q)"
    by (rule level_inout [OF sample_pins(4)])
  let ?s2 = "s1\<lparr>led_regs := r2\<rparr>"
  obtain s3 where s3: "tuya_create_led_handle (chan_led_env ?h 0) 28 True None ?s2 = Ret (OPRT_OK, Some a, s3)"
    "led_cntl_list s3 = [(a, led_new 28), (w, led_new 8)]"
    "\<forall>q. app_pin q \<longrightarrow> level (led_regs s3) q = (if q = 28 then True else level r2 q)"
    using light_created [OF _ e(3) sample_pins(2), of ?s2 True None] s1(2,3,4) by auto
  obtain r4 where r4: "tuya_gpio_inout_set 25 False (led_regs s3) = Ret r4"
    "\<forall>q. app_pin q \<longrightarrow> level r4 q = (if q = 25 then False else level (led_regs s3) q)"
    by (rule level_inout [OF sample_pins(3)])
  let ?L = "s3\<lparr>led_regs := r4\<rparr>"
  let ?km = "\<lparr>p_tbl = [], timer_space = 20, lst = [key_new (rst_button hw_table_start)]\<rparr>"
  define d where "d = \<lparr>g_hw_table = hw_table_start\<lparr>wifi_stat_led_handle := Some w, channel_num := 1, channels := [sample_channel a]\<rparr>,
    is_connected = False, dev_leds = ?L, dev_keys = Some ?km, reports = [], unactive_calls = 0, is_count_down = True\<rparr>"
  have w: "create_light (wifi_led_env ?h) (wifi_stat_led hw_table_start) True None (device_start r) =
      Ret (OPRT_OK, Some w, (device_start r)\<lparr>dev_leds := s1\<rparr>)"
    using s1(1) by (simp add: create_light_def hw_table_start_def device_start_def)
  have k: "key_init ?k [] KEY_TIMER_MS None = (KEY_OK, Some \<lparr>p_tbl = [], timer_space = 20, lst = []\<rparr>)"
    using assms by (simp add: all_succeed_def Let_def key_init_def KEY_TIMER_MS_def TIMER_SPACE_MAX_def KEY_OK_def)
  have reg: "reg_proc_key True (\<lambda>_. KEY_OK) (Some (rst_button hw_table_start)) \<lparr>p_tbl = [], timer_space = 20, lst = []\<rparr> = (KEY_OK, ?km)"
    by (simp add: reg_proc_key_def hw_table_start_def)
  have chan: "create_light (chan_led_env ?h 0) (led (channels_start ! 0)) False None x = Ret (OPRT_OK, Some a, x\<lparr>dev_leds := s3\<rparr>)"
    if "dev_leds x = ?s2" for x
    using s3(1) that by (simp add: create_light_def channels_start_def)
  define d2 where "d2 = \<lparr>g_hw_table = hw_table_start\<lparr>wifi_stat_led_handle := Some w, channel_num := 1\<rparr>,
    is_connected = False, dev_leds = ?s2, dev_keys = Some ?km, reports = [], unactive_calls = 0, is_count_down = True\<rparr>"
  have init0: "init_channel ?h 0 d2 = Ret (OPRT_OK, d)"
  proof -
    have at: "chan_at (int 0) d2 = Ret (channels_start ! 0)" by (simp add: chan_at_def d2_def hw_table_start_def channels_start_def)
    have c: "led_handle (channels_start ! 0) = None" "call_back (button (channels_start ! 0)) = None"
      "io_type (relay (channels_start ! 0)) = IO_DRIVE_LEVEL_HIGH" "io_pin (relay (channels_start ! 0)) = 25"
      by (simp_all add: channels_start_def)
    have l: "dev_leds d2 = ?s2" by (simp add: d2_def)
    show ?thesis
      unfolding init_channel_def at c_then_simps c chan [OF l] if_ok_def
      by (simp add: r4(1) chan_upd_def hw_upd_def d2_def d_def hw_table_start_def sample_channel_def c channels_start_def)
  qed
  have "init_hw ?h (device_start r) = Ret (OPRT_OK, d)"
  proof -
    have t: "wifi_stat_led (g_hw_table (device_start r)) = wifi_stat_led hw_table_start"
      "wifi_stat_led_handle (g_hw_table (device_start r)) = None" by (simp_all add: device_start_def hw_table_start_def)
    have m: "reset_key_malloc ?h" using assms by (simp add: all_succeed_def Let_def)
    define d1 where "d1 = hw_upd (\<lambda>t. t\<lparr>wifi_stat_led_handle := Some w\<rparr>) ((device_start r)\<lparr>dev_leds := s1\<rparr>)"
    define d1k where "d1k = d1\<lparr>dev_keys := Some \<lparr>p_tbl = [], timer_space = 20, lst = []\<rparr>\<rparr>"
    define d1r where "d1r = d1\<lparr>dev_leds := ?s2, dev_keys := Some ?km\<rparr>"
    have k1: "key_init ?k [] KEY_TIMER_MS (dev_keys d1) = (KEY_OK, Some \<lparr>p_tbl = [], timer_space = 20, lst = []\<rparr>)"
      using k by (simp add: d1_def hw_upd_def device_start_def)
    have b: "rst_button (g_hw_table d1k) = rst_button hw_table_start" by (simp add: d1k_def d1_def hw_upd_def device_start_def)
    have p: "of_nat (key_port (rst_button hw_table_start)) = (19 :: u32)" "call_back (rst_button hw_table_start) \<noteq> None"
      by (simp_all add: hw_table_start_def)
    have reg1: "register_key True (rst_button hw_table_start) d1k = Ret (KEY_OK, d1r)"
      using reg r2(1) p(1) by (simp add: register_key_def d1k_def d1r_def d1_def hw_upd_def device_start_def)
    have d2: "hw_upd (\<lambda>t. t\<lparr>channel_num := int (length (channels t))\<rparr>) d1r = d2"
      by (simp add: hw_upd_def device_start_def d1r_def d1_def d2_def hw_table_start_def channels_start_def)
    have n: "length (channels (g_hw_table d1r)) = 1"
      by (simp add: d1r_def d1_def hw_upd_def device_start_def hw_table_start_def channels_start_def)
    have u: "[0..<1] = [0]" by simp
    have ok0: "OPRT_OK = 0" "KEY_OK = 0" by (simp_all add: OPRT_OK_def KEY_OK_def)
    show ?thesis
      unfolding init_hw_def t w c_then_simps if_ok_def prod.case d1_def [symmetric] k1 d1k_def [symmetric] b ok0
      using p(2) by (simp add: m reg1 d2 n u init0 if_ok_def ok0)
  qed
  then have "device_init env (device_start r) = Ret (OPRT_OK, d)"
    using assms by (simp add: device_init_def all_succeed_def d_def Let_def)
  moreover have "device_ok d"
  proof -
    have lv: "level r4 8 = False" "level r4 28 = True" "level r4 25 = False"
      using r2(2) s3(3) r4(2) s1(5) sample_pins by simp_all
    have "leds_ok (led_cntl_list ?L)" using s3(2) e(4) sample_pins by (simp add: leds_ok_def led_new_def)
    moreover have "lights ?L = [(a, led_new 28, True), (w, led_new 8, False)]"
      using s3(2) lv by (simp add: lights_def led_new_def)
    ultimately show ?thesis
      using s3(2) lv e(4) sample_pins
      by (auto simp: device_ok_def dev_static_def displays_def chans_def d_def sample_channel_def channels_start_def
          hw_table_start_def channel_typed_def short_dpid_def int32_def relay_shows_def light_shows_def active_level_def
          led_new_def keys_ok_def key_new_def)
  qed
  ultimately show thesis by (intro that [of d]) (auto simp: d_def chans_def)
qed

end
