(* ===== verification/Sample_Spec.thy ===== *)
theory Sample_Spec
  imports Device_Run
begin

text \<open>
  What the sample device is to its user, as a small state machine without pins, tables and timers; every callback of the
  device model refines a step of it, so its runs are those of the machine.
\<close>

section \<open>The sample device without its hardware\<close>

text \<open>
  What the sample device is to its user: whether the network is there, whether the switch is on, the seconds of the countdown
  (negative for none), what it has told the cloud, how often the button was held, and the state of the button.
\<close>

record sample =
  online :: bool
  on :: bool
  left :: int
  said :: "string list"
  held :: nat
  key :: key_entity

definition sample_start :: sample where
  "sample_start = \<lparr>online = False, on = False, left = -1, said = [], held = 0, key = key_new (rst_button hw_table_start)\<rparr>"

definition say :: "string \<Rightarrow> sample \<Rightarrow> sample" where
  "say text s = s\<lparr>said := said s @ [text]\<rparr>"

definition say_switch :: "sample \<Rightarrow> sample" where
  "say_switch s = say (dp_text 1 (bool_text (on s))) s"

definition end_countdown :: "sample \<Rightarrow> sample" where
  "end_countdown s = say (dp_text 9 ''0'') (s\<lparr>left := -1\<rparr>)"

definition sample_command :: "dp_cmd \<Rightarrow> sample \<Rightarrow> sample" where
  "sample_command dp s =
     (case dp of
        (n, PROP_BOOL b) \<Rightarrow>
          if n = 1 then (let s1 = say_switch (s\<lparr>on := b\<rparr>) in if 0 \<le> left s then end_countdown s1 else s1) else s
      | (n, PROP_VALUE i) \<Rightarrow>
          if n = 9 then (if i = 0 then end_countdown s else say (dp_text 9 (dec i)) (s\<lparr>left := i\<rparr>)) else s
      | _ \<Rightarrow> s)"

definition sample_second :: "sample \<Rightarrow> sample" where
  "sample_second s =
     (if left s < 0 then s
      else if left s \<le> 1 then end_countdown (say_switch (s\<lparr>on := \<not> on s\<rparr>))
      else
        (let s1 = s\<lparr>left := left s - 1\<rparr> in
         if left s1 mod 30 = 0 then say (dp_text 9 (dec (left s1))) s1 else s1))"

definition sample_network :: "nw_stat \<Rightarrow> sample \<Rightarrow> sample" where
  "sample_network st s =
     (if st = STAT_LOW_POWER then s
      else if st \<in> {STAT_CLOUD_CONN, STAT_AP_CLOUD_CONN} then end_countdown (say_switch (s\<lparr>online := True\<rparr>))
      else s\<lparr>online := st \<in> {STAT_STA_CONN, STAT_AP_STA_CONN}\<rparr>)"

definition sample_button :: "push_key_type \<Rightarrow> sample \<Rightarrow> sample" where
  "sample_button tp s =
     (case tp of
        NORMAL_KEY \<Rightarrow> (let s1 = say_switch (s\<lparr>on := \<not> on s\<rparr>) in if left s \<noteq> -1 then end_countdown s1 else s1)
      | LONG_KEY \<Rightarrow> s\<lparr>held := held s + 1\<rparr>
      | SEQ_KEY \<Rightarrow> s)"

definition sample_keys :: "(nat \<Rightarrow> int) \<Rightarrow> sample \<Rightarrow> sample" where
  "sample_keys gpio_read s =
     (case key_ent_proc 20 (gpio_read 19 = 0) (key s) of (e, evs) \<Rightarrow> fold (sample_button \<circ> ev_type) evs (s\<lparr>key := e\<rparr>))"

fun sample_step :: "dev_event \<Rightarrow> sample \<Rightarrow> sample" where
  "sample_step (Dev_Dps dps) s = fold sample_command dps s"
| "sample_step Dev_Countdown s = sample_second s"
| "sample_step Dev_Leds s = s"
| "sample_step (Dev_Keys gpio_read) s = sample_keys gpio_read s"
| "sample_step (Dev_Network st) s = sample_network st s"

text \<open>The device that is in the state \<open>s\<close>, with its light's block at \<open>h\<close>.\<close>

definition in_state :: "nat \<Rightarrow> device \<Rightarrow> sample \<Rightarrow> bool" where
  "in_state h d s \<longleftrightarrow> chans d = [(sample_channel h)\<lparr>cd_sec := left s, stat := on s\<rparr>] \<and> is_connected d = online s \<and>
     reports d = said s \<and> unactive_calls d = held s \<and> is_count_down d \<and> rst_button (g_hw_table d) = rst_button hw_table_start \<and>
     dev_keys d = Some \<lparr>p_tbl = [], timer_space = 20, lst = [key s]\<rparr> \<and> kud (key s) = rst_button hw_table_start"

definition sim :: "device c_run \<Rightarrow> nat \<Rightarrow> sample \<Rightarrow> bool" where
  "sim run h s \<longleftrightarrow> (\<exists>d. run = Ret d \<and> device_ok d \<and> in_state h d s)"

lemma sim_Ret [simp]: "sim (Ret d) h s \<longleftrightarrow> device_ok d \<and> in_state h d s"
  by (simp add: sim_def)

lemma sim_then: "sim run h s \<Longrightarrow> (\<And>d. device_ok d \<Longrightarrow> in_state h d s \<Longrightarrow> sim (f d) h t) \<Longrightarrow> sim (c_then run f) h t"
  by (auto simp: sim_def)

lemma in_state_leds [simp]: "in_state h (d\<lparr>dev_leds := L\<rparr>) s = in_state h d s"
  by (simp add: in_state_def)

lemma in_state_channel:
  assumes "in_state h d s"
  shows "chan_at 0 d = Ret ((sample_channel h)\<lparr>cd_sec := left s, stat := on s\<rparr>)"
  using assms by (simp add: in_state_def chan_at_def chans_def)

lemma sample_channel_simps [simp]:
  "dpid (sample_channel h) = 1" "cd_dpid (sample_channel h) = 9"
  by (simp_all add: sample_channel_def channels_start_def)

lemma in_state_upds:
  assumes "in_state h d s"
  shows "in_state h (d\<lparr>reports := reports d @ [text]\<rparr>) (say text s)"
    "in_state h (chan_upd 0 (\<lambda>c. c\<lparr>cd_sec := n\<rparr>) d) (s\<lparr>left := n\<rparr>)"
    "in_state h (chan_upd 0 (\<lambda>c. c\<lparr>stat := b\<rparr>) d) (s\<lparr>on := b\<rparr>)"
    "in_state h (d\<lparr>is_connected := b\<rparr>) (s\<lparr>online := b\<rparr>)"
  using assms by (auto simp: in_state_def say_def chans_upd)

lemma sim_report:
  assumes "device_ok d" "in_state h d s" "length text < k"
  shows "sim (report k text d) h (say text s)"
  using assms in_state_upds(1) by (simp add: report_fits)

lemma sim_switch:
  assumes "device_ok d" "in_state h d s"
  shows "sim (hw_set_channel 0 b d) h (s\<lparr>on := b\<rparr>)"
proof -
  have "0 < length (chans d)" using assms(2) by (simp add: in_state_def)
  from set_channel_ok [OF assms(1) this, of b] obtain L where
    L: "hw_set_channel (int 0) b d = Ret ((chan_upd 0 (\<lambda>c. c\<lparr>stat := b\<rparr>) d)\<lparr>dev_leds := L\<rparr>)"
      "device_ok ((chan_upd 0 (\<lambda>c. c\<lparr>stat := b\<rparr>) d)\<lparr>dev_leds := L\<rparr>)" .
  then show ?thesis using in_state_upds(3) [OF assms(2)] unfolding int_ops(1) by simp
qed

lemma sim_toggle:
  assumes "device_ok d" "in_state h d s"
  shows "sim (hw_trig_channel 0 d) h (s\<lparr>on := \<not> on s\<rparr>)"
  using sim_switch [OF assms] by (simp add: hw_trig_channel_def in_state_channel [OF assms(2)])

lemma sim_each:
  assumes "device_ok d" "in_state h d s" "sim (step 0 ((sample_channel h)\<lparr>cd_sec := left s, stat := on s\<rparr>) d) h t"
  shows "sim (each_channel step d) h t"
proof -
  have "channel_num (g_hw_table d) = 1" using assms(1,2) by (simp add: device_ok_def dev_static_def in_state_def)
  then show ?thesis using in_state_channel [OF assms(2)] assms(3) by (auto simp: each_channel_def sim_def)
qed

lemma sample_texts:
  "length (dp_text 1 (bool_text b)) < 20" "length (dp_text 9 ''0'') < 20"
  "int32 n \<Longrightarrow> length (dp_text 9 (dec n)) < 30" "int32 n \<Longrightarrow> 0 \<le> n \<Longrightarrow> length (dp_text 9 (dec n)) < 20"
  using texts_fit [of 1] texts_fit [of 9] by (simp_all add: short_dpid_def)

lemma sim_say_switch:
  assumes "device_ok d" "in_state h d s" "20 \<le> k"
  shows "sim (report k (dp_text 1 (bool_text (on s))) d) h (say_switch s)"
  unfolding say_switch_def by (rule sim_report [OF assms(1,2)]) (use sample_texts(1) [of "on s"] assms(3) in linarith)

lemma sim_countdown_set:
  assumes "device_ok d" "in_state h d s" "int32 n" "length text < k"
  shows "sim (report k text (chan_upd 0 (\<lambda>c. c\<lparr>cd_sec := n\<rparr>) d)) h (say text (s\<lparr>left := n\<rparr>))"
  using assms in_state_upds(2) [OF assms(2)] by (intro sim_report) simp_all

lemma sim_end_countdown:
  assumes "device_ok d" "in_state h d s" "20 \<le> k"
  shows "sim (report k (dp_text 9 ''0'') (chan_upd 0 (\<lambda>c. c\<lparr>cd_sec := -1\<rparr>) d)) h (end_countdown s)"
    "sim (c_then (report k (dp_text 9 ''0'') d) (\<lambda>d1. Ret (chan_upd 0 (\<lambda>c. c\<lparr>cd_sec := -1\<rparr>) d1))) h (end_countdown s)"
proof -
  have fits: "length (dp_text 9 ''0'') < k" using sample_texts(2) assms(3) by linarith
  show "sim (report k (dp_text 9 ''0'') (chan_upd 0 (\<lambda>c. c\<lparr>cd_sec := -1\<rparr>) d)) h (end_countdown s)"
    unfolding end_countdown_def using fits by (intro sim_countdown_set assms) simp_all
  show "sim (c_then (report k (dp_text 9 ''0'') d) (\<lambda>d1. Ret (chan_upd 0 (\<lambda>c. c\<lparr>cd_sec := -1\<rparr>) d1))) h (end_countdown s)"
  proof (rule sim_then [OF sim_report [OF assms(1,2) fits]])
    fix d1 assume d1: "device_ok d1" "in_state h d1 (say (dp_text 9 ''0'') s)"
    show "sim (Ret (chan_upd 0 (\<lambda>c. c\<lparr>cd_sec := -1\<rparr>) d1)) h (end_countdown s)"
      using in_state_upds(2) [OF d1(2), of "-1"] d1(1) by (cases s) (simp add: end_countdown_def say_def)
  qed
qed

lemma sim_find:
  assumes "device_ok d" "in_state h d s"
  shows "find_channel P (channels (g_hw_table d)) 0 (nat (channel_num (g_hw_table d))) =
     Ret (if P ((sample_channel h)\<lparr>cd_sec := left s, stat := on s\<rparr>) then 0 else -1)"
  using assms by (simp add: device_ok_def dev_static_def in_state_def chans_def)

definition dp_typed :: "dp_cmd \<Rightarrow> bool" where
  "dp_typed dp = (case snd dp of PROP_VALUE n \<Rightarrow> int32 n | _ \<Rightarrow> True)"

lemma sim_command:
  assumes ok: "device_ok d" "in_state h d s" and v: "\<And>n. snd dp = PROP_VALUE n \<Longrightarrow> int32 n"
  shows "sim (recv_dp dp d) h (sample_command dp s)"
proof -
  obtain n v where dp: "dp = (n, v)" by (cases dp)
  have nums: "uint n = 1 \<longleftrightarrow> n = 1" "uint n = 9 \<longleftrightarrow> n = 9" by (auto simp: word_uint_eq_iff)
  show ?thesis
  proof (cases v)
    case (PROP_BOOL b)
    have on: "sim (hw_set_channel 0 b d) h (s\<lparr>on := b\<rparr>)" by (rule sim_switch [OF ok])
    have "sim (recv_dp dp d) h (sample_command dp s)" if n: "n = 1"
    proof -
      obtain d1 where d1: "hw_set_channel 0 b d = Ret d1" "device_ok d1" "in_state h d1 (s\<lparr>on := b\<rparr>)"
        using on by (auto simp: sim_def)
      have c: "chan_at 0 d1 = Ret ((sample_channel h)\<lparr>cd_sec := left s, stat := b\<rparr>)" using in_state_channel [OF d1(3)] by simp
      have "sim (report 30 (dp_text 1 (bool_text b)) d1) h (say_switch (s\<lparr>on := b\<rparr>))"
        using sim_say_switch [OF d1(2,3), of 30] by simp
      then obtain d2 where d2: "report 30 (dp_text 1 (bool_text b)) d1 = Ret d2" "device_ok d2" "in_state h d2 (say_switch (s\<lparr>on := b\<rparr>))"
        by (auto simp: sim_def)
      have "recv_dp dp d = (if 0 \<le> left s then report 30 (dp_text 9 ''0'') (chan_upd 0 (\<lambda>c. c\<lparr>cd_sec := -1\<rparr>) d2) else Ret d2)"
        using d2(3) by (simp add: dp recv_dp_def PROP_BOOL hw_set_channel_by_dpid_def Let_def sim_find [OF ok] n d1(1) c d2(1) in_state_def)
      then show ?thesis using sim_end_countdown(1) [OF d2(2,3), of 30] d2(2,3) by (simp add: dp PROP_BOOL sample_command_def n Let_def)
    qed
    moreover have "sim (recv_dp dp d) h (sample_command dp s)" if "n \<noteq> 1"
      using ok that by (simp add: dp recv_dp_def PROP_BOOL hw_set_channel_by_dpid_def Let_def sim_find [OF ok] sample_command_def nums)
    ultimately show ?thesis by blast
  next
    case (PROP_VALUE i)
    then have i: "int32 i" using v dp by simp
    have find: "hw_find_channel_by_cd_dpid (uint n) d = Ret (if n = 9 then 0 else -1)"
      by (simp add: hw_find_channel_by_cd_dpid_def Let_def sim_find [OF ok] nums)
    show ?thesis
      using ok sim_end_countdown(1) [OF ok, of 30] sim_countdown_set [OF ok i sample_texts(3) [OF i]]
      by (simp add: dp recv_dp_def PROP_VALUE find in_state_channel [OF ok(2)] sample_command_def)
  qed (use ok in \<open>simp_all add: dp recv_dp_def sample_command_def\<close>)
qed

lemma sim_second:
  assumes ok: "device_ok d" "in_state h d s"
  shows "sim (cd_timer_cb d) h (sample_second s)"
  unfolding cd_timer_cb_def
proof (rule sim_each [OF ok])
  let ?c = "(sample_channel h)\<lparr>cd_sec := left s, stat := on s\<rparr>"
  let ?d = "chan_upd 0 (\<lambda>c. c\<lparr>cd_sec := left s - 1\<rparr>) d"
  have i: "int32 (left s)"
    using ok by (simp add: device_ok_def dev_static_def in_state_def channel_typed_def)
  show "sim (cd_channel 0 ?c d) h (sample_second s)"
  proof (cases "left s < 0")
    case True
    then show ?thesis using ok by (simp add: cd_channel_def sample_second_def)
  next
    case False
    then have j: "int32 (left s - 1)" using i by (simp add: int32_def)
    then have d: "device_ok ?d" "in_state h ?d (s\<lparr>left := left s - 1\<rparr>)" using ok in_state_upds(2) by simp_all
    show ?thesis
    proof (cases "left s \<le> 1")
      case True
      obtain d2 where d2: "hw_trig_channel 0 ?d = Ret d2" "device_ok d2" "in_state h d2 (s\<lparr>left := left s - 1, on := \<not> on s\<rparr>)"
        using sim_toggle [OF d] by (auto simp: sim_def)
      have c: "chan_at 0 d2 = Ret ((sample_channel h)\<lparr>cd_sec := left s - 1, stat := \<not> on s\<rparr>)" using in_state_channel [OF d2(3)] by simp
      have "sim (c_then (report 20 (dp_text 1 (bool_text (\<not> on s))) d2) (\<lambda>d3.
          c_then (report 20 (dp_text 9 ''0'') d3) (\<lambda>d4. Ret (chan_upd 0 (\<lambda>c. c\<lparr>cd_sec := -1\<rparr>) d4)))) h
          (end_countdown (say_switch (s\<lparr>left := left s - 1, on := \<not> on s\<rparr>)))"
        using sim_say_switch [OF d2(2,3), of 20] by (intro sim_then [OF _ sim_end_countdown(2)]) simp_all
      moreover have "end_countdown (say_switch (s\<lparr>left := left s - 1, on := \<not> on s\<rparr>)) = sample_second s"
        using True False by (cases s) (simp add: sample_second_def end_countdown_def say_switch_def say_def)
      ultimately show ?thesis using True False by (simp add: cd_channel_def Let_def d2(1) c)
    next
      case big: False
      have "sim (report 20 (dp_text 9 (dec (left s - 1))) ?d) h (say (dp_text 9 (dec (left s - 1))) (s\<lparr>left := left s - 1\<rparr>))"
        using big False by (intro sim_report d sample_texts(4) j) simp_all
      then show ?thesis using big False d by (simp add: cd_channel_def sample_second_def Let_def)
    qed
  qed
qed

lemma sim_only_leds:
  assumes "in_state h d s" "only_leds d d1" "device_ok d1"
  shows "sim (Ret d1) h s"
proof -
  have "d1 = d\<lparr>dev_leds := dev_leds d1\<rparr>" using assms(2) by (simp add: only_leds_def)
  then have "in_state h d1 s" using assms(1) in_state_leds by metis
  then show ?thesis using assms(3) by simp
qed

lemma sim_boot:
  assumes ok: "device_ok d" "in_state h d s"
  shows "sim (Start_boot_up d) h (end_countdown (say_switch s))"
  unfolding Start_boot_up_def
proof (rule sim_each [OF ok])
  have "sim (c_then (report 30 (dp_text 1 (bool_text (on s))) d) (\<lambda>d1.
      if is_count_down d1 then report 30 (dp_text 9 ''0'') (chan_upd 0 (\<lambda>c. c\<lparr>cd_sec := -1\<rparr>) d1) else Ret d1)) h
      (end_countdown (say_switch s))"
  proof (rule sim_then [OF sim_say_switch [OF ok]])
    fix d1 assume d1: "device_ok d1" "in_state h d1 (say_switch s)"
    show "sim (if is_count_down d1 then report 30 (dp_text 9 ''0'') (chan_upd 0 (\<lambda>c. c\<lparr>cd_sec := -1\<rparr>) d1) else Ret d1) h
        (end_countdown (say_switch s))"
      using sim_end_countdown(1) [OF d1, of 30] d1(2) by (simp add: in_state_def)
  qed simp
  then show "sim (c_then (report 30 (dp_text (dpid ((sample_channel h)\<lparr>cd_sec := left s, stat := on s\<rparr>))
        (bool_text (stat ((sample_channel h)\<lparr>cd_sec := left s, stat := on s\<rparr>)))) d) (\<lambda>d1.
      if is_count_down d1
      then report 30 (dp_text (cd_dpid ((sample_channel h)\<lparr>cd_sec := left s, stat := on s\<rparr>)) ''0'') (chan_upd 0 (\<lambda>c. c\<lparr>cd_sec := -1\<rparr>) d1)
      else Ret d1)) h (end_countdown (say_switch s))"
    by (simp cong: if_cong)
qed

lemma sim_wifi:
  assumes "device_ok d" "in_state h d s"
  shows "sim (set_light (wifi_stat_led_handle (g_hw_table d)) t ms dur d) h s"
proof -
  obtain d1 where d1: "set_light (wifi_stat_led_handle (g_hw_table d)) t ms dur d = Ret d1" "device_ok d1"
    using wifi_goes_on [OF assms(1), of t ms dur] by (auto simp: goes_on_def)
  then have "\<exists>L. d1 = d\<lparr>dev_leds := L\<rparr>" by (auto simp: set_light_def c_then_def split: c_run.splits)
  with d1 assms(2) show ?thesis by (auto simp: sim_def)
qed

lemma sim_on_off:
  assumes "device_ok d" "in_state h d s"
  shows "sim (sync_led_and_relay_connected (d\<lparr>is_connected := True\<rparr>)) h (s\<lparr>online := True\<rparr>)"
    "sim (sync_led_and_relay_unconnected (d\<lparr>is_connected := False\<rparr>)) h (s\<lparr>online := False\<rparr>)"
proof -
  have upd: "in_state h (d\<lparr>is_connected := b\<rparr>) (s\<lparr>online := b\<rparr>)" for b by (rule in_state_upds(4) [OF assms(2)])
  show "sim (sync_led_and_relay_connected (d\<lparr>is_connected := True\<rparr>)) h (s\<lparr>online := True\<rparr>)"
    using on_only_leds [OF assms(1)] sim_only_leds [OF upd] by auto
  show "sim (sync_led_and_relay_unconnected (d\<lparr>is_connected := False\<rparr>)) h (s\<lparr>online := False\<rparr>)"
    using off_only_leds [OF assms(1)] sim_only_leds [OF upd] by auto
qed

lemma sim_network:
  assumes "device_ok d" "in_state h d s"
  shows "sim (hw_set_wifi_led_stat st d) h (sample_network st s)"
  using sim_on_off [OF assms] sim_wifi [OF assms]
  by (cases st) (auto simp: hw_set_wifi_led_stat_def sample_network_def wifi_light_def Let_def intro!: sim_then sim_wifi sim_boot)

lemma sim_button:
  assumes ok: "device_ok d" "in_state h d s"
  shows "sim (key_process 19 tp cnt d) h (sample_button tp s)"
proof (cases tp)
  case NORMAL_KEY
  obtain d1 where d1: "hw_trig_channel 0 d = Ret d1" "device_ok d1" "in_state h d1 (s\<lparr>on := \<not> on s\<rparr>)"
    using sim_toggle [OF ok] by (auto simp: sim_def)
  have c: "chan_at 0 d1 = Ret ((sample_channel h)\<lparr>cd_sec := left s, stat := \<not> on s\<rparr>)" using in_state_channel [OF d1(3)] by simp
  have "sim (report 30 (dp_text 1 (bool_text (\<not> on s))) d1) h (say_switch (s\<lparr>on := \<not> on s\<rparr>))"
    using sim_say_switch [OF d1(2,3), of 30] by simp
  then obtain d2 where d2: "report 30 (dp_text 1 (bool_text (\<not> on s))) d1 = Ret d2" "device_ok d2"
    "in_state h d2 (say_switch (s\<lparr>on := \<not> on s\<rparr>))" by (auto simp: sim_def)
  have p: "key_port (rst_button (g_hw_table d)) = 19" using ok(2) by (simp add: in_state_def hw_table_start_def)
  show ?thesis using sim_end_countdown(2) [OF d2(2,3), of 30] d2(2,3)
    by (simp add: key_process_def p NORMAL_KEY d1(1) c d2(1) sample_button_def Let_def)
next
  case LONG_KEY
  then show ?thesis using ok by (simp add: key_process_def sample_button_def in_state_def hw_table_start_def)
qed (use ok in \<open>simp add: key_process_def sample_button_def\<close>)

text \<open>A callback of the reset button.\<close>

definition reset_event :: "key_event \<Rightarrow> bool" where
  "reset_event ev = (case ev of Key_Event f port tp cnt \<Rightarrow> f = Some KEY_PROCESS \<and> port = 19)"

lemma sim_callback:
  assumes "device_ok d" "in_state h d s" "reset_event ev"
  shows "sim (key_callback ev d) h (sample_button (ev_type ev) s)"
  using sim_button [OF assms(1,2)] assms(3) by (cases ev) (simp add: reset_event_def key_callback_def)

text \<open>Data points and button events by themselves follow their part of the machine.\<close>

interpretation commands: refined_machine recv_dp sample_command "\<lambda>d s. device_ok d \<and> in_state h d s" dp_typed for h
proof
  fix d s dp assume d: "device_ok d \<and> in_state h d s" and dp: "dp_typed dp"
  have "sim (recv_dp dp d) h (sample_command dp s)"
    by (rule sim_command) (use d dp in \<open>auto simp: dp_typed_def\<close>)
  then show "\<exists>d1. recv_dp dp d = Ret d1 \<and> device_ok d1 \<and> in_state h d1 (sample_command dp s)" by (simp add: sim_def)
qed

interpretation buttons: refined_machine key_callback "\<lambda>ev. sample_button (ev_type ev)" "\<lambda>d s. device_ok d \<and> in_state h d s"
    reset_event for h
  by unfold_locales (use sim_callback in \<open>auto simp: sim_def\<close>)

lemma ent_proc_events:
  "ev \<in> set (snd (key_ent_proc space press e)) \<Longrightarrow> \<exists>tp cnt. ev = Key_Event (call_back (kud e)) (key_port (kud e)) tp cnt"
  by (cases "status e") (auto simp: key_ent_proc_def key_states key_call_def Let_def split: if_splits)

lemma fold_map_comp: "fold (f \<circ> g) xs = fold f (map g xs)"
  by (induction xs) simp_all

lemma sim_keys:
  assumes ok: "device_ok d" "in_state h d s"
  shows "sim (key_timer g d) h (sample_keys g s)"
proof -
  let ?km = "\<lparr>p_tbl = [], timer_space = 20, lst = [key s]\<rparr>"
  obtain e evs where e: "key_ent_proc 20 (g 19 = 0) (key s) = (e, evs)" by fastforce
  have u: "kud (key s) = rst_button hw_table_start" "dev_keys d = Some ?km" using ok(2) by (simp_all add: in_state_def)
  have kud: "kud e = rst_button hw_table_start" using key_ent_proc_kud [of 20 "g 19 = 0" "key s"] u(1) by (simp add: e)
  have v: "tuya_key_down_verify g (key s) = (g 19 = 0)" by (simp add: tuya_key_down_verify_def u(1) hw_table_start_def)
  have h: "key_handle g ?km = (?km\<lparr>lst := [e]\<rparr>, evs)" by (simp add: key_handle_def v e)
  let ?d = "d\<lparr>dev_keys := Some (?km\<lparr>lst := [e]\<rparr>)\<rparr>"
  have "p_tbl (fst (key_handle g ?km)) = [] \<and> keys_ok (fst (key_handle g ?km)) \<and> list_all calls_back (snd (key_handle g ?km))"
    by (rule key_handle_ok) (use ok u(2) in \<open>simp_all add: device_ok_def dev_static_def\<close>)
  then have d: "device_ok ?d" "in_state h ?d (s\<lparr>key := e\<rparr>)"
    using keys_upd [OF ok(1), of "?km\<lparr>lst := [e]\<rparr>"] ok(2) kud by (simp_all add: h in_state_def chans_def)
  have "reset_event ev" if "ev \<in> set evs" for ev
    using ent_proc_events [of ev 20 "g 19 = 0" "key s"] that by (auto simp: e u(1) hw_table_start_def reset_event_def)
  then have "list_all reset_event evs" by (simp add: list_all_iff)
  with d have "sim (c_steps key_callback evs ?d) h (fold (\<lambda>ev. sample_button (ev_type ev)) evs (s\<lparr>key := e\<rparr>))"
    unfolding sim_def by (intro buttons.run_refines) simp_all
  then show ?thesis by (simp add: key_timer_def u(2) h sample_keys_def e comp_def)
qed

lemma sim_step:
  assumes "device_ok d" "in_state h d s" "event_typed ev"
  shows "sim (dev_step ev d) h (sample_step ev s)"
proof (cases ev)
  case (Dev_Dps dps)
  have "list_all dp_typed dps" using assms(3) by (auto simp: Dev_Dps dp_typed_def list_all_iff)
  with assms(1,2) have "sim (c_steps recv_dp dps d) h (fold sample_command dps s)"
    unfolding sim_def by (intro commands.run_refines) simp_all
  then show ?thesis by (simp add: Dev_Dps dev_obj_dp_cb_def)
next
  case Dev_Leds
  obtain d1 where d1: "led_timer_step d = Ret d1" "device_ok d1" using leds_step_ok [OF assms(1)] by (auto simp: goes_on_def)
  then have "\<exists>L. d1 = d\<lparr>dev_leds := L\<rparr>" by (auto simp: led_timer_step_def c_then_def split: c_run.splits)
  with d1 assms(2) show ?thesis by (auto simp: Dev_Leds sim_def)
qed (use assms in \<open>simp_all add: sim_second sim_keys sim_network\<close>)

interpretation device: refined_machine dev_step sample_step "\<lambda>d s. device_ok d \<and> in_state h d s" event_typed for h
  by unfold_locales (use sim_step in \<open>auto simp: sim_def\<close>)

section \<open>Runs\<close>

definition device_run :: "dev_env \<Rightarrow> regs \<Rightarrow> dev_event list \<Rightarrow> device c_run" where
  "device_run env r evs = c_then (device_init env (device_start r)) (\<lambda>(_, d). c_steps dev_step evs d)"

lemma sim_run:
  assumes "device_ok d" "in_state h d s" "list_all event_typed evs"
  shows "sim (c_steps dev_step evs d) h (fold sample_step evs s)"
  unfolding sim_def by (rule device.run_refines) (use assms in simp_all)

lemma sim_device_run:
  assumes "all_succeed env" "list_all event_typed evs"
  obtains h d where "device_run env r evs = Ret d" "device_ok d" "in_state h d (fold sample_step evs sample_start)"
proof -
  obtain d where d: "device_init env (device_start r) = Ret (OPRT_OK, d)" "device_ok d" "\<not> is_connected d"
    "\<exists>a. chans d = [sample_channel a]" "rst_button (g_hw_table d) = rst_button hw_table_start" "unactive_calls d = 0"
    "dev_keys d = Some \<lparr>p_tbl = [], timer_space = 20, lst = [key_new (rst_button hw_table_start)]\<rparr>" "is_count_down d" "reports d = []"
    by (rule device_starts [OF assms(1)])
  then obtain h where h: "chans d = [sample_channel h]" by blast
  have "(sample_channel h)\<lparr>cd_sec := -1, stat := False\<rparr> = sample_channel h"
    by (simp add: sample_channel_def channels_start_def)
  then have "in_state h d sample_start" using d h by (simp add: in_state_def sample_start_def key_new_def)
  from sim_run [OF d(2) this assms(2)] show thesis using that d(1) by (auto simp: sim_def device_run_def)
qed

lemma in_state_levels:
  assumes "device_ok d" "in_state h d s"
  shows "level (led_regs (dev_leds d)) 25 = on s" "level (led_regs (dev_leds d)) 28 = (\<not> (online s \<and> on s))"
proof -
  have leds: "leds_ok (led_cntl_list (dev_leds d))" using assms(1) by (simp add: device_ok_def dev_static_def)
  have "displays d (\<lambda>i. stat (chans d ! i)) (\<lambda>i. is_connected d \<and> stat (chans d ! i))" using assms(1) by (simp add: device_ok_def)
  then have shown: "relay_shows (dev_leds d) (relay (sample_channel h)) (on s)"
    "light_shows (dev_leds d) (led (sample_channel h)) (Some h) (online s \<and> on s)"
    using assms(2) by (simp_all add: displays_def in_state_def) (simp add: sample_channel_def)
  show "level (led_regs (dev_leds d)) 25 = on s"
    using shown(1) by (auto simp: relay_shows_def sample_channel_def channels_start_def active_level_def)
  show "level (led_regs (dev_leds d)) 28 = (\<not> (online s \<and> on s))"
    using shown(2) by (auto simp: light_shows_def lights_map_of [OF leds] sample_channel_def channels_start_def active_level_def)
qed

text \<open>Countdowns and buttons of the machine.\<close>

lemma countdown_runs:
  assumes "left s = int n" "0 < n"
  shows "on (fold sample_step (replicate k Dev_Countdown) s) = (if k < n then on s else \<not> on s) \<and>
     left (fold sample_step (replicate k Dev_Countdown) s) = (if k < n then int n - int k else -1)"
proof (induction k)
  case 0
  then show ?case using assms by simp
next
  case (Suc k)
  have "fold sample_step (replicate (Suc k) Dev_Countdown) s = sample_second (fold sample_step (replicate k Dev_Countdown) s)"
    by (simp add: replicate_append_same [symmetric] del: replicate_Suc)
  then show ?case using Suc by (auto simp: sample_second_def Let_def say_def end_countdown_def say_switch_def)
qed

definition pressed :: "bool \<Rightarrow> dev_event" where
  "pressed p = Dev_Keys (\<lambda>_. if p then 0 else 1)"

lemma button_key: "sample_button tp (s\<lparr>key := e\<rparr>) = (sample_button tp s)\<lparr>key := e\<rparr>"
  by (cases s; cases tp) (simp_all add: sample_button_def Let_def say_switch_def end_countdown_def say_def)

lemma buttons_key: "fold (sample_button \<circ> ev_type) evs (s\<lparr>key := e\<rparr>) = (fold (sample_button \<circ> ev_type) evs s)\<lparr>key := e\<rparr>"
  by (induction evs arbitrary: s) (simp_all add: button_key)

lemma button_run:
  "fold sample_step (map pressed bs) s =
     (fold (sample_button \<circ> ev_type) (snd (key_run 20 bs (key s))) s)\<lparr>key := fst (key_run 20 bs (key s))\<rparr>"
proof (induction bs arbitrary: s)
  case (Cons b bs)
  obtain e evs where e: "key_ent_proc 20 b (key s) = (e, evs)" by fastforce
  have "sample_step (pressed b) s = (fold (sample_button \<circ> ev_type) evs s)\<lparr>key := e\<rparr>"
    using e by (cases b) (simp_all add: pressed_def sample_keys_def buttons_key)
  then show ?case using buttons_key [unfolded comp_def] by (simp add: Cons.IH e comp_def)
qed simp

text \<open>The switch as the cloud was last told it: false before the first report.\<close>

definition told_switch :: "string list \<Rightarrow> bool" where
  "told_switch texts = fold (\<lambda>t b. if t = dp_text 1 (bool_text True) then True
     else if t = dp_text 1 (bool_text False) then False else b) texts False"

lemma other_text: "dp_text 9 v \<noteq> dp_text 1 (bool_text b)"
  by (simp add: dp_text_def dec_def dec_nat.simps [of "Suc 0"] dec_nat.simps [of 9] digit_def char_of_def bit_iff_odd)

lemma told_snoc:
  "told_switch (ts @ [dp_text 1 (bool_text b)]) = b" "told_switch (ts @ [dp_text 9 v]) = told_switch ts"
  using other_text [of v True] other_text [of v False] by (cases b; simp add: told_switch_def bool_text_def dp_text_def)+

lemma told_say [simp]:
  "told_switch (said (say_switch s)) = on s" "on (say_switch s) = on s"
  "told_switch (said (end_countdown s)) = told_switch (said s)" "on (end_countdown s) = on s"
  "told_switch (said (say (dp_text 9 v) s)) = told_switch (said s)" "on (say t s) = on s"
  by (simp_all add: say_switch_def end_countdown_def say_def told_snoc)

lemma told_fold:
  "(\<And>x s. told_switch (said s) = on s \<Longrightarrow> told_switch (said (g x s)) = on (g x s)) \<Longrightarrow>
     told_switch (said s) = on s \<Longrightarrow> told_switch (said (fold g xs s)) = on (fold g xs s)"
  by (induction xs arbitrary: s) auto

lemma told_step: "told_switch (said s) = on s \<Longrightarrow> told_switch (said (sample_step ev s)) = on (sample_step ev s)"
proof (cases ev)
  case (Dev_Keys g)
  assume t: "told_switch (said s) = on s"
  have "told_switch (said (sample_button tp s)) = on (sample_button tp s)" if "told_switch (said s) = on s" for tp s
    using that by (cases tp) (simp_all add: sample_button_def Let_def)
  then show ?thesis using t
    by (auto simp: Dev_Keys sample_keys_def split: prod.splits intro!: told_fold)
next
  case (Dev_Dps dps)
  assume t: "told_switch (said s) = on s"
  have "told_switch (said (sample_command dp s)) = on (sample_command dp s)" if "told_switch (said s) = on s" for dp s
    using that by (cases dp; cases "snd dp") (auto simp: sample_command_def Let_def)
  then show ?thesis using t by (auto simp: Dev_Dps intro!: told_fold)
qed (auto simp: sample_second_def sample_network_def Let_def)

section \<open>Properties\<close>

text \<open>
  C28: no callback of the sample device ever faults or stops it: in a device in order, with whatever data points the cloud
  sends (numbers within the C type), whatever levels the buttons have, every network status, and both timers, the callback
  returns and leaves a device in order. In particular the texts fit their buffers (the longest, at the end of a countdown,
  just fits its 20 bytes), every light used has been created, and no index leaves the channels.
\<close>

theorem device_goes_on:
  assumes "device_ok d" "event_typed ev"
  shows "\<exists>d1. dev_step ev d = Ret d1 \<and> device_ok d1"
  using step_ok [OF assms] by (simp add: goes_on_def)

text \<open>
  C1: the sample device refines the small machine of its user: after a start whose calls succeed and any callbacks in any
  order, the relay's pin is high exactly when the machine's switch is on, the channel's light (lit by a low level) is lit
  exactly when moreover the network is there, the seconds of the countdown are those of the machine, and the reports sent
  to the cloud are word for word what the machine says.
\<close>

theorem sample_refines:
  assumes "all_succeed env" "list_all event_typed evs"
  shows "\<exists>d. device_run env r evs = Ret d \<and>
    (let s = fold sample_step evs sample_start in
       level (led_regs (dev_leds d)) 25 = on s \<and> level (led_regs (dev_leds d)) 28 = (\<not> (online s \<and> on s)) \<and>
       map (\<lambda>c. (stat c, cd_sec c)) (channels (g_hw_table d)) = [(on s, left s)] \<and> is_connected d = online s \<and>
       reports d = said s \<and> unactive_calls d = held s)"
proof -
  obtain h d where d: "device_run env r evs = Ret d" "device_ok d" "in_state h d (fold sample_step evs sample_start)"
    by (rule sim_device_run [OF assms])
  then show ?thesis using in_state_levels [OF d(2,3)] d(3) by (auto simp: Let_def in_state_def chans_def)
qed

text \<open>
  C29: the cloud always knows the switch: whatever happened since the start, the last report of the switch (off, before the
  first) tells the level the relay has now. So every change, by the cloud, by the button or by a countdown, is reported.
\<close>

theorem cloud_knows_switch:
  assumes "all_succeed env" "list_all event_typed evs"
  shows "\<exists>d. device_run env r evs = Ret d \<and> level (led_regs (dev_leds d)) 25 = told_switch (reports d)"
proof -
  obtain h d where d: "device_run env r evs = Ret d" "device_ok d" "in_state h d (fold sample_step evs sample_start)"
    by (rule sim_device_run [OF assms])
  have "told_switch (said (fold sample_step evs sample_start)) = on (fold sample_step evs sample_start)"
    by (rule told_fold [OF told_step]) (simp_all add: sample_start_def told_switch_def)
  then show ?thesis using d in_state_levels(1) [OF d(2,3)] by (auto simp: in_state_def)
qed

text \<open>
  C11: a countdown of \<open>n\<close> seconds ends when it should: in any state of the device, after the cloud has set it, \<open>k\<close> seconds
  without other callbacks leave the relay as it was when \<open>k < n\<close>, with \<open>n - k\<close> seconds to go, and have switched it over
  once when \<open>n \<le> k\<close>, with no countdown running any more.
\<close>

theorem countdown_switches_once:
  assumes "all_succeed env" "list_all event_typed evs" "0 < n" "n < 2147483648"
  shows "\<exists>d d1. device_run env r evs = Ret d \<and>
    c_steps dev_step (Dev_Dps [(9, PROP_VALUE (int n))] # replicate k Dev_Countdown) d = Ret d1 \<and>
    level (led_regs (dev_leds d1)) 25 = (if k < n then level (led_regs (dev_leds d)) 25 else \<not> level (led_regs (dev_leds d)) 25) \<and>
    map cd_sec (channels (g_hw_table d1)) = [if k < n then int n - int k else -1]"
proof -
  let ?s = "fold sample_step evs sample_start"
  obtain h d where d: "device_run env r evs = Ret d" "device_ok d" "in_state h d ?s" by (rule sim_device_run [OF assms(1,2)])
  let ?evs = "Dev_Dps [(9, PROP_VALUE (int n))] # replicate k Dev_Countdown"
  have "list_all event_typed ?evs" using assms(4) by (simp add: int32_def list_all_iff)
  from sim_run [OF d(2,3) this] obtain d1 where d1: "c_steps dev_step ?evs d = Ret d1" "device_ok d1"
    "in_state h d1 (fold sample_step ?evs ?s)" by (auto simp: sim_def)
  let ?s1 = "sample_command (9, PROP_VALUE (int n)) ?s"
  have s1: "left ?s1 = int n" "on ?s1 = on ?s" using assms(3) by (simp_all add: sample_command_def say_def)
  have "fold sample_step ?evs ?s = fold sample_step (replicate k Dev_Countdown) ?s1" by simp
  with countdown_runs [OF s1(1) assms(3), of k] d1 d in_state_levels(1) [OF d1(2,3)] in_state_levels(1) [OF d(2,3)] s1(2)
  show ?thesis by (intro exI [of _ d] exI [of _ d1]) (simp add: in_state_def chans_def)
qed

text \<open>
  What the button is for: pressed from rest for \<open>n + 2\<close> samples and let go for \<open>m + 2\<close>, it switches the relay over when held
  for less than three seconds (150 samples), and otherwise counts one long press and leaves the relay alone.
\<close>

theorem button_press:
  assumes "all_succeed env" "list_all event_typed evs" "3 \<le> m"
    and "key_ready (sample.key (fold sample_step evs sample_start))" "\<not> long_key_press (sample.key (fold sample_step evs sample_start))"
  shows "\<exists>d d1. device_run env r evs = Ret d \<and>
    c_steps dev_step (map pressed ([True, True] @ replicate n True @ [False, False] @ replicate m False)) d = Ret d1 \<and>
    level (led_regs (dev_leds d1)) 25 = (if 150 \<le> n then level (led_regs (dev_leds d)) 25 else \<not> level (led_regs (dev_leds d)) 25) \<and>
    unactive_calls d1 = (if 150 \<le> n then unactive_calls d + 1 else unactive_calls d)"
proof -
  let ?s = "fold sample_step evs sample_start"
  let ?bs = "[True, True] @ replicate n True @ [False, False] @ replicate m False"
  obtain h d where d: "device_run env r evs = Ret d" "device_ok d" "in_state h d ?s" by (rule sim_device_run [OF assms(1,2)])
  have "list_all event_typed (map pressed ?bs)" by (auto simp: pressed_def list_all_iff)
  from sim_run [OF d(2,3) this] obtain d1 where d1: "c_steps dev_step (map pressed ?bs) d = Ret d1" "device_ok d1"
    "in_state h d1 (fold sample_step (map pressed ?bs) ?s)" by (auto simp: sim_def)
  have ud: "kud (sample.key ?s) = rst_button hw_table_start" using d(3) by (simp add: in_state_def)
  have "snd (key_run 20 ?bs (sample.key ?s)) =
      key_call (sample.key ?s) (if 0 < n \<and> uint (long_key_time (kud (sample.key ?s))) \<le> int n * 20 then LONG_KEY else NORMAL_KEY) 0"
    by (rule conjunct1 [OF single_press]) (use assms(3-5) ud in \<open>simp_all add: hw_table_start_def\<close>)
  then have evs: "map ev_type (snd (key_run 20 ?bs (sample.key ?s))) = [if 150 \<le> n then LONG_KEY else NORMAL_KEY]"
    using ud by (simp add: key_call_def hw_table_start_def KEY_RST_TIME_def)
  have run: "fold sample_step (map pressed ?bs) ?s =
      (sample_button (if 150 \<le> n then LONG_KEY else NORMAL_KEY) ?s)\<lparr>sample.key := fst (key_run 20 ?bs (sample.key ?s))\<rparr>"
    unfolding button_run fold_map_comp evs by simp
  have b: "on (sample_button LONG_KEY ?s) = on ?s" "held (sample_button LONG_KEY ?s) = held ?s + 1"
    "on (sample_button NORMAL_KEY ?s) = (\<not> on ?s)" "held (sample_button NORMAL_KEY ?s) = held ?s"
    by (simp_all add: sample_button_def Let_def say_switch_def end_countdown_def say_def)
  have "level (led_regs (dev_leds d1)) 25 = on (sample_button (if 150 \<le> n then LONG_KEY else NORMAL_KEY) ?s)"
    using in_state_levels(1) [OF d1(2,3)] unfolding run by simp
  moreover have "unactive_calls d1 = held (sample_button (if 150 \<le> n then LONG_KEY else NORMAL_KEY) ?s)"
    using d1(3) unfolding run by (simp add: in_state_def)
  moreover have "unactive_calls d = held ?s" using d(3) by (simp add: in_state_def)
  ultimately show ?thesis
    using d(1) d1(1) in_state_levels(1) [OF d(2,3)] b by (intro exI [of _ d] exI [of _ d1]) simp
qed

section \<open>Witnesses\<close>

definition good_led :: "nat \<Rightarrow> led_env" where
  "good_led a = \<lparr>led_mutex_ret = OPRT_OK, led_add_timer = (OPRT_OK, 5), led_start_timer = OPRT_OK, led_malloc = Some a\<rparr>"

definition good_env :: dev_env where
  "good_env = \<lparr>soc_init_ret = OPRT_OK, nw_cb_ret = OPRT_OK,
     dev_hw_env = \<lparr>wifi_led_env = good_led 100,
       hw_key_env = \<lparr>mag_malloc = True, tbl_malloc = True, inout_set = (\<lambda>_. 0), mutex_ret = 0, add_timer_ret = 0, start_timer_ret = 0\<rparr>,
       reset_key_malloc = True, chan_led_env = (\<lambda>_. good_led 200), chan_key_malloc = (\<lambda>_. True)\<rparr>,
     cd_timer_ret = OPRT_OK, memory_timer_ret = OPRT_OK\<rparr>"

lemma good_succeeds: "all_succeed good_env"
  by (simp add: all_succeed_def good_env_def good_led_def led_env_ok_def LED_TIMER_UNINIT_def)

text \<open>The cloud is reached, switches on and sets two seconds; one passes.\<close>

definition some_events :: "dev_event list" where
  "some_events = [Dev_Network STAT_CLOUD_CONN, Dev_Dps [(1, PROP_BOOL True), (9, PROP_VALUE 2)], Dev_Leds, Dev_Countdown]"

lemma some_events_typed: "list_all event_typed some_events"
  by (simp add: some_events_def int32_def)

lemma some_events_state:
  "on (fold sample_step some_events sample_start)" "online (fold sample_step some_events sample_start)"
  "left (fold sample_step some_events sample_start) = 1"
  "said (fold sample_step some_events sample_start) = [dp_text 1 ''false'', dp_text 9 ''0'', dp_text 1 ''true'', dp_text 9 (dec 2)]"
  by (simp_all add: some_events_def sample_start_def sample_network_def sample_command_def sample_second_def end_countdown_def
      say_switch_def say_def bool_text_def)

theorem device_goes_on_witness:
  "\<exists>d d1. device_run good_env (\<lambda>_. 0) some_events = Ret d \<and> dev_step Dev_Countdown d = Ret d1 \<and> device_ok d1"
proof -
  obtain h d where d: "device_run good_env (\<lambda>_. 0) some_events = Ret d" "device_ok d"
    by (rule sim_device_run [OF good_succeeds some_events_typed])
  with device_goes_on [OF d(2), of Dev_Countdown] show ?thesis by auto
qed

theorem sample_refines_witness:
  "\<exists>d. device_run good_env (\<lambda>_. 0) some_events = Ret d \<and> level (led_regs (dev_leds d)) 25 \<and> \<not> level (led_regs (dev_leds d)) 28 \<and>
     reports d = [dp_text 1 ''false'', dp_text 9 ''0'', dp_text 1 ''true'', dp_text 9 (dec 2)]"
  using sample_refines [OF good_succeeds some_events_typed, of "\<lambda>_. 0"] some_events_state by (auto simp: Let_def)

theorem cloud_knows_switch_witness:
  "\<exists>d. device_run good_env (\<lambda>_. 0) some_events = Ret d \<and> level (led_regs (dev_leds d)) 25 = told_switch (reports d)"
  by (rule cloud_knows_switch [OF good_succeeds some_events_typed])

theorem countdown_switches_once_witness:
  "\<exists>d d1. device_run good_env (\<lambda>_. 0) some_events = Ret d \<and>
    c_steps dev_step (Dev_Dps [(9, PROP_VALUE 90)] # replicate 100 Dev_Countdown) d = Ret d1 \<and>
    level (led_regs (dev_leds d1)) 25 = (\<not> level (led_regs (dev_leds d)) 25) \<and> map cd_sec (channels (g_hw_table d1)) = [-1]"
  using countdown_switches_once [OF good_succeeds some_events_typed, of 90 "\<lambda>_. 0" 100] by (simp del: c_steps.simps)

theorem button_press_witness:
  "\<exists>d d1. device_run good_env (\<lambda>_. 0) [pressed False] = Ret d \<and>
    c_steps dev_step (map pressed ([True, True] @ replicate 200 True @ [False, False] @ replicate 3 False)) d = Ret d1 \<and>
    level (led_regs (dev_leds d1)) 25 = level (led_regs (dev_leds d)) 25 \<and> unactive_calls d1 = unactive_calls d + 1"
proof -
  have k: "key_ent_proc 20 False (key_new (rst_button hw_table_start)) = ((key_new (rst_button hw_table_start))\<lparr>key_val_last := False\<rparr>, [])"
    by (simp add: key_ent_proc_def key_new_def key_down_state_def)
  have s: "sample.key (fold sample_step [pressed False] sample_start) = (key_new (rst_button hw_table_start))\<lparr>key_val_last := False\<rparr>"
    by (simp add: pressed_def sample_keys_def sample_start_def k)
  have "key_ready (sample.key (fold sample_step [pressed False] sample_start))"
    "\<not> long_key_press (sample.key (fold sample_step [pressed False] sample_start))"
    unfolding s by (simp_all add: key_ready_def key_new_def)
  from button_press [OF good_succeeds _ _ this, of 3 "\<lambda>_. 0" 200] show ?thesis by (simp add: pressed_def del: c_steps.simps)
qed

end
