(* ===== verification/Pwm.thy ===== *)
theory Pwm
  imports Gpio
begin

text \<open>
  The timers and outputs of pulses: the driver \<open>beken378/driver/pwm/pwm.c\<close> for the BK7231 and the calls of
  \<open>BkDriverPwm.c\<close> over it.

  The status register of the interrupts is written through \<open>store\<close>, an argument: what a store into it does is the
  hardware's, which the properties take as clearing the bits written. Handlers are functions on the registers and the rest
  of the system; they do not change the table of handlers.
\<close>

unbundle bit_operations_syntax

section \<open>Registers\<close>

definition PWM_NEW_BASE :: u32 where "PWM_NEW_BASE = 0x00802A00"
definition PWM_BASE :: u32 where "PWM_BASE = PWM_NEW_BASE"
definition PWM_CTL :: u32 where "PWM_CTL = PWM_BASE + 0 * 4"
definition PWM_INTERRUPT_STATUS :: u32 where "PWM_INTERRUPT_STATUS = PWM_BASE + 1 * 4"
definition PWM0_COUNTER :: u32 where "PWM0_COUNTER = PWM_BASE + 2 * 4"
definition REG_APB_BK_PWMn_CNT_ADDR :: "u32 \<Rightarrow> u32" where "REG_APB_BK_PWMn_CNT_ADDR n = PWM_BASE + 0x08 + 2 * 0x04 * n"
definition REG_APB_BK_PWMn_CAP_ADDR :: "u32 \<Rightarrow> u32" where "REG_APB_BK_PWMn_CAP_ADDR n = PWM_BASE + 0x0C + 2 * 0x04 * n"
definition CHANNEL_NO :: nat where "CHANNEL_NO = 6"
definition PWM_COUNT :: u8 where "PWM_COUNT = 6"

lemmas pwm_regs = PWM_NEW_BASE_def PWM_BASE_def PWM_CTL_def PWM_INTERRUPT_STATUS_def PWM0_COUNTER_def
  REG_APB_BK_PWMn_CNT_ADDR_def REG_APB_BK_PWMn_CAP_ADDR_def

definition PWM_FAILURE :: u32 where "PWM_FAILURE = 1"
definition PWM_SUCCESS :: u32 where "PWM_SUCCESS = 0"
definition PWM_ENABLE :: u8 where "PWM_ENABLE = 0x01"
definition PWM_DISABLE :: u8 where "PWM_DISABLE = 0x00"
definition PWM_INT_EN :: u8 where "PWM_INT_EN = 0x01"
definition PMODE_PWM :: u8 where "PMODE_PWM = 0x00"
definition PMODE_TIMER :: u8 where "PMODE_TIMER = 0x01"
definition PWM_CLK_32K :: u32 where "PWM_CLK_32K = 0x00"
definition PWM_CLK_26M :: u32 where "PWM_CLK_26M = 0x01"
definition IRQ_PWM_BIT :: u32 where "IRQ_PWM_BIT = push_bit 9 1"

section \<open>Parameters\<close>

text \<open>The union of the configuration is its byte \<open>val\<close>; the bit fields are read from it and put together into it.\<close>

type_synonym 'e pwm_handler = "u8 \<Rightarrow> regs \<times> 'e \<Rightarrow> regs \<times> 'e"

record 'e pwm_param_t =
  pp_channel :: u8
  cfg_val :: u8
  end_value :: u16
  duty_cycle :: u16
  p_Int_Handler :: "'e pwm_handler option"

definition cfg_int_en :: "u8 \<Rightarrow> u8" where "cfg_int_en v = drop_bit 1 v AND 0x1"
definition cfg_mode :: "u8 \<Rightarrow> u8" where "cfg_mode v = drop_bit 2 v AND 0x3"
definition cfg_clk :: "u8 \<Rightarrow> u8" where "cfg_clk v = drop_bit 4 v AND 0x3"

definition cfg_bits :: "u8 \<Rightarrow> u8 \<Rightarrow> u8 \<Rightarrow> u8 \<Rightarrow> u8 \<Rightarrow> u8" where
  "cfg_bits en int_en mode clk rsv =
     (en AND 0x1) OR push_bit 1 (int_en AND 0x1) OR push_bit 2 (mode AND 0x3) OR push_bit 4 (clk AND 0x3) OR push_bit 6 rsv"

section \<open>Setting a channel up\<close>

record 'e pwm_io =
  pw_regs :: regs
  pw_rest :: 'e
  p_PWM_Int_Handler :: "nat \<Rightarrow> 'e pwm_handler option"

text \<open>The second function of a channel, a number of \<open>gpio_pub.h\<close>, and the bit of its clock. The number is not set for other channels.\<close>

definition pwm_func :: "u8 \<Rightarrow> u32 option" where
  "pwm_func chan =
     (if chan = 0 then Some 6 else if chan = 1 then Some 7 else if chan = 2 then Some 8 else if chan = 3 then Some 9
      else if chan = 4 then Some 18 else if chan = 5 then Some 19 else None)"

definition pwm_clk_bit :: "u8 \<Rightarrow> u32 option" where
  "pwm_clk_bit chan =
     (if chan = 0 then Some (push_bit 9 1) else if chan = 1 then Some (push_bit 10 1)
      else if chan = 2 then Some (push_bit 11 1) else if chan = 3 then Some (push_bit 12 1)
      else if chan = 4 then Some (push_bit 13 1) else if chan = 5 then Some (push_bit 14 1) else None)"

definition pwm_gpio_configuration :: "u8 \<Rightarrow> bool \<Rightarrow> regs \<Rightarrow> regs c_run" where
  "pwm_gpio_configuration chan enable r =
     (case pwm_func chan of
        None \<Rightarrow> Fault
      | Some param \<Rightarrow>
          expect_success
            (if enable then gpio_pin_ctrl CMD_GPIO_ENABLE_SECOND (Some param) r
             else gpio_pin_ctrl CMD_GPIO_CFG (Some (GPIO_CFG_PARAM param GMODE_INPUT)) r))"

definition pwm_icu_configuration :: "'e pwm_param_t \<Rightarrow> bool \<Rightarrow> regs \<Rightarrow> regs" where
  "pwm_icu_configuration p enable r =
     (case pwm_clk_bit (pp_channel p) of
        None \<Rightarrow> r
      | Some prm \<Rightarrow>
          (let r1 =
             (if enable then
                icu_do (if PWM_CLK_32K = ucast (cfg_clk (cfg_val p)) then CMD_CONF_PWM_LPOCLK else CMD_CONF_PWM_PCLK)
                  (ucast (pp_channel p)) (icu_do CMD_CLK_PWR_UP prm r)
              else icu_do CMD_CLK_PWR_DOWN prm r)
           in if PWM_INT_EN = cfg_int_en (cfg_val p) then icu_do CMD_ICU_INT_ENABLE IRQ_PWM_BIT r1 else r1))"

text \<open>The nibble of a channel in the control register, and its counter.\<close>

definition pwm_set_ctl :: "'e pwm_param_t \<Rightarrow> regs \<Rightarrow> regs" where
  "pwm_set_ctl p r =
     (let posi = 0x04 * unat (pp_channel p)
      in REG_WRITE PWM_CTL
           ((REG_READ PWM_CTL r AND NOT (push_bit posi 0x0F)) OR push_bit posi (ucast (cfg_val p) AND 0x0F)) r)"

definition pwm_set_counter :: "'e pwm_param_t \<Rightarrow> regs \<Rightarrow> regs" where
  "pwm_set_counter p r =
     REG_WRITE (REG_APB_BK_PWMn_CNT_ADDR (ucast (pp_channel p)))
       (push_bit 16 (ucast (duty_cycle p) AND 0x0000FFFF) + (ucast (end_value p) AND 0x0000FFFF)) r"

definition pwm_param_ok :: "'e pwm_param_t \<Rightarrow> bool" where
  "pwm_param_ok p \<longleftrightarrow> \<not> (PWM_COUNT \<le> pp_channel p \<or> end_value p < duty_cycle p)"

definition init_pwm_param :: "'e pwm_param_t option \<Rightarrow> bool \<Rightarrow> 'e pwm_io \<Rightarrow> 'e pwm_io c_run" where
  "init_pwm_param param enable s =
     (case param of
        None \<Rightarrow> Ret s
      | Some p \<Rightarrow>
          if \<not> pwm_param_ok p then Ret s
          else
            c_then (if cfg_mode (cfg_val p) \<noteq> PMODE_TIMER then pwm_gpio_configuration (pp_channel p) enable (pw_regs s)
                    else Ret (pw_regs s))
              (\<lambda>r. Ret (s\<lparr>pw_regs := pwm_icu_configuration p enable (pwm_set_counter p (pwm_set_ctl p r)),
                 p_PWM_Int_Handler := (p_PWM_Int_Handler s)(unat (pp_channel p) := p_Int_Handler p)\<rparr>)))"

section \<open>The control call\<close>

text \<open>A command with what its parameter points to, \<open>None\<close> for NULL. The capture command answers its value beside the result.\<close>

datatype 'e pwm_cmd =
    CMD_PWM_UNIT_ENABLE "u32 option"
  | CMD_PWM_UINT_DISABLE "u32 option"
  | CMD_PWM_IR_ENABLE "u32 option"
  | CMD_PWM_IR_DISABLE "u32 option"
  | CMD_PWM_IR_CLEAR "u32 option"
  | CMD_PWM_INIT_PARAM "'e pwm_param_t option"
  | CMD_PWM_CAP_GET "u32 option"
  | CMD_PWM_DEINIT_PARAM "'e pwm_param_t option"
  | CMD_PWM_UNKNOWN

definition pwm_capture_value_get :: "u8 \<Rightarrow> regs \<Rightarrow> u16" where
  "pwm_capture_value_get ucChannel r = ucast (REG_READ (REG_APB_BK_PWMn_CAP_ADDR (ucast ucChannel)) r)"

definition pwm_int_handler_clear :: "u8 \<Rightarrow> 'e pwm_io \<Rightarrow> 'e pwm_io" where
  "pwm_int_handler_clear ucChannel s = s\<lparr>p_PWM_Int_Handler := (p_PWM_Int_Handler s)(unat ucChannel := None)\<rparr>"

definition on_channel ::
    "u32 option \<Rightarrow> (u32 \<Rightarrow> u32 \<times> u16 option \<times> 'e pwm_io) \<Rightarrow> 'e pwm_io \<Rightarrow> (u32 \<times> u16 option \<times> 'e pwm_io) c_run" where
  "on_channel param f s = deref param (\<lambda>ucChannel. Ret (if 5 < ucChannel then (PWM_FAILURE, None, s) else f ucChannel))"

definition pwm_ctl_bits :: "u32 option \<Rightarrow> (u32 \<Rightarrow> regs \<Rightarrow> regs) \<Rightarrow> 'e pwm_io \<Rightarrow> (u32 \<times> u16 option \<times> 'e pwm_io) c_run" where
  "pwm_ctl_bits param f s = on_channel param (\<lambda>c. (PWM_SUCCESS, None, s\<lparr>pw_regs := f c (pw_regs s)\<rparr>)) s"

fun pwm_ctrl :: "'e pwm_cmd \<Rightarrow> 'e pwm_io \<Rightarrow> (u32 \<times> u16 option \<times> 'e pwm_io) c_run" where
  "pwm_ctrl (CMD_PWM_UNIT_ENABLE param) s = pwm_ctl_bits param (\<lambda>c. set_bits PWM_CTL (push_bit (unat (c * 4)) 1)) s"
| "pwm_ctrl (CMD_PWM_UINT_DISABLE param) s = pwm_ctl_bits param (\<lambda>c. clr_bits PWM_CTL (push_bit (unat (c * 4)) 3)) s"
| "pwm_ctrl (CMD_PWM_IR_ENABLE param) s = pwm_ctl_bits param (\<lambda>c. set_bits PWM_CTL (push_bit (unat (c * 4)) 2)) s"
| "pwm_ctrl (CMD_PWM_IR_DISABLE param) s = pwm_ctl_bits param (\<lambda>c. clr_bits PWM_CTL (push_bit (unat (c * 4)) 2)) s"
| "pwm_ctrl (CMD_PWM_IR_CLEAR param) s =
     on_channel param (\<lambda>c. (PWM_SUCCESS, None, pwm_int_handler_clear (ucast c) s)) s"
| "pwm_ctrl (CMD_PWM_INIT_PARAM param) s = c_then (init_pwm_param param True s) (\<lambda>s1. Ret (PWM_SUCCESS, None, s1))"
| "pwm_ctrl (CMD_PWM_CAP_GET param) s =
     on_channel param (\<lambda>c. (PWM_SUCCESS, Some (pwm_capture_value_get (ucast c) (pw_regs s)), s)) s"
| "pwm_ctrl (CMD_PWM_DEINIT_PARAM param) s = c_then (init_pwm_param param False s) (\<lambda>s1. Ret (PWM_SUCCESS, None, s1))"
| "pwm_ctrl CMD_PWM_UNKNOWN s = Ret (PWM_FAILURE, None, s)"

section \<open>The interrupt\<close>

partial_function (option) clear_status :: "(u32 \<Rightarrow> regs \<Rightarrow> regs) \<Rightarrow> u32 \<Rightarrow> u32 \<Rightarrow> regs \<Rightarrow> regs option" where
  "clear_status store v left r =
     (let r1 = store v r
      in if REG_READ PWM_INTERRUPT_STATUS r1 AND left \<noteq> 0 then clear_status store v left r1 else Some r1)"

definition pwm_isr_channel :: "(u32 \<Rightarrow> regs \<Rightarrow> regs) \<Rightarrow> u32 \<Rightarrow> nat \<Rightarrow> 'e pwm_io \<Rightarrow> 'e pwm_io option" where
  "pwm_isr_channel store status i s =
     (if status AND BIT i \<noteq> 0 then
        (case p_PWM_Int_Handler s i of
           None \<Rightarrow> Some s
         | Some h \<Rightarrow>
             (case h (of_nat i) (pw_regs s, pw_rest s) of (r, w) \<Rightarrow>
                (case clear_status store (BIT i) (BIT i) r of
                   None \<Rightarrow> None
                 | Some r1 \<Rightarrow> Some (s\<lparr>pw_regs := r1, pw_rest := w\<rparr>))))
      else Some s)"

fun pwm_isr_channels :: "(u32 \<Rightarrow> regs \<Rightarrow> regs) \<Rightarrow> u32 \<Rightarrow> nat list \<Rightarrow> 'e pwm_io \<Rightarrow> 'e pwm_io option" where
  "pwm_isr_channels store status [] s = Some s"
| "pwm_isr_channels store status (i # is) s =
     (case pwm_isr_channel store status i s of None \<Rightarrow> None | Some s1 \<Rightarrow> pwm_isr_channels store status is s1)"

definition pwm_isr :: "(u32 \<Rightarrow> regs \<Rightarrow> regs) \<Rightarrow> 'e pwm_io \<Rightarrow> 'e pwm_io option" where
  "pwm_isr store s =
     (let status = REG_READ PWM_INTERRUPT_STATUS (pw_regs s)
      in case pwm_isr_channels store status [0..<CHANNEL_NO] s of
           None \<Rightarrow> None
         | Some s1 \<Rightarrow>
             (case clear_status store status (status AND 0x3F) (pw_regs s1) of
                None \<Rightarrow> None
              | Some r1 \<Rightarrow> Some (s1\<lparr>pw_regs := r1\<rparr>)))"

section \<open>The calls on top\<close>

text \<open>
  \<open>sddev_control\<close> by the name of this driver is \<open>pwm_ctrl\<close>. \<open>duty\<close> is the float converted to the width of the field, \<open>rsv\<close> what
  the unset bits of the local structure hold. All answer \<open>kNoErr\<close> when they return.
\<close>

definition pwm_call :: "'e pwm_cmd \<Rightarrow> 'e pwm_io \<Rightarrow> 'e pwm_io c_run" where
  "pwm_call cmd s = c_then (pwm_ctrl cmd s) (\<lambda>(ret, _, s1). if PWM_SUCCESS = ret then Ret s1 else Assert_Stop)"

definition bk_pwm_initialize :: "u8 \<Rightarrow> u8 \<Rightarrow> u32 \<Rightarrow> u16 \<Rightarrow> 'e pwm_io \<Rightarrow> 'e pwm_io c_run" where
  "bk_pwm_initialize rsv pwm frequency duty s =
     pwm_call (CMD_PWM_INIT_PARAM (Some \<lparr>pp_channel = pwm,
       cfg_val = cfg_bits PWM_DISABLE PWM_INT_EN PMODE_PWM (ucast PWM_CLK_26M) rsv,
       end_value = ucast frequency, duty_cycle = duty, p_Int_Handler = None\<rparr>)) s"

definition bk_pwm_start :: "u32 \<Rightarrow> 'e pwm_io \<Rightarrow> 'e pwm_io c_run" where
  "bk_pwm_start pwm = pwm_call (CMD_PWM_UNIT_ENABLE (Some pwm))"

definition bk_pwm_stop :: "u32 \<Rightarrow> 'e pwm_io \<Rightarrow> 'e pwm_io c_run" where
  "bk_pwm_stop pwm = pwm_call (CMD_PWM_UINT_DISABLE (Some pwm))"

section \<open>What an interrupt does\<close>

text \<open>One channel of an interrupt, when a store clears the bits it writes: a pending channel with a handler runs it, then is clear.\<close>

definition serve_channel :: "u32 \<Rightarrow> nat \<Rightarrow> 'e pwm_io \<Rightarrow> 'e pwm_io" where
  "serve_channel status i s =
     (if bit status i then
        (case p_PWM_Int_Handler s i of
           None \<Rightarrow> s
         | Some h \<Rightarrow>
             (case h (of_nat i) (pw_regs s, pw_rest s) of (r, w) \<Rightarrow>
                s\<lparr>pw_regs := clr_bits PWM_INTERRUPT_STATUS (BIT i) r, pw_rest := w\<rparr>))
      else s)"

lemma clear_status_once:
  assumes "store = clr_bits PWM_INTERRUPT_STATUS" "left AND NOT v = 0"
  shows "clear_status store v left r = Some (clr_bits PWM_INTERRUPT_STATUS v r)"
proof -
  have "clr_bits PWM_INTERRUPT_STATUS v r PWM_INTERRUPT_STATUS AND left = 0"
  proof (rule bit_word_eqI)
    fix n assume "n < LENGTH(32)"
    from assms(2) have "bit (left AND NOT v) n = bit (0 :: u32) n" by simp
    then show "bit (clr_bits PWM_INTERRUPT_STATUS v r PWM_INTERRUPT_STATUS AND left) n = bit (0 :: u32) n"
      using \<open>n < LENGTH(32)\<close> by (auto simp: bits_same bit_and_iff bit_not_iff)
  qed
  then show ?thesis by (subst clear_status.simps) (simp add: assms(1) REG_READ_def)
qed

lemma and_BIT: "i < 32 \<Longrightarrow> (w :: u32) AND BIT i \<noteq> 0 \<longleftrightarrow> bit w i"
proof -
  assume i: "i < 32"
  have "bit (w AND BIT i) n \<longleftrightarrow> n = i \<and> bit w i" for n using i by (auto simp: bit_and_iff bit_BIT)
  then show ?thesis by (metis bit_0_eq bot_apply bot_bool_def bit_word_eqI)
qed

lemma isr_channel_serves:
  assumes "store = clr_bits PWM_INTERRUPT_STATUS" "i < 32"
  shows "pwm_isr_channel store status i s = Some (serve_channel status i s)"
  using assms(2)
  by (simp add: pwm_isr_channel_def serve_channel_def and_BIT clear_status_once [OF assms(1)]
      split: option.split prod.split)

lemma isr_channels_serve:
  assumes "store = clr_bits PWM_INTERRUPT_STATUS" "list_all (\<lambda>i. i < 32) is"
  shows "pwm_isr_channels store status is s = Some (fold (serve_channel status) is s)"
  using assms(2)
  by (induction "is" arbitrary: s) (simp_all add: isr_channel_serves [OF assms(1)])

lemma pwm_isr_serves:
  assumes "store = clr_bits PWM_INTERRUPT_STATUS"
  shows "pwm_isr store s =
     (let status = pw_regs s PWM_INTERRUPT_STATUS;
          s1 = fold (serve_channel status) [0..<6] s
      in Some (s1\<lparr>pw_regs := clr_bits PWM_INTERRUPT_STATUS status (pw_regs s1)\<rparr>))"
proof -
  have "list_all (\<lambda>i. i < 32) [0..<CHANNEL_NO]" by (simp add: CHANNEL_NO_def list_all_iff)
  moreover have "(status AND 0x3F) AND NOT status = 0" for status :: u32
    by (rule bit_word_eqI) (simp add: bit_and_iff bit_not_iff)
  ultimately show ?thesis
    by (simp add: pwm_isr_def isr_channels_serve [OF assms] clear_status_once [OF assms] Let_def REG_READ_def)
      (simp add: CHANNEL_NO_def)
qed

section \<open>Registers of the channels\<close>

lemma unat_pin_reg: "app_pin p \<Longrightarrow> unat (pin_reg p) = 0x802800 + 4 * unat p"
  using app_pin_less [of p] unat_plus32 [of "0x802800" "p * 4"]
  by (simp add: pin_reg_def gpio_regs unat_mult4)

lemma unat_cnt: "unat k < 6 \<Longrightarrow> unat (REG_APB_BK_PWMn_CNT_ADDR k) = 0x802A08 + 8 * unat k"
  using unat_mult32 [of 8 k] unat_plus32 [of "0x802A08" "8 * k"] by (simp add: pwm_regs)

text \<open>The pin of a channel, and what the two configurations make of it.\<close>

definition pwm_pin :: "u8 \<Rightarrow> u32" where
  "pwm_pin c = (if c < 4 then 6 + ucast c else 14 + ucast c)"

definition pwm_pins_after :: "u8 \<Rightarrow> bool \<Rightarrow> regs \<Rightarrow> regs" where
  "pwm_pins_after c enable r =
     (if enable then r(pin_reg (pwm_pin c) := 0x40, REG_GPIO_FUNC_CFG := r REG_GPIO_FUNC_CFG OR BIT (unat (pwm_pin c)))
      else r(pin_reg (pwm_pin c) := 0x0C))"

lemma u8_below: "unat (c :: u8) < n \<Longrightarrow> c \<in> of_nat ` {0..<n}"
  by (rule image_eqI [of _ _ "unat c"]) simp_all

lemma pwm_channels:
  assumes "unat (c :: u8) < 6"
  obtains "c = 0" | "c = 1" | "c = 2" | "c = 3" | "c = 4" | "c = 5"
proof -
  have "c \<in> of_nat ` {0..<6}" by (rule u8_below [OF assms])
  then have "c \<in> {0, 1, 2, 3, 4, 5}" by (simp add: atLeastLessThan_upt upt_rec numeral_eq_Suc)
  then show ?thesis using that by blast
qed

lemma pwm_pin_app: "unat c < 6 \<Longrightarrow> app_pin (pwm_pin c)"
  by (erule pwm_channels) (simp_all add: pwm_pin_def app_pin_def)

lemma pwm_func_pin: "unat c < 6 \<Longrightarrow> pwm_func c = Some (pwm_pin c)"
  by (erule pwm_channels) (simp_all add: pwm_func_def pwm_pin_def)

lemma pwm_func_pins:
  assumes "unat c < 6"
  shows "func_pins_of (pwm_pin c) = func_plain (unat (pwm_pin c)) (unat (pwm_pin c)) PERIAL_MODE_2"
  using assms by (rule pwm_channels) (simp_all add: pwm_pin_def func_pins_of_def gpio_funcs_def)

lemma pwm_config: "app_pin q \<Longrightarrow> gpio_config q GMODE_INPUT r = r(pin_reg q := 0x0C)"
  "app_pin q \<Longrightarrow> gpio_config q GMODE_SECOND_FUNC r = r(pin_reg q := 0x40)"
  using app_pin_less [of q]
  by (simp_all add: gpio_config_def GPIONUM_def mode_val_def gpio_modes REG_WRITE_def GPIO_FAILURE_def GPIO_SUCCESS_def)

lemma pwm_gpio_runs:
  assumes "unat c < 6"
  shows "pwm_gpio_configuration c enable r = Ret (pwm_pins_after c enable r)"
proof -
  note q = pwm_pin_app [OF assms]
  have u: "of_nat (unat (pwm_pin c)) = pwm_pin c" by simp
  have "GPIO_CFG_PARAM_DEMUX_ID (GPIO_CFG_PARAM (pwm_pin c) GMODE_INPUT) = pwm_pin c"
    "GPIO_CFG_PARAM_DEMUX_MODE (GPIO_CFG_PARAM (pwm_pin c) GMODE_INPUT) = GMODE_INPUT"
    using joined_bytes [of "pwm_pin c" "GMODE_INPUT AND 0xff"] app_pin_less [OF q]
    by (simp_all add: GPIO_CFG_PARAM_DEMUX_ID_def GPIO_CFG_PARAM_DEMUX_MODE_def GPIO_CFG_PARAM_def gpio_modes)
  moreover have "gpio_enable_second_function (pwm_pin c) r = pwm_pins_after c True r"
    using pin_reg_not_func [OF q]
    by (simp add: gpio_enable_second_function_def pwm_func_pins [OF assms] func_plain_def second_function_pin_def u
        pwm_config(2) [OF q] pwm_pins_after_def REG_WRITE_def REG_READ_def Let_def PERIAL_MODE_1_def PERIAL_MODE_2_def
        fun_upd_twist)
  ultimately show ?thesis
    by (simp add: pwm_gpio_configuration_def pwm_func_pin [OF assms] expect_success_def deref_def asserted_def
        pwm_config(1) [OF q] pwm_pins_after_def)
qed

lemma pwm_pins_frame:
  assumes "unat c < 6"
  shows "a \<noteq> REG_GPIO_FUNC_CFG \<Longrightarrow> (\<And>q. app_pin q \<Longrightarrow> a \<noteq> pin_reg q) \<Longrightarrow> pwm_pins_after c enable r a = r a"
    "app_pin q \<Longrightarrow> pwm_pins_after c enable r (pin_reg q) =
       (if q = pwm_pin c then if enable then 0x40 else 0x0C else r (pin_reg q))"
  using pwm_pin_app [OF assms] pin_reg_not_func by (auto simp: pwm_pins_after_def)

definition pwm_icu_after :: "'e pwm_param_t \<Rightarrow> bool \<Rightarrow> regs \<Rightarrow> regs" where
  "pwm_icu_after p enable r =
     (let c = unat (pp_channel p);
          r1 = (if enable then
                  (if cfg_clk (cfg_val p) = 0 then set_bits else clr_bits) ICU_PWM_CLK_MUX (BIT c)
                    (clr_bits ICU_PERI_CLK_PWD (BIT (9 + c)) r)
                else set_bits ICU_PERI_CLK_PWD (BIT (9 + c)) r)
      in if cfg_int_en (cfg_val p) = 1 then set_bits ICU_INTERRUPT_ENABLE (BIT 9) r1 else r1)"

lemma pwm_icu_runs:
  assumes "unat (pp_channel p) < 6"
  shows "pwm_icu_configuration p enable r = pwm_icu_after p enable r"
proof -
  have "pwm_clk_bit (pp_channel p) = Some (push_bit (9 + unat (pp_channel p)) 1)"
    using assms by (rule pwm_channels) (simp_all add: pwm_clk_bit_def)
  moreover have "(ucast (cfg_clk v) :: u32) = 0 \<longleftrightarrow> cfg_clk v = 0" for v
    by (simp add: unsigned_ucast_eq flip: unat_eq_zero) (simp add: take_bit_nat_eq_self order_less_trans [OF unsigned_less])
  moreover have "unat (ucast (pp_channel p) :: u32) = unat (pp_channel p)"
    using assms by (rule pwm_channels) simp_all
  ultimately show ?thesis
    by (auto simp: pwm_icu_configuration_def pwm_icu_after_def PWM_CLK_32K_def PWM_INT_EN_def icu_do_def deref_def Let_def
        BIT_def IRQ_PWM_BIT_def)
qed

lemma pwm_init_runs:
  assumes "unat (pp_channel p) < 6" "duty_cycle p \<le> end_value p"
  shows "init_pwm_param (Some p) enable s = Ret (s\<lparr>
     pw_regs := pwm_icu_after p enable (pwm_set_counter p (pwm_set_ctl p
        (if cfg_mode (cfg_val p) \<noteq> PMODE_TIMER then pwm_pins_after (pp_channel p) enable (pw_regs s) else pw_regs s))),
     p_PWM_Int_Handler := (p_PWM_Int_Handler s)(unat (pp_channel p) := p_Int_Handler p)\<rparr>)"
proof -
  have "pwm_param_ok p"
    using assms by (simp add: pwm_param_ok_def PWM_COUNT_def word_le_nat_alt not_le not_less)
  then show ?thesis
    by (simp add: init_pwm_param_def pwm_gpio_runs [OF assms(1)] pwm_icu_runs [OF assms(1)])
qed

text \<open>Which registers each part leaves alone.\<close>

lemma pin_reg_apart: "app_pin q \<Longrightarrow> unat a < 0x802800 \<or> 0x802880 \<le> unat a \<Longrightarrow> pin_reg q \<noteq> a"
  using app_pin_less [of q] unat_pin_reg [of q] by auto

lemma cnt_apart: "unat k < 6 \<Longrightarrow> unat a < 0x802A08 \<or> 0x802A38 \<le> unat a \<Longrightarrow> REG_APB_BK_PWMn_CNT_ADDR k \<noteq> a"
  using unat_cnt [of k] by auto

lemma pwm_addresses:
  "app_pin q \<Longrightarrow> pin_reg q \<noteq> PWM_CTL" "app_pin q \<Longrightarrow> unat k < 6 \<Longrightarrow> pin_reg q \<noteq> REG_APB_BK_PWMn_CNT_ADDR k"
  "app_pin q \<Longrightarrow> pin_reg q \<noteq> ICU_PERI_CLK_PWD" "app_pin q \<Longrightarrow> pin_reg q \<noteq> ICU_PWM_CLK_MUX"
  "app_pin q \<Longrightarrow> pin_reg q \<noteq> ICU_INTERRUPT_ENABLE"
  by (erule pin_reg_apart, simp add: pwm_regs) (erule pin_reg_apart, simp add: unat_cnt, (erule pin_reg_apart, simp add: icu_reg_defs)+)

lemma cnt_addresses:
  "unat k < 6 \<Longrightarrow> REG_APB_BK_PWMn_CNT_ADDR k \<noteq> PWM_CTL" "unat k < 6 \<Longrightarrow> REG_APB_BK_PWMn_CNT_ADDR k \<noteq> REG_GPIO_FUNC_CFG"
  "unat k < 6 \<Longrightarrow> REG_APB_BK_PWMn_CNT_ADDR k \<noteq> ICU_PERI_CLK_PWD" "unat k < 6 \<Longrightarrow> REG_APB_BK_PWMn_CNT_ADDR k \<noteq> ICU_PWM_CLK_MUX"
  "unat k < 6 \<Longrightarrow> REG_APB_BK_PWMn_CNT_ADDR k \<noteq> ICU_INTERRUPT_ENABLE"
  by (erule cnt_apart; simp add: pwm_regs icu_reg_defs gpio_regs)+

lemma pwm_addresses_fixed [simp]:
  "PWM_CTL \<noteq> REG_GPIO_FUNC_CFG" "PWM_CTL \<noteq> ICU_PERI_CLK_PWD" "PWM_CTL \<noteq> ICU_PWM_CLK_MUX" "PWM_CTL \<noteq> ICU_INTERRUPT_ENABLE"
  "ICU_PERI_CLK_PWD \<noteq> REG_GPIO_FUNC_CFG" "ICU_PWM_CLK_MUX \<noteq> REG_GPIO_FUNC_CFG" "ICU_PERI_CLK_PWD \<noteq> ICU_PWM_CLK_MUX"
  "ICU_PERI_CLK_PWD \<noteq> ICU_INTERRUPT_ENABLE" "ICU_PWM_CLK_MUX \<noteq> ICU_INTERRUPT_ENABLE"
  by (simp_all add: pwm_regs icu_reg_defs gpio_regs)

lemmas pwm_addresses_apart [simp] = pwm_addresses_fixed [THEN not_sym]

lemma cnt_inj: "unat k < 6 \<Longrightarrow> unat l < 6 \<Longrightarrow> REG_APB_BK_PWMn_CNT_ADDR k = REG_APB_BK_PWMn_CNT_ADDR l \<longleftrightarrow> k = l"
  by (auto dest!: arg_cong [of _ _ unat] simp: unat_cnt intro: word_unat_eqD)

lemma pwm_icu_frame:
  "a \<noteq> ICU_PERI_CLK_PWD \<Longrightarrow> a \<noteq> ICU_PWM_CLK_MUX \<Longrightarrow> a \<noteq> ICU_INTERRUPT_ENABLE \<Longrightarrow> pwm_icu_after p enable r a = r a"
  by (simp add: pwm_icu_after_def Let_def)

lemma bit_nibble: "bit (0x0F :: int) n \<longleftrightarrow> n < 4"
proof -
  have "(0x0F :: int) = mask 4" by (simp add: mask_eq_exp_minus_1)
  then show ?thesis by (simp only: bit_mask_iff) auto
qed

lemma nibble_bit:
  "bit ((v AND NOT (push_bit (4 * c) 0x0F)) OR push_bit (4 * c) (ucast (w :: u8) AND 0x0F) :: u32) j \<longleftrightarrow>
     (if j div 4 = c \<and> j < 32 then bit w (j mod 4) else bit v j)"
proof -
  have "4 * c \<le> j \<and> j - 4 * c < 4 \<longleftrightarrow> j div 4 = c" by auto
  moreover have "j div 4 = c \<Longrightarrow> j - 4 * c = j mod 4" using minus_mult_div_eq_mod [of j 4] by simp
  ultimately show ?thesis
    by (auto simp: bit_or_iff bit_and_iff bit_not_iff bit_push_bit_iff bit_ucast_iff bit_nibble dest: bit_imp_le_length)
qed

section \<open>Properties\<close>

lemma pwm_clock_bits:
  assumes "unat (pp_channel p) < 6"
  shows "bit (pwm_icu_after p enable r ICU_PERI_CLK_PWD) j \<longleftrightarrow>
      (if j = 9 + unat (pp_channel p) then \<not> enable else bit (r ICU_PERI_CLK_PWD) j)"
    "bit (pwm_icu_after p enable r ICU_PWM_CLK_MUX) j \<longleftrightarrow>
      (if enable \<and> j = unat (pp_channel p) then cfg_clk (cfg_val p) = 0 else bit (r ICU_PWM_CLK_MUX) j)"
    "bit (pwm_icu_after p enable r ICU_INTERRUPT_ENABLE) j \<longleftrightarrow>
      (cfg_int_en (cfg_val p) = 1 \<and> j = 9 \<or> bit (r ICU_INTERRUPT_ENABLE) j)"
  using assms
  by (auto simp: pwm_icu_after_def Let_def bits_same bit_or_iff bit_and_iff bit_not_iff bit_BIT REG_READ_def
      simp flip: not_less dest: bit_imp_le_length)

text \<open>All registers after a channel is set up or taken down.\<close>

definition pwm_pins_set :: "'e pwm_param_t \<Rightarrow> bool \<Rightarrow> regs \<Rightarrow> regs" where
  "pwm_pins_set p enable r = (if cfg_mode (cfg_val p) \<noteq> PMODE_TIMER then pwm_pins_after (pp_channel p) enable r else r)"

definition pwm_regs_after :: "'e pwm_param_t \<Rightarrow> bool \<Rightarrow> regs \<Rightarrow> regs" where
  "pwm_regs_after p enable r = pwm_icu_after p enable (pwm_set_counter p (pwm_set_ctl p (pwm_pins_set p enable r)))"

lemma u32_channel: "unat (c :: u8) < 6 \<Longrightarrow> unat (ucast c :: u32) = unat c"
  by (erule pwm_channels) simp_all

lemma pwm_pins_set_frame:
  assumes "unat (pp_channel p) < 6"
  shows "a \<noteq> REG_GPIO_FUNC_CFG \<Longrightarrow> a \<noteq> pin_reg (pwm_pin (pp_channel p)) \<Longrightarrow> pwm_pins_set p enable r a = r a"
    "a \<noteq> REG_GPIO_FUNC_CFG \<Longrightarrow> (\<And>q. app_pin q \<Longrightarrow> a \<noteq> pin_reg q) \<Longrightarrow> pwm_pins_set p enable r a = r a"
  using pwm_pins_frame(1) [OF assms] by (auto simp: pwm_pins_set_def pwm_pins_after_def)

text \<open>Each register that is written, and the frame.\<close>

lemma pwm_after_frame:
  assumes "unat (pp_channel p) < 6"
    "a \<notin> {PWM_CTL, REG_APB_BK_PWMn_CNT_ADDR (ucast (pp_channel p)), ICU_PERI_CLK_PWD, ICU_PWM_CLK_MUX, ICU_INTERRUPT_ENABLE}"
  shows "pwm_regs_after p enable r a = pwm_pins_set p enable r a"
  using assms by (simp add: pwm_regs_after_def pwm_icu_frame pwm_set_counter_def pwm_set_ctl_def Let_def REG_WRITE_def)

lemma pwm_after_ctl:
  assumes "unat (pp_channel p) < 6"
  shows "bit (pwm_regs_after p enable r PWM_CTL) j \<longleftrightarrow>
    (if j div 4 = unat (pp_channel p) then bit (cfg_val p) (j mod 4) else bit (r PWM_CTL) j)"
proof -
  let ?c = "unat (pp_channel p)"
  have cc: "unat (ucast (pp_channel p) :: u32) < 6" using assms by (simp add: u32_channel)
  have "pwm_pins_set p enable r PWM_CTL = r PWM_CTL"
    using pwm_addresses(1) by (intro pwm_pins_set_frame(2) [OF assms]) (simp, metis)
  then have ctl: "pwm_regs_after p enable r PWM_CTL =
      (r PWM_CTL AND NOT (push_bit (4 * ?c) 0x0F)) OR push_bit (4 * ?c) (ucast (cfg_val p) AND 0x0F)"
    using cnt_addresses(1) [OF cc]
    by (simp add: pwm_regs_after_def pwm_icu_frame pwm_set_counter_def pwm_set_ctl_def Let_def REG_READ_def bits_same)
  have "j div 4 = ?c \<Longrightarrow> j < 32" using assms by auto
  then show ?thesis unfolding ctl nibble_bit by auto
qed

lemma low_half: "ucast (w :: u16) AND 0xFFFF = (ucast w :: u32)"
proof -
  have "ucast w AND 0xFFFF = take_bit 16 (ucast w :: u32)" by (simp add: take_bit_eq_mask mask_eq_exp_minus_1)
  also have "\<dots> = ucast w" by (rule bit_word_eqI) (auto simp: bit_take_bit_iff bit_ucast_iff dest: bit_imp_le_length)
  finally show ?thesis .
qed

lemma pwm_after_cnt:
  assumes "unat (pp_channel p) < 6" "unat k < 6"
  shows "pwm_regs_after p enable r (REG_APB_BK_PWMn_CNT_ADDR k) =
    (if unat k = unat (pp_channel p) then push_bit 16 (ucast (duty_cycle p)) + ucast (end_value p)
     else r (REG_APB_BK_PWMn_CNT_ADDR k))"
proof -
  have cc: "unat (ucast (pp_channel p) :: u32) < 6" using assms by (simp add: u32_channel)
  have k: "REG_APB_BK_PWMn_CNT_ADDR k = REG_APB_BK_PWMn_CNT_ADDR (ucast (pp_channel p)) \<longleftrightarrow> unat k = unat (pp_channel p)"
    using cnt_inj [OF assms(2) cc] u32_channel [OF assms(1)] by (auto intro: word_unat_eqD)
  have pins: "pwm_pins_set p enable r (REG_APB_BK_PWMn_CNT_ADDR k) = r (REG_APB_BK_PWMn_CNT_ADDR k)"
    using cnt_addresses(2) [OF assms(2)] pwm_addresses(2) [OF _ assms(2)]
    by (intro pwm_pins_set_frame(2) [OF assms(1)]) (simp, metis)
  show ?thesis
    using cnt_addresses [OF assms(2)] k pins
    by (auto simp: pwm_regs_after_def pwm_icu_frame pwm_set_counter_def pwm_set_ctl_def Let_def bits_same low_half)
qed

lemma pwm_after_icu:
  assumes "unat (pp_channel p) < 6"
  shows "bit (pwm_regs_after p enable r ICU_PERI_CLK_PWD) j \<longleftrightarrow>
      (if j = 9 + unat (pp_channel p) then \<not> enable else bit (r ICU_PERI_CLK_PWD) j)"
    "bit (pwm_regs_after p enable r ICU_PWM_CLK_MUX) j \<longleftrightarrow>
      (if enable \<and> j = unat (pp_channel p) then cfg_clk (cfg_val p) = 0 else bit (r ICU_PWM_CLK_MUX) j)"
    "bit (pwm_regs_after p enable r ICU_INTERRUPT_ENABLE) j \<longleftrightarrow>
      (cfg_int_en (cfg_val p) = 1 \<and> j = 9 \<or> bit (r ICU_INTERRUPT_ENABLE) j)"
proof -
  have cc: "unat (ucast (pp_channel p) :: u32) < 6" using assms by (simp add: u32_channel)
  have "pwm_set_counter p (pwm_set_ctl p (pwm_pins_set p enable r)) a = r a"
    if "a \<in> {ICU_PERI_CLK_PWD, ICU_PWM_CLK_MUX, ICU_INTERRUPT_ENABLE}" for a
  proof -
    have "a \<noteq> PWM_CTL" "a \<noteq> REG_GPIO_FUNC_CFG" "unat a < 0x802800" using that by (auto simp: pwm_regs gpio_regs icu_reg_defs)
    moreover have "a \<noteq> REG_APB_BK_PWMn_CNT_ADDR (ucast (pp_channel p))" using cnt_apart [OF cc, of a] calculation(3) by auto
    moreover have "app_pin q \<Longrightarrow> a \<noteq> pin_reg q" for q using pin_reg_apart [of q a] calculation(3) by auto
    ultimately show ?thesis
      using pwm_pins_set_frame(2) [OF assms, of a] by (simp add: pwm_set_counter_def pwm_set_ctl_def Let_def)
  qed
  then show "bit (pwm_regs_after p enable r ICU_PERI_CLK_PWD) j \<longleftrightarrow>
      (if j = 9 + unat (pp_channel p) then \<not> enable else bit (r ICU_PERI_CLK_PWD) j)"
    "bit (pwm_regs_after p enable r ICU_PWM_CLK_MUX) j \<longleftrightarrow>
      (if enable \<and> j = unat (pp_channel p) then cfg_clk (cfg_val p) = 0 else bit (r ICU_PWM_CLK_MUX) j)"
    "bit (pwm_regs_after p enable r ICU_INTERRUPT_ENABLE) j \<longleftrightarrow>
      (cfg_int_en (cfg_val p) = 1 \<and> j = 9 \<or> bit (r ICU_INTERRUPT_ENABLE) j)"
    by (simp_all add: pwm_regs_after_def pwm_clock_bits [OF assms])
qed

lemma pwm_after_pin:
  assumes "unat (pp_channel p) < 6" "app_pin q"
  shows "pwm_regs_after p enable r (pin_reg q) =
    (if cfg_mode (cfg_val p) \<noteq> PMODE_TIMER \<and> q = pwm_pin (pp_channel p) then if enable then 0x40 else 0x0C
     else r (pin_reg q))"
proof -
  have cc: "unat (ucast (pp_channel p) :: u32) < 6" using assms by (simp add: u32_channel)
  show ?thesis
    using pwm_addresses [OF assms(2)] pwm_addresses(2) [OF assms(2) cc] pwm_pins_frame(2) [OF assms]
    by (subst pwm_after_frame [OF assms(1)]) (auto simp: pwm_pins_set_def)
qed

lemma pwm_after_func:
  assumes "unat (pp_channel p) < 6"
  shows "pwm_regs_after p enable r REG_GPIO_FUNC_CFG =
    (if cfg_mode (cfg_val p) \<noteq> PMODE_TIMER \<and> enable then r REG_GPIO_FUNC_CFG OR BIT (unat (pwm_pin (pp_channel p)))
     else r REG_GPIO_FUNC_CFG)"
proof -
  have cc: "unat (ucast (pp_channel p) :: u32) < 6" using assms by (simp add: u32_channel)
  have "REG_GPIO_FUNC_CFG \<notin>
      {PWM_CTL, REG_APB_BK_PWMn_CNT_ADDR (ucast (pp_channel p)), ICU_PERI_CLK_PWD, ICU_PWM_CLK_MUX, ICU_INTERRUPT_ENABLE}"
    using cnt_addresses(2) [OF cc] by (auto simp: pwm_regs gpio_regs icu_reg_defs)
  then show ?thesis
    using pin_reg_not_func [OF pwm_pin_app [OF assms]]
    by (subst pwm_after_frame [OF assms]) (auto simp: pwm_pins_set_def pwm_pins_after_def)
qed

text \<open>C30: Setting a channel up, and taking it down again, writes these registers and no other: the nibble of the channel in the control
  register becomes the low nibble of the configuration, its counter the duty cycle above the end value; its clock is switched, and its
  source of clock selected when it is set up; the interrupt line of the whole unit is switched on whenever the configuration asks
  for interrupts, even when the channel is taken down; its pin, unless it is a timer, is given to it, with its bit in the register of
  second functions, or made an input again; and its handler is stored. The bits of other channels in the shared registers and the
  other pins keep what they had.

  The source is the 32 kHz clock for the value 0 and the unit's clock for the others: the values 2 and 3, for which
  \<open>pwm_pub.h\<close> names the DPLL, select the same source as the value 1, 26 MHz.\<close>

theorem pwm_channel_set:
  fixes p :: "'e pwm_param_t" and s :: "'e pwm_io"
  defines "c \<equiv> unat (pp_channel p)" and "r \<equiv> pw_regs s"
  assumes "c < 6" "duty_cycle p \<le> end_value p" "unat k < 6" "app_pin q"
  shows "\<exists>s1. pwm_ctrl ((if enable then CMD_PWM_INIT_PARAM else CMD_PWM_DEINIT_PARAM) (Some p)) s = Ret (PWM_SUCCESS, None, s1) \<and>
     (bit (pw_regs s1 PWM_CTL) j \<longleftrightarrow> (if j div 4 = c then bit (cfg_val p) (j mod 4) else bit (r PWM_CTL) j)) \<and>
     pw_regs s1 (REG_APB_BK_PWMn_CNT_ADDR k) =
       (if unat k = c then push_bit 16 (ucast (duty_cycle p)) + ucast (end_value p) else r (REG_APB_BK_PWMn_CNT_ADDR k)) \<and>
     (bit (pw_regs s1 ICU_PERI_CLK_PWD) j \<longleftrightarrow> (if j = 9 + c then \<not> enable else bit (r ICU_PERI_CLK_PWD) j)) \<and>
     (bit (pw_regs s1 ICU_PWM_CLK_MUX) j \<longleftrightarrow>
        (if enable \<and> j = c then cfg_clk (cfg_val p) = 0 else bit (r ICU_PWM_CLK_MUX) j)) \<and>
     (bit (pw_regs s1 ICU_INTERRUPT_ENABLE) j \<longleftrightarrow> cfg_int_en (cfg_val p) = 1 \<and> j = 9 \<or> bit (r ICU_INTERRUPT_ENABLE) j) \<and>
     pw_regs s1 (pin_reg q) =
       (if cfg_mode (cfg_val p) \<noteq> PMODE_TIMER \<and> Some q = pwm_func (pp_channel p) then if enable then 0x40 else 0x0C
        else r (pin_reg q)) \<and>
     pw_regs s1 REG_GPIO_FUNC_CFG =
       (if cfg_mode (cfg_val p) \<noteq> PMODE_TIMER \<and> enable then r REG_GPIO_FUNC_CFG OR BIT (unat (pwm_pin (pp_channel p)))
        else r REG_GPIO_FUNC_CFG) \<and>
     pwm_func (pp_channel p) = Some (pwm_pin (pp_channel p)) \<and>
     (\<forall>a. a \<notin> {PWM_CTL, REG_APB_BK_PWMn_CNT_ADDR (ucast (pp_channel p)), ICU_PERI_CLK_PWD, ICU_PWM_CLK_MUX,
         ICU_INTERRUPT_ENABLE, pin_reg (pwm_pin (pp_channel p)), REG_GPIO_FUNC_CFG} \<longrightarrow> pw_regs s1 a = r a) \<and>
     p_PWM_Int_Handler s1 = (p_PWM_Int_Handler s)(c := p_Int_Handler p) \<and> pw_rest s1 = pw_rest s"
proof -
  note c = \<open>c < 6\<close> [unfolded c_def]
  have run: "pwm_ctrl ((if enable then CMD_PWM_INIT_PARAM else CMD_PWM_DEINIT_PARAM) (Some p)) s = Ret (PWM_SUCCESS, None,
      s\<lparr>pw_regs := pwm_regs_after p enable r, p_PWM_Int_Handler := (p_PWM_Int_Handler s)(c := p_Int_Handler p)\<rparr>)"
    by (simp add: pwm_init_runs [OF c assms(4)] pwm_regs_after_def pwm_pins_set_def c_def r_def)
  have frame: "pwm_regs_after p enable r a = r a"
    if "a \<notin> {PWM_CTL, REG_APB_BK_PWMn_CNT_ADDR (ucast (pp_channel p)), ICU_PERI_CLK_PWD, ICU_PWM_CLK_MUX,
         ICU_INTERRUPT_ENABLE, pin_reg (pwm_pin (pp_channel p)), REG_GPIO_FUNC_CFG}" for a
    using that pwm_after_frame [OF c, of a enable r] pwm_pins_set_frame(1) [OF c, of a enable r] by simp
  show ?thesis
    unfolding run
    by (rule exI [of _ "s\<lparr>pw_regs := pwm_regs_after p enable r, p_PWM_Int_Handler := (p_PWM_Int_Handler s)(c := p_Int_Handler p)\<rparr>"],
        intro conjI)
      (simp_all add: pwm_after_ctl [OF c] pwm_after_cnt [OF c assms(5)] pwm_after_icu [OF c] pwm_after_pin [OF c assms(6)]
        pwm_after_func [OF c] pwm_func_pin [OF c] frame c_def)
qed

lemma pwm_channel_set_witness:
  "\<exists>s1. pwm_ctrl (CMD_PWM_INIT_PARAM (Some \<lparr>pp_channel = 4, cfg_val = 3, end_value = 100, duty_cycle = 25, p_Int_Handler = None\<rparr>))
      \<lparr>pw_regs = \<lambda>_. 0, pw_rest = (), p_PWM_Int_Handler = \<lambda>_. None\<rparr> = Ret (PWM_SUCCESS, None, s1) \<and>
    pw_regs s1 (REG_APB_BK_PWMn_CNT_ADDR 4) = 0x190064 \<and> pw_regs s1 (pin_reg 18) = 0x40"
proof -
  have "app_pin 18" by (simp add: app_pin_def)
  then show ?thesis
    using pwm_channel_set [of "\<lparr>pp_channel = 4, cfg_val = 3, end_value = 100, duty_cycle = 25, p_Int_Handler = None\<rparr>" 4 18
        True "\<lparr>pw_regs = \<lambda>_. 0, pw_rest = (), p_PWM_Int_Handler = \<lambda>_. None\<rparr>" 0]
    by (simp add: cfg_mode_def PMODE_TIMER_def pwm_func_def) blast
qed

text \<open>C31: On hardware where a store into the interrupt status clears the bits it writes, the interrupt handler ends; it runs the handler
  of every channel that was pending when it started exactly once, in ascending order, on the registers the earlier ones left, and
  clears the channel after its handler, and at last all that was pending. What arrives for a channel that was not pending stays for the
  next interrupt; what arrives again for a channel that was pending, before its handler has ended, is cleared without being served.\<close>

theorem pwm_isr_serves_once:
  assumes "store = clr_bits PWM_INTERRUPT_STATUS"
  shows "\<exists>s2. pwm_isr store s = Some s2 \<and>
     (let status = pw_regs s PWM_INTERRUPT_STATUS; s1 = fold (serve_channel status) [0, 1, 2, 3, 4, 5] s
      in pw_rest s2 = pw_rest s1 \<and>
         pw_regs s2 = (pw_regs s1)(PWM_INTERRUPT_STATUS := pw_regs s1 PWM_INTERRUPT_STATUS AND NOT status) \<and>
         p_PWM_Int_Handler s2 = p_PWM_Int_Handler s)"
proof -
  have table: "p_PWM_Int_Handler (fold (serve_channel status) is s) = p_PWM_Int_Handler s" for status "is" s
  proof (induction "is" arbitrary: s)
    case (Cons i "is")
    have "p_PWM_Int_Handler (serve_channel status i s) = p_PWM_Int_Handler s"
      by (simp add: serve_channel_def split: option.split prod.split)
    then show ?case using Cons by simp
  qed simp
  have "[0..<6] = [0, 1, 2, 3, 4, 5 :: nat]" by (simp add: upt_rec)
  then show ?thesis
    using pwm_isr_serves [OF assms, of s] table
    by (simp add: Let_def clr_bits_def REG_WRITE_def REG_READ_def del: fold_Cons)
qed

text \<open>Channels 1 and 3 pending, with handlers that note their channel: the second makes channel 1 pending once more, in vain.\<close>

lemma pwm_isr_serves_once_witness:
  "\<exists>s2. pwm_isr (clr_bits PWM_INTERRUPT_STATUS)
      \<lparr>pw_regs = (\<lambda>_. 0)(PWM_INTERRUPT_STATUS := 0xA), pw_rest = [],
       p_PWM_Int_Handler = \<lambda>_. Some (\<lambda>c (r, w). (set_bits PWM_INTERRUPT_STATUS 0x12 r, w @ [c]))\<rparr> = Some s2 \<and>
    pw_rest s2 = [1, 3] \<and> pw_regs s2 PWM_INTERRUPT_STATUS = 0x10"
  using pwm_isr_serves_once [OF refl, of "\<lparr>pw_regs = (\<lambda>_. 0)(PWM_INTERRUPT_STATUS := 0xA), pw_rest = [],
       p_PWM_Int_Handler = \<lambda>_. Some (\<lambda>c (r, w). (set_bits PWM_INTERRUPT_STATUS 0x12 r, w @ [c]))\<rparr>"]
  by (simp add: serve_channel_def clr_bits_def set_bits_def REG_WRITE_def REG_READ_def BIT_def Let_def) auto

end
