(* ===== verification/Sys_Clock.thy ===== *)
theory Sys_Clock
  imports Pwm
begin

text \<open>
  The system clock \<open>beken378/func/misc/fake_clock.c\<close>, driven by the third channel of \<open>Pwm\<close>, and the sleep of the processor that
  stops it: \<open>func/power_save/mcu_ps.c\<close> and \<open>driver/pwm/mcu_ps_timer.c\<close>, in the configuration of the BK7231 without AliOS.

  The kernel's tick, the radio's power saving and the sleep itself (\<open>sctrl_mcu_sleep\<close> to \<open>sctrl_mcu_wakeup\<close>) are arguments. The
  wait for the serial ports before a sleep reads registers only and is left out.
\<close>

unbundle bit_operations_syntax

section \<open>The clock\<close>

definition FCLK_PWM_ID :: u8 where "FCLK_PWM_ID = 3"
definition FCLK_PWM_DURATION :: u32 where "FCLK_PWM_DURATION = 1"
definition FCLK_DURATION_MS :: u32 where "FCLK_DURATION_MS = 2"
definition FCLK_SECOND :: u32 where "FCLK_SECOND = 1000 div FCLK_DURATION_MS"
definition FCLK_CHUNK_COUNT :: u32 where "FCLK_CHUNK_COUNT = FCLK_DURATION_MS div FCLK_PWM_DURATION"

lemma FCLK_SECOND_value [simp]: "FCLK_SECOND = 500"
  by (simp add: FCLK_SECOND_def FCLK_DURATION_MS_def)

lemma FCLK_CHUNK_COUNT_value [simp]: "FCLK_CHUNK_COUNT = 2"
  by (simp add: FCLK_CHUNK_COUNT_def FCLK_DURATION_MS_def FCLK_PWM_DURATION_def)

record 'w fclk =
  current_clock :: u32
  current_seconds :: u32
  second_countdown :: u32
  fclk_vernier_cnt :: u32
  fclk_callback :: "('w \<Rightarrow> 'w) option"
  fclk_rest :: 'w

definition fclk_start :: "'w \<Rightarrow> 'w fclk" where
  "fclk_start w = \<lparr>current_clock = 0, current_seconds = 0, second_countdown = FCLK_SECOND, fclk_vernier_cnt = 0,
     fclk_callback = None, fclk_rest = w\<rparr>"

text \<open>What the clock calls: the radio's use of the interrupt, its handler, and the kernel's tick with its change of tasks.\<close>

record 'w fclk_env =
  power_save_use_pwm_isr :: "'w \<Rightarrow> bool"
  power_save_pwm_isr :: "u8 \<Rightarrow> 'w \<Rightarrow> 'w"
  kernel_tick :: "'w \<Rightarrow> 'w"

definition fclk_register_cb :: "('w \<Rightarrow> 'w) option \<Rightarrow> 'w fclk \<Rightarrow> 'w fclk" where
  "fclk_register_cb cb c = c\<lparr>fclk_callback := cb\<rparr>"

definition fclk_clear_vernier_cnt :: "'w fclk \<Rightarrow> 'w fclk" where
  "fclk_clear_vernier_cnt c = c\<lparr>fclk_vernier_cnt := 0\<rparr>"

definition fclk_adjust_vernier_cnt :: "'w fclk \<Rightarrow> u32 \<times> 'w fclk" where
  "fclk_adjust_vernier_cnt c = (let c1 = c\<lparr>fclk_vernier_cnt := fclk_vernier_cnt c + 1\<rparr> in (fclk_vernier_cnt c1, c1))"

definition fclk_hdl :: "'w fclk_env \<Rightarrow> u8 \<Rightarrow> 'w fclk \<Rightarrow> 'w fclk" where
  "fclk_hdl env param c =
     (if power_save_use_pwm_isr env (fclk_rest c) then c\<lparr>fclk_rest := power_save_pwm_isr env param (fclk_rest c)\<rparr>
      else
        (let c1 = c\<lparr>current_clock := current_clock c + 1, fclk_rest := kernel_tick env (fclk_rest c)\<rparr>;
             c2 = c1\<lparr>second_countdown := second_countdown c1 - 1\<rparr>
         in if second_countdown c2 = 0
            then c2\<lparr>current_seconds := current_seconds c2 + 1, second_countdown := FCLK_SECOND\<rparr> else c2))"

definition fclk_tick_handler :: "'w fclk_env \<Rightarrow> u8 \<Rightarrow> 'w fclk \<Rightarrow> 'w fclk" where
  "fclk_tick_handler env param c =
     (case fclk_adjust_vernier_cnt c of (n, c1) \<Rightarrow>
        if FCLK_CHUNK_COUNT = n then fclk_hdl env param (fclk_clear_vernier_cnt c1) else c1)"

definition fclk_pwm_hdl :: "'w fclk_env \<Rightarrow> u8 \<Rightarrow> 'w fclk \<Rightarrow> 'w fclk" where
  "fclk_pwm_hdl env param c =
     fclk_tick_handler env param
       (case fclk_callback c of None \<Rightarrow> c | Some cb \<Rightarrow> c\<lparr>fclk_rest := cb (fclk_rest c)\<rparr>)"

definition fclk_update_tick :: "u32 \<Rightarrow> 'w fclk \<Rightarrow> 'w fclk" where
  "fclk_update_tick tick c =
     (let c1 = c\<lparr>current_clock := current_clock c + tick\<rparr>
      in if second_countdown c1 \<le> tick
         then c1\<lparr>current_seconds := current_seconds c1 + 1, second_countdown := FCLK_SECOND - (tick - second_countdown c1)\<rparr>
         else c1\<lparr>second_countdown := second_countdown c1 - tick\<rparr>)"

definition fclk_get_tick :: "'w fclk \<Rightarrow> u32" where "fclk_get_tick c = current_clock c"
definition fclk_get_second :: "'w fclk \<Rightarrow> u32" where "fclk_get_second c = current_seconds c"
definition fclk_from_sec_to_tick :: "u32 \<Rightarrow> u32" where "fclk_from_sec_to_tick sec = sec * FCLK_SECOND"

definition fclk_reset_count :: "'w fclk \<Rightarrow> 'w fclk" where
  "fclk_reset_count c = c\<lparr>current_clock := 0, current_seconds := 0\<rparr>"

definition fclk_cal_endvalue :: "u32 \<Rightarrow> u32" where
  "fclk_cal_endvalue mode =
     (if PWM_CLK_32K = mode then FCLK_PWM_DURATION * 32
      else if PWM_CLK_26M = mode then FCLK_PWM_DURATION * 26000
      else 1)"

text \<open>\<open>rsv\<close> is what the unset bits of the local parameter hold.\<close>

definition fclk_param :: "'w fclk_env \<Rightarrow> u8 \<Rightarrow> 'w fclk pwm_param_t" where
  "fclk_param env rsv =
     \<lparr>pp_channel = FCLK_PWM_ID, cfg_val = cfg_bits PWM_ENABLE PWM_INT_EN PMODE_TIMER (ucast PWM_CLK_26M) rsv,
      end_value = ucast (fclk_cal_endvalue PWM_CLK_26M), duty_cycle = 0,
      p_Int_Handler = Some (\<lambda>param (r, c). (r, fclk_pwm_hdl env param c))\<rparr>"

definition fclk_init :: "'w fclk_env \<Rightarrow> u8 \<Rightarrow> 'w fclk pwm_io \<Rightarrow> 'w fclk pwm_io c_run" where
  "fclk_init env rsv s = pwm_call (CMD_PWM_INIT_PARAM (Some (fclk_param env rsv))) s"

section \<open>The timer of a sleep\<close>

text \<open>
  \<open>PS_PWM_ID\<close> is \<open>FCLK_PWM_ID\<close>, so \<open>PWM3\<close>, a constant of an enumeration. The conditionals of \<open>mcu_ps_pub.h\<close> compare it with \<open>PWM0\<close>
  before the compiler knows either name: the preprocessor takes both for 0, and the first branch, that of channel 0, is chosen.
\<close>

definition PS_PWM_ID :: u32 where "PS_PWM_ID = ucast FCLK_PWM_ID"
definition MCU_PS_PWM_COUNTER :: u32 where "MCU_PS_PWM_COUNTER = PWM0_COUNTER"
definition PWD_MCU_WAKE_PWM_BIT :: u32 where "PWD_MCU_WAKE_PWM_BIT = push_bit 9 1"
definition PWD_UART1_CLK_BIT :: u32 where "PWD_UART1_CLK_BIT = push_bit 0 1"
definition PWD_UART2_CLK_BIT :: u32 where "PWD_UART2_CLK_BIT = push_bit 1 1"

definition ps_pwm_enable :: "regs \<Rightarrow> regs" where
  "ps_pwm_enable r =
     REG_WRITE PWM_CTL ((REG_READ PWM_CTL r AND NOT (push_bit (unat (PS_PWM_ID * 4)) 0xf)) OR push_bit (unat (PS_PWM_ID * 4)) 0x7) r"

definition ps_pwm_disable :: "regs \<Rightarrow> regs" where
  "ps_pwm_disable r = REG_WRITE PWM_CTL (REG_READ PWM_CTL r AND NOT (push_bit (unat (PS_PWM_ID * 4)) 0xf)) r"

definition ps_pwm_set_period :: "u32 \<Rightarrow> bool \<Rightarrow> regs \<Rightarrow> regs" where
  "ps_pwm_set_period period lpo r =
     REG_WRITE MCU_PS_PWM_COUNTER period (icu_do (if lpo then CMD_CONF_PWM_LPOCLK else CMD_CONF_PWM_PCLK) PS_PWM_ID r)"

definition ps_pwm_reconfig :: "u32 \<Rightarrow> bool \<Rightarrow> regs \<Rightarrow> regs" where
  "ps_pwm_reconfig period lpo r = ps_pwm_enable (ps_pwm_set_period period lpo (ps_pwm_disable r))"

definition ps_pwm_suspend_tick :: "u32 \<Rightarrow> regs \<Rightarrow> regs" where
  "ps_pwm_suspend_tick period = ps_pwm_reconfig period True"

definition ps_pwm_resume_tick :: "regs \<Rightarrow> regs" where
  "ps_pwm_resume_tick = ps_pwm_reconfig (fclk_cal_endvalue PWM_CLK_26M) False"

section \<open>The processor's sleep\<close>

record mcu_ps_info =
  mcu_ps_on :: u8
  peri_busy_count :: int
  mcu_prevent :: u32

definition mcu_ps_start :: mcu_ps_info where
  "mcu_ps_start = \<lparr>mcu_ps_on = 0, peri_busy_count = 0, mcu_prevent = 0\<rparr>"

definition peri_busy_count_add :: "mcu_ps_info \<Rightarrow> mcu_ps_info" where
  "peri_busy_count_add i = i\<lparr>peri_busy_count := peri_busy_count i + 1\<rparr>"

definition peri_busy_count_dec :: "mcu_ps_info \<Rightarrow> mcu_ps_info" where
  "peri_busy_count_dec i = i\<lparr>peri_busy_count := peri_busy_count i - 1\<rparr>"

definition mcu_prevent_set :: "u32 \<Rightarrow> mcu_ps_info \<Rightarrow> mcu_ps_info" where
  "mcu_prevent_set prevent i = i\<lparr>mcu_prevent := mcu_prevent i OR prevent\<rparr>"

definition mcu_prevent_clear :: "u32 \<Rightarrow> mcu_ps_info \<Rightarrow> mcu_ps_info" where
  "mcu_prevent_clear prevent i = i\<lparr>mcu_prevent := mcu_prevent i AND NOT prevent\<rparr>"

text \<open>\<open>unit_init\<close> and \<open>unit_exit\<close> are \<open>sctrl_mcu_init\<close> and \<open>sctrl_mcu_exit\<close> on the registers.\<close>

definition mcu_ps_init :: "(regs \<Rightarrow> regs) \<Rightarrow> mcu_ps_info \<times> regs \<Rightarrow> mcu_ps_info \<times> regs" where
  "mcu_ps_init unit_init s =
     (case s of (i, r) \<Rightarrow> if 0 = mcu_ps_on i then (\<lparr>mcu_ps_on = 1, peri_busy_count = 0, mcu_prevent = 0\<rparr>, unit_init r) else s)"

definition mcu_ps_exit :: "(regs \<Rightarrow> regs) \<Rightarrow> mcu_ps_info \<times> regs \<Rightarrow> mcu_ps_info \<times> regs" where
  "mcu_ps_exit unit_exit s =
     (case s of (i, r) \<Rightarrow> if 1 = mcu_ps_on i then (\<lparr>mcu_ps_on = 0, peri_busy_count = 0, mcu_prevent = 0\<rparr>, unit_exit r) else s)"

definition MS_TO_TICK :: u32 where "MS_TO_TICK = 2"

definition sleep_period :: "u32 \<Rightarrow> u32" where
  "sleep_period sleep_tick =
     (let sleep_ms = sleep_tick * MS_TO_TICK; sleep_pwm_t = sleep_ms * 32
      in if 65535 < sleep_pwm_t then 65535 else if sleep_pwm_t < 160 then 160 else sleep_pwm_t)"

definition sleep_clocks :: u32 where
  "sleep_clocks = 0xfffff AND NOT PWD_MCU_WAKE_PWM_BIT AND NOT PWD_UART2_CLK_BIT AND NOT PWD_UART1_CLK_BIT"

text \<open>\<open>rf_idle\<close> is what the radio answers, \<open>sleep\<close> the sleep with the clocks that are switched off, up to the wake.\<close>

definition mcu_power_save ::
    "(u32 \<Rightarrow> regs \<Rightarrow> regs) \<Rightarrow> bool \<Rightarrow> u32 \<Rightarrow> mcu_ps_info \<times> 'w fclk \<times> regs \<Rightarrow> u32 \<times> 'w fclk \<times> regs" where
  "mcu_power_save sleep rf_idle sleep_tick s =
     (case s of (i, c, r) \<Rightarrow>
        (let asleep = (mcu_ps_on i = 1 \<and> peri_busy_count i = 0 \<and> mcu_prevent i = 0 \<and> rf_idle);
             r1 = (if asleep then ps_pwm_resume_tick (sleep sleep_clocks (ps_pwm_suspend_tick (sleep_period sleep_tick) r)) else r);
             miss_ticks = (if asleep then sleep_tick else 0)
         in (miss_ticks, fclk_update_tick miss_ticks c, r1)))"

section \<open>Time\<close>

text \<open>What the clock is driven by: an interrupt of its channel, the ticks of a sleep, a reset of its counts.\<close>

datatype clk_event = Clk_Interrupt | Clk_Sleep u32 | Clk_Reset

fun clk_step :: "'w fclk_env \<Rightarrow> clk_event \<Rightarrow> 'w fclk \<Rightarrow> 'w fclk" where
  "clk_step env Clk_Interrupt c = fclk_pwm_hdl env FCLK_PWM_ID c"
| "clk_step env (Clk_Sleep tick) c = fclk_update_tick tick c"
| "clk_step env Clk_Reset c = fclk_reset_count c"

fun clk_typed :: "clk_event \<Rightarrow> bool" where
  "clk_typed (Clk_Sleep tick) \<longleftrightarrow> tick \<le> 500"
| "clk_typed _ \<longleftrightarrow> True"

text \<open>True time: the ticks since the start, half a tick, and the ticks at the last reset.\<close>

type_synonym true_time = "nat \<times> bool \<times> nat"

fun clk_spec :: "clk_event \<Rightarrow> true_time \<Rightarrow> true_time" where
  "clk_spec Clk_Interrupt (n, h, b) = (if h then (n + 1, False, b) else (n, True, b))"
| "clk_spec (Clk_Sleep tick) (n, h, b) = (n + unat tick, h, b)"
| "clk_spec Clk_Reset (n, h, b) = (n, h, n)"

text \<open>The counts at a time, and with them the state between two interrupts.\<close>

definition counts_at :: "nat \<Rightarrow> nat \<Rightarrow> u32 \<Rightarrow> u32 \<Rightarrow> u32 \<Rightarrow> bool" where
  "counts_at n b clock secs left \<longleftrightarrow>
     clock = of_nat n - of_nat b \<and> secs = of_nat (n div 500) - of_nat (b div 500) \<and> left = of_nat (500 - n mod 500)"

definition clk_rel :: "'w fclk \<Rightarrow> true_time \<Rightarrow> bool" where
  "clk_rel c t =
     (case t of (n, h, b) \<Rightarrow>
        counts_at n b (current_clock c) (current_seconds c) (second_countdown c) \<and> fclk_vernier_cnt c = (if h then 1 else 0))"

lemma div_mod_500: "r < 500 \<Longrightarrow> (n :: nat) = 500 * q + r \<Longrightarrow> n div 500 = q \<and> n mod 500 = r"
  by simp

lemma counts_at_advance:
  assumes at: "counts_at n b clock secs left" and t: "tick \<le> 500"
  shows "if left \<le> tick then counts_at (n + unat tick) b (clock + tick) (secs + 1) (500 - (tick - left))
     else counts_at (n + unat tick) b (clock + tick) secs (left - tick)"
proof -
  define k where "k = n mod 500"
  define m where "m = unat tick"
  have m: "tick = of_nat m" "m \<le> 500" using t by (simp_all add: m_def word_le_nat_alt)
  have k: "k < 500" "n = 500 * (n div 500) + k" by (simp_all add: k_def)
  have l: "left = of_nat (500 - k)" using at by (simp add: counts_at_def k_def)
  have le: "left \<le> tick \<longleftrightarrow> 500 - k \<le> m"
    using k(1) m by (simp add: l word_le_nat_alt unat_of_nat32 del: of_nat_diff)
  show ?thesis
  proof (cases "500 - k \<le> m")
    case True
    have "n + m = 500 * (n div 500 + 1) + (k + m - 500)" using True k by simp
    moreover have "k + m - 500 < 500" using k(1) m(2) by simp
    ultimately have "(n + m) div 500 = n div 500 + 1" "(n + m) mod 500 = k + m - 500"
      using div_mod_500 [of "k + m - 500" "n + m" "n div 500 + 1"] by blast+
    moreover have "500 - (tick - left) = (of_nat (500 - (k + m - 500)) :: u32)"
      using True k(1) m by (simp add: l of_nat_diff)
    ultimately have "counts_at (n + m) b (clock + tick) (secs + 1) (500 - (tick - left))"
      using at by (simp add: counts_at_def m(1) del: of_nat_diff)
    then show ?thesis using True le by (simp add: m_def)
  next
    case False
    have "n + m = 500 * (n div 500) + (k + m)" using k by simp
    moreover have "k + m < 500" using False by simp
    ultimately have "(n + m) div 500 = n div 500" "(n + m) mod 500 = k + m"
      using div_mod_500 [of "k + m" "n + m" "n div 500"] by blast+
    moreover have "left - tick = (of_nat (500 - (k + m)) :: u32)"
      using False k(1) m by (simp add: l of_nat_diff)
    ultimately have "counts_at (n + m) b (clock + tick) secs (left - tick)"
      using at by (simp add: counts_at_def m(1) del: of_nat_diff)
    then show ?thesis using False le by (simp add: m_def)
  qed
qed

lemma update_tick_rel:
  assumes "clk_rel c (n, h, b)" "tick \<le> 500"
  shows "clk_rel (fclk_update_tick tick c) (n + unat tick, h, b)"
  using assms counts_at_advance [of n b "current_clock c" "current_seconds c" "second_countdown c" tick]
  by (auto simp: clk_rel_def fclk_update_tick_def Let_def split: if_splits)

lemma hdl_as_update:
  assumes "\<not> power_save_use_pwm_isr env (fclk_rest c)" "second_countdown c \<noteq> 0"
  shows "fclk_hdl env param c = (fclk_update_tick 1 c)\<lparr>fclk_rest := kernel_tick env (fclk_rest c)\<rparr>"
proof -
  have "unat (second_countdown c) \<noteq> 0" using assms(2) by (simp add: unat_eq_zero)
  then have one: "second_countdown c \<le> 1 \<longleftrightarrow> second_countdown c = 1"
    using word_unat_eqD [of "second_countdown c" 1] by (auto simp: word_le_nat_alt)
  show ?thesis
  proof (cases "second_countdown c = 1")
    case True
    then show ?thesis using assms(1) by (simp add: fclk_hdl_def fclk_update_tick_def)
  next
    case False
    then show ?thesis using assms(1) one by (simp add: fclk_hdl_def fclk_update_tick_def)
  qed
qed

lemma clk_rel_left: "clk_rel c (n, h, b) \<Longrightarrow> second_countdown c \<noteq> 0"
proof
  assume "clk_rel c (n, h, b)" "second_countdown c = 0"
  then have "unat (of_nat (500 - n mod 500) :: u32) = 0" by (simp add: clk_rel_def counts_at_def del: of_nat_diff)
  then show False by (simp add: unat_of_nat32 del: of_nat_diff)
qed

lemma clk_rel_cong:
  "clk_rel c t \<Longrightarrow> clk_rel (c\<lparr>fclk_rest := w\<rparr>) t" "clk_rel c (n, h, b) \<Longrightarrow> clk_rel (c\<lparr>fclk_vernier_cnt := if g then 1 else 0\<rparr>) (n, g, b)"
  by (auto simp: clk_rel_def split: prod.splits)

lemma clk_step_rel:
  assumes rel: "clk_rel c t" and "clk_typed e" and aware: "\<And>w. \<not> power_save_use_pwm_isr env w"
  shows "clk_rel (clk_step env e c) (clk_spec e t)"
proof -
  obtain n h b where t: "t = (n, h, b)" by (cases t)
  show ?thesis
  proof (cases e)
    case Clk_Interrupt
    define c1 where "c1 = (case fclk_callback c of None \<Rightarrow> c | Some cb \<Rightarrow> c\<lparr>fclk_rest := cb (fclk_rest c)\<rparr>)"
    have c1: "clk_rel c1 (n, h, b)" using rel t by (auto simp: c1_def clk_rel_cong split: option.split)
    then have v: "fclk_vernier_cnt c1 = (if h then 1 else 0)" by (simp add: clk_rel_def)
    show ?thesis
    proof (cases h)
      case True
      have r2: "clk_rel (c1\<lparr>fclk_vernier_cnt := 0\<rparr>) (n, False, b)" using clk_rel_cong(2) [OF c1, of False] by simp
      have "clk_step env e c = fclk_hdl env FCLK_PWM_ID (c1\<lparr>fclk_vernier_cnt := 0\<rparr>)"
        using v True by (simp add: Clk_Interrupt fclk_pwm_hdl_def c1_def [symmetric] fclk_tick_handler_def fclk_adjust_vernier_cnt_def
            fclk_clear_vernier_cnt_def)
      also have "\<dots> = (fclk_update_tick 1 (c1\<lparr>fclk_vernier_cnt := 0\<rparr>))\<lparr>fclk_rest := kernel_tick env (fclk_rest c1)\<rparr>"
        using hdl_as_update [OF aware clk_rel_left [OF r2]] by simp
      finally show ?thesis
        using clk_rel_cong(1) [OF update_tick_rel [OF r2, of 1]] True by (simp add: t Clk_Interrupt)
    next
      case False
      have "clk_step env e c = c1\<lparr>fclk_vernier_cnt := 1\<rparr>"
        using v False by (simp add: Clk_Interrupt fclk_pwm_hdl_def c1_def [symmetric] fclk_tick_handler_def fclk_adjust_vernier_cnt_def)
      then show ?thesis using clk_rel_cong(2) [OF c1, of True] False by (simp add: t Clk_Interrupt)
    qed
  next
    case (Clk_Sleep tick)
    then show ?thesis using update_tick_rel [of c n h b tick] rel assms(2) by (simp add: t)
  next
    case Clk_Reset
    then show ?thesis using rel by (simp add: t clk_rel_def counts_at_def fclk_reset_count_def)
  qed
qed

text \<open>A clock that the radio leaves its interrupt to; the radio's use of it is in \<open>power_save.c\<close>, which is not modelled.\<close>

definition clock_env :: "('w \<Rightarrow> 'w) \<Rightarrow> 'w fclk_env" where
  "clock_env tick = \<lparr>power_save_use_pwm_isr = \<lambda>_. False, power_save_pwm_isr = \<lambda>_ w. w, kernel_tick = tick\<rparr>"

interpretation clock: refined_machine "\<lambda>e c. Ret (clk_step (clock_env tick) e c)" clk_spec clk_rel clk_typed for tick
  by unfold_locales (auto simp: clock_env_def intro: clk_step_rel)

lemma clk_rel_start: "clk_rel (fclk_start w) (0, False, 0)"
  by (simp add: clk_rel_def counts_at_def fclk_start_def)

lemma clock_runs:
  assumes "list_all clk_typed es"
  shows "clk_rel (fold (clk_step (clock_env tick)) es (fclk_start w)) (fold clk_spec es (0, False, 0))"
  using clock.run_refines [OF clk_rel_start assms] by (simp add: c_steps_Ret)

section \<open>Properties of the clock\<close>

text \<open>C9: The clock keeps time: whatever interrupts, sleeps of at most a second and resets come in whatever order, its ticks are the
  ticks that have passed since the last reset, two interrupts to a tick, and its seconds the full seconds of 500 ticks that have begun
  since then, both as 32-bit numbers, counted on the grid of the start, which a reset does not move. The radio leaves the
  interrupts to the clock (\<open>clock_env\<close>): while it uses them for its own waking, \<open>fclk_hdl\<close> does not count.\<close>

theorem clock_keeps_time:
  fixes w :: 'w and tick
  assumes "list_all clk_typed es"
  defines "c \<equiv> fold (clk_step (clock_env tick)) es (fclk_start w)"
  shows "case fold clk_spec es (0, False, 0) of (n, h, b) \<Rightarrow>
     fclk_get_tick c = of_nat n - of_nat b \<and> fclk_get_second c = of_nat (n div 500) - of_nat (b div 500)"
  using clock_runs [OF assms(1), of tick w]
  by (auto simp: c_def clk_rel_def counts_at_def fclk_get_tick_def fclk_get_second_def split: prod.splits)

lemma clock_keeps_time_witness:
  "fclk_get_second (fold (clk_step (clock_env id)) [Clk_Sleep 400, Clk_Reset, Clk_Interrupt, Clk_Sleep 500, Clk_Interrupt] (fclk_start ())) = 1 \<and>
   fclk_get_tick (fold (clk_step (clock_env id)) [Clk_Sleep 400, Clk_Reset, Clk_Interrupt, Clk_Sleep 500, Clk_Interrupt] (fclk_start ())) = 501"
  using clock_keeps_time [of "[Clk_Sleep 400, Clk_Reset, Clk_Interrupt, Clk_Sleep 500, Clk_Interrupt]" id "()"] by simp

text \<open>Once the countdown has reached zero, it runs away.\<close>

lemma interrupt_fields:
  fixes tick
  defines "env \<equiv> clock_env tick"
  shows "fclk_vernier_cnt c = 0 \<Longrightarrow> fclk_vernier_cnt (clk_step env Clk_Interrupt c) = 1 \<and>
      second_countdown (clk_step env Clk_Interrupt c) = second_countdown c \<and>
      current_seconds (clk_step env Clk_Interrupt c) = current_seconds c"
    "fclk_vernier_cnt c = 1 \<Longrightarrow> second_countdown c \<noteq> 1 \<Longrightarrow> fclk_vernier_cnt (clk_step env Clk_Interrupt c) = 0 \<and>
      second_countdown (clk_step env Clk_Interrupt c) = second_countdown c - 1 \<and>
      current_seconds (clk_step env Clk_Interrupt c) = current_seconds c"
  by (auto simp: env_def clock_env_def fclk_pwm_hdl_def fclk_tick_handler_def fclk_adjust_vernier_cnt_def
      fclk_clear_vernier_cnt_def fclk_hdl_def Let_def split: option.split)

lemma minus_not_one: "k < 4294967295 \<Longrightarrow> - of_nat k \<noteq> (1 :: u32)"
proof
  assume k: "k < 4294967295" and "- of_nat k = (1 :: u32)"
  then have "of_nat k + 1 = (0 :: u32)" by (metis add.commute neg_eq_iff_add_eq_0)
  then have "of_nat (k + 1) = (0 :: u32)" by (simp add: add.commute)
  then have "unat (of_nat (k + 1) :: u32) = 0" by (simp only: unsigned_0)
  then show False using k unat_of_nat32 [of "k + 1"] by linarith
qed

lemma seconds_stop:
  assumes "second_countdown c = 0" "fclk_vernier_cnt c = 0 \<or> fclk_vernier_cnt c = 1" "m < 4294967296"
  shows "current_seconds (fold (clk_step (clock_env tick)) (replicate m Clk_Interrupt) c) = current_seconds c"
proof -
  have "\<exists>k \<le> m. second_countdown d = - of_nat k \<and> (fclk_vernier_cnt d = 0 \<or> fclk_vernier_cnt d = 1) \<and>
      current_seconds d = current_seconds c"
    if "d = fold (clk_step (clock_env tick)) (replicate m Clk_Interrupt) c" for d
    using assms(3) that
  proof (induction m arbitrary: d)
    case 0
    then show ?case using assms(1,2) by simp
  next
    case (Suc m)
    define e where "e = fold (clk_step (clock_env tick)) (replicate m Clk_Interrupt) c"
    then obtain k where k: "k \<le> m" "second_countdown e = - of_nat k" "current_seconds e = current_seconds c"
      "fclk_vernier_cnt e = 0 \<or> fclk_vernier_cnt e = 1" using Suc.IH Suc.prems(1) by fastforce
    have d: "d = clk_step (clock_env tick) Clk_Interrupt e"
      by (simp add: Suc.prems(2) e_def fold_replicate del: replicate_Suc clk_step.simps)
    from k(4) show ?case
    proof
      assume "fclk_vernier_cnt e = 0"
      then show ?thesis using interrupt_fields(1) [of e tick] k d by (intro exI [of _ k]) simp
    next
      assume "fclk_vernier_cnt e = 1"
      then show ?thesis
        using interrupt_fields(2) [of e tick] k d minus_not_one [of k] Suc.prems(1) by (intro exI [of _ "Suc k"]) simp
    qed
  qed
  then show ?thesis by blast
qed

text \<open>A sleep that ends 500 ticks or one second after the running second does stops the seconds: when it is exactly that long the
  countdown is left at zero, and no interrupt counts another second until the countdown has gone round all 32 bits.\<close>

theorem long_sleep_stops_seconds:
  fixes w :: 'w and tick
  assumes "list_all clk_typed es" "m < 4294967296"
  defines "c \<equiv> fold (clk_step (clock_env tick)) es (fclk_start w)"
  shows "fclk_get_second (fold (clk_step (clock_env tick)) (Clk_Sleep (second_countdown c + 500) # replicate m Clk_Interrupt) c) =
     fclk_get_second c + 1"
proof -
  define d where "d = clk_step (clock_env tick) (Clk_Sleep (second_countdown c + 500)) c"
  obtain n h b where rel: "clk_rel c (n, h, b)" using clock_runs [OF assms(1), of tick w] by (metis c_def prod.exhaust)
  have "second_countdown c = of_nat (500 - n mod 500)" using rel by (simp add: clk_rel_def counts_at_def)
  then have "unat (second_countdown c) \<le> 500" by (simp add: unat_of_nat32 del: of_nat_diff)
  then have "second_countdown c \<le> second_countdown c + 500"
    using unat_plus32 [of "second_countdown c" 500] by (simp add: word_le_nat_alt)
  then have "second_countdown d = 0" "current_seconds d = current_seconds c + 1" "fclk_vernier_cnt d = fclk_vernier_cnt c"
    by (simp_all add: d_def fclk_update_tick_def Let_def)
  moreover have "fclk_vernier_cnt c = 0 \<or> fclk_vernier_cnt c = 1" using rel by (auto simp: clk_rel_def split: if_splits)
  ultimately have "current_seconds (fold (clk_step (clock_env tick)) (replicate m Clk_Interrupt) d) = current_seconds c + 1"
    using seconds_stop [of d m tick] assms(2) by simp
  then show ?thesis by (simp add: d_def fclk_get_second_def)
qed

text \<open>Two seconds asleep from the start, and ten more awake: the clock says one.\<close>

lemma long_sleep_stops_seconds_witness:
  "fclk_get_second (fold (clk_step (clock_env id)) (Clk_Sleep 1000 # replicate 10000 Clk_Interrupt) (fclk_start ())) = 1"
  using long_sleep_stops_seconds [of "[]" 10000 id "()"]
  by (simp add: fclk_start_def fclk_get_second_def)

section \<open>From the interrupt to the clock\<close>

text \<open>An interrupt of the clock's channel: the hardware marks it in the status, and the handler of \<open>Pwm\<close> runs.\<close>

definition channel_3_interrupt :: "'e pwm_io \<Rightarrow> 'e pwm_io option" where
  "channel_3_interrupt s = pwm_isr (clr_bits PWM_INTERRUPT_STATUS) (s\<lparr>pw_regs := set_bits PWM_INTERRUPT_STATUS (BIT 3) (pw_regs s)\<rparr>)"

fun channel_3_interrupts :: "nat \<Rightarrow> 'e pwm_io \<Rightarrow> 'e pwm_io option" where
  "channel_3_interrupts 0 s = Some s"
| "channel_3_interrupts (Suc n) s = (case channel_3_interrupt s of None \<Rightarrow> None | Some s1 \<Rightarrow> channel_3_interrupts n s1)"

lemma channel_3_serves:
  assumes "pw_regs s PWM_INTERRUPT_STATUS = 0" "p_PWM_Int_Handler s 3 = Some (\<lambda>param (r, c). (r, f param c))"
  obtains s1 where "channel_3_interrupt s = Some s1" "pw_rest s1 = f 3 (pw_rest s)"
    "pw_regs s1 PWM_INTERRUPT_STATUS = 0" "p_PWM_Int_Handler s1 = p_PWM_Int_Handler s"
proof -
  define t where "t = s\<lparr>pw_regs := set_bits PWM_INTERRUPT_STATUS (BIT 3) (pw_regs s)\<rparr>"
  have status: "pw_regs t PWM_INTERRUPT_STATUS = BIT 3" using assms(1) by (simp add: t_def set_bits_def REG_WRITE_def REG_READ_def)
  have serve: "serve_channel (BIT 3) i u = (if i = 3 then u\<lparr>pw_regs := clr_bits PWM_INTERRUPT_STATUS (BIT 3) (pw_regs u),
      pw_rest := f 3 (pw_rest u)\<rparr> else u)" if "p_PWM_Int_Handler u 3 = Some (\<lambda>param (r, c). (r, f param c))" for i and u
    using that by (simp add: serve_channel_def bit_BIT)
  have "[0..<6] = [0, 1, 2, 3, 4, 5 :: nat]" by (simp add: upt_rec)
  moreover have "fold (serve_channel (BIT 3)) [0, 1, 2, 3, 4, 5] t =
      t\<lparr>pw_regs := clr_bits PWM_INTERRUPT_STATUS (BIT 3) (pw_regs t), pw_rest := f 3 (pw_rest t)\<rparr>"
    using assms(2) by (simp add: serve t_def)
  ultimately have "pwm_isr (clr_bits PWM_INTERRUPT_STATUS) t = Some (t\<lparr>pw_regs := clr_bits PWM_INTERRUPT_STATUS (BIT 3)
      (clr_bits PWM_INTERRUPT_STATUS (BIT 3) (pw_regs t)), pw_rest := f 3 (pw_rest t)\<rparr>)"
    using pwm_isr_serves [OF refl, of t] by (simp add: Let_def status)
  moreover have "clr_bits PWM_INTERRUPT_STATUS (BIT 3) (clr_bits PWM_INTERRUPT_STATUS (BIT 3) (pw_regs t)) PWM_INTERRUPT_STATUS = 0"
    by (simp add: clr_bits_def REG_WRITE_def REG_READ_def status)
  ultimately show ?thesis
    by (intro that [of "t\<lparr>pw_regs := clr_bits PWM_INTERRUPT_STATUS (BIT 3)
      (clr_bits PWM_INTERRUPT_STATUS (BIT 3) (pw_regs t)), pw_rest := f 3 (pw_rest t)\<rparr>"])
      (simp_all add: channel_3_interrupt_def t_def)
qed

lemma cfg_fields:
  "cfg_mode (cfg_bits PWM_ENABLE PWM_INT_EN PMODE_TIMER clk rsv) = PMODE_TIMER"
proof -
  have "cfg_mode v = take_bit 2 (drop_bit 2 v)" for v
    unfolding cfg_mode_def take_bit_eq_mask by (simp add: mask_eq_exp_minus_1)
  then have mode: "bit (cfg_mode v) n \<longleftrightarrow> n < 2 \<and> bit v (n + 2)" for v n
    by (simp add: bit_take_bit_iff bit_drop_bit_eq add.commute)
  show ?thesis
  proof (rule bit_word_eqI)
    fix n :: nat
    consider "n = 0" | "n = 1" | "2 \<le> n" by linarith
    then show "bit (cfg_mode (cfg_bits PWM_ENABLE PWM_INT_EN PMODE_TIMER clk rsv)) n = bit PMODE_TIMER n"
      unfolding mode
      by cases (auto simp: cfg_bits_def PWM_ENABLE_def PWM_INT_EN_def PMODE_TIMER_def bit_or_iff bit_and_iff bit_push_bit_iff bit_1_iff)
  qed
qed

lemma pwm_icu_status: "pwm_icu_after p enable r PWM_INTERRUPT_STATUS = r PWM_INTERRUPT_STATUS"
  by (rule pwm_icu_frame) (simp_all add: pwm_regs icu_reg_defs)

lemma fclk_init_runs:
  obtains s1 where "fclk_init env rsv s = Ret s1" "pw_rest s1 = pw_rest s"
    "pw_regs s1 PWM_INTERRUPT_STATUS = pw_regs s PWM_INTERRUPT_STATUS"
    "p_PWM_Int_Handler s1 3 = Some (\<lambda>param (r, c). (r, fclk_pwm_hdl env param c))"
proof -
  define p where "p = fclk_param env rsv"
  have p: "pp_channel p = 3" "duty_cycle p = 0" "cfg_mode (cfg_val p) = PMODE_TIMER"
    "p_Int_Handler p = Some (\<lambda>param (r, c). (r, fclk_pwm_hdl env param c))"
    by (simp_all add: p_def fclk_param_def FCLK_PWM_ID_def cfg_fields)
  have init: "fclk_init env rsv s = Ret (s\<lparr>pw_regs := pwm_icu_after p True (pwm_set_counter p (pwm_set_ctl p (pw_regs s))),
      p_PWM_Int_Handler := (p_PWM_Int_Handler s)(3 := p_Int_Handler p)\<rparr>)"
    using pwm_init_runs [of p True s] p by (simp add: fclk_init_def pwm_call_def p_def [symmetric])
  have "pwm_icu_after p True (pwm_set_counter p (pwm_set_ctl p r)) PWM_INTERRUPT_STATUS = r PWM_INTERRUPT_STATUS" for r
    by (subst pwm_icu_status) (simp add: pwm_set_counter_def pwm_set_ctl_def p REG_WRITE_def Let_def pwm_regs)
  then show ?thesis using that [OF init] by (simp add: p)
qed

lemma interrupts_step_clock:
  assumes "pw_regs s PWM_INTERRUPT_STATUS = 0"
    "p_PWM_Int_Handler s 3 = Some (\<lambda>param (r, c). (r, fclk_pwm_hdl env param c))"
  shows "\<exists>s2. channel_3_interrupts m s = Some s2 \<and>
    pw_rest s2 = fold (clk_step env) (replicate m Clk_Interrupt) (pw_rest s)"
  using assms
proof (induction m arbitrary: s)
  case (Suc m)
  obtain s1 where "channel_3_interrupt s = Some s1" "pw_rest s1 = fclk_pwm_hdl env 3 (pw_rest s)"
    "pw_regs s1 PWM_INTERRUPT_STATUS = 0" "p_PWM_Int_Handler s1 = p_PWM_Int_Handler s"
    using channel_3_serves [OF Suc.prems] by metis
  then show ?case using Suc.IH [of s1] Suc.prems(2) by (simp add: FCLK_PWM_ID_def)
qed simp

lemma spec_interrupts: "(clk_spec Clk_Interrupt ^^ m) (0, False, 0) = (m div 2, odd m, 0)"
  by (induction m) simp_all

text \<open>C32: From the interrupt to the time of day: after \<open>fclk_init\<close>, on hardware that clears the status bits written to it, every interrupt of
  the third channel is served and counted, so that any number of them, a millisecond apart, leave the clock at half as many
  ticks and a thousandth as many seconds. The radio leaves the interrupts to the clock, as in the property before.\<close>

theorem clock_from_interrupts:
  assumes "pw_regs s PWM_INTERRUPT_STATUS = 0" "pw_rest s = fclk_start w"
  shows "\<exists>s1 s2. fclk_init (clock_env tick) rsv s = Ret s1 \<and> channel_3_interrupts m s1 = Some s2 \<and>
     fclk_get_tick (pw_rest s2) = of_nat (m div 2) \<and> fclk_get_second (pw_rest s2) = of_nat (m div 1000)"
proof -
  obtain s1 where s1: "fclk_init (clock_env tick) rsv s = Ret s1" "pw_rest s1 = pw_rest s"
    "pw_regs s1 PWM_INTERRUPT_STATUS = pw_regs s PWM_INTERRUPT_STATUS"
    "p_PWM_Int_Handler s1 3 = Some (\<lambda>param (r, c). (r, fclk_pwm_hdl (clock_env tick) param c))"
    by (rule fclk_init_runs)
  obtain s2 where s2: "channel_3_interrupts m s1 = Some s2"
    "pw_rest s2 = fold (clk_step (clock_env tick)) (replicate m Clk_Interrupt) (fclk_start w)"
    using interrupts_step_clock [of s1 "clock_env tick" m] s1 assms by auto
  have "list_all clk_typed (replicate m Clk_Interrupt)" by (auto simp: list_all_iff)
  then have "clk_rel (pw_rest s2) (m div 2, odd m, 0)"
    using clock_runs [of "replicate m Clk_Interrupt" tick w] by (simp add: s2(2) spec_interrupts)
  then show ?thesis
    using s1(1) s2(1) by (simp add: clk_rel_def counts_at_def fclk_get_tick_def fclk_get_second_def div_mult2_eq [of m 2 500, simplified])
qed

lemma clock_from_interrupts_witness:
  "\<exists>s1 s2. fclk_init (clock_env id) 3 \<lparr>pw_regs = \<lambda>_. 0, pw_rest = fclk_start (), p_PWM_Int_Handler = \<lambda>_. None\<rparr> = Ret s1 \<and>
     channel_3_interrupts 7003 s1 = Some s2 \<and> fclk_get_tick (pw_rest s2) = 3501 \<and> fclk_get_second (pw_rest s2) = 7"
  using clock_from_interrupts [of "\<lparr>pw_regs = \<lambda>_. 0, pw_rest = fclk_start (), p_PWM_Int_Handler = \<lambda>_. None\<rparr>" "()" id 3 7003]
  by simp

section \<open>What a sleep does to the channels\<close>

lemma PS_PWM_ID_value: "PS_PWM_ID = 3"
  by (simp add: PS_PWM_ID_def FCLK_PWM_ID_def)

lemma PWM0_COUNTER_cnt: "PWM0_COUNTER = REG_APB_BK_PWMn_CNT_ADDR 0"
  by (simp add: pwm_regs)

text \<open>A new period: the nibble of the clock's channel is that of a timer with interrupts, its clock source is selected, and the
  period goes to the counter of channel 0.\<close>

lemma ps_pwm_reconfig_cnt:
  assumes "unat k < 6"
  shows "ps_pwm_reconfig period lpo r (REG_APB_BK_PWMn_CNT_ADDR k) =
     (if k = 0 then period else r (REG_APB_BK_PWMn_CNT_ADDR k))"
proof -
  note apart = cnt_addresses [OF assms]
  have "icu_do (if lpo then CMD_CONF_PWM_LPOCLK else CMD_CONF_PWM_PCLK) v r0 (REG_APB_BK_PWMn_CNT_ADDR k) =
      r0 (REG_APB_BK_PWMn_CNT_ADDR k)" for v r0
    using apart by (simp add: icu_do_def deref_def)
  then show ?thesis
    using apart cnt_inj [OF assms, of 0]
    by (simp add: ps_pwm_reconfig_def ps_pwm_enable_def ps_pwm_set_period_def ps_pwm_disable_def MCU_PS_PWM_COUNTER_def
        PWM0_COUNTER_cnt bits_same REG_WRITE_def)
qed

text \<open>C33: The sleep of the processor reprograms the wrong channel: it gives its period to channel 0, not to channel 3 which drives the
  clock, switches off the clock of channel 3 and not that of channel 0, and afterwards leaves channel 0 with the clock's
  period, whatever pulses it was set to, while the counter of channel 3 is never written.\<close>

theorem sleep_takes_wrong_channel:
  fixes c :: "'w fclk" and r tick
  assumes "mcu_ps_on i = 1" "peri_busy_count i = 0" "mcu_prevent i = 0"
    and "\<And>r. sleep sleep_clocks r (REG_APB_BK_PWMn_CNT_ADDR 0) = r (REG_APB_BK_PWMn_CNT_ADDR 0)"
    and "\<And>r. sleep sleep_clocks r (REG_APB_BK_PWMn_CNT_ADDR 3) = r (REG_APB_BK_PWMn_CNT_ADDR 3)"
  defines "r1 \<equiv> ps_pwm_suspend_tick (sleep_period tick) r" and "r2 \<equiv> snd (snd (mcu_power_save sleep True tick (i, c, r)))"
  shows "r1 (REG_APB_BK_PWMn_CNT_ADDR 0) = sleep_period tick \<and> r1 (REG_APB_BK_PWMn_CNT_ADDR 3) = r (REG_APB_BK_PWMn_CNT_ADDR 3) \<and>
     pwm_clk_bit FCLK_PWM_ID = Some (sleep_clocks AND BIT 12) \<and> \<not> bit sleep_clocks 9 \<and>
     r2 (REG_APB_BK_PWMn_CNT_ADDR 0) = 26000 \<and> r2 (REG_APB_BK_PWMn_CNT_ADDR 3) = r (REG_APB_BK_PWMn_CNT_ADDR 3)"
proof -
  have r2: "r2 = ps_pwm_resume_tick (sleep sleep_clocks r1)"
    using assms(1-3) by (simp add: r2_def r1_def mcu_power_save_def Let_def)
  have "pwm_clk_bit FCLK_PWM_ID = Some (sleep_clocks AND BIT 12)" "\<not> bit sleep_clocks 9"
    by (simp_all add: pwm_clk_bit_def FCLK_PWM_ID_def sleep_clocks_def PWD_MCU_WAKE_PWM_BIT_def PWD_UART1_CLK_BIT_def
        PWD_UART2_CLK_BIT_def BIT_def)
  moreover have "fclk_cal_endvalue PWM_CLK_26M = 26000"
    by (simp add: fclk_cal_endvalue_def PWM_CLK_26M_def PWM_CLK_32K_def FCLK_PWM_DURATION_def)
  ultimately show ?thesis
    using assms(4,5)
    by (simp add: r2 ps_pwm_resume_tick_def ps_pwm_reconfig_cnt) (simp add: r1_def ps_pwm_suspend_tick_def ps_pwm_reconfig_cnt)
qed

text \<open>A lamp on channel 0 at a quarter of 100 Hz and a sleep of 20 ticks.\<close>

lemma sleep_takes_wrong_channel_witness:
  "((\<lambda>_. 0x190064)(REG_APB_BK_PWMn_CNT_ADDR 3 := 26000)) (REG_APB_BK_PWMn_CNT_ADDR 0) = 0x190064 \<and>
   snd (snd (mcu_power_save (\<lambda>_ r. r) True 20 (\<lparr>mcu_ps_on = 1, peri_busy_count = 0, mcu_prevent = 0\<rparr>, fclk_start (),
      (\<lambda>_. 0x190064)(REG_APB_BK_PWMn_CNT_ADDR 3 := 26000)))) (REG_APB_BK_PWMn_CNT_ADDR 0) = 26000"
  using sleep_takes_wrong_channel [of "\<lparr>mcu_ps_on = 1, peri_busy_count = 0, mcu_prevent = 0\<rparr>" "\<lambda>_ r. r" 20
      "(\<lambda>_. 0x190064)(REG_APB_BK_PWMn_CNT_ADDR 3 := 26000)" "fclk_start ()"] cnt_inj [of 0 3]
  by simp

end
