(* ===== verification/Multi_Button.thy ===== *)
theory Multi_Button
  imports Gpio
begin

text \<open>
  Buttons with clicks, double clicks and long presses, \<open>beken378/func/key/multi_button.c\<close>, and the button of \<open>key_main.c\<close>.

  The bit fields of a button have their widths, so that counting in them wraps. A callback is a function on the rest of the
  system; it does not change the button. Buttons are cells of a store, numbered, and \<open>next\<close> is a link between them.
\<close>

section \<open>A button\<close>

datatype press_evt = PRESS_DOWN | PRESS_UP | PRESS_REPEAT | SINGLE_CLICK | DOUBLE_CLICK | LONG_RRESS_START | LONG_PRESS_HOLD
  | Number_Of_Event | NONE_PRESS

fun evt_num :: "press_evt \<Rightarrow> 4 word" where
  "evt_num PRESS_DOWN = 0" | "evt_num PRESS_UP = 1" | "evt_num PRESS_REPEAT = 2" | "evt_num SINGLE_CLICK = 3"
| "evt_num DOUBLE_CLICK = 4" | "evt_num LONG_RRESS_START = 5" | "evt_num LONG_PRESS_HOLD = 6" | "evt_num Number_Of_Event = 7"
| "evt_num NONE_PRESS = 8"

definition TICKS_INTERVAL :: u16 where "TICKS_INTERVAL = 5"
definition DEBOUNCE_TICKS :: "3 word" where "DEBOUNCE_TICKS = 3"
definition SHORT_TICKS :: u16 where "SHORT_TICKS = 300 div TICKS_INTERVAL"
definition LONG_TICKS :: u16 where "LONG_TICKS = 1000 div TICKS_INTERVAL"

record 'w button =
  bt_ticks :: u16
  bt_repeat :: "4 word"
  bt_event :: "4 word"
  bt_state :: "3 word"
  debounce_cnt :: "3 word"
  active_level :: "1 word"
  button_level :: "1 word"
  hal_button_Level :: "'w \<Rightarrow> u8"
  bt_cb :: "press_evt \<Rightarrow> ('w \<Rightarrow> 'w) option"

text \<open>
  \<open>memset(handle, sizeof(BUTTON_S), 0)\<close> fills no bytes with the number of them, so the fields that are not set here are
  those of \<open>b\<close>, the memory of the button before.
\<close>

definition button_init :: "('w \<Rightarrow> u8) \<Rightarrow> u8 \<Rightarrow> 'w \<Rightarrow> 'w button \<Rightarrow> 'w button" where
  "button_init pin_level act w b =
     b\<lparr>bt_event := evt_num NONE_PRESS, hal_button_Level := pin_level, button_level := ucast (pin_level w),
       active_level := ucast act\<rparr>"

definition button_attach :: "press_evt \<Rightarrow> ('w \<Rightarrow> 'w) option \<Rightarrow> 'w button \<Rightarrow> 'w button" where
  "button_attach ev f b = b\<lparr>bt_cb := (bt_cb b)(ev := f)\<rparr>"

definition button_get_event :: "'w button \<Rightarrow> 4 word" where
  "button_get_event b = bt_event b"

definition EVENT_CB :: "press_evt \<Rightarrow> 'w button \<Rightarrow> 'w \<Rightarrow> 'w" where
  "EVENT_CB ev b w = (case bt_cb b ev of None \<Rightarrow> w | Some f \<Rightarrow> f w)"

definition button_debounce :: "u8 \<Rightarrow> 'w button \<Rightarrow> 'w button" where
  "button_debounce read_gpio_level b =
     (if read_gpio_level \<noteq> ucast (button_level b) then
        (let b1 = b\<lparr>debounce_cnt := debounce_cnt b + 1\<rparr>
         in if DEBOUNCE_TICKS \<le> debounce_cnt b1 then b1\<lparr>button_level := ucast read_gpio_level, debounce_cnt := 0\<rparr> else b1)
      else b\<lparr>debounce_cnt := 0\<rparr>)"

definition button_machine :: "'w button \<Rightarrow> 'w \<Rightarrow> 'w button \<times> 'w" where
  "button_machine b w =
     (if bt_state b = 0 then
        if button_level b = active_level b then
          (b\<lparr>bt_event := evt_num PRESS_DOWN, bt_ticks := 0, bt_repeat := 1, bt_state := 1\<rparr>, EVENT_CB PRESS_DOWN b w)
        else (b\<lparr>bt_event := evt_num NONE_PRESS\<rparr>, w)
      else if bt_state b = 1 then
        if button_level b \<noteq> active_level b then
          (b\<lparr>bt_event := evt_num PRESS_UP, bt_ticks := 0, bt_state := 2\<rparr>, EVENT_CB PRESS_UP b w)
        else if LONG_TICKS < bt_ticks b then
          (b\<lparr>bt_event := evt_num LONG_RRESS_START, bt_state := 5\<rparr>, EVENT_CB LONG_RRESS_START b w)
        else (b, w)
      else if bt_state b = 2 then
        if button_level b = active_level b then
          (let b1 = b\<lparr>bt_event := evt_num PRESS_DOWN, bt_repeat := bt_repeat b + 1\<rparr>;
               w1 = EVENT_CB PRESS_DOWN b w;
               w2 = (if bt_repeat b1 = 2 then EVENT_CB DOUBLE_CLICK b1 w1 else w1)
           in (b1\<lparr>bt_ticks := 0, bt_state := 3\<rparr>, EVENT_CB PRESS_REPEAT b1 w2))
        else if SHORT_TICKS < bt_ticks b then
          (if bt_repeat b = 1 then (b\<lparr>bt_event := evt_num SINGLE_CLICK, bt_state := 0\<rparr>, EVENT_CB SINGLE_CLICK b w)
           else if bt_repeat b = 2 then (b\<lparr>bt_event := evt_num DOUBLE_CLICK, bt_state := 0\<rparr>, w)
           else (b\<lparr>bt_state := 0\<rparr>, w))
        else (b, w)
      else if bt_state b = 3 then
        if button_level b \<noteq> active_level b then
          (if bt_ticks b < SHORT_TICKS then b\<lparr>bt_event := evt_num PRESS_UP, bt_ticks := 0, bt_state := 2\<rparr>
           else b\<lparr>bt_event := evt_num PRESS_UP, bt_state := 0\<rparr>, EVENT_CB PRESS_UP b w)
        else (b, w)
      else if bt_state b = 5 then
        if button_level b = active_level b then
          (b\<lparr>bt_event := evt_num LONG_PRESS_HOLD\<rparr>, EVENT_CB LONG_PRESS_HOLD b w)
        else (b\<lparr>bt_event := evt_num PRESS_UP, bt_state := 0\<rparr>, EVENT_CB PRESS_UP b w)
      else (b, w))"

text \<open>One tick, with the level read.\<close>

definition button_step :: "u8 \<Rightarrow> 'w button \<times> 'w \<Rightarrow> 'w button \<times> 'w" where
  "button_step read_gpio_level s =
     (case s of (b, w) \<Rightarrow>
        (let b1 = (if 0 < bt_state b then b\<lparr>bt_ticks := bt_ticks b + 1\<rparr> else b)
         in button_machine (button_debounce read_gpio_level b1) w))"

definition button_handler :: "'w button \<times> 'w \<Rightarrow> 'w button \<times> 'w" where
  "button_handler s = (case s of (b, w) \<Rightarrow> button_step (hal_button_Level b w) s)"

section \<open>The list of buttons\<close>

record 'w buttons =
  head_handle :: "nat option"
  bt_next :: "nat \<Rightarrow> nat option"
  bt_cells :: "nat \<Rightarrow> 'w button"

text \<open>The searches follow the links and may not end on a list that loops.\<close>

partial_function (option) list_has :: "(nat \<Rightarrow> nat option) \<Rightarrow> nat \<Rightarrow> nat option \<Rightarrow> bool option" where
  "list_has nx handle target =
     (case target of None \<Rightarrow> Some False | Some t \<Rightarrow> if t = handle then Some True else list_has nx handle (nx t))"

definition button_start :: "nat \<Rightarrow> 'w buttons \<Rightarrow> (int \<times> 'w buttons) option" where
  "button_start handle s =
     (case list_has (bt_next s) handle (head_handle s) of
        None \<Rightarrow> None
      | Some True \<Rightarrow> Some (-1, s)
      | Some False \<Rightarrow> Some (0, s\<lparr>bt_next := (bt_next s)(handle := head_handle s), head_handle := Some handle\<rparr>))"

text \<open>\<open>link\<close>, the code's \<open>curr\<close>, points to the head (\<open>None\<close>) or to the link of a button.\<close>

definition link_of :: "nat option \<Rightarrow> 'w buttons \<Rightarrow> nat option" where
  "link_of link s = (case link of None \<Rightarrow> head_handle s | Some c \<Rightarrow> bt_next s c)"

definition set_link :: "nat option \<Rightarrow> nat option \<Rightarrow> 'w buttons \<Rightarrow> 'w buttons" where
  "set_link link v s =
     (case link of None \<Rightarrow> s\<lparr>head_handle := v\<rparr> | Some c \<Rightarrow> s\<lparr>bt_next := (bt_next s)(c := v)\<rparr>)"

partial_function (option) stop_from :: "nat \<Rightarrow> nat option \<Rightarrow> 'w buttons \<Rightarrow> 'w buttons option" where
  "stop_from handle link s =
     (case link_of link s of
        None \<Rightarrow> Some s
      | Some entry \<Rightarrow>
          if entry = handle then stop_from handle link (set_link link (bt_next s entry) s)
          else stop_from handle (Some entry) s)"

definition button_stop :: "nat \<Rightarrow> 'w buttons \<Rightarrow> 'w buttons option" where
  "button_stop handle s = stop_from handle None s"

partial_function (option) ticks_from :: "nat option \<Rightarrow> 'w buttons \<times> 'w \<Rightarrow> ('w buttons \<times> 'w) option" where
  "ticks_from target s =
     (case target of
        None \<Rightarrow> Some s
      | Some t \<Rightarrow>
          (case s of (bs, w) \<Rightarrow>
             case button_handler (bt_cells bs t, w) of (b, w1) \<Rightarrow>
               ticks_from (bt_next bs t) (bs\<lparr>bt_cells := (bt_cells bs)(t := b)\<rparr>, w1)))"

definition button_ticks :: "'w buttons \<times> 'w \<Rightarrow> ('w buttons \<times> 'w) option" where
  "button_ticks s = ticks_from (head_handle (fst s)) s"

section \<open>The key of the board\<close>

text \<open>The rest of the system is the registers and what is printed.\<close>

type_synonym key_world = "regs \<times> string list"

definition GPIO_TEST_ID :: u32 where "GPIO_TEST_ID = 23"

definition key_print :: "string \<Rightarrow> key_world \<Rightarrow> key_world" where
  "key_print t w = (fst w, snd w @ [t])"

definition key_short_press :: "key_world \<Rightarrow> key_world" where "key_short_press = key_print ''key_short_press''"
definition key_double_press :: "key_world \<Rightarrow> key_world" where "key_double_press = key_print ''key_double_press''"
definition key_long_press_hold :: "key_world \<Rightarrow> key_world" where "key_long_press_hold = key_print ''key_long_press_hold''"

definition key_get_gpio_value :: "key_world \<Rightarrow> u8" where
  "key_get_gpio_value w = (case bk_gpio_input GPIO_TEST_ID (fst w) of Ret v \<Rightarrow> ucast v | _ \<Rightarrow> 0)"

definition key_gpio_init :: "key_world \<Rightarrow> key_world c_run" where
  "key_gpio_init w =
     c_then (expect_success (gpio_pin_ctrl CMD_GPIO_CFG (Some (GPIO_CFG_PARAM GPIO_TEST_ID GMODE_INPUT_PULLUP)) (fst w)))
       (\<lambda>r. Ret (r, snd w))"

definition key_test_button :: "key_world \<Rightarrow> key_world button \<Rightarrow> key_world button" where
  "key_test_button w b =
     button_attach LONG_PRESS_HOLD (Some key_long_press_hold)
       (button_attach DOUBLE_CLICK (Some key_double_press)
         (button_attach SINGLE_CLICK (Some key_short_press) (button_init key_get_gpio_value 0 w b)))"

text \<open>\<open>button_test\<close> is the cell \<open>h\<close>.\<close>

definition key_item_configure :: "nat \<Rightarrow> key_world buttons \<times> key_world \<Rightarrow> (key_world buttons \<times> key_world) c_run option" where
  "key_item_configure h s =
     (case key_gpio_init (snd s) of
        Ret w \<Rightarrow>
          (case button_start h ((fst s)\<lparr>bt_cells := (bt_cells (fst s))(h := key_test_button w (bt_cells (fst s) h))\<rparr>) of
             None \<Rightarrow> None
           | Some (_, bs) \<Rightarrow> Some (Ret (bs, w)))
      | Assert_Stop \<Rightarrow> Some Assert_Stop
      | Fault \<Rightarrow> Some Fault)"

section \<open>Runs of readings\<close>

lemma tick_values [simp]: "SHORT_TICKS = 60" "LONG_TICKS = 200" "DEBOUNCE_TICKS = 3"
  by (simp_all add: SHORT_TICKS_def LONG_TICKS_def TICKS_INTERVAL_def DEBOUNCE_TICKS_def)

definition button_run :: "u8 list \<Rightarrow> 'w button \<times> 'w \<Rightarrow> 'w button \<times> 'w" where
  "button_run rs s = fold button_step rs s"

lemma button_run_simps [simp]:
  "button_run [] s = s" "button_run (r # rs) s = button_run rs (button_step r s)"
  "button_run (as @ bs) s = button_run bs (button_run as s)"
  by (simp_all add: button_run_def)

text \<open>What the callbacks for a list of events do.\<close>

definition fire :: "(press_evt \<Rightarrow> ('w \<Rightarrow> 'w) option) \<Rightarrow> press_evt list \<Rightarrow> 'w \<Rightarrow> 'w" where
  "fire cb evs w = fold (\<lambda>ev w. case cb ev of None \<Rightarrow> w | Some f \<Rightarrow> f w) evs w"

lemma fire_simps [simp]: "fire cb [] w = w" "fire cb (as @ bs) w = fire cb bs (fire cb as w)"
  "fire cb (ev # evs) w = fire cb evs (case cb ev of None \<Rightarrow> w | Some f \<Rightarrow> f w)"
  by (simp_all add: fire_def)

lemma u1_cases: obtains "a = (0 :: 1 word)" | "a = 1"
proof -
  have "unat a < 2" using unsigned_less [of a] by simp
  then have "unat a = unat (0 :: 1 word) \<or> unat a = unat (1 :: 1 word)" by auto
  then show ?thesis using that by (metis unsigned_word_eqI)
qed

lemma not_u1: "NOT (0 :: 1 word) = 1" "NOT (1 :: 1 word) = 0"
  by simp_all

lemma level_simps [simp]:
  "(ucast (a :: 1 word) :: u8) = ucast b \<longleftrightarrow> a = b" "(ucast (ucast (a :: 1 word) :: u8) :: 1 word) = a"
  "NOT (a :: 1 word) \<noteq> a" "a \<noteq> NOT (a :: 1 word)"
  by (cases a rule: u1_cases; cases b rule: u1_cases; simp)+

section \<open>The machine with counts that do not wrap\<close>

text \<open>The state of the machine, ticks in it, presses, readings of the other level, and whether the button counts as pressed.\<close>

type_synonym press_state = "nat \<times> nat \<times> nat \<times> nat \<times> bool"

fun press_machine :: "press_state \<Rightarrow> press_state \<times> press_evt list" where
  "press_machine (st, t, n, d, down) =
     (if st = 0 then if down then ((1, 0, 1, d, down), [PRESS_DOWN]) else ((st, t, n, d, down), [])
      else if st = 1 then
        if \<not> down then ((2, 0, n, d, down), [PRESS_UP])
        else if 200 < t then ((5, t, n, d, down), [LONG_RRESS_START]) else ((st, t, n, d, down), [])
      else if st = 2 then
        if down then
          ((3, 0, n + 1, d, down), [PRESS_DOWN] @ (if (n + 1) mod 16 = 2 then [DOUBLE_CLICK] else []) @ [PRESS_REPEAT])
        else if 60 < t then ((0, t, n, d, down), if n mod 16 = 1 then [SINGLE_CLICK] else []) else ((st, t, n, d, down), [])
      else if st = 3 then
        if \<not> down then (if t < 60 then (2, 0, n, d, down) else (0, t, n, d, down), [PRESS_UP]) else ((st, t, n, d, down), [])
      else
        if down then ((st, t, n, d, down), [LONG_PRESS_HOLD]) else ((0, t, n, d, down), [PRESS_UP]))"

fun press_step :: "bool \<Rightarrow> press_state \<Rightarrow> press_state \<times> press_evt list" where
  "press_step read (st, t, n, d, down) =
     press_machine (st, if 0 < st then t + 1 else t, n, if read = down \<or> d = 2 then 0 else d + 1, if d = 2 then read else down)"

fun press_run :: "bool list \<Rightarrow> press_state \<Rightarrow> press_state \<times> press_evt list" where
  "press_run [] s = (s, [])"
| "press_run (r # rs) s = (case press_step r s of (s1, evs) \<Rightarrow> case press_run rs s1 of (s2, fvs) \<Rightarrow> (s2, evs @ fvs))"

definition press_ok :: "press_state \<Rightarrow> bool" where
  "press_ok s = (case s of (st, t, n, d, down) \<Rightarrow> st \<in> {0, 1, 2, 3, 5} \<and> d \<le> 2 \<and> t < 65535)"

text \<open>A button whose fields are those of the machine.\<close>

definition bat :: "1 word \<Rightarrow> press_state \<Rightarrow> 'w button \<Rightarrow> bool" where
  "bat act s b =
     (case s of (st, t, n, d, down) \<Rightarrow>
        active_level b = act \<and> bt_state b = of_nat st \<and> bt_ticks b = of_nat t \<and> bt_repeat b = of_nat n \<and>
        debounce_cnt b = of_nat d \<and> button_level b = (if down then act else NOT act))"

text \<open>A reading of the pressed or the released level.\<close>

definition reading :: "1 word \<Rightarrow> bool \<Rightarrow> u8" where
  "reading act down = ucast (if down then act else NOT act)"

lemma repeat_word: "(of_nat n :: 4 word) = 1 \<longleftrightarrow> n mod 16 = 1" "(of_nat n :: 4 word) = 2 \<longleftrightarrow> n mod 16 = 2"
  using word_of_nat_eq_iff [where 'a = 4, of n 1] word_of_nat_eq_iff [where 'a = 4, of n 2]
  by (simp_all add: take_bit_eq_mod)

lemma ticks_word: "t < 65536 \<Longrightarrow> (of_nat t :: u16) < 60 \<longleftrightarrow> t < 60" "t < 65536 \<Longrightarrow> 60 < (of_nat t :: u16) \<longleftrightarrow> 60 < t"
    "t < 65536 \<Longrightarrow> 200 < (of_nat t :: u16) \<longleftrightarrow> 200 < t"
  by (simp_all add: word_less_nat_alt unat_of_nat take_bit_nat_eq_self)

lemma machine_refines:
  assumes "bat act (st, t, n, d, down) b" "st \<in> {0, 1, 2, 3, 5}" "t < 65536"
  shows "case button_machine b w of (b1, w1) \<Rightarrow>
     w1 = fire (bt_cb b) (snd (press_machine (st, t, n, d, down))) w \<and>
     bat act (fst (press_machine (st, t, n, d, down))) b1 \<and> bt_cb b1 = bt_cb b"
proof -
  have r: "Suc n mod 16 = 2 \<longleftrightarrow> n mod 16 = Suc 0" by (auto simp: mod_Suc)
  have b: "active_level b = act" "bt_state b = of_nat st" "bt_ticks b = of_nat t" "bt_repeat b = of_nat n"
    "debounce_cnt b = of_nat d" "button_level b = (if down then act else NOT act)"
    using assms(1) by (simp_all add: bat_def)
  note fields = b bat_def button_machine_def EVENT_CB_def
  from assms(2) consider "st = 0" | "st = 1" | "st = 2" | "st = 3" | "st = 5" by blast
  then show ?thesis
  proof cases
    case 1 then show ?thesis by (cases down) (simp_all add: fields)
  next
    case 2 then show ?thesis using assms(3) by (cases down; cases "200 < t") (simp_all add: fields ticks_word)
  next
    case 3 then show ?thesis
      using assms(3) by (cases down; cases "60 < t"; cases "n mod 16 = 1"; cases "n mod 16 = 2")
        (simp_all add: fields ticks_word repeat_word r Let_def cong: option.case_cong)
  next
    case 4 then show ?thesis using assms(3) by (cases down; cases "t < 60") (simp_all add: fields ticks_word)
  next
    case 5 then show ?thesis by (cases down) (simp_all add: fields)
  qed
qed

lemma debounce_refines:
  fixes act read
  assumes "debounce_cnt b = of_nat d" "button_level b = (if down then act else NOT act)" "d \<le> 2"
  defines "b1 \<equiv> button_debounce (reading act read) b"
  shows "debounce_cnt b1 = of_nat (if read = down \<or> d = 2 then 0 else d + 1)"
    "button_level b1 = (if (if d = 2 then read else down) then act else NOT act)"
    "bt_state b1 = bt_state b" "bt_ticks b1 = bt_ticks b" "bt_repeat b1 = bt_repeat b" "active_level b1 = active_level b"
    "bt_cb b1 = bt_cb b"
proof -
  have same: "reading act read \<noteq> ucast (button_level b) \<longleftrightarrow> read \<noteq> down"
    by (cases read; cases down; simp add: reading_def assms(2))
  have three: "(3 :: 3 word) \<le> of_nat d + 1 \<longleftrightarrow> d = 2"
  proof -
    consider "d = 0" | "d = 1" | "d = 2" using assms(3) by linarith
    then show ?thesis by cases (simp_all add: word_le_nat_alt)
  qed
  have lev: "ucast (reading act read) = (if read then act else NOT act)" for read by (simp add: reading_def)
  have b1: "b1 = (if read \<noteq> down then if d = 2 then b\<lparr>button_level := if read then act else NOT act, debounce_cnt := 0\<rparr>
      else b\<lparr>debounce_cnt := of_nat d + 1\<rparr> else b\<lparr>debounce_cnt := 0\<rparr>)"
    unfolding b1_def button_debounce_def same by (simp add: assms(1) three lev Let_def)
  show "debounce_cnt b1 = of_nat (if read = down \<or> d = 2 then 0 else d + 1)" by (simp add: b1)
  show "button_level b1 = (if (if d = 2 then read else down) then act else NOT act)" by (simp add: b1 assms(2))
  show "bt_state b1 = bt_state b" "bt_ticks b1 = bt_ticks b" "bt_repeat b1 = bt_repeat b" "active_level b1 = active_level b"
    "bt_cb b1 = bt_cb b"
    by (simp_all add: b1)
qed

lemma step_refines:
  assumes "bat act s b" "press_ok s"
  shows "case button_step (reading act read) (b, w) of (b1, w1) \<Rightarrow>
     w1 = fire (bt_cb b) (snd (press_step read s)) w \<and> bat act (fst (press_step read s)) b1 \<and> bt_cb b1 = bt_cb b"
proof -
  obtain st t n d down where s: "s = (st, t, n, d, down)" by (cases s)
  define b1 where "b1 = button_debounce (reading act read) (if 0 < bt_state b then b\<lparr>bt_ticks := bt_ticks b + 1\<rparr> else b)"
  have ok: "st \<in> {0, 1, 2, 3, 5}" "d \<le> 2" "t < 65535" using assms(2) by (simp_all add: s press_ok_def)
  have st: "0 < bt_state b \<longleftrightarrow> 0 < st" using assms(1) ok(1) by (auto simp: s bat_def)
  have "bat act (st, if 0 < st then t + 1 else t, n, if read = down \<or> d = 2 then 0 else d + 1, if d = 2 then read else down) b1"
    using assms(1) st ok(2) unfolding s bat_def b1_def by (simp add: debounce_refines)
  moreover have "bt_cb b1 = bt_cb b"
    using assms(1) ok(2) unfolding s bat_def b1_def by (simp add: debounce_refines)
  moreover have "button_step (reading act read) (b, w) = button_machine b1 w" by (simp add: button_step_def b1_def)
  moreover have "(if 0 < st then t + 1 else t) < 65536" using ok(3) by simp
  ultimately show ?thesis using machine_refines [of act st _ n _ _ b1 w] ok(1) by (simp add: s)
qed

lemma press_step_ok: "press_ok s \<Longrightarrow> fst (snd (fst (press_step r s))) < 65535 \<Longrightarrow> press_ok (fst (press_step r s))"
  by (cases s) (auto simp: press_ok_def split: if_splits)

text \<open>\<open>leads s rs evs s2\<close>: the readings lead from \<open>s\<close> to \<open>s2\<close> with these events, the ticks staying below their width.\<close>

fun leads :: "press_state \<Rightarrow> bool list \<Rightarrow> press_evt list \<Rightarrow> press_state \<Rightarrow> bool" where
  "leads s [] evs s2 \<longleftrightarrow> evs = [] \<and> s2 = s"
| "leads s (r # rs) evs s2 \<longleftrightarrow>
     (\<exists>fvs. evs = snd (press_step r s) @ fvs \<and> fst (snd (fst (press_step r s))) < 65535 \<and> leads (fst (press_step r s)) rs fvs s2)"

lemma leads_append: "leads s rs evs s1 \<Longrightarrow> leads s1 ss fvs s2 \<Longrightarrow> leads s (rs @ ss) (evs @ fvs) s2"
proof (induction rs arbitrary: s evs)
  case (Cons r rs)
  then obtain gvs where "evs = snd (press_step r s) @ gvs" "fst (snd (fst (press_step r s))) < 65535"
    "leads (fst (press_step r s)) rs gvs s1" by auto
  then show ?case using Cons.IH [of "fst (press_step r s)" gvs] Cons.prems(2)
    by (simp del: press_step.simps)
qed (simp del: press_step.simps)

lemma leads_refines:
  assumes "leads s rs evs s2" "bat act s b" "press_ok s"
  shows "case button_run (map (reading act) rs) (b, w) of (b2, w2) \<Rightarrow> w2 = fire (bt_cb b) evs w \<and> bat act s2 b2 \<and> bt_cb b2 = bt_cb b"
  using assms
proof (induction rs arbitrary: s evs b w)
  case (Cons r rs)
  then obtain fvs where f: "evs = snd (press_step r s) @ fvs" "fst (snd (fst (press_step r s))) < 65535"
    "leads (fst (press_step r s)) rs fvs s2" by auto
  obtain b1 w1 where b1: "button_step (reading act r) (b, w) = (b1, w1)" by fastforce
  then have "w1 = fire (bt_cb b) (snd (press_step r s)) w" "bat act (fst (press_step r s)) b1" "bt_cb b1 = bt_cb b"
    using step_refines [OF Cons.prems(2,3), of r w] by simp_all
  then show ?case
    using Cons.IH [OF f(3), of b1 w1] press_step_ok [OF Cons.prems(3) f(2)] by (simp add: b1 f(1) split: prod.splits)
qed simp

section \<open>Presses and gaps\<close>

lemma leads_step:
  "press_step r s = (s1, evs) \<Longrightarrow> fst (snd s1) < 65535 \<Longrightarrow> leads s [r] evs s1"
  by simp

lemma wait_pressed: "t + k \<le> 200 \<Longrightarrow> leads (1, t, n, 0, True) (replicate k True) [] (1, t + k, n, 0, True)"
proof (induction k arbitrary: t)
  case (Suc k)
  then show ?case using Suc.IH [of "Suc t"] by simp
qed simp



lemma wait_held: "t + k < 65535 \<Longrightarrow> leads (5, t, n, 0, True) (replicate k True) (replicate k LONG_PRESS_HOLD) (5, t + k, n, 0, True)"
proof (induction k arbitrary: t)
  case (Suc k)
  then show ?case using Suc.IH [of "Suc t"] by simp
qed simp

lemma held_long:
  assumes "201 + k < 65535"
  shows "leads (1, 0, n, 0, True) (replicate 200 True @ [True] @ replicate k True) ([LONG_RRESS_START] @ replicate k LONG_PRESS_HOLD)
    (5, 201 + k, n, 0, True)"
proof -
  have "leads (1, 200, n, 0, True) [True] [LONG_RRESS_START] (5, 201, n, 0, True)" by simp
  moreover have "leads (1, 0, n, 0, True) (replicate 200 True) [] (1, 200, n, 0, True)" using wait_pressed [of 0 200 n] by simp
  ultimately have "leads (1, 0, n, 0, True) (replicate 200 True @ [True] @ replicate k True)
      ([] @ [LONG_RRESS_START] @ replicate k LONG_PRESS_HOLD) (5, 201 + k, n, 0, True)"
    using wait_held [OF assms] by (intro leads_append)
  then show ?thesis by simp
qed


lemma three: "[x, x, x] = replicate 3 x"
  by (simp add: numeral_eq_Suc)

lemma two: "[x, x] = replicate 2 x"
  by (simp add: numeral_eq_Suc)

lemma one: "[x] = replicate 1 x"
  by simp

lemma first_down: "t < 65535 \<Longrightarrow> leads (0, t, n, 0, False) [True, True, True] [PRESS_DOWN] (1, 0, 1, 0, True)"
  by simp














section \<open>Properties of a button\<close>


definition noting_button :: "press_evt list button" where
  "noting_button = \<lparr>bt_ticks = 0, bt_repeat = 0, bt_event = 8, bt_state = 0, debounce_cnt = 0, active_level = 0, button_level = 1,
     hal_button_Level = \<lambda>_. 1, bt_cb = \<lambda>ev. Some (\<lambda>w. w @ [ev])\<rparr>"

lemma noting_button_idle: "bat 0 (0, 0, 0, 0, False) noting_button"
  by (simp add: bat_def noting_button_def)


text \<open>A long press calls the callback of press down, after 201 ticks that of a long press, then at every tick that of holding, and
  at the release that of press up, and none of a click.\<close>

theorem button_long_press:
  assumes "bat act (0, t, n, 0, False) b" "t < 65535" "204 \<le> p" "p < 65535"
  shows "case button_run (map (reading act) (replicate p True @ replicate 3 False)) (b, w) of (b2, w2) \<Rightarrow>
     w2 = fire (bt_cb b) ([PRESS_DOWN, LONG_RRESS_START] @ replicate (p - 202) LONG_PRESS_HOLD @ [PRESS_UP]) w \<and>
     bat act (0, p, 1, 0, False) b2"
proof -
  have rel: "leads (5, p - 3, 1, 0, True) [False, False, False] [LONG_PRESS_HOLD, LONG_PRESS_HOLD, PRESS_UP] (0, p, 1, 0, False)"
    using assms(3,4) by simp arith
  have long: "leads (1, 0, 1, 0, True) (replicate 200 True @ [True] @ replicate (p - 204) True)
      ([LONG_RRESS_START] @ replicate (p - 204) LONG_PRESS_HOLD) (5, p - 3, 1, 0, True)"
    using held_long [of "p - 204" 1] assms(3,4) by (simp del: leads.simps)
  have "leads (0, t, n, 0, False)
      ([True, True, True] @ (replicate 200 True @ [True] @ replicate (p - 204) True) @ [False, False, False])
      ([PRESS_DOWN] @ ([LONG_RRESS_START] @ replicate (p - 204) LONG_PRESS_HOLD) @ [LONG_PRESS_HOLD, LONG_PRESS_HOLD, PRESS_UP])
      (0, p, 1, 0, False)"
    by (rule leads_append [OF first_down [OF assms(2)] leads_append [OF long rel]])
  moreover have "[True, True, True] @ replicate 200 True @ [True] @ replicate (p - 204) True = replicate p True"
    unfolding three unfolding one replicate_add [symmetric] by (rule arg_cong2 [where f = replicate]) (use assms(3) in simp_all)
  moreover have "replicate (p - 204) LONG_PRESS_HOLD @ [LONG_PRESS_HOLD, LONG_PRESS_HOLD] = replicate (p - 202) LONG_PRESS_HOLD"
    unfolding two replicate_add [symmetric] by (rule arg_cong2 [where f = replicate]) (use assms(3) in simp_all)
  ultimately have "leads (0, t, n, 0, False) (replicate p True @ replicate 3 False)
      ([PRESS_DOWN, LONG_RRESS_START] @ replicate (p - 202) LONG_PRESS_HOLD @ [PRESS_UP]) (0, p, 1, 0, False)"
    unfolding three [symmetric] by (metis append.assoc append_Cons append_Nil)
  then show ?thesis
    using leads_refines [OF _ assms(1), of "replicate p True @ replicate 3 False" _ "(0, p, 1, 0, False)" w] assms(2)
    by (auto simp: press_ok_def split: prod.splits)
qed

text \<open>A press of 1.25 s, of which the last second and a bit is held.\<close>

lemma button_long_press_witness:
  "snd (button_run (map (reading 0) (replicate 250 True @ replicate 3 False)) (noting_button, [])) =
     [PRESS_DOWN, LONG_RRESS_START] @ replicate 48 LONG_PRESS_HOLD @ [PRESS_UP]"
proof -
  have ev: "fire (\<lambda>ev. Some (\<lambda>w. w @ [ev])) evs w = w @ evs" for evs :: "press_evt list" and w
    by (induction evs arbitrary: w) simp_all
  show ?thesis
    using button_long_press [OF noting_button_idle, of 250 "[]"]
    by (auto simp: noting_button_def ev simp del: replicate.simps fire_simps split: prod.splits)
qed

section \<open>The list\<close>

fun bt_chain :: "(nat \<Rightarrow> nat option) \<Rightarrow> nat option \<Rightarrow> nat list \<Rightarrow> bool" where
  "bt_chain nx start [] \<longleftrightarrow> start = None"
| "bt_chain nx start (x # xs) \<longleftrightarrow> start = Some x \<and> bt_chain nx (nx x) xs"

definition bt_list :: "'w buttons \<Rightarrow> nat list \<Rightarrow> bool" where
  "bt_list s xs \<longleftrightarrow> bt_chain (bt_next s) (head_handle s) xs \<and> distinct xs"

lemma bt_chain_upd: "h \<notin> set xs \<Longrightarrow> bt_chain (nx(h := v)) start xs = bt_chain nx start xs"
  by (induction xs arbitrary: start) auto

lemma list_has_chain: "bt_chain nx start xs \<Longrightarrow> list_has nx h start = Some (h \<in> set xs)"
proof (induction xs arbitrary: start)
  case (Cons x xs)
  then show ?case by (subst list_has.simps) auto
qed (simp add: list_has.simps)

lemma stop_from_other:
  assumes "bt_chain (bt_next s) (link_of cur s) xs" "h \<notin> set xs"
  shows "stop_from h cur s = Some s"
  using assms
proof (induction xs arbitrary: cur)
  case (Cons x xs)
  then show ?case by (subst stop_from.simps) (simp add: link_of_def)
qed (simp add: stop_from.simps)

lemma stop_from_removes:
  assumes "bt_chain (bt_next s) (link_of cur s) xs" "distinct xs" "case cur of None \<Rightarrow> True | Some c \<Rightarrow> c \<notin> set xs"
  shows "\<exists>s1. stop_from h cur s = Some s1 \<and> bt_chain (bt_next s1) (link_of cur s1) (filter (\<lambda>x. x \<noteq> h) xs) \<and> bt_cells s1 = bt_cells s \<and>
     (\<forall>k. k \<notin> set xs \<longrightarrow> Some k \<noteq> cur \<longrightarrow> bt_next s1 k = bt_next s k) \<and> (cur \<noteq> None \<longrightarrow> head_handle s1 = head_handle s)"
  using assms
proof (induction xs arbitrary: cur)
  case Nil
  then show ?case by (intro exI [of _ s]) (simp add: stop_from.simps)
next
  case (Cons x xs)
  show ?case
  proof (cases "x = h")
    case True
    define s1 where "s1 = set_link cur (bt_next s x) s"
    have fields: "bt_cells s1 = bt_cells s" "link_of cur s1 = bt_next s x" "k \<noteq> x \<longrightarrow> Some k \<noteq> cur \<longrightarrow> bt_next s1 k = bt_next s k"
      "cur \<noteq> None \<longrightarrow> head_handle s1 = head_handle s" for k
      by (auto simp: s1_def set_link_def link_of_def split: option.split)
    have chain: "bt_chain (bt_next s1) (link_of cur s1) xs"
      using Cons.prems by (auto simp: s1_def set_link_def link_of_def bt_chain_upd split: option.splits)
    moreover have "stop_from h cur s = stop_from h cur s1"
      using Cons.prems(1) True by (subst stop_from.simps) (simp add: s1_def)
    moreover have "h \<notin> set xs" using Cons.prems(2) True by simp
    moreover from this have "filter (\<lambda>y. y \<noteq> h) xs = xs" by (simp add: filter_id_conv) blast
    ultimately show ?thesis
      using stop_from_other [OF chain \<open>h \<notin> set xs\<close>] fields True by (intro exI [of _ s1]) simp
  next
    case False
    have "bt_chain (bt_next s) (link_of (Some x) s) xs" using Cons.prems(1) by (simp add: link_of_def)
    moreover have "stop_from h cur s = stop_from h (Some x) s"
      using Cons.prems(1) False by (subst stop_from.simps) simp
    ultimately obtain s1 where s1: "stop_from h cur s = Some s1"
      "bt_chain (bt_next s1) (link_of (Some x) s1) (filter (\<lambda>x. x \<noteq> h) xs)" "bt_cells s1 = bt_cells s"
      "\<forall>k. k \<notin> set xs \<longrightarrow> k \<noteq> x \<longrightarrow> bt_next s1 k = bt_next s k" "head_handle s1 = head_handle s"
      using Cons.IH [of "Some x"] Cons.prems(2) by auto
    moreover have "link_of cur s1 = link_of cur s"
      using s1(4,5) Cons.prems(3) by (cases cur) (auto simp: link_of_def)
    ultimately show ?thesis
      using Cons.prems(1) False by (intro exI [of _ s1]) (simp add: link_of_def)
  qed
qed

definition tick_cell :: "nat \<Rightarrow> 'w buttons \<times> 'w \<Rightarrow> 'w buttons \<times> 'w" where
  "tick_cell t s =
     (case button_handler (bt_cells (fst s) t, snd s) of (b, w) \<Rightarrow> ((fst s)\<lparr>bt_cells := (bt_cells (fst s))(t := b)\<rparr>, w))"

lemma ticks_from_chain:
  "bt_chain (bt_next bs) start xs \<Longrightarrow> ticks_from start (bs, w) = Some (fold tick_cell xs (bs, w))"
proof (induction xs arbitrary: start bs w)
  case (Cons x xs)
  obtain b w1 where h: "button_handler (bt_cells bs x, w) = (b, w1)" by (cases "button_handler (bt_cells bs x, w)")
  then have "tick_cell x (bs, w) = (bs\<lparr>bt_cells := (bt_cells bs)(x := b)\<rparr>, w1)" by (simp add: tick_cell_def)
  with Cons h show ?case by (subst ticks_from.simps) simp
qed (simp add: ticks_from.simps)

text \<open>C35: The list of working buttons is a list without repetition, and stays one: starting a button puts it in front, or answers -1 and
  changes nothing when it is there already; stopping one takes exactly it out, and changes nothing when it is not there; a tick
  ends and handles every button of the list once, from the front, each on what the callbacks of the earlier ones left.\<close>

theorem button_list_works:
  assumes "bt_list s xs"
  shows "(\<exists>s1. button_start h s = Some (if h \<in> set xs then - 1 else 0, s1) \<and> bt_list s1 (if h \<in> set xs then xs else h # xs)) \<and>
    (\<exists>s2. button_stop h s = Some s2 \<and> bt_list s2 (filter (\<lambda>x. x \<noteq> h) xs) \<and> bt_cells s2 = bt_cells s) \<and>
    button_ticks (s, w) = Some (fold tick_cell xs (s, w))"
proof (intro conjI)
  have chain: "bt_chain (bt_next s) (head_handle s) xs" and "distinct xs" using assms by (simp_all add: bt_list_def)
  show "\<exists>s1. button_start h s = Some (if h \<in> set xs then - 1 else 0, s1) \<and> bt_list s1 (if h \<in> set xs then xs else h # xs)"
    using \<open>distinct xs\<close> chain by (auto simp: button_start_def list_has_chain [OF chain] bt_list_def bt_chain_upd)
  have "link_of None s = head_handle s" by (simp add: link_of_def)
  then show "\<exists>s2. button_stop h s = Some s2 \<and> bt_list s2 (filter (\<lambda>x. x \<noteq> h) xs) \<and> bt_cells s2 = bt_cells s"
    using stop_from_removes [of s None xs h] chain \<open>distinct xs\<close> by (auto simp: button_stop_def bt_list_def link_of_def)
  show "button_ticks (s, w) = Some (fold tick_cell xs (s, w))"
    using ticks_from_chain [OF chain] by (simp add: button_ticks_def)
qed

lemma button_list_works_witness:
  "\<exists>s2. button_stop 2 \<lparr>head_handle = Some 1, bt_next = [1 \<mapsto> 2, 2 \<mapsto> 3], bt_cells = \<lambda>_. noting_button\<rparr> = Some s2 \<and> bt_list s2 [1, 3]"
  using button_list_works [of "\<lparr>head_handle = Some 1, bt_next = [1 \<mapsto> 2, 2 \<mapsto> 3], bt_cells = \<lambda>_. noting_button\<rparr>" "[1, 2, 3]" 2 "[]"]
  by (auto simp: bt_list_def)

section \<open>The key of the board, held for ever\<close>

lemma key_reads_zero: "key_get_gpio_value w = 0"
  by (simp add: key_get_gpio_value_def bk_gpio_input_def GPIO_TEST_ID_def asserted_def deref_def gpio_input_def
      gpio_ops_filter_def)

fun button_ticks_n :: "nat \<Rightarrow> 'w buttons \<times> 'w \<Rightarrow> ('w buttons \<times> 'w) option" where
  "button_ticks_n 0 s = Some s"
| "button_ticks_n (Suc n) s = (case button_ticks s of None \<Rightarrow> None | Some s1 \<Rightarrow> button_ticks_n n s1)"

definition zero_button :: "key_world button" where
  "zero_button = \<lparr>bt_ticks = 0, bt_repeat = 0, bt_event = 0, bt_state = 0, debounce_cnt = 0, active_level = 0, button_level = 0,
     hal_button_Level = \<lambda>_. 0, bt_cb = \<lambda>_. None\<rparr>"

lemma one_button_ticks:
  assumes "head_handle bs = Some h" "bt_next bs h = None" "hal_button_Level (bt_cells bs h) = key_get_gpio_value"
  shows "\<exists>bs1. button_ticks_n n (bs, w) = Some (bs1, snd (button_run (replicate n 0) (bt_cells bs h, w)))"
  using assms
proof (induction n arbitrary: bs w)
  case (Suc n)
  obtain b w1 where b: "button_step 0 (bt_cells bs h, w) = (b, w1)" by (cases "button_step 0 (bt_cells bs h, w)")
  have hal: "hal_button_Level b = key_get_gpio_value"
    using b Suc.prems(3)
    by (auto simp: button_step_def button_machine_def button_debounce_def Let_def split: if_splits prod.splits)
  have "button_ticks (bs, w) = Some (bs\<lparr>bt_cells := (bt_cells bs)(h := b)\<rparr>, w1)"
    using ticks_from_chain [of bs "head_handle bs" "[h]" w] Suc.prems b
    by (simp add: button_ticks_def tick_cell_def button_handler_def key_reads_zero)
  then show ?case
    using Suc.IH [of "bs\<lparr>bt_cells := (bt_cells bs)(h := b)\<rparr>" w1] Suc.prems(1,2) hal b by simp
qed simp

text \<open>A held button stays held while the pressed level is read, whatever the count of ticks, which wraps, is.\<close>

lemma held_on:
  assumes "bt_state b = 5" "button_level b = act" "active_level b = act" "\<forall>w. snd (fire (bt_cb b) [LONG_PRESS_HOLD] w) = snd w @ out"
  shows "snd (snd (button_run (replicate k (reading act True)) (b, w))) = snd w @ concat (replicate k out)"
  using assms
proof (induction k arbitrary: b w)
  case (Suc k)
  define b1 where "b1 = b\<lparr>bt_ticks := bt_ticks b + 1, debounce_cnt := 0, bt_event := evt_num LONG_PRESS_HOLD\<rparr>"
  have "button_step (reading act True) (b, w) = (b1, fire (bt_cb b) [LONG_PRESS_HOLD] w)"
    using Suc.prems by (simp add: button_step_def button_debounce_def button_machine_def EVENT_CB_def reading_def b1_def)
  moreover have "bt_state b1 = 5" "button_level b1 = act" "active_level b1 = act" "bt_cb b1 = bt_cb b"
    using Suc.prems by (simp_all add: b1_def)
  ultimately show ?case
    using Suc.IH [of b1 "fire (bt_cb b) [LONG_PRESS_HOLD] w"] Suc.prems by (simp del: fire_simps)
qed simp

text \<open>The key after its configuration: alone in the list, released in its state but pressed by its levels.\<close>

lemma key_configures:
  assumes "head_handle bs = None" "bt_cells bs h = zero_button"
  obtains bs1 w1 where "key_item_configure h (bs, w) = Some (Ret (bs1, w1))" "snd w1 = snd w" "head_handle bs1 = Some h"
    "bt_next bs1 h = None" "bat 0 (0, 0, 0, 0, True) (bt_cells bs1 h)"
    "hal_button_Level (bt_cells bs1 h) = key_get_gpio_value"
    "bt_cb (bt_cells bs1 h) =
       [SINGLE_CLICK \<mapsto> key_short_press, DOUBLE_CLICK \<mapsto> key_double_press, LONG_PRESS_HOLD \<mapsto> key_long_press_hold]"
proof -
  obtain r where r: "key_gpio_init w = Ret (r, snd w)"
    by (auto simp: key_gpio_init_def expect_success_def deref_def)
  define w1 where "w1 = (r, snd w)"
  define b where "b = key_test_button w1 zero_button"
  define bs1 where "bs1 = bs\<lparr>bt_cells := (bt_cells bs)(h := b), bt_next := (bt_next bs)(h := None), head_handle := Some h\<rparr>"
  have "button_start h (bs\<lparr>bt_cells := (bt_cells bs)(h := b)\<rparr>) = Some (0, bs1)"
    using assms(1) by (simp add: button_start_def list_has.simps bs1_def)
  then have "key_item_configure h (bs, w) = Some (Ret (bs1, w1))"
    using assms(2) by (simp add: key_item_configure_def r w1_def [symmetric] b_def)
  then show thesis
    by (rule that) (simp_all add: bs1_def w1_def b_def key_test_button_def button_init_def button_attach_def zero_button_def
        bat_def key_reads_zero)
qed

text \<open>The first 202 ticks of a press that does not end.\<close>

lemma held_start:
  assumes "bat act (0, 0, 0, 0, True) b"
  obtains b2 where "button_run (replicate 202 (reading act True)) (b, w) = (b2, fire (bt_cb b) [PRESS_DOWN, LONG_RRESS_START] w)"
    "bat act (5, 201, 1, 0, True) b2" "bt_cb b2 = bt_cb b"
proof -
  have down: "leads (0, 0, 0, 0, True) [True] [PRESS_DOWN] (1, 0, 1, 0, True)" by simp
  have "leads (0, 0, 0, 0, True) ([True] @ replicate 200 True @ [True] @ replicate 0 True)
      ([PRESS_DOWN] @ [LONG_RRESS_START] @ replicate 0 LONG_PRESS_HOLD) (5, 201 + 0, 1, 0, True)"
    by (rule leads_append [OF down held_long]) simp
  moreover have "[True] @ replicate 200 True @ [True] @ replicate 0 True = replicate 202 True"
    unfolding one replicate_add [symmetric] by (rule arg_cong2 [where f = replicate]) simp_all
  ultimately have lead: "leads (0, 0, 0, 0, True) (replicate 202 True) [PRESS_DOWN, LONG_RRESS_START] (5, 201, 1, 0, True)"
    by (simp only: append_Cons append_Nil replicate_0 append_Nil2 add_0_right)
  obtain b2 v where held: "button_run (replicate 202 (reading act True)) (b, w) = (b2, v)"
    using prod.exhaust by blast
  then show thesis
    using leads_refines [OF lead assms, of w] that [of b2]
    by (auto simp: press_ok_def map_replicate simp del: fire_simps)
qed

text \<open>C36: The key of the board is on a pin kept for JTAG, which always reads low, the pressed level: whoever presses what, from
  the 203rd tick after its configuration on, without end, the message of a held key is printed at every tick.\<close>

theorem board_key_always_held:
  assumes "head_handle bs = None" "bt_cells bs h = zero_button" "202 \<le> n"
  shows "\<exists>bs1 w1 bs2 w2. key_item_configure h (bs, w) = Some (Ret (bs1, w1)) \<and> button_ticks_n n (bs1, w1) = Some (bs2, w2) \<and>
    snd w2 = snd w @ replicate (n - 202) ''key_long_press_hold''"
proof -
  obtain bs1 w1 where conf: "key_item_configure h (bs, w) = Some (Ret (bs1, w1))" "snd w1 = snd w"
    and key: "head_handle bs1 = Some h" "bt_next bs1 h = None" "hal_button_Level (bt_cells bs1 h) = key_get_gpio_value"
    and b: "bat 0 (0, 0, 0, 0, True) (bt_cells bs1 h)" "bt_cb (bt_cells bs1 h) =
       [SINGLE_CLICK \<mapsto> key_short_press, DOUBLE_CLICK \<mapsto> key_double_press, LONG_PRESS_HOLD \<mapsto> key_long_press_hold]"
    using assms(1,2) by (rule key_configures)
  define b1 where "b1 = bt_cells bs1 h"
  obtain b2 where held: "button_run (replicate 202 (reading 0 True)) (b1, w1) = (b2, fire (bt_cb b1) [PRESS_DOWN, LONG_RRESS_START] w1)"
    and b2: "bat 0 (5, 201, 1, 0, True) b2" "bt_cb b2 = bt_cb b1"
    using b(1) unfolding b1_def by (rule held_start)
  define v where "v = fire (bt_cb b1) [PRESS_DOWN, LONG_RRESS_START] w1"
  have "snd (snd (button_run (replicate (n - 202) (reading 0 True)) (b2, v))) =
      snd v @ concat (replicate (n - 202) [''key_long_press_hold''])"
    by (rule held_on) (use b2 b(2) in \<open>simp_all add: b1_def bat_def key_long_press_hold_def key_print_def\<close>)
  moreover have "replicate n (reading 0 True) = replicate 202 (reading 0 True) @ replicate (n - 202) (reading 0 True)"
    using assms(3) by (simp flip: replicate_add)
  moreover have "concat (replicate k [x]) = replicate k x" for k and x :: string by (induction k) simp_all
  moreover have "snd v = snd w" by (simp add: v_def b1_def b(2) conf(2))
  ultimately have "snd (snd (button_run (replicate n (reading 0 True)) (b1, w1))) =
      snd w @ replicate (n - 202) ''key_long_press_hold''"
    by (simp only: button_run_simps held v_def [symmetric])
  moreover have "reading 0 True = 0" by (simp add: reading_def)
  moreover have "\<exists>bs2. button_ticks_n n (bs1, w1) = Some (bs2, snd (button_run (replicate n 0) (b1, w1)))"
    using one_button_ticks [OF key] by (simp add: b1_def)
  ultimately show ?thesis using conf(1) by fastforce
qed

lemma board_key_always_held_witness:
  "\<exists>bs1 w1 bs2 w2. key_item_configure 0 (\<lparr>head_handle = None, bt_next = \<lambda>_. None, bt_cells = \<lambda>_. zero_button\<rparr>, (\<lambda>_. 0xFF, [])) =
     Some (Ret (bs1, w1)) \<and> button_ticks_n 204 (bs1, w1) = Some (bs2, w2) \<and>
     snd w2 = [''key_long_press_hold'', ''key_long_press_hold'']"
  using board_key_always_held [of "\<lparr>head_handle = None, bt_next = \<lambda>_. None, bt_cells = \<lambda>_. zero_button\<rparr>" 0 204 "(\<lambda>_. 0xFF, [])"]
  by (simp add: numeral_2_eq_2)

end
