(* ===== verification/Tftp_Ota.thy ===== *)
theory Tftp_Ota
  imports Bk_Flash
begin

text \<open>
  The firmware upgrade by TFTP: the client \<open>beken378/app/tftp/tftpclient.c\<close>, its packets, its timer and the blocks it stores in
  the flash of \<open>Flash\<close>.

  The 32-bit CRC \<open>co_crc32\<close> is in a binary library and an argument \<open>crc\<close>; sockets, timers and threads are events: a
  datagram or an error from the socket, a tick of the timer. What is sent is a log of packets with the address each goes to. \<open>pkt\<close> is a place in the receive
  buffer of 1600 bytes, which keeps what earlier datagrams left in it; reading or copying beyond a buffer is \<open>Fault\<close>.
  Left out: the failures of \<open>os_malloc\<close> and \<open>socket\<close> at the start, \<open>TftpOurPort\<close>, which nothing reads, and messages.
\<close>

section \<open>Constants\<close>

definition TFTP_ALL_CRC_LEN :: nat where "TFTP_ALL_CRC_LEN = 4"
definition TFTP_PKT_HD_LEN :: nat where "TFTP_PKT_HD_LEN = 24"
definition WELL_KNOWN_PORT :: u16 where "WELL_KNOWN_PORT = 69"
definition TIMEOUT_COUNT :: u32 where "TIMEOUT_COUNT = 10"
definition TFTP_RRQ :: u16 where "TFTP_RRQ = 1"
definition TFTP_WRQ :: u16 where "TFTP_WRQ = 2"
definition TFTP_DATA :: u16 where "TFTP_DATA = 3"
definition TFTP_ACK :: u16 where "TFTP_ACK = 4"
definition TFTP_ERROR :: u16 where "TFTP_ERROR = 5"
definition TFTP_OACK :: u16 where "TFTP_OACK = 6"
definition TFTP_BLOCK_SIZE :: u16 where "TFTP_BLOCK_SIZE = 512"
definition TFTP_MTU_BLOCKSIZE :: nat where "TFTP_MTU_BLOCKSIZE = 1024 + TFTP_PKT_HD_LEN"
definition TFTP_LEN :: nat where "TFTP_LEN = 1600"
definition OS1_FLASH_ADDR :: u32 where "OS1_FLASH_ADDR = 0x8C000"

lemmas tftp_ops = TFTP_RRQ_def TFTP_WRQ_def TFTP_DATA_def TFTP_ACK_def TFTP_ERROR_def TFTP_OACK_def

datatype tftp_state = STATE_RRQ | STATE_DATA | STATE_TOO_LARGE | STATE_BAD_MAGIC | STATE_OACK

section \<open>The header of a block and the header of the image\<close>

record send_data_hd =
  total_len :: u32
  hd_seq :: u16
  total_seq :: u16
  os0_ex_addr :: u32
  os_hd_addr :: u32
  os0_flash_addr :: u32
  os1_flash_addr :: u32

definition half_word :: "u8 list \<Rightarrow> u16" where
  "half_word bs = ucast (bs ! 0) OR push_bit 8 (ucast (bs ! 1))"

text \<open>The first 24 bytes as the structure, each word the least significant byte first.\<close>

definition read_hd :: "u8 list \<Rightarrow> send_data_hd" where
  "read_hd bs =
     \<lparr>total_len = bytes_word (take 4 bs), hd_seq = half_word (drop 4 bs), total_seq = half_word (drop 6 bs),
      os0_ex_addr = bytes_word (take 4 (drop 8 bs)), os_hd_addr = bytes_word (take 4 (drop 12 bs)),
      os0_flash_addr = bytes_word (take 4 (drop 16 bs)), os1_flash_addr = bytes_word (take 4 (drop 20 bs))\<rparr>"

record img_head =
  bkup_addr :: u32
  bkup_len :: u32
  ex_addr :: u32
  os_addr :: u32
  hd_addr :: u32
  hd_crc :: u32
  hd_status :: u32
  hd_bk :: u32

definition img_bytes :: "img_head \<Rightarrow> u8 list" where
  "img_bytes h = word_bytes (bkup_addr h) @ word_bytes (bkup_len h) @ word_bytes (ex_addr h) @ word_bytes (os_addr h) @
     word_bytes (hd_addr h) @ word_bytes (hd_crc h) @ word_bytes (hd_status h) @ word_bytes (hd_bk h)"

section \<open>Storing a block\<close>

record ota_block =
  send_hd :: send_data_hd
  send_hd_bk :: send_data_hd
  os_data_addr :: u32
  tftp_crc :: u32
  img_hd :: img_head

definition zero_hd :: send_data_hd where
  "zero_hd = \<lparr>total_len = 0, hd_seq = 0, total_seq = 0, os0_ex_addr = 0, os_hd_addr = 0, os0_flash_addr = 0, os1_flash_addr = 0\<rparr>"

definition zero_img :: img_head where
  "zero_img = \<lparr>bkup_addr = 0, bkup_len = 0, ex_addr = 0, os_addr = 0, hd_addr = 0, hd_crc = 0, hd_status = 0, hd_bk = 0\<rparr>"

definition ota_block_start :: ota_block where
  "ota_block_start = \<lparr>send_hd = zero_hd, send_hd_bk = zero_hd, os_data_addr = OS1_FLASH_ADDR, tftp_crc = 0, img_hd = zero_img\<rparr>"

text \<open>The messages about blocks out of order and about a failed comparison have no effect. \<open>mem_ok\<close>: \<open>os_malloc\<close> answers.\<close>

definition seal_image :: "'c flash_ctl \<Rightarrow> flash_config_t \<Rightarrow> u32 \<Rightarrow> ota_block \<times> 'c \<Rightarrow> ota_block \<times> 'c" where
  "seal_image F cfg or_crc s =
     (case s of (b, c) \<Rightarrow>
        (let h = (img_hd b)\<lparr>bkup_addr := os1_flash_addr (send_hd b), bkup_len := total_len (send_hd_bk b), hd_crc := or_crc,
               ex_addr := os0_ex_addr (send_hd b), os_addr := os0_flash_addr (send_hd b), hd_addr := os_hd_addr (send_hd b),
               hd_status := 1\<rparr>;
             c1 = flash_do F cfg CMD_FLASH_ERASE_SECTOR (os_hd_addr (send_hd b)) c
         in (b\<lparr>img_hd := h\<rparr>, snd (flash_write F cfg (img_bytes h) (os_hd_addr (send_hd b)) c1))))"

definition check_image ::
    "(u8 list \<Rightarrow> u32 \<Rightarrow> u32) \<Rightarrow> 'c flash_ctl \<Rightarrow> flash_config_t \<Rightarrow> u8 list \<Rightarrow> nat \<Rightarrow> ota_block \<times> 'c \<Rightarrow> ota_block \<times> 'c" where
  "check_image crc F cfg src len s =
     (case s of (b, c) \<Rightarrow>
        if hd_seq (send_hd b) \<noteq> total_seq (send_hd b) then (b\<lparr>tftp_crc := crc (take len src) (tftp_crc b)\<rparr>, c)
        else
          (let or_crc = bytes_word (take 4 (drop (len - TFTP_ALL_CRC_LEN) src));
               b1 = b\<lparr>tftp_crc := crc (take (len - TFTP_ALL_CRC_LEN) src) (tftp_crc b)\<rparr>
           in if tftp_crc b1 = or_crc then seal_image F cfg or_crc (b1, c) else (b1, c)))"

definition store_data ::
    "(u8 list \<Rightarrow> u32 \<Rightarrow> u32) \<Rightarrow> bool \<Rightarrow> 'c flash_ctl \<Rightarrow> flash_config_t \<Rightarrow> u8 list \<Rightarrow> nat \<Rightarrow> ota_block \<times> 'c \<Rightarrow> (ota_block \<times> 'c) c_run" where
  "store_data crc mem_ok F cfg src len s =
     (case s of (b, c) \<Rightarrow>
        if len < TFTP_PKT_HD_LEN \<or> length src < len then Fault
        else
          (let data = drop TFTP_PKT_HD_LEN (take len src);
               c1 = snd (flash_write F cfg data (os_data_addr b) c);
               c2 = (if mem_ok then snd (snd (flash_read F (of_nat (length data)) (os_data_addr b) c1)) else c1)
           in if mem_ok \<and> 1024 < length data then Fault
              else (case check_image crc F cfg src len (b, c2) of
                      (b3, c3) \<Rightarrow> Ret (b3\<lparr>os_data_addr := os_data_addr b3 + of_nat (length data)\<rparr>, c3))))"

text \<open>\<open>len\<close> is unsigned: a number below 24, or above the buffer, takes the copy out of it.\<close>

definition store_block ::
    "(u8 list \<Rightarrow> u32 \<Rightarrow> u32) \<Rightarrow> bool \<Rightarrow> 'c flash_ctl \<Rightarrow> flash_config_t \<Rightarrow> u32 \<Rightarrow> u8 list \<Rightarrow> u32 \<Rightarrow> ota_block \<times> 'c \<Rightarrow> (ota_block \<times> 'c) c_run" where
  "store_block crc mem_ok F cfg block src len s =
     (case s of (b0, c0) \<Rightarrow>
        if length src < TFTP_PKT_HD_LEN then Fault
        else
          (let b1 = b0\<lparr>send_hd := read_hd src\<rparr>;
               b2 = (if block \<noteq> 0 then b1 else b1\<lparr>os_data_addr := os1_flash_addr (send_hd b1), tftp_crc := 0\<rparr>);
               b3 = b2\<lparr>send_hd_bk := send_hd b2\<rparr>;
               c1 = (if os_data_addr b3 mod 0x1000 = 0 then flash_do F cfg CMD_FLASH_ERASE_SECTOR (os_data_addr b3) c0 else c0)
           in if 0x200000 \<le> os_data_addr b3 \<or> os_data_addr b3 < 0x27000 then Ret (b3, c1)
              else if os_data_addr b3 < 0x400000 then store_data crc mem_ok F cfg src (unat len) (b3, c1)
              else Ret (b3, c1)))"

section \<open>The client\<close>

text \<open>A socket address: the host and the port, both as in the packet.\<close>

type_synonym sock_addr = "u32 \<times> u16"

record tftp_client =
  TftpState :: tftp_state
  TftpServerPort :: u16
  TftpTimeoutCount :: u32
  TftpBlock :: "64 word"
  TftpLastBlock :: "64 word"
  TftpBlockWrap :: "64 word"
  TftpBlockWrapOffset :: "64 word"
  TftpBlkSize :: u16
  tftp_buf :: "u8 list"
  server_addr :: sock_addr
  tf_sent :: "(sock_addr \<times> u8 list) list"
  tf_done :: bool

definition TFTP_SEQUENCE_SIZE :: "64 word" where "TFTP_SEQUENCE_SIZE = 65536"

definition be16 :: "u16 \<Rightarrow> u8 list" where
  "be16 w = [ucast (drop_bit 8 w), ucast w]"

definition net16 :: "u8 list \<Rightarrow> u16" where
  "net16 bs = push_bit 8 (ucast (bs ! 0)) OR ucast (bs ! 1)"

definition ascii :: "string \<Rightarrow> u8 list" where
  "ascii t = map of_char t"

definition BootFile :: string where "BootFile = ''rwnx_fmac_crc.bin''"

definition tftp_packet :: "tftp_client \<Rightarrow> u8 list" where
  "tftp_packet s =
     (case TftpState s of
        STATE_RRQ \<Rightarrow> be16 TFTP_RRQ @ ascii BootFile @ [0] @ ascii ''octet'' @ [0] @ ascii ''timeout'' @ [0] @ ascii ''5'' @ [0] @
          ascii ''blksize'' @ [0] @ ascii ''1048'' @ [0]
      | STATE_OACK \<Rightarrow> be16 TFTP_ACK @ be16 (ucast (TftpBlock s))
      | STATE_DATA \<Rightarrow> be16 TFTP_ACK @ be16 (ucast (TftpBlock s))
      | STATE_TOO_LARGE \<Rightarrow> be16 TFTP_ERROR @ be16 3 @ ascii ''File too large'' @ [0]
      | STATE_BAD_MAGIC \<Rightarrow> be16 TFTP_ERROR @ be16 2 @ ascii ''File has bad magic'' @ [0])"

definition TftpSend :: "tftp_client \<Rightarrow> tftp_client" where
  "TftpSend s = s\<lparr>tf_sent := tf_sent s @ [(server_addr s, tftp_packet s)]\<rparr>"

text \<open>\<open>Tftp_Uninit\<close> frees the buffer and deletes the thread that serves the socket.\<close>

definition Tftp_Uninit :: "tftp_client \<Rightarrow> tftp_client" where
  "Tftp_Uninit s = s\<lparr>tftp_buf := [], tf_done := True\<rparr>"

definition TftpStart :: "tftp_client \<Rightarrow> ota_block \<Rightarrow> tftp_client \<times> ota_block" where
  "TftpStart s b =
     (s\<lparr>TftpServerPort := WELL_KNOWN_PORT, TftpTimeoutCount := 0, TftpState := STATE_RRQ, TftpBlock := 0, TftpBlkSize := TFTP_BLOCK_SIZE\<rparr>,
      b\<lparr>tftp_crc := 0\<rparr>)"

definition TftpTimeout :: "tftp_client \<Rightarrow> tftp_client" where
  "TftpTimeout s =
     (let s1 = s\<lparr>TftpTimeoutCount := TftpTimeoutCount s + 1\<rparr> in if TIMEOUT_COUNT < TftpTimeoutCount s1 then s1 else TftpSend s1)"

text \<open>\<open>strcmp\<close> at a place of the buffer, and the decimal number that \<open>strtoul\<close> reads there, up to the end of the buffer.\<close>

fun str_at :: "u8 list \<Rightarrow> u8 list \<Rightarrow> bool c_run" where
  "str_at [] bs = Ret True"
| "str_at (w # ws) [] = Fault"
| "str_at (w # ws) (b # bs) = (if b \<noteq> w then Ret False else str_at ws bs)"

definition is_digit :: "u8 \<Rightarrow> bool" where
  "is_digit b \<longleftrightarrow> 0x30 \<le> b \<and> b \<le> 0x39"

definition dec_value :: "u8 list \<Rightarrow> nat" where
  "dec_value ds = foldl (\<lambda>n d. 10 * n + unat (d - 0x30)) 0 ds"

definition os_strtoul :: "u8 list \<Rightarrow> u32" where
  "os_strtoul bs =
     (let rest = dropWhile (\<lambda>b. b = 0x20 \<or> 9 \<le> b \<and> b \<le> 13) bs;
          ds = takeWhile is_digit (if rest \<noteq> [] \<and> (hd rest = 0x2B \<or> hd rest = 0x2D) then tl rest else rest);
          v = dec_value ds
      in if 4294967295 < v then 4294967295 else if rest \<noteq> [] \<and> hd rest = 0x2D then - of_nat v else of_nat v)"

text \<open>The search for the option from place \<open>i\<close> on: its size, or none. \<open>left\<close> counts the places that are tried.\<close>

fun find_blksize :: "u8 list \<Rightarrow> nat \<Rightarrow> u16 option c_run" where
  "find_blksize pkt 0 = Ret None"
| "find_blksize pkt (Suc left) =
     c_then (str_at (ascii ''blksize'' @ [0]) pkt)
       (\<lambda>found. if found then Ret (Some (ucast (os_strtoul (drop 8 pkt)))) else find_blksize (tl pkt) left)"

definition TftpOack :: "u8 list \<Rightarrow> u32 \<Rightarrow> u16 \<Rightarrow> tftp_client \<Rightarrow> tftp_client c_run" where
  "TftpOack pkt len port s =
     (let s1 = s\<lparr>TftpState := STATE_OACK, TftpServerPort := port\<rparr>
      in c_then (find_blksize pkt (unat len - 8))
           (\<lambda>blk. Ret (TftpSend (case blk of None \<Rightarrow> s1 | Some n \<Rightarrow> s1\<lparr>TftpBlkSize := n\<rparr>))))"

text \<open>A block of data; \<open>len\<close> is the length behind the operation.\<close>

definition TftpData ::
    "(u8 list \<Rightarrow> u32 \<Rightarrow> u32) \<Rightarrow> bool \<Rightarrow> 'c flash_ctl \<Rightarrow> flash_config_t \<Rightarrow> u8 list \<Rightarrow> u32 \<Rightarrow> u16 \<Rightarrow>
     tftp_client \<times> ota_block \<times> 'c \<Rightarrow> (tftp_client \<times> ota_block \<times> 'c) c_run" where
  "TftpData crc mem_ok F cfg pkt len0 port s =
     (case s of (t0, b, c) \<Rightarrow>
        if len0 < 2 then Ret s
        else
          (let len = len0 - 2;
               t1 = t0\<lparr>TftpBlock := ucast (net16 pkt)\<rparr>;
               t2 = (if TftpBlock t1 = 0
                     then t1\<lparr>TftpBlockWrap := TftpBlockWrap t1 + 1,
                       TftpBlockWrapOffset := TftpBlockWrapOffset t1 + ucast (TftpBlkSize t1) * TFTP_SEQUENCE_SIZE\<rparr>
                     else t1);
               first = (TftpState t2 = STATE_RRQ \<or> TftpState t2 = STATE_OACK);
               t3 = (if first then t2\<lparr>TftpState := STATE_DATA, TftpServerPort := port, TftpLastBlock := 0, TftpBlockWrap := 0,
                       TftpBlockWrapOffset := 0\<rparr> else t2)
           in if first \<and> TftpBlock t3 \<noteq> 1 then Ret (t3, b, c)
              else if TftpBlock t3 = TftpLastBlock t3 then Ret (TftpSend t3, b, c)
              else
                (let t4 = t3\<lparr>TftpLastBlock := TftpBlock t3\<rparr>
                 in c_then (store_block crc mem_ok F cfg (ucast (TftpBlock t4 - 1)) (drop 2 pkt) len (b, c))
                      (\<lambda>(b1, c1).
                         (let t5 = TftpSend t4
                          in Ret (if len < ucast (TftpBlkSize t5) then Tftp_Uninit t5 else t5, b1, c1))))))"

definition TftpHandler ::
    "(u8 list \<Rightarrow> u32 \<Rightarrow> u32) \<Rightarrow> bool \<Rightarrow> 'c flash_ctl \<Rightarrow> flash_config_t \<Rightarrow> u32 \<Rightarrow> u16 \<Rightarrow>
     tftp_client \<times> ota_block \<times> 'c \<Rightarrow> (tftp_client \<times> ota_block \<times> 'c) c_run" where
  "TftpHandler crc mem_ok F cfg len port s =
     (case s of (t, b, c) \<Rightarrow>
        if TftpState t \<noteq> STATE_RRQ \<and> port \<noteq> TftpServerPort t then Ret s
        else if len < 2 then Ret s
        else
          (let proto = net16 (tftp_buf t); pkt = drop 2 (tftp_buf t)
           in if proto = TFTP_OACK then c_then (TftpOack pkt (len - 2) port t) (\<lambda>t1. Ret (t1, b, c))
              else if proto = TFTP_DATA then TftpData crc mem_ok F cfg pkt (len - 2) port s
              else Ret s))"

section \<open>The thread\<close>

text \<open>
  \<open>recvfrom\<close> puts the first 1600 bytes of a datagram into the buffer, its source into \<open>server_addr\<close>, and answers the number
  of bytes, or -1 and puts nothing. The loop passes either on. A tick of the timer runs beside it. After \<open>Tftp_Uninit\<close>
  neither happens any more.
\<close>

datatype tftp_event = Tf_Datagram "u8 list" sock_addr | Tf_Error | Tf_Tick

fun tftp_step ::
    "(u8 list \<Rightarrow> u32 \<Rightarrow> u32) \<Rightarrow> bool \<Rightarrow> 'c flash_ctl \<Rightarrow> flash_config_t \<Rightarrow> tftp_event \<Rightarrow>
     tftp_client \<times> ota_block \<times> 'c \<Rightarrow> (tftp_client \<times> ota_block \<times> 'c) c_run" where
  "tftp_step crc mem_ok F cfg ev (t, b, c) =
     (if tf_done t then Ret (t, b, c)
      else
        (case ev of
           Tf_Datagram bs src \<Rightarrow>
             TftpHandler crc mem_ok F cfg (of_nat (min TFTP_LEN (length bs))) (snd src)
               (t\<lparr>tftp_buf := blit (tftp_buf t) 0 (take TFTP_LEN bs), server_addr := src\<rparr>, b, c)
         | Tf_Error \<Rightarrow> TftpHandler crc mem_ok F cfg (- 1) (snd (server_addr t)) (t, b, c)
         | Tf_Tick \<Rightarrow> Ret (TftpTimeout t, b, c)))"

text \<open>
  The start of the thread: \<open>fresh\<close> is what the allocated buffer holds, \<open>tftp_s_addr\<close> the server's host; its port is in network
  order. The flash is unprotected.
\<close>

definition lwip_htons :: "u16 \<Rightarrow> u16" where
  "lwip_htons w = push_bit 8 w OR drop_bit 8 w"

definition tftp_client_zero :: tftp_client where
  "tftp_client_zero = \<lparr>TftpState = STATE_RRQ, TftpServerPort = 0, TftpTimeoutCount = 0, TftpBlock = 0, TftpLastBlock = 0,
     TftpBlockWrap = 0, TftpBlockWrapOffset = 0, TftpBlkSize = TFTP_BLOCK_SIZE, tftp_buf = [], server_addr = (0, 0), tf_sent = [], tf_done = False\<rparr>"

definition tftp_server_start ::
    "'c flash_ctl \<Rightarrow> flash_config_t \<Rightarrow> u8 list \<Rightarrow> u32 \<Rightarrow> tftp_client \<times> ota_block \<times> 'c \<Rightarrow> tftp_client \<times> ota_block \<times> 'c" where
  "tftp_server_start F cfg fresh tftp_s_addr s =
     (case s of (t, b, c) \<Rightarrow>
        (case TftpStart (t\<lparr>tftp_buf := fresh, server_addr := (tftp_s_addr, lwip_htons WELL_KNOWN_PORT), tf_done := False\<rparr>) b of
          (t1, b1) \<Rightarrow> (t1, b1, set_flash_protect F cfg FLASH_PROTECT_NONE c)))"

section \<open>An image on its way into the flash\<close>

text \<open>From \<open>a\<close> on the memory holds \<open>bs\<close> and then \<open>n\<close> erased bytes.\<close>

definition staged :: "mem \<Rightarrow> u32 \<Rightarrow> u8 list \<Rightarrow> nat \<Rightarrow> bool" where
  "staged m a bs n \<longleftrightarrow> content m a (length bs + n) = bs @ replicate n 0xFF"

lemma content_above:
  assumes "length d + n \<le> 4294967296"
  shows "content (mem_write m x d) (x + of_nat (length d)) n = content m (x + of_nat (length d)) n"
proof (rule nth_equalityI)
  fix i assume "i < length (content (mem_write m x d) (x + of_nat (length d)) n)"
  then have i: "length d + i < 4294967296" "i < n" using assms by simp_all
  have "(x + of_nat (length d) + of_nat i) - x = (of_nat (length d + i) :: u32)" by simp
  then have "unat ((x + of_nat (length d) + of_nat i) - x) = length d + i" using i by (simp only: unat_of_nat32)
  then show "content (mem_write m x d) (x + of_nat (length d)) n ! i = content m (x + of_nat (length d)) n ! i"
    using i by (simp add: content_def mem_write_def)
qed simp

lemma nor_write_erased:
  assumes "content m x (length d) = replicate (length d) 0xFF" "length d \<le> 4294967296"
  shows "nor_write m x d = mem_write m x d"
proof
  fix y
  show "nor_write m x d y = mem_write m x d y"
  proof (cases "unat (y - x) < length d")
    case True
    have "content m x (length d) ! unat (y - x) = m y" using True by (simp add: content_def)
    then have "m y = 0xFF" using assms(1) True by simp
    then show ?thesis using True and_0xFF [of "d ! unat (y - x)"] by (simp add: nor_write_def mem_write_def and.commute)
  qed (simp add: nor_write_def mem_write_def)
qed

lemma staged_parts:
  assumes "staged m a bs n"
  shows "content m a (length bs) = bs" "content m (a + of_nat (length bs)) n = replicate n 0xFF"
  using assms content_add [of m a "length bs" n] by (simp_all add: staged_def)

lemma staged_put:
  assumes "staged m a bs n" "length d \<le> n" "length bs + n \<le> 4294967296"
  shows "staged (nor_write m (a + of_nat (length bs)) d) a (bs @ d) (n - length d)"
proof -
  define x where "x = a + of_nat (length bs)"
  define m1 where "m1 = mem_write m x d"
  have blank: "content m x n = replicate n 0xFF" using staged_parts(2) [OF assms(1)] by (simp add: x_def)
  then have parts: "content m x (length d) = replicate (length d) 0xFF"
    "content m (x + of_nat (length d)) (n - length d) = replicate (n - length d) 0xFF"
    using content_add [of m x "length d" "n - length d"] assms(2) replicate_add [of "length d" "n - length d" "0xFF :: u8"]
    by (simp_all add: append_eq_append_conv)
  then have "nor_write m x d = m1" using assms(2,3) by (simp add: m1_def nor_write_erased)
  moreover have "content m1 a (length bs + length d) = bs @ d"
    using content_extend [of "length bs" d m a] staged_parts(1) [OF assms(1)] assms(2,3) by (simp add: m1_def x_def)
  moreover have "content m1 (x + of_nat (length d)) (n - length d) = replicate (n - length d) 0xFF"
    using content_above [of d "n - length d" m x] parts(2) assms(2,3) by (simp add: m1_def)
  ultimately show ?thesis
    using content_add [of m1 a "length bs + length d" "n - length d"] by (simp add: staged_def x_def [symmetric] add.assoc)
      (simp add: x_def add.assoc)
qed

lemma staged_erase:
  assumes "content m a (length bs) = bs" "length bs + 4096 \<le> 4294967296"
  shows "staged (mem_write m (a + of_nat (length bs)) (replicate 4096 0xFF)) a bs 4096"
  using content_extend [of "length bs" "replicate 4096 (0xFF :: u8)" m a] assms by (simp add: staged_def)

text \<open>Writes at an offset into a region change nothing at other offsets.\<close>

lemma write_frame:
  assumes "off + length d \<le> span" "span \<le> 4294967296" "span \<le> unat (x - a)"
  shows "mem_write m (a + of_nat off) d x = m x" "nor_write m (a + of_nat off) d x = m x"
proof -
  have shift: "x - (a + of_nat off) = (x - a) - of_nat off" by simp
  have "off < 4294967296" "off \<le> unat (x - a)" using assms unat_lt32 [of "x - a"] by linarith+
  then have "unat ((x - a) - of_nat off) = unat (x - a) - off" by (simp only: unat_sub_nat if_True)
  then have "unat (x - (a + of_nat off)) = unat (x - a) - off" by (simp only: shift)
  then have "\<not> unat (x - (a + of_nat off)) < length d" using assms(1,3) by auto
  then show "mem_write m (a + of_nat off) d x = m x" "nor_write m (a + of_nat off) d x = m x"
    by (simp_all add: mem_write_def nor_write_def)
qed

lemma content_apart:
  assumes "\<And>i. i < n \<Longrightarrow> m1 (a + of_nat i) = m (a + of_nat i)"
  shows "content m1 a n = content m a n"
  using assms by (simp add: content_def)

lemma apart_regions:
  fixes a h :: u32
  assumes "unat a + n \<le> 16777216" "unat h < 16777216" "unat h + k \<le> unat a \<or> unat a + n \<le> unat h" "k \<le> 16777216" "i < n"
  shows "k \<le> unat (a + of_nat i - h)"
proof -
  have x: "unat (a + of_nat i) = unat a + i"
    using assms(1,5) unat_plus32 [of a "of_nat i"] by (simp add: unat_of_nat32)
  show ?thesis
  proof (cases "unat h \<le> unat (a + of_nat i)")
    case True
    then show ?thesis using assms(3,5) x unat_minus32 [of h "a + of_nat i"] by auto
  next
    case False
    then have "unat (a + of_nat i - h) = 4294967296 + unat (a + of_nat i) - unat h"
      by (simp add: unat_sub_if_size word_size word_le_nat_alt)
    then show ?thesis using assms(2,4) by simp
  qed
qed


section \<open>What the server sends\<close>

definition le16 :: "u16 \<Rightarrow> u8 list" where
  "le16 w = [ucast w, ucast (drop_bit 8 w)]"

definition hd_bytes :: "send_data_hd \<Rightarrow> u8 list" where
  "hd_bytes h = word_bytes (total_len h) @ le16 (hd_seq h) @ le16 (total_seq h) @ word_bytes (os0_ex_addr h) @
     word_bytes (os_hd_addr h) @ word_bytes (os0_flash_addr h) @ word_bytes (os1_flash_addr h)"

definition frame :: "send_data_hd \<Rightarrow> nat \<Rightarrow> u8 list \<Rightarrow> u8 list" where
  "frame h k d = hd_bytes (h\<lparr>hd_seq := of_nat k\<rparr>) @ d"

definition data_packet :: "nat \<Rightarrow> u8 list \<Rightarrow> u8 list" where
  "data_packet k fr = be16 TFTP_DATA @ be16 (of_nat k) @ fr"

definition oack_packet :: "u8 list" where
  "oack_packet = be16 TFTP_OACK @ ascii ''timeout'' @ [0] @ ascii ''5'' @ [0] @ ascii ''blksize'' @ [0] @ ascii ''1048'' @ [0]"

text \<open>
  Between block \<open>k\<close> and the next one: the timer, datagrams from other ports, and block \<open>k\<close> again.
\<close>

fun harmless :: "nat \<Rightarrow> u16 \<Rightarrow> tftp_event \<Rightarrow> bool" where
  "harmless k P Tf_Tick \<longleftrightarrow> True"
| "harmless k P Tf_Error \<longleftrightarrow> False"
| "harmless k P (Tf_Datagram bs src) \<longleftrightarrow> snd src \<noteq> P \<or> 0 < k \<and> take 4 bs = data_packet k []"

fun delivery :: "nat \<Rightarrow> sock_addr \<Rightarrow> send_data_hd \<Rightarrow> (u8 list \<times> tftp_event list) list \<Rightarrow> tftp_event list" where
  "delivery k srv h [] = []"
| "delivery k srv h ((d, ex) # ds) =
     Tf_Datagram (data_packet (Suc k) (frame h (Suc k) d)) srv # ex @ delivery (Suc k) srv h ds"

fun full_blocks :: "nat \<Rightarrow> u16 \<Rightarrow> (u8 list \<times> tftp_event list) list \<Rightarrow> bool" where
  "full_blocks k P [] \<longleftrightarrow> True"
| "full_blocks k P ((d, ex) # ds) \<longleftrightarrow> length d = 1024 \<and> list_all (harmless (Suc k) P) ex \<and> full_blocks (Suc k) P ds"

text \<open>The CRC runs over the blocks with their headers.\<close>

fun blocks_crc :: "(u8 list \<Rightarrow> u32 \<Rightarrow> u32) \<Rightarrow> send_data_hd \<Rightarrow> nat \<Rightarrow> u8 list list \<Rightarrow> u32 \<Rightarrow> u32" where
  "blocks_crc crc h k [] acc = acc"
| "blocks_crc crc h k (d # ds) acc = blocks_crc crc h (Suc k) ds (crc (frame h (Suc k) d) acc)"

section \<open>Storing the blocks\<close>

lemma half_word_le16 [simp]: "half_word (le16 w @ bs) = w"
proof (rule bit_word_eqI)
  fix n assume "n < LENGTH(16)"
  then show "bit (half_word (le16 w @ bs)) n = bit w n"
    by (auto simp: half_word_def le16_def bit_simps)
qed

lemma length_le16 [simp]: "length (le16 w) = 2"
  by (simp add: le16_def)

lemma length_hd_bytes [simp]: "length (hd_bytes h) = 24"
  by (simp add: hd_bytes_def)

lemma read_hd_bytes [simp]: "read_hd (hd_bytes h @ bs) = h"
  by (simp add: read_hd_def hd_bytes_def half_word_le16 [of _ "[]", simplified])

lemma net16_be16 [simp]: "net16 (be16 w @ bs) = w"
proof (rule bit_word_eqI)
  fix n assume "n < LENGTH(16)"
  then show "bit (net16 (be16 w @ bs)) n = bit w n"
    by (auto simp: net16_def be16_def bit_simps)
qed

lemma sector_start:
  assumes "(x :: u32) mod 0x1000 = 0"
  shows "x AND NOT 0xFFF = x"
proof (rule bit_word_eqI)
  fix n assume "n < LENGTH(32)"
  have "take_bit 12 x = 0" using assms by (simp add: take_bit_eq_mod)
  then have "\<not> bit x n" if "n < 12" using that bit_take_bit_iff [of 12 x n] by simp
  moreover have "bit (0xFFF :: u32) n \<longleftrightarrow> n < 12"
    using \<open>n < LENGTH(32)\<close> bit_mask_iff [where 'a = "32 word" and m = 12 and n = n] by (auto simp: mask_eq_exp_minus_1)
  ultimately show "bit (x AND NOT 0xFFF) n = bit x n"
    unfolding bit_and_iff bit_not_iff using \<open>n < LENGTH(32)\<close> by auto
qed


text \<open>What the flash holds of the image from \<open>a\<close> on; \<open>mem0\<close> is the memory before the upgrade.\<close>

definition sector_rest :: "nat \<Rightarrow> nat" where
  "sector_rest n = (if n mod 4096 = 0 then 0 else 4096 - n mod 4096)"

definition holds_image :: "flash_config_t \<Rightarrow> ('c \<Rightarrow> mem) \<Rightarrow> ('c \<Rightarrow> u16) \<Rightarrow> mem \<Rightarrow> u32 \<Rightarrow> u8 list \<Rightarrow> 'c \<Rightarrow> bool" where
  "holds_image cfg mem sr mem0 a bs c \<longleftrightarrow>
     unlocked cfg (sr c) \<and> staged (mem c) a bs (sector_rest (length bs)) \<and>
     (\<forall>x. length bs + sector_rest (length bs) \<le> unat (x - a) \<longrightarrow> mem c x = mem0 x)"

text \<open>The erase before a block, where one is due, and the block.\<close>

lemma unat_plus_len:
  fixes a :: u32
  assumes "unat a + n < 4294967296"
  shows "unat (a + of_nat n) = unat a + n"
  using assms unat_plus32 [of a "of_nat n"] by (simp add: unat_of_nat32)

lemma erase_when_due:
  assumes ok: "flash_ok F cfg mem sr" and at: "holds_image cfg mem sr mem0 a bs c"
    and a: "a mod 0x1000 = 0" "unat a + length bs < 0x200000"
  defines "x \<equiv> a + of_nat (length bs)"
    and "n \<equiv> if length bs mod 4096 = 0 then 4096 else sector_rest (length bs)"
  defines "c' \<equiv> if x mod 0x1000 = 0 then flash_do F cfg CMD_FLASH_ERASE_SECTOR x c else c"
  shows "unlocked cfg (sr c')" "staged (mem c') a bs n"
    "\<And>y. length bs + n \<le> unat (y - a) \<Longrightarrow> mem c' y = mem0 y"
proof -
  have F: "nor_laws F cfg mem sr" "cfg \<in> set flash_config" using ok by (simp_all add: flash_ok_def)
  have ux: "unat x = unat a + length bs" using a unat_plus_len [of a "length bs"] by (simp add: x_def)
  have sect: "v mod 0x1000 = 0 \<longleftrightarrow> unat v mod 4096 = 0" for v :: u32
    by (simp add: unat_mod word_unat_eq_iff)
  then have "unat a mod 4096 = 0" using a(1) by simp
  then have due: "x mod 0x1000 = 0 \<longleftrightarrow> length bs mod 4096 = 0"
    using ux sect [of x] mod_add_left_eq [of "unat a" 4096 "length bs"] by simp
  have u: "unlocked cfg (sr c)" and st: "staged (mem c) a bs (sector_rest (length bs))"
    and out: "\<And>y. length bs + sector_rest (length bs) \<le> unat (y - a) \<Longrightarrow> mem c y = mem0 y"
    using at by (simp_all add: holds_image_def)
  have "unlocked cfg (sr c') \<and> staged (mem c') a bs n \<and> (\<forall>y. length bs + n \<le> unat (y - a) \<longrightarrow> mem c' y = mem0 y)"
  proof (cases "length bs mod 4096 = 0")
    case True
    then have c': "c' = flash_erase_sector F x c" and n: "n = 4096" "sector_rest (length bs) = 0"
      using due by (simp_all add: c'_def n_def sector_rest_def flash_do_simps [OF F(2)])
    have x: "x < 16777216" using ux a(2) by (simp add: word_less_nat_alt)
    have "mem c' = mem_write (mem c) x (replicate 4096 0xFF) \<and> sr c' = sr c"
      using erase_effect [OF F(1) u x] sector_start [of x] due True by (simp add: c')
    moreover have "staged (mem_write (mem c) x (replicate 4096 0xFF)) a bs 4096"
      using staged_parts(1) [OF st] a(2) unfolding x_def by (intro staged_erase) simp_all
    moreover have "mem_write (mem c) x (replicate 4096 0xFF) y = mem0 y" if "length bs + 4096 \<le> unat (y - a)" for y
      using that a(2) n(2) out [of y] write_frame(1) [of "length bs" "replicate 4096 0xFF" "length bs + 4096" y a "mem c"]
      by (simp add: x_def)
    ultimately show ?thesis using u n by simp
  next
    case False
    then show ?thesis using u st out due by (simp add: c'_def n_def)
  qed
  then show "unlocked cfg (sr c')" "staged (mem c') a bs n"
    "\<And>y. length bs + n \<le> unat (y - a) \<Longrightarrow> mem c' y = mem0 y" by simp_all
qed


lemma flash_read_effect:
  assumes "nor_laws F cfg mem sr" "unat address + unat count \<le> 16777216"
  shows "mem (snd (snd (flash_read F count address c))) = mem c" "sr (snd (snd (flash_read F count address c))) = sr c"
  using flash_read_data_exact [OF assms, of c] by (simp_all add: flash_read_def split_beta)

text \<open>A block that fits, written and read back.\<close>

lemma sector_rest_next:
  fixes n l :: nat
  assumes "n mod 1024 = 0" "0 < l" "l \<le> 1024"
  defines "r \<equiv> if n mod 4096 = 0 then 4096 else sector_rest n"
  shows "l \<le> r" "r - l = sector_rest (n + l)"
proof -
  have q: "n mod 4096 = 1024 * (n div 1024 mod 4)" using assms(1) mod_mult2_eq [of n 1024 4] by simp
  then obtain q where q: "n mod 4096 = q" "q \<le> 3072" by simp
  have r: "r = 4096 - q" by (simp add: r_def sector_rest_def q(1))
  then show "l \<le> r" using assms(3) q(2) by simp
  have "(n + l) mod 4096 = (q + l) mod 4096" unfolding q(1) [symmetric] by (simp add: mod_add_left_eq)
  also have "\<dots> = (if q + l = 4096 then 0 else q + l)" using q(2) assms(3) by simp
  finally have "sector_rest (n + l) = 4096 - (q + l)" using q(2) assms(2,3) by (auto simp: sector_rest_def)
  then show "r - l = sector_rest (n + l)" by (simp add: r)
qed

lemma data_written:
  assumes ok: "flash_ok F cfg mem sr" and at: "holds_image cfg mem sr mem0 a bs c"
    and a: "a mod 0x1000 = 0" "unat a + length bs + length d \<le> 0x200000"
    and d: "length bs mod 1024 = 0" "0 < length d" "length d \<le> 1024"
  defines "x \<equiv> a + of_nat (length bs)"
  defines "c1 \<equiv> snd (flash_write F cfg d x (if x mod 0x1000 = 0 then flash_do F cfg CMD_FLASH_ERASE_SECTOR x c else c))"
  shows "holds_image cfg mem sr mem0 a (bs @ d) (if mem_ok then snd (snd (flash_read F (of_nat (length d)) x c1)) else c1)"
proof -
  define c0 where "c0 = (if x mod 0x1000 = 0 then flash_do F cfg CMD_FLASH_ERASE_SECTOR x c else c)"
  define n where "n = (if length bs mod 4096 = 0 then 4096 else sector_rest (length bs))"
  have F: "nor_laws F cfg mem sr" "cfg \<in> set flash_config" using ok by (simp_all add: flash_ok_def)
  have "unat a + length bs < 0x200000" using a(2) d(2) by linarith
  note e = erase_when_due [OF ok at a(1) this, folded x_def n_def, folded c0_def]
  have n_le: "n \<le> 4096" by (simp add: n_def sector_rest_def)
  note n = sector_rest_next [OF d, folded n_def]
  have x: "unat x = unat a + length bs" using a unat_plus_len [of a "length bs"] by (simp add: x_def)
  have w: "mem c1 = nor_write (mem c0) x d" "sr c1 = sr c0"
    using flash_write_effect [OF F(1) _ F(2) e(1), of x d] x a(2) by (simp_all add: c1_def c0_def [symmetric])
  have r: "mem (snd (snd (flash_read F (of_nat (length d)) x c1))) = mem c1"
    "sr (snd (snd (flash_read F (of_nat (length d)) x c1))) = sr c1"
    using flash_read_effect [OF F(1), of x "of_nat (length d)" c1] x a(2) d(3) by (simp_all add: unat_of_nat32)
  have room: "length bs + n \<le> 4294967296" "length bs + length d + sector_rest (length bs + length d) = length bs + n"
    using a(2) n n_le by linarith+
  have "staged (mem c1) a (bs @ d) (sector_rest (length (bs @ d)))"
    using staged_put [OF e(2) n(1) room(1)] w(1) n(2) by (simp add: x_def)
  moreover have "mem c1 y = mem0 y" if "length bs + n \<le> unat (y - a)" for y
    using e(3) [OF that] write_frame(2) [of "length bs" d "length bs + n" y a "mem c0"] that n(1) room(1) w(1)
    by (simp add: x_def)
  ultimately show ?thesis using w e(1) r room(2) by (simp add: holds_image_def)
qed


text \<open>The block in the client's state.\<close>

lemma unat_of_nat16: "n < 65536 \<Longrightarrow> unat (of_nat n :: u16) = n"
  by (simp add: unat_of_nat take_bit_eq_mod)

definition blocks_at :: "send_data_hd \<Rightarrow> nat \<Rightarrow> u8 list \<Rightarrow> u32 \<Rightarrow> ota_block \<Rightarrow> bool" where
  "blocks_at h k bs acc b \<longleftrightarrow> os_data_addr b = os1_flash_addr h + of_nat (length bs) \<and> tftp_crc b = acc"

definition block_of :: "send_data_hd \<Rightarrow> nat \<Rightarrow> ota_block \<Rightarrow> ota_block" where
  "block_of h k b = b\<lparr>send_hd := h\<lparr>hd_seq := of_nat (Suc k)\<rparr>, send_hd_bk := h\<lparr>hd_seq := of_nat (Suc k)\<rparr>\<rparr>"

lemma store_block_frame:
  fixes h k
  defines "a \<equiv> os1_flash_addr h"
  assumes ok: "flash_ok F cfg mem sr" and at: "holds_image cfg mem sr mem0 a bs c"
    and a: "a mod 0x1000 = 0" "0x27000 \<le> a" "unat a + length bs + length d \<le> 0x200000"
    and d: "length bs = 1024 * k" "0 < length d" "length d \<le> 1024"
    and b: "if k = 0 then acc = 0 else os_data_addr b = a + of_nat (length bs) \<and> tftp_crc b = acc"
  obtains c1 where "holds_image cfg mem sr mem0 a (bs @ d) c1"
    "\<And>rest. store_block crc mem_ok F cfg (of_nat k) (frame h (Suc k) d @ rest) (of_nat (24 + length d)) (b, c) =
       (case check_image crc F cfg (frame h (Suc k) d @ rest) (24 + length d)
               ((block_of h k b)\<lparr>os_data_addr := a + of_nat (length bs), tftp_crc := acc\<rparr>, c1) of
          (b3, c3) \<Rightarrow> Ret (b3\<lparr>os_data_addr := os_data_addr b3 + of_nat (length d)\<rparr>, c3))"
proof -
  define x where "x = a + of_nat (length bs)"
  define c0 where "c0 = snd (flash_write F cfg d x (if x mod 0x1000 = 0 then flash_do F cfg CMD_FLASH_ERASE_SECTOR x c else c))"
  define c1 where "c1 = (if mem_ok then snd (snd (flash_read F (of_nat (length d)) x c0)) else c0)"
  have ux: "unat x = unat a + length bs" using a unat_plus_len [of a "length bs"] by (simp add: x_def)
  have k: "k < 65536" "(of_nat k :: u32) = 0 \<longleftrightarrow> k = 0"
    using a(3) d(1) unat_of_nat32 [of k] by (auto simp: word_unat_eq_iff)
  define B where "B = (block_of h k b)\<lparr>os_data_addr := x, tftp_crc := acc\<rparr>"
  have "0x27000 \<le> unat x" "unat x < 0x200000" using ux a(2,3) d(2) by (simp add: word_le_nat_alt, linarith)
  then have bounds: "\<not> 0x200000 \<le> x" "\<not> x < 0x27000" "x < 0x400000" by (simp_all add: word_le_nat_alt word_less_nat_alt)
  have len: "unat (of_nat (24 + length d) :: u32) = 24 + length d" using d(3) by (intro unat_of_nat32) simp
  have hdr: "read_hd (frame h (Suc k) d @ rest) = h\<lparr>hd_seq := of_nat (Suc k)\<rparr>" for rest by (simp add: frame_def)
  have start: "0 < k \<Longrightarrow> os_data_addr b = x" "0 < k \<Longrightarrow> tftp_crc b = acc" "k = 0 \<Longrightarrow> a = x" "k = 0 \<Longrightarrow> acc = 0"
    using b d(1) by (simp_all add: x_def)
  have B: "os_data_addr B = x" by (simp add: B_def)
  have "store_block crc mem_ok F cfg (of_nat k) (frame h (Suc k) d @ rest) (of_nat (24 + length d)) (b, c) =
      (case check_image crc F cfg (frame h (Suc k) d @ rest) (24 + length d) (B, c1) of
          (b3, c3) \<Rightarrow> Ret (b3\<lparr>os_data_addr := os_data_addr b3 + of_nat (length d)\<rparr>, c3))" for rest
  proof -
    have "store_block crc mem_ok F cfg (of_nat k) (frame h (Suc k) d @ rest) (of_nat (24 + length d)) (b, c) =
        store_data crc mem_ok F cfg (frame h (Suc k) d @ rest) (24 + length d)
          (B, if x mod 0x1000 = 0 then flash_do F cfg CMD_FLASH_ERASE_SECTOR x c else c)"
      using bounds start k(2)
      by (cases b; cases "k = 0") (simp_all add: store_block_def TFTP_PKT_HD_LEN_def hdr len B_def block_of_def a_def [symmetric]
        frame_def del: of_nat_add of_nat_Suc)
    then show ?thesis
      using d(3) by (simp add: store_data_def TFTP_PKT_HD_LEN_def B c1_def c0_def frame_def del: of_nat_add of_nat_Suc)
  qed
  then show thesis
    using that [of c1] data_written [OF ok at a(1,3) _ d(2,3), of mem_ok, folded x_def, folded c0_def, folded c1_def] d(1)
    by (simp add: B_def x_def)
qed


section \<open>The client between the blocks\<close>

definition waits_for :: "nat \<Rightarrow> u16 \<Rightarrow> tftp_client \<Rightarrow> bool" where
  "waits_for k P t \<longleftrightarrow> \<not> tf_done t \<and> length (tftp_buf t) = TFTP_LEN \<and> TftpServerPort t = P \<and> TftpBlkSize t = 1048 \<and>
     (if k = 0 then TftpState t = STATE_OACK else TftpState t = STATE_DATA \<and> TftpLastBlock t = of_nat k)"

lemma length_data_packet [simp]: "length (data_packet k fr) = 4 + length fr"
  by (simp add: data_packet_def be16_def)

lemma u16_block:
  assumes "k < 65536"
  shows "ucast (of_nat k :: u16) = (of_nat k :: 64 word)"
  using assms by (simp add: unsigned_of_nat take_bit_eq_mod)

lemma u64_block:
  assumes "k < 65536"
  shows "ucast (of_nat k :: 64 word) = (of_nat k :: u32)" "(of_nat k :: 64 word) = 0 \<longleftrightarrow> k = 0"
  using assms by (simp_all add: unsigned_of_nat take_bit_eq_mod word_unat_eq_iff unat_of_nat)

lemma blit_front_long:
  assumes "length bs \<le> length buf"
  shows "blit buf 0 bs = bs @ drop (length bs) buf"
  using assms by (simp add: blit_def)

lemma TftpSend_keeps [simp]:
  "waits_for k P (TftpSend t) = waits_for k P t" "tf_done (TftpSend t) = tf_done t" "TftpBlkSize (TftpSend t) = TftpBlkSize t"
  by (simp_all add: TftpSend_def waits_for_def)

lemma timer_harmless: "waits_for k P t \<Longrightarrow> waits_for k P (TftpTimeout t)"
  by (auto simp: TftpTimeout_def Let_def TftpSend_def waits_for_def)

lemma again_packet:
  assumes "take 4 bs = data_packet k []"
  obtains fr where "bs = data_packet k fr"
  using assms append_take_drop_id [of 4 bs] by (metis append.assoc append_Nil2 data_packet_def)

text \<open>A datagram of the server that carries block \<open>j\<close>.\<close>

lemma data_step:
  assumes at: "waits_for k P t" and src: "snd src = P" and bs: "take TFTP_LEN bs = data_packet j fr"
  obtains t1 rest where "waits_for k P t1"
    "tftp_step crc mem_ok F cfg (Tf_Datagram bs src) (t, b, c) =
       TftpData crc mem_ok F cfg (be16 (of_nat j) @ fr @ rest) (of_nat (2 + length fr)) P (t1, b, c)"
proof -
  define t1 where "t1 = t\<lparr>tftp_buf := blit (tftp_buf t) 0 (take TFTP_LEN bs), server_addr := src\<rparr>"
  have l: "min TFTP_LEN (length bs) = 4 + length fr" using arg_cong [OF bs, of length] by (simp add: min.commute)
  have lt: "4 + length fr \<le> TFTP_LEN" using l by linarith
  have at1: "waits_for k P t1" using at lt by (simp add: t1_def waits_for_def bs)
  have "tftp_buf t1 = be16 TFTP_DATA @ be16 (of_nat j) @ fr @ drop (4 + length fr) (tftp_buf t)"
    using at lt by (simp add: t1_def bs waits_for_def blit_front_long) (simp add: data_packet_def)
  then have buf: "net16 (tftp_buf t1) = TFTP_DATA" "drop 2 (tftp_buf t1) = be16 (of_nat j) @ fr @ drop (4 + length fr) (tftp_buf t)"
    by (simp, simp add: be16_def)
  have len: "(of_nat (4 + length fr) :: u32) - 2 = of_nat (2 + length fr)" by simp
  have "unat (of_nat (4 + length fr) :: u32) = 4 + length fr" using lt by (intro unat_of_nat32) (simp add: TFTP_LEN_def)
  then have "\<not> (of_nat (4 + length fr) :: u32) < 2" by (simp add: word_less_nat_alt del: of_nat_add)
  moreover have "tftp_step crc mem_ok F cfg (Tf_Datagram bs src) (t, b, c) =
      TftpHandler crc mem_ok F cfg (of_nat (4 + length fr)) P (t1, b, c)"
    using at by (simp add: waits_for_def t1_def src l del: of_nat_add)
  moreover have "TftpServerPort t1 = P" using at1 by (simp add: waits_for_def)
  ultimately have "tftp_step crc mem_ok F cfg (Tf_Datagram bs src) (t, b, c) =
      TftpData crc mem_ok F cfg (be16 (of_nat j) @ fr @ drop (4 + length fr) (tftp_buf t)) (of_nat (2 + length fr)) P (t1, b, c)"
    using buf len by (simp add: TftpHandler_def tftp_ops del: of_nat_add)
  then show thesis using that at1 by blast
qed

lemma harmless_step:
  assumes at: "waits_for k P t" and ev: "harmless k P ev" and k: "k < 65536"
  shows "\<exists>t'. tftp_step crc mem_ok F cfg ev (t, b, c) = Ret (t', b, c) \<and> waits_for k P t'"
proof (cases ev)
  case (Tf_Datagram bs src)
  define t1 where "t1 = t\<lparr>tftp_buf := blit (tftp_buf t) 0 (take TFTP_LEN bs), server_addr := src\<rparr>"
  show ?thesis
  proof (cases "snd src = P")
    case False
    have "waits_for k P t1" using at by (simp add: t1_def waits_for_def blit_front_long)
    moreover have "tftp_step crc mem_ok F cfg ev (t, b, c) =
        TftpHandler crc mem_ok F cfg (of_nat (min TFTP_LEN (length bs))) (snd src) (t1, b, c)"
      using at by (simp add: Tf_Datagram waits_for_def t1_def)
    ultimately show ?thesis using False by (auto simp: TftpHandler_def waits_for_def split: if_splits)
  next
    case True
    with ev Tf_Datagram have j: "0 < k" and "take 4 bs = data_packet k []" by auto
    then obtain fr where "bs = data_packet k fr" by (rule_tac again_packet)
    then have "take TFTP_LEN bs = data_packet k (take 1596 fr)" by (simp add: TFTP_LEN_def data_packet_def be16_def)
    then obtain t1 rest where t1: "waits_for k P t1"
      "tftp_step crc mem_ok F cfg ev (t, b, c) =
         TftpData crc mem_ok F cfg (be16 (of_nat k) @ take 1596 fr @ rest) (of_nat (2 + length (take 1596 fr))) P (t1, b, c)"
      unfolding Tf_Datagram by (rule data_step [OF at True])
    have "unat (of_nat (2 + length (take 1596 fr)) :: u32) = 2 + length (take 1596 fr)"
      by (intro unat_of_nat32) simp
    then have "\<not> (of_nat (2 + length (take 1596 fr)) :: u32) < 2" by (simp add: word_less_nat_alt del: of_nat_add)
    then show ?thesis
      using t1 j u16_block [OF k] u64_block [OF k]
      by (simp add: TftpData_def Let_def waits_for_def TftpSend_def del: of_nat_add)
  qed
next
  case Tf_Tick
  then show ?thesis using at timer_harmless [OF at] by (auto simp: waits_for_def [of k P t])
next
  case Tf_Error
  then show ?thesis using ev by simp
qed

lemma harmless_steps:
  assumes "waits_for k P t" "list_all (harmless k P) evs" "k < 65536"
  obtains t' where "c_steps (tftp_step crc mem_ok F cfg) evs (t, b, c) = Ret (t', b, c)" "waits_for k P t'"
proof -
  have "\<exists>t'. c_steps (tftp_step crc mem_ok F cfg) evs (t, b, c) = Ret (t', b, c) \<and> waits_for k P t'"
    using assms
  proof (induction evs arbitrary: t)
    case (Cons ev evs)
    then obtain t1 where "tftp_step crc mem_ok F cfg ev (t, b, c) = Ret (t1, b, c)" "waits_for k P t1"
      using harmless_step [of k P t ev crc mem_ok F cfg b c] by auto
    with Cons show ?case by simp
  qed simp
  with that show thesis by blast
qed

text \<open>The next block: it is stored, acknowledged, and the last one when it is short.\<close>

lemma block_step:
  assumes at: "waits_for k P t" and src: "snd src = P" and k: "Suc k < 65536" and fr: "length fr \<le> 1048" "24 \<le> length fr"
    and store: "\<And>rest. store_block crc mem_ok F cfg (of_nat k) (fr @ rest) (of_nat (length fr)) (b, c) = Ret (b', c')"
  obtains t' where "tftp_step crc mem_ok F cfg (Tf_Datagram (data_packet (Suc k) fr) src) (t, b, c) = Ret (t', b', c')"
    "if length fr < 1048 then tf_done t' else waits_for (Suc k) P t'"
proof -
  have "take TFTP_LEN (data_packet (Suc k) fr) = data_packet (Suc k) fr" using fr by (simp add: TFTP_LEN_def)
  then obtain t1 rest where t1: "waits_for k P t1"
    "tftp_step crc mem_ok F cfg (Tf_Datagram (data_packet (Suc k) fr) src) (t, b, c) =
       TftpData crc mem_ok F cfg (be16 (of_nat (Suc k)) @ fr @ rest) (of_nat (2 + length fr)) P (t1, b, c)"
    by (rule data_step [OF at src])
  have u: "unat (of_nat (2 + length fr) :: u32) = 2 + length fr" "unat (of_nat (length fr) :: u32) = length fr"
    using fr by (intro unat_of_nat32; simp)+
  then have big: "\<not> (of_nat (2 + length fr) :: u32) < 2" by (simp add: word_less_nat_alt del: of_nat_add)
  have len: "(of_nat (2 + length fr) :: u32) - 2 = of_nat (length fr)" by simp
  have short: "(of_nat (length fr) :: u32) < ucast (1048 :: u16) \<longleftrightarrow> length fr < 1048"
    using u(2) by (simp add: word_less_nat_alt)
  have blk: "ucast ((of_nat (Suc k) :: 64 word) - 1) = (of_nat k :: u32)" using u64_block [of k] k by simp
  have new: "(of_nat (Suc k) :: 64 word) \<noteq> of_nat k" by simp
  have pkt: "net16 (be16 (of_nat (Suc k)) @ fr @ rest) = of_nat (Suc k)" "drop 2 (be16 (of_nat (Suc k)) @ fr @ rest) = fr @ rest"
    by (simp only: net16_be16, simp add: be16_def)
  have no: "(of_nat (Suc k) :: 64 word) \<noteq> 0" using u64_block(2) [OF k] by simp
  define t4 where "t4 = (if k = 0 then t1\<lparr>TftpBlock := of_nat (Suc k), TftpState := STATE_DATA, TftpServerPort := P,
      TftpLastBlock := of_nat (Suc k), TftpBlockWrap := 0, TftpBlockWrapOffset := 0\<rparr>
    else t1\<lparr>TftpBlock := of_nat (Suc k), TftpLastBlock := of_nat (Suc k)\<rparr>)"
  have at4: "waits_for (Suc k) P t4" using t1(1) by (simp add: t4_def waits_for_def)
  have "TftpData crc mem_ok F cfg (be16 (of_nat (Suc k)) @ fr @ rest) (of_nat (2 + length fr)) P (t1, b, c) =
      Ret (if length fr < 1048 then Tftp_Uninit (TftpSend t4) else TftpSend t4, b', c')"
  proof (cases "k = 0")
    case True
    then show ?thesis
      using t1(1) big len store [of rest] short pkt u16_block [OF k] no blk
      by (cases t1) (simp add: TftpData_def t4_def waits_for_def TftpSend_def)
  next
    case False
    then show ?thesis
      using t1(1) big len store [of rest] short pkt u16_block [OF k] no blk new
      by (cases t1) (simp add: TftpData_def t4_def waits_for_def TftpSend_def del: of_nat_Suc of_nat_add)
  qed
  then show thesis using that t1(2) at4 by (auto simp: Tftp_Uninit_def)
qed


section \<open>The whole transfer\<close>

definition image_block :: "send_data_hd \<Rightarrow> nat \<Rightarrow> u8 list \<Rightarrow> u32 \<Rightarrow> u32 \<Rightarrow> ota_block \<Rightarrow> bool" where
  "image_block h k bs acc bk b \<longleftrightarrow> hd_bk (img_hd b) = bk \<and>
     (if k = 0 then acc = 0 else os_data_addr b = os1_flash_addr h + of_nat (length bs) \<and> tftp_crc b = acc)"

lemma c_steps_append: "c_steps step (xs @ ys) s = c_then (c_steps step xs s) (c_steps step ys)"
proof (induction xs arbitrary: s)
  case (Cons x xs)
  then show ?case by (cases "step x s") simp_all
qed simp

lemma full_block_stored:
  assumes ok: "flash_ok F cfg mem sr" and at: "holds_image cfg mem sr mem0 (os1_flash_addr h) bs c"
    and a: "os1_flash_addr h mod 0x1000 = 0" "0x27000 \<le> os1_flash_addr h" "unat (os1_flash_addr h) + length bs + length d \<le> 0x200000"
    and d: "length bs = 1024 * k" "length d = 1024" and b: "image_block h k bs acc bk b"
    and seq: "total_seq h \<noteq> of_nat (Suc k)"
  obtains b' c' where "\<forall>rest. store_block crc mem_ok F cfg (of_nat k) (frame h (Suc k) d @ rest) (of_nat (24 + length d)) (b, c) = Ret (b', c')"
    "holds_image cfg mem sr mem0 (os1_flash_addr h) (bs @ d) c'"
    "image_block h (Suc k) (bs @ d) (crc (frame h (Suc k) d) acc) bk b'"
proof -
  define b' where "b' = (block_of h k b)\<lparr>os_data_addr := os1_flash_addr h + of_nat (length bs) + of_nat (length d),
      tftp_crc := crc (frame h (Suc k) d) acc\<rparr>"
  have len: "length (frame h (Suc k) d) = 24 + length d" by (simp add: frame_def)
  have start: "if k = 0 then acc = 0 else os_data_addr b = os1_flash_addr h + of_nat (length bs) \<and> tftp_crc b = acc"
    using b by (simp add: image_block_def)
  have seq': "hd_seq (send_hd (block_of h k b)) \<noteq> total_seq (send_hd (block_of h k b))"
    using seq by (simp add: block_of_def)
  obtain c1 where c1: "holds_image cfg mem sr mem0 (os1_flash_addr h) (bs @ d) c1"
    "\<And>rest. store_block crc mem_ok F cfg (of_nat k) (frame h (Suc k) d @ rest) (of_nat (24 + length d)) (b, c) =
       (case check_image crc F cfg (frame h (Suc k) d @ rest) (24 + length d)
               ((block_of h k b)\<lparr>os_data_addr := os1_flash_addr h + of_nat (length bs), tftp_crc := acc\<rparr>, c1) of
          (b3, c3) \<Rightarrow> Ret (b3\<lparr>os_data_addr := os_data_addr b3 + of_nat (length d)\<rparr>, c3))"
    by (rule store_block_frame [OF ok at a d(1) _ _ start, where crc = crc and mem_ok = mem_ok]) (simp_all add: d(2))
  have "store_block crc mem_ok F cfg (of_nat k) (frame h (Suc k) d @ rest) (of_nat (24 + length d)) (b, c) = Ret (b', c1)" for rest
    unfolding c1(2) using seq' len by (cases b) (simp add: check_image_def b'_def block_of_def)
  moreover have "image_block h (Suc k) (bs @ d) (crc (frame h (Suc k) d) acc) bk b'"
    using b by (simp add: image_block_def b'_def block_of_def add.assoc)
  ultimately show thesis using that c1(1) by blast
qed


lemma blocks_received:
  assumes ok: "flash_ok F cfg mem sr" and srv: "snd srv = P"
    and a: "os1_flash_addr h mod 0x1000 = 0" "0x27000 \<le> os1_flash_addr h" "unat (os1_flash_addr h) + 1024 * n \<le> 0x200000"
    and seq: "\<And>k. k < n \<Longrightarrow> total_seq h \<noteq> of_nat (Suc k)"
  shows "\<lbrakk>full_blocks k P ds; k + length ds = n; waits_for k P t; holds_image cfg mem sr mem0 (os1_flash_addr h) bs c;
      length bs = 1024 * k; image_block h k bs acc bk b\<rbrakk> \<Longrightarrow>
    \<exists>t' b' c'. c_steps (tftp_step crc mem_ok F cfg) (delivery k srv h ds) (t, b, c) = Ret (t', b', c') \<and> waits_for n P t' \<and>
      holds_image cfg mem sr mem0 (os1_flash_addr h) (bs @ concat (map fst ds)) c' \<and> length (bs @ concat (map fst ds)) = 1024 * n \<and>
      image_block h n (bs @ concat (map fst ds)) (blocks_crc crc h k (map fst ds) acc) bk b'"
proof (induction ds arbitrary: k t bs c b acc)
  case Nil
  then show ?case by auto
next
  case (Cons p ds)
  obtain d ex where p: "p = (d, ex)" by (cases p)
  from Cons.prems p have d: "length d = 1024" and ex: "list_all (harmless (Suc k) P) ex" and ds: "full_blocks (Suc k) P ds"
    and k: "k < n" "Suc k + length ds = n" by simp_all
  have room: "unat (os1_flash_addr h) + length bs + length d \<le> 0x200000" using a(3) k(1) Cons.prems(5) d by simp
  have k16: "Suc k < 65536" using a(3) k(1) by simp
  have len: "length (frame h (Suc k) d) = 24 + length d" by (simp add: frame_def)
  obtain b1 c1 where
    st: "\<forall>rest. store_block crc mem_ok F cfg (of_nat k) (frame h (Suc k) d @ rest) (of_nat (24 + length d)) (b, c) = Ret (b1, c1)"
    and c1: "holds_image cfg mem sr mem0 (os1_flash_addr h) (bs @ d) c1"
    and b1: "image_block h (Suc k) (bs @ d) (crc (frame h (Suc k) d) acc) bk b1"
    by (rule full_block_stored [OF ok Cons.prems(4) a(1,2) room Cons.prems(5) d Cons.prems(6) seq [OF k(1)],
        where crc = crc and mem_ok = mem_ok])
  have fr: "length (frame h (Suc k) d) \<le> 1048" "24 \<le> length (frame h (Suc k) d)" by (simp_all add: len d)
  have st': "\<And>rest. store_block crc mem_ok F cfg (of_nat k) (frame h (Suc k) d @ rest) (of_nat (length (frame h (Suc k) d))) (b, c) =
      Ret (b1, c1)"
    unfolding len using st by blast
  obtain t1 where
    t1: "tftp_step crc mem_ok F cfg (Tf_Datagram (data_packet (Suc k) (frame h (Suc k) d)) srv) (t, b, c) = Ret (t1, b1, c1)"
    and "if length (frame h (Suc k) d) < 1048 then tf_done t1 else waits_for (Suc k) P t1"
    by (rule block_step [OF Cons.prems(3) srv k16 fr st'])
  then have at1: "waits_for (Suc k) P t1" by (simp add: len d)
  obtain t2 where t2: "c_steps (tftp_step crc mem_ok F cfg) ex (t1, b1, c1) = Ret (t2, b1, c1)" "waits_for (Suc k) P t2"
    by (rule harmless_steps [OF at1 ex k16])
  have "length (bs @ d) = 1024 * Suc k" using Cons.prems(5) d by simp
  from Cons.IH [OF ds k(2) t2(2) c1 this b1] t1 t2(1) show ?case by (simp add: p c_steps_append)
qed


definition sealed_head :: "send_data_hd \<Rightarrow> u32 \<Rightarrow> u32 \<Rightarrow> img_head" where
  "sealed_head h w bk = \<lparr>bkup_addr = os1_flash_addr h, bkup_len = total_len h, ex_addr = os0_ex_addr h, os_addr = os0_flash_addr h,
     hd_addr = os_hd_addr h, hd_crc = w, hd_status = 1, hd_bk = bk\<rparr>"

lemma length_img_bytes [simp]: "length (img_bytes h) = 32"
  by (simp add: img_bytes_def)

lemma sector_rest_le: "sector_rest n \<le> 4096"
  by (simp add: sector_rest_def)

lemma sector_round:
  fixes n m :: nat
  assumes "m mod 4096 = 0" "n \<le> m"
  shows "n + sector_rest n \<le> m"
proof -
  obtain q where m: "m = 4096 * q" using assms(1) by (auto simp: mod_eq_0_iff_dvd)
  obtain p r where n: "n = 4096 * p + r" "r < 4096" by (metis mult_div_mod_eq mod_less_divisor zero_less_numeral)
  have "p < q" if "0 < r" using that assms(2) m n by simp
  then have "4096 * p + 4096 \<le> 4096 * q" if "0 < r" using that by auto
  moreover have "sector_rest n = (if r = 0 then 0 else 4096 - r)" using n by (simp add: sector_rest_def)
  ultimately show ?thesis using assms(2) m n by auto
qed

text \<open>The sector of the header, away from the image.\<close>

definition head_apart :: "send_data_hd \<Rightarrow> nat \<Rightarrow> bool" where
  "head_apart h n \<longleftrightarrow> os_hd_addr h mod 0x1000 = 0 \<and> unat (os_hd_addr h) \<le> 0x200000 \<and>
     (unat (os_hd_addr h) + 4096 \<le> unat (os1_flash_addr h) \<or> unat (os1_flash_addr h) + n \<le> unat (os_hd_addr h))"

lemma sector_unat: "(v :: u32) mod 0x1000 = 0 \<longleftrightarrow> unat v mod 4096 = 0"
  by (simp add: unat_mod word_unat_eq_iff)

lemma head_untouched:
  assumes "holds_image cfg mem sr mem0 (os1_flash_addr h) bs c" "head_apart h (length bs)" "os1_flash_addr h mod 0x1000 = 0"
    "unat (os1_flash_addr h) + length bs \<le> 0x200000"
  shows "content (mem c) (os_hd_addr h) 4096 = content mem0 (os_hd_addr h) 4096"
proof (rule content_apart)
  fix i :: nat assume i: "i < 4096"
  let ?n = "length bs + sector_rest (length bs)"
  have "unat (os_hd_addr h) + 4096 \<le> unat (os1_flash_addr h) \<or> unat (os1_flash_addr h) + ?n \<le> unat (os_hd_addr h)"
  proof (rule disj_forward [OF assms(2) [unfolded head_apart_def, THEN conjunct2, THEN conjunct2]])
    assume "unat (os1_flash_addr h) + length bs \<le> unat (os_hd_addr h)"
    moreover have "(unat (os_hd_addr h) - unat (os1_flash_addr h)) mod 4096 = 0"
      using assms(2,3) by (auto simp: head_apart_def sector_unat mod_eq_0_iff_dvd)
    ultimately show "unat (os1_flash_addr h) + ?n \<le> unat (os_hd_addr h)"
      using sector_round [of "unat (os_hd_addr h) - unat (os1_flash_addr h)" "length bs"] by linarith
  qed
  moreover have "?n \<le> 16777216" using assms(4) sector_rest_le [of "length bs"] by linarith
  ultimately have "?n \<le> unat (os_hd_addr h + of_nat i - os1_flash_addr h)"
    using assms(2,4) i by (intro apart_regions [of _ 4096]) (auto simp: head_apart_def)
  then show "mem c (os_hd_addr h + of_nat i) = mem0 (os_hd_addr h + of_nat i)"
    using assms(1) by (simp add: holds_image_def)
qed


lemma head_sealed:
  fixes h :: send_data_hd and bk w :: u32
  defines "s \<equiv> os_hd_addr h" and "x \<equiv> img_bytes (sealed_head h w bk)"
  assumes ok: "flash_ok F cfg mem sr" and at: "holds_image cfg mem sr mem0 (os1_flash_addr h) bs c"
    and apart: "head_apart h (length bs)" "unat (os1_flash_addr h) + length bs \<le> 0x200000"
  defines "c' \<equiv> snd (flash_write F cfg x s (flash_do F cfg CMD_FLASH_ERASE_SECTOR s c))"
  shows "content (mem c') (os1_flash_addr h) (length bs) = bs" "content (mem c') s 32 = x"
proof -
  have F: "nor_laws F cfg mem sr" "cfg \<in> set flash_config" using ok by (simp_all add: flash_ok_def)
  have s_at: "s < 16777216" "s AND NOT 0xFFF = s" "unat s \<le> 0x200000"
    using apart(1) sector_start by (auto simp: head_apart_def s_def word_less_nat_alt)
  have u: "unlocked cfg (sr c)" and st: "content (mem c) (os1_flash_addr h) (length bs) = bs"
    using at staged_parts(1) by (auto simp: holds_image_def)
  define c1 where "c1 = flash_erase_sector F s c"
  have m1: "mem c1 = mem_write (mem c) s (replicate 4096 0xFF)" "sr c1 = sr c"
    using erase_effect [OF F(1) u s_at(1)] s_at(2) by (simp_all add: c1_def)
  have l: "length x = 32" by (simp add: x_def)
  have m2: "mem c' = nor_write (mem c1) s x"
    using flash_write_effect [OF F(1) _ F(2), of s x c1] u m1(2) s_at(3) l by (simp add: c'_def flash_do_simps [OF F(2)] c1_def)
  have "content (mem c') (os1_flash_addr h) (length bs) = content (mem c) (os1_flash_addr h) (length bs)"
  proof (rule content_apart)
    fix i assume i: "i < length bs"
    have "4096 \<le> unat (os1_flash_addr h + of_nat i - s)"
      using apart i s_at(3) by (intro apart_regions [of _ "length bs"]) (auto simp: head_apart_def s_def)
    then show "mem c' (os1_flash_addr h + of_nat i) = mem c (os1_flash_addr h + of_nat i)"
      using l by (simp add: m2 m1 nor_write_def mem_write_def)
  qed
  then show "content (mem c') (os1_flash_addr h) (length bs) = bs" using st by simp
  have "content (mem c1) s 32 = replicate 32 0xFF"
    using content_written [of "replicate 4096 (0xFF :: u8)" "mem c" s] content_slice [of 0 32 4096 "mem c1" s] m1(1) by simp
  then show "content (mem c') s 32 = x" using nor_write_blank [of "mem c1" s x] l by (simp add: m2)
qed

lemma last_block_stored:
  fixes h :: send_data_hd and k :: nat and w :: u32
  defines "a \<equiv> os1_flash_addr h"
  assumes ok: "flash_ok F cfg mem sr" and at: "holds_image cfg mem sr mem0 a bs c"
    and a: "a mod 0x1000 = 0" "0x27000 \<le> a" "unat a + length bs + length d \<le> 0x200000"
    and d: "length bs = 1024 * k" "d = body @ word_bytes w" "length d < 1024" and b: "image_block h k bs acc bk b"
    and seq: "total_seq h = of_nat (Suc k)" and apart: "head_apart h (length (bs @ d))"
  obtains b' c' where
    "\<forall>rest. store_block crc mem_ok F cfg (of_nat k) (frame h (Suc k) d @ rest) (of_nat (24 + length d)) (b, c) = Ret (b', c')"
    "content (mem c') a (length (bs @ d)) = bs @ d"
    "content (mem c') (os_hd_addr h) 32 =
       (if crc (frame h (Suc k) body) acc = w then img_bytes (sealed_head h w bk) else content mem0 (os_hd_addr h) 32)"
proof -
  have start: "if k = 0 then acc = 0 else os_data_addr b = os1_flash_addr h + of_nat (length bs) \<and> tftp_crc b = acc"
    using b by (simp add: image_block_def)
  have room: "unat a + length (bs @ d) \<le> 0x200000" using a(3) by simp
  obtain c1 where c1: "holds_image cfg mem sr mem0 a (bs @ d) c1"
    "\<And>rest. store_block crc mem_ok F cfg (of_nat k) (frame h (Suc k) d @ rest) (of_nat (24 + length d)) (b, c) =
       (case check_image crc F cfg (frame h (Suc k) d @ rest) (24 + length d)
               ((block_of h k b)\<lparr>os_data_addr := a + of_nat (length bs), tftp_crc := acc\<rparr>, c1) of
          (b3, c3) \<Rightarrow> Ret (b3\<lparr>os_data_addr := os_data_addr b3 + of_nat (length d)\<rparr>, c3))"
    unfolding a_def
    by (rule store_block_frame [OF ok at [unfolded a_def] a [unfolded a_def] d(1) _ _ start, where crc = crc and mem_ok = mem_ok])
      (use d in simp_all)
  have parts: "take (24 + length d - 4) (frame h (Suc k) d @ rest) = frame h (Suc k) body"
    "bytes_word (take 4 (drop (24 + length d - 4) (frame h (Suc k) d @ rest))) = w" for rest
    by (simp_all add: frame_def d(2))
  define B where "B = (block_of h k b)\<lparr>os_data_addr := a + of_nat (length bs), tftp_crc := crc (frame h (Suc k) body) acc\<rparr>"
  define R where "R = (if crc (frame h (Suc k) body) acc = w then seal_image F cfg w (B, c1) else (B, c1))"
  have hB: "send_hd B = h\<lparr>hd_seq := of_nat (Suc k)\<rparr>" "send_hd_bk B = h\<lparr>hd_seq := of_nat (Suc k)\<rparr>" "hd_bk (img_hd B) = bk"
    using b by (simp_all add: B_def block_of_def image_block_def)
  have check: "check_image crc F cfg (frame h (Suc k) d @ rest) (24 + length d)
      ((block_of h k b)\<lparr>os_data_addr := a + of_nat (length bs), tftp_crc := acc\<rparr>, c1) = R" for rest
    using seq parts [of rest] by (simp add: check_image_def TFTP_ALL_CRC_LEN_def R_def B_def block_of_def del: of_nat_Suc)
  have "snd R = (if crc (frame h (Suc k) body) acc = w
      then snd (flash_write F cfg (img_bytes (sealed_head h w bk)) (os_hd_addr h)
        (flash_do F cfg CMD_FLASH_ERASE_SECTOR (os_hd_addr h) c1)) else c1)"
  proof -
    have "(img_hd B)\<lparr>bkup_addr := os1_flash_addr h, bkup_len := total_len h, hd_crc := w, ex_addr := os0_ex_addr h,
        os_addr := os0_flash_addr h, hd_addr := os_hd_addr h, hd_status := 1\<rparr> = sealed_head h w bk"
      using hB(3) by (cases "img_hd B") (simp add: sealed_head_def)
    then show ?thesis by (simp add: R_def seal_image_def hB Let_def)
  qed
  moreover have "content (mem c1) a (length (bs @ d)) = bs @ d"
    using c1(1) unfolding holds_image_def by (intro staged_parts(1)) blast
  moreover have "content (mem c1) (os_hd_addr h) 32 = content mem0 (os_hd_addr h) 32"
    using head_untouched [OF c1(1) [unfolded a_def] apart a(1) [unfolded a_def]] room
      content_slice [of 0 32 4096 "mem c1" "os_hd_addr h"] content_slice [of 0 32 4096 mem0 "os_hd_addr h"] by (simp add: a_def)
  moreover note head_sealed [OF ok c1(1) [unfolded a_def] apart room [unfolded a_def], where w = w and bk = bk, folded a_def]
  ultimately have
    "content (mem (snd R)) a (length (bs @ d)) = bs @ d"
    "content (mem (snd R)) (os_hd_addr h) 32 =
       (if crc (frame h (Suc k) body) acc = w then img_bytes (sealed_head h w bk) else content mem0 (os_hd_addr h) 32)" by auto
  moreover have "store_block crc mem_ok F cfg (of_nat k) (frame h (Suc k) d @ rest) (of_nat (24 + length d)) (b, c) =
      Ret ((fst R)\<lparr>os_data_addr := os_data_addr (fst R) + of_nat (length d)\<rparr>, snd R)" for rest
    unfolding c1(2) check by (simp add: split_beta)
  ultimately show thesis using that by blast
qed


definition asks :: "tftp_client \<Rightarrow> bool" where
  "asks t \<longleftrightarrow> \<not> tf_done t \<and> length (tftp_buf t) = TFTP_LEN \<and> TftpState t = STATE_RRQ"

lemma ticks_ask: "asks t \<Longrightarrow> \<exists>t'. c_steps (tftp_step crc mem_ok F cfg) (replicate n Tf_Tick) (t, b, c) = Ret (t', b, c) \<and> asks t'"
proof (induction n arbitrary: t)
  case (Suc n)
  from Suc.prems have "asks (TftpTimeout t)" by (simp add: asks_def TftpTimeout_def Let_def TftpSend_def)
  from Suc.IH [OF this] Suc.prems show ?case by (auto simp: asks_def [of t])
qed simp

lemma length_oack [simp]: "length oack_packet = 25"
  by (simp add: oack_packet_def be16_def ascii_def)

lemma find_blksize_numeral:
  "find_blksize pkt (numeral v) =
     c_then (str_at (ascii ''blksize'' @ [0]) pkt)
       (\<lambda>found. if found then Ret (Some (ucast (os_strtoul (drop 8 pkt)))) else find_blksize (tl pkt) (pred_numeral v))"
  by (simp add: numeral_eq_Suc)

lemma blksize_found: "find_blksize (drop 2 oack_packet @ rest) 15 = Ret (Some 1048)"
  by (simp add: find_blksize_numeral oack_packet_def be16_def ascii_def os_strtoul_def is_digit_def dec_value_def)

lemma oack_received:
  assumes "asks t"
  obtains t' where "tftp_step crc mem_ok F cfg (Tf_Datagram oack_packet srv) (t, b, c) = Ret (t', b, c)" "waits_for 0 (snd srv) t'"
proof -
  define t1 where "t1 = t\<lparr>tftp_buf := blit (tftp_buf t) 0 oack_packet, server_addr := srv\<rparr>"
  define t2 where "t2 = t1\<lparr>TftpState := STATE_OACK, TftpServerPort := snd srv, TftpBlkSize := 1048\<rparr>"
  have t1: "\<not> tf_done t1" "length (tftp_buf t1) = TFTP_LEN" "TftpState t1 = STATE_RRQ"
    "tftp_buf t1 = oack_packet @ drop 25 (tftp_buf t)"
    using assms by (simp_all add: t1_def asks_def TFTP_LEN_def blit_front_long)
  have "tftp_buf t1 = be16 TFTP_OACK @ drop 2 oack_packet @ drop 25 (tftp_buf t)"
    unfolding t1(4) by (simp add: oack_packet_def be16_def)
  then have net: "net16 (tftp_buf t1) = TFTP_OACK" "drop 2 (tftp_buf t1) = drop 2 oack_packet @ drop 25 (tftp_buf t)"
    by (simp, simp add: be16_def)
  have "tftp_step crc mem_ok F cfg (Tf_Datagram oack_packet srv) (t, b, c) = TftpHandler crc mem_ok F cfg 25 (snd srv) (t1, b, c)"
    using assms by (simp add: asks_def t1_def TFTP_LEN_def)
  also have "\<dots> = Ret (TftpSend t2, b, c)"
    using t1(3) net blksize_found by (simp add: TftpHandler_def tftp_ops TftpOack_def t2_def Let_def)
  finally show thesis using that [of "TftpSend t2"] t1 by (simp add: waits_for_def t2_def TftpSend_def)
qed

lemma delivery_append: "delivery k srv h (xs @ ys) = delivery k srv h xs @ delivery (k + length xs) srv h ys"
  by (induction k srv h xs rule: delivery.induct) simp_all

lemma blocks_crc_append: "blocks_crc crc h k (xs @ ys) acc = blocks_crc crc h (k + length xs) ys (blocks_crc crc h k xs acc)"
  by (induction crc h k xs acc rule: blocks_crc.induct) simp_all

lemma steps_when_done: "tf_done t \<Longrightarrow> c_steps (tftp_step crc mem_ok F cfg) evs (t, b, c) = Ret (t, b, c)"
  by (induction evs) simp_all

section \<open>Properties\<close>

text \<open>
  C5: an upgrade from the start of the thread on: ticks, the server's answer to the request, full blocks in order, each followed by
  harmless events, and a short last block. The flash then holds the image from \<open>os1_flash_addr\<close> on, and the header's sector says
  so, or is as it was, when the CRC behind the last block is, or is not, that of the blocks. The client is gone, whatever
  else arrives.
\<close>

theorem tftp_image_received:
  fixes h :: send_data_hd and d body :: "u8 list" and ds :: "(u8 list \<times> tftp_event list) list" and w :: u32
  defines "img \<equiv> concat (map fst ds) @ d"
  assumes ok: "flash_ok F cfg mem sr" and buf: "length fresh = TFTP_LEN"
    and a: "os1_flash_addr h mod 0x1000 = 0" "0x27000 \<le> os1_flash_addr h" "unat (os1_flash_addr h) + length img \<le> 0x200000"
    and blocks: "full_blocks 0 (snd srv) ds" "list_all (harmless 0 (snd srv)) ex" "d = body @ word_bytes w" "length d < 1024"
    and seq: "total_seq h = of_nat (Suc (length ds))" and apart: "head_apart h (length img)"
  shows "case c_steps (tftp_step crc mem_ok F cfg)
            (replicate n Tf_Tick @ Tf_Datagram oack_packet srv # ex @ delivery 0 srv h (ds @ [(d, after)]))
            (tftp_server_start F cfg fresh tftp_s_addr (t, b, c)) of
       Ret (t', b', c') \<Rightarrow> tf_done t' \<and> content (mem c') (os1_flash_addr h) (length img) = img \<and>
         content (mem c') (os_hd_addr h) 32 =
           (if blocks_crc crc h 0 (map fst ds @ [body]) 0 = w then img_bytes (sealed_head h w (hd_bk (img_hd b)))
            else content (mem c) (os_hd_addr h) 32)
     | _ \<Rightarrow> False"
proof -
  let ?step = "tftp_step crc mem_ok F cfg" and ?n = "length ds" and ?bs = "concat (map fst ds)" and ?a = "os1_flash_addr h"
  define c0 where "c0 = set_flash_protect F cfg FLASH_PROTECT_NONE c"
  obtain t0 b0 where start: "tftp_server_start F cfg fresh tftp_s_addr (t, b, c) = (t0, b0, c0)" "asks t0"
      "img_hd b0 = img_hd b"
    using buf by (simp add: tftp_server_start_def TftpStart_def asks_def c0_def)
  have full: "length (concat (map fst xs)) = 1024 * length xs" if "full_blocks j P xs" for j P xs
    using that by (induction j P xs rule: full_blocks.induct) simp_all
  have bs: "length ?bs = 1024 * ?n" by (rule full [OF blocks(1)])
  have size: "unat ?a + 1024 * ?n \<le> 0x200000" "unat ?a + length ?bs + length d \<le> 0x200000"
    using a(3) bs by (simp_all add: img_def)
  have n16: "Suc ?n < 65536" using size(1) by simp
  have seqs: "total_seq h \<noteq> of_nat (Suc k)" if "k < ?n" for k
  proof -
    have "unat (of_nat (Suc k) :: u16) = Suc k" "unat (of_nat (Suc ?n) :: u16) = Suc ?n"
      using that n16 by (intro unat_of_nat16; simp)+
    then show ?thesis using that unfolding seq by (metis less_irrefl old.nat.inject)
  qed
  have at0: "holds_image cfg mem sr (mem c) ?a [] c0"
  proof -
    have F: "nor_laws F cfg mem sr" "sr_laws F sr" "cfg \<in> set flash_config" using ok by (simp_all add: flash_ok_def)
    have "mem c0 = mem c" "unlocked cfg (sr c0)"
      unfolding c0_def by (rule mem_set_flash_protect [OF F(1)], rule set_flash_protect_none_unlocks [OF F(2,3)])
    then show ?thesis by (simp add: holds_image_def staged_def sector_rest_def)
  qed
  have b0: "image_block h 0 [] 0 (hd_bk (img_hd b)) b0" by (simp add: image_block_def start(3))
  obtain t1 where t1: "c_steps ?step (replicate n Tf_Tick) (t0, b0, c0) = Ret (t1, b0, c0)" "asks t1"
    using ticks_ask [OF start(2), of crc mem_ok F cfg n b0 c0] by blast
  obtain t2 where t2: "?step (Tf_Datagram oack_packet srv) (t1, b0, c0) = Ret (t2, b0, c0)" "waits_for 0 (snd srv) t2"
    by (rule oack_received [OF t1(2)])
  obtain t3 where t3: "c_steps ?step ex (t2, b0, c0) = Ret (t3, b0, c0)" "waits_for 0 (snd srv) t3"
    by (rule harmless_steps [OF t2(2) blocks(2)]) simp_all
  obtain t4 b4 c4 where t4: "c_steps ?step (delivery 0 srv h ds) (t3, b0, c0) = Ret (t4, b4, c4)" "waits_for ?n (snd srv) t4"
    and at4: "holds_image cfg mem sr (mem c) ?a ?bs c4"
    and b4: "image_block h ?n ?bs (blocks_crc crc h 0 (map fst ds) 0) (hd_bk (img_hd b)) b4"
    using blocks_received [OF ok refl a(1,2) size(1) seqs blocks(1) _ t3(2) at0 _ b0, of crc mem_ok] by auto
  have len: "length (frame h (Suc ?n) d) = 24 + length d" by (simp add: frame_def)
  obtain b5 c5 where
    st: "\<forall>rest. store_block crc mem_ok F cfg (of_nat ?n) (frame h (Suc ?n) d @ rest) (of_nat (24 + length d)) (b4, c4) = Ret (b5, c5)"
    and c5: "content (mem c5) ?a (length img) = img"
      "content (mem c5) (os_hd_addr h) 32 =
         (if crc (frame h (Suc ?n) body) (blocks_crc crc h 0 (map fst ds) 0) = w then img_bytes (sealed_head h w (hd_bk (img_hd b)))
          else content (mem c) (os_hd_addr h) 32)"
    unfolding img_def
    by (rule last_block_stored [OF ok at4 a(1,2) size(2) bs blocks(3,4) b4 seq apart [unfolded img_def], where crc = crc and mem_ok = mem_ok])
  have fr: "length (frame h (Suc ?n) d) \<le> 1048" "24 \<le> length (frame h (Suc ?n) d)" using blocks(4) by (simp_all add: len)
  have st': "\<And>rest. store_block crc mem_ok F cfg (of_nat ?n) (frame h (Suc ?n) d @ rest) (of_nat (length (frame h (Suc ?n) d))) (b4, c4) =
      Ret (b5, c5)"
    unfolding len using st by blast
  obtain t5 where t5: "?step (Tf_Datagram (data_packet (Suc ?n) (frame h (Suc ?n) d)) srv) (t4, b4, c4) = Ret (t5, b5, c5)"
    and "if length (frame h (Suc ?n) d) < 1048 then tf_done t5 else waits_for (Suc ?n) (snd srv) t5"
    by (rule block_step [OF t4(2) refl n16 fr st'])
  then have fin: "tf_done t5" using blocks(4) by (simp add: len)
  show ?thesis
    using t1(1) t2(1) t3(1) t4(1) t5 c5 fin
    by (simp add: start(1) c_steps_append delivery_append blocks_crc_append steps_when_done del: tftp_step.simps)
qed


definition demo_hd :: send_data_hd where
  "demo_hd = \<lparr>total_len = 1031, hd_seq = 0, total_seq = 2, os0_ex_addr = 0, os_hd_addr = 0x8B000, os0_flash_addr = 0x27000,
     os1_flash_addr = 0x8C000\<rparr>"

definition count_crc :: "u8 list \<Rightarrow> u32 \<Rightarrow> u32" where
  "count_crc bs acc = acc + of_nat (length bs)"

lemma first_chip_ok: "flash_ok (nor_ctl (hd flash_config)) (hd flash_config) nc_mem nc_sr"
  using nor_ctl_laws by (simp add: flash_ok_def flash_config_def)

lemma tftp_image_received_witness:
  "case c_steps (tftp_step count_crc True (nor_ctl (hd flash_config)) (hd flash_config))
      (replicate 1 Tf_Tick @ Tf_Datagram oack_packet (7, 9) # [] @
        delivery 0 (7, 9) demo_hd ([(replicate 1024 3, [Tf_Tick, Tf_Datagram [1] (7, 8)])] @ [([1, 2, 3] @ word_bytes 1075, [])]))
      (tftp_server_start (nor_ctl (hd flash_config)) (hd flash_config) (replicate 1600 0) 7
        (tftp_client_zero, ota_block_start, blank_chip)) of
     Ret (t', b', c') \<Rightarrow> content (nc_mem c') 0x8C000 1031 = replicate 1024 3 @ [1, 2, 3] @ word_bytes 1075 \<and>
       content (nc_mem c') 0x8B000 32 = img_bytes (sealed_head demo_hd 1075 0)
   | _ \<Rightarrow> False"
proof -
  have crc: "blocks_crc count_crc demo_hd 0 (map fst [(replicate 1024 (3 :: u8), [Tf_Tick, Tf_Datagram [1] (7, 8)])] @ [[1, 2, 3]]) 0 = 1075"
    by (simp add: count_crc_def frame_def)
  show ?thesis
    using tftp_image_received [OF first_chip_ok, where fresh = "replicate 1600 0" and h = demo_hd and srv = "(7, 9)"
      and ds = "[(replicate 1024 3, [Tf_Tick, Tf_Datagram [1] (7, 8)])]" and d = "[1, 2, 3] @ word_bytes 1075" and body = "[1, 2, 3]"
      and w = 1075 and ex = "[]" and n = 1 and after = "[]" and tftp_s_addr = 7 and t = tftp_client_zero and b = ota_block_start
      and c = blank_chip and crc = count_crc and mem_ok = True]
    unfolding crc
    by (simp add: TFTP_LEN_def demo_hd_def head_apart_def ota_block_start_def zero_img_def split: c_run.splits prod.splits
      del: tftp_step.simps c_steps.simps delivery.simps)
qed


text \<open>
  C37: the address of the first block is checked only after its sector is erased. A first block for a sector outside
  \<open>[0x27000, 0x200000)\<close>, such as that of the bootloader at 0, erases this sector, stores nothing, and is acknowledged like any other.
\<close>

theorem tftp_erases_before_check:
  assumes ok: "flash_ok F cfg mem sr" and u: "unlocked cfg (sr c)" and at: "waits_for 0 (snd srv) t" and d: "length d = 1024"
    and a: "os1_flash_addr h mod 0x1000 = 0" "os1_flash_addr h < 0x1000000"
      "os1_flash_addr h < 0x27000 \<or> 0x200000 \<le> os1_flash_addr h"
  shows "case tftp_step crc mem_ok F cfg (Tf_Datagram (data_packet 1 (frame h 1 d)) srv) (t, b, c) of
       Ret (t', b', c') \<Rightarrow> mem c' = mem_write (mem c) (os1_flash_addr h) (replicate 4096 0xFF) \<and> waits_for 1 (snd srv) t'
     | _ \<Rightarrow> False"
proof -
  have F: "nor_laws F cfg mem sr" "cfg \<in> set flash_config" using ok by (simp_all add: flash_ok_def)
  define c' where "c' = flash_erase_sector F (os1_flash_addr h) c"
  have m: "mem c' = mem_write (mem c) (os1_flash_addr h) (replicate 4096 0xFF)"
    using erase_effect [OF F(1) u a(2)] sector_start [OF a(1)] by (simp add: c'_def)
  have len: "length (frame h (Suc 0) d) = 1048" by (simp add: frame_def d)
  define b' where "b' = b\<lparr>send_hd := h\<lparr>hd_seq := 1\<rparr>, os_data_addr := os1_flash_addr h, tftp_crc := 0,
      send_hd_bk := h\<lparr>hd_seq := 1\<rparr>\<rparr>"
  have out: "0x200000 \<le> os1_flash_addr h \<or> os1_flash_addr h < 0x27000" using a(3) by blast
  have st: "store_block crc mem_ok F cfg (of_nat 0) (frame h (Suc 0) d @ rest) (of_nat (length (frame h (Suc 0) d))) (b, c) =
      Ret (b', c')" for rest
    using out a(1) by (cases b) (simp add: store_block_def TFTP_PKT_HD_LEN_def frame_def flash_do_simps [OF F(2)] c'_def b'_def)
  obtain t' where "tftp_step crc mem_ok F cfg (Tf_Datagram (data_packet (Suc 0) (frame h (Suc 0) d)) srv) (t, b, c) = Ret (t', b', c')"
    "if length (frame h (Suc 0) d) < 1048 then tf_done t' else waits_for (Suc 0) (snd srv) t'"
    by (rule block_step [OF at refl _ _ _ st]) (simp_all add: len)
  then show ?thesis using m by (simp add: len)
qed

lemma tftp_erases_before_check_witness:
  "case tftp_step count_crc True (nor_ctl (hd flash_config)) (hd flash_config)
      (Tf_Datagram (data_packet 1 (frame (demo_hd\<lparr>os1_flash_addr := 0\<rparr>) 1 (replicate 1024 3))) (7, 9))
      (tftp_client_zero\<lparr>tftp_buf := replicate 1600 0, TftpState := STATE_OACK, TftpServerPort := 9, TftpBlkSize := 1048\<rparr>,
       ota_block_start, set_flash_protect (nor_ctl (hd flash_config)) (hd flash_config) FLASH_PROTECT_NONE blank_chip) of
     Ret (t', b', c') \<Rightarrow> nc_mem c' = mem_write (nc_mem (set_flash_protect (nor_ctl (hd flash_config)) (hd flash_config) FLASH_PROTECT_NONE
         blank_chip)) 0 (replicate 4096 0xFF)
   | _ \<Rightarrow> False"
proof -
  let ?c = "set_flash_protect (nor_ctl (hd flash_config)) (hd flash_config) FLASH_PROTECT_NONE blank_chip"
  have "hd flash_config \<in> set flash_config" by (simp add: flash_config_def)
  then have u: "unlocked (hd flash_config) (nc_sr ?c)" by (rule set_flash_protect_none_unlocks [OF nor_ctl_laws(2)])
  show ?thesis
    using tftp_erases_before_check [OF first_chip_ok u, where crc = count_crc and mem_ok = True and
      h = "demo_hd\<lparr>os1_flash_addr := 0\<rparr>" and srv = "(7, 9)" and d = "replicate 1024 3" and b = ota_block_start and
      t = "tftp_client_zero\<lparr>tftp_buf := replicate 1600 0, TftpState := STATE_OACK, TftpServerPort := 9, TftpBlkSize := 1048\<rparr>"]
    by (simp add: waits_for_def tftp_client_zero_def TFTP_LEN_def split: c_run.splits prod.splits del: tftp_step.simps)
qed

text \<open>
  A datagram from another port is dropped, and yet its source takes the place of the server: the next packet of the timer goes there.
\<close>

theorem tftp_answers_stranger:
  assumes at: "waits_for k P t" and src: "snd src \<noteq> P" and cnt: "TftpTimeoutCount t < 10"
  shows "case c_steps (tftp_step crc mem_ok F cfg) [Tf_Datagram bs src, Tf_Tick] (t, b, c) of
       Ret (t', _) \<Rightarrow> tf_sent t' = tf_sent t @ [(src, tftp_packet t)]
     | _ \<Rightarrow> False"
proof -
  have "\<not> 10 < TftpTimeoutCount t + 1" using cnt by unat_arith
  then show ?thesis using at src
    by (cases "k = 0") (simp_all add: waits_for_def TftpHandler_def TftpTimeout_def TIMEOUT_COUNT_def TftpSend_def tftp_packet_def)
qed

lemma tftp_answers_stranger_witness:
  "case c_steps (tftp_step count_crc True (nor_ctl (hd flash_config)) (hd flash_config)) [Tf_Datagram [1, 2] (6, 5), Tf_Tick]
      (tftp_client_zero\<lparr>tftp_buf := replicate 1600 0, TftpState := STATE_OACK, TftpServerPort := 9, TftpBlkSize := 1048\<rparr>,
       ota_block_start, blank_chip) of
     Ret (t', _) \<Rightarrow> tf_sent t' = [((6, 5), [0, 4, 0, 0])]
   | _ \<Rightarrow> False"
  using tftp_answers_stranger [where t = "tftp_client_zero\<lparr>tftp_buf := replicate 1600 0, TftpState := STATE_OACK, TftpServerPort := 9,
        TftpBlkSize := 1048\<rparr>" and k = 0 and P = 9 and src = "(6, 5)" and bs = "[1, 2]" and crc = count_crc and mem_ok = True and
      F = "nor_ctl (hd flash_config)" and cfg = "hd flash_config" and b = ota_block_start and c = blank_chip]
  by (simp add: waits_for_def tftp_client_zero_def TFTP_LEN_def tftp_packet_def be16_def TFTP_ACK_def split: c_run.splits prod.splits
    del: tftp_step.simps c_steps.simps)

end
