(* ===== verification/Uart_Drv.thy ===== *)
theory Uart_Drv
  imports Tuya_Uart
begin

text \<open>
  The driver of the two serial ports, \<open>beken378/driver/uart/uart.c\<close>, with the queues \<open>beken378/common/fifo.h\<close> between its
  interrupt and \<open>uart1_read\<close> and \<open>uart2_read\<close>, and the callback of \<open>Tuya_Uart\<close> on top of it.

  The ports are memory-mapped: reading a register may change the hardware, whose state is a parameter. A loop on a register may
  go on for ever (\<open>None\<close>). Callbacks with their parameters are of a type \<open>'f\<close> and run by an argument; they act on the hardware
  and on a state \<open>'w\<close> of the caller, and do not register others. Printing and the registration with the driver table, the
  interrupt list and the pins (\<open>uart1_init\<close>, \<open>uart1_exit\<close>, \<open>uart_reset\<close>) are left out.
\<close>

section \<open>Queues\<close>

record kfifo =
  kf_in :: u32
  kf_out :: u32
  kf_mask :: u32
  kf_size :: u32
  kf_buffer :: "u8 list"

text \<open>\<open>ok\<close>: whether \<open>os_malloc\<close> answers for the structure; \<open>BUG_ON\<close> is an assertion.\<close>

definition kfifo_init :: "u8 list \<Rightarrow> u32 \<Rightarrow> bool \<Rightarrow> kfifo option c_run" where
  "kfifo_init buffer n ok =
     (if n AND (n - 1) \<noteq> 0 then Assert_Stop
      else if \<not> ok then Ret None
      else Ret (Some \<lparr>kf_in = 0, kf_out = 0, kf_mask = n - 1, kf_size = n, kf_buffer = buffer\<rparr>))"

definition kfifo_alloc :: "u32 \<Rightarrow> u8 list option \<Rightarrow> bool \<Rightarrow> kfifo option c_run" where
  "kfifo_alloc n buffer ok = (case buffer of None \<Rightarrow> Ret None | Some b \<Rightarrow> kfifo_init b n ok)"

definition kfifo_put :: "kfifo \<Rightarrow> u8 list \<Rightarrow> u32 \<Rightarrow> u32 \<times> kfifo" where
  "kfifo_put f src len0 =
     (let len = min len0 (kf_size f - kf_in f + kf_out f);
          off = kf_in f AND (kf_size f - 1);
          l = min len (kf_size f - off);
          b1 = blit (kf_buffer f) (unat off) (take (unat l) src);
          b2 = blit b1 0 (take (unat (len - l)) (drop (unat l) src))
      in (len, f\<lparr>kf_buffer := b2, kf_in := kf_in f + len\<rparr>))"

definition kfifo_get :: "kfifo \<Rightarrow> u32 \<Rightarrow> u32 \<times> u8 list \<times> kfifo" where
  "kfifo_get f len0 =
     (let len = min len0 (kf_in f - kf_out f);
          off = kf_out f AND (kf_size f - 1);
          l = min len (kf_size f - off);
          d1 = take (unat l) (drop (unat off) (kf_buffer f));
          d2 = take (unat (len - l)) (kf_buffer f)
      in (len, d1 @ d2, f\<lparr>kf_out := kf_out f + len\<rparr>))"

definition kfifo_data_size :: "kfifo \<Rightarrow> u32" where
  "kfifo_data_size f = kf_in f - kf_out f"

definition kfifo_unused :: "kfifo \<Rightarrow> u32" where
  "kfifo_unused f = (kf_mask f + 1) - (kf_in f - kf_out f)"

definition kfifo_copy_out :: "kfifo \<Rightarrow> u32 \<Rightarrow> u32 \<Rightarrow> u8 list" where
  "kfifo_copy_out f len off0 =
     (let n = kf_mask f + 1; off = off0 AND kf_mask f; l = min len (n - off)
      in take (unat l) (drop (unat off) (kf_buffer f)) @ take (unat (len - l)) (kf_buffer f))"

definition kfifo_out_peek :: "kfifo \<Rightarrow> u32 \<Rightarrow> u32 \<times> u8 list" where
  "kfifo_out_peek f len0 =
     (let l = kf_in f - kf_out f; len = (if l < len0 then l else len0) in (len, kfifo_copy_out f len (kf_out f)))"

section \<open>Registers\<close>

record 'c mmio =
  mm_read :: "u32 \<Rightarrow> 'c \<Rightarrow> u32 \<times> 'c"
  mm_write :: "u32 \<Rightarrow> u32 \<Rightarrow> 'c \<Rightarrow> 'c"

definition UART1_PORT :: nat where "UART1_PORT = 0"
definition UART2_PORT :: nat where "UART2_PORT = 1"
definition UART1_BASE_ADDR :: u32 where "UART1_BASE_ADDR = 0x0802100"
definition UART2_BASE_ADDR :: u32 where "UART2_BASE_ADDR = 0x0802200"

definition uart_base :: "nat \<Rightarrow> u32" where
  "uart_base uport = (if uport = UART1_PORT then UART1_BASE_ADDR else UART2_BASE_ADDR)"

definition REG_UART_CONFIG :: "nat \<Rightarrow> u32" where "REG_UART_CONFIG p = uart_base p + 4 * 0"
definition REG_UART_FIFO_CONFIG :: "nat \<Rightarrow> u32" where "REG_UART_FIFO_CONFIG p = uart_base p + 4 * 1"
definition REG_UART_FIFO_STATUS :: "nat \<Rightarrow> u32" where "REG_UART_FIFO_STATUS p = uart_base p + 4 * 2"
definition REG_UART_FIFO_PORT :: "nat \<Rightarrow> u32" where "REG_UART_FIFO_PORT p = uart_base p + 4 * 3"
definition REG_UART_INTR_ENABLE :: "nat \<Rightarrow> u32" where "REG_UART_INTR_ENABLE p = uart_base p + 4 * 4"
definition REG_UART_INTR_STATUS :: "nat \<Rightarrow> u32" where "REG_UART_INTR_STATUS p = uart_base p + 4 * 5"
definition REG_UART_FLOW_CONFIG :: "nat \<Rightarrow> u32" where "REG_UART_FLOW_CONFIG p = uart_base p + 4 * 6"
definition REG_UART_WAKE_CONFIG :: "nat \<Rightarrow> u32" where "REG_UART_WAKE_CONFIG p = uart_base p + 4 * 7"

lemmas uart_regs = REG_UART_CONFIG_def REG_UART_FIFO_CONFIG_def REG_UART_FIFO_STATUS_def REG_UART_FIFO_PORT_def
  REG_UART_INTR_ENABLE_def REG_UART_INTR_STATUS_def REG_UART_FLOW_CONFIG_def REG_UART_WAKE_CONFIG_def
  uart_base_def UART1_BASE_ADDR_def UART2_BASE_ADDR_def UART1_PORT_def UART2_PORT_def

definition UART_TX_ENABLE :: u32 where "UART_TX_ENABLE = push_bit 0 1"
definition UART_RX_ENABLE :: u32 where "UART_RX_ENABLE = push_bit 1 1"
definition UART_IRDA :: u32 where "UART_IRDA = push_bit 2 1"
definition UART_DATA_LEN_POSI :: nat where "UART_DATA_LEN_POSI = 3"
definition UART_DATA_LEN_MASK :: u32 where "UART_DATA_LEN_MASK = 3"
definition UART_PAR_EN :: u32 where "UART_PAR_EN = push_bit 5 1"
definition UART_PAR_ODD_MODE :: u32 where "UART_PAR_ODD_MODE = push_bit 6 1"
definition UART_STOP_LEN_2 :: u32 where "UART_STOP_LEN_2 = push_bit 7 1"
definition UART_CLK_DIVID_POSI :: nat where "UART_CLK_DIVID_POSI = 8"
definition UART_CLK_DIVID_MASK :: u32 where "UART_CLK_DIVID_MASK = 0x1FFF"
definition RX_FIFO_COUNT_POSI :: nat where "RX_FIFO_COUNT_POSI = 8"
definition RX_FIFO_COUNT_MASK :: u32 where "RX_FIFO_COUNT_MASK = 0xFF"
definition TX_FIFO_FULL :: u32 where "TX_FIFO_FULL = push_bit 16 1"
definition TX_FIFO_EMPTY :: u32 where "TX_FIFO_EMPTY = push_bit 17 1"
definition FIFO_WR_READY :: u32 where "FIFO_WR_READY = push_bit 20 1"
definition FIFO_RD_READY :: u32 where "FIFO_RD_READY = push_bit 21 1"
definition TX_FIFO_NEED_WRITE :: u32 where "TX_FIFO_NEED_WRITE = push_bit 0 1"
definition RX_FIFO_NEED_READ :: u32 where "RX_FIFO_NEED_READ = push_bit 1 1"
definition UART_RX_PARITY_ERR :: u32 where "UART_RX_PARITY_ERR = push_bit 3 1"
definition UART_TX_STOP_END :: u32 where "UART_TX_STOP_END = push_bit 5 1"
definition UART_RX_STOP_END :: u32 where "UART_RX_STOP_END = push_bit 6 1"
definition UART_CLOCK :: u32 where "UART_CLOCK = 26000000"
definition UART_BAUD_RATE :: u32 where "UART_BAUD_RATE = 115200"
definition TX_FIFO_THRD :: u32 where "TX_FIFO_THRD = 0x40"
definition RX_FIFO_THRD :: u32 where "RX_FIFO_THRD = 0x10"
definition DEF_DATA_LEN :: u32 where "DEF_DATA_LEN = 3"
definition RX_RB_LENGTH :: u32 where "RX_RB_LENGTH = 128"
definition TX_RB_LENGTH :: u32 where "TX_RB_LENGTH = 64"
definition DEBUG_PRT_MAX_CNT :: u32 where "DEBUG_PRT_MAX_CNT = 16"
definition URX_PEEK_SIG :: u32 where "URX_PEEK_SIG = 0x0ee"
definition UART_SUCCESS :: u32 where "UART_SUCCESS = 0"
definition UART_FAILURE :: u32 where "UART_FAILURE = - 1"
definition BK_PARITY_ODD :: u32 where "BK_PARITY_ODD = 1"

section \<open>Bytes\<close>

definition uart_is_tx_fifo_empty :: "'c mmio \<Rightarrow> nat \<Rightarrow> 'c \<Rightarrow> u8 \<times> 'c" where
  "uart_is_tx_fifo_empty H uport c =
     (case mm_read H (REG_UART_FIFO_STATUS uport) c of (v, c1) \<Rightarrow> (if v AND TX_FIFO_EMPTY \<noteq> 0 then 1 else 0, c1))"

definition uart_is_tx_fifo_full :: "'c mmio \<Rightarrow> nat \<Rightarrow> 'c \<Rightarrow> u8 \<times> 'c" where
  "uart_is_tx_fifo_full H uport c =
     (case mm_read H (REG_UART_FIFO_STATUS uport) c of (v, c1) \<Rightarrow> (if v AND TX_FIFO_FULL \<noteq> 0 then 1 else 0, c1))"

text \<open>Waiting until a bit of a register is 1.\<close>

partial_function (option) wait_bit :: "'c mmio \<Rightarrow> u32 \<Rightarrow> u32 \<Rightarrow> 'c \<Rightarrow> 'c option" where
  "wait_bit H reg bits c = (case mm_read H reg c of (v, c1) \<Rightarrow> if v AND bits \<noteq> 0 then Some c1 else wait_bit H reg bits c1)"

definition bk_send_byte :: "'c mmio \<Rightarrow> nat \<Rightarrow> u8 \<Rightarrow> 'c \<Rightarrow> 'c option" where
  "bk_send_byte H uport data c =
     map_option (mm_write H (REG_UART_FIFO_PORT uport) (ucast data AND 0xFF)) (wait_bit H (REG_UART_FIFO_STATUS uport) FIFO_WR_READY c)"

text \<open>The characters before the terminating 0.\<close>

fun bk_send_string :: "'c mmio \<Rightarrow> nat \<Rightarrow> u8 list \<Rightarrow> 'c \<Rightarrow> 'c option" where
  "bk_send_string H uport [] c = Some c"
| "bk_send_string H uport (b # bs) c = Option.bind (bk_send_byte H uport b c) (bk_send_string H uport bs)"

definition uart_write_byte :: "'c mmio \<Rightarrow> nat \<Rightarrow> u8 \<Rightarrow> 'c \<Rightarrow> (int \<times> 'c) option" where
  "uart_write_byte H uport b c = map_option (\<lambda>c1. (1, c1)) (bk_send_byte H uport b c)"

definition uart_wait_tx_over :: "'c mmio \<Rightarrow> 'c \<Rightarrow> 'c option" where
  "uart_wait_tx_over H c =
     Option.bind (wait_bit H (REG_UART_FIFO_STATUS UART2_PORT) TX_FIFO_EMPTY c) (wait_bit H (REG_UART_FIFO_STATUS UART1_PORT) TX_FIFO_EMPTY)"

definition uart_pick :: "'c mmio \<Rightarrow> nat \<Rightarrow> 'c \<Rightarrow> u8 \<times> 'c" where
  "uart_pick H uport c = (case mm_read H (REG_UART_FIFO_PORT uport) c of (v, c1) \<Rightarrow> (ucast (drop_bit 8 v AND 0xFF), c1))"

definition uart_read_byte :: "'c mmio \<Rightarrow> nat \<Rightarrow> 'c \<Rightarrow> int \<times> 'c" where
  "uart_read_byte H uport c =
     (case mm_read H (REG_UART_FIFO_STATUS uport) c of
        (v, c1) \<Rightarrow> if v AND FIFO_RD_READY \<noteq> 0 then (case uart_pick H uport c1 of (b, c2) \<Rightarrow> (uint b, c2)) else (- 1, c1))"


section \<open>The driver\<close>

record uart_s =
  us_status :: u16
  us_rx :: "kfifo option"
  us_tx :: "kfifo option"

record 'f uart_drv =
  uarts :: "uart_s list"
  uart_receive_callback :: "'f option list"
  uart_txfifo_needwr_callback :: "'f option list"
  uart_tx_end_callback :: "'f option list"

definition uart_drv_start :: "'f uart_drv" where
  "uart_drv_start = \<lparr>uarts = replicate 2 \<lparr>us_status = 0, us_rx = None, us_tx = None\<rparr>, uart_receive_callback = [None, None],
     uart_txfifo_needwr_callback = [None, None], uart_tx_end_callback = [None, None]\<rparr>"

text \<open>A call that may hang, stop or fault, and what follows it.\<close>

definition run_then :: "'a c_run option \<Rightarrow> ('a \<Rightarrow> 'b c_run option) \<Rightarrow> 'b c_run option" where
  "run_then m f = (case m of None \<Rightarrow> None | Some Fault \<Rightarrow> Some Fault | Some Assert_Stop \<Rightarrow> Some Assert_Stop | Some (Ret x) \<Rightarrow> f x)"

lemma run_then_simps [simp]:
  "run_then (Some (Ret x)) f = f x" "run_then None f = None" "run_then (Some Fault) f = Some Fault"
  "run_then (Some Assert_Stop) f = Some Assert_Stop"
  by (simp_all add: run_then_def)

lemma run_then_Ret: "run_then m (\<lambda>s. Some (Ret s)) = m"
  by (auto simp: run_then_def split: option.splits c_run.splits)

definition uart_hw_init :: "'c mmio \<Rightarrow> nat \<Rightarrow> 'c \<Rightarrow> 'c" where
  "uart_hw_init H uport c =
     (let baud_div = UART_CLOCK div UART_BAUD_RATE - 1;
          conf = UART_TX_ENABLE OR (UART_RX_ENABLE AND NOT UART_IRDA) OR
            (push_bit UART_DATA_LEN_POSI (DEF_DATA_LEN AND UART_DATA_LEN_MASK) AND NOT UART_PAR_EN AND NOT UART_PAR_ODD_MODE AND
              NOT UART_STOP_LEN_2) OR push_bit UART_CLK_DIVID_POSI (baud_div AND UART_CLK_DIVID_MASK);
          fifo = push_bit 0 (TX_FIFO_THRD AND 0xFF) OR push_bit 8 (RX_FIFO_THRD AND 0xFF) OR push_bit 16 (0 AND 3);
          c1 = mm_write H (REG_UART_CONFIG uport) conf c;
          c2 = mm_write H (REG_UART_FIFO_CONFIG uport) fifo c1;
          c3 = mm_write H (REG_UART_FLOW_CONFIG uport) 0 c2;
          c4 = mm_write H (REG_UART_WAKE_CONFIG uport) 0 c3
      in mm_write H (REG_UART_INTR_ENABLE uport) (RX_FIFO_NEED_READ OR UART_RX_STOP_END) c4)"

text \<open>The configuration register of a line; the stop bits are not masked.\<close>

definition line_config :: "uart_config \<Rightarrow> u32" where
  "line_config cfg =
     (let baud_div = UART_CLOCK div baud_rate cfg - 1;
          parity_mode = (if parity cfg \<noteq> 0 \<and> parity cfg = BK_PARITY_ODD then 1 else 0);
          parity_en = (if parity cfg \<noteq> 0 then 1 else 0)
      in UART_TX_ENABLE OR (UART_RX_ENABLE AND NOT UART_IRDA) OR push_bit UART_DATA_LEN_POSI (data_width cfg AND UART_DATA_LEN_MASK) OR
         push_bit 5 parity_en OR push_bit 6 parity_mode OR push_bit 7 (stop_bits cfg) OR
         push_bit UART_CLK_DIVID_POSI (baud_div AND UART_CLK_DIVID_MASK))"

definition uart_hw_set_change :: "'c mmio \<Rightarrow> nat \<Rightarrow> uart_config \<Rightarrow> 'c \<Rightarrow> 'c c_run" where
  "uart_hw_set_change H uport cfg c =
     (let c0 = mm_write H (REG_UART_INTR_ENABLE uport) 0 c
      in if baud_rate cfg = 0 then Fault
         else
           (let fifo = push_bit 0 (TX_FIFO_THRD AND 0xFF) OR push_bit 8 (RX_FIFO_THRD AND 0xFF) OR push_bit 16 (0 AND 3);
                c1 = mm_write H (REG_UART_CONFIG uport) (line_config cfg) c0;
                c2 = mm_write H (REG_UART_FIFO_CONFIG uport) fifo c1;
                c3 = mm_write H (REG_UART_FLOW_CONFIG uport) 0 c2;
                c4 = mm_write H (REG_UART_WAKE_CONFIG uport) 0 c3
            in Ret (mm_write H (REG_UART_INTR_ENABLE uport) (RX_FIFO_NEED_READ OR UART_RX_STOP_END) c4)))"

text \<open>\<open>uart_sw_init\<close> on what \<open>kfifo_alloc\<close> answers for the two queues; a failure leaves the other one's pointer.\<close>

definition uart_sw_init :: "nat \<Rightarrow> kfifo option \<Rightarrow> kfifo option \<Rightarrow> 'f uart_drv \<Rightarrow> u32 \<times> 'f uart_drv" where
  "uart_sw_init uport rx tx d =
     (if tx = None \<or> rx = None then UART_FAILURE else UART_SUCCESS,
      d\<lparr>uarts := (uarts d)[uport := (uarts d ! uport)\<lparr>us_rx := rx, us_tx := tx\<rparr>]\<rparr>)"

definition uart_sw_uninit :: "nat \<Rightarrow> 'f uart_drv \<Rightarrow> u32 \<times> 'f uart_drv" where
  "uart_sw_uninit uport d = (UART_SUCCESS, d\<lparr>uarts := (uarts d)[uport := \<lparr>us_status = 0, us_rx = None, us_tx = None\<rparr>]\<rparr>)"

definition uart_fifo_flush :: "'c mmio \<Rightarrow> nat \<Rightarrow> 'c \<Rightarrow> 'c" where
  "uart_fifo_flush H uport c =
     (case mm_read H (REG_UART_CONFIG uport) c of
        (v, c1) \<Rightarrow> mm_write H (REG_UART_CONFIG uport) v
                     (mm_write H (REG_UART_CONFIG uport) (v AND NOT (UART_TX_ENABLE OR UART_RX_ENABLE)) c1))"

fun uart_discard :: "'c mmio \<Rightarrow> nat \<Rightarrow> nat \<Rightarrow> 'c \<Rightarrow> 'c" where
  "uart_discard H uport 0 c = c"
| "uart_discard H uport (Suc n) c = uart_discard H uport n (snd (mm_read H (REG_UART_FIFO_PORT uport) c))"

definition uart_hw_uninit :: "'c mmio \<Rightarrow> nat \<Rightarrow> 'c \<Rightarrow> 'c" where
  "uart_hw_uninit H uport c =
     (case mm_read H (REG_UART_INTR_ENABLE uport) c of
        (en, c1) \<Rightarrow>
          (let c2 = mm_write H (REG_UART_INTR_ENABLE uport) (en AND NOT (RX_FIFO_NEED_READ OR UART_RX_STOP_END)) c1
           in case mm_read H (REG_UART_CONFIG uport) (uart_fifo_flush H uport c2) of
                (cf, c3) \<Rightarrow>
                  (case mm_read H (REG_UART_FIFO_STATUS uport)
                          (mm_write H (REG_UART_CONFIG uport) (cf AND NOT (UART_TX_ENABLE OR UART_RX_ENABLE)) c3) of
                     (st, c4) \<Rightarrow> uart_discard H uport (unat (drop_bit RX_FIFO_COUNT_POSI st AND RX_FIFO_COUNT_MASK)) c4)))"

text \<open>The loops between a queue and the port; \<open>None\<close> in place of the queue is NULL.\<close>

partial_function (option) read_frame ::
    "'c mmio \<Rightarrow> nat \<Rightarrow> kfifo option \<Rightarrow> u32 \<Rightarrow> 'c \<Rightarrow> (u32 \<times> kfifo option \<times> 'c) c_run option" where
  "read_frame H uport rx n c =
     (case mm_read H (REG_UART_FIFO_STATUS uport) c of
        (v, c1) \<Rightarrow>
          if v AND FIFO_RD_READY = 0 then Some (Ret (n, rx, c1))
          else
            (case uart_pick H uport c1 of
               (b, c2) \<Rightarrow>
                 (case rx of
                    None \<Rightarrow> Some Fault
                  | Some f \<Rightarrow> (case kfifo_put f [b] 1 of (r, f1) \<Rightarrow> read_frame H uport (Some f1) (n + r) c2))))"

definition uart_read_fifo_frame :: "'c mmio \<Rightarrow> nat \<Rightarrow> kfifo option \<Rightarrow> 'c \<Rightarrow> (u32 \<times> kfifo option \<times> 'c) c_run option" where
  "uart_read_fifo_frame H uport rx c = read_frame H uport rx 0 c"

partial_function (option) write_frame ::
    "'c mmio \<Rightarrow> nat \<Rightarrow> kfifo \<Rightarrow> u32 \<Rightarrow> u32 \<Rightarrow> 'c \<Rightarrow> (u32 \<times> kfifo \<times> 'c) option" where
  "write_frame H uport tx count n c =
     (case kfifo_get tx 1 of
        (r, bs, tx1) \<Rightarrow>
          if r = 0 then Some (n, tx1, c)
          else Option.bind (bk_send_byte H uport (bs ! 0) c)
            (\<lambda>c1. if count \<le> n + r then Some (n + r, tx1, c1) else write_frame H uport tx1 count (n + r) c1))"

definition uart_write_fifo_frame :: "'c mmio \<Rightarrow> nat \<Rightarrow> kfifo option \<Rightarrow> u32 \<Rightarrow> 'c \<Rightarrow> (u32 \<times> kfifo option \<times> 'c) c_run option" where
  "uart_write_fifo_frame H uport tx count c =
     (case tx of
        None \<Rightarrow> Some Fault
      | Some f \<Rightarrow> map_option (\<lambda>(n, f1, c1). Ret (n, Some f1, c1)) (write_frame H uport f count 0 c))"

definition uart_send_backgroud :: "'c mmio \<Rightarrow> 'f uart_drv \<times> 'c \<Rightarrow> ('f uart_drv \<times> 'c) c_run option" where
  "uart_send_backgroud H s =
     (case s of (d, c) \<Rightarrow>
        run_then (uart_write_fifo_frame H UART2_PORT (us_tx (uarts d ! UART2_PORT)) DEBUG_PRT_MAX_CNT c)
          (\<lambda>(_, tx, c1). Some (Ret (d\<lparr>uarts := (uarts d)[UART2_PORT := (uarts d ! UART2_PORT)\<lparr>us_tx := tx\<rparr>]\<rparr>, c1))))"

definition uart_set_intr :: "'c mmio \<Rightarrow> nat \<Rightarrow> u32 \<Rightarrow> u8 \<Rightarrow> 'c \<Rightarrow> 'c" where
  "uart_set_intr H uport bits on c =
     (case mm_read H (REG_UART_INTR_ENABLE uport) c of
        (v, c1) \<Rightarrow> mm_write H (REG_UART_INTR_ENABLE uport) (if on = 1 then v OR bits else v AND NOT bits) c1)"

definition uart_set_tx_fifo_needwr_int :: "'c mmio \<Rightarrow> nat \<Rightarrow> u8 \<Rightarrow> 'c \<Rightarrow> 'c" where
  "uart_set_tx_fifo_needwr_int H uport on c = uart_set_intr H uport TX_FIFO_NEED_WRITE on c"

definition uart_set_tx_stop_end_int :: "'c mmio \<Rightarrow> nat \<Rightarrow> u8 \<Rightarrow> 'c \<Rightarrow> 'c" where
  "uart_set_tx_stop_end_int H uport on c = uart_set_intr H uport UART_TX_STOP_END on c"

definition uart_rx_callback_set :: "nat \<Rightarrow> 'f option \<Rightarrow> 'f uart_drv \<Rightarrow> int \<times> 'f uart_drv" where
  "uart_rx_callback_set uport f d =
     (if uport = UART1_PORT \<or> uport = UART2_PORT then (0, d\<lparr>uart_receive_callback := (uart_receive_callback d)[uport := f]\<rparr>) else (- 1, d))"

definition uart_tx_fifo_needwr_callback_set :: "nat \<Rightarrow> 'f option \<Rightarrow> 'f uart_drv \<Rightarrow> int \<times> 'f uart_drv" where
  "uart_tx_fifo_needwr_callback_set uport f d =
     (if uport = UART1_PORT \<or> uport = UART2_PORT
      then (0, d\<lparr>uart_txfifo_needwr_callback := (uart_txfifo_needwr_callback d)[uport := f]\<rparr>) else (- 1, d))"

definition uart_tx_end_callback_set :: "nat \<Rightarrow> 'f option \<Rightarrow> 'f uart_drv \<Rightarrow> int \<times> 'f uart_drv" where
  "uart_tx_end_callback_set uport f d =
     (if uport = UART1_PORT \<or> uport = UART2_PORT then (0, d\<lparr>uart_tx_end_callback := (uart_tx_end_callback d)[uport := f]\<rparr>) else (- 1, d))"

section \<open>The interrupt\<close>

definition run_callback ::
    "('f \<Rightarrow> nat \<Rightarrow> 'c \<times> 'w \<Rightarrow> ('c \<times> 'w) c_run option) \<Rightarrow> 'f option \<Rightarrow> nat \<Rightarrow> 'c \<times> 'w \<Rightarrow> ('c \<times> 'w) c_run option" where
  "run_callback cb f uport s = (case f of None \<Rightarrow> Some (Ret s) | Some g \<Rightarrow> cb g uport s)"

text \<open>The receive callback, or one byte is dropped.\<close>

definition receive_callback ::
    "'c mmio \<Rightarrow> ('f \<Rightarrow> nat \<Rightarrow> 'c \<times> 'w \<Rightarrow> ('c \<times> 'w) c_run option) \<Rightarrow> 'f uart_drv \<Rightarrow> nat \<Rightarrow> 'c \<times> 'w \<Rightarrow> ('c \<times> 'w) c_run option" where
  "receive_callback H cb d uport s =
     (case uart_receive_callback d ! uport of
        Some f \<Rightarrow> cb f uport s
      | None \<Rightarrow> (case s of (c, w) \<Rightarrow> Some (Ret (snd (uart_read_byte H uport c), w))))"

definition frame_in :: "'c mmio \<Rightarrow> nat \<Rightarrow> 'f uart_drv \<times> 'c \<Rightarrow> ('f uart_drv \<times> 'c) c_run option" where
  "frame_in H uport s =
     (case s of (d, c) \<Rightarrow>
        run_then (uart_read_fifo_frame H uport (us_rx (uarts d ! uport)) c)
          (\<lambda>(_, rx, c1). Some (Ret (d\<lparr>uarts := (uarts d)[uport := (uarts d ! uport)\<lparr>us_rx := rx\<rparr>]\<rparr>, c1))))"

text \<open>The rest of either handler: the transmit callbacks, and a flush after a parity error.\<close>

definition isr_rest ::
    "'c mmio \<Rightarrow> ('f \<Rightarrow> nat \<Rightarrow> 'c \<times> 'w \<Rightarrow> ('c \<times> 'w) c_run option) \<Rightarrow> nat \<Rightarrow> u32 \<Rightarrow> 'f uart_drv \<times> 'c \<times> 'w
       \<Rightarrow> ('f uart_drv \<times> 'c \<times> 'w) c_run option" where
  "isr_rest H cb uport status s =
     (case s of (d, c, w) \<Rightarrow>
        run_then (if status AND TX_FIFO_NEED_WRITE \<noteq> 0 then run_callback cb (uart_txfifo_needwr_callback d ! uport) uport (c, w)
                  else Some (Ret (c, w)))
          (\<lambda>(c1, w1).
             (let c2 = (if status AND UART_RX_PARITY_ERR \<noteq> 0 then uart_fifo_flush H uport c1 else c1)
              in run_then (if status AND UART_TX_STOP_END \<noteq> 0 then run_callback cb (uart_tx_end_callback d ! uport) uport (c2, w1)
                           else Some (Ret (c2, w1)))
                   (\<lambda>(c3, w3). Some (Ret (d, c3, w3))))))"

text \<open>Both handlers acknowledge the whole status first. \<open>to_queue\<close>: whether the received bytes go to the queue before the callback.\<close>

definition uart_isr ::
    "'c mmio \<Rightarrow> ('f \<Rightarrow> nat \<Rightarrow> 'c \<times> 'w \<Rightarrow> ('c \<times> 'w) c_run option) \<Rightarrow> bool \<Rightarrow> nat \<Rightarrow> 'f uart_drv \<times> 'c \<times> 'w
       \<Rightarrow> ('f uart_drv \<times> 'c \<times> 'w) c_run option" where
  "uart_isr H cb to_queue uport s =
     (case s of (d, c, w) \<Rightarrow>
        case mm_read H (REG_UART_INTR_ENABLE uport) c of
          (en, c1) \<Rightarrow>
            (case mm_read H (REG_UART_INTR_STATUS uport) c1 of
               (st, c2) \<Rightarrow>
                 (let c3 = mm_write H (REG_UART_INTR_STATUS uport) st c2; status = st AND en
                  in run_then
                       (if status AND (RX_FIFO_NEED_READ OR UART_RX_STOP_END) \<noteq> 0 then
                          run_then (if to_queue then frame_in H uport (d, c3) else Some (Ret (d, c3)))
                            (\<lambda>(d1, c4). run_then (receive_callback H cb d1 uport (c4, w)) (\<lambda>(c5, w1). Some (Ret (d1, c5, w1))))
                        else Some (Ret (d, c3, w)))
                       (isr_rest H cb uport status))))"

definition uart1_isr ::
    "'c mmio \<Rightarrow> ('f \<Rightarrow> nat \<Rightarrow> 'c \<times> 'w \<Rightarrow> ('c \<times> 'w) c_run option) \<Rightarrow> bool \<Rightarrow> 'f uart_drv \<times> 'c \<times> 'w \<Rightarrow> ('f uart_drv \<times> 'c \<times> 'w) c_run option" where
  "uart1_isr H cb ate_mode s = uart_isr H cb ate_mode UART1_PORT s"

definition uart2_isr ::
    "'c mmio \<Rightarrow> ('f \<Rightarrow> nat \<Rightarrow> 'c \<times> 'w \<Rightarrow> ('c \<times> 'w) c_run option) \<Rightarrow> 'f uart_drv \<times> 'c \<times> 'w \<Rightarrow> ('f uart_drv \<times> 'c \<times> 'w) c_run option" where
  "uart2_isr H cb s = uart_isr H cb True UART2_PORT s"

section \<open>The device's operations\<close>

definition uart_dev_read :: "nat \<Rightarrow> u32 \<Rightarrow> 'f uart_drv \<Rightarrow> (u32 \<times> u8 list \<times> 'f uart_drv) c_run" where
  "uart_dev_read uport count d =
     (case us_rx (uarts d ! uport) of
        None \<Rightarrow> Fault
      | Some f \<Rightarrow> (case kfifo_get f count of
                    (r, bs, f1) \<Rightarrow> Ret (r, bs, d\<lparr>uarts := (uarts d)[uport := (uarts d ! uport)\<lparr>us_rx := Some f1\<rparr>]\<rparr>)))"

definition uart_dev_write :: "nat \<Rightarrow> u8 list \<Rightarrow> u32 \<Rightarrow> 'f uart_drv \<Rightarrow> (u32 \<times> 'f uart_drv) c_run" where
  "uart_dev_write uport src count d =
     (case us_tx (uarts d ! uport) of
        None \<Rightarrow> Fault
      | Some f \<Rightarrow> (case kfifo_put f src count of
                    (r, f1) \<Rightarrow> Ret (r, d\<lparr>uarts := (uarts d)[uport := (uarts d ! uport)\<lparr>us_tx := Some f1\<rparr>]\<rparr>)))"

text \<open>The commands, with the object \<open>parm\<close> points to; \<open>CMD_UART_RESET\<close> is left out. A callback descriptor that is NULL is \<open>None\<close>.\<close>

datatype 'f uart_cmd =
    CMD_SEND_BACKGROUND | CMD_RX_COUNT | CMD_RX_PEEK u32 u32 bool | CMD_UART_INIT uart_config
  | CMD_UART_SET_RX_CALLBACK "'f option" | CMD_UART_SET_TX_CALLBACK "'f option" | CMD_SET_STOP_END u8
  | CMD_UART_SET_TX_FIFO_NEEDWR_CALLBACK "'f option" | CMD_SET_TX_FIFO_NEEDWR_INT u8

definition uart_ctrl ::
    "'c mmio \<Rightarrow> nat \<Rightarrow> 'f uart_cmd \<Rightarrow> 'f uart_drv \<times> 'c \<Rightarrow> (u32 \<times> u8 list \<times> 'f uart_drv \<times> 'c) c_run option" where
  "uart_ctrl H uport cmd s =
     (case s of (d, c) \<Rightarrow>
        case cmd of
          CMD_SEND_BACKGROUND \<Rightarrow>
            if uport = UART1_PORT then Some (Ret (UART_SUCCESS, [], d, c))
            else run_then (uart_send_backgroud H (d, c)) (\<lambda>(d1, c1). Some (Ret (UART_SUCCESS, [], d1, c1)))
        | CMD_RX_COUNT \<Rightarrow>
            (case us_rx (uarts d ! uport) of None \<Rightarrow> Some Fault | Some f \<Rightarrow> Some (Ret (kfifo_data_size f, [], d, c)))
        | CMD_RX_PEEK sig len null \<Rightarrow>
            if \<not> (URX_PEEK_SIG \<noteq> sig \<or> null \<or> len = 0) then
              (case us_rx (uarts d ! uport) of
                 None \<Rightarrow> Some Fault | Some f \<Rightarrow> (case kfifo_out_peek f len of (r, bs) \<Rightarrow> Some (Ret (r, bs, d, c))))
            else Some (Ret (UART_SUCCESS, [], d, c))
        | CMD_UART_INIT cfg \<Rightarrow> Some (c_then (uart_hw_set_change H uport cfg c) (\<lambda>c1. Ret (UART_SUCCESS, [], d, c1)))
        | CMD_UART_SET_RX_CALLBACK f \<Rightarrow> Some (Ret (UART_SUCCESS, [], snd (uart_rx_callback_set uport f d), c))
        | CMD_UART_SET_TX_CALLBACK f \<Rightarrow> Some (Ret (UART_SUCCESS, [], snd (uart_tx_end_callback_set uport f d), c))
        | CMD_UART_SET_TX_FIFO_NEEDWR_CALLBACK f \<Rightarrow> Some (Ret (UART_SUCCESS, [], snd (uart_tx_fifo_needwr_callback_set uport f d), c))
        | CMD_SET_STOP_END v \<Rightarrow> Some (Ret (UART_SUCCESS, [], d, uart_set_tx_stop_end_int H uport v c))
        | CMD_SET_TX_FIFO_NEEDWR_INT v \<Rightarrow> Some (Ret (UART_SUCCESS, [], d, uart_set_tx_fifo_needwr_int H uport v c)))"

section \<open>The callback of the Tuya layer\<close>

text \<open>\<open>ty_read_uart_data_to_buffer\<close> as it runs, byte by byte on the port.\<close>

partial_function (option) ty_pump :: "'c mmio \<Rightarrow> 's sem_ops \<Rightarrow> nat \<Rightarrow> 'c \<Rightarrow> tuya_uart \<times> 's \<Rightarrow> ('c \<times> tuya_uart \<times> 's) c_run option" where
  "ty_pump H S uport c us =
     (case uart_read_byte H uport c of
        (rc, c1) \<Rightarrow>
          if rc = - 1 then Some (Ret (c1, us))
          else (case uart_push S (of_int rc) us of None \<Rightarrow> Some Fault | Some us1 \<Rightarrow> ty_pump H S uport c1 us1))"

definition ty_callback :: "'c mmio \<Rightarrow> 's sem_ops \<Rightarrow> nat \<Rightarrow> 'c \<times> 's ty_state \<Rightarrow> ('c \<times> 's ty_state) c_run option" where
  "ty_callback H S uport s =
     (case s of (c, us, sem) \<Rightarrow>
        run_then (ty_pump H S uport c (us ! uport, sem)) (\<lambda>(c1, u, sem1). Some (Ret (c1, us[uport := u], sem1))))"


section \<open>The queues keep the order\<close>

lemma ring_two:
  fixes s n :: nat and xs :: "'a list"
  assumes "n \<le> length xs" "0 < length xs"
  defines "l \<equiv> min n (length xs - s mod length xs)"
  shows "take l (drop (s mod length xs) xs) @ take (n - l) xs = ring xs s n"
proof -
  have m: "s mod length xs < length xs" using assms(2) by simp
  have "ring xs s n = ring xs (s mod length xs) (l + (n - l))" by (simp add: l_def)
  also have "\<dots> = ring xs (s mod length xs) l @ ring xs (s mod length xs + l) (n - l)" by (rule ring_add)
  also have "ring xs (s mod length xs) l = take l (drop (s mod length xs) xs)"
    using m by (intro ring_slice) (simp add: l_def)
  also have "ring xs (s mod length xs + l) (n - l) = take (n - l) xs"
  proof (cases "n - l = 0")
    case False
    then have "s mod length xs + l = 0 + length xs" using m by (simp add: l_def min_def split: if_splits)
    then have "ring xs (s mod length xs + l) (n - l) = ring xs 0 (n - l)" by (simp only: ring_shift)
    then show ?thesis using assms(1) by (simp add: ring_slice)
  qed simp
  finally show ?thesis by simp
qed

lemma ring_store_two:
  fixes p :: nat and xs bs :: "'a list"
  assumes "length bs \<le> length xs" "0 < length xs"
  defines "l \<equiv> min (length bs) (length xs - p mod length xs)"
  shows "blit (blit xs (p mod length xs) (take l bs)) 0 (drop l bs) = ring_store xs p bs"
proof -
  define q where "q = p mod length xs"
  have q: "q < length xs" using assms(2) by (simp add: q_def)
  define ys where "ys = ring_store xs q (take l bs)"
  have ys: "ys = blit xs q (take l bs)" using q by (simp add: ys_def ring_store_blit l_def q_def)
  have "ring_store xs p bs = ring_store xs q (take l bs @ drop l bs)" by (simp add: q_def ring_store_mod)
  also have "\<dots> = ring_store ys (q + l) (drop l bs)"
    unfolding ring_store_append by (simp add: ys_def l_def min_def)
  also have "\<dots> = blit ys 0 (drop l bs)"
  proof (cases "length bs \<le> l")
    case False
    then have "q + l = length ys" using q by (simp add: l_def ys_def q_def min_def split: if_splits)
    then have "ring_store ys (q + l) (drop l bs) = ring_store ys 0 (drop l bs)" using ring_store_mod [of ys "length ys" "drop l bs"] by simp
    also have "\<dots> = blit ys 0 (drop l bs)" using assms(1) by (intro ring_store_blit) (simp add: ys_def)
    finally show ?thesis .
  qed simp
  finally show ?thesis by (simp add: ys q_def)
qed

definition kf_ok :: "kfifo \<Rightarrow> bool" where
  "kf_ok f \<longleftrightarrow> (\<exists>k<32. kf_size f = 2 ^ k) \<and> length (kf_buffer f) = unat (kf_size f) \<and> kf_mask f = kf_size f - 1 \<and>
     unat (kf_in f - kf_out f) \<le> unat (kf_size f)"

definition kf_contents :: "kfifo \<Rightarrow> u8 list" where
  "kf_contents f = ring (kf_buffer f) (unat (kf_out f)) (unat (kf_in f - kf_out f))"

definition kf_room :: "kfifo \<Rightarrow> nat" where
  "kf_room f = unat (kf_size f) - length (kf_contents f)"

lemma kf_size_facts:
  assumes "kf_ok f"
  shows "0 < unat (kf_size f)" "unat (kf_size f) dvd 4294967296" "unat (x AND (kf_size f - 1)) = unat x mod unat (kf_size f)"
proof -
  obtain k where k: "k < 32" "kf_size f = 2 ^ k" using assms by (auto simp: kf_ok_def)
  have u: "unat (kf_size f) = 2 ^ k" using k(1) unat_of_nat32 [of "2 ^ k"] power_strict_increasing [of k 32 "2 :: nat"] by (simp add: k(2))
  then show "0 < unat (kf_size f)" by simp
  have "(2 :: nat) ^ k dvd 2 ^ 32" using k(1) by (intro le_imp_power_dvd) simp
  then show "unat (kf_size f) dvd 4294967296" by (simp add: u)
  have "kf_size f - 1 = mask k" by (simp add: k(2) mask_eq_exp_minus_1)
  then have "x AND (kf_size f - 1) = take_bit k x" by (simp only: take_bit_eq_mask)
  then have "unat (x AND (kf_size f - 1)) = take_bit k (unat x)" by (simp only: unsigned_take_bit_eq)
  then show "unat (x AND (kf_size f - 1)) = unat x mod unat (kf_size f)" by (simp only: take_bit_eq_mod u)
qed

lemma kf_end:
  assumes "kf_ok f"
  shows "unat (kf_in f) mod unat (kf_size f) = (unat (kf_out f) + unat (kf_in f - kf_out f)) mod unat (kf_size f)"
proof -
  have "unat (kf_out f + (kf_in f - kf_out f)) = (unat (kf_out f) + unat (kf_in f - kf_out f)) mod 4294967296"
    unfolding unat_word_ariths(1) by simp
  then have "unat (kf_in f) = (unat (kf_out f) + unat (kf_in f - kf_out f)) mod 4294967296" by simp
  then show ?thesis using mod_mod_cancel [OF kf_size_facts(2) [OF assms]] by (simp only:)
qed

lemma unat_min32: "unat (min a b :: u32) = min (unat a) (unat b)"
  by (auto simp: min_def word_le_nat_alt)

lemma kfifo_get_ok:
  assumes ok: "kf_ok f" and g: "kfifo_get f n = (r, bs, f')"
  shows "kf_ok f'" "bs = take (unat n) (kf_contents f)" "kf_contents f' = drop (unat n) (kf_contents f)"
    "unat r = min (unat n) (length (kf_contents f))" "kf_size f' = kf_size f"
proof -
  define len where "len = min n (kf_in f - kf_out f)"
  define N where "N = unat (kf_size f)"
  have N: "0 < N" "length (kf_buffer f) = N" using ok kf_size_facts(1) [OF ok] by (simp_all add: kf_ok_def N_def)
  have len: "unat len = min (unat n) (unat (kf_in f - kf_out f))" by (simp add: len_def unat_min32)
  define off where "off = kf_out f AND (kf_size f - 1)"
  have off: "unat off = unat (kf_out f) mod N" using kf_size_facts(3) [OF ok] by (simp add: off_def N_def)
  then have room: "unat (kf_size f - off) = N - unat off"
    using N(1) by (subst unat_minus32) (simp_all add: N_def less_imp_le)
  define l where "l = min len (kf_size f - off)"
  have l: "unat l = min (unat len) (N - unat (kf_out f) mod N)" using off room by (simp add: l_def unat_min32)
  then have rest: "unat (len - l) = unat len - unat l" by (subst unat_minus32) simp_all
  have small: "unat len \<le> N" using len ok unfolding kf_ok_def N_def by linarith
  have eq: "r = len" "f' = f\<lparr>kf_out := kf_out f + len\<rparr>"
    "bs = take (unat l) (drop (unat off) (kf_buffer f)) @ take (unat (len - l)) (kf_buffer f)"
    using g by (auto simp: kfifo_get_def Let_def len_def l_def off_def)
  have "bs = ring (kf_buffer f) (unat (kf_out f)) (unat len)"
    using ring_two [of "unat len" "kf_buffer f" "unat (kf_out f)"] small N off l rest by (simp add: eq(3))
  then show "bs = take (unat n) (kf_contents f)" by (simp add: kf_contents_def take_ring len min.commute)
  have left: "unat (kf_in f - (kf_out f + len)) = unat (kf_in f - kf_out f) - unat len"
    using len unat_minus32 [of len "kf_in f - kf_out f"] by (simp add: diff_diff_add)
  moreover have "unat (kf_in f - kf_out f) - unat len \<le> unat (kf_size f)" using ok unfolding kf_ok_def by linarith
  ultimately show "kf_ok f'" using ok by (simp add: kf_ok_def eq)
  have "unat (kf_out f + len) mod N = (unat (kf_out f) + unat len) mod N"
    using kf_size_facts(2) [OF ok] by (simp add: unat_word_ariths mod_mod_cancel N_def)
  then have "ring (kf_buffer f) (unat (kf_out f + len)) m = ring (kf_buffer f) (unat (kf_out f) + unat len) m" for m
    using N(2) by (metis ring_mod)
  then show "kf_contents f' = drop (unat n) (kf_contents f)"
    using left len by (simp add: kf_contents_def eq drop_ring) (simp add: min_def split: if_splits)
  show "unat r = min (unat n) (length (kf_contents f))" by (simp add: eq len kf_contents_def)
  show "kf_size f' = kf_size f" by (simp add: eq)
qed


lemma kfifo_put_ok:
  assumes ok: "kf_ok f" and p: "kfifo_put f bs (of_nat (length bs)) = (r, f')" and short: "length bs < 4294967296"
  shows "kf_ok f'" "kf_contents f' = kf_contents f @ take (kf_room f) bs" "kf_size f' = kf_size f"
proof -
  define len :: u32 where "len = min (of_nat (length bs)) (kf_size f - kf_in f + kf_out f)"
  define N where "N = unat (kf_size f)"
  define n where "n = unat (kf_in f - kf_out f)"
  have N: "0 < N" "length (kf_buffer f) = N" "n \<le> N" using ok kf_size_facts(1) [OF ok] by (simp_all add: kf_ok_def N_def n_def)
  have e: "kf_size f - kf_in f + kf_out f = kf_size f - (kf_in f - kf_out f)" by simp
  have "unat (kf_in f - kf_out f) \<le> unat (kf_size f)" using N(3) by (simp add: N_def n_def)
  then have "unat (kf_size f - kf_in f + kf_out f) = N - n" unfolding e N_def n_def by (rule unat_minus32)
  then have len: "unat len = min (length bs) (N - n)" using short by (simp add: len_def unat_min32 unat_of_nat32)
  define off where "off = kf_in f AND (kf_size f - 1)"
  have off: "unat off = unat (kf_in f) mod N" using kf_size_facts(3) [OF ok] by (simp add: off_def N_def)
  then have room: "unat (kf_size f - off) = N - unat off"
    using N(1) by (subst unat_minus32) (simp_all add: N_def less_imp_le)
  define l where "l = min len (kf_size f - off)"
  have l: "unat l = min (unat len) (N - unat (kf_in f) mod N)" using off room by (simp add: l_def unat_min32)
  then have rest: "unat (len - l) = unat len - unat l" by (subst unat_minus32) simp_all
  define ds where "ds = take (unat len) bs"
  have ds: "length ds = unat len" "ds = take (N - n) bs" using len by (simp_all add: ds_def min_def)
  have eq: "f' = f\<lparr>kf_buffer := blit (blit (kf_buffer f) (unat off) (take (unat l) bs)) 0 (take (unat (len - l)) (drop (unat l) bs)),
      kf_in := kf_in f + len\<rparr>"
    using p by (auto simp: kfifo_put_def Let_def len_def l_def off_def)
  have parts: "take (unat l) bs = take (unat l) ds" "take (unat (len - l)) (drop (unat l) bs) = drop (unat l) ds"
    using l rest by (simp_all add: ds_def drop_take)
  have two: "blit (blit (kf_buffer f) (unat off) (take (unat l) ds)) 0 (drop (unat l) ds) = ring_store (kf_buffer f) (unat (kf_in f)) ds"
  proof -
    have "length ds \<le> N" using ds(1) len by linarith
    then show ?thesis using ring_store_two [of ds "kf_buffer f" "unat (kf_in f)"] N(1,2) ds(1) l off by simp
  qed
  have store: "ring_store (kf_buffer f) (unat (kf_in f)) ds = ring_store (kf_buffer f) (unat (kf_out f) + n) ds"
    using kf_end [OF ok] N(2) ring_store_mod [of "kf_buffer f" "unat (kf_in f)" ds] ring_store_mod [of "kf_buffer f" "unat (kf_out f) + n" ds]
    by (simp add: N_def n_def)
  have buf: "kf_buffer f' = ring_store (kf_buffer f) (unat (kf_out f) + n) ds" by (simp add: eq parts two store)
  have e2: "kf_in f' - kf_out f' = (kf_in f - kf_out f) + len" by (simp add: eq)
  have "n + unat len < 4294967296" using len N unat_lt32 [of "kf_size f"] by (simp add: N_def min_def split: if_splits)
  then have fill: "unat (kf_in f' - kf_out f') = n + length ds" unfolding e2 ds(1) n_def by (rule unat_plus32)
  have fits: "n + length ds \<le> N" using ds(1) len N(3) by simp
  then show "kf_ok f'" using ok fill buf by (simp add: kf_ok_def eq N_def)
  show "kf_contents f' = kf_contents f @ take (kf_room f) bs"
    using ring_ring_store [of n ds "kf_buffer f" "unat (kf_out f)"] fits N(2) fill buf ds(2)
    by (simp add: kf_contents_def kf_room_def n_def [symmetric] N_def [symmetric]) (simp add: eq)
  show "kf_size f' = kf_size f" by (simp add: eq)
qed

interpretation kf: byte_fifo "\<lambda>bs f. snd (kfifo_put f bs (of_nat (length bs)))" "\<lambda>n f. snd (kfifo_get f n)" kf_contents "\<lambda>f n. kf_room f" kf_ok
proof
  fix f and bs :: "u8 list"
  assume "kf_ok f" and l: "length bs < 4294967292"
  then show "kf_ok (snd (kfifo_put f bs (of_nat (length bs))))"
    "kf_contents (snd (kfifo_put f bs (of_nat (length bs)))) = kf_contents f @ take (kf_room f) bs"
    using kfifo_put_ok [of f bs "fst (kfifo_put f bs (of_nat (length bs)))" "snd (kfifo_put f bs (of_nat (length bs)))"] by simp_all
next
  fix f n
  assume ok: "kf_ok f"
  obtain r bs f' where g: "kfifo_get f n = (r, bs, f')" by (cases "kfifo_get f n")
  show "kf_ok (snd (snd (kfifo_get f n)))" "fst (snd (kfifo_get f n)) = take (unat n) (kf_contents f)"
    "kf_contents (snd (snd (kfifo_get f n))) = drop (unat n) (kf_contents f)"
    using kfifo_get_ok [OF ok g] by (simp_all add: g)
qed


section \<open>Hardware that keeps what it receives\<close>

text \<open>
  \<open>rx p c\<close> are the bytes in the receive FIFO of port \<open>p\<close>, \<open>en p c\<close> the interrupts enabled, \<open>recv p bs c\<close> the hardware after bytes have
  arrived, of which the FIFO takes \<open>cap\<close> and then raises an interrupt.
\<close>

definition fifo_status_laws :: "'c mmio \<Rightarrow> (nat \<Rightarrow> 'c \<Rightarrow> u8 list) \<Rightarrow> (nat \<Rightarrow> 'c \<Rightarrow> u32) \<Rightarrow> bool" where
  "fifo_status_laws H rx en \<longleftrightarrow>
     (\<forall>p<2. \<forall>c. case mm_read H (REG_UART_FIFO_STATUS p) c of
        (v, c1) \<Rightarrow> (v AND FIFO_RD_READY = 0 \<longleftrightarrow> rx p c = []) \<and> (\<forall>q<2. rx q c1 = rx q c \<and> en q c1 = en q c))"

definition fifo_port_laws :: "'c mmio \<Rightarrow> (nat \<Rightarrow> 'c \<Rightarrow> u8 list) \<Rightarrow> (nat \<Rightarrow> 'c \<Rightarrow> u32) \<Rightarrow> bool" where
  "fifo_port_laws H rx en \<longleftrightarrow>
     (\<forall>p<2. \<forall>c b bs. rx p c = b # bs \<longrightarrow>
        (case mm_read H (REG_UART_FIFO_PORT p) c of
           (v, c1) \<Rightarrow> ucast (drop_bit 8 v AND 0xFF) = b \<and> (\<forall>q<2. rx q c1 = (if q = p then bs else rx q c) \<and> en q c1 = en q c)))"

definition intr_laws ::
    "'c mmio \<Rightarrow> (nat \<Rightarrow> u8 list \<Rightarrow> 'c \<Rightarrow> 'c) \<Rightarrow> nat \<Rightarrow> (nat \<Rightarrow> 'c \<Rightarrow> u8 list) \<Rightarrow> (nat \<Rightarrow> 'c \<Rightarrow> u32) \<Rightarrow> bool" where
  "intr_laws H recv cap rx en \<longleftrightarrow>
     (\<forall>p<2. \<forall>c. case mm_read H (REG_UART_INTR_ENABLE p) c of
        (v, c1) \<Rightarrow> v = en p c \<and>
          (case mm_read H (REG_UART_INTR_STATUS p) c1 of
             (st, c2) \<Rightarrow> (rx p c \<noteq> [] \<longrightarrow> st AND (RX_FIFO_NEED_READ OR UART_RX_STOP_END) \<noteq> 0) \<and>
               (\<forall>q<2. rx q (mm_write H (REG_UART_INTR_STATUS p) st c2) = rx q c \<and> en q (mm_write H (REG_UART_INTR_STATUS p) st c2) = en q c))) \<and>
     (\<forall>p<2. \<forall>v c. en p (mm_write H (REG_UART_INTR_ENABLE p) v c) = v) \<and>
     (\<forall>p<2. \<forall>bs c. rx p c = [] \<and> length bs \<le> cap \<longrightarrow>
        (\<forall>q<2. rx q (recv p bs c) = (if q = p then bs else rx q c) \<and> en q (recv p bs c) = en q c))"

definition uart_laws ::
    "'c mmio \<Rightarrow> (nat \<Rightarrow> u8 list \<Rightarrow> 'c \<Rightarrow> 'c) \<Rightarrow> nat \<Rightarrow> (nat \<Rightarrow> 'c \<Rightarrow> u8 list) \<Rightarrow> (nat \<Rightarrow> 'c \<Rightarrow> u32) \<Rightarrow> bool" where
  "uart_laws H recv cap rx en \<longleftrightarrow> fifo_status_laws H rx en \<and> fifo_port_laws H rx en \<and> intr_laws H recv cap rx en"

text \<open>The enabled interrupts stay those of \<open>uart_hw_set_change\<close>.\<close>

definition rx_only :: u32 where "rx_only = RX_FIFO_NEED_READ OR UART_RX_STOP_END"

definition listening :: "(nat \<Rightarrow> 'c \<Rightarrow> u8 list) \<Rightarrow> (nat \<Rightarrow> 'c \<Rightarrow> u32) \<Rightarrow> nat \<Rightarrow> u8 list \<Rightarrow> 'c \<Rightarrow> bool" where
  "listening rx en p bs c \<longleftrightarrow> rx p c = bs \<and> en p c = rx_only"

lemma status_read:
  assumes "uart_laws H recv cap rx en" "p < 2" "listening rx en p bs c"
  obtains v c1 where "mm_read H (REG_UART_FIFO_STATUS p) c = (v, c1)" "v AND FIFO_RD_READY = 0 \<longleftrightarrow> bs = []" "listening rx en p bs c1"
proof -
  obtain v c1 where r: "mm_read H (REG_UART_FIFO_STATUS p) c = (v, c1)" by fastforce
  have "case mm_read H (REG_UART_FIFO_STATUS p) c of
      (v, c1) \<Rightarrow> (v AND FIFO_RD_READY = 0 \<longleftrightarrow> rx p c = []) \<and> (\<forall>q<2. rx q c1 = rx q c \<and> en q c1 = en q c)"
    by (rule assms(1) [unfolded uart_laws_def fifo_status_laws_def, THEN conjunct1, rule_format, OF assms(2)])
  then show thesis using assms(2,3) that [of v c1] r by (simp add: listening_def)
qed

lemma byte_picked:
  assumes "uart_laws H recv cap rx en" "p < 2" "listening rx en p (b # bs) c"
  obtains c1 where "uart_pick H p c = (b, c1)" "listening rx en p bs c1"
proof -
  obtain v c1 where r: "mm_read H (REG_UART_FIFO_PORT p) c = (v, c1)" by fastforce
  have "case mm_read H (REG_UART_FIFO_PORT p) c of
      (v, c1) \<Rightarrow> ucast (drop_bit 8 v AND 0xFF) = b \<and> (\<forall>q<2. rx q c1 = (if q = p then bs else rx q c) \<and> en q c1 = en q c)"
    using assms(3) by (intro assms(1) [unfolded uart_laws_def fifo_port_laws_def, THEN conjunct2, THEN conjunct1, rule_format, OF assms(2)])
      (simp add: listening_def)
  then have "uart_pick H p c = (b, c1)" "listening rx en p bs c1"
    using assms(2,3) by (auto simp: r uart_pick_def listening_def)
  then show thesis by (rule that)
qed

lemma read_frame_drains:
  assumes laws: "uart_laws H recv cap rx en" and p: "p < 2"
  shows "listening rx en p bs c \<Longrightarrow> kf_ok f \<Longrightarrow>
    \<exists>m f1 c1. read_frame H p (Some f) n c = Some (Ret (m, Some f1, c1)) \<and> listening rx en p [] c1 \<and> kf_ok f1 \<and>
      kf_contents f1 = kf_contents f @ take (kf_room f) bs \<and> kf_size f1 = kf_size f"
proof (induction bs arbitrary: c f n)
  case Nil
  obtain v c1 where "mm_read H (REG_UART_FIFO_STATUS p) c = (v, c1)" "v AND FIFO_RD_READY = 0" "listening rx en p [] c1"
    using status_read [OF laws p Nil(1)] by auto
  then show ?case using Nil(2) by (subst read_frame.simps) simp
next
  case (Cons b bs)
  obtain v c1 where st: "mm_read H (REG_UART_FIFO_STATUS p) c = (v, c1)" "v AND FIFO_RD_READY \<noteq> 0" "listening rx en p (b # bs) c1"
    using status_read [OF laws p Cons.prems(1)] by auto
  obtain c2 where c2: "uart_pick H p c1 = (b, c2)" "listening rx en p bs c2" by (rule byte_picked [OF laws p st(3)])
  obtain r f1 where put: "kfifo_put f [b] 1 = (r, f1)" by fastforce
  have f1: "kf_ok f1" "kf_contents f1 = kf_contents f @ take (kf_room f) [b]" "kf_size f1 = kf_size f"
    using kfifo_put_ok [OF Cons.prems(2), of "[b]" r f1] put by simp_all
  have "take (kf_room f) [b] @ take (kf_room f1) bs = take (kf_room f) (b # bs)"
  proof -
    have "kf_room f1 = kf_room f - length (take (kf_room f) [b])" by (simp add: kf_room_def f1)
    then show ?thesis by (cases "kf_room f") simp_all
  qed
  moreover obtain m f2 c3 where "read_frame H p (Some f1) (n + r) c2 = Some (Ret (m, Some f2, c3))" "listening rx en p [] c3" "kf_ok f2"
      "kf_contents f2 = kf_contents f1 @ take (kf_room f1) bs" "kf_size f2 = kf_size f1"
    using Cons.IH [OF c2(2) f1(1), of "n + r"] by blast
  ultimately show ?case using st c2 put f1 by (subst read_frame.simps) simp
qed

lemma read_byte_waiting:
  assumes laws: "uart_laws H recv cap rx en" and p: "p < 2" and at: "listening rx en p bs c"
  obtains c1 where "uart_read_byte H p c = (case bs of [] \<Rightarrow> - 1 | b # _ \<Rightarrow> uint b, c1)" "listening rx en p (tl bs) c1"
proof -
  obtain v c1 where st: "mm_read H (REG_UART_FIFO_STATUS p) c = (v, c1)" "v AND FIFO_RD_READY = 0 \<longleftrightarrow> bs = []" "listening rx en p bs c1"
    by (rule status_read [OF laws p at])
  show thesis
  proof (cases bs)
    case Nil
    then show thesis using st that [of c1] by (simp add: uart_read_byte_def)
  next
    case (Cons b bs')
    obtain c2 where "uart_pick H p c1 = (b, c2)" "listening rx en p bs' c2" using byte_picked [OF laws p, of b bs' c1] st(3) Cons by auto
    then show thesis using st Cons that [of c2] by (simp add: uart_read_byte_def)
  qed
qed

lemma ty_pump_drains:
  assumes laws: "uart_laws H recv cap rx en" and p: "p < 2"
  shows "listening rx en p bs c \<Longrightarrow> uart_push_all S bs us = Some us1 \<Longrightarrow>
    \<exists>c1. ty_pump H S p c us = Some (Ret (c1, us1)) \<and> listening rx en p [] c1"
proof (induction bs arbitrary: c us)
  case Nil
  obtain c1 where "uart_read_byte H p c = (- 1, c1)" "listening rx en p [] c1"
    using read_byte_waiting [OF laws p Nil(1)] by auto
  then show ?case using Nil(2) by (subst ty_pump.simps) simp
next
  case (Cons b bs)
  obtain c1 where c1: "uart_read_byte H p c = (uint b, c1)" "listening rx en p bs c1"
    using read_byte_waiting [OF laws p Cons.prems(1)] by auto
  obtain us2 where us2: "uart_push S b us = Some us2" "uart_push_all S bs us2 = Some us1"
    using Cons.prems(2) by (auto simp: bind_eq_Some_conv)
  have "0 \<le> uint b" by simp
  then have "uint b \<noteq> - 1" by linarith
  then show ?case using c1 us2 Cons.IH [OF c1(2) us2(2)] by (subst ty_pump.simps) simp
qed


text \<open>The interrupt on a port that listens.\<close>

lemma rx_only_masks [simp]:
  "(st AND rx_only) AND TX_FIFO_NEED_WRITE = 0" "(st AND rx_only) AND UART_RX_PARITY_ERR = 0" "(st AND rx_only) AND UART_TX_STOP_END = 0"
  "(st AND rx_only) AND (RX_FIFO_NEED_READ OR UART_RX_STOP_END) = st AND (RX_FIFO_NEED_READ OR UART_RX_STOP_END)"
proof -
  have c: "rx_only AND TX_FIFO_NEED_WRITE = 0" "rx_only AND UART_RX_PARITY_ERR = 0" "rx_only AND UART_TX_STOP_END = 0"
    "rx_only AND (RX_FIFO_NEED_READ OR UART_RX_STOP_END) = (RX_FIFO_NEED_READ OR UART_RX_STOP_END)"
    by (simp_all add: rx_only_def RX_FIFO_NEED_READ_def UART_RX_STOP_END_def TX_FIFO_NEED_WRITE_def UART_RX_PARITY_ERR_def UART_TX_STOP_END_def)
  show "(st AND rx_only) AND TX_FIFO_NEED_WRITE = 0" "(st AND rx_only) AND UART_RX_PARITY_ERR = 0" "(st AND rx_only) AND UART_TX_STOP_END = 0"
    "(st AND rx_only) AND (RX_FIFO_NEED_READ OR UART_RX_STOP_END) = st AND (RX_FIFO_NEED_READ OR UART_RX_STOP_END)"
    by (simp_all only: and.assoc c and_zero_eq)
qed

lemma isr_rest_quiet [simp]: "isr_rest H cb p (st AND rx_only) (d, c, w) = Some (Ret (d, c, w))"
  by (simp add: isr_rest_def)

lemma uart_isr_listening:
  assumes laws: "uart_laws H recv cap rx en" and p: "p < 2" and at: "listening rx en p bs c"
  obtains c1 where "listening rx en p bs c1"
    "bs \<noteq> [] \<Longrightarrow> uart_isr H cb q p (d, c, w) =
       run_then (if q then frame_in H p (d, c1) else Some (Ret (d, c1)))
         (\<lambda>(d1, c2). run_then (receive_callback H cb d1 p (c2, w)) (\<lambda>(c3, w1). Some (Ret (d1, c3, w1))))"
    "bs = [] \<Longrightarrow> uart_isr H cb q p (d, c, w) = Some (Ret (d, c1, w)) \<or> uart_isr H cb q p (d, c, w) =
       run_then (if q then frame_in H p (d, c1) else Some (Ret (d, c1)))
         (\<lambda>(d1, c2). run_then (receive_callback H cb d1 p (c2, w)) (\<lambda>(c3, w1). Some (Ret (d1, c3, w1))))"
proof -
  obtain v c1 where r1: "mm_read H (REG_UART_INTR_ENABLE p) c = (v, c1)" by fastforce
  obtain st c2 where r2: "mm_read H (REG_UART_INTR_STATUS p) c1 = (st, c2)" by fastforce
  define c3 where "c3 = mm_write H (REG_UART_INTR_STATUS p) st c2"
  have "case mm_read H (REG_UART_INTR_ENABLE p) c of
        (v, c1) \<Rightarrow> v = en p c \<and>
          (case mm_read H (REG_UART_INTR_STATUS p) c1 of
             (st, c2) \<Rightarrow> (rx p c \<noteq> [] \<longrightarrow> st AND (RX_FIFO_NEED_READ OR UART_RX_STOP_END) \<noteq> 0) \<and>
               (\<forall>q<2. rx q (mm_write H (REG_UART_INTR_STATUS p) st c2) = rx q c \<and> en q (mm_write H (REG_UART_INTR_STATUS p) st c2) = en q c))"
    by (rule laws [unfolded uart_laws_def intr_laws_def, THEN conjunct2, THEN conjunct2, THEN conjunct1, rule_format, OF p])
  then have i: "v = rx_only" "bs \<noteq> [] \<Longrightarrow> st AND (RX_FIFO_NEED_READ OR UART_RX_STOP_END) \<noteq> 0" "listening rx en p bs c3"
    using at p by (simp_all add: r1 r2 c3_def listening_def)
  have rest: "isr_rest H cb p (st AND rx_only) = (\<lambda>s. Some (Ret s))" by (rule ext) (auto simp: split_paired_all)
  have isr: "uart_isr H cb q p (d, c, w) =
      (if st AND (RX_FIFO_NEED_READ OR UART_RX_STOP_END) \<noteq> 0 then
         run_then (if q then frame_in H p (d, c3) else Some (Ret (d, c3)))
           (\<lambda>(d1, c2). run_then (receive_callback H cb d1 p (c2, w)) (\<lambda>(c3, w1). Some (Ret (d1, c3, w1))))
       else Some (Ret (d, c3, w)))"
    by (simp add: uart_isr_def r1 r2 i(1) Let_def rest run_then_Ret c3_def [symmetric])
  show thesis by (rule that [OF i(3)]) (use isr i(2) in auto)
qed


section \<open>A port with its callback\<close>

text \<open>Bytes arrive on the line and the interrupt runs, or the application reads.\<close>

datatype line_event = Arrive "u8 list" | Fetch u32

fun port_run ::
    "('f uart_drv \<times> 'c \<times> 's ty_state \<Rightarrow> ('f uart_drv \<times> 'c \<times> 's ty_state) c_run option) \<Rightarrow> (nat \<Rightarrow> u8 list \<Rightarrow> 'c \<Rightarrow> 'c) \<Rightarrow>
     's sem_ops \<Rightarrow> nat \<Rightarrow> line_event list \<Rightarrow> 'f uart_drv \<times> 'c \<times> 's ty_state \<Rightarrow> (u8 list \<times> 'f uart_drv \<times> 'c \<times> 's ty_state) c_run option" where
  "port_run isr recv S p [] s = Some (Ret ([], s))"
| "port_run isr recv S p (Arrive bs # es) (d, c, w) = run_then (isr (d, recv p bs c, w)) (port_run isr recv S p es)"
| "port_run isr recv S p (Fetch n # es) (d, c, w) =
     (case port_get S p n w of
        (out, w1) \<Rightarrow> run_then (port_run isr recv S p es (d, c, w1)) (\<lambda>(outs, s). Some (Ret (out @ outs, s))))"

fun fifo_of :: "line_event \<Rightarrow> u8 fifo_op" where
  "fifo_of (Arrive bs) = Put bs"
| "fifo_of (Fetch n) = Get n"

definition bursts_fit :: "nat \<Rightarrow> line_event list \<Rightarrow> bool" where
  "bursts_fit cap es \<longleftrightarrow> list_all (\<lambda>e. case e of Arrive bs \<Rightarrow> length bs \<le> cap | Fetch _ \<Rightarrow> True) es"

lemma fit_short: "bursts_fit cap es \<Longrightarrow> cap < 4294967292 \<Longrightarrow> short_puts (map fifo_of es)"
proof (induction es)
  case (Cons e es)
  then show ?case by (cases e) (simp_all add: bursts_fit_def)
qed (simp add: bursts_fit_def)

lemma arrived:
  assumes "uart_laws H recv cap rx en" "p < 2" "listening rx en p [] c" "length bs \<le> cap"
  shows "listening rx en p bs (recv p bs c)"
proof -
  have "rx p (recv p bs c) = (if p = p then bs else rx p c) \<and> en p (recv p bs c) = en p c"
    using assms(3,4)
    by (intro assms(1) [unfolded uart_laws_def intr_laws_def, THEN conjunct2, THEN conjunct2, THEN conjunct2, THEN conjunct2,
        rule_format, OF assms(2) _ assms(2)]) (simp add: listening_def)
  then show ?thesis using assms(2,3) by (simp add: listening_def)
qed

lemma ty_callback_drains:
  assumes laws: "uart_laws H recv cap rx en" and p: "p < 2" and at: "listening rx en p bs c" and ok: "port_ok p w"
  obtains c1 where "ty_callback H S p (c, w) = Some (Ret (c1, port_put S p bs w))" "listening rx en p [] c1"
proof -
  obtain us sem where w: "w = (us, sem)" by (cases w)
  obtain st where st: "ty_read_uart_data_to_buffer S p bs w = Some st" using port_put_ok [OF ok] by blast
  then obtain u1 sem1 where push: "uart_push_all S bs (us ! p, sem) = Some (u1, sem1)" "st = (us[p := u1], sem1)"
    by (auto simp: ty_read_uart_data_to_buffer_def w)
  obtain c1 where "ty_pump H S p c (us ! p, sem) = Some (Ret (c1, u1, sem1))" "listening rx en p [] c1"
    using ty_pump_drains [OF laws p at push(1)] by blast
  then show thesis using that [of c1] push(2) st by (simp add: ty_callback_def w port_put_def)
qed

lemma uart1_step:
  assumes laws: "uart_laws H recv cap rx en" and at: "listening rx en 0 bs c" and ok: "port_ok 0 w"
    and cb: "uart_receive_callback d ! 0 = Some f" "cb f 0 = ty_callback H S 0"
  obtains c1 where "uart1_isr H cb False (d, c, w) = Some (Ret (d, c1, port_put S 0 bs w))" "listening rx en 0 [] c1"
proof -
  obtain c0 where c0: "listening rx en 0 bs c0"
    and full: "bs \<noteq> [] \<Longrightarrow> uart_isr H cb False 0 (d, c, w) =
       run_then (Some (Ret (d, c0))) (\<lambda>(d1, c2). run_then (receive_callback H cb d1 0 (c2, w)) (\<lambda>(c3, w1). Some (Ret (d1, c3, w1))))"
    and empty: "bs = [] \<Longrightarrow> uart_isr H cb False 0 (d, c, w) = Some (Ret (d, c0, w)) \<or> uart_isr H cb False 0 (d, c, w) =
       run_then (Some (Ret (d, c0))) (\<lambda>(d1, c2). run_then (receive_callback H cb d1 0 (c2, w)) (\<lambda>(c3, w1). Some (Ret (d1, c3, w1))))"
    using uart_isr_listening [OF laws _ at, of cb False d w] by auto
  obtain c1 where c1: "ty_callback H S 0 (c0, w) = Some (Ret (c1, port_put S 0 bs w))" "listening rx en 0 [] c1"
    by (rule ty_callback_drains [OF laws _ c0 ok]) simp
  have put: "port_put S 0 [] w = w" using ok by (cases w) (simp add: port_put_def ty_read_uart_data_to_buffer_def)
  show thesis
  proof (cases "bs = [] \<and> uart_isr H cb False 0 (d, c, w) = Some (Ret (d, c0, w))")
    case True
    then show thesis using that [of c0] c0 put by (simp add: uart1_isr_def UART1_PORT_def)
  next
    case False
    then show thesis using that [of c1] c1 full empty cb by (auto simp: uart1_isr_def UART1_PORT_def receive_callback_def)
  qed
qed

lemma uart1_run:
  assumes laws: "uart_laws H recv cap rx en" and cap: "cap < 4294967292"
    and cb: "uart_receive_callback d ! 0 = Some f" "cb f 0 = ty_callback H S 0"
  shows "bursts_fit cap es \<Longrightarrow> listening rx en 0 [] c \<Longrightarrow> port_ok 0 w \<Longrightarrow>
    \<exists>c1. port_run (uart1_isr H cb False) recv S 0 es (d, c, w) =
      (case fifo_run (port_put S 0) (port_get S 0) (map fifo_of es) w of (outs, w1) \<Rightarrow> Some (Ret (outs, d, c1, w1)))"
proof (induction es arbitrary: c w)
  case (Cons e es)
  show ?case
  proof (cases e)
    case (Arrive bs)
    have fit: "length bs \<le> cap" "bursts_fit cap es" using Cons.prems(1) Arrive by (simp_all add: bursts_fit_def)
    obtain c1 where c1: "uart1_isr H cb False (d, recv 0 bs c, w) = Some (Ret (d, c1, port_put S 0 bs w))" "listening rx en 0 [] c1"
      by (rule uart1_step [where H = H and d = d and cb = cb and S = S and bs = bs,
          OF laws arrived [OF laws _ Cons.prems(2) fit(1)] Cons.prems(3) cb]) simp_all
    have "port_ok 0 (port_put S 0 bs w)" using fit(1) cap Cons.prems(3) by (intro uart.put_ok) simp_all
    from Cons.IH [OF fit(2) c1(2) this] c1(1) show ?thesis by (simp add: Arrive)
  next
    case (Fetch n)
    have fit: "bursts_fit cap es" using Cons.prems(1) Fetch by (simp add: bursts_fit_def)
    obtain out w1 where g: "port_get S 0 n w = (out, w1)" by (cases "port_get S 0 n w")
    have "port_ok 0 w1" using uart.get_ok [OF Cons.prems(3), of S n] g by simp
    from Cons.IH [OF fit Cons.prems(2) this] show ?thesis by (auto simp: Fetch g split: prod.splits)
  qed
qed simp


section \<open>The other port\<close>

lemma uart2_step:
  assumes laws: "uart_laws H recv cap rx en" and at: "listening rx en 1 bs c" and ok: "port_ok 1 w" "kf_ok q"
    and d: "uart_receive_callback d ! 1 = Some f" "us_rx (uarts d ! 1) = Some q" "length (uarts d) = 2" and cb: "cb f 1 = ty_callback H S 1"
  obtains c1 q1 where "uart2_isr H cb (d, c, w) = Some (Ret (d\<lparr>uarts := (uarts d)[1 := (uarts d ! 1)\<lparr>us_rx := Some q1\<rparr>]\<rparr>, c1, w))"
    "listening rx en 1 [] c1" "kf_ok q1" "kf_contents q1 = kf_contents q @ take (kf_room q) bs" "kf_size q1 = kf_size q"
proof -
  obtain c0 where c0: "listening rx en 1 bs c0"
    and full: "bs \<noteq> [] \<Longrightarrow> uart_isr H cb True 1 (d, c, w) =
       run_then (frame_in H 1 (d, c0)) (\<lambda>(d1, c2). run_then (receive_callback H cb d1 1 (c2, w)) (\<lambda>(c3, w1). Some (Ret (d1, c3, w1))))"
    and empty: "bs = [] \<Longrightarrow> uart_isr H cb True 1 (d, c, w) = Some (Ret (d, c0, w)) \<or> uart_isr H cb True 1 (d, c, w) =
       run_then (frame_in H 1 (d, c0)) (\<lambda>(d1, c2). run_then (receive_callback H cb d1 1 (c2, w)) (\<lambda>(c3, w1). Some (Ret (d1, c3, w1))))"
    using uart_isr_listening [OF laws _ at, of cb True d w] by auto
  obtain m q1 c1 where q1: "read_frame H 1 (Some q) 0 c0 = Some (Ret (m, Some q1, c1))" "listening rx en 1 [] c1" "kf_ok q1"
      "kf_contents q1 = kf_contents q @ take (kf_room q) bs" "kf_size q1 = kf_size q"
    using read_frame_drains [OF laws _ c0 ok(2), of 0] by auto
  define d1 where "d1 = d\<lparr>uarts := (uarts d)[1 := (uarts d ! 1)\<lparr>us_rx := Some q1\<rparr>]\<rparr>"
  have frame: "frame_in H 1 (d, c0) = Some (Ret (d1, c1))" by (simp add: frame_in_def d(2) uart_read_fifo_frame_def q1(1) d1_def del: One_nat_def)
  have put: "port_put S 1 [] w = w" using ok by (cases w) (simp add: port_put_def ty_read_uart_data_to_buffer_def)
  obtain c2 where "ty_callback H S 1 (c1, w) = Some (Ret (c2, port_put S 1 [] w))" and lc: "listening rx en 1 [] c2"
    by (rule ty_callback_drains [OF laws _ q1(2) ok(1), of S]) simp_all
  then have c2: "ty_callback H S 1 (c1, w) = Some (Ret (c2, w))" by (simp only: put)
  show thesis
  proof (cases "bs = [] \<and> uart_isr H cb True 1 (d, c, w) = Some (Ret (d, c0, w))")
    case True
    have "(uarts d ! 1)\<lparr>us_rx := Some q\<rparr> = uarts d ! 1" using d(2) by (cases "uarts d ! 1") simp
    then have "d\<lparr>uarts := (uarts d)[1 := (uarts d ! 1)\<lparr>us_rx := Some q\<rparr>]\<rparr> = d" by (simp only: list_update_id) simp
    then show thesis using that [of q c0] True c0 ok(2) by (simp add: uart2_isr_def UART2_PORT_def)
  next
    case False
    have "uart_receive_callback d1 ! 1 = Some f" using d(1) by (simp add: d1_def)
    then have "receive_callback H cb d1 1 (c1, w) = Some (Ret (c2, w))" using c2 cb by (simp add: receive_callback_def)
    with False full empty frame have "uart_isr H cb True 1 (d, c, w) = Some (Ret (d1, c2, w))" by auto
    then show thesis using that [of q1 c2] lc q1 by (simp add: uart2_isr_def UART2_PORT_def d1_def)
  qed
qed

definition arrivals :: "line_event list \<Rightarrow> u8 list" where
  "arrivals es = concat (map (\<lambda>e. case e of Arrive bs \<Rightarrow> bs | Fetch _ \<Rightarrow> []) es)"

lemma uart2_run:
  assumes laws: "uart_laws H recv cap rx en" and cap: "cap < 4294967292" and cb: "cb f 1 = ty_callback H S 1"
  shows "\<lbrakk>bursts_fit cap es; listening rx en 1 [] c; port_ok 1 w; port_fifo 1 w = []; kf_ok q; length (kf_contents q) \<le> unat (kf_size q);
      uart_receive_callback d ! 1 = Some f; us_rx (uarts d ! 1) = Some q; length (uarts d) = 2\<rbrakk> \<Longrightarrow>
    \<exists>d1 c1 w1 q1. port_run (uart2_isr H cb) recv S 1 es (d, c, w) = Some (Ret ([], d1, c1, w1)) \<and> port_fifo 1 w1 = [] \<and>
      us_rx (uarts d1 ! 1) = Some q1 \<and> kf_contents q1 = take (unat (kf_size q)) (kf_contents q @ arrivals es)"
proof (induction es arbitrary: c w q d)
  case Nil
  then show ?case by (simp add: arrivals_def)
next
  case (Cons e es)
  show ?case
  proof (cases e)
    case (Arrive bs)
    have fit: "length bs \<le> cap" "bursts_fit cap es" using Cons.prems(1) Arrive by (simp_all add: bursts_fit_def)
    obtain c1 q1 where s: "uart2_isr H cb (d, recv 1 bs c, w) = Some (Ret (d\<lparr>uarts := (uarts d)[1 := (uarts d ! 1)\<lparr>us_rx := Some q1\<rparr>]\<rparr>, c1, w))"
      "listening rx en 1 [] c1" "kf_ok q1" "kf_contents q1 = kf_contents q @ take (kf_room q) bs" "kf_size q1 = kf_size q"
      by (rule uart2_step [where cb = cb and S = S and H = H and d = d and bs = bs,
          OF laws arrived [OF laws _ Cons.prems(2) fit(1)] Cons.prems(3,5,7,8,9) cb]) simp_all
    let ?d = "d\<lparr>uarts := (uarts d)[1 := (uarts d ! 1)\<lparr>us_rx := Some q1\<rparr>]\<rparr>"
    have q: "kf_contents q1 = take (unat (kf_size q)) (kf_contents q @ bs)" using s(4) Cons.prems(6) by (simp add: kf_room_def)
    have "length (kf_contents q1) \<le> unat (kf_size q1)" by (simp add: q s(5))
    from Cons.IH [OF fit(2) s(2) Cons.prems(3,4) s(3) this, of ?d] Cons.prems(7,9)
    obtain d1 c2 w1 q2 where r: "port_run (uart2_isr H cb) recv S 1 es (?d, c1, w) = Some (Ret ([], d1, c2, w1))" "port_fifo 1 w1 = []"
      "us_rx (uarts d1 ! 1) = Some q2" "kf_contents q2 = take (unat (kf_size q1)) (kf_contents q1 @ arrivals es)" by auto
    have cut: "take n (take n xs @ zs) = take n (xs @ zs)" for n and xs zs :: "u8 list"
      by (cases "length xs \<le> n") simp_all
    have "kf_contents q2 = take (unat (kf_size q)) (kf_contents q @ arrivals (e # es))"
      unfolding r(4) q s(5) cut by (simp only: arrivals_def Arrive list.map concat.simps line_event.case append.assoc)
    then show ?thesis using r s(1) by (simp add: Arrive)
  next
    case (Fetch n)
    have fit: "bursts_fit cap es" using Cons.prems(1) Fetch by (simp add: bursts_fit_def)
    obtain out w1 where g: "port_get S 1 n w = (out, w1)" by (cases "port_get S 1 n w")
    have "port_ok 1 w1" "out = []" "port_fifo 1 w1 = []"
      using uart.get_ok [OF Cons.prems(3), of S n] uart.get_data [OF Cons.prems(3), of S n] uart.get_contents [OF Cons.prems(3), of S n]
        Cons.prems(4) g by simp_all
    from Cons.IH [OF fit Cons.prems(2) this(1,3) Cons.prems(5-9)] \<open>out = []\<close> show ?thesis
      by (auto simp: Fetch g arrivals_def simp del: One_nat_def)
  qed
qed

section \<open>The start of a port\<close>

lemma port_started:
  assumes "ty_uart_init S port badu bits par stop bufsz True (Some fresh) st = (None, w, Some cfg)"
    and "length (fst st) = TY_UART_NUM" "length fresh = unat bufsz" "unat bufsz \<le> 65536"
  shows "port_ok port w" "port_fifo port w = []" "stop_bits cfg = stop" "baud_rate cfg = badu"
proof -
  obtain us sem where st: "st = (us, sem)" by (cases st)
  from assms(1) have p: "port < TY_UART_NUM" "bufsz \<noteq> 0"
    "w = (us[port := \<lparr>buf_len = bufsz, buf = Some fresh, in_ix = 0, out_ix = 0,
       unblock = True, uart_sem = 0, has_sem_get = True\<rparr>], sem)"
    by (auto simp: ty_uart_init_def st split: if_splits)
  have "0 < unat bufsz" using p(2) by (simp add: unat_gt_0)
  then show "port_ok port w" "port_fifo port w = []"
    using p assms by (auto simp: port_ok_def st uart_ok_def port_fifo_def uart_fifo_def uart_fill_def)
  show "stop_bits cfg = stop" "baud_rate cfg = badu" using assms(1) by (auto simp: ty_uart_init_def st split: if_splits)
qed

lemma set_change_listens:
  assumes laws: "uart_laws H recv cap rx en" and p: "p < 2" and c: "uart_hw_set_change H p cfg c0 = Ret c" and rx: "rx p c = []"
  shows "listening rx en p [] c"
proof -
  have "en p (mm_write H (REG_UART_INTR_ENABLE p) v c1) = v" for v c1
    by (rule laws [unfolded uart_laws_def intr_laws_def, THEN conjunct2, THEN conjunct2, THEN conjunct2, THEN conjunct1, rule_format, OF p])
  then show ?thesis using c rx by (auto simp: uart_hw_set_change_def Let_def listening_def rx_only_def split: if_splits)
qed


section \<open>Two ports\<close>

text \<open>Hardware that satisfies the laws: two receive FIFOs, the enabled interrupts, and a transmitter that is always ready.\<close>

record two_uarts =
  tu_rx :: "nat \<Rightarrow> u8 list"
  tu_en :: "nat \<Rightarrow> u32"

definition tu_port_read :: "nat \<Rightarrow> u32 \<Rightarrow> two_uarts \<Rightarrow> u32 \<times> two_uarts" where
  "tu_port_read p a c =
     (if a = REG_UART_FIFO_STATUS p then (if tu_rx c p = [] then FIFO_WR_READY else FIFO_RD_READY, c)
      else if a = REG_UART_FIFO_PORT p then
        (case tu_rx c p of [] \<Rightarrow> (0, c) | b # bs \<Rightarrow> (push_bit 8 (ucast b), c\<lparr>tu_rx := (tu_rx c)(p := bs)\<rparr>))
      else if a = REG_UART_INTR_ENABLE p then (tu_en c p, c)
      else if a = REG_UART_INTR_STATUS p then (if tu_rx c p = [] then 0 else UART_RX_STOP_END, c)
      else (0, c))"

definition two_uarts_mmio :: "two_uarts mmio" where
  "two_uarts_mmio =
     \<lparr>mm_read = (\<lambda>a. if a < UART2_BASE_ADDR then tu_port_read 0 a else tu_port_read 1 a),
      mm_write = (\<lambda>a v c. if a = REG_UART_INTR_ENABLE 0 then c\<lparr>tu_en := (tu_en c)(0 := v)\<rparr>
         else if a = REG_UART_INTR_ENABLE 1 then c\<lparr>tu_en := (tu_en c)(1 := v)\<rparr> else c)\<rparr>"

definition tu_recv :: "nat \<Rightarrow> u8 list \<Rightarrow> two_uarts \<Rightarrow> two_uarts" where
  "tu_recv p bs c = c\<lparr>tu_rx := (tu_rx c)(p := tu_rx c p @ bs)\<rparr>"

lemma two_ports: "(\<forall>p<2. P p) \<longleftrightarrow> P (0 :: nat) \<and> P 1"
  by (auto simp: less_2_cases_iff)

lemma two_uarts_laws: "uart_laws two_uarts_mmio tu_recv 128 (\<lambda>p c. tu_rx c p) (\<lambda>p c. tu_en c p)"
proof -
  have "ucast (drop_bit 8 (push_bit 8 (ucast b)) AND 0xFF :: u32) = b" for b :: u8
    by (rule bit_word_eqI) (auto simp: bit_simps mask_eq_exp_minus_1 [of 8, where 'a = u32, simplified, symmetric])
  then show ?thesis
    unfolding uart_laws_def fifo_status_laws_def fifo_port_laws_def intr_laws_def two_ports
    by (auto simp: two_uarts_mmio_def tu_port_read_def tu_recv_def uart_regs FIFO_RD_READY_def FIFO_WR_READY_def UART_RX_STOP_END_def
      RX_FIFO_NEED_READ_def split: list.splits)
qed

section \<open>Properties\<close>

definition received :: "(u8 list \<times> 'f uart_drv \<times> 'c \<times> 's ty_state) c_run option \<Rightarrow> nat \<Rightarrow> u8 list \<Rightarrow> bool" where
  "received r p bs \<longleftrightarrow> (case r of Some (Ret (outs, d, c, w)) \<Rightarrow> outs @ port_fifo p w = bs | _ \<Rightarrow> False)"

text \<open>
  C38: on the first serial port, from \<open>ty_uart_init\<close> in non-blocking mode and the set-up of the line on, every burst of bytes that the
  hardware holds until its interrupt is taken by the handler and the callback into the buffer, and what the application reads is,
  in order, all that this buffer has room for.
\<close>

theorem uart1_feeds_port:
  assumes laws: "uart_laws H recv cap rx en" "cap < 4294967292"
    and init: "ty_uart_init S 0 badu bits par stop bufsz True (Some fresh) st = (None, w, Some cfg)"
    and mem: "length (fst st) = TY_UART_NUM" "length fresh = unat bufsz" "unat bufsz \<le> 65536"
    and line: "uart_hw_set_change H 0 cfg c0 = Ret c" "rx 0 c = []"
    and cb: "uart_rx_callback_set 0 (Some f) d0 = (0, d)" "length (uart_receive_callback d0) = 2" "cb f 0 = ty_callback H S 0"
    and fit: "bursts_fit cap es"
  shows "received (port_run (uart1_isr H cb False) recv S 0 es (d, c, w)) 0
    (fifo_accepted (port_put S 0) (port_get S 0) (port_room 0) (map fifo_of es) w)"
proof -
  note w = port_started [OF init mem]
  have "uart_receive_callback d ! 0 = Some f" using cb(1,2) by (auto simp: uart_rx_callback_set_def UART1_PORT_def)
  have l: "listening rx en 0 [] c" by (rule set_change_listens [OF laws(1) _ line]) simp
  from uart1_run [where H = H and cb = cb and S = S, OF laws \<open>uart_receive_callback d ! 0 = Some f\<close> cb(3) fit l w(1)]
  obtain c1 where r: "port_run (uart1_isr H cb False) recv S 0 es (d, c, w) =
      (case fifo_run (port_put S 0) (port_get S 0) (map fifo_of es) w of (outs, w1) \<Rightarrow> Some (Ret (outs, d, c1, w1)))" by auto
  have "short_puts (map fifo_of es)"
    using fit laws(2) by (rule fit_short)
  from uart.nothing_lost [OF w(1) this, of S] w(2) show ?thesis by (auto simp: received_def r split: prod.splits)
qed

text \<open>
  C39: on the second serial port nothing of this reaches the application: the handler empties the hardware into the queue of the debug
  port before it runs the callback, which finds no byte. The queue keeps the first 128 bytes, for nobody, and drops the rest.
\<close>

theorem uart2_port_deaf:
  assumes laws: "uart_laws H recv cap rx en" "cap < 4294967292"
    and init: "ty_uart_init S 1 badu bits par stop bufsz True (Some fresh) st = (None, w, Some cfg)"
    and mem: "length (fst st) = TY_UART_NUM" "length fresh = unat bufsz" "unat bufsz \<le> 65536"
    and queue: "kfifo_alloc RX_RB_LENGTH (Some qb) True = Ret (Some q)" "length qb = 128"
    and drv: "uart_sw_init 1 (Some q) (Some tx) d0 = (UART_SUCCESS, d1)" "length (uarts d0) = 2" "length (uart_receive_callback d0) = 2"
    and line: "uart_hw_set_change H 1 cfg c0 = Ret c" "rx 1 c = []"
    and cb: "uart_rx_callback_set 1 (Some f) d1 = (0, d)" "cb f 1 = ty_callback H S 1"
    and fit: "bursts_fit cap es"
  shows "case port_run (uart2_isr H cb) recv S 1 es (d, c, w) of
       Some (Ret (outs, d', c', w')) \<Rightarrow> outs = [] \<and> port_fifo 1 w' = [] \<and>
         map_option kf_contents (us_rx (uarts d' ! 1)) = Some (take 128 (arrivals es))
     | _ \<Rightarrow> False"
proof -
  note w = port_started [OF init mem]
  have q: "q = \<lparr>kf_in = 0, kf_out = 0, kf_mask = 127, kf_size = 128, kf_buffer = qb\<rparr>"
    using queue(1) by (simp add: kfifo_alloc_def kfifo_init_def RX_RB_LENGTH_def)
  have "(128 :: u32) = 2 ^ 7" by simp
  then have qo: "kf_ok q" "kf_contents q = []" "unat (kf_size q) = 128"
    using queue(2) by (auto simp: q kf_ok_def kf_contents_def intro!: exI [of _ 7])
  have d: "uart_receive_callback d ! 1 = Some f" "us_rx (uarts d ! 1) = Some q" "length (uarts d) = 2"
    using drv cb(1) by (auto simp: uart_sw_init_def uart_rx_callback_set_def UART1_PORT_def UART2_PORT_def)
  have l: "listening rx en 1 [] c" by (rule set_change_listens [OF laws(1) _ line]) simp
  have small: "length (kf_contents q) \<le> unat (kf_size q)" by (simp add: qo)
  from uart2_run [where H = H and cb = cb and S = S, OF laws cb(2) fit l w(1,2) qo(1) small d]
  obtain d' c' w' q' where r: "port_run (uart2_isr H cb) recv S 1 es (d, c, w) = Some (Ret ([], d', c', w'))" "port_fifo 1 w' = []"
    "us_rx (uarts d' ! 1) = Some q'" "kf_contents q' = take (unat (kf_size q)) (kf_contents q @ arrivals es)" by blast
  show ?thesis unfolding r(1) using r(2-4) by (simp add: qo)
qed


definition TYS_STOPBIT1 :: u32 where "TYS_STOPBIT1 = 1"
definition TYS_STOPBIT1_5 :: u32 where "TYS_STOPBIT1_5 = 2"
definition TYS_STOPBIT2 :: u32 where "TYS_STOPBIT2 = 3"

lemma small_bits: "(w :: u32) < 2 ^ k \<Longrightarrow> k \<le> n \<Longrightarrow> k < 32 \<Longrightarrow> \<not> bit w n"
  by (metis bit_take_bit_iff leD take_bit_eq_self_iff_drop_bit_eq_0 less_mask_eq take_bit_eq_mask)

lemma line_fields:
  assumes "stop_bits cfg < 4"
  shows "drop_bit 8 (line_config cfg) = ((UART_CLOCK div baud_rate cfg - 1) AND UART_CLK_DIVID_MASK) OR drop_bit 1 (stop_bits cfg)"
    "line_config cfg AND UART_STOP_LEN_2 = 0 \<longleftrightarrow> \<not> bit (stop_bits cfg) 0"
proof -
  define v where "v = (UART_CLOCK div baud_rate cfg - 1) AND UART_CLK_DIVID_MASK"
  define low where "low = UART_TX_ENABLE OR (UART_RX_ENABLE AND NOT UART_IRDA) OR push_bit UART_DATA_LEN_POSI (data_width cfg AND UART_DATA_LEN_MASK) OR
         push_bit 5 (if parity cfg \<noteq> 0 then 1 else 0) OR push_bit 6 (if parity cfg \<noteq> 0 \<and> parity cfg = BK_PARITY_ODD then 1 else 0)"
  have line: "line_config cfg = low OR push_bit 7 (stop_bits cfg) OR push_bit 8 v"
    by (simp add: line_config_def Let_def low_def v_def UART_CLK_DIVID_POSI_def or.assoc)
  have three: "(3 :: u32) = mask 2" by (simp add: mask_eq_exp_minus_1)
  have low: "\<not> bit low n" if "7 \<le> n" for n
    using that unfolding low_def UART_DATA_LEN_MASK_def three
    by (auto simp: bit_simps UART_TX_ENABLE_def UART_RX_ENABLE_def UART_DATA_LEN_POSI_def bit_1_iff)
  have stop: "\<not> bit (stop_bits cfg) n" if "2 \<le> n" for n using assms that by (intro small_bits [of _ 2]) simp_all
  have "v \<le> 0x1FFF" unfolding v_def UART_CLK_DIVID_MASK_def by (rule word_and_le1)
  then have "v < 2 ^ 13" by (simp add: word_le_nat_alt word_less_nat_alt)
  then have v: "\<not> bit v n" if "13 \<le> n" for n using that by (intro small_bits [of v 13]) simp_all
  show "drop_bit 8 (line_config cfg) = v OR drop_bit 1 (stop_bits cfg)"
  proof (rule bit_word_eqI)
    fix n assume "n < LENGTH(32)"
    have small: "bit v n \<longrightarrow> n < 13" using v [of n] by (meson not_le)
    show "bit (drop_bit 8 (line_config cfg)) n = bit (v OR drop_bit 1 (stop_bits cfg)) n"
      using low [of "8 + n"] stop [of "Suc n"] small \<open>n < LENGTH(32)\<close> by (cases n) (auto simp: line bit_simps)
  qed
  have "bit (line_config cfg) 7 = bit (stop_bits cfg) 0" using low [of 7] by (simp add: line bit_simps)
  moreover have "line_config cfg AND UART_STOP_LEN_2 = 0 \<longleftrightarrow> \<not> bit (line_config cfg) 7"
  proof -
    have e: "UART_STOP_LEN_2 = 2 ^ 7" by (simp add: UART_STOP_LEN_2_def)
    show ?thesis unfolding e by (rule and_exp_eq_0_iff_not_bit)
  qed
  ultimately show "line_config cfg AND UART_STOP_LEN_2 = 0 \<longleftrightarrow> \<not> bit (stop_bits cfg) 0" by simp
qed


text \<open>
  C40: what \<open>ty_uart_init\<close> asks for is not what the line gets. The driver numbers stop bits from 0, the Tuya layer from 1, and the
  register's fields are not cut: one stop bit is sent as two, and the values for one and a half and for two set the lowest bit of the
  divisor of the clock, by whose 13 bits the slow rates are cut as well.
\<close>

theorem tuya_line_wrong:
  assumes init: "ty_uart_init S port badu bits par stop bufsz True (Some fresh) st = (None, w, Some cfg)"
    and mem: "length (fst st) = TY_UART_NUM" "length fresh = unat bufsz" "unat bufsz \<le> 65536"
  shows "(stop = TYS_STOPBIT1 \<longrightarrow> line_config cfg AND UART_STOP_LEN_2 \<noteq> 0 \<and>
        drop_bit 8 (line_config cfg) = (UART_CLOCK div badu - 1) AND UART_CLK_DIVID_MASK) \<and>
     (stop = TYS_STOPBIT1_5 \<longrightarrow> line_config cfg AND UART_STOP_LEN_2 = 0 \<and>
        drop_bit 8 (line_config cfg) = ((UART_CLOCK div badu - 1) AND UART_CLK_DIVID_MASK) OR 1) \<and>
     (stop = TYS_STOPBIT2 \<longrightarrow> line_config cfg AND UART_STOP_LEN_2 \<noteq> 0 \<and>
        drop_bit 8 (line_config cfg) = ((UART_CLOCK div badu - 1) AND UART_CLK_DIVID_MASK) OR 1)"
proof -
  have "drop_bit (Suc 0) (3 :: u32) = 1" "drop_bit (Suc 0) (2 :: u32) = 1" "drop_bit (Suc 0) (1 :: u32) = 0"
    "bit (3 :: u32) 0" "\<not> bit (2 :: u32) 0"
    by (simp_all add: drop_bit_eq_div bit_0)
  then show ?thesis
    using line_fields [of cfg] port_started(3,4) [OF init mem]
    by (simp add: TYS_STOPBIT1_def TYS_STOPBIT1_5_def TYS_STOPBIT2_def)
qed


lemma tuya_line_wrong_witness:
  "line_config \<lparr>baud_rate = 115200, data_width = 3, parity = 0, stop_bits = 1, flow_control = 0, uart_flags = 0\<rparr> AND UART_STOP_LEN_2 \<noteq> 0"
  using tuya_line_wrong [where S = one_sem and port = 0 and badu = 115200 and bits = 3 and par = 0 and stop = 1 and bufsz = 16 and
      fresh = "replicate 16 0" and st = "(replicate 2 uart_zero, 0)"]
  by (simp add: ty_uart_init_def TY_UART_NUM_def uart_zero_def TYS_STOPBIT1_def)

definition demo_cfg :: uart_config where
  "demo_cfg = \<lparr>baud_rate = 115200, data_width = 3, parity = 0, stop_bits = 0, flow_control = 0, uart_flags = 0\<rparr>"

definition demo_drv :: "unit uart_drv" where
  "demo_drv = \<lparr>uarts = replicate 2 \<lparr>us_status = 0, us_rx = None, us_tx = None\<rparr>, uart_receive_callback = [None, None],
     uart_txfifo_needwr_callback = [None, None], uart_tx_end_callback = [None, None]\<rparr>"

definition demo_queue :: "u8 list \<Rightarrow> kfifo" where
  "demo_queue b = \<lparr>kf_in = 0, kf_out = 0, kf_mask = 127, kf_size = 128, kf_buffer = b\<rparr>"

definition demo_port :: "nat \<Rightarrow> nat ty_state" where
  "demo_port p = ((replicate 2 uart_zero)[p := \<lparr>buf_len = 16, buf = Some (replicate 16 0), in_ix = 0, out_ix = 0, unblock = True,
     uart_sem = 0, has_sem_get = True\<rparr>], 0)"

lemma demo_init:
  "p < 2 \<Longrightarrow> ty_uart_init one_sem p 115200 3 0 0 16 True (Some (replicate 16 0)) (replicate 2 uart_zero, 0) = (None, demo_port p, Some demo_cfg)"
  by (simp add: ty_uart_init_def demo_port_def demo_cfg_def TY_UART_NUM_def uart_zero_def)

lemma demo_set_change:
  "uart_hw_set_change two_uarts_mmio 0 demo_cfg \<lparr>tu_rx = (\<lambda>_. []), tu_en = (\<lambda>_. 0)\<rparr> = Ret \<lparr>tu_rx = (\<lambda>_. []), tu_en = (\<lambda>_. 0)(0 := 0x42)\<rparr>"
  "uart_hw_set_change two_uarts_mmio 1 demo_cfg \<lparr>tu_rx = (\<lambda>_. []), tu_en = (\<lambda>_. 0)\<rparr> = Ret \<lparr>tu_rx = (\<lambda>_. []), tu_en = (\<lambda>_. 0)(1 := 0x42)\<rparr>"
  by (simp_all add: uart_hw_set_change_def demo_cfg_def two_uarts_mmio_def uart_regs RX_FIFO_NEED_READ_def UART_RX_STOP_END_def)

lemma uart1_feeds_port_witness:
  "received (port_run (uart1_isr two_uarts_mmio (\<lambda>(_ :: unit) p. ty_callback two_uarts_mmio one_sem p) False) tu_recv one_sem 0
      [Arrive [1, 2, 3], Fetch 2]
      (demo_drv\<lparr>uart_receive_callback := [Some (), None]\<rparr>, \<lparr>tu_rx = (\<lambda>_. []), tu_en = (\<lambda>_. 0)(0 := 0x42)\<rparr>, demo_port 0)) 0 [1, 2, 3]"
proof -
  have "fifo_accepted (port_put one_sem 0) (port_get one_sem 0) (port_room 0) (map fifo_of [Arrive [1, 2, 3], Fetch 2]) (demo_port 0) = [1, 2, 3]"
    by (simp add: port_room_def demo_port_def uart_fill_def)
  then show ?thesis
    using uart1_feeds_port [OF two_uarts_laws _ demo_init [of 0] _ _ _ demo_set_change(1), where f = "()" and ?d0.0 = demo_drv and
        d = "demo_drv\<lparr>uart_receive_callback := [Some (), None]\<rparr>" and cb = "\<lambda>_ p. ty_callback two_uarts_mmio one_sem p" and
        es = "[Arrive [1, 2, 3], Fetch 2]"]
    by (simp add: TY_UART_NUM_def demo_drv_def uart_rx_callback_set_def UART1_PORT_def bursts_fit_def)
qed

lemma uart2_port_deaf_witness:
  "case port_run (uart2_isr two_uarts_mmio (\<lambda>(_ :: unit) p. ty_callback two_uarts_mmio one_sem p)) tu_recv one_sem 1 [Arrive [1, 2, 3], Fetch 2]
      (demo_drv\<lparr>uarts := (uarts demo_drv)[1 := \<lparr>us_status = 0, us_rx = Some (demo_queue (replicate 128 0)), us_tx = Some (demo_queue [])\<rparr>],
         uart_receive_callback := [None, Some ()]\<rparr>, \<lparr>tu_rx = (\<lambda>_. []), tu_en = (\<lambda>_. 0)(1 := 0x42)\<rparr>, demo_port 1) of
     Some (Ret (outs, d', c', w')) \<Rightarrow> outs = [] \<and> map_option kf_contents (us_rx (uarts d' ! 1)) = Some [1, 2, 3]
   | _ \<Rightarrow> False"
proof -
  have q: "kfifo_alloc RX_RB_LENGTH (Some (replicate 128 0)) True = Ret (Some (demo_queue (replicate 128 0)))"
    by (simp add: kfifo_alloc_def kfifo_init_def RX_RB_LENGTH_def demo_queue_def)
  show ?thesis
    using uart2_port_deaf [OF two_uarts_laws _ demo_init [of 1] _ _ _ q _ _ _ _ demo_set_change(2), where f = "()" and ?d0.0 = demo_drv and
        tx = "demo_queue []" and
        ?d1.0 = "demo_drv\<lparr>uarts := (uarts demo_drv)[1 := \<lparr>us_status = 0, us_rx = Some (demo_queue (replicate 128 0)), us_tx = Some (demo_queue [])\<rparr>]\<rparr>" and
        d = "demo_drv\<lparr>uarts := (uarts demo_drv)[1 := \<lparr>us_status = 0, us_rx = Some (demo_queue (replicate 128 0)), us_tx = Some (demo_queue [])\<rparr>],
           uart_receive_callback := [None, Some ()]\<rparr>" and
        cb = "\<lambda>_ p. ty_callback two_uarts_mmio one_sem p" and es = "[Arrive [1, 2, 3], Fetch 2]"]
    by (simp add: TY_UART_NUM_def demo_drv_def uart_rx_callback_set_def uart_sw_init_def UART1_PORT_def UART2_PORT_def bursts_fit_def arrivals_def
      split: option.splits c_run.splits prod.splits)
qed

end
