(* ===== verification/Spec2Isabelle.thy ===== *)
theory Spec2Isabelle
  imports Tuya_Ota Tuya_Uart Audio_Ring Drv_Model Flash Net_Param Role_Launch Airkiss_Scan Dhcp_Exchange Gpio_Test Sample_Spec Sys_Clock Multi_Button Tftp_Ota Uart_Drv
begin

text \<open>
  A verification library for the firmware of the BK7231 Wi-Fi chip: Beken's SDK (\<open>beken378\<close>) with the Tuya application layer
  (\<open>project\<close>). This theory imports the others and holds this overview; every theory opens with what it models.

  \<^bold>\<open>The program.\<close> Drivers (\<open>beken378/driver\<close>) register with a table of devices and reach the hardware by registers; interrupts
  go through one dispatcher. On top of them are user drivers and functions (\<open>beken378/func\<close>): flash partitions, the stored
  network parameters, the launcher of the station and access point roles, the DHCP server of the access point, and the
  application of AirKiss, which learns the password of a network from the lengths of frames (\<open>beken378/app\<close>). The Tuya layer
  (\<open>project/tuya_common\<close>) adds pins, lights, buttons, serial ports and the firmware upgrade; the sample device
  (\<open>project/tuya_user\<close>) is a switch built from these. A real-time kernel, an IP stack, a WPA supplicant, radio calibration and
  binary libraries surround all that.

  \<^bold>\<open>How the code is modelled.\<close> Operations are functions from states to states, the names those of the C functions where HOL
  allows it. Integers that can wrap are words. What a C call does besides returning is in the type of its result
  (\<open>SDK_Prelude\<close>): \<open>Ret\<close>, \<open>Assert_Stop\<close> for a failed \<open>ASSERT\<close>, \<open>Fault\<close> for an access outside an object or through NULL, and
  \<open>option\<close> where a loop may go on for ever (\<open>None\<close>), by \<open>partial_function\<close>. Answers of code that is not in the repository, of
  the kernel and of the hardware are arguments; where a property relies on them its hypotheses say how, and a witness shows them
  met. Loops that end are recursive functions with their termination proofs; no fuel is used.

  \<^bold>\<open>Theories,\<close> with the files they model.

  \<^item> \<open>SDK_Prelude\<close>: words, buffers, checksums, memory; runs of calls; the contracts \<open>step_machine\<close> (a handler keeps an invariant),
    \<open>call_machine\<close> (the same for calls that may not return) and \<open>refined_machine\<close> (a machine follows its specification).
  \<^item> \<open>Tuya_Ota\<close> (\<open>tuya_main.c\<close>): the firmware upgrade, from the header through the write units to the checksum of the
    notification, over the operations of a NOR flash, which are the prebuilt library's. A download leaves exactly the image in the flash.
  \<^item> \<open>Byte_Fifo\<close>: circular buffers; the contract \<open>byte_fifo\<close> of a queue of bytes, met by \<open>Tuya_Uart\<close> (\<open>tuya_uart.c\<close>, serial ports
    with their receive buffer) and \<open>Audio_Ring\<close> (\<open>ring_buffer.c\<close>, with and without DMA). No byte is lost, repeated or reordered.
    \<open>Uart_Drv\<close> (\<open>uart.c\<close>, \<open>fifo.h\<close>): the driver below, its queues and interrupts: what reaches the application, and what does not.
  \<^item> \<open>Tuya_Key\<close> (\<open>tuya_key.c\<close>): buttons: the states of a key, the debouncing, single, repeated and long presses.
  \<^item> \<open>Drv_Model\<close> (\<open>drv_model.c\<close>, \<open>dd.c\<close>): the tables of devices, handles, user counts, dispatch by name; contracts \<open>named_table\<close>
    and \<open>named_table_del\<close>.
  \<^item> \<open>Icu\<close> (\<open>icu.c\<close>, the line switches of \<open>intc.c\<close>): register commands; contract \<open>irq_lines\<close>. \<open>Intc\<close> (\<open>intc.c\<close>,
    \<open>doubly_list.h\<close>): the list of handlers over its links, dispatch in order of priority, and what breaks it.
  \<^item> \<open>Flash\<close> (\<open>flash.c\<close>): bursts of the flash controller and protection, against a flash chip seen as a function of addresses.
    \<open>Bk_Flash\<close> (\<open>BkDriverFlash.c\<close>): partitions; contract \<open>param_sector\<close>. \<open>Net_Param\<close> (\<open>net_param.c\<close>): the table of
    parameters in its sector, refined by a map from items to values.
  \<^item> \<open>Role_Launch\<close> (\<open>role_launch.c\<close>): the queue of role requests, as a transition relation with its reachable states.
  \<^item> \<open>Airkiss\<close>, \<open>Airkiss_Decode\<close> (\<open>airkiss.c\<close>): the decoder and its inverse, a sender, whose transmissions it decodes.
    \<open>Airkiss_Scan\<close> (\<open>airkiss_main.c\<close>): the scan of channels, equal to a stable sort.
  \<^item> \<open>Dhcp_Server\<close>, \<open>Dhcp_Lease\<close>, \<open>Dhcp_Exchange\<close> (\<open>dhcp-server.c\<close>, its three sockets included): leases, the choice
    of addresses, the bytes of replies, and the exchange with a client.
  \<^item> \<open>Gpio\<close> (\<open>gpio.c\<close>, \<open>gpio_pub.h\<close>, \<open>BkDriverGpio.c\<close>, \<open>tuya_gpio.c\<close>): pins and the peripherals on them. \<open>Gpio_Test\<close>
    (\<open>gpio_test.c\<close>): the production test of pins. \<open>Tuya_Led\<close> (\<open>tuya_led.c\<close>): lights and how they flash.
  \<^item> \<open>Hw_Table\<close>, \<open>Tuya_Device\<close> (\<open>hw_table.c\<close>, \<open>tuya_device.c\<close>): the sample device over pins, lights and buttons. \<open>Device_Run\<close>: its
    start. \<open>Sample_Spec\<close>: the small machine its user sees, which every callback follows.
  \<^item> \<open>Pwm\<close> (\<open>pwm.c\<close>, \<open>BkDriverPwm.c\<close>): channels, their pins and clocks, and the interrupt handler. \<open>Sys_Clock\<close> (\<open>fake_clock.c\<close>,
    \<open>mcu_ps.c\<close>, \<open>mcu_ps_timer.c\<close>): the clock over a channel and the sleep of the processor; by \<open>refined_machine\<close>, true time.
  \<^item> \<open>Multi_Button\<close> (\<open>multi_button.c\<close>, \<open>key_main.c\<close>): the other button driver, its list of buttons and the key of the board.
  \<^item> \<open>Tftp_Ota\<close> (\<open>tftpclient.c\<close>): the upgrade by TFTP over \<open>Flash\<close>: a whole transfer leaves the image and its header.

  \<^bold>\<open>What the lemmas show.\<close> Per component: what every operation answers on every branch; an invariant and that every operation
  keeps it, usually through one of the contracts above; a specification that the operations refine where there is one (queues of
  bytes, user counts, maps of parameters, sorted channels, bitwise CRC, the machine of the sample device); round trips of formats
  (AirKiss, DHCP replies, flash protection, stored items); and the termination, or not, of the loops. Properties about errors
  show what goes wrong at an edge that the code does not guard, each with a concrete case.

  \<^bold>\<open>Concurrency.\<close> Callbacks, interrupts and threads are steps that do not interleave, in every order, except where the code itself
  is about interleaving: the audio buffers with their DMA, the serial port between interrupt and reader, the role launcher.

  \<^bold>\<open>Not modelled:\<close> third-party code (FreeRTOS, lwIP, hostapd, mbed TLS headers, FatFs, Helix MP3, the USB stack, the compiler);
  registers of the radio and its calibration, whose effects only the hardware defines; headers of binary libraries; code that only
  calls one of these (sockets, tasks, printing). Configurations for other chips are left out: the model is the one of \<open>BK7231\<close>.
\<close>

end
